(* ===== verification/Net_Prelude.thy ===== *)
theory Net_Prelude
  imports Main "HOL-Library.Word" "HOL-Library.Monad_Syntax"
begin

text \<open>
  The prelude of the development: the machine integer types the C code uses, the byte order
  functions of the C library on a little-endian host (the only byte order for which
  \<^verbatim>\<open>sr_common.h\<close> and \<^verbatim>\<open>lwip/inet.h\<close> are configured on Linux), and the generic
  lemmas on words and lists that the component theories share. Word arithmetic is moved to
  natural numbers with the collection \<open>unat_simps\<close>: addition, subtraction and comparison
  of words that do not wrap around are the operations on their values.
\<close>

unbundle bit_operations_syntax

type_synonym u8 = "8 word"
type_synonym u16 = "16 word"
type_synonym u32 = "32 word"
type_synonym u64 = "64 word"

named_theorems unat_simps

text \<open>The byte order functions of the C library: byte reversal on a little-endian host.\<close>

definition htons :: "u16 \<Rightarrow> u16" where
  "htons x = or (push_bit 8 x) (drop_bit 8 x)"

definition htonl :: "u32 \<Rightarrow> u32" where
  "htonl x = or (or (push_bit 24 x) (push_bit 16 (take_bit 8 (drop_bit 8 x))))
                (or (push_bit 8 (take_bit 8 (drop_bit 16 x))) (drop_bit 24 x))"

abbreviation ntohs :: "u16 \<Rightarrow> u16" where
  "ntohs \<equiv> htons"

abbreviation ntohl :: "u32 \<Rightarrow> u32" where
  "ntohl \<equiv> htonl"

lemma htons_htons [simp]: "htons (htons x) = x"
  unfolding htons_def by (intro bit_word_eqI) (auto simp: bit_simps)

lemma bit_htonl:
  "bit (htonl x) n \<longleftrightarrow> n < 32 \<and>
     bit x (if n < 8 then 24 + n else if n < 16 then 8 + n else if n < 24 then n - 8 else n - 24)"
  unfolding htonl_def
  by (auto simp: bit_simps add.commute dest: bit_imp_le_length split: if_splits)

lemma htonl_htonl [simp]: "htonl (htonl x) = x"
proof (intro bit_word_eqI)
  fix n assume "n < LENGTH(32)"
  then consider "n < 8" | "8 \<le> n" "n < 16" | "16 \<le> n" "n < 24" | "24 \<le> n" "n < 32"
    by fastforce
  then show "bit (htonl (htonl x)) n = bit x n"
    by cases (auto simp: bit_htonl)
qed

lemma htonl_inject [simp]: "htonl x = htonl y \<longleftrightarrow> x = y"
  by (metis htonl_htonl)

lemma htons_inject [simp]: "htons x = htons y \<longleftrightarrow> x = y"
  by (metis htons_htons)

text \<open>Words that do not wrap around behave as their values.\<close>

lemma unat_add_less [unat_simps]:
  "unat a + unat b < 2 ^ LENGTH('a) \<Longrightarrow> unat (a + b :: 'a::len word) = unat a + unat b"
  by (simp add: unat_word_ariths)

lemma unat_sub_le [unat_simps]:
  "unat b \<le> unat a \<Longrightarrow> unat (a - b :: 'a::len word) = unat a - unat b"
  by (simp add: unat_sub_if_size)

lemma word_le_unat: "(a :: 'a::len word) \<le> b \<longleftrightarrow> unat a \<le> unat b"
  by (rule word_le_nat_alt)

lemma word_less_unat: "(a :: 'a::len word) < b \<longleftrightarrow> unat a < unat b"
  by (rule word_less_nat_alt)

lemma unat_u16_less: "unat (x :: u16) < 65536"
  using unsigned_less [of x] by simp

lemma unat_u32_less: "unat (x :: u32) < 4294967296"
  using unsigned_less [of x] by simp

lemma unat_u8_less: "unat (x :: u8) < 256"
  using unsigned_less [of x] by simp

lemma unat_and_0xffff: "unat (and x 0xffff :: u32) = unat x mod 65536"
proof -
  have "and x 0xffff = take_bit 16 x"
    by (simp add: take_bit_eq_mask mask_eq_exp_minus_1)
  then show ?thesis
    by (simp add: take_bit_eq_mod unat_mod_distrib)
qed

lemma unat_drop_bit_16: "unat (drop_bit 16 x :: u32) = unat x div 65536"
  by (simp add: drop_bit_eq_div unat_div_distrib)

lemma unat_fold_sum:
  "unat (and x 0xffff + drop_bit 16 x :: u32) = unat x mod 65536 + unat x div 65536"
proof -
  have "unat x mod 65536 < 65536" "unat x div 65536 < 65536"
    using unat_u32_less [of x] by (simp_all add: div_less_iff_less_mult)
  then show ?thesis
    by (simp add: unat_add_less unat_and_0xffff unat_drop_bit_16)
qed

lemma unat_ucast_u8_u16 [simp]: "unat (ucast (x :: u8) :: u16) = unat x"
  using unat_u8_less [of x] by (simp add: unsigned_ucast_eq take_bit_eq_mod)

lemma unat_ucast_u8_u32 [simp]: "unat (ucast (x :: u8) :: u32) = unat x"
  using unat_u8_less [of x] by (simp add: unsigned_ucast_eq take_bit_eq_mod)

lemma unat_ucast_u16_u32 [simp]: "unat (ucast (x :: u16) :: u32) = unat x"
  using unat_u16_less [of x] by (simp add: unsigned_ucast_eq take_bit_eq_mod)

lemma unat_ucast_u32_u16: "unat (ucast (x :: u32) :: u16) = unat x mod 65536"
  by (simp add: unsigned_ucast_eq take_bit_eq_mod)

end
