(* ===== verification/Linked_List.thy ===== *)
theory Linked_List
  imports Net_Prelude
begin

text \<open>
  NULL-terminated linked lists in a heap, shared by the components that keep such lists (the
  work queue, the free lists of the fixed-size pools, the pbuf chains and the lists of control
  blocks). A heap is seen through a partial function \<open>nx\<close>: \<open>nx a = None\<close> means that
  there is no object at the address \<open>a\<close>, \<open>nx a = Some n\<close> that its next pointer is \<open>n\<close>, where
  the pointer \<open>None\<close> is NULL. \<open>chain nx p xs\<close> says that following the next pointers from \<open>p\<close>
  visits the objects \<open>xs\<close> and then reaches NULL.
\<close>

fun chain :: "('p \<Rightarrow> 'p option option) \<Rightarrow> 'p option \<Rightarrow> 'p list \<Rightarrow> bool" where
  "chain nx p [] \<longleftrightarrow> p = None"
| "chain nx p (a # as) \<longleftrightarrow> p = Some a \<and> (case nx a of None \<Rightarrow> False | Some n \<Rightarrow> chain nx n as)"

lemma chain_None [simp]: "chain nx None xs \<longleftrightarrow> xs = []"
  by (cases xs) auto

lemma chain_Some:
  "chain nx (Some a) xs \<longleftrightarrow> (\<exists>n as. xs = a # as \<and> nx a = Some n \<and> chain nx n as)"
  by (cases xs) (auto split: option.splits)

lemma chain_unique: "chain nx p xs \<Longrightarrow> chain nx p ys \<Longrightarrow> xs = ys"
proof (induction xs arbitrary: p ys)
  case (Cons a as)
  then show ?case by (cases ys) (auto split: option.splits)
qed simp

lemma chain_cong:
  assumes "\<And>a. a \<in> set xs \<Longrightarrow> nx a = nx' a"
  shows "chain nx p xs = chain nx' p xs"
  using assms by (induction xs arbitrary: p) (auto split: option.splits)

lemma chain_upd [simp]: "b \<notin> set xs \<Longrightarrow> chain (nx(b := v)) p xs = chain nx p xs"
  by (rule chain_cong) auto

lemma chain_alloc: "chain nx p xs \<Longrightarrow> a \<in> set xs \<Longrightarrow> \<exists>n. nx a = Some n"
  by (induction xs arbitrary: p) (auto split: option.splits)

lemma chain_fresh: "chain nx p xs \<Longrightarrow> nx a = None \<Longrightarrow> a \<notin> set xs"
  using chain_alloc by fastforce

lemma chain_split: "chain nx p (xs @ a # ys) \<Longrightarrow> chain nx (Some a) (a # ys)"
proof (induction xs arbitrary: p)
  case (Cons b xs)
  from Cons.prems obtain n where "chain nx n (xs @ a # ys)" by (auto split: option.splits)
  then show ?case by (rule Cons.IH)
qed auto

text \<open>A list that ends in NULL visits no object twice.\<close>

lemma chain_distinct: "chain nx p xs \<Longrightarrow> distinct xs"
proof (induction xs arbitrary: p)
  case (Cons a as)
  then obtain n where n: "nx a = Some n" "chain nx n as"
    by (auto split: option.splits)
  have "a \<notin> set as"
  proof
    assume "a \<in> set as"
    then obtain ys zs where as: "as = ys @ a # zs" by (meson split_list)
    then have "chain nx (Some a) (a # zs)" using n(2) chain_split by metis
    then have "chain nx n zs" using n(1) by auto
    with n(2) as have "as = zs" by (metis chain_unique)
    with as show False by (auto dest: arg_cong [where f = length])
  qed
  with n Cons.IH show ?case by auto
qed simp

lemma chain_append_last:
  assumes "chain nx p (xs @ [a])" and "b \<notin> set (xs @ [a])"
  shows "chain (nx(a := Some (Some b), b := Some None)) p (xs @ [a, b])"
  using assms
proof (induction xs arbitrary: p)
  case (Cons c xs)
  then have "c \<noteq> a" using chain_distinct by fastforce
  with Cons show ?case by (auto split: option.splits)
qed (auto split: option.splits)

lemma chain_last: "chain nx p (xs @ [a]) \<Longrightarrow> nx a = Some None"
  by (induction xs arbitrary: p) (auto split: option.splits)

lemma chain_remove:
  assumes "chain nx p (a # as)"
  shows "chain (nx(a := v)) (the (nx a)) as"
  using assms chain_distinct [OF assms] by (auto split: option.splits)

text \<open>Unlinking an object: its predecessor takes over its next pointer.\<close>

lemma chain_unlink:
  assumes "chain nx h (ks @ p # rs)" "ks \<noteq> []"
  shows "chain (nx(last ks := nx p)) h (ks @ rs)"
  using assms
proof (induction ks arbitrary: h)
  case (Cons k ks)
  have ne: "k \<notin> set (ks @ p # rs)" using chain_distinct [OF Cons.prems(1)] by simp
  show ?case
  proof (cases "ks = []")
    case True
    with Cons.prems ne show ?thesis by (auto simp del: fun_upd_apply simp: fun_upd_same split: option.splits)
  next
    case False
    then have "last ks \<noteq> k" using ne by (metis Un_iff last_in_set set_append)
    with Cons False show ?thesis by (auto split: option.splits)
  qed
qed simp

end
