(* ===== verification/Fifo.thy ===== *)
theory Fifo
  imports Linked_List
begin

text \<open>
  The interface of a first-in first-out queue, as the clients of the work queue and of the
  mailboxes use it. \<open>rep s xs\<close> relates a concrete state to the list of the queued elements.
  \<open>put e x s\<close> appends \<open>x\<close>, with \<open>e\<close> the resource the environment supplies (the address that
  \<^verbatim>\<open>malloc\<close> returns); the result \<open>None\<close> is a fault. \<open>get s\<close> takes the oldest element, or
  reports that there is none (the caller then blocks). \<open>room e s\<close> says that the environment
  allows the operation. The lemmas are proved once, for every queue with these laws.
\<close>

datatype ('e, 'a) fifo_op = Put 'e 'a | Get

fun fifo_run :: "('e \<Rightarrow> 'a \<Rightarrow> 's \<Rightarrow> 's option) \<Rightarrow> ('s \<Rightarrow> ('a option \<times> 's) option) \<Rightarrow>
    ('e, 'a) fifo_op list \<Rightarrow> 's \<Rightarrow> ('a list \<times> 's) option" where
  "fifo_run put get [] s = Some ([], s)"
| "fifo_run put get (Put e x # ops) s =
     (case put e x s of None \<Rightarrow> None | Some s' \<Rightarrow> fifo_run put get ops s')"
| "fifo_run put get (Get # ops) s =
     (case get s of
        None \<Rightarrow> None
      | Some (None, s') \<Rightarrow> fifo_run put get ops s'
      | Some (Some x, s') \<Rightarrow> map_option (apfst ((#) x)) (fifo_run put get ops s'))"

fun fifo_puts :: "('e, 'a) fifo_op list \<Rightarrow> 'a list" where
  "fifo_puts [] = []"
| "fifo_puts (Put e x # ops) = x # fifo_puts ops"
| "fifo_puts (Get # ops) = fifo_puts ops"

text \<open>The environment's obligation along a run: there is room at every \<open>Put\<close>.\<close>

fun fifo_rooms :: "('e \<Rightarrow> 's \<Rightarrow> bool) \<Rightarrow> ('e \<Rightarrow> 'a \<Rightarrow> 's \<Rightarrow> 's option) \<Rightarrow>
    ('s \<Rightarrow> ('a option \<times> 's) option) \<Rightarrow> ('e, 'a) fifo_op list \<Rightarrow> 's \<Rightarrow> bool" where
  "fifo_rooms room put get [] s = True"
| "fifo_rooms room put get (Put e x # ops) s =
     (room e s \<and> (case put e x s of None \<Rightarrow> False | Some s' \<Rightarrow> fifo_rooms room put get ops s'))"
| "fifo_rooms room put get (Get # ops) s =
     (case get s of None \<Rightarrow> False | Some (r, s') \<Rightarrow> fifo_rooms room put get ops s')"

locale fifo =
  fixes rep :: "'s \<Rightarrow> 'a list \<Rightarrow> bool"
    and room :: "'e \<Rightarrow> 's \<Rightarrow> bool"
    and put :: "'e \<Rightarrow> 'a \<Rightarrow> 's \<Rightarrow> 's option"
    and get :: "'s \<Rightarrow> ('a option \<times> 's) option"
  assumes put_rep: "rep s xs \<Longrightarrow> room e s \<Longrightarrow> \<exists>s'. put e x s = Some s' \<and> rep s' (xs @ [x])"
    and get_empty: "rep s [] \<Longrightarrow> get s = Some (None, s)"
    and get_rep: "rep s (x # xs) \<Longrightarrow> \<exists>s'. get s = Some (Some x, s') \<and> rep s' xs"
begin

lemma get_head:
  assumes "rep s xs" and "get s = Some (r, s')"
  shows "rep s' (tl xs)" and "r = (case xs of [] \<Rightarrow> None | x # _ \<Rightarrow> Some x)"
  using assms get_empty get_rep by (cases xs; fastforce)+

text \<open>
  Whatever the interleaving of the operations, the elements come out in the order they went in:
  what was taken followed by what is still queued is what was queued followed by what was put.
\<close>

lemma run_in_order:
  assumes "rep s xs" and "fifo_rooms room put get ops s"
  shows "\<exists>outs s' ys. fifo_run put get ops s = Some (outs, s') \<and> rep s' ys \<and>
    outs @ ys = xs @ fifo_puts ops"
  using assms
proof (induction ops arbitrary: s xs)
  case Nil
  then show ?case by auto
next
  case (Cons op ops)
  show ?case
  proof (cases op)
    case (Put e x)
    with Cons.prems put_rep [of s xs e x] obtain s' where s': "put e x s = Some s'" "rep s' (xs @ [x])"
      by auto
    with Cons.prems Cons.IH [OF s'(2)] Put show ?thesis by auto
  next
    case Get
    show ?thesis
    proof (cases xs)
      case Nil
      with Cons.prems Cons.IH [OF Cons.prems(1)] Get get_empty show ?thesis by auto
    next
      case (Cons x xs')
      with Cons.prems(1) get_rep obtain s' where s': "get s = Some (Some x, s')" "rep s' xs'"
        by blast
      with Cons.prems(2) Get Cons.IH [OF s'(2)] Cons show ?thesis by fastforce
    qed
  qed
qed

end

end
