(* ===== verification/Work_Queue.thy ===== *)
theory Work_Queue
  imports Fifo "HOL-Library.Multiset"
begin

text \<open>
  \<^verbatim>\<open>sr_work_queue.c\<close>: the queue that hands received packets to the worker threads. The
  \<open>work_t\<close> nodes live in a heap of their own; \<^verbatim>\<open>malloc_or_die\<close> supplies an address that is not
  in use, which is an argument of \<open>wq_enqueue\<close>, and dereferencing or freeing an address with no
  node is the fault \<open>None\<close>. The part of a function between locking and unlocking the mutex is
  one atomic operation; \<open>wq_step\<close> interleaves the operations of the worker threads and of the
  threads that enqueue. The theorems show that no step of a running queue faults, that every
  item is handed to exactly one worker, in the order of arrival, and that \<open>workers\<close> counts the
  live threads.
\<close>

subsection \<open>The code\<close>

record work_t =
  wt_type :: int
  wt_work :: u32
  wt_next :: "u32 option"

record work_queue_t =
  wq_head :: "u32 option"
  wq_tail :: "u32 option"
  wq_done :: bool
  wq_workers :: u32
  wq_heap :: "u32 \<rightharpoonup> work_t"

definition wq_init :: "u32 \<Rightarrow> (u32 \<rightharpoonup> work_t) \<Rightarrow> work_queue_t option" where
  "wq_init num_workers heap =
     (if num_workers = 0 then None
      else Some \<lparr>wq_head = None, wq_tail = None, wq_done = False, wq_workers = num_workers,
                 wq_heap = heap\<rparr>)"

definition wq_enqueue :: "u32 \<Rightarrow> int \<Rightarrow> u32 \<Rightarrow> work_queue_t \<Rightarrow> work_queue_t option" where
  "wq_enqueue w type work wq =
     (let heap = (wq_heap wq)(w \<mapsto> \<lparr>wt_type = type, wt_work = work, wt_next = None\<rparr>)
      in case wq_tail wq of
           Some t \<Rightarrow>
             (case heap t of
                None \<Rightarrow> None
              | Some node \<Rightarrow>
                  Some (wq\<lparr>wq_heap := heap(t \<mapsto> node\<lparr>wt_next := Some w\<rparr>), wq_tail := Some w\<rparr>))
         | None \<Rightarrow> Some (wq\<lparr>wq_heap := heap, wq_head := Some w, wq_tail := Some w\<rparr>))"

text \<open>
  One pass of the loop of \<open>wq_wait_for_work\<close> under the lock: the thread blocks on the
  condition variable, stops, or leaves with a node.
\<close>

datatype wait_result = Wait | Stop | Got u32

definition wq_next_work :: "work_queue_t \<Rightarrow> (wait_result \<times> work_queue_t) option" where
  "wq_next_work wq =
     (if \<not> wq_done wq \<and> wq_head wq = None then Some (Wait, wq)
      else if wq_done wq then Some (Stop, wq\<lparr>wq_workers := wq_workers wq - 1\<rparr>)
      else case wq_head wq of
             None \<Rightarrow> None
           | Some work \<Rightarrow>
               (case wq_heap wq work of
                  None \<Rightarrow> None
                | Some n \<Rightarrow>
                    let head = wt_next n
                    in Some (Got work, wq\<lparr>wq_head := head,
                         wq_tail := (if head = None then None else wq_tail wq)\<rparr>)))"

text \<open>After the work function returns, the worker frees the node.\<close>

definition wq_finish_work :: "u32 \<Rightarrow> work_queue_t \<Rightarrow> work_queue_t option" where
  "wq_finish_work work wq =
     (if wq_heap wq work = None then None
      else Some (wq\<lparr>wq_heap := (wq_heap wq)(work := None)\<rparr>))"

partial_function (option) wq_destroy_loop :: "work_queue_t \<Rightarrow> work_queue_t option" where
  "wq_destroy_loop wq =
     (case wq_head wq of
        None \<Rightarrow> Some wq
      | Some tmp \<Rightarrow>
          (case wq_heap wq tmp of
             None \<Rightarrow> None
           | Some n \<Rightarrow>
               wq_destroy_loop (wq\<lparr>wq_head := wt_next n, wq_heap := (wq_heap wq)(tmp := None)\<rparr>)))"

definition wq_destroy :: "work_queue_t \<Rightarrow> work_queue_t option" where
  "wq_destroy wq = wq_destroy_loop (wq\<lparr>wq_done := True\<rparr>)"

subsection \<open>The threads\<close>

datatype worker = Ready | Busy u32 | Gone

record wq_sys =
  sys_wq :: work_queue_t
  sys_workers :: "worker list"

datatype wq_event =
    Enqueued int u32
  | Taken nat int u32
  | Blocked nat
  | Stopped nat
  | Finished nat
  | Destroyed

inductive wq_step :: "wq_sys \<Rightarrow> wq_event \<Rightarrow> wq_sys \<Rightarrow> bool" where
  enqueue: "wq_heap (sys_wq s) a = None \<Longrightarrow> wq_enqueue a ty w (sys_wq s) = Some q \<Longrightarrow>
    wq_step s (Enqueued ty w) (s\<lparr>sys_wq := q\<rparr>)"
| take: "i < length (sys_workers s) \<Longrightarrow> sys_workers s ! i = Ready \<Longrightarrow>
    wq_next_work (sys_wq s) = Some (Got a, q) \<Longrightarrow> wq_heap (sys_wq s) a = Some n \<Longrightarrow>
    wq_step s (Taken i (wt_type n) (wt_work n))
      (s\<lparr>sys_wq := q, sys_workers := (sys_workers s)[i := Busy a]\<rparr>)"
| block: "i < length (sys_workers s) \<Longrightarrow> sys_workers s ! i = Ready \<Longrightarrow>
    wq_next_work (sys_wq s) = Some (Wait, q) \<Longrightarrow> wq_step s (Blocked i) (s\<lparr>sys_wq := q\<rparr>)"
| stop: "i < length (sys_workers s) \<Longrightarrow> sys_workers s ! i = Ready \<Longrightarrow>
    wq_next_work (sys_wq s) = Some (Stop, q) \<Longrightarrow>
    wq_step s (Stopped i) (s\<lparr>sys_wq := q, sys_workers := (sys_workers s)[i := Gone]\<rparr>)"
| finish: "i < length (sys_workers s) \<Longrightarrow> sys_workers s ! i = Busy a \<Longrightarrow>
    wq_finish_work a (sys_wq s) = Some q \<Longrightarrow>
    wq_step s (Finished i) (s\<lparr>sys_wq := q, sys_workers := (sys_workers s)[i := Ready]\<rparr>)"
| destroy: "wq_destroy (sys_wq s) = Some q \<Longrightarrow> wq_step s Destroyed (s\<lparr>sys_wq := q\<rparr>)"

inductive wq_trace :: "wq_sys \<Rightarrow> wq_event list \<Rightarrow> wq_sys \<Rightarrow> bool" where
  trace_nil: "wq_trace s [] s"
| trace_snoc: "wq_trace s es s' \<Longrightarrow> wq_step s' e s'' \<Longrightarrow> wq_trace s (es @ [e]) s''"

definition wq_start :: "u32 \<Rightarrow> (u32 \<rightharpoonup> work_t) \<Rightarrow> wq_sys option" where
  "wq_start n heap =
     map_option (\<lambda>q. \<lparr>sys_wq = q, sys_workers = replicate (unat n) Ready\<rparr>) (wq_init n heap)"

fun enqueued :: "wq_event list \<Rightarrow> (int \<times> u32) list" where
  "enqueued [] = []"
| "enqueued (Enqueued ty w # es) = (ty, w) # enqueued es"
| "enqueued (_ # es) = enqueued es"

fun taken :: "wq_event list \<Rightarrow> (int \<times> u32) list" where
  "taken [] = []"
| "taken (Taken i ty w # es) = (ty, w) # taken es"
| "taken (_ # es) = taken es"

subsection \<open>The invariant\<close>

definition wq_nx :: "work_queue_t \<Rightarrow> u32 \<Rightarrow> u32 option option" where
  "wq_nx q = (\<lambda>a. map_option wt_next (wq_heap q a))"

definition item_at :: "work_queue_t \<Rightarrow> u32 \<Rightarrow> int \<times> u32" where
  "item_at q a = (case wq_heap q a of None \<Rightarrow> (0, 0) | Some n \<Rightarrow> (wt_type n, wt_work n))"

definition wq_nodes :: "work_queue_t \<Rightarrow> u32 list \<Rightarrow> bool" where
  "wq_nodes q as \<longleftrightarrow> chain (wq_nx q) (wq_head q) as \<and>
     wq_tail q = (if as = [] then None else Some (last as)) \<and> \<not> wq_done q"

definition wq_rep :: "work_queue_t \<Rightarrow> (int \<times> u32) list \<Rightarrow> bool" where
  "wq_rep q xs \<longleftrightarrow> (\<exists>as. wq_nodes q as \<and> xs = map (item_at q) as)"

lemma wq_nx_upd [simp]:
  "wq_nx (q\<lparr>wq_heap := h(a := v)\<rparr>) = (wq_nx (q\<lparr>wq_heap := h\<rparr>))(a := map_option wt_next v)"
  by (auto simp: wq_nx_def)

lemma wq_enqueue_nodes:
  assumes "wq_nodes q as" and fresh: "wq_heap q a = None"
  shows "\<exists>q'. wq_enqueue a ty w q = Some q' \<and> wq_nodes q' (as @ [a]) \<and>
    map (item_at q') (as @ [a]) = map (item_at q) as @ [(ty, w)] \<and>
    (\<forall>b. wq_heap q b \<noteq> None \<longrightarrow> wq_heap q' b \<noteq> None) \<and> wq_workers q' = wq_workers q"
proof (cases as rule: rev_exhaust)
  case Nil
  with assms show ?thesis
    by (auto simp: wq_enqueue_def wq_nodes_def wq_nx_def item_at_def)
next
  case (snoc bs t)
  have ch: "chain (wq_nx q) (wq_head q) (bs @ [t])" and tail: "wq_tail q = Some t" and d: "\<not> wq_done q"
    using assms(1) snoc by (auto simp: wq_nodes_def)
  have a: "a \<notin> set (bs @ [t])"
    using chain_fresh [OF ch, of a] fresh by (simp add: wq_nx_def)
  obtain n where n: "wq_heap q t = Some n"
    using chain_alloc [OF ch, of t] by (auto simp: wq_nx_def)
  let ?q = "q\<lparr>wq_heap := (wq_heap q)(a \<mapsto> \<lparr>wt_type = ty, wt_work = w, wt_next = None\<rparr>,
                t \<mapsto> n\<lparr>wt_next := Some a\<rparr>), wq_tail := Some a\<rparr>"
  have nx: "wq_nx ?q = (wq_nx q)(t := Some (Some a), a := Some None)"
    using a by (auto simp: wq_nx_def fun_eq_iff)
  have "wq_enqueue a ty w q = Some ?q"
    using tail n a by (auto simp: wq_enqueue_def Let_def)
  moreover have "wq_nodes ?q (as @ [a])"
    using chain_append_last [OF ch a] nx d snoc by (simp add: wq_nodes_def)
  moreover have "map (item_at ?q) (as @ [a]) = map (item_at q) as @ [(ty, w)]"
    using a n snoc by (auto simp: item_at_def)
  ultimately show ?thesis
    by (intro exI [of _ ?q]) auto
qed

lemma wq_next_work_nodes:
  assumes "wq_nodes q as"
  shows "wq_next_work q = (case as of
      [] \<Rightarrow> Some (Wait, q)
    | a # as' \<Rightarrow> Some (Got a, q\<lparr>wq_head := the (wq_nx q a),
                               wq_tail := if as' = [] then None else Some (last as')\<rparr>))"
proof (cases as)
  case Nil
  with assms show ?thesis by (simp add: wq_nodes_def wq_next_work_def)
next
  case (Cons a as')
  with assms obtain n where n: "wq_heap q a = Some n" "chain (wq_nx q) (wt_next n) as'"
      "wq_head q = Some a" "\<not> wq_done q" "wq_tail q = Some (last (a # as'))"
    by (auto simp: wq_nodes_def wq_nx_def split: option.splits)
  then have "wt_next n = None \<longleftrightarrow> as' = []" by (cases as') auto
  with n Cons show ?thesis
    by (simp add: wq_next_work_def wq_nx_def Let_def)
qed

lemma wq_next_work_keeps:
  assumes "wq_nodes q (a # as)" and "wq_next_work q = Some (r, q')"
  shows "r = Got a" "wq_nodes q' as" "wq_heap q' = wq_heap q" "wq_workers q' = wq_workers q"
  using assms wq_next_work_nodes [OF assms(1)]
  by (auto simp: wq_nodes_def wq_nx_def split: option.splits)

definition wq_put :: "u32 \<Rightarrow> int \<times> u32 \<Rightarrow> work_queue_t \<Rightarrow> work_queue_t option" where
  "wq_put a x q = wq_enqueue a (fst x) (snd x) q"

definition wq_get :: "work_queue_t \<Rightarrow> ((int \<times> u32) option \<times> work_queue_t) option" where
  "wq_get q = (case wq_next_work q of
      Some (Got a, q') \<Rightarrow> Some (Some (item_at q a), q')
    | Some (_, q') \<Rightarrow> Some (None, q')
    | None \<Rightarrow> None)"

interpretation wq: fifo wq_rep "\<lambda>a q. wq_heap q a = None" wq_put wq_get
proof
  show "\<exists>q'. wq_put a x q = Some q' \<and> wq_rep q' (xs @ [x])"
    if "wq_rep q xs" "wq_heap q a = None" for q xs a x
  proof -
    from that(1) obtain as where as: "wq_nodes q as" "xs = map (item_at q) as"
      unfolding wq_rep_def by blast
    obtain q' where q': "wq_enqueue a (fst x) (snd x) q = Some q'" "wq_nodes q' (as @ [a])"
        "map (item_at q') (as @ [a]) = map (item_at q) as @ [(fst x, snd x)]"
      using wq_enqueue_nodes [OF as(1) \<open>wq_heap q a = None\<close>, of "fst x" "snd x"] by blast
    show ?thesis
      using q' as(2) unfolding wq_rep_def wq_put_def by (intro exI [of _ q'] conjI exI [of _ "as @ [a]"]) simp_all
  qed
  show "wq_get q = Some (None, q)" if "wq_rep q []" for q
    using that wq_next_work_nodes [of q "[]"] by (simp add: wq_rep_def wq_get_def)
  show "\<exists>q'. wq_get q = Some (Some x, q') \<and> wq_rep q' xs" if rep: "wq_rep q (x # xs)" for q x xs
  proof -
    from rep obtain a as where as: "wq_nodes q (a # as)" "x = item_at q a" "xs = map (item_at q) as"
      by (auto simp: wq_rep_def Cons_eq_map_conv)
    then obtain q' where q': "wq_next_work q = Some (Got a, q')"
      using wq_next_work_nodes [OF as(1)] by simp
    with as wq_next_work_keeps [OF as(1) q'] show ?thesis
      by (auto simp: wq_get_def wq_rep_def item_at_def)
  qed
qed

subsection \<open>Invariant of the threads\<close>

fun busy_nodes :: "worker list \<Rightarrow> u32 list" where
  "busy_nodes [] = []"
| "busy_nodes (Busy a # ws) = a # busy_nodes ws"
| "busy_nodes (_ # ws) = busy_nodes ws"

fun live_workers :: "worker list \<Rightarrow> nat" where
  "live_workers [] = 0"
| "live_workers (Gone # ws) = live_workers ws"
| "live_workers (_ # ws) = Suc (live_workers ws)"

lemma busy_nodes_append: "busy_nodes (xs @ ys) = busy_nodes xs @ busy_nodes ys"
  by (induction xs rule: busy_nodes.induct) simp_all

lemma live_workers_append: "live_workers (xs @ ys) = live_workers xs + live_workers ys"
  by (induction xs rule: live_workers.induct) simp_all

lemma busy_nodes_update:
  assumes "i < length ws"
  shows "ws ! i = Ready \<Longrightarrow> mset (busy_nodes (ws[i := Busy a])) = add_mset a (mset (busy_nodes ws))"
    and "ws ! i = Ready \<Longrightarrow> busy_nodes (ws[i := Gone]) = busy_nodes ws"
    and "ws ! i = Busy a \<Longrightarrow> mset (busy_nodes ws) = add_mset a (mset (busy_nodes (ws[i := Ready])))"
proof -
  let ?xs = "take i ws" and ?ys = "drop (Suc i) ws"
  have u: "ws[i := w] = ?xs @ w # ?ys" for w
    using assms by (rule upd_conv_take_nth_drop)
  have "busy_nodes ws = busy_nodes (?xs @ ws ! i # ?ys)"
    using assms by (intro arg_cong [OF id_take_nth_drop])
  then have b: "busy_nodes ws = busy_nodes ?xs @ busy_nodes (ws ! i # ?ys)"
    by (simp only: busy_nodes_append)
  show "ws ! i = Ready \<Longrightarrow> mset (busy_nodes (ws[i := Busy a])) = add_mset a (mset (busy_nodes ws))"
    "ws ! i = Ready \<Longrightarrow> busy_nodes (ws[i := Gone]) = busy_nodes ws"
    "ws ! i = Busy a \<Longrightarrow> mset (busy_nodes ws) = add_mset a (mset (busy_nodes (ws[i := Ready])))"
    unfolding u b by (simp_all add: busy_nodes_append)
qed

lemma live_workers_update:
  assumes "i < length ws" and "ws ! i \<noteq> Gone"
  shows "w \<noteq> Gone \<Longrightarrow> live_workers (ws[i := w]) = live_workers ws"
    and "live_workers ws = Suc (live_workers (ws[i := Gone]))"
proof -
  let ?xs = "take i ws" and ?ys = "drop (Suc i) ws"
  have u: "ws[i := w] = ?xs @ w # ?ys" for w
    using assms(1) by (rule upd_conv_take_nth_drop)
  have "live_workers ws = live_workers (?xs @ ws ! i # ?ys)"
    using assms(1) by (intro arg_cong [OF id_take_nth_drop])
  then have b: "live_workers ws = live_workers ?xs + live_workers (ws ! i # ?ys)"
    by (simp only: live_workers_append)
  have s: "w \<noteq> Gone \<Longrightarrow> live_workers (w # ?ys) = Suc (live_workers ?ys)" for w by (cases w) simp_all
  show "w \<noteq> Gone \<Longrightarrow> live_workers (ws[i := w]) = live_workers ws"
    "live_workers ws = Suc (live_workers (ws[i := Gone]))"
    unfolding u b using assms(2) s by (simp_all add: live_workers_append)
qed

text \<open>
  While the queue runs: the queued nodes and the nodes the workers hold are different objects
  of the heap, and \<open>workers\<close> is the number of live threads.
\<close>

definition wq_inv :: "wq_sys \<Rightarrow> (int \<times> u32) list \<Rightarrow> bool" where
  "wq_inv s xs \<longleftrightarrow> (\<exists>as. wq_nodes (sys_wq s) as \<and> xs = map (item_at (sys_wq s)) as \<and>
     distinct (as @ busy_nodes (sys_workers s)) \<and>
     (\<forall>a \<in> set (busy_nodes (sys_workers s)). wq_heap (sys_wq s) a \<noteq> None)) \<and>
   wq_workers (sys_wq s) = of_nat (live_workers (sys_workers s))"

lemma wq_start_inv:
  assumes "wq_start n heap = Some s"
  shows "wq_inv s []"
proof -
  have "live_workers (replicate k Ready) = k" "busy_nodes (replicate k Ready) = []" for k
    by (induction k) simp_all
  with assms show ?thesis
    by (auto simp: wq_start_def wq_init_def wq_inv_def wq_nodes_def split: if_splits)
qed

lemma wq_invE:
  assumes "wq_inv s xs"
  obtains as where "wq_nodes (sys_wq s) as" "xs = map (item_at (sys_wq s)) as"
    "distinct (as @ busy_nodes (sys_workers s))"
    "\<And>a. a \<in> set (busy_nodes (sys_workers s)) \<Longrightarrow> wq_heap (sys_wq s) a \<noteq> None"
    "wq_workers (sys_wq s) = of_nat (live_workers (sys_workers s))"
  using assms unfolding wq_inv_def by blast

lemma wq_enqueue_inv:
  assumes "wq_inv s xs" and fresh: "wq_heap (sys_wq s) a = None"
  shows "\<exists>q. wq_enqueue a ty w (sys_wq s) = Some q \<and> wq_inv (s\<lparr>sys_wq := q\<rparr>) (xs @ [(ty, w)])"
  using assms(1)
proof (rule wq_invE)
  fix as
  assume as: "wq_nodes (sys_wq s) as" "xs = map (item_at (sys_wq s)) as"
    and d: "distinct (as @ busy_nodes (sys_workers s))"
    and busy: "\<And>a. a \<in> set (busy_nodes (sys_workers s)) \<Longrightarrow> wq_heap (sys_wq s) a \<noteq> None"
    and live: "wq_workers (sys_wq s) = of_nat (live_workers (sys_workers s))"
  obtain q where q: "wq_enqueue a ty w (sys_wq s) = Some q" "wq_nodes q (as @ [a])"
      "map (item_at q) (as @ [a]) = map (item_at (sys_wq s)) as @ [(ty, w)]"
      "\<forall>b. wq_heap (sys_wq s) b \<noteq> None \<longrightarrow> wq_heap q b \<noteq> None" "wq_workers q = wq_workers (sys_wq s)"
    using wq_enqueue_nodes [OF as(1) fresh, of ty w] by blast
  have "a \<notin> set (as @ busy_nodes (sys_workers s))"
    using busy [of a] fresh chain_fresh [of "wq_nx (sys_wq s)" _ as a] as(1)
    by (auto simp: wq_nodes_def wq_nx_def)
  with q as d busy live have "wq_inv (s\<lparr>sys_wq := q\<rparr>) (xs @ [(ty, w)])"
    unfolding wq_inv_def by (intro conjI exI [of _ "as @ [a]"]) auto
  with q(1) show ?thesis by blast
qed

lemma wq_take_inv:
  assumes "wq_inv s xs" and "i < length (sys_workers s)" and "sys_workers s ! i = Ready"
    and got: "wq_next_work (sys_wq s) = Some (Got a, q)"
  shows "wq_inv (s\<lparr>sys_wq := q, sys_workers := (sys_workers s)[i := Busy a]\<rparr>) (tl xs) \<and>
    xs = item_at (sys_wq s) a # tl xs \<and> wq_heap (sys_wq s) a \<noteq> None"
  using assms(1)
proof (rule wq_invE)
  fix as
  assume as: "wq_nodes (sys_wq s) as" "xs = map (item_at (sys_wq s)) as"
    and d: "distinct (as @ busy_nodes (sys_workers s))"
    and busy: "\<And>a. a \<in> set (busy_nodes (sys_workers s)) \<Longrightarrow> wq_heap (sys_wq s) a \<noteq> None"
    and live: "wq_workers (sys_wq s) = of_nat (live_workers (sys_workers s))"
  obtain as' where as': "as = a # as'"
    using wq_next_work_nodes [OF as(1)] got by (auto split: list.splits)
  note keep = wq_next_work_keeps [OF as(1) [unfolded as'] got]
  have b: "mset (busy_nodes ((sys_workers s)[i := Busy a])) = add_mset a (mset (busy_nodes (sys_workers s)))"
    using assms(2,3) by (rule busy_nodes_update)
  have "distinct (as' @ busy_nodes ((sys_workers s)[i := Busy a]))"
    using d as' b by (metis (no_types, lifting) append_Cons mset.simps(2) mset_append mset_eq_imp_distinct_iff
        union_mset_add_mset_right)
  moreover have "set (busy_nodes ((sys_workers s)[i := Busy a])) = insert a (set (busy_nodes (sys_workers s)))"
    using b by (metis set_mset_add_mset_insert set_mset_mset)
  moreover have "wq_heap (sys_wq s) a \<noteq> None"
    using as(1) as' by (auto simp: wq_nodes_def wq_nx_def split: option.splits)
  moreover have "item_at q = item_at (sys_wq s)"
    using keep(3) by (auto simp: item_at_def)
  ultimately show ?thesis
    using keep as as' busy live assms(2,3)
    unfolding wq_inv_def by (auto simp: live_workers_update(1))
qed

lemma wq_finish_inv:
  assumes "wq_inv s xs" and "i < length (sys_workers s)" and "sys_workers s ! i = Busy a"
  shows "\<exists>q. wq_finish_work a (sys_wq s) = Some q \<and>
    wq_inv (s\<lparr>sys_wq := q, sys_workers := (sys_workers s)[i := Ready]\<rparr>) xs"
  using assms(1)
proof (rule wq_invE)
  fix as
  assume as: "wq_nodes (sys_wq s) as" "xs = map (item_at (sys_wq s)) as"
    and d: "distinct (as @ busy_nodes (sys_workers s))"
    and busy: "\<And>a. a \<in> set (busy_nodes (sys_workers s)) \<Longrightarrow> wq_heap (sys_wq s) a \<noteq> None"
    and live: "wq_workers (sys_wq s) = of_nat (live_workers (sys_workers s))"
  let ?q = "(sys_wq s)\<lparr>wq_heap := (wq_heap (sys_wq s))(a := None)\<rparr>"
  let ?b = "busy_nodes ((sys_workers s)[i := Ready])"
  have b: "mset (busy_nodes (sys_workers s)) = add_mset a (mset ?b)"
    using assms(2,3) by (rule busy_nodes_update)
  then have bs: "set (busy_nodes (sys_workers s)) = insert a (set ?b)"
    by (metis set_mset_add_mset_insert set_mset_mset)
  have "distinct (a # as @ ?b)"
    using d b by (metis (no_types, lifting) mset.simps(2) mset_append mset_eq_imp_distinct_iff
        union_mset_add_mset_right)
  moreover have "wq_nodes ?q as"
    using as(1) calculation by (simp add: wq_nodes_def)
  moreover have "map (item_at ?q) as = map (item_at (sys_wq s)) as"
    using calculation by (auto simp: item_at_def)
  ultimately have "wq_inv (s\<lparr>sys_wq := ?q, sys_workers := (sys_workers s)[i := Ready]\<rparr>) xs"
    using as(2) busy live bs assms(2,3)
    unfolding wq_inv_def by (intro conjI exI [of _ as]) (auto simp: live_workers_update(1))
  moreover have "wq_finish_work a (sys_wq s) = Some ?q"
    using busy [of a] bs by (simp add: wq_finish_work_def)
  ultimately show ?thesis by blast
qed

text \<open>What an event does to the queued items.\<close>

fun wq_effect :: "wq_event \<Rightarrow> (int \<times> u32) list \<Rightarrow> (int \<times> u32) list \<Rightarrow> bool" where
  "wq_effect (Enqueued ty w) xs ys \<longleftrightarrow> ys = xs @ [(ty, w)]"
| "wq_effect (Taken i ty w) xs ys \<longleftrightarrow> xs = (ty, w) # ys"
| "wq_effect _ xs ys \<longleftrightarrow> ys = xs"

lemma wq_running_next:
  assumes "wq_inv s xs"
  shows "wq_next_work (sys_wq s) = Some (Wait, q) \<Longrightarrow> q = sys_wq s"
    and "wq_next_work (sys_wq s) \<noteq> Some (Stop, q)"
  using assms by (auto elim!: wq_invE dest!: wq_next_work_nodes split: list.splits)

lemma wq_step_inv:
  assumes "wq_step s e s'" and "wq_inv s xs" and "e \<noteq> Destroyed"
  shows "\<exists>ys. wq_inv s' ys \<and> wq_effect e xs ys"
  using assms
proof (induction rule: wq_step.induct)
  case (enqueue s a ty w q)
  with wq_enqueue_inv [of s xs a ty w] show ?case by auto
next
  case (take i s a q n)
  then show ?case
    using wq_take_inv [of s xs i a q] by (auto simp: item_at_def)
next
  case (block i s q)
  then have "q = sys_wq s" using wq_running_next(1) by blast
  with block.prems show ?case by auto
next
  case (stop i s q)
  then show ?case using wq_running_next(2) by auto
next
  case (finish i s a q)
  with wq_finish_inv [of s xs i a] show ?case by auto
qed simp

lemma enqueued_append: "enqueued (es @ fs) = enqueued es @ enqueued fs"
  by (induction es rule: enqueued.induct) simp_all

lemma taken_append: "taken (es @ fs) = taken es @ taken fs"
  by (induction es rule: taken.induct) simp_all

lemma wq_trace_inv:
  assumes "wq_trace s es s'" and "wq_inv s xs" and "Destroyed \<notin> set es"
  shows "\<exists>ys. wq_inv s' ys \<and> taken es @ ys = xs @ enqueued es"
  using assms
proof (induction rule: wq_trace.induct)
  case (trace_nil s)
  then show ?case by auto
next
  case (trace_snoc s es s' e s'')
  then obtain ys where ys: "wq_inv s' ys" "taken es @ ys = xs @ enqueued es" by auto
  moreover obtain zs where "wq_inv s'' zs" "wq_effect e ys zs"
    using wq_step_inv [OF trace_snoc.hyps(2) ys(1)] trace_snoc.prems by auto
  ultimately show ?case
    by (cases e) (auto simp: enqueued_append taken_append)
qed

lemma wq_destroy_loop_frees:
  assumes "chain (wq_nx q) (wq_head q) as"
  shows "wq_destroy_loop q =
    Some (q\<lparr>wq_head := None, wq_heap := (\<lambda>b. if b \<in> set as then None else wq_heap q b)\<rparr>)"
  using assms
proof (induction as arbitrary: q)
  case Nil
  then show ?case by (subst wq_destroy_loop.simps) simp
next
  case (Cons a as)
  from Cons.prems obtain n where n: "wq_head q = Some a" "wq_heap q a = Some n" "chain (wq_nx q) (wt_next n) as"
    by (cases "wq_heap q a") (auto simp: wq_nx_def)
  let ?q = "q\<lparr>wq_head := wt_next n, wq_heap := (wq_heap q)(a := None)\<rparr>"
  have "wq_nx ?q = (wq_nx q)(a := None)" by (auto simp: wq_nx_def)
  then have "chain (wq_nx ?q) (wq_head ?q) as"
    using n(3) chain_distinct [OF Cons.prems] by simp
  from Cons.IH [OF this] n show ?case
    by (subst wq_destroy_loop.simps) (auto simp: fun_eq_iff intro!: work_queue_t.equality)
qed

text \<open>A short run of one worker, used to instantiate the properties.\<close>

definition example_node :: work_t where
  "example_node = \<lparr>wt_type = 7, wt_work = 9, wt_next = None\<rparr>"

definition example_wq :: "u32 option \<Rightarrow> (u32 \<rightharpoonup> work_t) \<Rightarrow> work_queue_t" where
  "example_wq p heap = \<lparr>wq_head = p, wq_tail = p, wq_done = False, wq_workers = 1, wq_heap = heap\<rparr>"

lemma wq_example_trace:
  "\<exists>s s'. wq_start 1 Map.empty = Some s \<and> wq_trace s [Enqueued 7 9, Taken 0 7 9] s'"
proof -
  let ?s0 = "\<lparr>sys_wq = example_wq None Map.empty, sys_workers = [Ready]\<rparr>"
  let ?s1 = "?s0\<lparr>sys_wq := example_wq (Some 16) [16 \<mapsto> example_node]\<rparr>"
  let ?s2 = "?s1\<lparr>sys_wq := example_wq None [16 \<mapsto> example_node],
    sys_workers := (sys_workers ?s1)[0 := Busy 16]\<rparr>"
  have "wq_step ?s0 (Enqueued 7 9) ?s1"
    by (rule enqueue [of _ 16]) (simp_all add: example_wq_def example_node_def wq_enqueue_def Let_def)
  moreover have "wq_step ?s1 (Taken 0 (wt_type example_node) (wt_work example_node)) ?s2"
    by (rule take)
      (simp_all add: example_wq_def example_node_def wq_next_work_def Let_def)
  ultimately have "wq_trace ?s0 (([] @ [Enqueued 7 9]) @ [Taken 0 7 9]) ?s2"
    by (intro trace_snoc) (simp_all add: example_node_def trace_nil)
  moreover have "wq_start 1 Map.empty = Some ?s0"
    by (simp add: wq_start_def wq_init_def example_wq_def)
  ultimately show ?thesis by auto
qed

lemma example_nodes: "wq_nodes (example_wq (Some 16) [16 \<mapsto> example_node]) [16]"
  by (simp add: wq_nodes_def wq_nx_def example_wq_def example_node_def)

subsection \<open>Properties\<close>

text \<open>
  C4: whatever the interleaving of the enqueuing threads and the worker threads, while the queue
  is not destroyed the items handed to workers, followed by the items still queued, are exactly
  the enqueued items in order: no item is lost, duplicated or reordered.
\<close>

theorem wq_every_item_once_in_order:
  assumes "wq_start n heap = Some s" and "wq_trace s es s'" and "Destroyed \<notin> set es"
  shows "\<exists>ys. wq_rep (sys_wq s') ys \<and> enqueued es = taken es @ ys"
proof -
  from wq_trace_inv [OF assms(2) wq_start_inv [OF assms(1)] assms(3)]
  obtain ys where "wq_inv s' ys" "taken es @ ys = enqueued es" by auto
  then show ?thesis unfolding wq_inv_def wq_rep_def by metis
qed

theorem wq_every_item_once_in_order_witness:
  "\<exists>s s' ys. wq_start 1 Map.empty = Some s \<and> wq_trace s [Enqueued 7 9, Taken 0 7 9] s' \<and>
     wq_rep (sys_wq s') ys \<and> [(7, 9)] = [(7, 9)] @ ys"
proof -
  obtain s s' where s: "wq_start 1 Map.empty = Some s" "wq_trace s [Enqueued 7 9, Taken 0 7 9] s'"
    using wq_example_trace by blast
  with wq_every_item_once_in_order [OF s] show ?thesis by auto
qed

text \<open>
  no step of a running queue faults: enqueuing at any address that is not in use succeeds,
  a ready worker can always run its critical section, a busy worker can free its node, and the
  worker count is the number of live threads.
\<close>

theorem wq_running_never_faults:
  assumes "wq_start n heap = Some s" and "wq_trace s es s'" and "Destroyed \<notin> set es"
  shows "(\<forall>a ty w. wq_heap (sys_wq s') a = None \<longrightarrow> wq_enqueue a ty w (sys_wq s') \<noteq> None) \<and>
    (\<forall>i < length (sys_workers s'). \<exists>e s''. sys_workers s' ! i = Gone \<or> wq_step s' e s'') \<and>
    wq_next_work (sys_wq s') \<noteq> None \<and>
    wq_workers (sys_wq s') = of_nat (live_workers (sys_workers s'))"
proof -
  from wq_trace_inv [OF assms(2) wq_start_inv [OF assms(1)] assms(3)]
  obtain ys where inv: "wq_inv s' ys" by auto
  then obtain as where as: "wq_nodes (sys_wq s') as" "wq_workers (sys_wq s') = of_nat (live_workers (sys_workers s'))"
    by (rule wq_invE) blast
  have nxt: "\<exists>r q. wq_next_work (sys_wq s') = Some (r, q)"
    using wq_next_work_nodes [OF as(1)] by (cases as) auto
  have "\<exists>e s''. sys_workers s' ! i = Gone \<or> wq_step s' e s''" if i: "i < length (sys_workers s')" for i
  proof (cases "sys_workers s' ! i")
    case Ready
    obtain r q where rq: "wq_next_work (sys_wq s') = Some (r, q)" using nxt by blast
    then show ?thesis
    proof (cases r)
      case (Got a)
      with wq_take_inv [OF inv i Ready] rq obtain n where "wq_heap (sys_wq s') a = Some n" by auto
      with take [OF i Ready] rq Got show ?thesis by blast
    qed (use block [OF i Ready] stop [OF i Ready] in blast)+
  next
    case (Busy a)
    with wq_finish_inv [OF inv i] finish [OF i] show ?thesis by blast
  qed blast
  moreover have "wq_enqueue a ty w (sys_wq s') \<noteq> None" if "wq_heap (sys_wq s') a = None" for a ty w
    using wq_enqueue_inv [OF inv that, of ty w] by auto
  ultimately show ?thesis using nxt as(2) by auto
qed

theorem wq_running_never_faults_witness:
  "\<exists>s s'. wq_start 1 Map.empty = Some s \<and> wq_trace s [Enqueued 7 9, Taken 0 7 9] s' \<and>
     wq_next_work (sys_wq s') \<noteq> None"
proof -
  obtain s s' where s: "wq_start 1 Map.empty = Some s" "wq_trace s [Enqueued 7 9, Taken 0 7 9] s'"
    using wq_example_trace by blast
  with wq_running_never_faults [OF s] show ?thesis by auto
qed

text \<open>
  destroying a running queue terminates, frees exactly the queued nodes and makes every
  worker stop at its next pass; but it leaves \<open>tail\<close> pointing to a freed node, so that when
  work was left on the queue every later \<open>wq_enqueue\<close> (at another address) writes to freed
  memory.
\<close>

theorem wq_destroy_frees_and_stops:
  assumes "wq_nodes q as"
  shows "\<exists>q'. wq_destroy q = Some q' \<and> wq_head q' = None \<and>
    (\<forall>b. wq_heap q' b = (if b \<in> set as then None else wq_heap q b)) \<and>
    wq_next_work q' = Some (Stop, q'\<lparr>wq_workers := wq_workers q - 1\<rparr>) \<and>
    (as \<noteq> [] \<longrightarrow> (\<forall>a ty w. a \<noteq> last as \<longrightarrow> wq_enqueue a ty w q' = None))"
proof -
  have "chain (wq_nx (q\<lparr>wq_done := True\<rparr>)) (wq_head (q\<lparr>wq_done := True\<rparr>)) as"
    using assms by (simp add: wq_nodes_def wq_nx_def)
  from wq_destroy_loop_frees [OF this] assms show ?thesis
    by (auto simp: wq_destroy_def wq_next_work_def wq_enqueue_def wq_nodes_def Let_def)
qed

theorem wq_destroy_frees_and_stops_witness:
  "\<exists>q'. wq_destroy (example_wq (Some 16) [16 \<mapsto> example_node]) = Some q' \<and> wq_head q' = None \<and>
     wq_enqueue 32 0 0 q' = None"
  using wq_destroy_frees_and_stops [OF example_nodes] by auto

text \<open>
  run sequentially, any sequence of \<open>wq_enqueue\<close> calls (at free addresses) and worker
  fetches behaves as a FIFO queue, by the laws of the queue interface.
\<close>

theorem wq_refines_fifo:
  assumes "wq_rep q xs" and "fifo_rooms (\<lambda>a q. wq_heap q a = None) wq_put wq_get ops q"
  shows "\<exists>outs q' ys. fifo_run wq_put wq_get ops q = Some (outs, q') \<and> wq_rep q' ys \<and>
    outs @ ys = xs @ fifo_puts ops"
  using assms by (rule wq.run_in_order)

theorem wq_refines_fifo_witness:
  "\<exists>outs q' ys. fifo_run wq_put wq_get [Get, Put 32 (1, 2)] (example_wq (Some 16) [16 \<mapsto> example_node])
      = Some (outs, q') \<and> wq_rep q' ys \<and> outs @ ys = [(7, 9), (1, 2)]"
proof -
  let ?q = "example_wq (Some 16) [16 \<mapsto> example_node]"
  have "wq_rep ?q [(7, 9)]"
    unfolding wq_rep_def using example_nodes
    by (intro exI [of _ "[16]"]) (simp add: item_at_def example_wq_def example_node_def)
  moreover have "fifo_rooms (\<lambda>a q. wq_heap q a = None) wq_put wq_get [Get, Put 32 (1, 2)] ?q"
    by (simp add: wq_get_def wq_put_def wq_next_work_def wq_enqueue_def example_wq_def example_node_def Let_def)
  ultimately show ?thesis
    using wq_refines_fifo [of ?q "[(7, 9)]" "[Get, Put 32 (1, 2)]"] by simp
qed

end
