(* ===== verification/Sys_Arch.thy ===== *)
theory Sys_Arch
  imports Fifo
begin

text \<open>
  \<^verbatim>\<open>lwtcp/sys_arch.c\<close>: the semaphores, mailboxes and threads of the stack on top of POSIX
  threads. A semaphore is its counter, at most 1. A mailbox is a ring of 100 slots with a
  semaphore \<open>mail\<close> for its reader and a semaphore \<open>mutex\<close>; an access to the ring outside its
  bounds is the fault \<open>None\<close>. Waiting takes the outcomes of the successive
  \<^verbatim>\<open>pthread_cond_timedwait\<close> calls as an argument. The theorems show that the ring is a FIFO
  queue of at most 99 messages (one more and all of them are lost), that a single reader never
  misses a wake-up, and that the deadline that \<open>cond_wait\<close> computes is exact.
\<close>

subsection \<open>Semaphores\<close>

record sys_sem =
  sem_c :: u32

definition sys_sem_new0 :: "u8 \<Rightarrow> sys_sem" where
  "sys_sem_new0 count = \<lparr>sem_c = ucast count\<rparr>"

definition sys_sem_signal :: "sys_sem \<Rightarrow> sys_sem" where
  "sys_sem_signal sem =
     (let sem = sem\<lparr>sem_c := sem_c sem + 1\<rparr>
      in if sem_c sem > 1 then sem\<lparr>sem_c := 1\<rparr> else sem)"

text \<open>
  \<open>cond_wait\<close>: the deadline given to \<^verbatim>\<open>pthread_cond_timedwait\<close>, and the result from the time of
  day before and after the wait. A time of day is a pair of seconds and microseconds.
\<close>

definition cond_wait_deadline :: "u16 \<Rightarrow> u32 \<times> u32 \<Rightarrow> u32 \<times> u32" where
  "cond_wait_deadline timeout rtime1 =
     (let sec = fst rtime1;
          usec = snd rtime1;
          usec = usec + ucast timeout mod 1000 * 1000;
          sec = sec + (ucast timeout div 1000 + usec div 1000000);
          usec = usec mod 1000000
      in (sec, usec * 1000))"

definition trunc_div :: "int \<Rightarrow> int \<Rightarrow> int" where
  "trunc_div a b = (if a < 0 then - (- a div b) else a div b)"

definition cond_wait :: "u16 \<Rightarrow> bool \<Rightarrow> int \<times> int \<Rightarrow> int \<times> int \<Rightarrow> u16" where
  "cond_wait timeout timedout rtime1 rtime2 =
     (if timeout > 0 then
        if timedout then 0
        else let tdiff = (word_of_int ((fst rtime2 - fst rtime1) * 1000
                            + trunc_div (snd rtime2 - snd rtime1) 1000) :: u32)
             in if tdiff = 0 then 1 else ucast tdiff
      else 0)"

text \<open>
  The loop of \<open>sys_arch_sem_wait\<close>. Each element of the script is one return of \<open>cond_wait\<close>:
  its result, and the counter found after the mutex is taken again. The result \<open>None\<close> means
  that the thread is still blocked when the script ends.
\<close>

fun sem_wait_loop :: "sys_sem \<Rightarrow> u16 \<Rightarrow> u16 \<Rightarrow> (u16 \<times> u32) list \<Rightarrow> (u16 \<times> sys_sem) option" where
  "sem_wait_loop sem timeout time [] =
     (if sem_c sem \<le> 0 then None else Some (time, sem\<lparr>sem_c := sem_c sem - 1\<rparr>))"
| "sem_wait_loop sem timeout time ((r, c) # ws) =
     (if sem_c sem \<le> 0 then
        (if timeout > 0 then
           (if r = 0 then Some (0, sem\<lparr>sem_c := c\<rparr>)
            else sem_wait_loop (sem\<lparr>sem_c := c\<rparr>) timeout r ws)
         else sem_wait_loop (sem\<lparr>sem_c := c\<rparr>) timeout time ws)
      else Some (time, sem\<lparr>sem_c := sem_c sem - 1\<rparr>))"

definition sys_arch_sem_wait :: "sys_sem \<Rightarrow> u16 \<Rightarrow> (u16 \<times> u32) list \<Rightarrow> (u16 \<times> sys_sem) option" where
  "sys_arch_sem_wait sem timeout ws = sem_wait_loop sem timeout 1 ws"

subsection \<open>Mailboxes\<close>

abbreviation SYS_MBOX_SIZE :: nat where
  "SYS_MBOX_SIZE \<equiv> 100"

record 'm sys_mbox =
  mbox_first :: u16
  mbox_last :: u16
  mbox_msgs :: "'m list"
  mbox_mail :: sys_sem
  mbox_mutex :: sys_sem

record sys_stats =
  st_mbox_used :: u16
  st_mbox_max :: u16
  st_sem_used :: u16
  st_sem_max :: u16

text \<open>\<^verbatim>\<open>malloc\<close> does not initialise the slots; \<open>junk\<close> is what they hold.\<close>

definition sys_mbox_new :: "'m list \<Rightarrow> sys_stats \<Rightarrow> 'm sys_mbox \<times> sys_stats" where
  "sys_mbox_new junk stats =
     (let mbox = \<lparr>mbox_first = 0, mbox_last = 0, mbox_msgs = junk,
                  mbox_mail = sys_sem_new0 0, mbox_mutex = sys_sem_new0 1\<rparr>;
          stats = stats\<lparr>st_mbox_used := st_mbox_used stats + 1\<rparr>;
          stats = (if st_mbox_used stats > st_mbox_max stats
                   then stats\<lparr>st_mbox_max := st_mbox_used stats\<rparr> else stats)
      in (mbox, stats))"

definition sys_sem_new :: "u8 \<Rightarrow> sys_stats \<Rightarrow> sys_sem \<times> sys_stats" where
  "sys_sem_new count stats =
     (let stats = stats\<lparr>st_sem_used := st_sem_used stats + 1\<rparr>;
          stats = (if st_sem_used stats > st_sem_max stats
                   then stats\<lparr>st_sem_max := st_sem_used stats\<rparr> else stats)
      in (sys_sem_new0 count, stats))"

text \<open>
  Releasing an object leaves the counter that the statistics keep; the mailbox is released
  under its mutex, and its semaphores with it.
\<close>

definition sys_sem_free :: "sys_sem option \<Rightarrow> sys_stats \<Rightarrow> sys_stats" where
  "sys_sem_free sem stats =
     (case sem of None \<Rightarrow> stats | Some s \<Rightarrow> stats\<lparr>st_sem_used := st_sem_used stats - 1\<rparr>)"

definition sys_mbox_free :: "'m sys_mbox option \<Rightarrow> sys_stats \<Rightarrow> sys_stats option" where
  "sys_mbox_free mbox stats =
     (case mbox of
        None \<Rightarrow> Some stats
      | Some m \<Rightarrow>
          (case sys_arch_sem_wait (mbox_mutex m) 0 [] of
             None \<Rightarrow> None
           | Some (t, mutex) \<Rightarrow> Some (stats\<lparr>st_mbox_used := st_mbox_used stats - 1\<rparr>)))"

definition sys_mbox_post :: "'m \<Rightarrow> 'm sys_mbox \<Rightarrow> 'm sys_mbox option" where
  "sys_mbox_post msg mbox =
     (case sys_arch_sem_wait (mbox_mutex mbox) 0 [] of
        None \<Rightarrow> None
      | Some (t, mutex) \<Rightarrow>
          if unat (mbox_last mbox) \<ge> length (mbox_msgs mbox) then None
          else
            let msgs = (mbox_msgs mbox)[unat (mbox_last mbox) := msg];
                first = (mbox_last mbox = mbox_first mbox);
                last = mbox_last mbox + 1;
                last = (if last = of_nat SYS_MBOX_SIZE then 0 else last);
                mail = (if first then sys_sem_signal (mbox_mail mbox) else mbox_mail mbox)
            in Some (mbox\<lparr>mbox_msgs := msgs, mbox_last := last, mbox_mail := mail,
                          mbox_mutex := sys_sem_signal mutex\<rparr>))"

text \<open>
  One pass of the loop of \<open>sys_arch_mbox_fetch\<close> under the mutex: the ring is empty and the
  mutex is released, or the oldest message is taken.
\<close>

definition mbox_fetch_pass :: "'m sys_mbox \<Rightarrow> ('m option \<times> 'm sys_mbox) option" where
  "mbox_fetch_pass mbox =
     (case sys_arch_sem_wait (mbox_mutex mbox) 0 [] of
        None \<Rightarrow> None
      | Some (t, mutex) \<Rightarrow>
          if mbox_first mbox = mbox_last mbox
          then Some (None, mbox\<lparr>mbox_mutex := sys_sem_signal mutex\<rparr>)
          else if unat (mbox_first mbox) \<ge> length (mbox_msgs mbox) then None
          else
            let msg = mbox_msgs mbox ! unat (mbox_first mbox);
                first = mbox_first mbox + 1;
                first = (if first = of_nat SYS_MBOX_SIZE then 0 else first)
            in Some (Some msg, mbox\<lparr>mbox_first := first, mbox_mutex := sys_sem_signal mutex\<rparr>))"

text \<open>
  The reader of a mailbox and the threads that post to it, interleaved. The reader takes the
  mutex and looks (\<open>Looking\<close>), or waits for mail (\<open>Waiting\<close>) until a signal or a timeout.
\<close>

datatype reader = Away | Looking | Waiting

inductive mbox_step :: "reader \<times> 'm sys_mbox \<Rightarrow> 'm list \<Rightarrow> 'm list \<Rightarrow> reader \<times> 'm sys_mbox \<Rightarrow> bool" where
  post: "sys_mbox_post msg m = Some m' \<Longrightarrow> mbox_step (r, m) [msg] [] (r, m')"
| enter: "mbox_step (Away, m) [] [] (Looking, m)"
| empty: "mbox_fetch_pass m = Some (None, m') \<Longrightarrow> mbox_step (Looking, m) [] [] (Waiting, m')"
| fetch: "mbox_fetch_pass m = Some (Some msg, m') \<Longrightarrow> mbox_step (Looking, m) [] [msg] (Away, m')"
| mail: "sys_arch_sem_wait (mbox_mail m) timeout [] = Some (t, mail) \<Longrightarrow>
    mbox_step (Waiting, m) [] [] (Looking, m\<lparr>mbox_mail := mail\<rparr>)"
| timeout: "mbox_step (Waiting, m) [] [] (Away, m)"

subsection \<open>Threads\<close>

record 't sys_thread =
  th_pthread :: nat
  th_timeouts :: 't

text \<open>\<open>current_thread\<close> aborts when the thread is not in the list.\<close>

fun current_thread :: "nat \<Rightarrow> 't sys_thread list \<Rightarrow> 't sys_thread option" where
  "current_thread pt [] = None"
| "current_thread pt (st # threads) = (if th_pthread st = pt then Some st else current_thread pt threads)"

definition sys_thread_init :: "nat \<Rightarrow> 't list sys_thread list \<Rightarrow> 't list sys_thread list" where
  "sys_thread_init self threads = \<lparr>th_pthread = self, th_timeouts = []\<rparr> # threads"

text \<open>\<^verbatim>\<open>pthread_create\<close> returns the new thread, or fails and the program aborts.\<close>

definition sys_thread_new :: "nat option \<Rightarrow> 't list sys_thread list \<Rightarrow> 't list sys_thread list option" where
  "sys_thread_new created threads =
     (case created of
        None \<Rightarrow> None
      | Some pt \<Rightarrow> Some (\<lparr>th_pthread = pt, th_timeouts = []\<rparr> # threads))"

definition sys_arch_timeouts :: "nat \<Rightarrow> 't sys_thread list \<Rightarrow> 't option" where
  "sys_arch_timeouts self threads = map_option th_timeouts (current_thread self threads)"

definition sys_unix_now :: "int \<times> int \<Rightarrow> int \<times> int \<Rightarrow> u32" where
  "sys_unix_now starttime tv =
     word_of_int ((fst tv - fst starttime) * 1000 + trunc_div (snd tv - snd starttime) 1000)"

subsection \<open>The ring\<close>

definition sem_ok :: "sys_sem \<Rightarrow> bool" where
  "sem_ok sem \<longleftrightarrow> sem_c sem \<le> 1"

lemma sys_sem_signal_c: "sem_ok sem \<Longrightarrow> sem_c (sys_sem_signal sem) = 1"
proof -
  assume "sem_ok sem"
  then have "sem_c sem = 0 \<or> sem_c sem = 1"
    by (simp add: sem_ok_def word_le_unat) (metis le_SucE le_zero_eq One_nat_def unat_1 unat_eq_zero word_unat_eq_iff)
  then show ?thesis by (auto simp: sys_sem_signal_def Let_def)
qed

lemma sys_arch_sem_wait_nil:
  "sys_arch_sem_wait sem t [] = (if sem_c sem = 0 then None else Some (1, sem\<lparr>sem_c := sem_c sem - 1\<rparr>))"
  by (simp add: sys_arch_sem_wait_def)

definition mbox_rep :: "'m sys_mbox \<Rightarrow> 'm list \<Rightarrow> bool" where
  "mbox_rep m xs \<longleftrightarrow> length (mbox_msgs m) = 100 \<and> unat (mbox_first m) < 100 \<and> length xs < 100 \<and>
     unat (mbox_last m) = (unat (mbox_first m) + length xs) mod 100 \<and>
     (\<forall>i < length xs. mbox_msgs m ! ((unat (mbox_first m) + i) mod 100) = xs ! i) \<and>
     sem_c (mbox_mutex m) = 1 \<and> sem_ok (mbox_mail m)"

lemma ring_incr: "unat (w :: u16) < 100 \<Longrightarrow> unat (if w + 1 = 100 then 0 else w + 1) = (unat w + 1) mod 100"
proof -
  assume w: "unat w < 100"
  then have u: "unat (w + 1) = unat w + 1" by (subst unat_add_less) simp_all
  have "w + 1 = 100 \<longleftrightarrow> unat w + 1 = 100" using u by (simp add: word_unat_eq_iff)
  with w u show ?thesis by auto
qed

lemma mutex_cycle:
  assumes "sem_c s = 1"
  shows "\<exists>t s'. sys_arch_sem_wait s 0 [] = Some (t, s') \<and> sem_c (sys_sem_signal s') = 1 \<and> sys_sem_signal s' = s"
  using assms by (cases s) (simp add: sys_arch_sem_wait_nil sys_sem_signal_def Let_def)

lemma mod_offset_eq:
  assumes "i < n" "j < n" "(a + i) mod n = (a + j) mod (n :: nat)"
  shows "i = j"
proof -
  have "(a + i) mod n = (a + j) mod n \<Longrightarrow> i \<le> j \<Longrightarrow> j < n \<Longrightarrow> i = j" for i j
  proof -
    assume "(a + i) mod n = (a + j) mod n" "i \<le> j" "j < n"
    then have "n dvd (a + j) - (a + i)" by (metis add_le_cancel_left mod_eq_dvd_iff_nat)
    then have "n dvd j - i" by simp
    then have "j - i = 0" using \<open>j < n\<close> by (meson dvd_imp_le less_imp_diff_less linorder_not_less neq0_conv)
    then show "i = j" using \<open>i \<le> j\<close> by simp
  qed
  with assms show ?thesis by (metis linorder_le_cases)
qed

lemma sys_mbox_post_ok:
  assumes "mbox_rep m xs"
  shows "\<exists>mutex. sys_mbox_post msg m = Some (m\<lparr>
      mbox_msgs := (mbox_msgs m)[unat (mbox_last m) := msg],
      mbox_last := (if mbox_last m + 1 = 100 then 0 else mbox_last m + 1),
      mbox_mail := (if mbox_last m = mbox_first m then sys_sem_signal (mbox_mail m) else mbox_mail m),
      mbox_mutex := mutex\<rparr>) \<and> sem_c mutex = 1"
proof -
  have "unat (mbox_last m) < length (mbox_msgs m)"
    using assms by (simp add: mbox_rep_def)
  moreover obtain t s' where "sys_arch_sem_wait (mbox_mutex m) 0 [] = Some (t, s')" "sem_c (sys_sem_signal s') = 1"
    using assms mutex_cycle [of "mbox_mutex m"] by (auto simp: mbox_rep_def)
  ultimately show ?thesis
    by (intro exI [of _ "sys_sem_signal s'"]) (simp add: sys_mbox_post_def Let_def)
qed

lemma mbox_last_first: "mbox_rep m xs \<Longrightarrow> mbox_last m = mbox_first m \<longleftrightarrow> xs = []"
proof
  assume rep: "mbox_rep m xs" and eq: "mbox_last m = mbox_first m"
  then have "(unat (mbox_first m) + length xs) mod 100 = (unat (mbox_first m) + 0) mod 100"
    by (simp add: mbox_rep_def)
  moreover have "length xs < 100" using rep by (simp add: mbox_rep_def)
  ultimately have "length xs = 0" using mod_offset_eq [of "length xs" 100 0 "unat (mbox_first m)"] by simp
  then show "xs = []" by simp
qed (simp add: mbox_rep_def word_unat_eq_iff)

lemma ring_store:
  assumes "mbox_rep m xs" and "i < length xs"
  shows "(mbox_msgs m)[unat (mbox_last m) := msg] ! ((unat (mbox_first m) + i) mod 100) = xs ! i"
proof -
  have "(unat (mbox_first m) + i) mod 100 \<noteq> unat (mbox_last m)"
    using assms mod_offset_eq [of i 100 "length xs" "unat (mbox_first m)"] by (auto simp: mbox_rep_def)
  with assms show ?thesis by (simp add: mbox_rep_def)
qed

lemma sys_mbox_post_rep:
  assumes rep: "mbox_rep m xs" and "length xs < 99"
  shows "\<exists>m'. sys_mbox_post msg m = Some m' \<and> mbox_rep m' (xs @ [msg]) \<and>
    mbox_mail m' = (if xs = [] then sys_sem_signal (mbox_mail m) else mbox_mail m)"
proof -
  obtain mutex where post: "sys_mbox_post msg m = Some (m\<lparr>
      mbox_msgs := (mbox_msgs m)[unat (mbox_last m) := msg],
      mbox_last := (if mbox_last m + 1 = 100 then 0 else mbox_last m + 1),
      mbox_mail := (if mbox_last m = mbox_first m then sys_sem_signal (mbox_mail m) else mbox_mail m),
      mbox_mutex := mutex\<rparr>)" (is "_ = Some ?m") and mutex: "sem_c mutex = 1"
    using sys_mbox_post_ok [OF rep] by blast
  have l: "unat (mbox_last m) < 100" "unat (mbox_last m) = (unat (mbox_first m) + length xs) mod 100"
    "length (mbox_msgs m) = 100" using rep by (simp_all add: mbox_rep_def)
  have "unat (mbox_last ?m) = (unat (mbox_last m) + 1) mod 100"
    using ring_incr [OF l(1)] by simp
  moreover have "mbox_msgs ?m ! ((unat (mbox_first m) + i) mod 100) = (xs @ [msg]) ! i" if "i < length (xs @ [msg])" for i
    using that ring_store [OF rep, of i msg] l by (cases "i < length xs") (auto simp: nth_append less_Suc_eq)
  ultimately have "mbox_rep ?m (xs @ [msg])"
    using rep assms(2) l mutex sys_sem_signal_c [of "mbox_mail m"]
    by (auto simp: mbox_rep_def mod_Suc_eq sem_ok_def)
  with post mbox_last_first [OF rep] show ?thesis by auto
qed

lemma mbox_fetch_pass_rep:
  assumes rep: "mbox_rep m xs"
  shows "\<exists>m'. mbox_fetch_pass m = Some (case xs of [] \<Rightarrow> None | x # _ \<Rightarrow> Some x, m') \<and>
    mbox_rep m' (tl xs) \<and> mbox_mail m' = mbox_mail m \<and>
    (xs = [] \<longrightarrow> mbox_first m' = mbox_first m \<and> mbox_last m' = mbox_last m \<and> mbox_msgs m' = mbox_msgs m)"
proof -
  obtain t s' where mutex: "sys_arch_sem_wait (mbox_mutex m) 0 [] = Some (t, s')" "sem_c (sys_sem_signal s') = 1"
    using rep mutex_cycle [of "mbox_mutex m"] by (auto simp: mbox_rep_def)
  show ?thesis
  proof (cases xs)
    case Nil
    with rep mutex mbox_last_first [OF rep] show ?thesis
      by (auto simp: mbox_fetch_pass_def mbox_rep_def)
  next
    case (Cons x xs')
    have f: "unat (mbox_first m) < 100" "length (mbox_msgs m) = 100" using rep by (simp_all add: mbox_rep_def)
    have hd: "mbox_msgs m ! unat (mbox_first m) = x"
      using rep Cons by (force simp: mbox_rep_def)
    have nth: "mbox_msgs m ! ((unat (mbox_first m) + Suc i) mod 100) = xs' ! i" if "i < length xs'" for i
      using rep Cons that by (fastforce simp: mbox_rep_def)
    let ?f = "if mbox_first m + 1 = 100 then 0 else mbox_first m + 1"
    let ?m = "m\<lparr>mbox_first := ?f, mbox_mutex := sys_sem_signal s'\<rparr>"
    have "mbox_fetch_pass m = Some (Some x, ?m)"
      using mutex(1) f hd mbox_last_first [OF rep] Cons by (auto simp: mbox_fetch_pass_def Let_def)
    moreover have "mbox_rep ?m xs'"
      using rep Cons mutex(2) ring_incr [OF f(1)] nth
      by (auto simp: mbox_rep_def mod_Suc_eq mod_add_left_eq)
    ultimately show ?thesis using Cons by auto
  qed
qed

lemma mbox_used:
  assumes "mbox_rep m xs"
  shows "(unat (mbox_last m) + 100 - unat (mbox_first m)) mod 100 = length xs"
proof -
  let ?f = "unat (mbox_first m)" and ?l = "unat (mbox_last m)"
  have "?f < 100" "length xs < 100" "?l = (?f + length xs) mod 100"
    using assms by (simp_all add: mbox_rep_def)
  then show ?thesis
    by (cases "?f + length xs < 100") (auto simp: mod_if)
qed

interpretation mbox: fifo mbox_rep "\<lambda>_ m. (unat (mbox_last m) + 100 - unat (mbox_first m)) mod 100 < 99"
    "\<lambda>_. sys_mbox_post" mbox_fetch_pass
proof
  show "\<exists>m'. sys_mbox_post x m = Some m' \<and> mbox_rep m' (xs @ [x])"
    if rep: "mbox_rep m xs" and room: "(unat (mbox_last m) + 100 - unat (mbox_first m)) mod 100 < 99"
    for m :: "'m sys_mbox" and xs x
    using sys_mbox_post_rep [OF rep, of x] mbox_used [OF rep] room by auto
  show "mbox_fetch_pass m = Some (None, m)" if rep: "mbox_rep m []" for m :: "'m sys_mbox"
  proof -
    obtain t s' where "sys_arch_sem_wait (mbox_mutex m) 0 [] = Some (t, s')" "sys_sem_signal s' = mbox_mutex m"
      using rep mutex_cycle [of "mbox_mutex m"] by (auto simp: mbox_rep_def)
    with mbox_last_first [OF rep] show ?thesis by (simp add: mbox_fetch_pass_def)
  qed
  show "\<exists>m'. mbox_fetch_pass m = Some (Some x, m') \<and> mbox_rep m' xs"
    if rep: "mbox_rep m (x # xs)" for m :: "'m sys_mbox" and x xs
    using mbox_fetch_pass_rep [OF rep] by auto
qed

subsection \<open>One reader\<close>

text \<open>The runs of a mailbox in which nobody posts to a mailbox that already holds 99 messages.\<close>

inductive mbox_run :: "reader \<times> 'm sys_mbox \<Rightarrow> 'm list \<Rightarrow> 'm list \<Rightarrow> reader \<times> 'm sys_mbox \<Rightarrow> bool" where
  run_refl: "mbox_run st [] [] st"
| run_step: "mbox_run st ins outs (r, m) \<Longrightarrow> mbox_step (r, m) is os st' \<Longrightarrow>
    is = [] \<or> (unat (mbox_last m) + 100 - unat (mbox_first m)) mod 100 < 99 \<Longrightarrow>
    mbox_run st (ins @ is) (outs @ os) st'"

definition mbox_inv :: "reader \<times> 'm sys_mbox \<Rightarrow> 'm list \<Rightarrow> bool" where
  "mbox_inv st xs \<longleftrightarrow> mbox_rep (snd st) xs \<and>
     (fst st = Waiting \<and> xs \<noteq> [] \<longrightarrow> sem_c (mbox_mail (snd st)) = 1)"

lemma mbox_rep_mail:
  "mbox_rep m xs \<Longrightarrow> sys_arch_sem_wait (mbox_mail m) t [] = Some (t', mail) \<Longrightarrow> mbox_rep (m\<lparr>mbox_mail := mail\<rparr>) xs"
proof -
  assume rep: "mbox_rep m xs" and "sys_arch_sem_wait (mbox_mail m) t [] = Some (t', mail)"
  then have "mail = (mbox_mail m)\<lparr>sem_c := sem_c (mbox_mail m) - 1\<rparr>" "sem_c (mbox_mail m) \<noteq> 0"
    by (auto simp: sys_arch_sem_wait_nil split: if_splits)
  moreover have "sem_c (mbox_mail m) = 1" using rep calculation
    by (simp add: mbox_rep_def sem_ok_def word_le_unat word_unat_eq_iff unat_eq_zero [symmetric])
  ultimately show ?thesis using rep by (simp add: mbox_rep_def sem_ok_def)
qed

lemma mbox_step_inv:
  assumes "mbox_step st is os st'" and "mbox_inv st xs" and "is = [] \<or> length xs < 99"
  shows "\<exists>ys. mbox_inv st' ys \<and> os @ ys = xs @ is"
  using assms
proof (induction rule: mbox_step.induct)
  case (post msg m m' r)
  then have rep: "mbox_rep m xs" and "length xs < 99" by (auto simp: mbox_inv_def)
  from sys_mbox_post_rep [OF this, of msg] post have "mbox_rep m' (xs @ [msg])"
    "mbox_mail m' = (if xs = [] then sys_sem_signal (mbox_mail m) else mbox_mail m)" by auto
  moreover have "sem_ok (mbox_mail m)" using rep by (simp add: mbox_rep_def)
  ultimately show ?case using post.prems by (auto simp: mbox_inv_def sys_sem_signal_c)
next
  case (empty m m')
  then have rep: "mbox_rep m xs" by (auto simp: mbox_inv_def)
  from mbox_fetch_pass_rep [OF this] empty have "xs = [] \<and> mbox_rep m' xs" by (auto split: list.splits)
  then show ?case by (auto simp: mbox_inv_def)
next
  case (fetch m msg m')
  then have rep: "mbox_rep m xs" by (auto simp: mbox_inv_def)
  from mbox_fetch_pass_rep [OF this] fetch show ?case by (auto simp: mbox_inv_def split: list.splits)
next
  case (mail m timeout t mail)
  then show ?case by (auto simp: mbox_inv_def mbox_rep_mail)
qed (auto simp: mbox_inv_def)

lemma mbox_run_inv:
  assumes "mbox_run st ins outs st'" and "mbox_inv st xs"
  shows "\<exists>ys. mbox_inv st' ys \<and> outs @ ys = xs @ ins"
  using assms
proof (induction rule: mbox_run.induct)
  case (run_step st ins outs r m "is" os st')
  then obtain ys where ys: "mbox_inv (r, m) ys" "outs @ ys = xs @ ins" by auto
  then have "is = [] \<or> length ys < 99"
    using run_step.hyps(3) mbox_used [of m ys] by (auto simp: mbox_inv_def)
  from mbox_step_inv [OF run_step.hyps(2) ys(1) this] ys(2) show ?case
    by (metis append.assoc)
qed auto

lemma sys_mbox_new_inv:
  "length junk = 100 \<Longrightarrow> mbox_inv (Away, fst (sys_mbox_new junk stats)) []"
  by (simp add: sys_mbox_new_def Let_def mbox_inv_def mbox_rep_def sys_sem_new0_def sem_ok_def)

subsection \<open>Properties\<close>


lemma mbox_example_run:
  "\<exists>m. mbox_run (Away, fst (sys_mbox_new (replicate 100 (0 :: nat)) stats)) [5] [] (Away, m)"
proof -
  let ?m = "fst (sys_mbox_new (replicate 100 (0 :: nat)) stats)"
  have inv: "mbox_inv (Away, ?m) []" by (rule sys_mbox_new_inv) simp
  then have rep: "mbox_rep ?m []" by (simp add: mbox_inv_def)
  then obtain m' where "sys_mbox_post 5 ?m = Some m'"
    using sys_mbox_post_rep [OF rep, of 5] by auto
  then have "mbox_run (Away, ?m) ([] @ [5]) ([] @ []) (Away, m')"
    using mbox_used [OF rep] by (intro run_step [OF run_refl] post) simp_all
  then show ?thesis by auto
qed


text \<open>
  posting to a mailbox that holds 99 messages is accepted and makes the ring look empty:
  the message and the 99 before it are never delivered.
\<close>

theorem mbox_overflow_loses_all:
  assumes "mbox_rep m xs" and "length xs = 99"
  shows "\<exists>m'. sys_mbox_post msg m = Some m' \<and> mbox_rep m' [] \<and> mbox_fetch_pass m' = Some (None, m')"
proof -
  obtain mutex where post: "sys_mbox_post msg m = Some (m\<lparr>
      mbox_msgs := (mbox_msgs m)[unat (mbox_last m) := msg],
      mbox_last := (if mbox_last m + 1 = 100 then 0 else mbox_last m + 1),
      mbox_mail := (if mbox_last m = mbox_first m then sys_sem_signal (mbox_mail m) else mbox_mail m),
      mbox_mutex := mutex\<rparr>)" (is "_ = Some ?m") and mutex: "sem_c mutex = 1"
    using sys_mbox_post_ok [OF assms(1)] by blast
  have l: "unat (mbox_last m) < 100" "unat (mbox_last m) = (unat (mbox_first m) + 99) mod 100"
    using assms by (simp_all add: mbox_rep_def)
  have "unat (mbox_last ?m) = (unat (mbox_last m) + 1) mod 100"
    using ring_incr [OF l(1)] by simp
  also have "\<dots> = unat (mbox_first m) mod 100"
    unfolding l(2) by (simp add: mod_Suc_eq)
  finally have "unat (mbox_last ?m) = unat (mbox_first m) mod 100" .
  moreover have "xs \<noteq> []" using assms(2) by auto
  ultimately have "mbox_rep ?m []"
    using assms(1) mutex mbox_last_first [OF assms(1)] by (simp add: mbox_rep_def)
  with post mbox.get_empty show ?thesis by blast
qed

lemma mbox_posts_rep:
  "k \<le> 99 \<Longrightarrow> \<exists>m. mbox_rep m (replicate k (0 :: nat))"
proof (induction k)
  case 0
  have "mbox_rep (fst (sys_mbox_new (replicate 100 (0 :: nat)) undefined)) []"
    using sys_mbox_new_inv [of "replicate 100 (0 :: nat)"] by (simp add: mbox_inv_def)
  then show ?case by auto
next
  case (Suc k)
  then obtain m where "mbox_rep m (replicate k (0 :: nat))" by auto
  from sys_mbox_post_rep [OF this, of 0] Suc.prems show ?case
    by (auto simp: replicate_append_same)
qed

theorem mbox_overflow_loses_all_witness:
  "\<exists>m m'. mbox_rep m (replicate 99 (0 :: nat)) \<and> sys_mbox_post 7 m = Some m' \<and> mbox_rep m' []"
proof -
  obtain m where rep: "mbox_rep m (replicate 99 (0 :: nat))" using mbox_posts_rep [of 99] by auto
  from mbox_overflow_loses_all [OF rep, of 7] rep show ?thesis by auto
qed

text \<open>
  the deadline that \<open>cond_wait\<close> passes to \<^verbatim>\<open>pthread_cond_timedwait\<close> is a valid time
  (its nanoseconds below 10^9) exactly \<open>timeout\<close> milliseconds after the start of the wait.
\<close>

theorem cond_wait_deadline_exact:
  assumes "unat usec < 1000000" and "unat sec + 67 < 2 ^ 32"
  shows "case cond_wait_deadline timeout (sec, usec) of (s, ns) \<Rightarrow>
    unat ns < 1000000000 \<and>
    unat s * 1000000000 + unat ns = (unat sec * 1000000 + unat usec + unat timeout * 1000) * 1000"
proof -
  let ?t = "unat timeout"
  have t: "?t < 65536" by (rule unat_u16_less)
  define u where "u = unat usec + ?t mod 1000 * 1000"
  have tm: "unat (ucast timeout mod 1000 :: u32) = ?t mod 1000" "unat (ucast timeout div 1000 :: u32) = ?t div 1000"
    by (simp_all add: unat_mod_distrib unat_div_distrib)
  have "unat (ucast timeout mod 1000 * 1000 :: u32) = ?t mod 1000 * 1000"
    by (subst unat_mult_lem [THEN iffD1]) (simp_all add: tm)
  then have uu: "unat (usec + ucast timeout mod 1000 * 1000) = u"
    using assms(1) by (subst unat_add_less) (simp_all add: u_def)
  have u: "u < 2000000" using assms(1) by (simp add: u_def)
  have sec: "unat (sec + (ucast timeout div 1000 + (usec + ucast timeout mod 1000 * 1000) div 1000000))
      = unat sec + (?t div 1000 + u div 1000000)"
    using assms(2) u t by (simp add: unat_add_less tm unat_div_distrib uu)
  have ns: "unat ((usec + ucast timeout mod 1000 * 1000) mod 1000000 * 1000) = u mod 1000000 * 1000"
    by (subst unat_mult_lem [THEN iffD1]) (simp_all add: unat_mod_distrib uu)
  have lin: "(se + (a + q)) * 1000000 + r = se * 1000000 + us + t * 1000"
    if "q * 1000000 + r = us + b * 1000" "a * 1000 + b = t" for q r us a b t se :: nat
    using that(1) by (simp add: that(2) [symmetric] add_mult_distrib)
  have "u div 1000000 * 1000000 + u mod 1000000 = unat usec + ?t mod 1000 * 1000" by (simp add: u_def)
  then have "(unat sec + (?t div 1000 + u div 1000000)) * 1000000 + u mod 1000000 =
      unat sec * 1000000 + unat usec + ?t * 1000"
    by (rule lin) simp
  moreover have "x * 1000000000 + y * 1000 = (x * 1000000 + y) * 1000" for x y :: nat by simp
  ultimately have "(unat sec + (?t div 1000 + u div 1000000)) * 1000000000 + u mod 1000000 * 1000 =
      (unat sec * 1000000 + unat usec + ?t * 1000) * 1000"
    by (simp only:)
  moreover have "u mod 1000000 * 1000 < 1000000000"
    using mod_less_divisor [of 1000000 u] by linarith
  ultimately show ?thesis
    unfolding cond_wait_deadline_def Let_def prod.case fst_conv snd_conv sec ns by (intro conjI)
qed

theorem cond_wait_deadline_exact_witness:
  "case cond_wait_deadline 1500 (10, 700000) of (s, ns) \<Rightarrow>
    unat ns < 1000000000 \<and> unat s * 1000000000 + unat ns = (10 * 1000000 + 700000 + 1500 * 1000) * 1000"
  using cond_wait_deadline_exact [of 700000 10 1500] by simp

end
