(* ===== verification/Sys_Timeouts.thy ===== *)
theory Sys_Timeouts
  imports Sys_Arch
begin

text \<open>
  \<^verbatim>\<open>lwtcp/sys.c\<close>: the timeouts of a thread. They are kept as a list in which every entry
  stores its time relative to the entry before it. \<open>sys_timeout\<close> inserts an entry;
  \<open>sys_mbox_fetch\<close> and \<open>sys_sem_wait\<close> wait with the time of the first entry as their limit and
  run its handler when the wait times out. The results of the successive waits (0 is a timeout)
  are an argument, and so is the effect of a handler on the list, since it may arm timeouts
  itself. The specification is the list of absolute deadlines: the theorems show that
  \<open>sys_timeout\<close> inserts the deadline in order, behind equal ones, and that waiting runs the
  handlers in the order of their deadlines, each not before it is due, and leaves the other
  deadlines exact.
\<close>

subsection \<open>The code\<close>

record sys_timeout_t =
  to_time :: u16
  to_h :: nat
  to_arg :: u32

fun timeout_walk :: "sys_timeout_t \<Rightarrow> sys_timeout_t \<Rightarrow> sys_timeout_t list \<Rightarrow> sys_timeout_t list" where
  "timeout_walk timeout t [] = [t, timeout\<lparr>to_time := to_time timeout - to_time t\<rparr>]"
| "timeout_walk timeout t (t2 # ts) =
     (let timeout = timeout\<lparr>to_time := to_time timeout - to_time t\<rparr>
      in if to_time t2 > to_time timeout
         then t # timeout # t2\<lparr>to_time := to_time t2 - to_time timeout\<rparr> # ts
         else t # timeout_walk timeout t2 ts)"

text \<open>\<open>got\<close> says whether \<^verbatim>\<open>memp_malloc(MEMP_SYS_TIMEOUT)\<close> returned an element.\<close>

definition sys_timeout :: "bool \<Rightarrow> u16 \<Rightarrow> nat \<Rightarrow> u32 \<Rightarrow> sys_timeout_t list \<Rightarrow> sys_timeout_t list" where
  "sys_timeout got msecs h arg timeouts =
     (if \<not> got then timeouts
      else
        let timeout = \<lparr>to_time = msecs, to_h = h, to_arg = arg\<rparr>
        in case timeouts of
             [] \<Rightarrow> [timeout]
           | t # ts \<Rightarrow>
               if to_time t > msecs
               then timeout # t\<lparr>to_time := to_time t - msecs\<rparr> # ts
               else timeout_walk timeout t ts)"

text \<open>
  The common loop of \<open>sys_mbox_fetch\<close> and \<open>sys_sem_wait\<close>, with the list of the timeouts that
  fired; when the results are used up the thread is still waiting, and the value is \<open>None\<close>.
\<close>

partial_function (option) timeouts_loop ::
  "(sys_timeout_t \<Rightarrow> sys_timeout_t list \<Rightarrow> sys_timeout_t list) \<Rightarrow> u16 list \<Rightarrow> sys_timeout_t list \<Rightarrow>
     sys_timeout_t list \<Rightarrow> (sys_timeout_t list \<times> sys_timeout_t list) option" where
  "timeouts_loop handler results timeouts fired =
     (case timeouts of
        [] \<Rightarrow> (case results of [] \<Rightarrow> None | time # _ \<Rightarrow> Some (fired, timeouts))
      | t # ts \<Rightarrow>
          if to_time t > 0 then
            (case results of
               [] \<Rightarrow> None
             | time # results' \<Rightarrow>
                 if time = 0 then timeouts_loop handler results' (handler t ts) (fired @ [t])
                 else Some (fired,
                        t\<lparr>to_time := if time \<le> to_time t then to_time t - time else 0\<rparr> # ts))
          else timeouts_loop handler results (handler t ts) (fired @ [t]))"

definition sys_mbox_fetch where
  "sys_mbox_fetch handler fetches timeouts = timeouts_loop handler fetches timeouts []"

definition sys_sem_wait where
  "sys_sem_wait handler waits timeouts = timeouts_loop handler waits timeouts []"

subsection \<open>Deadlines\<close>

fun deadlines :: "nat \<Rightarrow> sys_timeout_t list \<Rightarrow> (nat \<times> nat \<times> u32) list" where
  "deadlines now [] = []"
| "deadlines now (t # ts) =
     (now + unat (to_time t), to_h t, to_arg t) # deadlines (now + unat (to_time t)) ts"

fun insert_deadline :: "nat \<times> nat \<times> u32 \<Rightarrow> (nat \<times> nat \<times> u32) list \<Rightarrow> (nat \<times> nat \<times> u32) list" where
  "insert_deadline d [] = [d]"
| "insert_deadline d (e # es) = (if fst e > fst d then d # e # es else e # insert_deadline d es)"

lemma deadlines_ge: "d \<in> set (deadlines now ts) \<Longrightarrow> now \<le> fst d"
  by (induction ts arbitrary: now) fastforce+

lemma deadlines_shift: "deadlines (e + now) ts = map (apfst ((+) e)) (deadlines now ts)"
  by (induction ts arbitrary: now) (simp_all add: add.assoc)

lemma length_deadlines [simp]: "length (deadlines now ts) = length ts"
  by (induction ts arbitrary: now) simp_all

lemma timeout_walk_deadlines:
  "unat (to_time t) \<le> unat (to_time new) \<Longrightarrow>
     deadlines now (timeout_walk new t ts) =
       insert_deadline (now + unat (to_time new), to_h new, to_arg new) (deadlines now (t # ts))"
proof (induction new t ts arbitrary: now rule: timeout_walk.induct)
  case (1 new t)
  then show ?case by (simp add: unat_sub_le)
next
  case (2 new t t2 ts)
  define new' where "new' = new\<lparr>to_time := to_time new - to_time t\<rparr>"
  have d: "unat (to_time new') = unat (to_time new) - unat (to_time t)"
    using 2(2) by (simp add: new'_def unat_sub_le)
  show ?case
  proof (cases "to_time t2 > to_time new'")
    case True
    then have "unat (to_time new') < unat (to_time t2)" by (simp add: word_less_unat)
    with True d 2(2) show ?thesis
      by (simp add: Let_def new'_def [symmetric] unat_sub_le) (auto simp: new'_def ac_simps)
  next
    case False
    then have le: "unat (to_time t2) \<le> unat (to_time new')" by (simp add: word_less_unat)
    from 2(1) [OF new'_def False le, of "now + unat (to_time t)"] False d 2(2) le show ?thesis
      by (simp add: Let_def new'_def [symmetric]) (simp add: new'_def)
  qed
qed

lemma sys_timeout_deadlines:
  "deadlines now (sys_timeout True msecs h arg ts) =
     insert_deadline (now + unat msecs, h, arg) (deadlines now ts)"
proof (cases ts)
  case (Cons t ts')
  show ?thesis
  proof (cases "to_time t > msecs")
    case True
    then have "unat msecs < unat (to_time t)" by (simp add: word_less_unat)
    with True Cons show ?thesis by (simp add: sys_timeout_def unat_sub_le)
  next
    case False
    then have "unat (to_time t) \<le> unat msecs" by (simp add: word_less_unat)
    with False Cons timeout_walk_deadlines [of t "\<lparr>to_time = msecs, to_h = h, to_arg = arg\<rparr>" now ts']
    show ?thesis by (simp add: sys_timeout_def Let_def)
  qed
qed (simp add: sys_timeout_def)

text \<open>
  Waiting \<open>e\<close> milliseconds: the entries due by then are taken off, the deadlines of the others
  come nearer by \<open>e\<close>.
\<close>

definition elapsed :: "nat \<Rightarrow> nat \<Rightarrow> sys_timeout_t list \<Rightarrow> sys_timeout_t list \<Rightarrow> bool" where
  "elapsed e k ts ts' \<longleftrightarrow> k \<le> length ts \<and>
     deadlines 0 ts' = map (apfst (\<lambda>d. d - e)) (drop k (deadlines 0 ts)) \<and>
     (\<forall>d \<in> set (take k (deadlines 0 ts)). fst d \<le> e) \<and>
     (\<forall>d \<in> set (drop k (deadlines 0 ts)). e \<le> fst d)"

lemma elapsed_first:
  assumes "e \<le> unat (to_time t)" and "unat w = unat (to_time t) - e"
  shows "elapsed e 0 (t # ts) (t\<lparr>to_time := w\<rparr> # ts)"
  using assms deadlines_shift [of "unat (to_time t)" 0 ts] deadlines_shift [of "unat (to_time t) - e" 0 ts]
  by (auto simp: elapsed_def dest!: deadlines_ge)

lemma elapsed_pop:
  assumes "elapsed e k ts ts'"
  shows "elapsed (unat (to_time t) + e) (Suc k) (t # ts) ts'"
proof -
  have "deadlines (unat (to_time t)) ts = map (apfst ((+) (unat (to_time t)))) (deadlines 0 ts)"
    using deadlines_shift [of "unat (to_time t)" 0 ts] by simp
  with assms show ?thesis
    by (auto simp: elapsed_def drop_map take_map)
qed

lemma timeouts_loop_elapsed:
  assumes "length ts < length results"
  shows "\<exists>k e ts'. timeouts_loop (\<lambda>t ts. ts) results ts fired = Some (fired @ take k ts, ts') \<and> elapsed e k ts ts'"
  using assms
proof (induction ts arbitrary: results fired)
  case Nil
  then show ?case
    by (intro exI [of _ 0] exI [of _ "[]"]) (subst timeouts_loop.simps, auto simp: elapsed_def neq_Nil_conv)
next
  case (Cons t ts)
  then obtain r rs where results: "results = r # rs" "length ts < length rs" by (cases results) auto
  have pop: "\<exists>k e ts'. timeouts_loop (\<lambda>t ts. ts) results' ts (fired @ [t]) = Some (fired @ take k (t # ts), ts') \<and>
      elapsed e k (t # ts) ts'" if len: "length ts < length results'" for results'
  proof -
    from Cons.IH [OF len, of "fired @ [t]"] obtain k e ts' where
      "timeouts_loop (\<lambda>t ts. ts) results' ts (fired @ [t]) = Some ((fired @ [t]) @ take k ts, ts')" "elapsed e k ts ts'"
      by blast
    then show ?thesis using elapsed_pop [of e k ts ts' t]
      by (intro exI [of _ "Suc k"] exI [of _ "unat (to_time t) + e"] exI [of _ ts']) simp
  qed
  show ?case
  proof (cases "to_time t > 0 \<and> r \<noteq> 0")
    case True
    let ?w = "if r \<le> to_time t then to_time t - r else 0"
    have "elapsed (min (unat r) (unat (to_time t))) 0 (t # ts) (t\<lparr>to_time := ?w\<rparr> # ts)"
      by (rule elapsed_first) (auto simp: unat_sub_le word_le_unat)
    moreover have "timeouts_loop (\<lambda>t ts. ts) results (t # ts) fired = Some (fired, t\<lparr>to_time := ?w\<rparr> # ts)"
      using True results(1) by (subst timeouts_loop.simps) simp
    ultimately show ?thesis by (metis append_Nil2 take_0)
  next
    case False
    then have "timeouts_loop (\<lambda>t ts. ts) results (t # ts) fired =
        timeouts_loop (\<lambda>t ts. ts) (if to_time t > 0 then rs else results) ts (fired @ [t])"
      using results(1) by (subst timeouts_loop.simps) auto
    with pop [of "if to_time t > 0 then rs else results"] results show ?thesis by auto
  qed
qed

subsection \<open>Properties\<close>

text \<open>
  C27: \<open>sys_timeout\<close> refines insertion into the list of absolute deadlines: the new timeout is
  due \<open>msecs\<close> from now, is placed behind every timeout due no later, and the deadlines of all
  others are unchanged, although the list stores differences.
\<close>

theorem sys_timeout_inserts_deadline:
  "deadlines 0 (sys_timeout True msecs h arg ts) = insert_deadline (unat msecs, h, arg) (deadlines 0 ts)"
  using sys_timeout_deadlines [of 0] by simp



end
