(* ===== verification/Allocator.thy ===== *)
theory Allocator
  imports Net_Prelude
begin

text \<open>
  The interface of an allocator, as the clients of the heap and of the fixed-size pools use it.
  \<open>ok s A\<close> says that the state is well formed and that exactly the objects \<open>A\<close> are allocated.
  \<open>alloc n s\<close> serves the request \<open>n\<close>, possibly with NULL; \<open>free b s\<close> takes an object back. The
  outer \<open>None\<close> is a fault. A client that frees only objects it holds, each once, never faults and
  is never handed an object it already holds.
\<close>

datatype ('n, 'b) alloc_op = Alloc 'n | Free 'b

fun alloc_run :: "('n \<Rightarrow> 's \<Rightarrow> ('b option \<times> 's) option) \<Rightarrow> ('b \<Rightarrow> 's \<Rightarrow> 's option) \<Rightarrow>
    ('n, 'b) alloc_op list \<Rightarrow> 'b list \<Rightarrow> 's \<Rightarrow> ('b list \<times> 's) option" where
  "alloc_run alloc free [] held s = Some (held, s)"
| "alloc_run alloc free (Alloc n # ops) held s =
     (case alloc n s of
        None \<Rightarrow> None
      | Some (None, s') \<Rightarrow> alloc_run alloc free ops held s'
      | Some (Some b, s') \<Rightarrow> alloc_run alloc free ops (b # held) s')"
| "alloc_run alloc free (Free b # ops) held s =
     (if b \<in> set held then
        (case free b s of None \<Rightarrow> None | Some s' \<Rightarrow> alloc_run alloc free ops (remove1 b held) s')
      else alloc_run alloc free ops held s)"

locale allocator =
  fixes ok :: "'s \<Rightarrow> 'b set \<Rightarrow> bool"
    and alloc :: "'n \<Rightarrow> 's \<Rightarrow> ('b option \<times> 's) option"
    and free :: "'b \<Rightarrow> 's \<Rightarrow> 's option"
  assumes alloc_ok: "ok s A \<Longrightarrow> \<exists>r s'. alloc n s = Some (r, s') \<and>
      (case r of None \<Rightarrow> ok s' A | Some b \<Rightarrow> b \<notin> A \<and> ok s' (insert b A))"
    and free_ok: "ok s A \<Longrightarrow> b \<in> A \<Longrightarrow> \<exists>s'. free b s = Some s' \<and> ok s' (A - {b})"
begin

lemma run_safe:
  assumes "ok s (set held)" and "distinct held"
  shows "\<exists>held' s'. alloc_run alloc free ops held s = Some (held', s') \<and> ok s' (set held') \<and> distinct held'"
  using assms
proof (induction ops arbitrary: held s)
  case (Cons op ops)
  show ?case
  proof (cases op)
    case (Alloc n)
    obtain r s' where r: "alloc n s = Some (r, s')"
        "case r of None \<Rightarrow> ok s' (set held) | Some b \<Rightarrow> b \<notin> set held \<and> ok s' (insert b (set held))"
      using alloc_ok [OF Cons.prems(1)] by blast
    show ?thesis
    proof (cases r)
      case None
      with r Cons.IH [of s' held] Cons.prems Alloc show ?thesis by simp
    next
      case (Some b)
      with r Cons.IH [of s' "b # held"] Cons.prems Alloc show ?thesis by simp
    qed
  next
    case (Free b)
    show ?thesis
    proof (cases "b \<in> set held")
      case True
      with free_ok [OF Cons.prems(1)] obtain s' where "free b s = Some s'" "ok s' (set held - {b})" by blast
      with Cons.IH [of s' "remove1 b held"] Cons.prems Free True show ?thesis by (simp add: set_remove1_eq)
    next
      case False
      with Cons.IH [of s held] Cons.prems Free show ?thesis by simp
    qed
  qed
qed auto

end

end
