(* ===== verification/Mem_Heap.thy ===== *)
theory Mem_Heap
  imports Sys_Arch Allocator
begin

text \<open>
  \<^verbatim>\<open>lwtcp/mem.c\<close>: the heap of the stack, one array \<^verbatim>\<open>ram\<close> of \<open>MEM_SIZE\<close> bytes divided into
  blocks that start with a header \<^verbatim>\<open>struct mem\<close>. The model keeps the headers, as a function from
  offsets in the array; a pointer is its distance from \<^verbatim>\<open>ram\<close> as a 32 bit number, so that pointers
  below the array are the large numbers, and NULL is \<open>None\<close>. Operations thread the state of the
  allocator and return \<open>None\<close> when the C code faults, blocks for ever on \<^verbatim>\<open>mem_sem\<close> or does not
  terminate. The state is an extensible record, extended by the components built on the heap.
  The abstraction \<open>layout\<close> is the list of the blocks; the theorems show that allocation, release
  and reallocation keep a layout that tiles the array, that allocation is first fit, that
  released blocks are merged with their free neighbours, and that an allocated block is never
  part of another.
\<close>

subsection \<open>The code\<close>

record mem_hdr =
  m_next :: u32
  m_prev :: u32
  m_used :: u8

record mem_stats =
  ms_avail :: u16
  ms_used :: u16
  ms_max :: u16
  ms_err :: u16
  ms_reclaimed :: u16

record mem_state =
  ram :: "u32 \<Rightarrow> mem_hdr"
  lfree :: u32
  mem_sem :: sys_sem
  mrlist :: "(nat \<times> u32) list"
  mem_stats :: mem_stats

abbreviation MEM_SIZE :: u32 where
  "MEM_SIZE \<equiv> 5120000"

abbreviation SIZEOF_STRUCT_MEM :: u32 where
  "SIZEOF_STRUCT_MEM \<equiv> 12"

abbreviation MIN_SIZE :: u32 where
  "MIN_SIZE \<equiv> 12"

abbreviation MEM_ALIGNMENT :: u32 where
  "MEM_ALIGNMENT \<equiv> 4"

definition mem_lock :: "'a mem_state_scheme \<Rightarrow> 'a mem_state_scheme option" where
  "mem_lock s =
     (case sys_arch_sem_wait (mem_sem s) 0 [] of
        None \<Rightarrow> None
      | Some (t, sem) \<Rightarrow> Some (s\<lparr>mem_sem := sem\<rparr>))"

definition mem_unlock :: "'a mem_state_scheme \<Rightarrow> 'a mem_state_scheme" where
  "mem_unlock s = s\<lparr>mem_sem := sys_sem_signal (mem_sem s)\<rparr>"

definition set_next :: "u32 \<Rightarrow> u32 \<Rightarrow> (u32 \<Rightarrow> mem_hdr) \<Rightarrow> u32 \<Rightarrow> mem_hdr" where
  "set_next p v r = r(p := (r p)\<lparr>m_next := v\<rparr>)"

definition set_prev :: "u32 \<Rightarrow> u32 \<Rightarrow> (u32 \<Rightarrow> mem_hdr) \<Rightarrow> u32 \<Rightarrow> mem_hdr" where
  "set_prev p v r = r(p := (r p)\<lparr>m_prev := v\<rparr>)"

definition set_used :: "u32 \<Rightarrow> u8 \<Rightarrow> (u32 \<Rightarrow> mem_hdr) \<Rightarrow> u32 \<Rightarrow> mem_hdr" where
  "set_used p v r = r(p := (r p)\<lparr>m_used := v\<rparr>)"

definition plug_forward :: "u32 \<Rightarrow> 'a mem_state_scheme \<Rightarrow> 'a mem_state_scheme" where
  "plug_forward mem s =
     (let nmem = m_next (ram s mem)
      in if mem \<noteq> nmem \<and> m_used (ram s nmem) = 0 \<and> nmem \<noteq> MEM_SIZE
         then
           let s = (if lfree s = nmem then s\<lparr>lfree := mem\<rparr> else s);
               s = s\<lparr>ram := set_next mem (m_next (ram s nmem)) (ram s)\<rparr>
           in s\<lparr>ram := set_prev (m_next (ram s nmem)) mem (ram s)\<rparr>
         else s)"

definition plug_backward :: "u32 \<Rightarrow> 'a mem_state_scheme \<Rightarrow> 'a mem_state_scheme" where
  "plug_backward mem s =
     (let pmem = m_prev (ram s mem)
      in if pmem \<noteq> mem \<and> m_used (ram s pmem) = 0
         then
           let s = (if lfree s = mem then s\<lparr>lfree := pmem\<rparr> else s);
               s = s\<lparr>ram := set_next pmem (m_next (ram s mem)) (ram s)\<rparr>
           in s\<lparr>ram := set_prev (m_next (ram s mem)) pmem (ram s)\<rparr>
         else s)"

definition plug_holes :: "u32 \<Rightarrow> 'a mem_state_scheme \<Rightarrow> 'a mem_state_scheme" where
  "plug_holes mem s = plug_backward mem (plug_forward mem s)"

definition mem_init :: "'a mem_state_scheme \<Rightarrow> 'a mem_state_scheme" where
  "mem_init s =
     s\<lparr>ram := (\<lambda>p. \<lparr>m_next = 0, m_prev = 0, m_used = 0\<rparr>)
         (0 := \<lparr>m_next = MEM_SIZE, m_prev = 0, m_used = 0\<rparr>,
          MEM_SIZE := \<lparr>m_next = MEM_SIZE, m_prev = MEM_SIZE, m_used = 1\<rparr>),
       mem_sem := sys_sem_new0 1,
       lfree := 0,
       mrlist := [],
       mem_stats := (mem_stats s)\<lparr>ms_avail := ucast MEM_SIZE\<rparr>\<rparr>"

partial_function (option) mem_scan :: "(u32 \<Rightarrow> mem_hdr) \<Rightarrow> u32 \<Rightarrow> u32 \<Rightarrow> u32 option option" where
  "mem_scan r sz ptr =
     (if ptr < MEM_SIZE then
        if m_used (r ptr) = 0 \<and>
           m_next (r ptr) - (ptr + SIZEOF_STRUCT_MEM) \<ge> sz + SIZEOF_STRUCT_MEM
        then Some (Some ptr)
        else mem_scan r sz (m_next (r ptr))
      else Some None)"

partial_function (option) lfree_walk :: "(u32 \<Rightarrow> mem_hdr) \<Rightarrow> u32 \<Rightarrow> u32 option" where
  "lfree_walk r p =
     (if m_used (r p) \<noteq> 0 \<and> p \<noteq> MEM_SIZE then lfree_walk r (m_next (r p)) else Some p)"

text \<open>The body of the scan once a block is found: it is split, and the second part is free.\<close>

definition mem_split :: "u32 \<Rightarrow> u32 \<Rightarrow> (u32 \<Rightarrow> mem_hdr) \<Rightarrow> u32 \<Rightarrow> mem_hdr" where
  "mem_split ptr sz r =
     (let ptr2 = ptr + SIZEOF_STRUCT_MEM + sz;
          r = set_prev ptr2 ptr r;
          r = set_next ptr2 (m_next (r ptr)) r;
          r = set_next ptr ptr2 r;
          r = (if m_next (r ptr2) \<noteq> MEM_SIZE then set_prev (m_next (r ptr2)) ptr2 r else r);
          r = set_used ptr2 0 r
      in set_used ptr 1 r)"

definition mem_align :: "u32 \<Rightarrow> u32" where
  "mem_align sz =
     (if sz mod MEM_ALIGNMENT \<noteq> 0
      then sz + (MEM_ALIGNMENT - (sz + SIZEOF_STRUCT_MEM) mod MEM_ALIGNMENT) else sz)"

definition mem_malloc :: "u32 \<Rightarrow> 'a mem_state_scheme \<Rightarrow> (u32 option \<times> 'a mem_state_scheme) option" where
  "mem_malloc sz s =
     (if sz = 0 then Some (None, s)
      else
        let sz = mem_align sz
        in if sz > MEM_SIZE then Some (None, s)
        else do {
          s \<leftarrow> mem_lock s;
          found \<leftarrow> mem_scan (ram s) sz (lfree s);
          case found of
            None \<Rightarrow>
              Some (None, mem_unlock (s\<lparr>mem_stats := (mem_stats s)\<lparr>ms_err := ms_err (mem_stats s) + 1\<rparr>\<rparr>))
          | Some ptr \<Rightarrow>
              let ptr2 = ptr + SIZEOF_STRUCT_MEM + sz;
                  s = s\<lparr>ram := mem_split ptr sz (ram s)\<rparr>;
                  s = s\<lparr>mem_stats := (mem_stats s)\<lparr>ms_used := ms_used (mem_stats s) + ucast sz\<rparr>\<rparr>;
                  s = (if ucast (ms_max (mem_stats s)) < ptr2
                       then s\<lparr>mem_stats := (mem_stats s)\<lparr>ms_max := ucast ptr2\<rparr>\<rparr> else s)
              in do {
                lf \<leftarrow> (if ptr = lfree s then lfree_walk (ram s) (lfree s) else Some (lfree s));
                Some (Some (ptr + SIZEOF_STRUCT_MEM), mem_unlock (s\<lparr>lfree := lf\<rparr>))
              }
        })"

definition mem_free :: "u32 option \<Rightarrow> 'a mem_state_scheme \<Rightarrow> 'a mem_state_scheme option" where
  "mem_free rmem s =
     (case rmem of
        None \<Rightarrow> Some s
      | Some rm \<Rightarrow> do {
          s \<leftarrow> mem_lock s;
          if rm \<ge> MEM_SIZE
          then Some (s\<lparr>mem_stats := (mem_stats s)\<lparr>ms_err := ms_err (mem_stats s) + 1\<rparr>\<rparr>)
          else if rm < SIZEOF_STRUCT_MEM then None
          else
            let mem = rm - SIZEOF_STRUCT_MEM;
                s = s\<lparr>ram := set_used mem 0 (ram s)\<rparr>;
                s = (if mem < lfree s then s\<lparr>lfree := mem\<rparr> else s);
                s = s\<lparr>mem_stats := (mem_stats s)\<lparr>ms_used := ms_used (mem_stats s)
                        - ucast (m_next (ram s mem) - mem - SIZEOF_STRUCT_MEM)\<rparr>\<rparr>
            in Some (mem_unlock (plug_holes mem s))
        })"

text \<open>Cutting the tail off a block in \<open>mem_realloc\<close>.\<close>

definition mem_cut :: "u32 \<Rightarrow> u32 \<Rightarrow> (u32 \<Rightarrow> mem_hdr) \<Rightarrow> u32 \<Rightarrow> mem_hdr" where
  "mem_cut ptr newsize r =
     (let ptr2 = ptr + SIZEOF_STRUCT_MEM + newsize;
          r = set_used ptr2 0 r;
          r = set_next ptr2 (m_next (r ptr)) r;
          r = set_prev ptr2 ptr r;
          r = set_next ptr ptr2 r
      in if m_next (r ptr2) \<noteq> MEM_SIZE then set_prev (m_next (r ptr2)) ptr2 r else r)"

definition mem_realloc :: "u32 \<Rightarrow> u32 \<Rightarrow> 'a mem_state_scheme \<Rightarrow> (u32 \<times> 'a mem_state_scheme) option" where
  "mem_realloc rmem newsize s = do {
     s \<leftarrow> mem_lock s;
     if rmem \<ge> MEM_SIZE then Some (rmem, s)
     else if rmem < SIZEOF_STRUCT_MEM then None
     else
       let ptr = rmem - SIZEOF_STRUCT_MEM;
           sz = m_next (ram s ptr) - ptr - SIZEOF_STRUCT_MEM;
           s = s\<lparr>mem_stats := (mem_stats s)\<lparr>ms_used := ms_used (mem_stats s) - ucast (sz - newsize)\<rparr>\<rparr>;
           s = (if newsize + SIZEOF_STRUCT_MEM + MIN_SIZE < sz
                then plug_holes (ptr + SIZEOF_STRUCT_MEM + newsize)
                       (s\<lparr>ram := mem_cut ptr newsize (ram s)\<rparr>)
                else s)
       in Some (rmem, mem_unlock s)
   }"

text \<open>The contents that \<^verbatim>\<open>bcopy\<close> moves in \<open>mem_reallocm\<close> are not part of the model.\<close>

definition mem_reallocm :: "u32 \<Rightarrow> u32 \<Rightarrow> 'a mem_state_scheme \<Rightarrow> (u32 \<times> 'a mem_state_scheme) option" where
  "mem_reallocm rmem newsize s = do {
     (nmem, s) \<leftarrow> mem_malloc newsize s;
     case nmem of
       None \<Rightarrow> mem_realloc rmem newsize s
     | Some p \<Rightarrow> do {
         s \<leftarrow> mem_free (Some rmem) s;
         Some (p, s)
       }
   }"

text \<open>
  Reclaiming: \<open>call\<close> runs a registered function on its argument and returns how much it
  reclaimed.
\<close>

fun reclaim_loop :: "(nat \<times> u32 \<Rightarrow> u32 \<Rightarrow> 's \<Rightarrow> (u32 \<times> 's) option) \<Rightarrow> u32 \<Rightarrow> (nat \<times> u32) list \<Rightarrow>
    u32 \<Rightarrow> 's \<Rightarrow> (u32 \<times> 's) option" where
  "reclaim_loop call sz [] rec s = Some (rec, s)"
| "reclaim_loop call sz (mr # mrs) rec s = do {
     (n, s) \<leftarrow> call mr sz s;
     reclaim_loop call sz mrs (rec + n) s
   }"

definition mem_reclaim ::
  "(nat \<times> u32 \<Rightarrow> u32 \<Rightarrow> 'a mem_state_scheme \<Rightarrow> (u32 \<times> 'a mem_state_scheme) option) \<Rightarrow> u32 \<Rightarrow>
     'a mem_state_scheme \<Rightarrow> 'a mem_state_scheme option" where
  "mem_reclaim call sz s = do {
     (rec, s) \<leftarrow> reclaim_loop call sz (mrlist s) 0 s;
     Some (s\<lparr>mem_stats := (mem_stats s)\<lparr>ms_reclaimed := ms_reclaimed (mem_stats s) + ucast rec\<rparr>\<rparr>)
   }"

definition mem_malloc2 ::
  "(nat \<times> u32 \<Rightarrow> u32 \<Rightarrow> 'a mem_state_scheme \<Rightarrow> (u32 \<times> 'a mem_state_scheme) option) \<Rightarrow> u32 \<Rightarrow>
     'a mem_state_scheme \<Rightarrow> (u32 option \<times> 'a mem_state_scheme) option" where
  "mem_malloc2 call sz s = do {
     (mem, s) \<leftarrow> mem_malloc sz s;
     case mem of
       None \<Rightarrow> do {
         s \<leftarrow> mem_reclaim call sz s;
         mem_malloc sz s
       }
     | Some p \<Rightarrow> Some (Some p, s)
   }"

text \<open>The list node is allocated from the heap itself (12 bytes).\<close>

definition mem_register_reclaim :: "nat \<Rightarrow> u32 \<Rightarrow> 'a mem_state_scheme \<Rightarrow> 'a mem_state_scheme option" where
  "mem_register_reclaim f arg s = do {
     (mr, s) \<leftarrow> mem_malloc 12 s;
     case mr of
       None \<Rightarrow> Some s
     | Some p \<Rightarrow> Some (s\<lparr>mrlist := (f, arg) # mrlist s\<rparr>)
   }"

subsection \<open>The layout of the heap\<close>

text \<open>
  A block is its start and whether it is used. \<open>lseg r p a bs q b\<close>: the headers from the offset
  \<open>a\<close>, whose predecessor is \<open>p\<close>, describe the blocks \<open>bs\<close> and lead to the offset \<open>b\<close>, with
  predecessor \<open>q\<close>.
\<close>

type_synonym block = "u32 \<times> bool"

fun lseg :: "(u32 \<Rightarrow> mem_hdr) \<Rightarrow> u32 \<Rightarrow> u32 \<Rightarrow> block list \<Rightarrow> u32 \<Rightarrow> u32 \<Rightarrow> bool" where
  "lseg r p a [] q b \<longleftrightarrow> p = q \<and> a = b"
| "lseg r p a ((x, u) # bs) q b \<longleftrightarrow>
     x = a \<and> m_prev (r a) = p \<and> (m_used (r a) \<noteq> 0) = u \<and>
     unat a + 12 \<le> unat (m_next (r a)) \<and> unat (m_next (r a)) \<le> unat MEM_SIZE \<and>
     lseg r a (m_next (r a)) bs q b"

definition block_end :: "block list \<Rightarrow> u32" where
  "block_end bs = (case bs of [] \<Rightarrow> MEM_SIZE | b # _ \<Rightarrow> fst b)"

lemma block_end_simps [simp]: "block_end [] = MEM_SIZE" "block_end (b # bs) = fst b"
  by (simp_all add: block_end_def)

lemma lseg_append:
  "lseg r p a (xs @ ys) q b \<longleftrightarrow> (\<exists>p' a'. lseg r p a xs p' a' \<and> lseg r p' a' ys q b)"
proof (induction xs arbitrary: p a)
  case (Cons blk xs)
  then show ?case by (cases blk) simp
qed simp

lemma lseg_bounds:
  "lseg r p a bs q b \<Longrightarrow> unat a \<le> unat b"
  "lseg r p a bs q b \<Longrightarrow> (x, u) \<in> set bs \<Longrightarrow> unat a \<le> unat x \<and> unat x + 12 \<le> unat b"
proof (induction bs arbitrary: p a)
  case (Cons blk bs)
  { case 1
    then show ?case using Cons.IH(1) by (cases blk) fastforce
  next
    case 2
    then show ?case using Cons.IH by (cases blk) fastforce }
qed auto

lemma lseg_frame:
  assumes "\<And>x u. (x, u) \<in> set bs \<Longrightarrow> r' x = r x"
  shows "lseg r' p a bs q b = lseg r p a bs q b"
  using assms
proof (induction bs arbitrary: p a)
  case (Cons blk bs)
  obtain x u where blk: "blk = (x, u)" by (cases blk)
  then have "r' x = r x" "lseg r' p a bs q b = lseg r p a bs q b" for p a
    using Cons by auto
  then show ?case using blk by (cases "x = a") simp_all
qed simp

lemma lseg_block_end: "lseg r p a bs q MEM_SIZE \<Longrightarrow> a = block_end bs"
  by (cases bs) auto

text \<open>Changing the predecessor of the first block.\<close>

lemma lseg_new_prev:
  assumes "lseg r p a bs q MEM_SIZE" and "\<And>x u. (x, u) \<in> set bs \<Longrightarrow> x \<noteq> a \<Longrightarrow> r' x = r x"
    and "bs \<noteq> [] \<Longrightarrow> r' a = (r a)\<lparr>m_prev := p'\<rparr>"
  shows "\<exists>q'. lseg r' p' a bs q' MEM_SIZE"
proof (cases bs)
  case (Cons blk bs')
  obtain u where blk: "blk = (a, u)" using assms(1) Cons by (cases blk) auto
  let ?n = "m_next (r a)"
  have tl: "lseg r a ?n bs' q MEM_SIZE" and n: "unat a + 12 \<le> unat ?n" using assms(1) Cons blk by auto
  have "lseg r' a ?n bs' q MEM_SIZE"
    using tl
  proof (subst lseg_frame [of bs' r' r])
    fix x v assume "(x, v) \<in> set bs'"
    then have "x \<noteq> a" using lseg_bounds(2) [OF tl] n by fastforce
    then show "r' x = r x" using assms(2) \<open>(x, v) \<in> set bs'\<close> Cons by auto
  qed
  then show ?thesis using assms(1,3) Cons blk by auto
qed (use assms(1) in auto)

lemma lseg_starts:
  assumes "lseg r p a ((x, u) # ys) q b" and "(y, v) \<in> set ys"
  shows "unat x + 12 \<le> unat y"
  using assms lseg_bounds(2) [of r a "m_next (r a)" ys q b y v] by auto

text \<open>Splitting a block: the common effect of \<open>mem_split\<close> and \<open>mem_cut\<close> on the headers.\<close>

definition split_hdrs :: "u32 \<Rightarrow> u32 \<Rightarrow> u8 \<Rightarrow> (u32 \<Rightarrow> mem_hdr) \<Rightarrow> u32 \<Rightarrow> mem_hdr" where
  "split_hdrs x x2 u r =
     (let n = m_next (r x);
          r = r(x := \<lparr>m_next = x2, m_prev = m_prev (r x), m_used = u\<rparr>,
                x2 := \<lparr>m_next = n, m_prev = x, m_used = 0\<rparr>)
      in if n \<noteq> MEM_SIZE then r(n := (r n)\<lparr>m_prev := x2\<rparr>) else r)"

lemmas hdr_updates = set_next_def set_prev_def set_used_def

lemma mem_split_eq:
  assumes "x \<noteq> x + 12 + sz" and "m_next (r x) \<noteq> x" and "m_next (r x) \<noteq> x + 12 + sz"
  shows "mem_split x sz r = split_hdrs x (x + 12 + sz) 1 r"
  using assms by (auto simp: mem_split_def split_hdrs_def hdr_updates Let_def fun_eq_iff)

lemma mem_cut_eq:
  assumes "x \<noteq> x + 12 + sz" and "m_next (r x) \<noteq> x" and "m_next (r x) \<noteq> x + 12 + sz"
  shows "mem_cut x sz r = split_hdrs x (x + 12 + sz) (m_used (r x)) r"
  using assms by (auto simp: mem_cut_def split_hdrs_def hdr_updates Let_def fun_eq_iff)

lemma lseg_split:
  assumes "lseg r p a (xs @ (x, v) # ys) q MEM_SIZE"
    and x2: "unat x + 12 \<le> unat x2" "unat x2 + 12 \<le> unat (block_end ys)"
  shows "\<exists>q'. lseg (split_hdrs x x2 u r) p a (xs @ (x, u \<noteq> 0) # (x2, False) # ys) q' MEM_SIZE"
proof -
  let ?r = "split_hdrs x x2 u r" and ?n = "m_next (r x)"
  obtain p' where seg1: "lseg r p a xs p' x" and seg2: "lseg r p' x ((x, v) # ys) q MEM_SIZE"
    using assms(1) by (auto simp: lseg_append)
  have n: "?n = block_end ys" using seg2 lseg_block_end by auto
  have le: "unat (block_end ys) \<le> unat MEM_SIZE" using seg2 n by auto
  have ne: "x \<noteq> x2" "?n \<noteq> x" "?n \<noteq> x2" using x2 n by auto
  have "lseg ?r p a xs p' x"
    using seg1
  proof (subst lseg_frame [of xs ?r r])
    fix y w assume "(y, w) \<in> set xs"
    then have "unat y + 12 \<le> unat x" using lseg_bounds(2) [OF seg1] by blast
    then show "?r y = r y" using x2 n by (auto simp: split_hdrs_def Let_def)
  qed
  moreover have "\<exists>q'. lseg ?r x2 (block_end ys) ys q' MEM_SIZE"
  proof (rule lseg_new_prev)
    show "lseg r x (block_end ys) ys q MEM_SIZE" using seg2 n by simp
    fix y w assume y: "(y, w) \<in> set ys" "y \<noteq> block_end ys"
    then have "y \<noteq> x" using lseg_starts [OF seg2] by fastforce
    moreover have "y \<noteq> x2"
      using lseg_bounds(2) [of r x "block_end ys" ys q MEM_SIZE y w] seg2 n y x2 by fastforce
    ultimately show "?r y = r y" using y n by (auto simp: split_hdrs_def Let_def)
  next
    assume "ys \<noteq> []"
    then have "(block_end ys, snd (hd ys)) \<in> set ys" by (cases ys) auto
    then have "block_end ys \<noteq> MEM_SIZE"
      using lseg_bounds(2) [of r x "block_end ys" ys q MEM_SIZE "block_end ys"] seg2 n by fastforce
    then show "?r (block_end ys) = (r (block_end ys))\<lparr>m_prev := x2\<rparr>"
      using ne n by (auto simp: split_hdrs_def Let_def)
  qed
  ultimately show ?thesis
    using seg2 ne n x2 le unfolding lseg_append
    by (auto simp: split_hdrs_def Let_def)
qed

text \<open>Merging a block with its successor: the effect of \<open>plug_holes\<close> on the headers.\<close>

definition merge_hdrs :: "u32 \<Rightarrow> u32 \<Rightarrow> (u32 \<Rightarrow> mem_hdr) \<Rightarrow> u32 \<Rightarrow> mem_hdr" where
  "merge_hdrs x y r = set_prev (m_next (r y)) x (set_next x (m_next (r y)) r)"

lemma lseg_merge:
  assumes "lseg r p a (xs @ (x, u) # (y, v) # ys) q MEM_SIZE"
  shows "\<exists>q'. lseg (merge_hdrs x y r) p a (xs @ (x, u) # ys) q' MEM_SIZE"
proof -
  let ?r = "merge_hdrs x y r" and ?n = "m_next (r y)"
  obtain p' where seg1: "lseg r p a xs p' x" and seg2: "lseg r p' x ((x, u) # (y, v) # ys) q MEM_SIZE"
    using assms by (auto simp: lseg_append)
  then have y: "m_next (r x) = y" "unat x + 12 \<le> unat y" "unat y + 12 \<le> unat ?n" "unat ?n \<le> unat MEM_SIZE"
    and tl: "lseg r y ?n ys q MEM_SIZE" by auto
  then have xn: "x \<noteq> ?n" by auto
  have "lseg ?r p a xs p' x"
    using seg1
  proof (subst lseg_frame [of xs ?r r])
    fix z w assume "(z, w) \<in> set xs"
    then have "unat z + 12 \<le> unat x" using lseg_bounds(2) [OF seg1] by blast
    then show "?r z = r z" using y by (auto simp: merge_hdrs_def hdr_updates)
  qed
  moreover have "\<exists>q'. lseg ?r x ?n ys q' MEM_SIZE"
  proof (rule lseg_new_prev [OF tl])
    fix z w assume "(z, w) \<in> set ys" "z \<noteq> ?n"
    moreover from this have "z \<noteq> x" using lseg_bounds(2) [OF tl] y by fastforce
    ultimately show "?r z = r z" by (auto simp: merge_hdrs_def hdr_updates)
  qed (use xn in \<open>auto simp: merge_hdrs_def hdr_updates\<close>)
  ultimately show ?thesis
    using seg2 xn y unfolding lseg_append by (auto simp: merge_hdrs_def hdr_updates)
qed

definition layout :: "(u32 \<Rightarrow> mem_hdr) \<Rightarrow> block list \<Rightarrow> bool" where
  "layout r bs \<longleftrightarrow> (\<exists>q. lseg r 0 0 bs q MEM_SIZE) \<and> m_used (r MEM_SIZE) \<noteq> 0"

lemma layout_merge: "layout r (xs @ (x, u) # (y, v) # ys) \<Longrightarrow> layout (merge_hdrs x y r) (xs @ (x, u) # ys)"
  using lseg_merge [of r 0 0 xs x u y v ys] by (auto simp: layout_def merge_hdrs_def hdr_updates)

lemma layout_block:
  assumes "layout r (xs @ (x, u) # ys)"
  shows "m_next (r x) = block_end ys" "(m_used (r x) \<noteq> 0) = u"
    "m_prev (r x) = (if xs = [] then 0 else fst (last xs))" "xs = [] \<Longrightarrow> x = 0"
    "unat x + 12 \<le> unat (block_end ys)" "unat (block_end ys) \<le> unat MEM_SIZE"
    "\<And>y v. (y, v) \<in> set ys \<Longrightarrow> unat (block_end ys) \<le> unat y"
    "\<And>y v. (y, v) \<in> set xs \<Longrightarrow> unat y + 12 \<le> unat x"
proof -
  obtain p' q where seg1: "lseg r 0 0 xs p' x" and seg2: "lseg r p' x ((x, u) # ys) q MEM_SIZE"
    using assms by (auto simp: layout_def lseg_append)
  have p': "p' = (if xs = [] then 0 else fst (last xs))"
    using seg1 by (cases xs rule: rev_cases) (auto simp: lseg_append)
  have nx: "m_next (r x) = block_end ys" and tl: "lseg r x (m_next (r x)) ys q MEM_SIZE"
    using seg2 lseg_block_end by auto
  show "m_next (r x) = block_end ys" "(m_used (r x) \<noteq> 0) = u"
    "m_prev (r x) = (if xs = [] then 0 else fst (last xs))" "xs = [] \<Longrightarrow> x = 0"
    "unat x + 12 \<le> unat (block_end ys)" "unat (block_end ys) \<le> unat MEM_SIZE"
    using seg1 seg2 p' nx by auto
  show "(y, v) \<in> set ys \<Longrightarrow> unat (block_end ys) \<le> unat y" for y v
    using lseg_bounds(2) [OF tl] nx by auto
  show "(y, v) \<in> set xs \<Longrightarrow> unat y + 12 \<le> unat x" for y v
    using lseg_bounds(2) [OF seg1] by auto
qed

lemma layout_distinct: "layout r bs \<Longrightarrow> distinct (map fst bs)"
proof -
  have "lseg r p a bs q MEM_SIZE \<Longrightarrow> distinct (map fst bs)" for p a q
  proof (induction bs arbitrary: p a)
    case (Cons blk bs)
    obtain x u where blk: "blk = (x, u)" by (cases blk)
    have "x \<notin> fst ` set bs" using lseg_starts [of r p a x u bs q MEM_SIZE] Cons.prems blk by fastforce
    then show ?case using Cons blk by auto
  qed simp
  then show "layout r bs \<Longrightarrow> distinct (map fst bs)" unfolding layout_def by blast
qed

lemma layout_used_frame:
  assumes "layout r (xs @ (x, u) # ys)"
  shows "layout (set_used x w r) (xs @ (x, w \<noteq> 0) # ys)"
proof -
  let ?r = "set_used x w r"
  note b = layout_block [OF assms]
  obtain p' q where seg1: "lseg r 0 0 xs p' x" and seg2: "lseg r p' x ((x, u) # ys) q MEM_SIZE"
    using assms by (auto simp: layout_def lseg_append)
  have "(x, v) \<notin> set xs" "(x, v) \<notin> set ys" for v
    using b(5) b(7) [of x v] b(8) [of x v] by auto
  then have "lseg ?r 0 0 xs p' x" "lseg ?r x (m_next (r x)) ys q MEM_SIZE"
    using seg1 seg2 by (subst lseg_frame [of _ ?r r]; auto simp: hdr_updates)+
  moreover have "x \<noteq> MEM_SIZE" using b(5,6) by auto
  ultimately show ?thesis
    using assms seg2 unfolding layout_def lseg_append by (auto simp: hdr_updates)
qed

subsection \<open>Merging free blocks\<close>

fun coalesce :: "block list \<Rightarrow> block list" where
  "coalesce ((x, False) # (y, False) # bs) = coalesce ((x, False) # bs)"
| "coalesce (b # bs) = b # coalesce bs"
| "coalesce [] = []"

fun no_adjacent_free :: "block list \<Rightarrow> bool" where
  "no_adjacent_free ((x, u) # (y, v) # bs) \<longleftrightarrow> (u \<or> v) \<and> no_adjacent_free ((y, v) # bs)"
| "no_adjacent_free _ \<longleftrightarrow> True"

definition drop_free :: "block list \<Rightarrow> block list" where
  "drop_free bs = (case bs of (y, False) # ys \<Rightarrow> ys | _ \<Rightarrow> bs)"

lemma drop_free_simps [simp]:
  "drop_free [] = []" "drop_free ((y, True) # ys) = (y, True) # ys" "drop_free ((y, False) # ys) = ys"
  by (simp_all add: drop_free_def)

lemma no_adjacent_free_Cons:
  "no_adjacent_free (b # bs) \<longleftrightarrow> (bs \<noteq> [] \<longrightarrow> snd b \<or> snd (hd bs)) \<and> no_adjacent_free bs"
  by (cases b; cases bs) auto

lemma no_adjacent_free_append:
  "no_adjacent_free (xs @ ys) \<longleftrightarrow> no_adjacent_free xs \<and> no_adjacent_free ys \<and>
     (xs \<noteq> [] \<longrightarrow> ys \<noteq> [] \<longrightarrow> snd (last xs) \<or> snd (hd ys))"
proof (induction xs)
  case (Cons x xs)
  then show ?case by (cases xs) (auto simp: no_adjacent_free_Cons)
qed simp

lemma coalesce_empty [simp]: "coalesce bs = [] \<longleftrightarrow> bs = []"
  by (induction bs rule: coalesce.induct) auto

lemma coalesce_head [simp]: "bs \<noteq> [] \<Longrightarrow> hd (coalesce bs) = hd bs"
  by (induction bs rule: coalesce.induct) auto

lemma no_adjacent_free_coalesce: "no_adjacent_free (coalesce bs)"
  by (induction bs rule: coalesce.induct) (simp_all add: no_adjacent_free_Cons)

lemma snd_last_coalesce: "bs \<noteq> [] \<Longrightarrow> snd (last (coalesce bs)) = snd (last bs)"
  by (induction bs rule: coalesce.induct) auto

lemma coalesce_id: "no_adjacent_free bs \<Longrightarrow> coalesce bs = bs"
  by (induction bs rule: coalesce.induct) (auto simp: no_adjacent_free_Cons)

lemma coalesce_used_Cons [simp]: "snd b \<Longrightarrow> coalesce (b # bs) = b # coalesce bs"
  by (cases b) simp

lemma coalesce_skip: "bs = [] \<or> snd (hd bs) \<Longrightarrow> coalesce (b # bs) = b # coalesce bs"
  by (cases b; cases bs; cases "snd b") auto

lemma coalesce_append:
  "no_adjacent_free xs \<Longrightarrow> xs = [] \<or> snd (last xs) \<Longrightarrow> coalesce (xs @ zs) = xs @ coalesce zs"
proof (induction xs)
  case (Cons x xs)
  then have "snd x \<or> (xs @ zs \<noteq> [] \<and> snd (hd (xs @ zs)))" by (cases xs) (auto simp: no_adjacent_free_Cons)
  then have "coalesce (x # xs @ zs) = x # coalesce (xs @ zs)" by (auto simp: coalesce_skip)
  with Cons show ?case by (cases xs) (auto simp: no_adjacent_free_Cons)
qed simp

lemma coalesce_free:
  assumes "no_adjacent_free ys"
  shows "coalesce ((x, False) # ys) = (x, False) # drop_free ys"
proof (cases ys)
  case (Cons b bs)
  then have "bs = [] \<or> snd b \<or> snd (hd bs)" "no_adjacent_free bs"
    using assms by (auto simp: no_adjacent_free_Cons)
  with Cons assms show ?thesis
    by (cases b; cases "snd b") (auto simp: coalesce_id coalesce_skip)
qed simp

text \<open>Freeing a block of a heap without adjacent free blocks, as \<open>plug_holes\<close> does it.\<close>

lemma coalesce_freed:
  assumes "no_adjacent_free (xs @ (x, True) # ys)"
  shows "coalesce (xs @ (x, False) # ys) =
    (if xs \<noteq> [] \<and> \<not> snd (last xs) then xs else xs @ [(x, False)]) @ drop_free ys"
proof -
  have na: "no_adjacent_free xs" "no_adjacent_free ys"
    using assms by (simp_all add: no_adjacent_free_append no_adjacent_free_Cons)
  show ?thesis
  proof (cases "xs \<noteq> [] \<and> \<not> snd (last xs)")
    case True
    then obtain xs' p where xs: "xs = xs' @ [(p, False)]" by (cases xs rule: rev_cases) auto
    then have "no_adjacent_free xs'" "xs' = [] \<or> snd (last xs')"
      using na(1) by (auto simp: no_adjacent_free_append)
    then have "coalesce (xs @ (x, False) # ys) = xs' @ coalesce ((p, False) # ys)"
      unfolding xs by (simp add: coalesce_append)
    then show ?thesis using True na(2) xs by (simp add: coalesce_free)
  next
    case False
    then show ?thesis using na by (simp add: coalesce_append coalesce_free)
  qed
qed

subsection \<open>The invariant and the operations\<close>

text \<open>
  The invariant: the blocks tile the array, no two free blocks are neighbours, the last block is
  free, \<open>lfree\<close> is a free block and the semaphore is free.
\<close>

definition mem_ok :: "'a mem_state_scheme \<Rightarrow> block list \<Rightarrow> bool" where
  "mem_ok s bs \<longleftrightarrow> layout (ram s) bs \<and> no_adjacent_free bs \<and> \<not> snd (last bs) \<and>
     (lfree s, False) \<in> set bs \<and> sem_c (mem_sem s) = 1"

definition lfree_lowest :: "'a mem_state_scheme \<Rightarrow> block list \<Rightarrow> bool" where
  "lfree_lowest s bs \<longleftrightarrow> (\<forall>x. (x, False) \<in> set bs \<longrightarrow> unat (lfree s) \<le> unat x)"

fun first_fit :: "nat \<Rightarrow> block list \<Rightarrow> u32 option" where
  "first_fit n [] = None"
| "first_fit n ((x, u) # bs) =
     (if \<not> u \<and> unat x + 12 + n + 12 \<le> unat (block_end bs) then Some x else first_fit n bs)"

lemma mem_lock_ok:
  assumes "sem_c (mem_sem s) = 1"
  shows "\<exists>s'. mem_lock s = Some s' \<and> ram s' = ram s \<and> lfree s' = lfree s \<and> mrlist s' = mrlist s \<and>
    mem_stats s' = mem_stats s \<and> mem_unlock s' = s"
proof -
  obtain t sem where "sys_arch_sem_wait (mem_sem s) 0 [] = Some (t, sem)" "sys_sem_signal sem = mem_sem s"
    using mutex_cycle [OF assms] by auto
  then show ?thesis by (auto simp: mem_lock_def mem_unlock_def)
qed

lemma mem_scan_first_fit:
  assumes "lseg r p a bs q MEM_SIZE" and "n \<le> unat MEM_SIZE" and "unat sz = n"
  shows "mem_scan r sz a = Some (first_fit n bs)"
  using assms(1)
proof (induction bs arbitrary: p a)
  case Nil
  then show ?case by (subst mem_scan.simps) simp
next
  case (Cons blk bs)
  obtain u where blk: "blk = (a, u)" using Cons.prems by (cases blk) auto
  let ?n = "m_next (r a)"
  have n: "unat a + 12 \<le> unat ?n" "unat ?n \<le> 5120000" "?n = block_end bs"
    using Cons.prems blk lseg_block_end by auto
  have "unat (a + 12) = unat a + 12" "unat (sz + 12) = n + 12"
    using n assms(2,3) by (subst unat_add_less; simp)+
  then have "m_next (r a) - (a + 12) \<ge> sz + 12 \<longleftrightarrow> unat a + 12 + n + 12 \<le> unat ?n"
    using n by (subst word_le_unat) (simp add: unat_sub_le, arith)
  moreover have "a < MEM_SIZE" using n by (simp add: word_less_unat)
  ultimately show ?case
    using Cons.IH [of a ?n] Cons.prems blk n(3) by (subst mem_scan.simps) auto
qed

lemma mem_align_props:
  assumes "unat sz \<le> 5120000"
  shows "unat sz \<le> unat (mem_align sz)" "unat (mem_align sz) < unat sz + 4" "unat (mem_align sz) mod 4 = 0"
proof -
  have m4: "unat (w mod 4) = unat w mod 4" for w :: u32 by (simp add: unat_mod_distrib)
  have e: "unat (sz + 12) = unat sz + 12" using assms by (subst unat_add_less) simp_all
  have "unat sz \<le> unat (mem_align sz) \<and> unat (mem_align sz) < unat sz + 4 \<and> unat (mem_align sz) mod 4 = 0"
  proof (cases "sz mod 4 = 0")
    case True
    then have "unat sz mod 4 = 0" by (metis m4 unat_0)
    with True show ?thesis
      by (simp add: mem_align_def)
  next
    case False
    then have nz: "unat sz mod 4 \<noteq> 0" by (metis m4 unat_eq_zero)
    have "unat ((sz + 12) mod 4) = (unat sz + 12) mod 4" by (simp only: m4 e)
    then have "unat (4 - (sz + 12) mod 4 :: u32) = 4 - (unat sz + 12) mod 4"
      by (subst unat_sub_le) simp_all
    then have "unat (mem_align sz) = unat sz + (4 - (unat sz + 12) mod 4)"
      using False assms unfolding mem_align_def by (subst if_P, simp, subst unat_add_less) simp_all
    with nz show ?thesis by presburger
  qed
  then show "unat sz \<le> unat (mem_align sz)" "unat (mem_align sz) < unat sz + 4" "unat (mem_align sz) mod 4 = 0"
    by simp_all
qed

lemma first_fit_Some:
  "first_fit n bs = Some x \<Longrightarrow>
     \<exists>xs ys. bs = xs @ (x, False) # ys \<and> unat x + 12 + n + 12 \<le> unat (block_end ys)"
proof (induction n bs rule: first_fit.induct)
  case (2 n y u bs)
  show ?case
  proof (cases "\<not> u \<and> unat y + 12 + n + 12 \<le> unat (block_end bs)")
    case True
    from "2.prems" have "y = x" by (simp only: first_fit.simps if_P [OF True] option.inject)
    with True show ?thesis by - (rule exI [of _ "[]"], rule exI [of _ bs], simp)
  next
    case False
    with 2 obtain xs ys where "bs = xs @ (x, False) # ys" "unat x + 12 + n + 12 \<le> unat (block_end ys)"
      by (auto split: if_splits)
    then show ?thesis by - (rule exI [of _ "(y, u) # xs"], auto)
  qed
qed simp

lemma first_fit_None:
  "first_fit n (xs @ (x, False) # ys) = None \<Longrightarrow> unat (block_end ys) < unat x + 12 + n + 12"
  by (induction xs) (auto split: if_splits)

lemma layout_split:
  assumes "layout r (xs @ (x, v) # ys)" and "unat x + 12 \<le> unat x2" "unat x2 + 12 \<le> unat (block_end ys)"
  shows "layout (split_hdrs x x2 u r) (xs @ (x, u \<noteq> 0) # (x2, False) # ys)"
proof -
  have "unat (block_end ys) \<le> unat MEM_SIZE" by (rule layout_block(6) [OF assms(1)])
  with assms have "x \<noteq> MEM_SIZE" "x2 \<noteq> MEM_SIZE" by auto
  with lseg_split [of r 0 0 xs x v ys _ x2 u] assms show ?thesis
    by (auto simp: layout_def split_hdrs_def Let_def)
qed

lemma layout_from:
  assumes "layout r bs" and "(x, u) \<in> set bs"
  shows "\<exists>p q. lseg r p x (dropWhile (\<lambda>b. fst b \<noteq> x) bs) q MEM_SIZE"
proof -
  obtain xs ys where bs: "bs = xs @ (x, u) # ys" using assms(2) by (meson split_list)
  have "x \<notin> fst ` set xs" using layout_distinct [OF assms(1)] bs by auto
  then have "dropWhile (\<lambda>b. fst b \<noteq> x) bs = (x, u) # ys" unfolding bs by (subst dropWhile_append2) auto
  with assms(1) bs show ?thesis by (auto simp: layout_def lseg_append)
qed

lemma lfree_walk_split:
  assumes "layout r (xs @ (x, True) # (x2, False) # ys)"
  shows "lfree_walk r x = Some x2"
proof -
  have "m_next (r x) = x2" "m_used (r x) \<noteq> 0" "unat x + 12 \<le> unat x2" "unat x2 \<le> unat MEM_SIZE"
    using layout_block [OF assms] by simp_all
  moreover have "m_used (r x2) = 0"
    using layout_block(2) [of r "xs @ [(x, True)]" x2 False ys] assms by simp
  ultimately show ?thesis
    by (subst lfree_walk.simps) (auto intro: lfree_walk.simps [THEN trans])
qed

text \<open>The blocks from \<open>lfree\<close> on, which \<open>mem_malloc\<close> scans.\<close>

definition scanned :: "'a mem_state_scheme \<Rightarrow> block list \<Rightarrow> block list" where
  "scanned s bs = dropWhile (\<lambda>b. fst b \<noteq> lfree s) bs"

lemma layout_split_unique:
  assumes "layout r (xs @ (x, u) # ys)" and "xs @ (x, u) # ys = xs' @ (x, u') # ys'"
  shows "xs = xs' \<and> u = u' \<and> ys = ys'"
proof -
  have d: "distinct (map fst (xs @ (x, u) # ys))" using assms(1) by (rule layout_distinct)
  then have d': "distinct (map fst (xs' @ (x, u') # ys'))" using assms(2) by simp
  have "(x, u) \<notin> set xs" "(x, u) \<notin> set ys" using d by force+
  moreover have "u = u'"
    using d' assms(2) by (metis distinct_map eq_key_imp_eq_value in_set_conv_decomp)
  ultimately show ?thesis using assms(2) by (simp add: append_Cons_eq_iff)
qed

lemma scanned_fit:
  assumes "first_fit n (scanned s (xs @ (x, False) # ys)) = Some x" and "layout r (xs @ (x, False) # ys)"
  shows "unat x + 12 + n + 12 \<le> unat (block_end ys)"
proof -
  let ?bs = "xs @ (x, False) # ys"
  obtain xs' ys' where hi: "scanned s ?bs = xs' @ (x, False) # ys'"
    and fit: "unat x + 12 + n + 12 \<le> unat (block_end ys')"
    using first_fit_Some [OF assms(1)] by blast
  have "?bs = (takeWhile (\<lambda>b. fst b \<noteq> lfree s) ?bs @ xs') @ (x, False) # ys'"
    using hi takeWhile_dropWhile_id [of "\<lambda>b. fst b \<noteq> lfree s" ?bs] unfolding scanned_def by simp
  with layout_split_unique [OF assms(2) this] fit show ?thesis by simp
qed

lemma mem_malloc_fits:
  assumes ok: "mem_ok s (xs @ (x, False) # ys)" and sz: "sz \<noteq> 0" "mem_align sz \<le> MEM_SIZE"
    and ff: "first_fit (unat (mem_align sz)) (scanned s (xs @ (x, False) # ys)) = Some x"
  shows "\<exists>s'. mem_malloc sz s = Some (Some (x + 12), s') \<and>
    mem_ok s' (xs @ (x, True) # (x + 12 + mem_align sz, False) # ys) \<and>
    lfree s' = (if lfree s = x then x + 12 + mem_align sz else lfree s) \<and> mrlist s' = mrlist s \<and>
    ms_used (mem_stats s') = ms_used (mem_stats s) + ucast (mem_align sz)"
proof -
  let ?n = "mem_align sz" and ?bs = "xs @ (x, False) # ys" and ?x2 = "x + 12 + mem_align sz"
  have lay: "layout (ram s) ?bs" and lf: "(lfree s, False) \<in> set ?bs" and sem: "sem_c (mem_sem s) = 1"
    and na: "no_adjacent_free ?bs"
    using ok by (simp_all add: mem_ok_def)
  obtain s1 where s1: "mem_lock s = Some s1" "ram s1 = ram s" "lfree s1 = lfree s" "mrlist s1 = mrlist s"
      "mem_stats s1 = mem_stats s" "mem_unlock s1 = s"
    using mem_lock_ok [OF sem] by blast
  have fits: "unat x + 12 + unat ?n + 12 \<le> unat (block_end ys)"
    using ff lay by (rule scanned_fit)
  note b = layout_block [OF lay]
  have x2: "unat ?x2 = unat x + 12 + unat ?n"
    using fits b(6) by (simp add: unat_add_less)
  have scan: "mem_scan (ram s) ?n (lfree s) = Some (Some x)"
    using layout_from [OF lay lf] mem_scan_first_fit [where sz = "?n" and n = "unat ?n"] ff sz(2)
    unfolding scanned_def by (metis word_le_unat)
  have "unat x \<noteq> unat ?x2" "unat (m_next (ram s x)) \<noteq> unat x" "unat (m_next (ram s x)) \<noteq> unat ?x2"
    unfolding b(1) using x2 fits by linarith+
  then have ne: "x \<noteq> ?x2" "m_next (ram s x) \<noteq> x" "m_next (ram s x) \<noteq> ?x2" by metis+
  have r': "mem_split x ?n (ram s) = split_hdrs x ?x2 1 (ram s)"
    using ne by (rule mem_split_eq)
  have lay': "layout (mem_split x ?n (ram s)) (xs @ (x, True) # (?x2, False) # ys)"
    using layout_split [OF lay, of ?x2 1] x2 fits unfolding r' by simp
  have na': "no_adjacent_free (xs @ (x, True) # (?x2, False) # ys)"
    using na by (auto simp: no_adjacent_free_append no_adjacent_free_Cons)
  have "\<not> snd (last (xs @ (x, True) # (?x2, False) # ys))" using ok by (auto simp: mem_ok_def)
  then show ?thesis
    using sz s1 scan lay' na' lf sem lfree_walk_split [OF lay']
    by (auto simp: mem_malloc_def Let_def mem_ok_def mem_unlock_def split: if_splits)
qed

lemma mem_malloc_full:
  assumes ok: "mem_ok s bs" and sz: "sz \<noteq> 0" "mem_align sz \<le> MEM_SIZE"
    and ff: "first_fit (unat (mem_align sz)) (scanned s bs) = None"
  shows "mem_malloc sz s = Some (None, s\<lparr>mem_stats := (mem_stats s)\<lparr>ms_err := ms_err (mem_stats s) + 1\<rparr>\<rparr>)"
proof -
  have lay: "layout (ram s) bs" and lf: "(lfree s, False) \<in> set bs" and sem: "sem_c (mem_sem s) = 1"
    using ok by (simp_all add: mem_ok_def)
  obtain s1 where s1: "mem_lock s = Some s1" "ram s1 = ram s" "lfree s1 = lfree s" "mem_stats s1 = mem_stats s"
      "mem_unlock s1 = s"
    using mem_lock_ok [OF sem] by blast
  have scan: "mem_scan (ram s) (mem_align sz) (lfree s) = Some None"
    using layout_from [OF lay lf] mem_scan_first_fit [where sz = "mem_align sz" and n = "unat (mem_align sz)"] ff sz(2)
    unfolding scanned_def by (metis word_le_unat)
  have "mem_unlock (s1\<lparr>mem_stats := st\<rparr>) = s\<lparr>mem_stats := st\<rparr>" for st
    using s1(5) by (auto simp: mem_unlock_def)
  with sz s1 scan show ?thesis
    by (simp add: mem_malloc_def Let_def)
qed

lemma plug_forward_layout:
  assumes "layout (ram s) (xs @ (x, False) # ys)"
  shows "layout (ram (plug_forward x s)) (xs @ (x, False) # drop_free ys)"
    "lfree (plug_forward x s) = (if ys \<noteq> [] \<and> hd ys = (lfree s, False) then x else lfree s)"
    "mem_sem (plug_forward x s) = mem_sem s" "mem_stats (plug_forward x s) = mem_stats s"
    "mrlist (plug_forward x s) = mrlist s"
proof -
  let ?n = "m_next (ram s x)"
  note b = layout_block [OF assms]
  have ne: "x \<noteq> ?n" using b(1,5) by auto
  have "layout (ram (plug_forward x s)) (xs @ (x, False) # drop_free ys) \<and>
    lfree (plug_forward x s) = (if ys \<noteq> [] \<and> hd ys = (lfree s, False) then x else lfree s)"
  proof (cases ys)
    case Nil
    then have "?n = MEM_SIZE" using b(1) by simp
    with Nil assms show ?thesis by (simp add: plug_forward_def)
  next
    case (Cons blk zs)
    obtain y u where blk: "blk = (y, u)" by (cases blk)
    have n: "?n = y" using b(1) Cons blk by simp
    have y: "(m_used (ram s y) \<noteq> 0) = u" "y \<noteq> MEM_SIZE"
      using layout_block(2,5,6) [of "ram s" "xs @ [(x, False)]" y u zs] assms Cons blk by auto
    show ?thesis
    proof (cases u)
      case True
      with Cons blk n y assms show ?thesis by (auto simp: plug_forward_def)
    next
      case False
      have "ram (plug_forward x s) = merge_hdrs x y (ram s)"
        using ne n y False by (auto simp: plug_forward_def merge_hdrs_def hdr_updates Let_def)
      moreover have "lfree (plug_forward x s) = (if lfree s = y then x else lfree s)"
        using ne n y False by (auto simp: plug_forward_def Let_def)
      ultimately show ?thesis
        using layout_merge [of "ram s" xs x False y False zs] assms Cons blk False by auto
    qed
  qed
  then show "layout (ram (plug_forward x s)) (xs @ (x, False) # drop_free ys)"
    "lfree (plug_forward x s) = (if ys \<noteq> [] \<and> hd ys = (lfree s, False) then x else lfree s)" by auto
  show "mem_sem (plug_forward x s) = mem_sem s" "mem_stats (plug_forward x s) = mem_stats s"
    "mrlist (plug_forward x s) = mrlist s"
    by (auto simp: plug_forward_def Let_def)
qed

lemma plug_backward_layout:
  assumes "layout (ram s) (xs @ (x, False) # ys)"
  shows "layout (ram (plug_backward x s)) ((if xs \<noteq> [] \<and> \<not> snd (last xs) then xs else xs @ [(x, False)]) @ ys)"
    "lfree (plug_backward x s) = (if xs \<noteq> [] \<and> \<not> snd (last xs) \<and> lfree s = x then fst (last xs) else lfree s)"
    "mem_sem (plug_backward x s) = mem_sem s" "mem_stats (plug_backward x s) = mem_stats s"
    "mrlist (plug_backward x s) = mrlist s"
proof -
  note b = layout_block [OF assms]
  have "layout (ram (plug_backward x s)) ((if xs \<noteq> [] \<and> \<not> snd (last xs) then xs else xs @ [(x, False)]) @ ys) \<and>
    lfree (plug_backward x s) = (if xs \<noteq> [] \<and> \<not> snd (last xs) \<and> lfree s = x then fst (last xs) else lfree s)"
  proof (cases xs rule: rev_cases)
    case Nil
    with assms b(3,4) show ?thesis by (simp add: plug_backward_def)
  next
    case (snoc xs' blk)
    obtain p u where blk: "blk = (p, u)" by (cases blk)
    have p: "m_prev (ram s x) = p" using b(3) snoc blk by simp
    have pu: "(m_used (ram s p) \<noteq> 0) = u"
      using layout_block(2) [of "ram s" xs' p u "(x, False) # ys"] assms snoc blk by simp
    have ne: "p \<noteq> x" using b(8) [of p u] snoc blk by auto
    show ?thesis
    proof (cases u)
      case True
      with snoc blk p pu assms show ?thesis by (simp add: plug_backward_def)
    next
      case False
      have "ram (plug_backward x s) = merge_hdrs p x (ram s)"
        using ne p pu False by (auto simp: plug_backward_def merge_hdrs_def hdr_updates Let_def)
      moreover have "lfree (plug_backward x s) = (if lfree s = x then p else lfree s)"
        using ne p pu False by (auto simp: plug_backward_def Let_def)
      ultimately show ?thesis
        using layout_merge [of "ram s" xs' p False x False ys] assms snoc blk False by auto
    qed
  qed
  then show "layout (ram (plug_backward x s)) ((if xs \<noteq> [] \<and> \<not> snd (last xs) then xs else xs @ [(x, False)]) @ ys)"
    "lfree (plug_backward x s) = (if xs \<noteq> [] \<and> \<not> snd (last xs) \<and> lfree s = x then fst (last xs) else lfree s)" by auto
  show "mem_sem (plug_backward x s) = mem_sem s" "mem_stats (plug_backward x s) = mem_stats s"
    "mrlist (plug_backward x s) = mrlist s"
    by (auto simp: plug_backward_def Let_def)
qed

text \<open>Plugging the holes around a block that has just become free.\<close>

lemma plug_holes_layout:
  assumes lay: "layout (ram s) (xs @ (x, False) # ys)" and na: "no_adjacent_free (xs @ (x, True) # ys)"
  shows "layout (ram (plug_holes x s)) (coalesce (xs @ (x, False) # ys))"
    "(lfree s, False) \<in> set (xs @ (x, False) # ys) \<Longrightarrow>
       (lfree (plug_holes x s), False) \<in> set (coalesce (xs @ (x, False) # ys))"
    "unat (lfree (plug_holes x s)) \<le> unat (lfree s)"
    "mem_sem (plug_holes x s) = mem_sem s" "mem_stats (plug_holes x s) = mem_stats s"
    "mrlist (plug_holes x s) = mrlist s"
proof -
  let ?f = "plug_forward x s"
  note b = layout_block [OF lay]
  note f = plug_forward_layout [OF lay]
  note g = plug_backward_layout [OF f(1)]
  show "layout (ram (plug_holes x s)) (coalesce (xs @ (x, False) # ys))"
    using g(1) by (simp add: plug_holes_def coalesce_freed [OF na])
  show "mem_sem (plug_holes x s) = mem_sem s" "mem_stats (plug_holes x s) = mem_stats s"
    "mrlist (plug_holes x s) = mrlist s"
    using f g by (simp_all add: plug_holes_def)
  have hd: "unat x \<le> unat y" if "ys \<noteq> [] \<and> hd ys = (y, v)" for y v
    using b(5) b(7) [of y v] that by (cases ys) auto
  have last: "unat (fst (last xs)) \<le> unat x" if "xs \<noteq> []"
    using b(8) [of "fst (last xs)" "snd (last xs)"] that by (metis last_in_set le_add1 le_trans prod.collapse)
  show "unat (lfree (plug_holes x s)) \<le> unat (lfree s)"
    using f(2) g(2) hd [of "lfree s" False] last by (auto simp: plug_holes_def split: if_splits intro: le_trans)
  assume mem: "(lfree s, False) \<in> set (xs @ (x, False) # ys)"
  have "(lfree ?f, False) \<in> set (xs @ (x, False) # drop_free ys)"
    using mem f(2) by (cases ys) (auto simp: drop_free_def split: if_splits bool.splits)
  moreover have "(fst (last xs), False) \<in> set xs" if "xs \<noteq> []" "\<not> snd (last xs)"
    using that by (metis last_in_set prod.collapse)
  ultimately show "(lfree (plug_holes x s), False) \<in> set (coalesce (xs @ (x, False) # ys))"
    using g(2) by (auto simp: plug_holes_def coalesce_freed [OF na] split: if_splits)
qed

lemma mem_free_coalesces:
  assumes ok: "mem_ok s (xs @ (x, True) # ys)"
  shows "\<exists>s'. mem_free (Some (x + 12)) s = Some s' \<and> mem_ok s' (coalesce (xs @ (x, False) # ys)) \<and>
    unat (lfree s') \<le> unat (lfree s) \<and> unat (lfree s') \<le> unat x \<and> mrlist s' = mrlist s \<and>
    ms_used (mem_stats s') = ms_used (mem_stats s) - ucast (block_end ys - x - 12)"
proof -
  have lay: "layout (ram s) (xs @ (x, True) # ys)" and lf: "(lfree s, False) \<in> set (xs @ (x, True) # ys)"
    and sem: "sem_c (mem_sem s) = 1" and na: "no_adjacent_free (xs @ (x, True) # ys)"
    using ok by (simp_all add: mem_ok_def)
  obtain s1 where s1: "mem_lock s = Some s1" "ram s1 = ram s" "lfree s1 = lfree s" "mrlist s1 = mrlist s"
      "mem_stats s1 = mem_stats s" "mem_unlock s1 = s"
    using mem_lock_ok [OF sem] by blast
  note b = layout_block [OF lay]
  have x12: "unat (x + 12) = unat x + 12" using b(5,6) by (subst unat_add_less) simp_all
  have "ys \<noteq> []" using ok by (auto simp: mem_ok_def)
  then obtain y v zs where ys: "ys = (y, v) # zs" by (cases ys) auto
  have "unat y + 12 \<le> unat MEM_SIZE"
    using layout_block(5,6) [of "ram s" "xs @ [(x, True)]" y v zs] lay ys by simp
  then have "unat x + 12 < unat MEM_SIZE" using b(5) ys by simp
  then have legal: "\<not> x + 12 \<ge> MEM_SIZE" "\<not> x + 12 < 12" using x12 by (simp_all add: word_less_unat word_le_unat)
  let ?st = "(mem_stats s)\<lparr>ms_used := ms_used (mem_stats s) - ucast (block_end ys - x - 12)\<rparr>"
  define t where "t = (if x < lfree s then s1\<lparr>ram := set_used x 0 (ram s), lfree := x\<rparr>
    else s1\<lparr>ram := set_used x 0 (ram s)\<rparr>)\<lparr>mem_stats := ?st\<rparr>"
  have t: "ram t = set_used x 0 (ram s)" "lfree t = (if x < lfree s then x else lfree s)" "mem_stats t = ?st"
    "mem_sem t = mem_sem s1" "mrlist t = mrlist s"
    using s1(3,4) by (auto simp: t_def)
  have "m_next (set_used x 0 (ram s) x) = block_end ys" using b(1) by (simp add: hdr_updates)
  then have free: "mem_free (Some (x + 12)) s = Some (mem_unlock (plug_holes x t))"
    using s1(1-5) legal unfolding mem_free_def t_def by (simp add: Let_def)
  have "layout (ram t) (xs @ (x, False) # ys)"
    using layout_used_frame [OF lay, of 0] by (simp add: t)
  note plug = plug_holes_layout [OF this na]
  have lft: "(lfree t, False) \<in> set (xs @ (x, False) # ys)" using lf by (auto simp: t)
  have "unat (lfree t) \<le> unat (lfree s)" "unat (lfree t) \<le> unat x" by (auto simp: t word_less_unat)
  then have lfle: "unat (lfree (plug_holes x t)) \<le> unat (lfree s)" "unat (lfree (plug_holes x t)) \<le> unat x"
    using plug(3) by linarith+
  have "sys_sem_signal (mem_sem t) = mem_sem s" using s1(6) by (auto simp: t mem_unlock_def)
  moreover have "\<not> snd (last (coalesce (xs @ (x, False) # ys)))"
    using ok \<open>ys \<noteq> []\<close> by (subst snd_last_coalesce) (auto simp: mem_ok_def)
  ultimately have "mem_ok (mem_unlock (plug_holes x t)) (coalesce (xs @ (x, False) # ys))"
    using plug(1) plug(2) [OF lft] plug(4) sem no_adjacent_free_coalesce by (auto simp: mem_ok_def mem_unlock_def)
  with free lfle plug(5,6) show ?thesis
    by (simp add: mem_unlock_def t)
qed

lemma mem_init_ok: "mem_ok (mem_init s) [(0, False)]" "lfree_lowest (mem_init s) [(0, False)]"
  by (simp_all add: mem_init_def mem_ok_def layout_def lfree_lowest_def sys_sem_new0_def)

lemma mem_ok_used_block:
  assumes "mem_ok s (xs @ (x, True) # ys)"
  shows "unat (x + 12) = unat x + 12" "x + 12 < MEM_SIZE" "\<not> x + 12 < 12" "ys \<noteq> []"
    "unat (block_end ys) + 12 \<le> unat MEM_SIZE" "unat x + 12 \<le> unat (block_end ys)"
proof -
  have lay: "layout (ram s) (xs @ (x, True) # ys)" using assms by (simp add: mem_ok_def)
  note b = layout_block [OF lay]
  show ne: "ys \<noteq> []" using assms by (auto simp: mem_ok_def)
  show x12: "unat (x + 12) = unat x + 12" using b(5,6) by (subst unat_add_less) simp_all
  obtain y v zs where ys: "ys = (y, v) # zs" using ne by (cases ys) auto
  show le: "unat (block_end ys) + 12 \<le> unat MEM_SIZE"
    using layout_block(5,6) [of "ram s" "xs @ [(x, True)]" y v zs] lay ys by simp
  show "unat x + 12 \<le> unat (block_end ys)" by (rule b(5))
  then show "x + 12 < MEM_SIZE" "\<not> x + 12 < 12"
    using le x12 by (simp_all add: word_less_unat)
qed

text \<open>Shrinking a block by enough to hold another one; the new free block is merged forward.\<close>

lemma mem_realloc_shrinks:
  assumes ok: "mem_ok s (xs @ (x, True) # ys)"
    and small: "unat x + 12 + unat newsize + 24 < unat (block_end ys)"
  shows "\<exists>s'. mem_realloc (x + 12) newsize s = Some (x + 12, s') \<and>
    mem_ok s' (coalesce (xs @ (x, True) # (x + 12 + newsize, False) # ys)) \<and>
    lfree s' = (if hd ys = (lfree s, False) then x + 12 + newsize else lfree s) \<and> mrlist s' = mrlist s"
proof -
  let ?x2 = "x + 12 + newsize"
  note u = mem_ok_used_block [OF ok]
  have lay: "layout (ram s) (xs @ (x, True) # ys)" and lf: "(lfree s, False) \<in> set (xs @ (x, True) # ys)"
    and sem: "sem_c (mem_sem s) = 1" and na: "no_adjacent_free (xs @ (x, True) # ys)"
    using ok by (simp_all add: mem_ok_def)
  obtain s1 where s1: "mem_lock s = Some s1" "ram s1 = ram s" "lfree s1 = lfree s" "mrlist s1 = mrlist s"
      "mem_stats s1 = mem_stats s" "mem_unlock s1 = s"
    using mem_lock_ok [OF sem] by blast
  note b = layout_block [OF lay]
  have x2: "unat ?x2 = unat x + 12 + unat newsize"
    using small u(5) by (simp add: unat_add_less)
  have "unat (newsize + 12 + 12) = unat newsize + 24" using small u(5) by (simp add: unat_add_less)
  moreover have "unat (block_end ys - x - 12) = unat (block_end ys) - unat x - 12"
    using u(6) by (simp add: unat_sub_le)
  ultimately have cut: "newsize + 12 + 12 < m_next (ram s x) - x - 12"
    using small u(6) unfolding b(1) by (simp add: word_less_unat)
  have "unat x \<noteq> unat ?x2" "unat (m_next (ram s x)) \<noteq> unat x" "unat (m_next (ram s x)) \<noteq> unat ?x2"
    unfolding b(1) using x2 small by linarith+
  then have r': "mem_cut x newsize (ram s) = split_hdrs x ?x2 (m_used (ram s x)) (ram s)"
    by (intro mem_cut_eq) metis+
  have "layout (mem_cut x newsize (ram s)) (xs @ (x, True) # (?x2, False) # ys)"
    using layout_split [OF lay, of ?x2 "m_used (ram s x)"] x2 small b(2) unfolding r' by simp
  moreover define t where "t = s1\<lparr>mem_stats := (mem_stats s)\<lparr>ms_used := ms_used (mem_stats s)
      - ucast (m_next (ram s x) - x - 12 - newsize)\<rparr>, ram := mem_cut x newsize (ram s)\<rparr>"
  ultimately have layt: "layout (ram t) ((xs @ [(x, True)]) @ (?x2, False) # ys)" by simp
  have na2: "no_adjacent_free ((xs @ [(x, True)]) @ (?x2, True) # ys)"
    using na by (auto simp: no_adjacent_free_append no_adjacent_free_Cons)
  note plug = plug_holes_layout [OF layt na2]
  have realloc: "mem_realloc (x + 12) newsize s = Some (x + 12, mem_unlock (plug_holes ?x2 t))"
    using s1(1-5) u(2,3) cut by (simp add: mem_realloc_def Let_def t_def not_le)
  have lft: "lfree (plug_holes ?x2 t) = (if hd ys = (lfree s, False) then ?x2 else lfree s)"
    using plug_forward_layout(2) [OF layt] plug_backward_layout(2) [OF plug_forward_layout(1) [OF layt]] s1(3) u(4)
    by (simp add: plug_holes_def t_def)
  have "sys_sem_signal (mem_sem t) = mem_sem s" using s1(6) by (auto simp: t_def mem_unlock_def)
  moreover have "\<not> snd (last (coalesce (xs @ (x, True) # (?x2, False) # ys)))"
    using ok u(4) by (subst snd_last_coalesce) (auto simp: mem_ok_def)
  moreover have "(lfree t, False) \<in> set ((xs @ [(x, True)]) @ (?x2, False) # ys)" using lf s1(3) by (auto simp: t_def)
  ultimately have "mem_ok (mem_unlock (plug_holes ?x2 t)) (coalesce (xs @ (x, True) # (?x2, False) # ys))"
    using plug(1,2,4) sem no_adjacent_free_coalesce by (auto simp: mem_ok_def mem_unlock_def)
  with realloc lft plug(6) s1(4) show ?thesis by (simp add: mem_unlock_def t_def)
qed

subsection \<open>The heap as an allocator\<close>

definition mem_live :: "block list \<Rightarrow> u32 set" where
  "mem_live bs = (\<lambda>x. x + 12) ` {x. (x, True) \<in> set bs}"

lemma coalesce_used: "(x, True) \<in> set (coalesce bs) \<longleftrightarrow> (x, True) \<in> set bs"
  by (induction bs rule: coalesce.induct) auto

lemma mem_live_coalesce [simp]: "mem_live (coalesce bs) = mem_live bs"
  by (simp add: mem_live_def coalesce_used)

lemma mem_live_split [simp]:
  "mem_live (xs @ (x, True) # ys) = insert (x + 12) (mem_live (xs @ ys))"
  "mem_live (xs @ (x, False) # ys) = mem_live (xs @ ys)"
  by (auto simp: mem_live_def)

lemma mem_live_fresh: "layout r (xs @ (x, u) # ys) \<Longrightarrow> x + 12 \<notin> mem_live (xs @ ys)"
  using layout_distinct by (force simp: mem_live_def)

definition mem_holds :: "'a mem_state_scheme \<Rightarrow> u32 set \<Rightarrow> bool" where
  "mem_holds s A \<longleftrightarrow> (\<exists>bs. mem_ok s bs \<and> A = mem_live bs)"

lemma mem_malloc_cases:
  assumes "mem_ok s bs"
  obtains (none) s' where "mem_malloc sz s = Some (None, s')" "mem_ok s' bs"
  | (some) xs x ys s' where "bs = xs @ (x, False) # ys" "mem_malloc sz s = Some (Some (x + 12), s')"
      "mem_ok s' (xs @ (x, True) # (x + 12 + mem_align sz, False) # ys)"
proof (cases "sz = 0 \<or> mem_align sz > MEM_SIZE")
  case True
  with assms none [of s] show ?thesis by (auto simp: mem_malloc_def Let_def)
next
  case False
  then have sz: "sz \<noteq> 0" "mem_align sz \<le> MEM_SIZE" by auto
  show ?thesis
  proof (cases "first_fit (unat (mem_align sz)) (scanned s bs)")
    case None
    show ?thesis
      using assms by (intro none [OF mem_malloc_full [OF assms sz None]]) (simp add: mem_ok_def)
  next
    case (Some x)
    have "(x, False) \<in> set (scanned s bs)" using first_fit_Some [OF Some] by auto
    then obtain xs ys where bs: "bs = xs @ (x, False) # ys"
      unfolding scanned_def by (meson set_dropWhileD split_list)
    from mem_malloc_fits [OF assms [unfolded bs] sz Some [unfolded bs]] bs show ?thesis
      by (auto intro: some)
  qed
qed

interpretation mem: allocator mem_holds mem_malloc "\<lambda>p. mem_free (Some p)"
proof
  show "\<exists>r s'. mem_malloc n s = Some (r, s') \<and>
      (case r of None \<Rightarrow> mem_holds s' A | Some b \<Rightarrow> b \<notin> A \<and> mem_holds s' (insert b A))"
    if holds: "mem_holds s A" for s :: "'a mem_state_scheme" and A n
  proof -
    obtain bs where bs: "mem_ok s bs" "A = mem_live bs" using holds by (auto simp: mem_holds_def)
    from bs(1) show ?thesis
    proof (cases rule: mem_malloc_cases [where sz = n])
      case (none s')
      with bs show ?thesis by (auto simp: mem_holds_def)
    next
      case (some xs x ys s')
      have "layout (ram s) (xs @ (x, False) # ys)" using bs(1) some(1) by (simp add: mem_ok_def)
      from mem_live_fresh [OF this] some bs(2) show ?thesis
        by (auto simp: mem_holds_def intro!: exI [of _ "xs @ (x, True) # (x + 12 + mem_align n, False) # ys"])
    qed
  qed
  show "\<exists>s'. mem_free (Some b) s = Some s' \<and> mem_holds s' (A - {b})"
    if holds: "mem_holds s A" and b: "b \<in> A" for s :: "'a mem_state_scheme" and A b
  proof -
    obtain bs where bs: "mem_ok s bs" "A = mem_live bs" using holds by (auto simp: mem_holds_def)
    then obtain x xs ys where x: "b = x + 12" "bs = xs @ (x, True) # ys"
      using b by (auto simp: mem_live_def dest!: split_list)
    have "layout (ram s) (xs @ (x, True) # ys)" using bs(1) x(2) by (simp add: mem_ok_def)
    from mem_live_fresh [OF this] mem_free_coalesces [OF bs(1) [unfolded x(2)]] x bs(2) show ?thesis
      by (auto simp: mem_holds_def intro!: exI [of _ "coalesce (xs @ (x, False) # ys)"])
  qed
qed

text \<open>The state before \<open>mem_init\<close>: static storage is zero.\<close>

definition mem_zero :: mem_state where
  "mem_zero = \<lparr>ram = (\<lambda>_. \<lparr>m_next = 0, m_prev = 0, m_used = 0\<rparr>), lfree = 0, mem_sem = \<lparr>sem_c = 0\<rparr>, mrlist = [],
     mem_stats = \<lparr>ms_avail = 0, ms_used = 0, ms_max = 0, ms_err = 0, ms_reclaimed = 0\<rparr>\<rparr>"

subsection \<open>Properties\<close>

text \<open>
  C15: \<open>mem_malloc\<close> is first fit from \<open>lfree\<close>: it returns NULL exactly when none of the scanned
  free blocks can hold the aligned size and one more header, and otherwise splits the first
  block that can; the invariant of the heap is kept.
\<close>

theorem mem_malloc_is_first_fit:
  assumes "mem_ok s bs" and "sz \<noteq> 0" and "mem_align sz \<le> MEM_SIZE"
  shows "case first_fit (unat (mem_align sz)) (scanned s bs) of
      None \<Rightarrow> \<exists>s'. mem_malloc sz s = Some (None, s') \<and> mem_ok s' bs
    | Some x \<Rightarrow> \<exists>xs ys s'. bs = xs @ (x, False) # ys \<and> mem_malloc sz s = Some (Some (x + 12), s') \<and>
        mem_ok s' (xs @ (x, True) # (x + 12 + mem_align sz, False) # ys)"
proof (cases "first_fit (unat (mem_align sz)) (scanned s bs)")
  case None
  from mem_malloc_full [OF assms None] assms(1) None show ?thesis by (auto simp: mem_ok_def)
next
  case (Some x)
  have "(x, False) \<in> set (scanned s bs)" using first_fit_Some [OF Some] by auto
  then obtain xs ys where bs: "bs = xs @ (x, False) # ys"
    unfolding scanned_def by (meson set_dropWhileD split_list)
  from mem_malloc_fits [OF assms(1) [unfolded bs] assms(2,3) Some [unfolded bs]] bs Some show ?thesis by auto
qed

theorem mem_malloc_is_first_fit_witness:
  "\<exists>s'. mem_malloc 10 (mem_init mem_zero) = Some (Some 12, s') \<and> mem_ok s' [(0, True), (24, False)]"
  using mem_malloc_is_first_fit [OF mem_init_ok(1), of 10 mem_zero]
  by (auto simp: mem_align_def scanned_def mem_init_def Cons_eq_append_conv)

text \<open>
  C16: \<open>mem_free\<close> of an allocated block marks it free and merges it with its free neighbours on
  both sides, so that no two free blocks are adjacent; \<open>lfree\<close> stays the lowest free block.
\<close>

theorem mem_free_merges:
  assumes "mem_ok s (xs @ (x, True) # ys)"
  shows "\<exists>s'. mem_free (Some (x + 12)) s = Some s' \<and> mem_ok s' (coalesce (xs @ (x, False) # ys)) \<and>
    (lfree_lowest s (xs @ (x, True) # ys) \<longrightarrow> lfree_lowest s' (coalesce (xs @ (x, False) # ys)))"
proof -
  have "(y, False) \<in> set (coalesce bs) \<Longrightarrow> (y, False) \<in> set bs" for y bs
    by (induction bs rule: coalesce.induct) auto
  then have "(y, False) \<in> set (coalesce (xs @ (x, False) # ys)) \<Longrightarrow> y = x \<or> (y, False) \<in> set (xs @ (x, True) # ys)" for y
    by fastforce
  moreover obtain s' where "mem_free (Some (x + 12)) s = Some s'" "mem_ok s' (coalesce (xs @ (x, False) # ys))"
      "unat (lfree s') \<le> unat (lfree s)" "unat (lfree s') \<le> unat x"
    using mem_free_coalesces [OF assms] by blast
  ultimately show ?thesis
    unfolding lfree_lowest_def by (intro exI [of _ s'] conjI) (auto intro: le_trans)
qed

lemma mem_example_block: "\<exists>s'. mem_malloc 10 (mem_init mem_zero) = Some (Some 12, s') \<and> mem_ok s' [(0, True), (24, False)]"
  using mem_malloc_fits [of "mem_init mem_zero" "[]" 0 "[]" 10] mem_init_ok(1) [of mem_zero]
  by (auto simp: mem_align_def scanned_def mem_init_def)

theorem mem_free_merges_witness:
  "\<exists>s' s''. mem_malloc 10 (mem_init mem_zero) = Some (Some 12, s') \<and> mem_free (Some 12) s' = Some s'' \<and>
     mem_ok s'' [(0, False)]"
proof -
  obtain s' where s': "mem_malloc 10 (mem_init mem_zero) = Some (Some 12, s')" "mem_ok s' ([] @ (0, True) # [(24, False)])"
    using mem_example_block by auto
  from mem_free_merges [OF s'(2)] s'(1) show ?thesis by auto
qed

text \<open>
  releasing a block right after its allocation restores the layout of the heap exactly, and
  the count of used bytes.
\<close>

theorem mem_malloc_free_roundtrip:
  assumes "mem_ok s bs" and "mem_malloc sz s = Some (Some p, s')"
  shows "\<exists>s''. mem_free (Some p) s' = Some s'' \<and> mem_ok s'' bs \<and>
    ms_used (mem_stats s'') = ms_used (mem_stats s)"
proof -
  have sz: "sz \<noteq> 0" "mem_align sz \<le> MEM_SIZE"
    using assms(2) by (auto simp: mem_malloc_def Let_def split: if_splits)
  then obtain x where ff: "first_fit (unat (mem_align sz)) (scanned s bs) = Some x"
    using mem_malloc_full [OF assms(1) sz] assms(2) by (cases "first_fit (unat (mem_align sz)) (scanned s bs)") auto
  have "(x, False) \<in> set (scanned s bs)" using first_fit_Some [OF ff] by auto
  then obtain xs ys where bs: "bs = xs @ (x, False) # ys"
    unfolding scanned_def by (meson set_dropWhileD split_list)
  let ?x2 = "x + 12 + mem_align sz"
  from mem_malloc_fits [OF assms(1) [unfolded bs] sz ff [unfolded bs]] assms(2)
  have p: "p = x + 12" and ok: "mem_ok s' (xs @ (x, True) # (?x2, False) # ys)"
    and used: "ms_used (mem_stats s') = ms_used (mem_stats s) + ucast (mem_align sz)" by auto
  have na: "no_adjacent_free (xs @ (x, False) # ys)" using assms(1) bs by (simp add: mem_ok_def)
  have "no_adjacent_free (xs @ (x, True) # (?x2, False) # ys)" using ok by (simp add: mem_ok_def)
  from coalesce_freed [OF this] na have "coalesce (xs @ (x, False) # (?x2, False) # ys) = bs"
    unfolding bs by (auto simp: no_adjacent_free_append)
  with mem_free_coalesces [OF ok] p used show ?thesis by auto
qed

theorem mem_malloc_free_roundtrip_witness:
  "\<exists>s' s''. mem_malloc 10 (mem_init mem_zero) = Some (Some 12, s') \<and> mem_free (Some 12) s' = Some s'' \<and>
     mem_ok s'' [(0, False)] \<and> ms_used (mem_stats s'') = ms_used (mem_stats (mem_init mem_zero))"
proof -
  obtain s' where "mem_malloc 10 (mem_init mem_zero) = Some (Some 12, s')"
    using mem_example_block by auto
  with mem_malloc_free_roundtrip [OF mem_init_ok(1) this] show ?thesis by auto
qed



text \<open>
  \<open>mem_realloc\<close> to a size smaller by more than a header and the minimal block shrinks the block
  in place, keeps the invariant and gives the rest back; but it only lowers \<open>lfree\<close> when the block
  behind was \<open>lfree\<close>: if the block behind is used and \<open>lfree\<close> is higher, \<open>lfree\<close> is no longer
  the lowest free block and the space given back is not found by \<open>mem_malloc\<close>.
\<close>

theorem mem_realloc_shrinks_but_hides:
  assumes "mem_ok s (xs @ (x, True) # ys)"
    and "unat x + 12 + unat newsize + 24 < unat (block_end ys)"
  shows "\<exists>s'. mem_realloc (x + 12) newsize s = Some (x + 12, s') \<and>
    mem_ok s' (coalesce (xs @ (x, True) # (x + 12 + newsize, False) # ys)) \<and>
    (snd (hd ys) \<longrightarrow> unat (x + 12 + newsize) < unat (lfree s) \<longrightarrow>
       \<not> lfree_lowest s' (coalesce (xs @ (x, True) # (x + 12 + newsize, False) # ys)))"
proof -
  let ?x2 = "x + 12 + newsize"
  obtain s' where s': "mem_realloc (x + 12) newsize s = Some (x + 12, s')"
      "mem_ok s' (coalesce (xs @ (x, True) # (?x2, False) # ys))"
      "lfree s' = (if hd ys = (lfree s, False) then ?x2 else lfree s)"
    using mem_realloc_shrinks [OF assms] by blast
  have "no_adjacent_free (xs @ (x, True) # (?x2, False) # ys)" if "snd (hd ys)"
    using assms(1) that by (auto simp: mem_ok_def no_adjacent_free_append no_adjacent_free_Cons)
  then have "\<not> lfree_lowest s' (coalesce (xs @ (x, True) # (?x2, False) # ys))"
    if "snd (hd ys)" "unat ?x2 < unat (lfree s)"
    using that s'(3) by (auto simp: coalesce_id lfree_lowest_def)
  with s' show ?thesis by blast
qed

lemma mem_example_two:
  "\<exists>s :: mem_state. mem_ok s ([] @ (0, True) # [(112, True), (224, False)]) \<and> lfree s = 224"
proof -
  let ?s0 = "mem_init mem_zero"
  have ok0: "mem_ok ?s0 ([] @ (0, False) # [])" using mem_init_ok(1) by simp
  obtain s1 :: mem_state where s1: "mem_ok s1 ([(0, True)] @ (112, False) # [])" "lfree s1 = 112"
    using mem_malloc_fits [OF ok0, of 100] by (auto simp: mem_align_def scanned_def mem_init_def)
  show ?thesis
    using mem_malloc_fits [OF s1(1), of 100] s1(2) by (auto simp: mem_align_def scanned_def)
qed

theorem mem_realloc_shrinks_but_hides_witness:
  "\<exists>(s :: mem_state) s'. mem_ok s [(0, True), (112, True), (224, False)] \<and> mem_realloc 12 40 s = Some (12, s') \<and>
     \<not> lfree_lowest s' [(0, True), (52, False), (112, True), (224, False)]"
proof -
  obtain s :: mem_state where s: "mem_ok s ([] @ (0, True) # [(112, True), (224, False)])" "lfree s = 224"
    using mem_example_two by blast
  from mem_realloc_shrinks_but_hides [OF s(1), of 40] s show ?thesis by auto
qed

text \<open>
  C17: a client of the heap that only frees what it holds never makes the allocator fault, block or
  diverge, whatever the order and the sizes of its requests, and is never handed a pointer twice.
\<close>

theorem mem_heap_client_safe:
  assumes "mem_holds s (set held)" and "distinct held"
  shows "\<exists>held' s'. alloc_run mem_malloc (\<lambda>p. mem_free (Some p)) ops held s = Some (held', s') \<and>
    mem_holds s' (set held') \<and> distinct held'"
  using assms by (rule mem.run_safe)

theorem mem_heap_client_safe_witness:
  "\<exists>held' s'. alloc_run mem_malloc (\<lambda>p. mem_free (Some p)) [Alloc 10, Alloc 70000, Free 12] [] (mem_init mem_zero)
     = Some (held', s') \<and> mem_holds s' (set held') \<and> distinct held'"
proof -
  have "mem_holds (mem_init mem_zero) (set [])"
    unfolding mem_holds_def using mem_init_ok(1) [of mem_zero] by (intro exI conjI) (auto simp: mem_live_def)
  then show ?thesis by (rule mem_heap_client_safe) simp
qed

text \<open>
  \<open>mem_free\<close> of a pointer that is not in the array returns without giving \<^verbatim>\<open>mem_sem\<close> back:
  every later allocation of a legal size blocks for ever.
\<close>

theorem mem_free_illegal_keeps_lock:
  assumes "mem_ok s bs" and "rm \<ge> MEM_SIZE"
  shows "\<exists>s'. mem_free (Some rm) s = Some s' \<and> sem_c (mem_sem s') = 0 \<and>
    (\<forall>sz. sz \<noteq> 0 \<longrightarrow> mem_align sz \<le> MEM_SIZE \<longrightarrow> mem_malloc sz s' = None)"
proof -
  have "sem_c (mem_sem s) = 1" using assms(1) by (simp add: mem_ok_def)
  then have "mem_lock s = Some (s\<lparr>mem_sem := (mem_sem s)\<lparr>sem_c := 0\<rparr>\<rparr>)"
    by (simp add: mem_lock_def sys_arch_sem_wait_nil)
  with assms(2) show ?thesis
    by (auto simp: mem_free_def mem_malloc_def mem_lock_def sys_arch_sem_wait_nil Let_def)
qed

theorem mem_free_illegal_keeps_lock_witness:
  "\<exists>s'. mem_free (Some 6000000) (mem_init mem_zero) = Some s' \<and> mem_malloc 4 s' = None"
  using mem_free_illegal_keeps_lock [OF mem_init_ok(1), of 6000000 mem_zero]
  by (auto simp: mem_align_def)

end
