(* ===== verification/Memp_Pool.thy ===== *)
theory Memp_Pool
  imports Mem_Heap Linked_List
begin

text \<open>
  \<^verbatim>\<open>lwtcp/memp.c\<close>: the pools of fixed-size objects. One array is carved into the elements of ten
  pools; an element starts with a \<^verbatim>\<open>struct memp\<close>, the link of the free list of its pool. The
  state extends that of the heap. The base address of the array and the sizes of the C structures
  depend on the compiler and are arguments of \<open>memp_init\<close>. The theorems show that initialisation
  builds ten disjoint free lists of the configured lengths, that each pool hands out exactly its
  configured number of objects, and that the pools are an allocator.
\<close>

subsection \<open>The code\<close>

datatype memp_t =
    MEMP_PBUF
  | MEMP_UDP_PCB
  | MEMP_TCP_PCB
  | MEMP_TCP_PCB_LISTEN
  | MEMP_TCP_SEG
  | MEMP_NETBUF
  | MEMP_NETCONN
  | MEMP_API_MSG
  | MEMP_TCP_MSG
  | MEMP_SYS_TIMEOUT

definition memp_types :: "memp_t list" where
  "memp_types = [MEMP_PBUF, MEMP_UDP_PCB, MEMP_TCP_PCB, MEMP_TCP_PCB_LISTEN, MEMP_TCP_SEG, MEMP_NETBUF,
     MEMP_NETCONN, MEMP_API_MSG, MEMP_TCP_MSG, MEMP_SYS_TIMEOUT]"

fun memp_num :: "memp_t \<Rightarrow> u16" where
  "memp_num MEMP_PBUF = 512"
| "memp_num MEMP_UDP_PCB = 4"
| "memp_num MEMP_TCP_PCB = 12"
| "memp_num MEMP_TCP_PCB_LISTEN = 8"
| "memp_num MEMP_TCP_SEG = 8"
| "memp_num MEMP_NETBUF = 32"
| "memp_num MEMP_NETCONN = 32"
| "memp_num MEMP_API_MSG = 8"
| "memp_num MEMP_TCP_MSG = 8"
| "memp_num MEMP_SYS_TIMEOUT = 3"

record memp_stats =
  mp_avail :: u16
  mp_used :: u16
  mp_max :: u16
  mp_err :: u16
  mp_reclaimed :: u16

record memp_state = mem_state +
  memp_tab :: "memp_t \<Rightarrow> u32 option"
  memp_next :: "u32 \<Rightarrow> u32 option"
  memp_mutex :: sys_sem
  memp_reclaim_funcs :: "memp_t \<Rightarrow> (nat \<times> u32) list"
  memp_stats :: "memp_t \<Rightarrow> memp_stats"

abbreviation SIZEOF_STRUCT_MEMP :: u32 where
  "SIZEOF_STRUCT_MEMP \<equiv> 4"

definition MEM_ALIGN :: "u32 \<Rightarrow> u32" where
  "MEM_ALIGN addr = addr + (if addr mod MEM_ALIGNMENT = 0 then 0 else MEM_ALIGNMENT - addr mod MEM_ALIGNMENT)"

text \<open>The inner loop of \<open>memp_init\<close> links \<open>n\<close> elements; it returns \<^verbatim>\<open>m\<close>, \<^verbatim>\<open>memp\<close> and the links.\<close>

fun memp_carve :: "nat \<Rightarrow> u16 \<Rightarrow> u32 \<Rightarrow> u32 \<Rightarrow> (u32 \<Rightarrow> u32 option) \<Rightarrow> u32 \<times> u32 \<times> (u32 \<Rightarrow> u32 option)" where
  "memp_carve 0 sz m memp nx = (m, memp, nx)"
| "memp_carve (Suc n) sz m memp nx =
     (let next = MEM_ALIGN (m + ucast sz)
      in memp_carve n sz next m (nx(m := Some next)))"

fun memp_init_loop :: "(memp_t \<Rightarrow> u16) \<Rightarrow> memp_t list \<Rightarrow> u32 \<Rightarrow> 'a memp_state_scheme \<Rightarrow> 'a memp_state_scheme" where
  "memp_init_loop memp_sizes [] memp s = s"
| "memp_init_loop memp_sizes (i # is) memp s =
     (let sz = ucast (MEM_ALIGN (ucast (memp_sizes i) + SIZEOF_STRUCT_MEMP))
      in if memp_num i > 0 then
           let (m, last, nx) = memp_carve (unat (memp_num i)) sz memp memp (memp_next s)
           in memp_init_loop memp_sizes is m
                (s\<lparr>memp_tab := (memp_tab s)(i := Some memp), memp_next := nx(last := None)\<rparr>)
         else memp_init_loop memp_sizes is memp (s\<lparr>memp_tab := (memp_tab s)(i := None)\<rparr>))"

definition memp_init :: "(memp_t \<Rightarrow> u16) \<Rightarrow> u32 \<Rightarrow> 'a memp_state_scheme \<Rightarrow> 'a memp_state_scheme" where
  "memp_init memp_sizes memp_memory s =
     (let s = s\<lparr>memp_stats := \<lambda>i. \<lparr>mp_avail = memp_num i, mp_used = 0, mp_max = 0, mp_err = 0, mp_reclaimed = 0\<rparr>\<rparr>;
          s = memp_init_loop memp_sizes memp_types memp_memory s
      in s\<lparr>memp_mutex := sys_sem_new0 1, memp_reclaim_funcs := \<lambda>i. []\<rparr>)"

definition memp_stat_upd :: "memp_t \<Rightarrow> (memp_stats \<Rightarrow> memp_stats) \<Rightarrow> 'a memp_state_scheme \<Rightarrow> 'a memp_state_scheme" where
  "memp_stat_upd type f s = s\<lparr>memp_stats := (memp_stats s)(type := f (memp_stats s type))\<rparr>"

definition memp_malloc :: "memp_t \<Rightarrow> 'a memp_state_scheme \<Rightarrow> u32 option \<times> 'a memp_state_scheme" where
  "memp_malloc type s =
     (case memp_tab s type of
        Some memp \<Rightarrow>
          let s = s\<lparr>memp_tab := (memp_tab s)(type := memp_next s memp)\<rparr>;
              s = s\<lparr>memp_next := (memp_next s)(memp := None)\<rparr>;
              s = memp_stat_upd type (\<lambda>st. st\<lparr>mp_used := mp_used st + 1\<rparr>) s;
              s = memp_stat_upd type
                    (\<lambda>st. if mp_used st > mp_max st then st\<lparr>mp_max := mp_used st\<rparr> else st) s
          in (Some (MEM_ALIGN (memp + SIZEOF_STRUCT_MEMP)), s)
      | None \<Rightarrow> (None, memp_stat_upd type (\<lambda>st. st\<lparr>mp_err := mp_err st + 1\<rparr>) s))"

definition memp_free :: "memp_t \<Rightarrow> u32 option \<Rightarrow> 'a memp_state_scheme \<Rightarrow> 'a memp_state_scheme" where
  "memp_free type mem s =
     (case mem of
        None \<Rightarrow> s
      | Some p \<Rightarrow>
          let memp = p - SIZEOF_STRUCT_MEMP;
              s = memp_stat_upd type (\<lambda>st. st\<lparr>mp_used := mp_used st - 1\<rparr>) s;
              s = s\<lparr>memp_next := (memp_next s)(memp := memp_tab s type)\<rparr>
          in s\<lparr>memp_tab := (memp_tab s)(type := Some memp)\<rparr>)"

definition memp_lock :: "'a memp_state_scheme \<Rightarrow> 'a memp_state_scheme option" where
  "memp_lock s =
     (case sys_arch_sem_wait (memp_mutex s) 0 [] of
        None \<Rightarrow> None
      | Some (t, sem) \<Rightarrow> Some (s\<lparr>memp_mutex := sem\<rparr>))"

definition memp_unlock :: "'a memp_state_scheme \<Rightarrow> 'a memp_state_scheme" where
  "memp_unlock s = s\<lparr>memp_mutex := sys_sem_signal (memp_mutex s)\<rparr>"

definition memp_mallocp :: "memp_t \<Rightarrow> 'a memp_state_scheme \<Rightarrow> (u32 option \<times> 'a memp_state_scheme) option" where
  "memp_mallocp type s = do {
     s \<leftarrow> memp_lock s;
     let (mem, s) = memp_malloc type s;
     Some (mem, memp_unlock s)
   }"

definition memp_freep :: "memp_t \<Rightarrow> u32 option \<Rightarrow> 'a memp_state_scheme \<Rightarrow> 'a memp_state_scheme option" where
  "memp_freep type mem s = do {
     s \<leftarrow> memp_lock s;
     Some (memp_unlock (memp_free type mem s))
   }"

text \<open>Reclaiming: \<open>call\<close> runs a registered function, which answers whether it reclaimed an object.\<close>

fun memp_reclaim_loop :: "(nat \<times> u32 \<Rightarrow> memp_t \<Rightarrow> 'a memp_state_scheme \<Rightarrow> (u8 \<times> 'a memp_state_scheme) option) \<Rightarrow>
    memp_t \<Rightarrow> (nat \<times> u32) list \<Rightarrow> 'a memp_state_scheme \<Rightarrow> (u8 \<times> 'a memp_state_scheme) option" where
  "memp_reclaim_loop call type [] s = Some (0, s)"
| "memp_reclaim_loop call type (mr # mrs) s = do {
     (r, s) \<leftarrow> call mr type s;
     if r \<noteq> 0 then Some (1, memp_stat_upd type (\<lambda>st. st\<lparr>mp_reclaimed := mp_reclaimed st + 1\<rparr>) s)
     else memp_reclaim_loop call type mrs s
   }"

definition memp_reclaim where
  "memp_reclaim call type s = memp_reclaim_loop call type (memp_reclaim_funcs s type) s"

definition memp_malloc2 where
  "memp_malloc2 call type s =
     (let (mem, s) = memp_malloc type s
      in case mem of
           Some p \<Rightarrow> Some (Some p, s)
         | None \<Rightarrow> do {
             (r, s) \<leftarrow> memp_reclaim call type s;
             Some (memp_malloc type s)
           })"

text \<open>The contents that \<^verbatim>\<open>bcopy\<close> moves in \<open>memp_realloc\<close> are not part of the model.\<close>

definition memp_realloc ::
  "memp_t \<Rightarrow> memp_t \<Rightarrow> u32 option \<Rightarrow> 'a memp_state_scheme \<Rightarrow> u32 option \<times> 'a memp_state_scheme" where
  "memp_realloc fromtype totype mem s =
     (case mem of
        None \<Rightarrow> (None, s)
      | Some p \<Rightarrow>
          let (rmem, s) = memp_malloc totype s
          in if rmem \<noteq> None then (rmem, memp_free fromtype (Some p) s) else (rmem, s))"

definition memp_register_reclaim ::
  "memp_t \<Rightarrow> nat \<Rightarrow> u32 \<Rightarrow> 'a memp_state_scheme \<Rightarrow> 'a memp_state_scheme option" where
  "memp_register_reclaim type f arg s = do {
     (mr, s) \<leftarrow> mem_malloc 12 s;
     case mr of
       None \<Rightarrow> Some s
     | Some p \<Rightarrow>
         Some (s\<lparr>memp_reclaim_funcs := (memp_reclaim_funcs s)(type := (f, arg) # memp_reclaim_funcs s type)\<rparr>)
   }"

subsection \<open>The free lists\<close>

definition aligned :: "u32 \<Rightarrow> bool" where
  "aligned a \<longleftrightarrow> a mod 4 = 0"

text \<open>
  \<open>slots\<close> gives the elements of each pool. The elements of a pool are those on its free list and
  those of the allocated objects, and no element is both.
\<close>

definition memp_nx :: "'a memp_state_scheme \<Rightarrow> u32 \<Rightarrow> u32 option option" where
  "memp_nx s = (\<lambda>a. Some (memp_next s a))"

definition pool_ok :: "(memp_t \<Rightarrow> u32 set) \<Rightarrow> (memp_t \<times> u32) set \<Rightarrow> 'a memp_state_scheme \<Rightarrow> memp_t \<Rightarrow> u32 list \<Rightarrow> bool" where
  "pool_ok slots A s t fs \<longleftrightarrow> chain (memp_nx s) (memp_tab s t) fs \<and>
     set fs \<inter> {e. (t, e + 4) \<in> A} = {} \<and> set fs \<union> {e. (t, e + 4) \<in> A} = slots t"

definition slots_ok :: "(memp_t \<Rightarrow> u32 set) \<Rightarrow> bool" where
  "slots_ok slots \<longleftrightarrow> (\<forall>t. \<forall>e \<in> slots t. aligned e) \<and> (\<forall>t t'. t \<noteq> t' \<longrightarrow> slots t \<inter> slots t' = {}) \<and>
     (\<forall>t. card (slots t) = unat (memp_num t))"

definition memp_ok :: "(memp_t \<Rightarrow> u32 set) \<Rightarrow> 'a memp_state_scheme \<Rightarrow> (memp_t \<times> u32) set \<Rightarrow> bool" where
  "memp_ok slots s A \<longleftrightarrow> slots_ok slots \<and> (\<forall>t. \<exists>fs. pool_ok slots A s t fs)"

lemma MEM_ALIGN_aligned [simp]: "aligned addr \<Longrightarrow> MEM_ALIGN addr = addr"
  by (simp add: aligned_def MEM_ALIGN_def)

lemma aligned_iff: "aligned a \<longleftrightarrow> unat a mod 4 = 0"
  by (simp add: aligned_def word_unat_eq_iff unat_mod_distrib)

lemma aligned_add: "aligned a \<Longrightarrow> aligned b \<Longrightarrow> aligned (a + b)"
proof -
  assume "aligned a" "aligned b"
  then have "(unat a + unat b) mod 4 = 0" unfolding aligned_iff by presburger
  moreover have "(unat a + unat b) mod 2 ^ 32 mod 4 = (unat a + unat b) mod 4"
    by (rule mod_mod_cancel) simp
  ultimately show "aligned (a + b)" unfolding aligned_iff by (simp add: unat_word_ariths)
qed

lemma aligned_add4: "aligned e \<Longrightarrow> aligned (e + 4)"
  by (rule aligned_add) (simp_all add: aligned_def)

lemma slots_disjoint: "memp_ok slots s A \<Longrightarrow> e \<in> slots t \<Longrightarrow> u \<noteq> t \<Longrightarrow> e \<notin> slots u"
  unfolding memp_ok_def slots_ok_def by blast

lemma memp_malloc_tab:
  "memp_malloc t s = (r, s') \<Longrightarrow> memp_tab s t = None \<Longrightarrow> r = None \<and> memp_tab s' = memp_tab s \<and> memp_next s' = memp_next s"
  "memp_malloc t s = (r, s') \<Longrightarrow> memp_tab s t = Some e \<Longrightarrow> r = Some (MEM_ALIGN (e + 4)) \<and>
     memp_tab s' = (memp_tab s)(t := memp_next s e) \<and> memp_next s' = (memp_next s)(e := None)"
  by (auto simp: memp_malloc_def memp_stat_upd_def Let_def)

lemma memp_malloc_ok:
  assumes ok: "memp_ok slots s A" and m: "memp_malloc t s = (r, s')"
  shows "case r of None \<Rightarrow> memp_ok slots s' A \<and> slots t \<subseteq> {e. (t, e + 4) \<in> A}
    | Some p \<Rightarrow> (t, p) \<notin> A \<and> p - 4 \<in> slots t \<and> memp_ok slots s' (insert (t, p) A)"
proof -
  obtain fs where fs: "pool_ok slots A s t fs" using ok by (auto simp: memp_ok_def)
  show ?thesis
  proof (cases "memp_tab s t")
    case None
    from memp_malloc_tab(1) [OF m None] fs ok None show ?thesis
      by (auto simp: memp_ok_def pool_ok_def memp_nx_def)
  next
    case (Some e)
    then obtain fs' where fs': "fs = e # fs'" "chain (memp_nx s) (memp_next s e) fs'"
      using fs by (cases fs) (auto simp: pool_ok_def memp_nx_def)
    have e: "e \<in> slots t" "(t, e + 4) \<notin> A" using fs fs'(1) by (auto simp: pool_ok_def)
    then have al: "aligned e" using ok by (auto simp: memp_ok_def slots_ok_def)
    note r = memp_malloc_tab(2) [OF m Some] aligned_add4 [OF al]
    have "distinct fs" using fs chain_distinct by (auto simp: pool_ok_def)
    then have ne: "e \<notin> set fs'" using fs'(1) by simp
    have nx: "memp_nx s' = (memp_nx s)(e := Some None)" using r by (auto simp: memp_nx_def)
    have "pool_ok slots (insert (t, e + 4) A) s' t fs'"
      using fs fs' ne r nx e by (auto simp: pool_ok_def)
    moreover have "\<exists>gs. pool_ok slots (insert (t, e + 4) A) s' u gs" if "u \<noteq> t" for u
    proof -
      obtain gs where gs: "pool_ok slots A s u gs" using ok by (auto simp: memp_ok_def)
      then have "set gs \<subseteq> slots u" by (auto simp: pool_ok_def)
      moreover have "e \<notin> slots u" using slots_disjoint [OF ok e(1) that] .
      ultimately have "e \<notin> set gs" by blast
      with gs r nx that have "pool_ok slots (insert (t, e + 4) A) s' u gs" by (simp add: pool_ok_def)
      then show ?thesis by blast
    qed
    ultimately have "memp_ok slots s' (insert (t, e + 4) A)"
      using ok unfolding memp_ok_def by metis
    with r e show ?thesis by simp
  qed
qed

lemma memp_free_ok:
  assumes ok: "memp_ok slots s A" and p: "(t, p) \<in> A"
  shows "memp_ok slots (memp_free t (Some p) s) (A - {(t, p)})"
proof -
  let ?e = "p - 4" and ?s = "memp_free t (Some p) s"
  obtain fs where fs: "pool_ok slots A s t fs" using ok by (auto simp: memp_ok_def)
  have e: "?e \<in> slots t" "?e \<notin> set fs" using fs p by (auto simp: pool_ok_def)
  have nx: "memp_nx ?s = (memp_nx s)(?e := Some (memp_tab s t))" "memp_tab ?s = (memp_tab s)(t := Some ?e)"
    by (auto simp: memp_nx_def memp_free_def memp_stat_upd_def Let_def)
  have "pool_ok slots (A - {(t, p)}) ?s t (?e # fs)"
    using fs e nx p by (auto simp: pool_ok_def)
  moreover have "\<exists>gs. pool_ok slots (A - {(t, p)}) ?s u gs" if "u \<noteq> t" for u
  proof -
    obtain gs where gs: "pool_ok slots A s u gs" using ok by (auto simp: memp_ok_def)
    then have "set gs \<subseteq> slots u" by (auto simp: pool_ok_def)
    moreover have "?e \<notin> slots u" using slots_disjoint [OF ok e(1) that] .
    ultimately have "?e \<notin> set gs" by blast
    with gs nx that have "pool_ok slots (A - {(t, p)}) ?s u gs" by (simp add: pool_ok_def)
    then show ?thesis by blast
  qed
  ultimately show ?thesis using ok unfolding memp_ok_def by metis
qed

definition memp_holds :: "'a memp_state_scheme \<Rightarrow> (memp_t \<times> u32) set \<Rightarrow> bool" where
  "memp_holds s A \<longleftrightarrow> (\<exists>slots. memp_ok slots s A)"

interpretation memp: allocator memp_holds
    "\<lambda>t s. case memp_malloc t s of (r, s') \<Rightarrow> Some (map_option (Pair t) r, s')"
    "\<lambda>b s. Some (memp_free (fst b) (Some (snd b)) s)"
proof
  show "\<exists>r s'. (case memp_malloc t s of (r, s') \<Rightarrow> Some (map_option (Pair t) r, s')) = Some (r, s') \<and>
      (case r of None \<Rightarrow> memp_holds s' A | Some b \<Rightarrow> b \<notin> A \<and> memp_holds s' (insert b A))"
    if "memp_holds s A" for s :: "'a memp_state_scheme" and A t
  proof -
    obtain slots where ok: "memp_ok slots s A" using \<open>memp_holds s A\<close> by (auto simp: memp_holds_def)
    obtain r s' where m: "memp_malloc t s = (r, s')" by (cases "memp_malloc t s")
    from memp_malloc_ok [OF ok m] m show ?thesis
      by (cases r) (auto simp: memp_holds_def)
  qed
  show "\<exists>s'. Some (memp_free (fst b) (Some (snd b)) s) = Some s' \<and> memp_holds s' (A - {b})"
    if "memp_holds s A" "b \<in> A" for s :: "'a memp_state_scheme" and A b
    using that memp_free_ok [of _ s A "fst b" "snd b"] by (auto simp: memp_holds_def)
qed

subsection \<open>Initialisation\<close>

fun elems :: "nat \<Rightarrow> u32 \<Rightarrow> u32 \<Rightarrow> u32 list" where
  "elems 0 m d = []"
| "elems (Suc n) m d = m # elems n (m + d) d"

lemma length_elems [simp]: "length (elems n m d) = n"
  by (induction n arbitrary: m) simp_all

lemma elems_range:
  assumes "unat m + n * unat d < 2 ^ 32" and "aligned m" and "aligned d" and "e \<in> set (elems n m d)"
  shows "unat m \<le> unat e \<and> unat e + unat d \<le> unat m + n * unat d \<and> aligned e"
  using assms
proof (induction n arbitrary: m)
  case (Suc n)
  then have u: "unat (m + d) = unat m + unat d" by (intro unat_add_less) simp
  with Suc.prems Suc.IH [of "m + d"] aligned_add [OF Suc.prems(2,3)] show ?case
    by auto
qed simp

lemma memp_carve_chain:
  assumes "memp_carve n sz m memp nx = (m', lst, nx')" and "0 < n" and "aligned m"
    and "aligned (ucast sz)" and "0 < unat sz" and "unat m + n * unat sz < 2 ^ 32"
  shows "chain (\<lambda>a. Some ((nx'(lst := None)) a)) (Some m) (elems n m (ucast sz)) \<and>
    unat m' = unat m + n * unat sz \<and> aligned m' \<and> (\<forall>a. unat a < unat m \<longrightarrow> nx' a = nx a) \<and>
    unat m \<le> unat lst \<and> unat lst < unat m'"
  using assms
proof (induction n arbitrary: m memp nx)
  case (Suc n)
  let ?d = "ucast sz :: u32" and ?next = "m + ucast sz"
  have al: "aligned ?next" using Suc.prems(3,4) by (rule aligned_add)
  have un: "unat ?next = unat m + unat sz" using Suc.prems(6) by (subst unat_add_less) simp_all
  have rec: "memp_carve n sz ?next m (nx(m := Some ?next)) = (m', lst, nx')"
    using Suc.prems(1) al by (simp add: Let_def)
  show ?case
  proof (cases "n = 0")
    case True
    with rec al un Suc.prems(5) show ?thesis by auto
  next
    case False
    have ih: "chain (\<lambda>a. Some ((nx'(lst := None)) a)) (Some ?next) (elems n ?next ?d)"
        "unat m' = unat ?next + n * unat sz" "aligned m'" "unat ?next \<le> unat lst" "unat lst < unat m'"
        "\<forall>a. unat a < unat ?next \<longrightarrow> nx' a = (nx(m := Some ?next)) a"
      using Suc.IH [OF rec _ al Suc.prems(4,5)] False Suc.prems(6) un by auto
    have "m \<noteq> lst" "unat m < unat ?next" using ih(4) un Suc.prems(5) by auto
    then have "(nx'(lst := None)) m = Some ?next" using ih(6) by simp
    with ih un Suc.prems(5) show ?thesis by auto
  qed
qed simp

definition pool_size :: "(memp_t \<Rightarrow> u16) \<Rightarrow> memp_t \<Rightarrow> u16" where
  "pool_size sizes t = ucast (MEM_ALIGN (ucast (sizes t) + SIZEOF_STRUCT_MEMP))"

lemma MEM_ALIGN_props:
  assumes "unat a + 4 < 2 ^ 32"
  shows "unat a \<le> unat (MEM_ALIGN a)" "unat (MEM_ALIGN a) < unat a + 4" "unat (MEM_ALIGN a) mod 4 = 0"
proof -
  have m4: "unat (a mod 4) = unat a mod 4" by (simp add: unat_mod_distrib)
  have "unat (MEM_ALIGN a) = unat a + (if unat a mod 4 = 0 then 0 else 4 - unat a mod 4)"
  proof (cases "aligned a")
    case True
    then show ?thesis by (simp add: aligned_iff)
  next
    case False
    then have nz: "unat a mod 4 \<noteq> 0" by (simp add: aligned_iff)
    have "unat (4 - a mod 4) = 4 - unat a mod 4" by (subst unat_sub_le) (simp_all add: m4)
    with False nz assms show ?thesis
      by (simp add: MEM_ALIGN_def aligned_def) (subst unat_add_less, simp_all)
  qed
  then have "unat a \<le> unat (MEM_ALIGN a) \<and> unat (MEM_ALIGN a) < unat a + 4 \<and> unat (MEM_ALIGN a) mod 4 = 0"
    by presburger
  then show "unat a \<le> unat (MEM_ALIGN a)" "unat (MEM_ALIGN a) < unat a + 4" "unat (MEM_ALIGN a) mod 4 = 0" by auto
qed

lemma pool_size_props:
  assumes "sizes t \<le> 4096"
  shows "unat (pool_size sizes t) \<le> 4104" "0 < unat (pool_size sizes t)" "aligned (ucast (pool_size sizes t))"
proof -
  let ?a = "ucast (sizes t) + 4 :: u32"
  have sz: "unat (sizes t) \<le> 4096" using assms by (simp add: word_le_unat)
  then have a: "unat ?a = unat (sizes t) + 4" by (subst unat_add_less) simp_all
  have *: "unat ?a \<le> unat (MEM_ALIGN ?a)" "unat (MEM_ALIGN ?a) < unat ?a + 4" "unat (MEM_ALIGN ?a) mod 4 = 0"
    using MEM_ALIGN_props [of ?a] a sz by simp_all
  then have "unat (pool_size sizes t) = unat (MEM_ALIGN ?a)"
    using a sz by (simp add: pool_size_def unat_ucast_u32_u16)
  with * a sz show "unat (pool_size sizes t) \<le> 4104" "0 < unat (pool_size sizes t)"
    "aligned (ucast (pool_size sizes t))"
    by (simp_all add: aligned_iff)
qed

lemma memp_init_loop_chains:
  assumes "distinct ts" and "aligned m" and "\<forall>t. sizes t \<le> 4096"
    and "unat m + sum_list (map (\<lambda>t. unat (memp_num t) * unat (pool_size sizes t)) ts) < 2 ^ 32"
  shows "\<exists>L. (\<forall>t \<in> set ts. chain (memp_nx (memp_init_loop sizes ts m s)) (memp_tab (memp_init_loop sizes ts m s) t) (L t) \<and>
        length (L t) = unat (memp_num t) \<and> (\<forall>e \<in> set (L t). aligned e \<and> unat m \<le> unat e)) \<and>
      (\<forall>t \<in> set ts. \<forall>u \<in> set ts. t \<noteq> u \<longrightarrow> set (L t) \<inter> set (L u) = {}) \<and>
      (\<forall>a. unat a < unat m \<longrightarrow> memp_next (memp_init_loop sizes ts m s) a = memp_next s a) \<and>
      (\<forall>t. t \<notin> set ts \<longrightarrow> memp_tab (memp_init_loop sizes ts m s) t = memp_tab s t)"
  using assms
proof (induction ts arbitrary: m s)
  case (Cons t ts)
  let ?n = "unat (memp_num t)" and ?sz = "pool_size sizes t"
  note sz = pool_size_props [of sizes t, OF Cons.prems(3) [rule_format]]
  have n: "0 < memp_num t" by (cases t) simp_all
  then have n': "0 < ?n" by (simp add: word_less_unat)
  obtain m' lst nx' where c: "memp_carve ?n ?sz m m (memp_next s) = (m', lst, nx')"
    by (cases "memp_carve ?n ?sz m m (memp_next s)") auto
  have "unat m + ?n * unat ?sz < 2 ^ 32" using Cons.prems(4) by simp
  note cc = memp_carve_chain [OF c n' Cons.prems(2) sz(3,2) this]
  let ?s = "s\<lparr>memp_tab := (memp_tab s)(t := Some m), memp_next := nx'(lst := None)\<rparr>"
  let ?r = "memp_init_loop sizes ts m' ?s" and ?els = "elems ?n m (ucast ?sz)"
  have loop: "memp_init_loop sizes (t # ts) m s = ?r"
    using c n by (simp add: Let_def pool_size_def)
  obtain L where L: "\<forall>u \<in> set ts. chain (memp_nx ?r) (memp_tab ?r u) (L u) \<and> length (L u) = unat (memp_num u) \<and>
        (\<forall>e \<in> set (L u). aligned e \<and> unat m' \<le> unat e)"
      "\<forall>u \<in> set ts. \<forall>v \<in> set ts. u \<noteq> v \<longrightarrow> set (L u) \<inter> set (L v) = {}"
      "\<forall>a. unat a < unat m' \<longrightarrow> memp_next ?r a = (nx'(lst := None)) a"
      "\<forall>u. u \<notin> set ts \<longrightarrow> memp_tab ?r u = memp_tab ?s u"
    using Cons.IH [of m' ?s] Cons.prems cc by auto
  have els: "e \<in> set ?els \<Longrightarrow> unat m \<le> unat e \<and> unat e < unat m' \<and> aligned e" for e
    using elems_range [of m ?n "ucast ?sz" e] Cons.prems(2,4) cc sz by fastforce
  have "chain (memp_nx ?r) (Some m) ?els"
    using cc L(3) els by (subst chain_cong [of _ _ "\<lambda>a. Some ((nx'(lst := None)) a)"]) (auto simp: memp_nx_def)
  moreover have "memp_tab ?r t = Some m" using L(4) Cons.prems(1) by auto
  note chain_t = calculation this
  have disj: "set ?els \<inter> set (L u) = {}" if "u \<in> set ts" for u
    using that L(1) els by (meson disjoint_iff linorder_not_less)
  have frame: "memp_next ?r a = memp_next s a" if "unat a < unat m" for a
    using that L(3) cc by auto
  have lower: "unat m \<le> unat e" if "u \<in> set ts" "e \<in> set (L u)" for u e
    using that L(1) cc by fastforce
  let ?L = "L(t := ?els)"
  have "\<forall>u \<in> set (t # ts). chain (memp_nx ?r) (memp_tab ?r u) (?L u) \<and> length (?L u) = unat (memp_num u) \<and>
      (\<forall>e \<in> set (?L u). aligned e \<and> unat m \<le> unat e)"
    using chain_t L(1) els lower Cons.prems(1) by simp
  moreover have "\<forall>u \<in> set (t # ts). \<forall>v \<in> set (t # ts). u \<noteq> v \<longrightarrow> set (?L u) \<inter> set (?L v) = {}"
    using L(2) disj by (auto simp: Int_commute)
  moreover have "\<forall>u. u \<notin> set (t # ts) \<longrightarrow> memp_tab ?r u = memp_tab s u" using L(4) by simp
  ultimately show ?case
    unfolding loop using frame by (intro exI [of _ ?L]) simp
qed simp

lemma memp_init_ok:
  assumes "aligned base" and "\<forall>t. sizes t \<le> 4096" and "unat base + 4194304 \<le> 2 ^ 32"
  shows "\<exists>slots. memp_ok slots (memp_init sizes base s) {}"
proof -
  have types: "set memp_types = UNIV" "distinct memp_types"
    unfolding memp_types_def by (auto intro: memp_t.exhaust)
  have "unat (memp_num t) * unat (pool_size sizes t) \<le> unat (memp_num t) * 4104" for t
    using pool_size_props(1) assms(2) by simp
  then have "sum_list (map (\<lambda>t. unat (memp_num t) * unat (pool_size sizes t)) memp_types)
      \<le> sum_list (map (\<lambda>t. unat (memp_num t) * 4104) memp_types)"
    by (intro sum_list_mono) simp
  also have "\<dots> \<le> 4000000" by (simp add: memp_types_def)
  finally have bound: "unat base + sum_list (map (\<lambda>t. unat (memp_num t) * unat (pool_size sizes t)) memp_types) < 2 ^ 32"
    using assms(3) by simp
  let ?s = "s\<lparr>memp_stats := \<lambda>i. \<lparr>mp_avail = memp_num i, mp_used = 0, mp_max = 0, mp_err = 0, mp_reclaimed = 0\<rparr>\<rparr>"
  let ?r = "memp_init_loop sizes memp_types base ?s"
  obtain L where L: "\<forall>t. chain (memp_nx ?r) (memp_tab ?r t) (L t) \<and> length (L t) = unat (memp_num t) \<and>
        (\<forall>e \<in> set (L t). aligned e \<and> unat base \<le> unat e)"
      "\<forall>t u. t \<noteq> u \<longrightarrow> set (L t) \<inter> set (L u) = {}"
    using memp_init_loop_chains [OF types(2) assms(1,2) bound, of ?s] types(1) by auto
  have "card (set (L t)) = unat (memp_num t)" for t
    using L(1) chain_distinct distinct_card by metis
  then have "slots_ok (\<lambda>t. set (L t))" using L by (simp add: slots_ok_def aligned_def)
  moreover have nx: "memp_nx (memp_init sizes base s) = memp_nx ?r" "memp_tab (memp_init sizes base s) = memp_tab ?r"
    by (simp_all add: memp_init_def Let_def memp_nx_def)
  ultimately have "memp_ok (\<lambda>t. set (L t)) (memp_init sizes base s) {}"
    using L(1) by (auto simp: memp_ok_def pool_ok_def nx)
  then show ?thesis by blast
qed

definition memp_zero :: memp_state where
  "memp_zero = mem_state.extend mem_zero \<lparr>memp_tab = \<lambda>t. None, memp_next = \<lambda>a. None, memp_mutex = \<lparr>sem_c = 0\<rparr>,
     memp_reclaim_funcs = \<lambda>t. [], memp_stats = \<lambda>t. \<lparr>mp_avail = 0, mp_used = 0, mp_max = 0, mp_err = 0, mp_reclaimed = 0\<rparr>\<rparr>"

subsection \<open>Properties\<close>

text \<open>
  \<open>memp_init\<close> carves a 4 byte aligned array into ten pools: the free list of every pool has
  the configured number of elements, and no element belongs to two pools.
\<close>

theorem memp_init_builds_pools:
  assumes "memp_memory mod 4 = 0" and "\<forall>t. memp_sizes t \<le> 4096" and "unat memp_memory + 4194304 \<le> 2 ^ 32"
  shows "\<exists>slots. slots_ok slots \<and> memp_ok slots (memp_init memp_sizes memp_memory s) {}"
  using memp_init_ok [of memp_memory memp_sizes s] assms unfolding memp_ok_def aligned_def by blast

theorem memp_init_builds_pools_witness:
  "\<exists>slots. slots_ok slots \<and> memp_ok slots (memp_init (\<lambda>t. 16) 0x8000 memp_zero) {}"
  using memp_init_builds_pools [of "0x8000" "\<lambda>t. 16" memp_zero] by simp

lemma memp_example: "\<exists>slots. memp_ok slots (memp_init (\<lambda>t. 16) 0x8000 memp_zero) {}"
  by (rule memp_init_ok) (simp_all add: aligned_def)

text \<open>
  a pool hands out exactly its configured number of objects: \<open>memp_malloc\<close> returns NULL if and
  only if that many objects of the pool are allocated.
\<close>

theorem memp_malloc_null_iff_exhausted:
  assumes "memp_ok slots s A"
  shows "fst (memp_malloc t s) = None \<longleftrightarrow> card {p. (t, p) \<in> A} = unat (memp_num t)"
proof -
  obtain fs where fs: "chain (memp_nx s) (memp_tab s t) fs" "set fs \<inter> {e. (t, e + 4) \<in> A} = {}"
      "set fs \<union> {e. (t, e + 4) \<in> A} = slots t"
    using assms unfolding memp_ok_def pool_ok_def by blast
  have card: "card (slots t) = unat (memp_num t)" using assms by (simp add: memp_ok_def slots_ok_def)
  have "{p. (t, p) \<in> A} = (\<lambda>e. e + 4) ` {e. (t, e + 4) \<in> A}"
    by (auto simp: image_iff) (metis diff_add_cancel)
  then have "card {p. (t, p) \<in> A} = card {e. (t, e + 4) \<in> A}" by (simp add: card_image)
  moreover have "card (slots t) = card (set fs) + card {e. (t, e + 4) \<in> A}"
    using fs(2,3) by (metis card_Un_disjoint finite)
  moreover have "fst (memp_malloc t s) = None \<longleftrightarrow> memp_tab s t = None"
    by (auto simp: memp_malloc_def Let_def split: option.splits)
  moreover have "memp_tab s t = None \<longleftrightarrow> fs = []" using fs(1) by (cases fs) auto
  ultimately show ?thesis using card by auto
qed

theorem memp_malloc_null_iff_exhausted_witness:
  "fst (memp_malloc MEMP_TCP_SEG (memp_init (\<lambda>t. 16) 0x8000 memp_zero)) \<noteq> None"
proof -
  obtain slots where "memp_ok slots (memp_init (\<lambda>t. 16) 0x8000 memp_zero) {}"
    using memp_example by blast
  from memp_malloc_null_iff_exhausted [OF this, of MEMP_TCP_SEG] show ?thesis by simp
qed

text \<open>
  a client of the pools that returns each object once, and to the pool it came from, is never
  handed an object it already holds, whatever the order of its requests.
\<close>

theorem memp_client_safe:
  assumes "memp_holds s (set held)" and "distinct held"
  shows "\<exists>held' s'. alloc_run
      (\<lambda>t s. case memp_malloc t s of (r, s') \<Rightarrow> Some (map_option (Pair t) r, s'))
      (\<lambda>b s. Some (memp_free (fst b) (Some (snd b)) s)) ops held s = Some (held', s') \<and>
    memp_holds s' (set held') \<and> distinct held'"
  using assms by (rule memp.run_safe)

theorem memp_client_safe_witness:
  "\<exists>held' s'. alloc_run
      (\<lambda>t s. case memp_malloc t s of (r, s') \<Rightarrow> Some (map_option (Pair t) r, s'))
      (\<lambda>b s. Some (memp_free (fst b) (Some (snd b)) s))
      [Alloc MEMP_TCP_SEG, Alloc MEMP_PBUF] [] (memp_init (\<lambda>t. 16) 0x8000 memp_zero) = Some (held', s') \<and>
    memp_holds s' (set held') \<and> distinct held'"
proof -
  have "memp_holds (memp_init (\<lambda>t. 16) 0x8000 memp_zero) (set [])"
    using memp_example by (simp add: memp_holds_def)
  then show ?thesis by (rule memp_client_safe) simp
qed

end
