(* ===== verification/Pbuf.thy ===== *)
theory Pbuf
  imports Memp_Pool
begin

text \<open>
  \<^verbatim>\<open>lwtcp/pbuf.c\<close>: packet buffers, chains of \<^verbatim>\<open>struct pbuf\<close> whose memory comes from a pool of six
  buffers, from the heap, or from the pool \<open>MEMP_PBUF\<close>. The state extends that of the heap and the
  pools. Pointers are 32 bit addresses and NULL is \<open>None\<close>; \<open>pbufs\<close> maps the addresses at which
  there is a pbuf, and accessing any other address is the fault \<open>None\<close>, so that a use of a pbuf
  after it was released to the heap or to \<open>MEMP_PBUF\<close> shows. The addresses of the two static arrays
  are arguments. The loops over chains are partial functions, and the theorems show that they
  return: that allocation builds a chain of the right lengths or returns everything, that the
  six buffers of the pool are never lost, and the effect of resizing, chaining and moving the
  header. Packet contents are not part of this theory.
\<close>

subsection \<open>The code\<close>

datatype pbuf_layer = PBUF_TRANSPORT | PBUF_IP | PBUF_LINK | PBUF_RAW

datatype pbuf_flag = PBUF_RAM | PBUF_ROM | PBUF_POOL

abbreviation PBUF_FLAG_RAM :: u8 where "PBUF_FLAG_RAM \<equiv> 0"

abbreviation PBUF_FLAG_ROM :: u8 where "PBUF_FLAG_ROM \<equiv> 1"

abbreviation PBUF_FLAG_POOL :: u8 where "PBUF_FLAG_POOL \<equiv> 2"

abbreviation PBUF_POOL_SIZE :: nat where "PBUF_POOL_SIZE \<equiv> 6"

abbreviation PBUF_POOL_BUFSIZE :: nat where "PBUF_POOL_BUFSIZE \<equiv> 128"

abbreviation SIZEOF_STRUCT_PBUF :: u32 where "SIZEOF_STRUCT_PBUF \<equiv> 16"

record pbuf =
  pb_next :: "u32 option"
  pb_flags :: u8
  pb_ref :: u8
  pb_payload :: u32
  pb_tot_len :: u16
  pb_len :: u16

record pbuf_stats =
  ps_avail :: u16
  ps_used :: u16
  ps_max :: u16
  ps_err :: u16
  ps_alloc_locked :: u16
  ps_refresh_locked :: u16

record pbuf_state = memp_state +
  pbufs :: "u32 \<rightharpoonup> pbuf"
  pbuf_pool :: "u32 option"
  pbuf_pool_alloc_cache :: "u32 option"
  pbuf_pool_free_cache :: "u32 option"
  pbuf_pool_free_lock :: u8
  pbuf_pool_alloc_lock :: u8
  pbuf_pool_free_sem :: sys_sem
  pbuf_stats :: pbuf_stats

definition upd_pbuf :: "u32 \<Rightarrow> (pbuf \<Rightarrow> pbuf) \<Rightarrow> 'a pbuf_state_scheme \<Rightarrow> 'a pbuf_state_scheme option" where
  "upd_pbuf p f s = (case pbufs s p of None \<Rightarrow> None | Some b \<Rightarrow> Some (s\<lparr>pbufs := (pbufs s)(p \<mapsto> f b)\<rparr>))"

definition stat_pbuf :: "(pbuf_stats \<Rightarrow> pbuf_stats) \<Rightarrow> 'a pbuf_state_scheme \<Rightarrow> 'a pbuf_state_scheme" where
  "stat_pbuf f s = s\<lparr>pbuf_stats := f (pbuf_stats s)\<rparr>"

definition pool_lock :: "'a pbuf_state_scheme \<Rightarrow> 'a pbuf_state_scheme option" where
  "pool_lock s =
     (case sys_arch_sem_wait (pbuf_pool_free_sem s) 0 [] of
        None \<Rightarrow> None
      | Some (t, sem) \<Rightarrow> Some (s\<lparr>pbuf_pool_free_sem := sem\<rparr>))"

definition pool_unlock :: "'a pbuf_state_scheme \<Rightarrow> 'a pbuf_state_scheme" where
  "pool_unlock s = s\<lparr>pbuf_pool_free_sem := sys_sem_signal (pbuf_pool_free_sem s)\<rparr>"

text \<open>
  The loop of \<open>pbuf_init\<close>; \<open>pool\<close> is the address of \<^verbatim>\<open>pbuf_pool_memory\<close>. The last next pointer is
  then set to NULL.
\<close>

fun pbuf_init_loop :: "nat \<Rightarrow> u32 \<Rightarrow> u32 \<Rightarrow> (u32 \<rightharpoonup> pbuf) \<Rightarrow> u32 \<times> (u32 \<rightharpoonup> pbuf)" where
  "pbuf_init_loop 0 p q pbs = (q, pbs)"
| "pbuf_init_loop (Suc n) p q pbs =
     (let next = p + of_nat PBUF_POOL_BUFSIZE + SIZEOF_STRUCT_PBUF
      in pbuf_init_loop n next p
           (pbs(p \<mapsto> \<lparr>pb_next = Some next, pb_flags = 0, pb_ref = 0,
                      pb_payload = MEM_ALIGN (p + SIZEOF_STRUCT_PBUF),
                      pb_tot_len = of_nat PBUF_POOL_BUFSIZE, pb_len = of_nat PBUF_POOL_BUFSIZE\<rparr>)))"

definition pbuf_init :: "u32 \<Rightarrow> 'a pbuf_state_scheme \<Rightarrow> 'a pbuf_state_scheme option" where
  "pbuf_init pool s = do {
     let s = s\<lparr>pbuf_pool := Some pool\<rparr>;
     let s = stat_pbuf (\<lambda>st. st\<lparr>ps_avail := of_nat PBUF_POOL_SIZE\<rparr>) s;
     let (q, pbs) = pbuf_init_loop PBUF_POOL_SIZE pool pool (pbufs s);
     s \<leftarrow> upd_pbuf q (\<lambda>b. b\<lparr>pb_next := None\<rparr>) (s\<lparr>pbufs := pbs\<rparr>);
     Some (s\<lparr>pbuf_pool_alloc_lock := 0, pbuf_pool_free_lock := 0, pbuf_pool_free_sem := sys_sem_new0 1\<rparr>)
   }"

definition pbuf_count_alloc :: "u32 option \<times> 'a pbuf_state_scheme \<Rightarrow> u32 option \<times> 'a pbuf_state_scheme" where
  "pbuf_count_alloc ps =
     (let (p, s) = ps
      in (p, if p \<noteq> None then
               stat_pbuf (\<lambda>st. let st = st\<lparr>ps_used := ps_used st + 1\<rparr>
                               in if ps_used st > ps_max st then st\<lparr>ps_max := ps_used st\<rparr> else st) s
             else s))"

definition pbuf_pool_alloc :: "'a pbuf_state_scheme \<Rightarrow> (u32 option \<times> 'a pbuf_state_scheme) option" where
  "pbuf_pool_alloc s =
     (case pbuf_pool_alloc_cache s of
        Some p \<Rightarrow> do {
          b \<leftarrow> pbufs s p;
          Some (pbuf_count_alloc (Some p, s\<lparr>pbuf_pool_alloc_cache := pb_next b\<rparr>))
        }
      | None \<Rightarrow>
          if pbuf_pool_free_lock s \<noteq> 0
          then Some (None, stat_pbuf (\<lambda>st. st\<lparr>ps_alloc_locked := ps_alloc_locked st + 1\<rparr>) s)
          else do {
            let s = s\<lparr>pbuf_pool_alloc_lock := pbuf_pool_alloc_lock s + 1\<rparr>;
            (p, s) \<leftarrow>
              (if pbuf_pool_free_lock s = 0 then
                 case pbuf_pool s of
                   None \<Rightarrow> Some (None, s)
                 | Some p \<Rightarrow> do {
                     b \<leftarrow> pbufs s p;
                     Some (Some p, s\<lparr>pbuf_pool := pb_next b\<rparr>)
                   }
               else Some (None, stat_pbuf (\<lambda>st. st\<lparr>ps_alloc_locked := ps_alloc_locked st + 1\<rparr>) s));
            let s = s\<lparr>pbuf_pool_alloc_lock := pbuf_pool_alloc_lock s - 1\<rparr>;
            Some (pbuf_count_alloc (p, s))
          })"

text \<open>The last pbuf of a chain, and the walk that counts the pbufs of a chain.\<close>

partial_function (option) last_pbuf :: "(u32 \<rightharpoonup> pbuf) \<Rightarrow> u32 \<Rightarrow> u32 option" where
  "last_pbuf pbs q =
     (case pbs q of
        None \<Rightarrow> None
      | Some b \<Rightarrow> (case pb_next b of None \<Rightarrow> Some q | Some q' \<Rightarrow> last_pbuf pbs q'))"

partial_function (option) uncount_pbufs :: "(u32 \<rightharpoonup> pbuf) \<Rightarrow> u32 option \<Rightarrow> u16 \<Rightarrow> u16 option" where
  "uncount_pbufs pbs q used =
     (case q of
        None \<Rightarrow> Some used
      | Some p \<Rightarrow> (case pbs p of None \<Rightarrow> None | Some b \<Rightarrow> uncount_pbufs pbs (pb_next b) (used - 1)))"

definition pbuf_pool_free :: "u32 \<Rightarrow> 'a pbuf_state_scheme \<Rightarrow> 'a pbuf_state_scheme option" where
  "pbuf_pool_free p s = do {
     used \<leftarrow> uncount_pbufs (pbufs s) (Some p) (ps_used (pbuf_stats s));
     let s = stat_pbuf (\<lambda>st. st\<lparr>ps_used := used\<rparr>) s;
     case pbuf_pool_alloc_cache s of
       None \<Rightarrow> Some (s\<lparr>pbuf_pool_alloc_cache := Some p\<rparr>)
     | Some c \<Rightarrow> do {
         q \<leftarrow> last_pbuf (pbufs s) c;
         upd_pbuf q (\<lambda>b. b\<lparr>pb_next := Some p\<rparr>) s
       }
   }"

text \<open>The loop of \<open>pbuf_alloc\<close> that allocates the tail of a chain from the pool.\<close>

partial_function (option) pbuf_alloc_tail ::
  "u32 \<Rightarrow> u32 \<Rightarrow> int \<Rightarrow> 'a pbuf_state_scheme \<Rightarrow> (u32 option \<times> 'a pbuf_state_scheme) option" where
  "pbuf_alloc_tail p r rsize s =
     (if rsize > 0 then do {
        (q, s) \<leftarrow> pbuf_pool_alloc s;
        case q of
          None \<Rightarrow> do {
            s \<leftarrow> pbuf_pool_free p (stat_pbuf (\<lambda>st. st\<lparr>ps_err := ps_err st + 1\<rparr>) s);
            Some (None, s)
          }
        | Some q \<Rightarrow> do {
            s \<leftarrow> upd_pbuf q (\<lambda>b. b\<lparr>pb_next := None\<rparr>) s;
            s \<leftarrow> upd_pbuf r (\<lambda>b. b\<lparr>pb_next := Some q\<rparr>) s;
            s \<leftarrow> upd_pbuf q (\<lambda>b. b\<lparr>
                   pb_len := (if rsize > int PBUF_POOL_BUFSIZE then of_nat PBUF_POOL_BUFSIZE else of_int rsize),
                   pb_flags := PBUF_FLAG_POOL,
                   pb_payload := q + SIZEOF_STRUCT_PBUF,
                   pb_ref := 1\<rparr>) s;
            pbuf_alloc_tail p q (rsize - int PBUF_POOL_BUFSIZE) s
          }
      }
      else do {
        s \<leftarrow> upd_pbuf r (\<lambda>b. b\<lparr>pb_next := None\<rparr>) s;
        Some (Some p, s)
      })"

fun layer_offset :: "pbuf_layer \<Rightarrow> nat" where
  "layer_offset PBUF_TRANSPORT = 20 + 20 + 16"
| "layer_offset PBUF_IP = 20 + 16"
| "layer_offset PBUF_LINK = 0"
| "layer_offset PBUF_RAW = 0"

definition pbuf_alloc_pool ::
  "nat \<Rightarrow> u16 \<Rightarrow> 'a pbuf_state_scheme \<Rightarrow> (u32 option \<times> 'a pbuf_state_scheme) option" where
  "pbuf_alloc_pool offset sz s = do {
     (p, s) \<leftarrow> pbuf_pool_alloc s;
     case p of
       None \<Rightarrow> Some (None, stat_pbuf (\<lambda>st. st\<lparr>ps_err := ps_err st + 1\<rparr>) s)
     | Some p \<Rightarrow> do {
         let len = (if unat sz > PBUF_POOL_BUFSIZE - offset
                    then of_nat (PBUF_POOL_BUFSIZE - offset) else sz);
         s \<leftarrow> upd_pbuf p (\<lambda>b. b\<lparr>
                pb_next := None,
                pb_payload := MEM_ALIGN (p + (SIZEOF_STRUCT_PBUF + of_nat offset)),
                pb_tot_len := sz,
                pb_len := len,
                pb_flags := PBUF_FLAG_POOL\<rparr>) s;
         (r, s) \<leftarrow> pbuf_alloc_tail p p (int (unat sz) - int (unat len)) s;
         case r of
           None \<Rightarrow> Some (None, s)
         | Some p \<Rightarrow> do {
             s \<leftarrow> upd_pbuf p (\<lambda>b. b\<lparr>pb_ref := 1\<rparr>) s;
             Some (Some p, s)
           }
       }
   }"

definition MEM_ALIGN_SIZE :: "nat \<Rightarrow> nat" where
  "MEM_ALIGN_SIZE n = n + (if n mod 4 = 0 then 0 else 4 - n mod 4)"

definition pbuf_alloc ::
  "u32 \<Rightarrow> pbuf_layer \<Rightarrow> u16 \<Rightarrow> pbuf_flag \<Rightarrow> 'a pbuf_state_scheme \<Rightarrow> (u32 option \<times> 'a pbuf_state_scheme) option" where
  "pbuf_alloc ram_addr l sz flag s =
     (let offset = layer_offset l
      in case flag of
           PBUF_POOL \<Rightarrow> pbuf_alloc_pool offset sz s
         | PBUF_RAM \<Rightarrow> do {
             (m, s) \<leftarrow> mem_malloc (of_nat (MEM_ALIGN_SIZE (16 + unat sz + offset))) s;
             case m of
               None \<Rightarrow> Some (None, s)
             | Some off \<Rightarrow>
                 let p = ram_addr + off
                 in Some (Some p, s\<lparr>pbufs := (pbufs s)(p \<mapsto>
                      \<lparr>pb_next = None, pb_flags = PBUF_FLAG_RAM, pb_ref = 1,
                       pb_payload = MEM_ALIGN (p + SIZEOF_STRUCT_PBUF + of_nat offset),
                       pb_tot_len = sz, pb_len = sz\<rparr>)\<rparr>)
           }
         | PBUF_ROM \<Rightarrow> do {
             (m, s) \<leftarrow> memp_mallocp MEMP_PBUF s;
             case m of
               None \<Rightarrow> Some (None, s)
             | Some p \<Rightarrow>
                 Some (Some p, s\<lparr>pbufs := (pbufs s)(p \<mapsto>
                   \<lparr>pb_next = None, pb_flags = PBUF_FLAG_ROM, pb_ref = 1, pb_payload = 0,
                    pb_tot_len = sz, pb_len = sz\<rparr>)\<rparr>)
           })"

definition pbuf_refresh :: "'a pbuf_state_scheme \<Rightarrow> 'a pbuf_state_scheme option" where
  "pbuf_refresh s = do {
     s \<leftarrow> pool_lock s;
     s \<leftarrow>
       (case pbuf_pool_free_cache s of
          None \<Rightarrow> Some s
        | Some c \<Rightarrow> do {
            let s = s\<lparr>pbuf_pool_free_lock := pbuf_pool_free_lock s + 1\<rparr>;
            s \<leftarrow>
              (if pbuf_pool_alloc_lock s = 0 then do {
                 s \<leftarrow> (case pbuf_pool s of
                         None \<Rightarrow> Some (s\<lparr>pbuf_pool := Some c\<rparr>)
                       | Some h \<Rightarrow> do {
                           q \<leftarrow> last_pbuf (pbufs s) h;
                           upd_pbuf q (\<lambda>b. b\<lparr>pb_next := Some c\<rparr>) s
                         });
                 Some (s\<lparr>pbuf_pool_free_cache := None\<rparr>)
               }
               else Some (stat_pbuf (\<lambda>st. st\<lparr>ps_refresh_locked := ps_refresh_locked st + 1\<rparr>) s));
            Some (s\<lparr>pbuf_pool_free_lock := pbuf_pool_free_lock s - 1\<rparr>)
          });
     Some (pool_unlock s)
   }"

definition PBUF_POOL_FREE :: "u32 \<Rightarrow> 'a pbuf_state_scheme \<Rightarrow> 'a pbuf_state_scheme option" where
  "PBUF_POOL_FREE p s = do {
     s \<leftarrow> pool_lock s;
     s \<leftarrow> upd_pbuf p (\<lambda>b. b\<lparr>pb_next := pbuf_pool_free_cache s\<rparr>) s;
     Some (pool_unlock (s\<lparr>pbuf_pool_free_cache := Some p\<rparr>))
   }"

text \<open>The loop of \<open>pbuf_free\<close> over the chain; it counts the pbufs in a \<^verbatim>\<open>uint8_t\<close>.\<close>

partial_function (option) pbuf_free_loop ::
  "u32 \<Rightarrow> u32 option \<Rightarrow> u8 \<Rightarrow> 'a pbuf_state_scheme \<Rightarrow> (u8 \<times> 'a pbuf_state_scheme) option" where
  "pbuf_free_loop ram_addr p count s =
     (case p of
        None \<Rightarrow> Some (count, s)
      | Some p \<Rightarrow> do {
          b \<leftarrow> pbufs s p;
          s \<leftarrow>
            (if pb_flags b = PBUF_FLAG_POOL then do {
               s \<leftarrow> upd_pbuf p (\<lambda>b. b\<lparr>pb_tot_len := of_nat PBUF_POOL_BUFSIZE, pb_len := of_nat PBUF_POOL_BUFSIZE,
                                       pb_payload := p + SIZEOF_STRUCT_PBUF\<rparr>) s;
               s \<leftarrow> PBUF_POOL_FREE p s;
               Some (stat_pbuf (\<lambda>st. st\<lparr>ps_used := ps_used st - 1\<rparr>) s)
             }
             else if pb_flags b = PBUF_FLAG_ROM then do {
               s \<leftarrow> memp_freep MEMP_PBUF (Some p) s;
               Some (s\<lparr>pbufs := (pbufs s)(p := None)\<rparr>)
             }
             else do {
               s \<leftarrow> mem_free (Some (p - ram_addr)) s;
               Some (s\<lparr>pbufs := (pbufs s)(p := None)\<rparr>)
             });
          pbuf_free_loop ram_addr (pb_next b) (count + 1) s
        })"

definition pbuf_free :: "u32 \<Rightarrow> u32 option \<Rightarrow> 'a pbuf_state_scheme \<Rightarrow> (u8 \<times> 'a pbuf_state_scheme) option" where
  "pbuf_free ram_addr p s =
     (case p of
        None \<Rightarrow> Some (0, s)
      | Some q \<Rightarrow> do {
          s \<leftarrow> upd_pbuf q (\<lambda>b. b\<lparr>pb_ref := pb_ref b - 1\<rparr>) s;
          b \<leftarrow> pbufs s q;
          if pb_ref b = 0 then do {
            (count, s) \<leftarrow> pbuf_free_loop ram_addr p 0 s;
            s \<leftarrow> pbuf_refresh s;
            Some (count, s)
          }
          else Some (0, s)
        })"

text \<open>Stepping over the pbufs that stay, and releasing the others, in \<open>pbuf_realloc\<close>.\<close>

partial_function (option) realloc_step :: "(u32 \<rightharpoonup> pbuf) \<Rightarrow> u16 \<Rightarrow> u32 \<Rightarrow> (u16 \<times> u32) option" where
  "realloc_step pbs rsize q =
     (case pbs q of
        None \<Rightarrow> None
      | Some b \<Rightarrow>
          if rsize > pb_len b then
            (case pb_next b of None \<Rightarrow> None | Some q' \<Rightarrow> realloc_step pbs (rsize - pb_len b) q')
          else Some (rsize, q))"

partial_function (option) realloc_pool_free ::
  "u32 option \<Rightarrow> 'a pbuf_state_scheme \<Rightarrow> 'a pbuf_state_scheme option" where
  "realloc_pool_free q s =
     (case q of
        None \<Rightarrow> Some s
      | Some q \<Rightarrow> do {
          b \<leftarrow> pbufs s q;
          s \<leftarrow> PBUF_POOL_FREE q s;
          realloc_pool_free (pb_next b) (stat_pbuf (\<lambda>st. st\<lparr>ps_used := ps_used st - 1\<rparr>) s)
        })"

partial_function (option) realloc_ram_free ::
  "u32 \<Rightarrow> u32 option \<Rightarrow> 'a pbuf_state_scheme \<Rightarrow> 'a pbuf_state_scheme option" where
  "realloc_ram_free ram_addr q s =
     (case q of
        None \<Rightarrow> Some s
      | Some q \<Rightarrow> do {
          b \<leftarrow> pbufs s q;
          (c, s) \<leftarrow> pbuf_free ram_addr (Some q) s;
          realloc_ram_free ram_addr (pb_next b) s
        })"

definition pbuf_realloc :: "u32 \<Rightarrow> u32 \<Rightarrow> u16 \<Rightarrow> 'a pbuf_state_scheme \<Rightarrow> 'a pbuf_state_scheme option" where
  "pbuf_realloc ram_addr p sz s = do {
     b \<leftarrow> pbufs s p;
     if pb_tot_len b \<le> sz then Some s
     else do {
       s \<leftarrow>
         (if pb_flags b = PBUF_FLAG_POOL then do {
            (rsize, q) \<leftarrow> realloc_step (pbufs s) sz p;
            c \<leftarrow> pbufs s q;
            s \<leftarrow> upd_pbuf q (\<lambda>b. b\<lparr>pb_len := rsize, pb_next := None\<rparr>) s;
            realloc_pool_free (pb_next c) s
          }
          else if pb_flags b = PBUF_FLAG_ROM then upd_pbuf p (\<lambda>b. b\<lparr>pb_len := sz\<rparr>) s
          else if pb_flags b = PBUF_FLAG_RAM then do {
            (rsize, q) \<leftarrow> realloc_step (pbufs s) sz p;
            c \<leftarrow> pbufs s q;
            s \<leftarrow> (if pb_flags c = PBUF_FLAG_RAM then do {
                    (m, s) \<leftarrow> mem_realloc (q - ram_addr) (pb_payload c - q + ucast rsize) s;
                    Some s
                  }
                  else Some s);
            s \<leftarrow> upd_pbuf q (\<lambda>b. b\<lparr>pb_len := rsize, pb_next := None\<rparr>) s;
            realloc_ram_free ram_addr (pb_next c) s
          }
          else Some s);
       s \<leftarrow> upd_pbuf p (\<lambda>b. b\<lparr>pb_tot_len := sz\<rparr>) s;
       pbuf_refresh s
     }
   }"

text \<open>\<open>pbuf_header\<close>: the payload pointer is moved by \<open>header_size\<close>, given as a 16 bit signed number.\<close>

definition pbuf_header :: "u32 \<Rightarrow> u16 \<Rightarrow> 'a pbuf_state_scheme \<Rightarrow> (u8 \<times> 'a pbuf_state_scheme) option" where
  "pbuf_header p header_size s = do {
     b \<leftarrow> pbufs s p;
     let payload = pb_payload b - scast header_size;
     if payload < p + SIZEOF_STRUCT_PBUF then Some (-1, s)
     else do {
       s \<leftarrow> upd_pbuf p (\<lambda>b. b\<lparr>pb_payload := payload, pb_len := pb_len b + header_size,
                               pb_tot_len := pb_tot_len b + header_size\<rparr>) s;
       Some (0, s)
     }
   }"

partial_function (option) pbuf_clen_loop :: "(u32 \<rightharpoonup> pbuf) \<Rightarrow> u32 option \<Rightarrow> u8 \<Rightarrow> u8 option" where
  "pbuf_clen_loop pbs p len =
     (case p of
        None \<Rightarrow> Some len
      | Some q \<Rightarrow> (case pbs q of None \<Rightarrow> None | Some b \<Rightarrow> pbuf_clen_loop pbs (pb_next b) (len + 1)))"

definition pbuf_clen :: "u32 option \<Rightarrow> 'a pbuf_state_scheme \<Rightarrow> u8 option" where
  "pbuf_clen p s = pbuf_clen_loop (pbufs s) p 0"

definition pbuf_ref :: "u32 option \<Rightarrow> 'a pbuf_state_scheme \<Rightarrow> 'a pbuf_state_scheme option" where
  "pbuf_ref p s =
     (case p of None \<Rightarrow> Some s | Some q \<Rightarrow> upd_pbuf q (\<lambda>b. b\<lparr>pb_ref := pb_ref b + 1\<rparr>) s)"

definition pbuf_chain :: "u32 \<Rightarrow> u32 \<Rightarrow> 'a pbuf_state_scheme \<Rightarrow> 'a pbuf_state_scheme option" where
  "pbuf_chain h t s = do {
     p \<leftarrow> last_pbuf (pbufs s) h;
     s \<leftarrow> upd_pbuf p (\<lambda>b. b\<lparr>pb_next := Some t\<rparr>) s;
     tb \<leftarrow> pbufs s t;
     upd_pbuf h (\<lambda>b. b\<lparr>pb_tot_len := pb_tot_len b + pb_tot_len tb\<rparr>) s
   }"

definition pbuf_dechain :: "u32 \<Rightarrow> 'a pbuf_state_scheme \<Rightarrow> (u32 option \<times> 'a pbuf_state_scheme) option" where
  "pbuf_dechain p s = do {
     b \<leftarrow> pbufs s p;
     s \<leftarrow> (case pb_next b of
             None \<Rightarrow> Some s
           | Some q \<Rightarrow> upd_pbuf q (\<lambda>c. c\<lparr>pb_tot_len := pb_tot_len b - pb_len b\<rparr>) s);
     s \<leftarrow> upd_pbuf p (\<lambda>b. b\<lparr>pb_tot_len := pb_len b, pb_next := None\<rparr>) s;
     Some (pb_next b, s)
   }"

subsection \<open>Chains\<close>

definition pb_nx :: "(u32 \<rightharpoonup> pbuf) \<Rightarrow> u32 \<Rightarrow> u32 option option" where
  "pb_nx pbs = (\<lambda>a. map_option pb_next (pbs a))"

abbreviation pb_chain :: "'a pbuf_state_scheme \<Rightarrow> u32 option \<Rightarrow> u32 list \<Rightarrow> bool" where
  "pb_chain s \<equiv> chain (pb_nx (pbufs s))"

lemma pb_nx_upd [simp]: "pb_nx (pbs(a := v)) = (pb_nx pbs)(a := map_option pb_next v)"
  by (auto simp: pb_nx_def)

lemma chain_pbuf_Cons:
  "chain (pb_nx pbs) p (a # as) \<longleftrightarrow> p = Some a \<and> (\<exists>b. pbs a = Some b \<and> chain (pb_nx pbs) (pb_next b) as)"
  by (auto simp: pb_nx_def split: option.splits)

lemma last_pbuf_chain: "chain (pb_nx pbs) (Some h) as \<Longrightarrow> last_pbuf pbs h = Some (last as)"
proof (induction as arbitrary: h)
  case (Cons a as)
  then obtain b where b: "h = a" "pbs a = Some b" "chain (pb_nx pbs) (pb_next b) as"
    by (auto simp: chain_pbuf_Cons simp del: chain.simps(2))
  show ?case
  proof (cases as)
    case Nil
    with b show ?thesis by (subst last_pbuf.simps) simp
  next
    case (Cons a' as')
    then have "pb_next b = Some a'" using b(3) by simp
    with b Cons.IH [of a'] Cons show ?thesis by (subst last_pbuf.simps) simp
  qed
qed simp

lemma uncount_chain:
  "chain (pb_nx pbs) p as \<Longrightarrow> uncount_pbufs pbs p used = Some (used - of_nat (length as))"
proof (induction as arbitrary: p used)
  case Nil
  then show ?case by (subst uncount_pbufs.simps) simp
next
  case (Cons a as)
  then obtain b where "p = Some a" "pbs a = Some b" "chain (pb_nx pbs) (pb_next b) as"
    by (auto simp: chain_pbuf_Cons simp del: chain.simps(2))
  with Cons.IH show ?case by (subst uncount_pbufs.simps) (simp add: algebra_simps)
qed

lemma pbuf_clen_loop_chain:
  "chain (pb_nx pbs) p as \<Longrightarrow> pbuf_clen_loop pbs p n = Some (n + of_nat (length as))"
proof (induction as arbitrary: p n)
  case Nil
  then show ?case by (subst pbuf_clen_loop.simps) simp
next
  case (Cons a as)
  then obtain b where "p = Some a" "pbs a = Some b" "chain (pb_nx pbs) (pb_next b) as"
    by (auto simp: chain_pbuf_Cons simp del: chain.simps(2))
  with Cons.IH show ?case by (subst pbuf_clen_loop.simps) (simp add: algebra_simps)
qed

text \<open>Appending one list to another by its last next pointer.\<close>

lemma chain_join:
  assumes "chain nx (Some h) as" and "chain nx q bs" and "set as \<inter> set bs = {}"
  shows "chain (nx(last as := Some q)) (Some h) (as @ bs)"
  using assms
proof (induction as arbitrary: h)
  case (Cons a as)
  show ?case
  proof (cases as)
    case Nil
    with Cons.prems show ?thesis
      by (auto simp del: fun_upd_apply simp: fun_upd_same split: option.splits)
  next
    case (Cons a' as')
    then have "h = a" "nx a = Some (Some a')" "chain nx (Some a') as"
      using Cons.prems(1) by (auto split: option.splits)
    moreover have "a \<noteq> last as" using chain_distinct [OF Cons.prems(1)] Cons by auto
    ultimately show ?thesis using Cons.IH [of a'] Cons.prems Cons by simp
  qed
qed simp

text \<open>Cutting a list behind one of its objects.\<close>

lemma chain_cut:
  assumes "chain nx p (us @ x # vs)"
  shows "chain (nx(x := Some None)) p (us @ [x])"
  using assms
proof (induction us arbitrary: p)
  case (Cons u us)
  have "u \<noteq> x" using chain_distinct [OF Cons.prems] by auto
  with Cons show ?case by (auto simp del: fun_upd_apply simp: fun_upd_other split: option.splits)
qed (auto split: option.splits)

subsection \<open>The pool\<close>

text \<open>
  \<open>bufs_ok S s A\<close>: of the buffers \<open>S\<close> of the pool, \<open>A\<close> are in use and the others are on the pool
  list, in the allocation cache or in the free cache, each on one of them; nobody is inside one
  of the operations.
\<close>

definition pool_lists :: "'a pbuf_state_scheme \<Rightarrow> u32 list \<Rightarrow> u32 list \<Rightarrow> u32 list \<Rightarrow> bool" where
  "pool_lists s ps cs fs \<longleftrightarrow> pb_chain s (pbuf_pool s) ps \<and> pb_chain s (pbuf_pool_alloc_cache s) cs \<and>
     pb_chain s (pbuf_pool_free_cache s) fs \<and> distinct (ps @ cs @ fs)"

definition pool_idle :: "'a pbuf_state_scheme \<Rightarrow> bool" where
  "pool_idle s \<longleftrightarrow> pbuf_pool_free_lock s = 0 \<and> pbuf_pool_alloc_lock s = 0 \<and> sem_c (pbuf_pool_free_sem s) = 1"

definition bufs_ok :: "u32 set \<Rightarrow> 'a pbuf_state_scheme \<Rightarrow> u32 set \<Rightarrow> bool" where
  "bufs_ok S s A \<longleftrightarrow> (\<exists>ps cs fs. pool_lists s ps cs fs \<and> set (ps @ cs @ fs) \<inter> A = {} \<and> set (ps @ cs @ fs) \<union> A = S) \<and>
     (\<forall>a \<in> S. pbufs s a \<noteq> None) \<and> pool_idle s"

lemma bufs_okE:
  assumes "bufs_ok S s A"
  obtains ps cs fs where "pb_chain s (pbuf_pool s) ps" "pb_chain s (pbuf_pool_alloc_cache s) cs"
    "pb_chain s (pbuf_pool_free_cache s) fs" "distinct (ps @ cs @ fs)" "set (ps @ cs @ fs) \<inter> A = {}"
    "set (ps @ cs @ fs) \<union> A = S" "\<And>a. a \<in> S \<Longrightarrow> pbufs s a \<noteq> None" "pool_idle s"
  using assms unfolding bufs_ok_def pool_lists_def by blast

lemma bufs_okI:
  assumes "pb_chain s (pbuf_pool s) ps" "pb_chain s (pbuf_pool_alloc_cache s) cs"
    "pb_chain s (pbuf_pool_free_cache s) fs" "distinct (ps @ cs @ fs)" "set (ps @ cs @ fs) \<inter> A = {}"
    "set (ps @ cs @ fs) \<union> A = S" "\<And>a. a \<in> S \<Longrightarrow> pbufs s a \<noteq> None" "pool_idle s"
  shows "bufs_ok S s A"
  using assms unfolding bufs_ok_def pool_lists_def by blast

lemma bufs_ok_stat [simp]: "bufs_ok S (stat_pbuf f s) A = bufs_ok S s A"
  by (simp add: bufs_ok_def pool_lists_def pool_idle_def stat_pbuf_def)

lemma pbufs_stat [simp]: "pbufs (stat_pbuf f s) = pbufs s"
  by (simp add: stat_pbuf_def)

lemma bufs_ok_upd:
  assumes ok: "bufs_ok S s A" and a: "a \<in> A \<or> a \<notin> S" and b: "pbufs s a = Some b"
  shows "upd_pbuf a f s = Some (s\<lparr>pbufs := (pbufs s)(a \<mapsto> f b)\<rparr>)"
    "bufs_ok S (s\<lparr>pbufs := (pbufs s)(a \<mapsto> f b)\<rparr>) A"
proof -
  show "upd_pbuf a f s = Some (s\<lparr>pbufs := (pbufs s)(a \<mapsto> f b)\<rparr>)" using b by (simp add: upd_pbuf_def)
  from ok show "bufs_ok S (s\<lparr>pbufs := (pbufs s)(a \<mapsto> f b)\<rparr>) A"
  proof (rule bufs_okE)
    fix ps cs fs
    assume *: "pb_chain s (pbuf_pool s) ps" "pb_chain s (pbuf_pool_alloc_cache s) cs"
      "pb_chain s (pbuf_pool_free_cache s) fs" "distinct (ps @ cs @ fs)" "set (ps @ cs @ fs) \<inter> A = {}"
      "set (ps @ cs @ fs) \<union> A = S" "\<And>a. a \<in> S \<Longrightarrow> pbufs s a \<noteq> None" "pool_idle s"
    then have "a \<notin> set (ps @ cs @ fs)" using a by blast
    with * show ?thesis by (intro bufs_okI [of _ ps cs fs]) (simp_all add: pool_idle_def)
  qed
qed

lemma pool_idle_lock:
  assumes "pool_idle s"
  shows "\<exists>s'. pool_lock s = Some s' \<and> pbufs s' = pbufs s \<and> pbuf_pool s' = pbuf_pool s \<and>
    pbuf_pool_alloc_cache s' = pbuf_pool_alloc_cache s \<and> pbuf_pool_free_cache s' = pbuf_pool_free_cache s \<and>
    pbuf_pool_free_lock s' = 0 \<and> pbuf_pool_alloc_lock s' = 0 \<and> sys_sem_signal (pbuf_pool_free_sem s') = pbuf_pool_free_sem s \<and>
    pbuf_stats s' = pbuf_stats s"
proof -
  have "sem_c (pbuf_pool_free_sem s) = 1" using assms by (simp add: pool_idle_def)
  from mutex_cycle [OF this] assms show ?thesis by (auto simp: pool_lock_def pool_idle_def)
qed

lemma pbuf_pool_alloc_ok:
  assumes ok: "bufs_ok S s A"
  shows "\<exists>r s'. pbuf_pool_alloc s = Some (r, s') \<and> pbufs s' = pbufs s \<and>
    (case r of None \<Rightarrow> bufs_ok S s' A | Some p \<Rightarrow> p \<notin> A \<and> p \<in> S \<and> bufs_ok S s' (insert p A))"
  using ok
proof (rule bufs_okE)
  fix ps cs fs
  assume *: "pb_chain s (pbuf_pool s) ps" "pb_chain s (pbuf_pool_alloc_cache s) cs"
    "pb_chain s (pbuf_pool_free_cache s) fs" "distinct (ps @ cs @ fs)" "set (ps @ cs @ fs) \<inter> A = {}"
    "set (ps @ cs @ fs) \<union> A = S" "\<And>a. a \<in> S \<Longrightarrow> pbufs s a \<noteq> None" and idle: "pool_idle s"
  show ?thesis
  proof (cases "pbuf_pool_alloc_cache s")
    case (Some p)
    then obtain cs' b where cs: "cs = p # cs'" "pbufs s p = Some b" "pb_chain s (pb_next b) cs'"
      using *(2) by (cases cs) (auto simp: chain_pbuf_Cons simp del: chain.simps(2))
    let ?s = "s\<lparr>pbuf_pool_alloc_cache := pb_next b\<rparr>"
    have "bufs_ok S ?s (insert p A)"
      using * cs idle by (intro bufs_okI [of _ ps cs' fs]) (auto simp: pool_idle_def)
    moreover have "p \<notin> A" "p \<in> S" using *(5,6) cs(1) by auto
    ultimately show ?thesis
      using Some cs(2) by (auto simp: pbuf_pool_alloc_def pbuf_count_alloc_def)
  next
    case None
    note idle' = idle [unfolded pool_idle_def]
    show ?thesis
    proof (cases "pbuf_pool s")
      case Nil: None
      have "bufs_ok S (s\<lparr>pbuf_pool_alloc_lock := 0\<rparr>) A"
        using * idle by (intro bufs_okI [of _ ps cs fs]) (auto simp: pool_idle_def)
      with None Nil idle' show ?thesis
        by (auto simp: pbuf_pool_alloc_def pbuf_count_alloc_def)
    next
      case (Some p)
      then obtain ps' b where ps: "ps = p # ps'" "pbufs s p = Some b" "pb_chain s (pb_next b) ps'"
        using *(1) by (cases ps) (auto simp: chain_pbuf_Cons simp del: chain.simps(2))
      let ?s = "s\<lparr>pbuf_pool := pb_next b, pbuf_pool_alloc_lock := 0\<rparr>"
      have "bufs_ok S ?s (insert p A)"
        using * ps idle by (intro bufs_okI [of _ ps' cs fs]) (auto simp: pool_idle_def)
      moreover have "p \<notin> A" "p \<in> S" using *(5,6) ps(1) by auto
      ultimately show ?thesis
        using None Some ps(2) idle' by (auto simp: pbuf_pool_alloc_def pbuf_count_alloc_def)
    qed
  qed
qed

text \<open>Giving a chain back to the allocation cache, as a failing \<open>pbuf_alloc\<close> does.\<close>

lemma pbuf_pool_free_ok:
  assumes ok: "bufs_ok S s A" and ch: "pb_chain s (Some p) xs" and xs: "set xs \<subseteq> A" "A \<subseteq> S"
  shows "\<exists>s'. pbuf_pool_free p s = Some s' \<and> bufs_ok S s' (A - set xs)"
  using ok
proof (rule bufs_okE)
  fix ps cs fs
  assume *: "pb_chain s (pbuf_pool s) ps" "pb_chain s (pbuf_pool_alloc_cache s) cs"
    "pb_chain s (pbuf_pool_free_cache s) fs" "distinct (ps @ cs @ fs)" "set (ps @ cs @ fs) \<inter> A = {}"
    "set (ps @ cs @ fs) \<union> A = S" "\<And>a. a \<in> S \<Longrightarrow> pbufs s a \<noteq> None" and idle: "pool_idle s"
  note count = uncount_chain [OF ch, of "ps_used (pbuf_stats s)"]
  let ?t = "stat_pbuf (\<lambda>st. st\<lparr>ps_used := ps_used (pbuf_stats s) - of_nat (length xs)\<rparr>) s"
  have d: "distinct xs" "set xs \<inter> set (ps @ cs @ fs) = {}" using chain_distinct [OF ch] xs *(5) by auto
  show ?thesis
  proof (cases "pbuf_pool_alloc_cache s")
    case None
    then have "cs = []" using *(2) by simp
    then have "bufs_ok S (?t\<lparr>pbuf_pool_alloc_cache := Some p\<rparr>) (A - set xs)"
      using * idle ch xs d by (intro bufs_okI [of _ ps xs fs]) (auto simp: pool_idle_def stat_pbuf_def)
    with count None show ?thesis by (simp add: pbuf_pool_free_def) (simp add: stat_pbuf_def)
  next
    case (Some c)
    have last: "last_pbuf (pbufs s) c = Some (last cs)" using *(2) Some by (simp add: last_pbuf_chain)
    have "cs \<noteq> []" using *(2) Some by auto
    then have lc: "last cs \<in> set cs" by simp
    then obtain b where b: "pbufs s (last cs) = Some b" using *(6,7) by fastforce
    let ?s = "?t\<lparr>pbufs := (pbufs s)(last cs \<mapsto> b\<lparr>pb_next := Some p\<rparr>)\<rparr>"
    have out: "last cs \<notin> set ps" "last cs \<notin> set fs" using lc *(4) by auto
    have "chain ((pb_nx (pbufs s))(last cs := Some (Some p))) (Some c) (cs @ xs)"
      using *(2) Some ch d by (intro chain_join) auto
    then have "bufs_ok S ?s (A - set xs)"
      using * idle d xs out Some by (intro bufs_okI [of _ ps "cs @ xs" fs]) (auto simp: pool_idle_def stat_pbuf_def)
    moreover have "pbuf_pool_free p s = Some ?s"
      using count Some last b by (simp add: pbuf_pool_free_def upd_pbuf_def) (simp add: stat_pbuf_def upd_pbuf_def)
    ultimately show ?thesis by blast
  qed
qed

subsection \<open>Allocating a chain from the pool\<close>

abbreviation plen :: "(u32 \<rightharpoonup> pbuf) \<Rightarrow> u32 \<Rightarrow> nat" where
  "plen pbs a \<equiv> unat (pb_len (the (pbs a)))"

definition chain_len :: "(u32 \<rightharpoonup> pbuf) \<Rightarrow> u32 list \<Rightarrow> nat" where
  "chain_len pbs as = sum_list (map (plen pbs) as)"

definition pool_bufs :: "(u32 \<rightharpoonup> pbuf) \<Rightarrow> u32 list \<Rightarrow> bool" where
  "pool_bufs pbs as \<longleftrightarrow> (\<forall>a \<in> set as. \<exists>b. pbs a = Some b \<and> pb_flags b = PBUF_FLAG_POOL \<and> unat (pb_len b) \<le> 128)"

lemma chain_len_append [simp]: "chain_len pbs (xs @ ys) = chain_len pbs xs + chain_len pbs ys"
  by (simp add: chain_len_def)

lemma chain_len_cong:
  "(\<And>a. a \<in> set as \<Longrightarrow> plen pbs a = plen pbs' a) \<Longrightarrow> chain_len pbs as = chain_len pbs' as"
  unfolding chain_len_def by (intro arg_cong [where f = sum_list] map_cong) simp_all

text \<open>
  One more buffer: the state after a pass of the loop, and what it means for the chain so far.
\<close>

definition link_buf :: "u32 \<Rightarrow> u32 \<Rightarrow> int \<Rightarrow> (u32 \<rightharpoonup> pbuf) \<Rightarrow> pbuf \<Rightarrow> pbuf \<Rightarrow> u32 \<rightharpoonup> pbuf" where
  "link_buf r q rsize pbs br bq = pbs(r \<mapsto> br\<lparr>pb_next := Some q\<rparr>,
     q \<mapsto> bq\<lparr>pb_next := None, pb_len := (if rsize > 128 then 128 else of_int rsize),
       pb_flags := PBUF_FLAG_POOL, pb_payload := q + SIZEOF_STRUCT_PBUF, pb_ref := 1\<rparr>)"

lemma unat_buf_len:
  assumes "0 < rsize" "rsize \<le> 65535"
  shows "unat (if rsize > 128 then 128 else of_int rsize :: u16) = nat (min rsize 128)"
proof (cases "rsize > 128")
  case False
  then have "unat (of_int rsize :: u16) = nat (rsize mod 65536)"
    by (simp add: unat_eq_nat_uint uint_word_of_int)
  with False assms show ?thesis by simp
qed simp

lemma link_buf_ok:
  assumes ok: "bufs_ok S s A" and ch: "pb_chain s (Some p) (xs @ [r])" and A: "set (xs @ [r]) \<subseteq> A" "q \<in> A"
    and new: "q \<notin> set (xs @ [r])" and r: "pbufs s r = Some br" and q: "pbufs s q = Some bq"
    and size: "0 < rsize" "rsize \<le> 65535" and bufs: "pool_bufs (pbufs s) (xs @ [r])"
  defines "pbs \<equiv> link_buf r q rsize (pbufs s) br bq"
  shows "do {
      s \<leftarrow> upd_pbuf q (\<lambda>b. b\<lparr>pb_next := None\<rparr>) s;
      s \<leftarrow> upd_pbuf r (\<lambda>b. b\<lparr>pb_next := Some q\<rparr>) s;
      upd_pbuf q (\<lambda>b. b\<lparr>pb_len := (if rsize > int PBUF_POOL_BUFSIZE then of_nat PBUF_POOL_BUFSIZE else of_int rsize),
        pb_flags := PBUF_FLAG_POOL, pb_payload := q + SIZEOF_STRUCT_PBUF, pb_ref := 1\<rparr>) s
    } = Some (s\<lparr>pbufs := pbs\<rparr>)"
    "bufs_ok S (s\<lparr>pbufs := pbs\<rparr>) A" "chain (pb_nx pbs) (Some p) (xs @ [r, q])"
    "pool_bufs pbs (xs @ [r, q])" "chain_len pbs (xs @ [r, q]) = chain_len (pbufs s) (xs @ [r]) + nat (min rsize 128)"
proof -
  have rq: "r \<noteq> q" using new by auto
  show "do {
      s \<leftarrow> upd_pbuf q (\<lambda>b. b\<lparr>pb_next := None\<rparr>) s;
      s \<leftarrow> upd_pbuf r (\<lambda>b. b\<lparr>pb_next := Some q\<rparr>) s;
      upd_pbuf q (\<lambda>b. b\<lparr>pb_len := (if rsize > int PBUF_POOL_BUFSIZE then of_nat PBUF_POOL_BUFSIZE else of_int rsize),
        pb_flags := PBUF_FLAG_POOL, pb_payload := q + SIZEOF_STRUCT_PBUF, pb_ref := 1\<rparr>) s
    } = Some (s\<lparr>pbufs := pbs\<rparr>)"
    using r q rq by (simp add: upd_pbuf_def pbs_def link_buf_def fun_upd_twist)
  have "bufs_ok S (s\<lparr>pbufs := (pbufs s)(r \<mapsto> br\<lparr>pb_next := Some q\<rparr>)\<rparr>) A"
    using bufs_ok_upd(2) [OF ok _ r] A by auto
  from bufs_ok_upd(2) [OF this, of q bq] A(2) q rq show "bufs_ok S (s\<lparr>pbufs := pbs\<rparr>) A"
    by (auto simp: pbs_def link_buf_def)
  show "chain (pb_nx pbs) (Some p) (xs @ [r, q])"
    using chain_append_last [OF ch new] by (simp add: pbs_def link_buf_def)
  show "pool_bufs pbs (xs @ [r, q])"
    using bufs rq r unat_buf_len [OF size] by (auto simp: pool_bufs_def pbs_def link_buf_def)
  have "chain_len pbs (xs @ [r]) = chain_len (pbufs s) (xs @ [r])"
    using new r rq by (intro chain_len_cong) (auto simp: pbs_def link_buf_def)
  moreover have "plen pbs q = nat (min rsize 128)"
    using unat_buf_len [OF size] by (simp add: pbs_def link_buf_def)
  ultimately show "chain_len pbs (xs @ [r, q]) = chain_len (pbufs s) (xs @ [r]) + nat (min rsize 128)"
    using chain_len_append [of pbs "xs @ [r]" "[q]"] by (simp add: chain_len_def)
qed

text \<open>What the loop promises for the chain \<open>as\<close> built so far.\<close>

definition alloc_post ::
  "u32 set \<Rightarrow> u32 set \<Rightarrow> u32 list \<Rightarrow> u32 \<Rightarrow> nat \<Rightarrow> u16 \<Rightarrow> u32 option \<Rightarrow> 'a pbuf_state_scheme \<Rightarrow> bool" where
  "alloc_post S A as p n tot res s \<longleftrightarrow>
     (case res of
        None \<Rightarrow> bufs_ok S s (A - set as)
      | Some p' \<Rightarrow> p' = p \<and> (\<exists>ys. pb_chain s (Some p) (as @ ys) \<and> set ys \<inter> A = {} \<and> set ys \<subseteq> S \<and>
          bufs_ok S s (A \<union> set ys) \<and> pool_bufs (pbufs s) (as @ ys) \<and> chain_len (pbufs s) (as @ ys) = n \<and>
          pb_tot_len (the (pbufs s p)) = tot))"

lemma alloc_post_step:
  assumes "alloc_post S (insert q A) (as @ [q]) p n tot res s" and "q \<notin> A" and "q \<in> S" and "set as \<subseteq> A"
  shows "alloc_post S A as p n tot res s"
proof (cases res)
  case None
  have "insert q A - set (as @ [q]) = A - set as" using assms(2) by auto
  with assms(1) None show ?thesis by (simp add: alloc_post_def)
next
  case (Some p')
  then obtain ys where ys: "p' = p" "pb_chain s (Some p) ((as @ [q]) @ ys)" "set ys \<inter> insert q A = {}" "set ys \<subseteq> S"
      "bufs_ok S s (insert q A \<union> set ys)" "pool_bufs (pbufs s) ((as @ [q]) @ ys)" "chain_len (pbufs s) ((as @ [q]) @ ys) = n"
      "pb_tot_len (the (pbufs s p)) = tot"
    using assms(1) unfolding alloc_post_def by auto
  have "A \<union> set (q # ys) = insert q A \<union> set ys" by auto
  then show ?thesis
    using ys assms(2,3) Some unfolding alloc_post_def
    by (simp only: option.case) (intro conjI exI [of _ "q # ys"], auto)
qed

lemma pbuf_alloc_tail_step:
  assumes "rsize > 0" and "pbuf_pool_alloc s = Some (Some q, t)"
    and "do {
      s \<leftarrow> upd_pbuf q (\<lambda>b. b\<lparr>pb_next := None\<rparr>) t;
      s \<leftarrow> upd_pbuf r (\<lambda>b. b\<lparr>pb_next := Some q\<rparr>) s;
      upd_pbuf q (\<lambda>b. b\<lparr>pb_len := (if rsize > int PBUF_POOL_BUFSIZE then of_nat PBUF_POOL_BUFSIZE else of_int rsize),
        pb_flags := PBUF_FLAG_POOL, pb_payload := q + SIZEOF_STRUCT_PBUF, pb_ref := 1\<rparr>) s
    } = Some s'"
  shows "pbuf_alloc_tail p r rsize s = pbuf_alloc_tail p q (rsize - 128) s'"
  using assms by (subst pbuf_alloc_tail.simps) (auto simp: bind_eq_Some_conv)

lemma pbuf_alloc_tail_end:
  assumes "\<not> rsize > 0" and "pb_chain s (Some p) (xs @ [r])" and "pbufs s r = Some br"
  shows "pbuf_alloc_tail p r rsize s = Some (Some p, s)"
proof -
  have "pb_next br = None" using chain_last [OF assms(2)] assms(3) by (simp add: pb_nx_def)
  then have "br\<lparr>pb_next := None\<rparr> = br" by simp
  then have "upd_pbuf r (\<lambda>b. b\<lparr>pb_next := None\<rparr>) s = Some s"
    using assms(3) by (simp add: upd_pbuf_def fun_upd_idem)
  then show ?thesis using assms(1) by (subst pbuf_alloc_tail.simps) simp
qed

lemma pbuf_alloc_tail_ok:
  assumes "bufs_ok S s A" and "pb_chain s (Some p) (xs @ [r])" and "set (xs @ [r]) \<subseteq> A" and "A \<subseteq> S"
    and "rsize \<le> 65535" and "pool_bufs (pbufs s) (xs @ [r])"
  shows "\<exists>res s'. pbuf_alloc_tail p r rsize s = Some (res, s') \<and>
    alloc_post S A (xs @ [r]) p (chain_len (pbufs s) (xs @ [r]) + nat rsize) (pb_tot_len (the (pbufs s p))) res s'"
  using assms
proof (induction "nat rsize" arbitrary: rsize r xs s A rule: less_induct)
  case less
  note prems = less.prems
  have rA: "r \<in> A" "r \<in> S" using prems(3,4) by auto
  obtain br where br: "pbufs s r = Some br"
    using prems(1) rA(2) by (auto simp: bufs_ok_def)
  have pin: "p \<in> set (xs @ [r])" using prems(2) by (cases "xs @ [r]") auto
  show ?case
  proof (cases "rsize > 0")
    case False
    have "alloc_post S A (xs @ [r]) p (chain_len (pbufs s) (xs @ [r]) + nat rsize) (pb_tot_len (the (pbufs s p))) (Some p) s"
      unfolding alloc_post_def option.case
      by (intro conjI exI [of _ "[]"]) (use prems False in simp_all)
    with pbuf_alloc_tail_end [OF False prems(2) br] show ?thesis by blast
  next
    case True
    obtain res t where t: "pbuf_pool_alloc s = Some (res, t)" "pbufs t = pbufs s"
        "case res of None \<Rightarrow> bufs_ok S t A | Some q \<Rightarrow> q \<notin> A \<and> q \<in> S \<and> bufs_ok S t (insert q A)"
      using pbuf_pool_alloc_ok [OF prems(1)] by blast
    show ?thesis
    proof (cases res)
      case None
      let ?t = "stat_pbuf (\<lambda>st. st\<lparr>ps_err := ps_err st + 1\<rparr>) t"
      have "bufs_ok S ?t A" "pb_chain ?t (Some p) (xs @ [r])" using t None prems(2) by simp_all
      from pbuf_pool_free_ok [OF this prems(3,4)] obtain s' where
        "pbuf_pool_free p ?t = Some s'" "bufs_ok S s' (A - set (xs @ [r]))" by blast
      with t(1) None True show ?thesis by (subst pbuf_alloc_tail.simps) (simp add: alloc_post_def)
    next
      case (Some q)
      have q: "q \<notin> A" "q \<in> S" "bufs_ok S t (insert q A)" using t(3) Some by simp_all
      obtain bq where bq: "pbufs t q = Some bq" using q(2,3) by (auto simp: bufs_ok_def)
      define pbs where "pbs = link_buf r q rsize (pbufs t) br bq"
      have pr: "pb_chain t (Some p) (xs @ [r])" "set (xs @ [r]) \<subseteq> insert q A" "q \<in> insert q A" "q \<notin> set (xs @ [r])"
          "pbufs t r = Some br" "pool_bufs (pbufs t) (xs @ [r])"
        using prems q t(2) br by auto
      note link = link_buf_ok [OF q(3) pr(1,2,3,4,5) bq True prems(5) pr(6), folded pbs_def]
      have rec: "pbuf_alloc_tail p r rsize s = pbuf_alloc_tail p q (rsize - 128) (t\<lparr>pbufs := pbs\<rparr>)"
        by (rule pbuf_alloc_tail_step [OF True t(1) [unfolded Some] link(1)])
      have len: "chain_len pbs (xs @ [r, q]) + nat (rsize - 128) = chain_len (pbufs s) (xs @ [r]) + nat rsize"
        using link(5) t(2) True by simp
      have tot: "pb_tot_len (the (pbs p)) = pb_tot_len (the (pbufs s p))"
        using pin pr(4) br t(2) by (auto simp: pbs_def link_buf_def)
      have "nat (rsize - 128) < nat rsize" using True by simp
      then obtain res' s' where "pbuf_alloc_tail p q (rsize - 128) (t\<lparr>pbufs := pbs\<rparr>) = Some (res', s')"
          "alloc_post S (insert q A) ((xs @ [r]) @ [q]) p (chain_len pbs (xs @ [r, q]) + nat (rsize - 128))
             (pb_tot_len (the (pbs p))) res' s'"
        using less.hyps [of "rsize - 128" "t\<lparr>pbufs := pbs\<rparr>" "insert q A" "xs @ [r]" q] link(2,3,4) pr(2) prems(4,5) q(2)
        by auto
      with rec len tot alloc_post_step [OF _ q(1,2) prems(3)] show ?thesis by metis
    qed
  qed
qed

lemma layer_offset_le: "layer_offset l \<le> 56"
  by (cases l) simp_all

lemma pbuf_alloc_pool_ok:
  assumes ok: "bufs_ok S s A" and A: "A \<subseteq> S" and off: "offset \<le> 56"
  shows "\<exists>res s'. pbuf_alloc_pool offset sz s = Some (res, s') \<and>
    (case res of
       None \<Rightarrow> bufs_ok S s' A
     | Some p \<Rightarrow> \<exists>xs. pb_chain s' (Some p) xs \<and> set xs \<inter> A = {} \<and> set xs \<subseteq> S \<and> bufs_ok S s' (A \<union> set xs) \<and>
         pool_bufs (pbufs s') xs \<and> chain_len (pbufs s') xs = unat sz \<and>
         pb_tot_len (the (pbufs s' p)) = sz \<and> pb_ref (the (pbufs s' p)) = 1)"
proof -
  obtain r t where t: "pbuf_pool_alloc s = Some (r, t)" "pbufs t = pbufs s"
      "case r of None \<Rightarrow> bufs_ok S t A | Some q \<Rightarrow> q \<notin> A \<and> q \<in> S \<and> bufs_ok S t (insert q A)"
    using pbuf_pool_alloc_ok [OF ok] by blast
  show ?thesis
  proof (cases r)
    case None
    with t show ?thesis by (simp add: pbuf_alloc_pool_def)
  next
    case (Some p)
    have p: "p \<notin> A" "p \<in> S" "bufs_ok S t (insert p A)" using t(3) Some by simp_all
    obtain b where b: "pbufs t p = Some b" using p(2,3) by (auto simp: bufs_ok_def)
    define len :: u16 where "len = (if unat sz > 128 - offset then of_nat (128 - offset) else sz)"
    have len: "unat len \<le> unat sz" "unat len \<le> 128"
    proof -
      have "unat (of_nat (128 - offset) :: u16) = 128 - offset" by (simp add: unat_of_nat take_bit_eq_mod)
      then show "unat len \<le> unat sz" "unat len \<le> 128" by (auto simp: len_def)
    qed
    let ?f = "\<lambda>b. b\<lparr>pb_next := None, pb_payload := MEM_ALIGN (p + (SIZEOF_STRUCT_PBUF + of_nat offset)),
        pb_tot_len := sz, pb_len := len, pb_flags := PBUF_FLAG_POOL\<rparr>"
    let ?u = "t\<lparr>pbufs := (pbufs t)(p \<mapsto> ?f b)\<rparr>"
    have upd: "upd_pbuf p ?f t = Some ?u" and uok: "bufs_ok S ?u (insert p A)"
      using bufs_ok_upd [OF p(3) _ b, of ?f] by simp_all
    have le: "int (unat sz) - int (unat len) \<le> 65535" using unat_u16_less [of sz] by linarith
    have "\<exists>res s'. pbuf_alloc_tail p p (int (unat sz) - int (unat len)) ?u = Some (res, s') \<and>
        alloc_post S (insert p A) ([] @ [p]) p (chain_len (pbufs ?u) ([] @ [p]) + nat (int (unat sz) - int (unat len)))
          (pb_tot_len (the (pbufs ?u p))) res s'"
      using A p(2) len by (intro pbuf_alloc_tail_ok [OF uok _ _ _ le]) (auto simp: pb_nx_def pool_bufs_def)
    moreover have "chain_len (pbufs ?u) ([] @ [p]) + nat (int (unat sz) - int (unat len)) = unat sz"
    proof -
      have "unat len + nat (int (unat sz) - int (unat len)) = unat sz" using len(1) by linarith
      moreover have "chain_len (pbufs ?u) ([] @ [p]) = unat len" by (simp add: chain_len_def)
      ultimately show ?thesis by (simp only:)
    qed
    moreover have "pb_tot_len (the (pbufs ?u p)) = sz" by simp
    ultimately obtain res s1 where s1: "pbuf_alloc_tail p p (int (unat sz) - int (unat len)) ?u = Some (res, s1)"
        "alloc_post S (insert p A) [p] p (unat sz) sz res s1"
      by (metis append_Nil)
    show ?thesis
    proof (cases res)
      case None
      have "insert p A - {p} = A" using p(1) by simp
      with None s1 t(1) Some upd show ?thesis
        by (simp add: pbuf_alloc_pool_def len_def [symmetric] alloc_post_def)
    next
      case (Some p')
      then obtain ys where ys: "p' = p" "pb_chain s1 (Some p) (p # ys)" "set ys \<inter> insert p A = {}" "set ys \<subseteq> S"
          "bufs_ok S s1 (insert p A \<union> set ys)" "pool_bufs (pbufs s1) (p # ys)" "chain_len (pbufs s1) (p # ys) = unat sz"
          "pb_tot_len (the (pbufs s1 p)) = sz"
        using s1(2) by (auto simp: alloc_post_def)
      obtain c where c: "pbufs s1 p = Some c" using ys(6) by (auto simp: pool_bufs_def)
      let ?v = "s1\<lparr>pbufs := (pbufs s1)(p \<mapsto> c\<lparr>pb_ref := 1\<rparr>)\<rparr>"
      have v: "upd_pbuf p (\<lambda>b. b\<lparr>pb_ref := 1\<rparr>) s1 = Some ?v" "bufs_ok S ?v (insert p A \<union> set ys)"
        using bufs_ok_upd [OF ys(5) _ c, of "\<lambda>b. b\<lparr>pb_ref := 1\<rparr>"] by simp_all
      have "pb_nx (pbufs ?v) = pb_nx (pbufs s1)" using c by (auto simp: pb_nx_def)
      then have "pb_chain ?v (Some p) (p # ys)" using ys(2) by simp
      moreover have "chain_len (pbufs ?v) (p # ys) = unat sz"
        using ys(7) c by (subst chain_len_cong [of _ _ "pbufs s1"]) auto
      moreover have "pool_bufs (pbufs ?v) (p # ys)" using ys(6) c by (auto simp: pool_bufs_def)
      moreover have "A \<union> set (p # ys) = insert p A \<union> set ys" by auto
      moreover have "pb_tot_len (the (pbufs ?v p)) = sz" "pb_ref (the (pbufs ?v p)) = 1" using ys(8) c by simp_all
      moreover have "pbuf_alloc_pool offset sz s = Some (Some p, ?v)"
        using t(1) \<open>r = Some p\<close> upd s1(1) Some ys(1) v(1) by (simp add: pbuf_alloc_pool_def len_def [symmetric])
      ultimately show ?thesis
        using ys(3,4) p v(2) by (intro exI [of _ "Some p"] exI [of _ ?v] conjI)
          (assumption, simp only: option.case, intro exI [of _ "p # ys"] conjI, auto simp del: chain.simps(2))
    qed
  qed
qed

subsection \<open>Releasing pool buffers\<close>

lemma bufs_ok_sub: "bufs_ok S s A \<Longrightarrow> A \<subseteq> S"
  unfolding bufs_ok_def by blast

lemma PBUF_POOL_FREE_ok:
  assumes ok: "bufs_ok S s A" and p: "p \<in> A"
  shows "\<exists>s'. PBUF_POOL_FREE p s = Some s' \<and> bufs_ok S s' (A - {p}) \<and> (\<forall>a. a \<noteq> p \<longrightarrow> pbufs s' a = pbufs s a)"
  using ok
proof (rule bufs_okE)
  fix ps cs fs
  assume *: "pb_chain s (pbuf_pool s) ps" "pb_chain s (pbuf_pool_alloc_cache s) cs"
    "pb_chain s (pbuf_pool_free_cache s) fs" "distinct (ps @ cs @ fs)" "set (ps @ cs @ fs) \<inter> A = {}"
    "set (ps @ cs @ fs) \<union> A = S" "\<And>a. a \<in> S \<Longrightarrow> pbufs s a \<noteq> None" and idle: "pool_idle s"
  obtain t where t: "pool_lock s = Some t" "pbufs t = pbufs s" "pbuf_pool t = pbuf_pool s"
      "pbuf_pool_alloc_cache t = pbuf_pool_alloc_cache s" "pbuf_pool_free_cache t = pbuf_pool_free_cache s"
      "pbuf_pool_free_lock t = 0" "pbuf_pool_alloc_lock t = 0" "sys_sem_signal (pbuf_pool_free_sem t) = pbuf_pool_free_sem s"
    using pool_idle_lock [OF idle] by blast
  obtain b where b: "pbufs s p = Some b" using *(6,7) p by blast
  let ?s = "pool_unlock (t\<lparr>pbufs := (pbufs s)(p \<mapsto> b\<lparr>pb_next := pbuf_pool_free_cache s\<rparr>), pbuf_pool_free_cache := Some p\<rparr>)"
  have "PBUF_POOL_FREE p s = Some ?s" using t b by (simp add: PBUF_POOL_FREE_def upd_pbuf_def)
  moreover have "p \<notin> set (ps @ cs @ fs)" using p *(5) by blast
  then have "bufs_ok S ?s (A - {p})"
    using * t idle p by (intro bufs_okI [of _ ps cs "p # fs"]) (auto simp: pool_idle_def pool_unlock_def)
  ultimately show ?thesis using t(2) by (auto simp: pool_unlock_def)
qed

interpretation bufs: allocator "bufs_ok S" "\<lambda>_ :: unit. pbuf_pool_alloc" PBUF_POOL_FREE for S
proof
  show "\<exists>r s'. pbuf_pool_alloc s = Some (r, s') \<and>
      (case r of None \<Rightarrow> bufs_ok S s' A | Some b \<Rightarrow> b \<notin> A \<and> bufs_ok S s' (insert b A))"
    if "bufs_ok S s A" for s :: "'a pbuf_state_scheme" and A
  proof -
    obtain r s' where "pbuf_pool_alloc s = Some (r, s')"
        "case r of None \<Rightarrow> bufs_ok S s' A | Some p \<Rightarrow> p \<notin> A \<and> p \<in> S \<and> bufs_ok S s' (insert p A)"
      using pbuf_pool_alloc_ok [OF \<open>bufs_ok S s A\<close>] by blast
    then show ?thesis by (cases r) auto
  qed
  show "\<exists>s'. PBUF_POOL_FREE b s = Some s' \<and> bufs_ok S s' (A - {b})"
    if "bufs_ok S s A" "b \<in> A" for s :: "'a pbuf_state_scheme" and A b
    using PBUF_POOL_FREE_ok [OF that] by blast
qed

lemma pbuf_refresh_ok:
  assumes ok: "bufs_ok S s A"
  shows "\<exists>s'. pbuf_refresh s = Some s' \<and> bufs_ok S s' A \<and> pbuf_pool_free_cache s' = None \<and>
    (\<forall>a. a \<in> A \<or> a \<notin> S \<longrightarrow> pbufs s' a = pbufs s a)"
  using ok
proof (rule bufs_okE)
  fix ps cs fs
  assume *: "pb_chain s (pbuf_pool s) ps" "pb_chain s (pbuf_pool_alloc_cache s) cs"
    "pb_chain s (pbuf_pool_free_cache s) fs" "distinct (ps @ cs @ fs)" "set (ps @ cs @ fs) \<inter> A = {}"
    "set (ps @ cs @ fs) \<union> A = S" "\<And>a. a \<in> S \<Longrightarrow> pbufs s a \<noteq> None" and idle: "pool_idle s"
  obtain t where t: "pool_lock s = Some t" "pbufs t = pbufs s" "pbuf_pool t = pbuf_pool s"
      "pbuf_pool_alloc_cache t = pbuf_pool_alloc_cache s" "pbuf_pool_free_cache t = pbuf_pool_free_cache s"
      "pbuf_pool_free_lock t = 0" "pbuf_pool_alloc_lock t = 0" "sys_sem_signal (pbuf_pool_free_sem t) = pbuf_pool_free_sem s"
    using pool_idle_lock [OF idle] by blast
  show ?thesis
  proof (cases "pbuf_pool_free_cache s")
    case None
    have "bufs_ok S (pool_unlock t) A"
      using * t idle by (intro bufs_okI [of _ ps cs fs]) (auto simp: pool_idle_def pool_unlock_def)
    with t None show ?thesis by (auto simp: pbuf_refresh_def pool_unlock_def)
  next
    case (Some c)
    show ?thesis
    proof (cases "pbuf_pool s")
      case nil: None
      then have "ps = []" using *(1) by simp
      let ?s = "pool_unlock (t\<lparr>pbuf_pool := Some c, pbuf_pool_free_cache := None, pbuf_pool_free_lock := 0\<rparr>)"
      have "bufs_ok S ?s A"
        using * t idle Some \<open>ps = []\<close> by (intro bufs_okI [of _ fs cs "[]"]) (auto simp: pool_idle_def pool_unlock_def)
      with t nil Some show ?thesis by (auto simp: pbuf_refresh_def pool_unlock_def)
    next
      case cons: (Some h)
      have last: "last_pbuf (pbufs s) h = Some (last ps)" using *(1) cons by (simp add: last_pbuf_chain)
      have "ps \<noteq> []" using *(1) cons by auto
      then have lp: "last ps \<in> set ps" by simp
      then obtain b where b: "pbufs s (last ps) = Some b" using *(6,7) by fastforce
      let ?pbs = "(pbufs s)(last ps \<mapsto> b\<lparr>pb_next := Some c\<rparr>)"
      let ?s = "pool_unlock (t\<lparr>pbufs := ?pbs, pbuf_pool_free_cache := None, pbuf_pool_free_lock := 0\<rparr>)"
      have out: "last ps \<notin> set cs" "last ps \<notin> set fs" "last ps \<notin> A" "last ps \<in> S" using lp *(4,5,6) by auto
      have "chain ((pb_nx (pbufs s))(last ps := Some (Some c))) (Some h) (ps @ fs)"
        using *(1,3,4) cons Some by (intro chain_join) auto
      then have "bufs_ok S ?s A"
        using * t idle out cons by (intro bufs_okI [of _ "ps @ fs" cs "[]"]) (auto simp: pool_idle_def pool_unlock_def)
      moreover have "pbuf_refresh s = Some ?s"
        using t cons Some last b by (simp add: pbuf_refresh_def upd_pbuf_def)
      ultimately show ?thesis using t(2) out by (auto simp: pool_unlock_def)
    qed
  qed
qed

lemma pbuf_free_loop_ok:
  assumes "bufs_ok S s A" and "pb_chain s p xs" and "set xs \<subseteq> A"
    and "\<And>a b. a \<in> set xs \<Longrightarrow> pbufs s a = Some b \<Longrightarrow> pb_flags b = PBUF_FLAG_POOL"
  shows "\<exists>s'. pbuf_free_loop ram_addr p count s = Some (count + of_nat (length xs), s') \<and> bufs_ok S s' (A - set xs) \<and>
    (\<forall>a. a \<notin> set xs \<longrightarrow> pbufs s' a = pbufs s a)"
  using assms
proof (induction xs arbitrary: s A p count)
  case Nil
  then show ?case by (subst pbuf_free_loop.simps) simp
next
  case (Cons a xs)
  obtain b where b: "p = Some a" "pbufs s a = Some b" "pb_chain s (pb_next b) xs"
    using Cons.prems(2) by (auto simp: chain_pbuf_Cons simp del: chain.simps(2))
  have fl: "pb_flags b = PBUF_FLAG_POOL" and aA: "a \<in> A" using Cons.prems(3,4) b(2) by auto
  let ?f = "\<lambda>b. b\<lparr>pb_tot_len := of_nat PBUF_POOL_BUFSIZE, pb_len := of_nat PBUF_POOL_BUFSIZE, pb_payload := a + SIZEOF_STRUCT_PBUF\<rparr>"
  let ?t = "s\<lparr>pbufs := (pbufs s)(a \<mapsto> ?f b)\<rparr>"
  have t: "upd_pbuf a ?f s = Some ?t" "bufs_ok S ?t A" using bufs_ok_upd [OF Cons.prems(1) _ b(2)] aA by auto
  obtain u where u: "PBUF_POOL_FREE a ?t = Some u" "bufs_ok S u (A - {a})" "\<forall>x. x \<noteq> a \<longrightarrow> pbufs u x = pbufs s x"
    using PBUF_POOL_FREE_ok [OF t(2) aA] by auto
  let ?v = "stat_pbuf (\<lambda>st. st\<lparr>ps_used := ps_used st - 1\<rparr>) u"
  have na: "a \<notin> set xs" using chain_distinct [OF Cons.prems(2)] by simp
  then have ch: "pb_chain ?v (pb_next b) xs" using b(3) u(3) by (subst chain_cong [of _ _ "pb_nx (pbufs s)"]) (auto simp: pb_nx_def)
  have v: "bufs_ok S ?v (A - {a})" "set xs \<subseteq> A - {a}" using u(2) Cons.prems(3) na by auto
  have fl': "pb_flags c = PBUF_FLAG_POOL" if "x \<in> set xs" "pbufs ?v x = Some c" for x c
  proof -
    have "pbufs s x = Some c" using that u(3) na by auto
    then show ?thesis using Cons.prems(4) [of x c] that(1) by simp
  qed
  obtain s' where "pbuf_free_loop ram_addr (pb_next b) (count + 1) ?v = Some (count + 1 + of_nat (length xs), s')"
      "bufs_ok S s' (A - {a} - set xs)" "\<forall>x. x \<notin> set xs \<longrightarrow> pbufs s' x = pbufs ?v x"
    using Cons.IH [where count = "count + 1", OF v(1) ch v(2)] fl' by blast
  moreover have "A - {a} - set xs = A - set (a # xs)" by auto
  ultimately show ?case
    using b(1,2) fl t(1) u by (subst pbuf_free_loop.simps) (simp add: algebra_simps)
qed

lemma pbuf_free_ok:
  assumes ok: "bufs_ok S s A" and ch: "pb_chain s (Some p) xs" and xs: "set xs \<subseteq> A"
    and bufs: "pool_bufs (pbufs s) xs" and ref: "pb_ref (the (pbufs s p)) = 1"
  shows "\<exists>s'. pbuf_free ram_addr (Some p) s = Some (of_nat (length xs), s') \<and> bufs_ok S s' (A - set xs)"
proof -
  have p: "p \<in> set xs" using ch by (cases xs) auto
  then obtain b where b: "pbufs s p = Some b" using bufs by (auto simp: pool_bufs_def)
  let ?t = "s\<lparr>pbufs := (pbufs s)(p \<mapsto> b\<lparr>pb_ref := pb_ref b - 1\<rparr>)\<rparr>"
  have t: "upd_pbuf p (\<lambda>b. b\<lparr>pb_ref := pb_ref b - 1\<rparr>) s = Some ?t" "bufs_ok S ?t A"
    using bufs_ok_upd [OF ok _ b] p xs by auto
  have "pb_nx (pbufs ?t) = pb_nx (pbufs s)" using b by (auto simp: pb_nx_def)
  then have ch': "pb_chain ?t (Some p) xs" using ch by simp
  have fl: "pb_flags c = PBUF_FLAG_POOL" if "a \<in> set xs" "pbufs ?t a = Some c" for a c
    using bufs that b by (auto simp: pool_bufs_def split: if_splits)
  obtain u where u: "pbuf_free_loop ram_addr (Some p) 0 ?t = Some (of_nat (length xs), u)" "bufs_ok S u (A - set xs)"
    using pbuf_free_loop_ok [where count = 0, OF t(2) ch' xs] fl by fastforce
  obtain s' where "pbuf_refresh u = Some s'" "bufs_ok S s' (A - set xs)"
    using pbuf_refresh_ok [OF u(2)] by blast
  with t(1) u(1) ref b show ?thesis by (auto simp: pbuf_free_def)
qed

lemma realloc_step_chain:
  assumes "chain (pb_nx pbs) (Some q) xs" and "unat rsize < chain_len pbs xs"
  shows "\<exists>us x vs r. xs = us @ x # vs \<and> realloc_step pbs rsize q = Some (r, x) \<and> unat r \<le> plen pbs x \<and>
    chain_len pbs us + unat r = unat rsize"
  using assms
proof (induction xs arbitrary: q rsize)
  case (Cons a xs)
  obtain b where b: "q = a" "pbs a = Some b" "chain (pb_nx pbs) (pb_next b) xs"
    using Cons.prems(1) by (auto simp: chain_pbuf_Cons simp del: chain.simps(2))
  show ?case
  proof (cases "rsize > pb_len b")
    case False
    then have "realloc_step pbs rsize q = Some (rsize, a)" using b by (subst realloc_step.simps) simp
    moreover have "unat rsize \<le> plen pbs a" using False b(2) by (simp add: word_less_unat)
    ultimately show ?thesis by (intro exI [of _ "[]"] exI [of _ a] exI [of _ xs]) (auto simp: chain_len_def)
  next
    case True
    then have lt: "unat (pb_len b) < unat rsize" by (simp add: word_less_unat)
    then have sub: "unat (rsize - pb_len b) = unat rsize - unat (pb_len b)" by (simp add: unat_sub_le)
    have "xs \<noteq> []" using Cons.prems(2) lt b(2) by (auto simp: chain_len_def)
    then obtain q' where q': "pb_next b = Some q'" using b(3) by (cases xs) auto
    have "unat (rsize - pb_len b) < chain_len pbs xs" using Cons.prems(2) sub b(2) lt by (simp add: chain_len_def)
    from Cons.IH [OF b(3) [unfolded q'] this] obtain us x vs r where
      "xs = us @ x # vs" "realloc_step pbs (rsize - pb_len b) q' = Some (r, x)" "unat r \<le> plen pbs x"
      "chain_len pbs us + unat r = unat rsize - unat (pb_len b)" using sub by auto
    with b True q' lt show ?thesis
      by (intro exI [of _ "a # us"] exI [of _ x] exI [of _ vs] exI [of _ r])
        (simp add: realloc_step.simps [of pbs rsize a] chain_len_def)
  qed
qed simp

lemma realloc_pool_free_ok:
  assumes "bufs_ok S s A" and "pb_chain s q xs" and "set xs \<subseteq> A"
  shows "\<exists>s'. realloc_pool_free q s = Some s' \<and> bufs_ok S s' (A - set xs) \<and> (\<forall>a. a \<notin> set xs \<longrightarrow> pbufs s' a = pbufs s a)"
  using assms
proof (induction xs arbitrary: s A q)
  case Nil
  then show ?case by (subst realloc_pool_free.simps) simp
next
  case (Cons a xs)
  obtain b where b: "q = Some a" "pbufs s a = Some b" "pb_chain s (pb_next b) xs"
    using Cons.prems(2) by (auto simp: chain_pbuf_Cons simp del: chain.simps(2))
  have aA: "a \<in> A" and na: "a \<notin> set xs" using Cons.prems(3) chain_distinct [OF Cons.prems(2)] by auto
  obtain u where u: "PBUF_POOL_FREE a s = Some u" "bufs_ok S u (A - {a})" "\<forall>x. x \<noteq> a \<longrightarrow> pbufs u x = pbufs s x"
    using PBUF_POOL_FREE_ok [OF Cons.prems(1) aA] by auto
  let ?v = "stat_pbuf (\<lambda>st. st\<lparr>ps_used := ps_used st - 1\<rparr>) u"
  have "pb_chain ?v (pb_next b) xs" using b(3) u(3) na
    by (subst chain_cong [of _ _ "pb_nx (pbufs s)"]) (auto simp: pb_nx_def)
  then obtain s' where "realloc_pool_free (pb_next b) ?v = Some s'" "bufs_ok S s' (A - {a} - set xs)"
      "\<forall>x. x \<notin> set xs \<longrightarrow> pbufs s' x = pbufs ?v x"
    using Cons.IH [of ?v "A - {a}" "pb_next b"] u(2) Cons.prems(3) na by auto
  moreover have "A - {a} - set xs = A - set (a # xs)" by auto
  ultimately show ?case using b(1,2) u by (subst realloc_pool_free.simps) simp
qed

lemma pbuf_realloc_pool_ok:
  assumes ok: "bufs_ok S s A" and ch: "pb_chain s (Some p) xs" and xs: "set xs \<subseteq> A"
    and bufs: "pool_bufs (pbufs s) xs" and tot: "chain_len (pbufs s) xs = unat (pb_tot_len (the (pbufs s p)))"
    and sz: "sz < pb_tot_len (the (pbufs s p))"
  shows "\<exists>s' ys zs. pbuf_realloc ram_addr p sz s = Some s' \<and> xs = ys @ zs \<and> pb_chain s' (Some p) ys \<and>
    chain_len (pbufs s') ys = unat sz \<and> pb_tot_len (the (pbufs s' p)) = sz \<and> bufs_ok S s' (A - set zs)"
proof -
  have p: "p \<in> set xs" using ch by (cases xs) auto
  then obtain b where b: "pbufs s p = Some b" "pb_flags b = PBUF_FLAG_POOL" using bufs by (auto simp: pool_bufs_def)
  have "unat sz < chain_len (pbufs s) xs" using sz tot by (simp add: word_less_unat)
  from realloc_step_chain [OF ch this] obtain us x vs r where step: "xs = us @ x # vs"
      "realloc_step (pbufs s) sz p = Some (r, x)" "unat r \<le> plen (pbufs s) x" "chain_len (pbufs s) us + unat r = unat sz"
    by blast
  have dist: "distinct xs" using chain_distinct [OF ch] .
  obtain c where c: "pbufs s x = Some c" using bufs step(1) by (auto simp: pool_bufs_def)
  have vs: "pb_chain s (pb_next c) vs" using chain_split [of "pb_nx (pbufs s)" "Some p" us x vs] ch step(1) c
    by (simp add: chain_pbuf_Cons del: chain.simps(2))
  let ?f = "\<lambda>b. b\<lparr>pb_len := r, pb_next := None\<rparr>"
  let ?t = "s\<lparr>pbufs := (pbufs s)(x \<mapsto> ?f c)\<rparr>"
  have t: "upd_pbuf x ?f s = Some ?t" "bufs_ok S ?t A" using bufs_ok_upd [OF ok _ c, of ?f] step(1) xs by auto
  have xv: "x \<notin> set vs" "x \<notin> set us" using dist step(1) by auto
  have "pb_chain ?t (pb_next c) vs" using vs xv by simp
  then obtain u where u: "realloc_pool_free (pb_next c) ?t = Some u" "bufs_ok S u (A - set vs)"
      "\<forall>a. a \<notin> set vs \<longrightarrow> pbufs u a = pbufs ?t a"
    using realloc_pool_free_ok [OF t(2), of "pb_next c" vs] xs step(1) by auto
  have ys: "a \<notin> set vs" if "a \<in> set (us @ [x])" for a using that dist step(1) by auto
  have pin: "p \<in> set (us @ [x])" using ch step(1) by (cases us) auto
  then have "pbufs u p \<noteq> None" using u(3) ys [OF pin] b(1) by simp
  then obtain d where d: "pbufs u p = Some d" by blast
  let ?v = "u\<lparr>pbufs := (pbufs u)(p \<mapsto> d\<lparr>pb_tot_len := sz\<rparr>)\<rparr>"
  have v: "upd_pbuf p (\<lambda>b. b\<lparr>pb_tot_len := sz\<rparr>) u = Some ?v" "bufs_ok S ?v (A - set vs)"
    using bufs_ok_upd [OF u(2) _ d, of "\<lambda>b. b\<lparr>pb_tot_len := sz\<rparr>"] pin ys xs step(1) by auto
  obtain s' where s': "pbuf_refresh ?v = Some s'" "bufs_ok S s' (A - set vs)"
      "\<forall>a. a \<in> A - set vs \<or> a \<notin> S \<longrightarrow> pbufs s' a = pbufs ?v a"
    using pbuf_refresh_ok [OF v(2)] by blast
  have fin: "pbufs s' a = pbufs ?v a" if "a \<in> set (us @ [x])" for a
    using that s'(3) ys xs step(1) by auto
  have nxeq: "pb_nx (pbufs s') a = ((pb_nx (pbufs s))(x := Some None)) a" if "a \<in> set (us @ [x])" for a
    using fin [OF that] u(3) ys [OF that] d by (auto simp: pb_nx_def)
  have "chain ((pb_nx (pbufs s))(x := Some None)) (Some p) (us @ [x])"
    using chain_cut [of "pb_nx (pbufs s)" "Some p" us x vs] ch step(1) by simp
  then have "pb_chain s' (Some p) (us @ [x])" using chain_cong [of "us @ [x]"] nxeq by metis
  moreover have "chain_len (pbufs s') (us @ [x]) = unat sz"
  proof -
    have "plen (pbufs s') a = plen (pbufs s) a" if "a \<in> set us" for a
      using fin [of a] u(3) ys [of a] that d xv by (auto split: if_splits)
    then have "chain_len (pbufs s') us = chain_len (pbufs s) us" by (rule chain_len_cong)
    moreover have "plen (pbufs s') x = unat r" using fin [of x] u(3) ys [of x] d by auto
    ultimately show ?thesis using step(4) by (simp add: chain_len_def)
  qed
  moreover have "pb_tot_len (the (pbufs s' p)) = sz" using fin [OF pin] by simp
  moreover have "pbuf_realloc ram_addr p sz s = Some s'"
    using b sz step(2) c t(1) u(1) v(1) s'(1) by (simp add: pbuf_realloc_def not_le)
  ultimately show ?thesis using step(1) s'(2) by (intro exI [of _ s'] exI [of _ "us @ [x]"] exI [of _ vs]) simp
qed

subsection \<open>Initialisation\<close>

definition pool_addrs :: "u32 \<Rightarrow> u32 list" where
  "pool_addrs pool = [pool, pool + 144, pool + 288, pool + 432, pool + 576, pool + 720]"

lemma distinct_pool_addrs: "distinct (pool_addrs pool)"
  by (simp add: pool_addrs_def)

lemma pbuf_init_ok:
  assumes "pbuf_pool_alloc_cache s = None" and "pbuf_pool_free_cache s = None"
  shows "\<exists>s'. pbuf_init pool s = Some s' \<and> bufs_ok (set (pool_addrs pool)) s' {}"
proof -
  define pbs where "pbs = snd (pbuf_init_loop PBUF_POOL_SIZE pool pool (pbufs s))"
  have l: "pbuf_init_loop PBUF_POOL_SIZE pool pool (pbufs s) = (pool + 720, pbs)"
    by (simp add: pbs_def eval_nat_numeral Let_def)
  have some: "pbs a \<noteq> None" if "a \<in> set (pool_addrs pool)" for a
    using that by (auto simp: pbs_def pool_addrs_def eval_nat_numeral Let_def)
  have nx: "map (pb_nx pbs) (pool_addrs pool) = map Some [Some (pool + 144), Some (pool + 288), Some (pool + 432),
      Some (pool + 576), Some (pool + 720), Some (pool + 864)]"
    by (simp add: pbs_def pool_addrs_def pb_nx_def eval_nat_numeral Let_def)
  obtain b where b: "pbs (pool + 720) = Some b" using some [of "pool + 720"] by (auto simp: pool_addrs_def)
  let ?pbs = "pbs(pool + 720 \<mapsto> b\<lparr>pb_next := None\<rparr>)"
  have ch: "chain (pb_nx ?pbs) (Some pool) (pool_addrs pool)"
    using nx by (simp add: pool_addrs_def)
  let ?s = "stat_pbuf (\<lambda>st. st\<lparr>ps_avail := of_nat PBUF_POOL_SIZE\<rparr>) (s\<lparr>pbuf_pool := Some pool\<rparr>)"
  let ?t = "?s\<lparr>pbufs := ?pbs, pbuf_pool_alloc_lock := 0, pbuf_pool_free_lock := 0, pbuf_pool_free_sem := sys_sem_new0 1\<rparr>"
  have "pbuf_init pool s = Some ?t"
    using l b by (simp add: pbuf_init_def upd_pbuf_def)
  moreover have "bufs_ok (set (pool_addrs pool)) ?t {}"
    using ch some assms distinct_pool_addrs [of pool]
    by (intro bufs_okI [of _ "pool_addrs pool" "[]" "[]"]) (auto simp: pool_idle_def stat_pbuf_def sys_sem_new0_def)
  ultimately show ?thesis by blast
qed

definition pbuf_zero :: pbuf_state where
  "pbuf_zero = memp_state.extend memp_zero \<lparr>pbufs = Map.empty, pbuf_pool = None, pbuf_pool_alloc_cache = None,
     pbuf_pool_free_cache = None, pbuf_pool_free_lock = 0, pbuf_pool_alloc_lock = 0, pbuf_pool_free_sem = \<lparr>sem_c = 0\<rparr>,
     pbuf_stats = \<lparr>ps_avail = 0, ps_used = 0, ps_max = 0, ps_err = 0, ps_alloc_locked = 0, ps_refresh_locked = 0\<rparr>\<rparr>"

lemma pbuf_example: "\<exists>s. pbuf_init 0x9000 pbuf_zero = Some s \<and> bufs_ok (set (pool_addrs 0x9000)) s {}"
  by (rule pbuf_init_ok) (simp_all add: pbuf_zero_def memp_state.defs)

subsection \<open>Chaining\<close>

lemma pbuf_chain_ok:
  assumes "pb_chain s (Some h) xs" and "pb_chain s (Some t) ys" and "set xs \<inter> set ys = {}"
  shows "\<exists>s'. pbuf_chain h t s = Some s' \<and> pb_chain s' (Some h) (xs @ ys) \<and>
    pb_tot_len (the (pbufs s' h)) = pb_tot_len (the (pbufs s h)) + pb_tot_len (the (pbufs s t)) \<and>
    (\<forall>a. plen (pbufs s') a = plen (pbufs s) a)"
proof -
  have xs: "xs \<noteq> []" "h \<in> set xs" and t: "t \<in> set ys" using assms(1,2) by (auto simp: chain_Some)
  let ?l = "last xs"
  have last: "last_pbuf (pbufs s) h = Some ?l" using assms(1) by (rule last_pbuf_chain)
  obtain bl where bl: "pbufs s ?l = Some bl" using chain_alloc [OF assms(1), of ?l] xs(1) by (auto simp: pb_nx_def)
  obtain bh where bh: "pbufs s h = Some bh" using chain_alloc [OF assms(1) xs(2)] by (auto simp: pb_nx_def)
  obtain bt where bt: "pbufs s t = Some bt" using chain_alloc [OF assms(2) t] by (auto simp: pb_nx_def)
  have tl: "t \<noteq> ?l" using t xs(1) assms(3) by (metis disjoint_iff last_in_set)
  let ?p1 = "(pbufs s)(?l \<mapsto> bl\<lparr>pb_next := Some t\<rparr>)"
  obtain ch where ch: "?p1 h = Some ch" "pb_tot_len ch = pb_tot_len bh" "pb_len ch = pb_len bh"
    using bh bl by (cases "h = ?l") auto
  let ?p2 = "?p1(h \<mapsto> ch\<lparr>pb_tot_len := pb_tot_len ch + pb_tot_len bt\<rparr>)"
  have "pbuf_chain h t s = Some (s\<lparr>pbufs := ?p2\<rparr>)"
    using last bl bt tl ch(1) by (auto simp: pbuf_chain_def upd_pbuf_def)
  moreover have "pb_nx ?p2 = (pb_nx (pbufs s))(?l := Some (Some t))"
    using ch(1) bl by (auto simp: pb_nx_def fun_eq_iff)
  then have "chain (pb_nx ?p2) (Some h) (xs @ ys)"
    using chain_join [OF assms] by simp
  moreover have "plen ?p2 a = plen (pbufs s) a" for a
    using ch bh bl by auto
  ultimately show ?thesis using ch bh bt by (intro exI [of _ "s\<lparr>pbufs := ?p2\<rparr>"]) auto
qed

text \<open>Nothing brings a released pbuf back.\<close>

lemma pbufs_pool_lock: "pool_lock s = Some s' \<Longrightarrow> pbufs s' = pbufs s"
  by (auto simp: pool_lock_def split: option.splits)

lemma upd_pbuf_None: "upd_pbuf a f s = Some s' \<Longrightarrow> pbufs s r = None \<Longrightarrow> pbufs s' r = None"
  by (auto simp: upd_pbuf_def split: option.splits if_splits)

lemma pbuf_refresh_None:
  assumes "pbuf_refresh s = Some s'" and "pbufs s r = None"
  shows "pbufs s' r = None"
proof -
  obtain t where t: "pool_lock s = Some t" using assms(1) by (cases "pool_lock s") (auto simp: pbuf_refresh_def)
  then have tr: "pbufs t r = None" using assms(2) pbufs_pool_lock by metis
  show ?thesis
  proof (cases "pbuf_pool_free_cache t")
    case None
    with assms(1) t tr show ?thesis by (auto simp: pbuf_refresh_def pool_unlock_def)
  next
    case (Some c)
    show ?thesis
    proof (cases "pbuf_pool_alloc_lock t = 0")
      case lock: True
      show ?thesis
      proof (cases "pbuf_pool t")
        case None
        with assms(1) t tr Some lock show ?thesis by (auto simp: pbuf_refresh_def pool_unlock_def)
      next
        case pool: (Some h)
        with assms(1) t Some lock obtain q u where
          "upd_pbuf q (\<lambda>b. b\<lparr>pb_next := Some c\<rparr>) (t\<lparr>pbuf_pool_free_lock := pbuf_pool_free_lock t + 1\<rparr>) = Some u"
          "pbufs s' = pbufs u"
          by (auto simp: pbuf_refresh_def pool_unlock_def bind_eq_Some_conv)
        with tr upd_pbuf_None [of q _ _ u r] show ?thesis by simp
      qed
    next
      case False
      with assms(1) t tr Some show ?thesis by (auto simp: pbuf_refresh_def pool_unlock_def stat_pbuf_def)
    qed
  qed
qed

lemma pbufs_memp_freep: "memp_freep t m s = Some s' \<Longrightarrow> pbufs s' = pbufs s"
  by (auto simp: memp_freep_def memp_lock_def memp_unlock_def memp_free_def memp_stat_upd_def Let_def
      bind_eq_Some_conv split: option.splits)

lemma pbufs_plug_holes [simp]: "pbufs (plug_holes m s) = pbufs s"
  by (simp add: plug_holes_def plug_forward_def plug_backward_def Let_def)

lemma pbufs_mem_realloc:
  assumes "mem_realloc rm n s = Some (m, s')"
  shows "pbufs s' = pbufs s"
proof -
  obtain t where t: "mem_lock s = Some t" using assms by (cases "mem_lock s") (auto simp: mem_realloc_def)
  then have "pbufs t = pbufs s" by (auto simp: mem_lock_def split: option.splits)
  then show ?thesis
    using assms t by (auto simp: mem_realloc_def mem_unlock_def Let_def split: if_splits)
qed

text \<open>Releasing a chain of two pbufs of \<open>MEMP_PBUF\<close> makes both addresses invalid.\<close>

lemma pbuf_free_rom_pair:
  assumes q: "pbufs s q = Some bq" "pb_flags bq = PBUF_FLAG_ROM" "pb_ref bq = 1" "pb_next bq = Some r"
    and r: "pbufs s r = Some br" "pb_flags br = PBUF_FLAG_ROM" "pb_next br = None" and ne: "q \<noteq> r"
    and free: "pbuf_free ram_addr (Some q) s = Some (c, s')"
  shows "pbufs s' r = None"
proof -
  let ?s = "s\<lparr>pbufs := (pbufs s)(q \<mapsto> bq\<lparr>pb_ref := 0\<rparr>)\<rparr>"
  obtain u where u: "pbuf_free_loop ram_addr (Some q) 0 ?s = Some (c, u)" "pbuf_refresh u = Some s'"
    using free q by (auto simp: pbuf_free_def upd_pbuf_def bind_eq_Some_conv)
  obtain s1 where s1: "memp_freep MEMP_PBUF (Some q) ?s = Some s1"
      "pbuf_free_loop ram_addr (Some r) 1 (s1\<lparr>pbufs := (pbufs s1)(q := None)\<rparr>) = Some (c, u)"
    using u(1) q by (subst (asm) pbuf_free_loop.simps) (auto simp: bind_eq_Some_conv)
  have p1: "pbufs s1 = (pbufs s)(q \<mapsto> bq\<lparr>pb_ref := 0\<rparr>)" using pbufs_memp_freep [OF s1(1)] by simp
  obtain s2 where s2: "memp_freep MEMP_PBUF (Some r) (s1\<lparr>pbufs := (pbufs s1)(q := None)\<rparr>) = Some s2"
      "pbuf_free_loop ram_addr None 2 (s2\<lparr>pbufs := (pbufs s2)(r := None)\<rparr>) = Some (c, u)"
    using s1(2) r ne p1 by (subst (asm) pbuf_free_loop.simps) (auto simp: bind_eq_Some_conv)
  have "pbufs u r = None" using s2(2) by (subst (asm) pbuf_free_loop.simps) auto
  then show ?thesis by (rule pbuf_refresh_None [OF u(2)])
qed

subsection \<open>Properties\<close>

text \<open>
  C19: \<open>pbuf_alloc\<close> from the pool terminates; it either fails and leaves every buffer it took free
  again, or returns a chain of so far unused pool buffers whose lengths are at most the buffer
  size and add up to the requested size, with that size as the total length. No buffer of the
  pool is lost or in two places.
\<close>

theorem pbuf_alloc_pool_chain:
  assumes "bufs_ok S s A"
  shows "\<exists>res s'. pbuf_alloc ram_addr l sz PBUF_POOL s = Some (res, s') \<and>
    (case res of
       None \<Rightarrow> bufs_ok S s' A
     | Some p \<Rightarrow> \<exists>xs. pb_chain s' (Some p) xs \<and> set xs \<inter> A = {} \<and> bufs_ok S s' (A \<union> set xs) \<and>
         pool_bufs (pbufs s') xs \<and> chain_len (pbufs s') xs = unat sz \<and>
         pb_tot_len (the (pbufs s' p)) = sz \<and> pb_ref (the (pbufs s' p)) = 1)"
proof -
  obtain res s' where *: "pbuf_alloc_pool (layer_offset l) sz s = Some (res, s')"
      "case res of
         None \<Rightarrow> bufs_ok S s' A
       | Some p \<Rightarrow> \<exists>xs. pb_chain s' (Some p) xs \<and> set xs \<inter> A = {} \<and> set xs \<subseteq> S \<and> bufs_ok S s' (A \<union> set xs) \<and>
           pool_bufs (pbufs s') xs \<and> chain_len (pbufs s') xs = unat sz \<and>
           pb_tot_len (the (pbufs s' p)) = sz \<and> pb_ref (the (pbufs s' p)) = 1"
    using pbuf_alloc_pool_ok [OF assms bufs_ok_sub [OF assms] layer_offset_le] by blast
  then show ?thesis by (cases res) (auto simp: pbuf_alloc_def)
qed

theorem pbuf_alloc_pool_chain_witness:
  "\<exists>s res s'. pbuf_init 0x9000 pbuf_zero = Some s \<and> pbuf_alloc 0 PBUF_IP 300 PBUF_POOL s = Some (res, s')"
proof -
  obtain s where s: "pbuf_init 0x9000 pbuf_zero = Some s" "bufs_ok (set (pool_addrs 0x9000)) s {}"
    using pbuf_example by blast
  from pbuf_alloc_pool_chain [OF s(2), of 0 PBUF_IP 300] s(1) show ?thesis by blast
qed

text \<open>
  C18: \<open>pbuf_free\<close> of a chain of pool buffers with one reference returns the number of buffers and
  gives exactly the buffers of the chain back to the pool.
\<close>

theorem pbuf_free_returns_chain:
  assumes "bufs_ok S s A" and "pb_chain s (Some p) xs" and "set xs \<subseteq> A" and "pool_bufs (pbufs s) xs"
    and "pb_ref (the (pbufs s p)) = 1"
  shows "\<exists>s'. pbuf_free ram_addr (Some p) s = Some (of_nat (length xs), s') \<and> bufs_ok S s' (A - set xs)"
  using assms by (rule pbuf_free_ok)

lemma pbuf_example_chain:
  "\<exists>s p xs. bufs_ok (set (pool_addrs 0x9000)) s (set xs) \<and> pb_chain s (Some p) xs \<and> pool_bufs (pbufs s) xs \<and>
     chain_len (pbufs s) xs = 100 \<and> pb_tot_len (the (pbufs s p)) = 100 \<and> pb_ref (the (pbufs (s :: pbuf_state) p)) = 1"
proof -
  obtain s where s: "pbuf_init 0x9000 pbuf_zero = Some s" "bufs_ok (set (pool_addrs 0x9000)) s {}"
    using pbuf_example by blast
  from s(2) show ?thesis
  proof (rule bufs_okE)
    fix ps cs fs
    assume *: "pb_chain s (pbuf_pool s) ps" "pb_chain s (pbuf_pool_alloc_cache s) cs"
      "pb_chain s (pbuf_pool_free_cache s) fs" "distinct (ps @ cs @ fs)" "set (ps @ cs @ fs) \<inter> {} = {}"
      "set (ps @ cs @ fs) \<union> {} = set (pool_addrs 0x9000)" "\<And>a. a \<in> set (pool_addrs 0x9000) \<Longrightarrow> pbufs s a \<noteq> None" "pool_idle s"
    have "pbuf_pool s = Some 0x9000" "pbuf_pool_alloc_cache s = None" "pbuf_pool_free_lock s = 0"
      using s(1) by (auto simp: pbuf_init_def upd_pbuf_def bind_eq_Some_conv pbuf_zero_def memp_state.defs stat_pbuf_def Let_def
          split: option.splits prod.splits)
    moreover have "pbufs s 0x9000 \<noteq> None" using *(7) by (simp add: pool_addrs_def)
    ultimately have "\<exists>p s'. pbuf_pool_alloc s = Some (Some p, s')"
      by (auto simp: pbuf_pool_alloc_def pbuf_count_alloc_def)
    then obtain p0 s0 where p0: "pbuf_pool_alloc s = Some (Some p0, s0)" by blast
    obtain res s' where r: "pbuf_alloc_pool 0 100 s = Some (res, s')"
        "case res of
           None \<Rightarrow> bufs_ok (set (pool_addrs 0x9000)) s' {}
         | Some p \<Rightarrow> \<exists>xs. pb_chain s' (Some p) xs \<and> set xs \<inter> {} = {} \<and> set xs \<subseteq> set (pool_addrs 0x9000) \<and>
             bufs_ok (set (pool_addrs 0x9000)) s' ({} \<union> set xs) \<and>
             pool_bufs (pbufs s') xs \<and> chain_len (pbufs s') xs = unat (100 :: u16) \<and>
             pb_tot_len (the (pbufs s' p)) = 100 \<and> pb_ref (the (pbufs s' p)) = 1"
      using pbuf_alloc_pool_ok [OF s(2), of 0 100] by auto
    have "res \<noteq> None"
      using r(1) p0 by (auto simp: pbuf_alloc_pool_def bind_eq_Some_conv pbuf_alloc_tail.simps split: option.splits if_splits)
    then obtain y where y: "res = Some y" by blast
    obtain xs where "pb_chain s' (Some y) xs" "bufs_ok (set (pool_addrs 0x9000)) s' (set xs)" "pool_bufs (pbufs s') xs"
        "chain_len (pbufs s') xs = 100" "pb_tot_len (the (pbufs s' y)) = 100" "pb_ref (the (pbufs s' y)) = 1"
      using r(2) y by auto
    then show ?thesis by blast
  qed
qed

theorem pbuf_free_returns_chain_witness:
  "\<exists>(s :: pbuf_state) p xs s'. pb_chain s (Some p) xs \<and> pbuf_free 0 (Some p) s = Some (of_nat (length xs), s') \<and>
     bufs_ok (set (pool_addrs 0x9000)) s' (set xs - set xs)"
proof -
  obtain s :: pbuf_state and p xs where s: "bufs_ok (set (pool_addrs 0x9000)) s (set xs)" "pb_chain s (Some p) xs"
      "pool_bufs (pbufs s) xs" "pb_ref (the (pbufs s p)) = 1"
    using pbuf_example_chain by blast
  from pbuf_free_returns_chain [OF s(1,2) subset_refl s(3,4), of 0] s(2) show ?thesis by blast
qed

text \<open>
  \<open>pbuf_realloc\<close> to a smaller size of a chain of pool buffers keeps a prefix of the chain whose
  lengths add up to the new size, stores it as the total length, and gives the rest back.
\<close>

theorem pbuf_realloc_shrinks_pool_chain:
  assumes "bufs_ok S s A" and "pb_chain s (Some p) xs" and "set xs \<subseteq> A" and "pool_bufs (pbufs s) xs"
    and "chain_len (pbufs s) xs = unat (pb_tot_len (the (pbufs s p)))" and "sz < pb_tot_len (the (pbufs s p))"
  shows "\<exists>s' ys zs. pbuf_realloc ram_addr p sz s = Some s' \<and> xs = ys @ zs \<and> pb_chain s' (Some p) ys \<and>
    chain_len (pbufs s') ys = unat sz \<and> pb_tot_len (the (pbufs s' p)) = sz \<and> bufs_ok S s' (A - set zs)"
  using assms by (rule pbuf_realloc_pool_ok)

theorem pbuf_realloc_shrinks_pool_chain_witness:
  "\<exists>(s :: pbuf_state) p s'. pbuf_realloc 0 p 60 s = Some s' \<and> pb_tot_len (the (pbufs s' p)) = 60"
proof -
  obtain s :: pbuf_state and p xs where s: "bufs_ok (set (pool_addrs 0x9000)) s (set xs)" "pb_chain s (Some p) xs"
      "pool_bufs (pbufs s) xs" "chain_len (pbufs s) xs = 100" "pb_tot_len (the (pbufs s p)) = 100"
    using pbuf_example_chain by blast
  with pbuf_realloc_shrinks_pool_chain [OF s(1,2) subset_refl s(3), of 60 0] show ?thesis by auto
qed

text \<open>
  \<open>pbuf_chain\<close> appends one chain to another and adds up the total lengths, without changing
  the length of any pbuf.
\<close>

theorem pbuf_chain_concatenates:
  assumes "pb_chain s (Some h) xs" and "pb_chain s (Some t) ys" and "set xs \<inter> set ys = {}"
  shows "\<exists>s'. pbuf_chain h t s = Some s' \<and> pb_chain s' (Some h) (xs @ ys) \<and>
    pb_tot_len (the (pbufs s' h)) = pb_tot_len (the (pbufs s h)) + pb_tot_len (the (pbufs s t)) \<and>
    chain_len (pbufs s') (xs @ ys) = chain_len (pbufs s) xs + chain_len (pbufs s) ys"
proof -
  obtain s' where s': "pbuf_chain h t s = Some s'" "pb_chain s' (Some h) (xs @ ys)"
      "pb_tot_len (the (pbufs s' h)) = pb_tot_len (the (pbufs s h)) + pb_tot_len (the (pbufs s t))"
      "\<forall>a. plen (pbufs s') a = plen (pbufs s) a"
    using pbuf_chain_ok [OF assms] by blast
  have "chain_len (pbufs s') zs = chain_len (pbufs s) zs" for zs
    using s'(4) by (intro chain_len_cong) simp
  with s' show ?thesis by auto
qed

text \<open>A RAM pbuf followed by two ROM pbufs, as the TCP output code builds them.\<close>

definition rom_pbuf :: "u32 option \<Rightarrow> u16 \<Rightarrow> pbuf" where
  "rom_pbuf n len = \<lparr>pb_next = n, pb_flags = PBUF_FLAG_ROM, pb_ref = 1, pb_payload = 0, pb_tot_len = len, pb_len = len\<rparr>"

definition example_chain :: pbuf_state where
  "example_chain = pbuf_zero\<lparr>pbufs := [
     16 \<mapsto> \<lparr>pb_next = Some 32, pb_flags = PBUF_FLAG_RAM, pb_ref = 1, pb_payload = 40, pb_tot_len = 60, pb_len = 20\<rparr>,
     32 \<mapsto> rom_pbuf (Some 48) 20, 48 \<mapsto> rom_pbuf None 20]\<rparr>"

theorem pbuf_chain_concatenates_witness:
  "\<exists>s'. pbuf_chain 16 48 (example_chain\<lparr>pbufs := (pbufs example_chain)(32 \<mapsto> rom_pbuf None 20)\<rparr>) = Some s' \<and>
     pb_chain s' (Some 16) [16, 32, 48] \<and> pb_tot_len (the (pbufs s' 16)) = 80"
proof -
  let ?s = "example_chain\<lparr>pbufs := (pbufs example_chain)(32 \<mapsto> rom_pbuf None 20)\<rparr>"
  have "pb_chain ?s (Some 16) [16, 32]" "pb_chain ?s (Some 48) [48]"
    by (simp_all add: example_chain_def rom_pbuf_def pb_nx_def)
  moreover have "set [16, 32 :: u32] \<inter> set [48] = {}" by simp
  ultimately obtain s' where s': "pbuf_chain 16 48 ?s = Some s'" "pb_chain s' (Some 16) ([16, 32] @ [48])"
      "pb_tot_len (the (pbufs s' 16)) = pb_tot_len (the (pbufs ?s 16)) + pb_tot_len (the (pbufs ?s 48))"
    using pbuf_chain_concatenates [of ?s 16 "[16, 32]" 48 "[48]"] by blast
  moreover have "pb_tot_len (the (pbufs ?s 16)) + pb_tot_len (the (pbufs ?s 48)) = 80"
    by (simp add: example_chain_def rom_pbuf_def)
  moreover have "pb_chain s' (Some 16) [16, 32, 48]" using s'(2) by (simp only: append.simps)
  ultimately show ?thesis by (intro exI [of _ s'] conjI) (simp_all only:)
qed

lemma scast_uminus: "n \<noteq> 0x8000 \<Longrightarrow> (scast (- n :: u16) :: u32) = - scast n"
proof -
  assume "n \<noteq> 0x8000"
  moreover have "sint (0x8000 :: u16) = - 32768" by simp
  ultimately have ne: "sint n \<noteq> - 32768" by (metis signed_word_eqI)
  have "- 32768 \<le> sint n" "sint n < 32768" using sint_greater_eq [of n] sint_less [of n] by simp_all
  with ne have "signed_take_bit 15 (- sint n) = - sint n"
    by (intro signed_take_bit_int_eq_self) simp_all
  then have "sint (- n) = - sint n" by (simp add: sint_word_ariths)
  then show "(scast (- n) :: u32) = - scast n" by (simp only: scast_eq of_int_minus)
qed

text \<open>
  \<open>pbuf_header\<close> never moves the payload into the pbuf structure itself: a request that would is
  refused and changes nothing; otherwise payload and lengths move together, and moving back by
  the same amount restores the pbuf.
\<close>

theorem pbuf_header_guarded_roundtrip:
  assumes "pbufs s p = Some b" and "pbuf_header p n s = Some (r, s')"
  shows "(r = 0 \<and> (\<exists>b'. pbufs s' p = Some b' \<and> p + 16 \<le> pb_payload b' \<and>
            pb_payload b' + scast n = pb_payload b \<and> pb_len b' = pb_len b + n \<and> pb_tot_len b' = pb_tot_len b + n) \<and>
          (p + 16 \<le> pb_payload b \<longrightarrow> n \<noteq> 0x8000 \<longrightarrow>
             (\<exists>s''. pbuf_header p (- n) s' = Some (0, s'') \<and> pbufs s'' = pbufs s)))
    \<or> (r = -1 \<and> s' = s \<and> pb_payload b - scast n < p + 16)"
proof (cases "pb_payload b - scast n < p + 16")
  case True
  with assms show ?thesis by (simp add: pbuf_header_def)
next
  case False
  let ?b = "b\<lparr>pb_payload := pb_payload b - scast n, pb_len := pb_len b + n, pb_tot_len := pb_tot_len b + n\<rparr>"
  have s': "r = 0" "s' = s\<lparr>pbufs := (pbufs s)(p \<mapsto> ?b)\<rparr>"
    using assms False by (auto simp: pbuf_header_def upd_pbuf_def)
  have "pbuf_header p (- n) s' = Some (0, s\<lparr>pbufs := (pbufs s)(p \<mapsto> b)\<rparr>)" if bk: "p + 16 \<le> pb_payload b" "n \<noteq> 0x8000"
  proof -
    have "(scast (- n) :: u32) = - scast n" using bk(2) by (rule scast_uminus)
    then show ?thesis using bk s' by (simp add: pbuf_header_def upd_pbuf_def Let_def not_less [symmetric])
  qed
  then have "p + 16 \<le> pb_payload b \<Longrightarrow> n \<noteq> 0x8000 \<Longrightarrow> \<exists>s''. pbuf_header p (- n) s' = Some (0, s'') \<and> pbufs s'' = pbufs s"
    using assms(1) by (auto simp: fun_upd_idem)
  with s' False show ?thesis by (auto simp: not_less)
qed

theorem pbuf_header_guarded_roundtrip_witness:
  "\<exists>s' b'. pbuf_header 16 8 example_chain = Some (0, s') \<and> pbufs s' 16 = Some b' \<and> 32 \<le> pb_payload b'"
proof -
  let ?b = "\<lparr>pb_next = Some 32, pb_flags = PBUF_FLAG_RAM, pb_ref = 1, pb_payload = 40, pb_tot_len = 60, pb_len = 20\<rparr>"
  have b: "pbufs example_chain 16 = Some ?b" by (simp add: example_chain_def)
  then obtain s' where s': "pbuf_header 16 8 example_chain = Some (0, s')"
    by (auto simp: pbuf_header_def upd_pbuf_def Let_def)
  from pbuf_header_guarded_roundtrip [OF b s'] s' show ?thesis by auto
qed

text \<open>
  shrinking a RAM pbuf that is followed by two ROM pbufs uses a pbuf after its release: the
  loop over the rest of the chain calls \<open>pbuf_free\<close> on every pbuf of it, but the first call
  already releases all of them.
\<close>

theorem pbuf_realloc_ram_use_after_free:
  assumes "pbufs s p = Some bp" "pb_flags bp = PBUF_FLAG_RAM" "pb_next bp = Some q" "sz \<le> pb_len bp" "sz < pb_tot_len bp"
    and "pbufs s q = Some bq" "pb_flags bq = PBUF_FLAG_ROM" "pb_ref bq = 1" "pb_next bq = Some r"
    and "pbufs s r = Some br" "pb_flags br = PBUF_FLAG_ROM" "pb_next br = None"
    and "distinct [p, q, r]"
  shows "pbuf_realloc ram_addr p sz s = None"
proof -
  have step: "realloc_step (pbufs s) sz p = Some (sz, p)"
    using assms(1) leD [OF assms(4)] by (subst realloc_step.simps) simp
  have loop: "realloc_ram_free ram_addr (Some q) t = None" if "pbufs t q = Some bq" "pbufs t r = Some br" for t
  proof (cases "pbuf_free ram_addr (Some q) t")
    case None
    with that show ?thesis by (subst realloc_ram_free.simps) simp
  next
    case (Some cs)
    obtain c s' where cs: "cs = (c, s')" by (cases cs)
    from pbuf_free_rom_pair [OF that(1) assms(7,8,9) that(2) assms(11,12) _ Some [unfolded cs]] assms(13)
    have "pbufs s' r = None" by simp
    then have "realloc_ram_free ram_addr (Some r) s' = None" by (subst realloc_ram_free.simps) simp
    with that Some cs assms(9) show ?thesis by (subst realloc_ram_free.simps) simp
  qed
  show ?thesis
  proof (rule ccontr)
    assume "pbuf_realloc ram_addr p sz s \<noteq> None"
    then obtain m u v where u: "mem_realloc (p - ram_addr) (pb_payload bp - p + ucast sz) s = Some (m, u)"
        "upd_pbuf p (\<lambda>b. b\<lparr>pb_len := sz, pb_next := None\<rparr>) u = Some v" "realloc_ram_free ram_addr (Some q) v \<noteq> None"
      using assms(1-4) assms(5) [folded not_le] step by (auto simp: pbuf_realloc_def bind_eq_Some_conv)
    have u': "pbufs u = pbufs s" by (rule pbufs_mem_realloc [OF u(1)])
    have pqr: "q \<noteq> p" "r \<noteq> p" using assms(13) by auto
    have "upd_pbuf p (\<lambda>b. b\<lparr>pb_len := sz, pb_next := None\<rparr>) u
        = Some (u\<lparr>pbufs := (pbufs s)(p \<mapsto> bp\<lparr>pb_len := sz, pb_next := None\<rparr>)\<rparr>)"
      unfolding upd_pbuf_def u' assms(1) by simp
    then have v: "v = u\<lparr>pbufs := (pbufs s)(p \<mapsto> bp\<lparr>pb_len := sz, pb_next := None\<rparr>)\<rparr>"
      unfolding u(2) by blast
    have "pbufs v q = Some bq" "pbufs v r = Some br" using pqr assms(6,10) by (simp_all add: v)
    then have "realloc_ram_free ram_addr (Some q) v = None" by (rule loop)
    with u(3) show False by simp
  qed
qed

theorem pbuf_realloc_ram_use_after_free_witness:
  "pbuf_realloc 0 16 10 example_chain = None"
  by (rule pbuf_realloc_ram_use_after_free [where q = 32 and r = 48
        and bp = "\<lparr>pb_next = Some 32, pb_flags = PBUF_FLAG_RAM, pb_ref = 1, pb_payload = 40, pb_tot_len = 60, pb_len = 20\<rparr>"
        and bq = "rom_pbuf (Some 48) 20" and br = "rom_pbuf None 20"])
    (simp_all add: example_chain_def rom_pbuf_def)

end
