(* ===== verification/Inet_Chksum.thy ===== *)
theory Inet_Chksum
  imports Net_Prelude
begin

text \<open>
  \<^verbatim>\<open>lwtcp/inet.c\<close>: the Internet checksum. \<open>chksum\<close>, \<open>inet_chksum\<close>,
  \<open>inet_chksum_pseudo\<close> and \<open>inet_chksum_pbuf\<close> follow the C functions of those names; a
  memory area is the list of its bytes, a pbuf chain the list of the payload areas of its
  pbufs. The specification is the one's complement sum: \<open>word_sum\<close> adds up the 16 bit words
  of a message as natural numbers and \<open>oc_norm\<close> is its canonical representative modulo
  65535. The theorems show that the loops compute it, that a message carrying its own
  checksum verifies to 0, and that splitting a message into a chain of pbufs of any lengths
  does not change \<open>inet_chksum_pseudo\<close>, while \<open>inet_chksum_pbuf\<close> is right for
  even-length pbufs only.
\<close>

subsection \<open>The code\<close>

fun chksum_loop :: "u32 \<Rightarrow> u8 list \<Rightarrow> u32" where
  "chksum_loop acc (b0 # b1 # bs) = chksum_loop (acc + (ucast b0 + push_bit 8 (ucast b1))) bs"
| "chksum_loop acc [b] = acc + ucast (htons (push_bit 8 (and (ucast b) 0xff)))"
| "chksum_loop acc [] = acc"

definition chksum :: "u8 list \<Rightarrow> u32" where
  "chksum dataptr = chksum_loop 0 dataptr"

lemma fold16_decreases:
  "drop_bit 16 acc \<noteq> 0 \<Longrightarrow> unat (and acc 0xffff + drop_bit 16 (acc :: u32)) < unat acc"
proof -
  assume *: "drop_bit 16 acc \<noteq> 0"
  then have "unat acc div 65536 \<noteq> 0"
    by (metis unat_drop_bit_16 unat_eq_zero)
  moreover have "unat acc = 65536 * (unat acc div 65536) + unat acc mod 65536"
    by simp
  ultimately show ?thesis
    unfolding unat_fold_sum by linarith
qed

function fold16 :: "u32 \<Rightarrow> u32" where
  "fold16 acc = (if drop_bit 16 acc \<noteq> 0 then fold16 (and acc 0xffff + drop_bit 16 acc) else acc)"
  by pat_completeness auto
termination
  by (relation "measure unat") (auto intro: fold16_decreases)

declare fold16.simps [simp del]

definition swap_acc :: "u32 \<Rightarrow> u32" where
  "swap_acc acc = or (push_bit 8 (and acc 0xff)) (drop_bit 8 (and acc 0xff00))"

definition inet_chksum :: "u8 list \<Rightarrow> u16" where
  "inet_chksum dataptr = ucast (not (and (fold16 (chksum dataptr)) 0xffff))"

text \<open>The loop over the pbuf chain of \<open>inet_chksum_pseudo\<close>, with its two variables.\<close>

fun chain_loop :: "u32 \<Rightarrow> bool \<Rightarrow> u8 list list \<Rightarrow> u32 \<times> bool" where
  "chain_loop acc swapped [] = (acc, swapped)"
| "chain_loop acc swapped (q # qs) =
     (let acc = fold16 (acc + chksum q)
      in if length q mod 2 \<noteq> 0 then chain_loop (swap_acc acc) (\<not> swapped) qs
         else chain_loop acc swapped qs)"

definition inet_chksum_pseudo :: "u8 list list \<Rightarrow> u32 \<Rightarrow> u32 \<Rightarrow> u8 \<Rightarrow> u16 \<Rightarrow> u16" where
  "inet_chksum_pseudo p src dest proto proto_len =
     (let (acc, swapped) = chain_loop 0 False p;
          acc = (if swapped then swap_acc acc else acc);
          acc = acc + and src 0xffff;
          acc = acc + and (drop_bit 16 src) 0xffff;
          acc = acc + and dest 0xffff;
          acc = acc + and (drop_bit 16 dest) 0xffff;
          acc = acc + ucast (htons (ucast proto));
          acc = acc + ucast (htons proto_len)
      in ucast (not (and (fold16 acc) 0xffff)))"

text \<open>
  \<open>inet_chksum_pbuf\<close> writes the swap as
  \<^verbatim>\<open>(acc & 0xff << 8) | (acc & 0xff00 >> 8)\<close>; in C the shifts bind tighter than \<^verbatim>\<open>&\<close>.
\<close>

definition swap_acc_pbuf :: "u32 \<Rightarrow> u32" where
  "swap_acc_pbuf acc = or (and acc (push_bit 8 0xff)) (and acc (drop_bit 8 0xff00))"

fun chain_loop_pbuf :: "u32 \<Rightarrow> bool \<Rightarrow> u8 list list \<Rightarrow> u32 \<times> bool" where
  "chain_loop_pbuf acc swapped [] = (acc, swapped)"
| "chain_loop_pbuf acc swapped (q # qs) =
     (let acc = fold16 (acc + chksum q)
      in if length q mod 2 \<noteq> 0 then chain_loop_pbuf (swap_acc_pbuf acc) (\<not> swapped) qs
         else chain_loop_pbuf acc swapped qs)"

definition inet_chksum_pbuf :: "u8 list list \<Rightarrow> u16" where
  "inet_chksum_pbuf p =
     (let (acc, swapped) = chain_loop_pbuf 0 False p;
          acc = (if swapped then swap_acc acc else acc)
      in ucast (not (and acc 0xffff)))"

subsection \<open>The one's complement sum\<close>

fun word_sum :: "u8 list \<Rightarrow> nat" where
  "word_sum (b0 # b1 # bs) = unat b0 + 256 * unat b1 + word_sum bs"
| "word_sum [b] = unat b"
| "word_sum [] = 0"

definition oc_norm :: "nat \<Rightarrow> nat" where
  "oc_norm n = (if n = 0 then 0 else (n - 1) mod 65535 + 1)"

lemma oc_norm_le: "oc_norm n \<le> 65535"
proof -
  have "(n - 1) mod 65535 < 65535" by (rule mod_less_divisor) simp
  then show ?thesis unfolding oc_norm_def by simp linarith
qed

lemma oc_norm_0 [simp]: "oc_norm n = 0 \<longleftrightarrow> n = 0"
  by (simp add: oc_norm_def)

lemma oc_norm_mod: "oc_norm n mod 65535 = n mod 65535"
proof (cases n)
  case (Suc m)
  have "(m mod 65535 + 1) mod 65535 = (m + 1) mod 65535"
    by (rule mod_add_left_eq)
  then show ?thesis by (simp add: oc_norm_def Suc)
qed (simp add: oc_norm_def)

lemma oc_norm_small: "n \<le> 65535 \<Longrightarrow> oc_norm n = n"
  by (auto simp: oc_norm_def)

lemma oc_norm_eqI:
  assumes "m mod 65535 = n mod 65535" and "m = 0 \<longleftrightarrow> n = 0"
  shows "oc_norm m = oc_norm n"
proof (cases "n = 0")
  case True
  with assms show ?thesis by simp
next
  case False
  with assms have "0 < oc_norm m" "0 < oc_norm n" by (simp_all add: neq0_conv [symmetric] del: neq0_conv)
  moreover have "oc_norm m mod 65535 = oc_norm n mod 65535"
    using assms(1) by (simp add: oc_norm_mod)
  moreover note oc_norm_le [of m] oc_norm_le [of n]
  ultimately show ?thesis
    by (metis le_antisym mod_less mod_self not_less neq0_conv)
qed

lemma oc_norm_add_left: "oc_norm (oc_norm m + n) = oc_norm (m + n)"
  by (rule oc_norm_eqI) (metis mod_add_cong oc_norm_mod, simp)

subsection \<open>The loops compute the one's complement sum\<close>

lemma unat_fold16: "unat (fold16 acc) = oc_norm (unat acc)"
proof (induction acc rule: fold16.induct)
  case (1 acc)
  show ?case
  proof (cases "drop_bit 16 acc = 0")
    case True
    then have "unat acc div 65536 = 0"
      by (metis unat_0 unat_drop_bit_16)
    then have "unat acc \<le> 65535" by linarith
    with True show ?thesis by (simp add: fold16.simps [of acc] oc_norm_small)
  next
    case False
    let ?q = "unat acc div 65536" and ?r = "unat acc mod 65536"
    have "oc_norm (?r + ?q) = oc_norm (?r + 65536 * ?q)"
    proof (rule oc_norm_eqI)
      have "(?r + 65536 * ?q) mod 65535 = (?r + ?q + ?q * 65535) mod 65535"
        by (simp add: algebra_simps)
      also have "\<dots> = (?r + ?q) mod 65535"
        by (rule mod_mult_self1)
      finally show "(?r + ?q) mod 65535 = (?r + 65536 * ?q) mod 65535" ..
    qed auto
    also have "?r + 65536 * ?q = unat acc" by simp
    finally show ?thesis
      using "1.IH" False by (simp add: fold16.simps [of acc] unat_fold_sum)
  qed
qed

lemma unat_odd_byte: "unat (ucast (htons (push_bit 8 (and (ucast (b :: u8)) 0xff))) :: u32) = unat b"
proof -
  have m: "(0xff :: u16) = mask 8"
    by (simp add: mask_eq_exp_minus_1)
  have "htons (push_bit 8 (and (ucast b) 0xff)) = (ucast b :: u16)"
    unfolding htons_def m
    by (intro bit_word_eqI) (auto simp: bit_simps dest: bit_imp_le_length)
  then show ?thesis by simp
qed

lemma word_sum_bound: "2 * word_sum bs \<le> 65535 * (length bs + 1)"
proof (induction bs rule: word_sum.induct)
  case (1 b0 b1 bs)
  have "unat b0 + 256 * unat b1 \<le> 65535"
    using unat_u8_less [of b0] unat_u8_less [of b1] by linarith
  with 1 show ?case by simp
next
  case (2 b)
  show ?case using unat_u8_less [of b] by simp
qed simp

lemma unat_pair: "unat (ucast (b0 :: u8) + push_bit 8 (ucast (b1 :: u8)) :: u32) = unat b0 + 256 * unat b1"
proof -
  have "unat (push_bit 8 (ucast b1) :: u32) = 256 * unat b1"
    using unat_u8_less [of b1] by (simp add: push_bit_eq_mult unat_word_ariths)
  moreover have "unat b0 + 256 * unat b1 < 2 ^ 32"
    using unat_u8_less [of b0] unat_u8_less [of b1] by simp
  ultimately show ?thesis by (simp add: unat_add_less)
qed

lemma unat_chksum_loop:
  "unat acc + word_sum bs < 2 ^ 32 \<Longrightarrow> unat (chksum_loop acc bs) = unat acc + word_sum bs"
proof (induction acc bs rule: chksum_loop.induct)
  case (1 acc b0 b1 bs)
  have "unat (acc + (ucast b0 + push_bit 8 (ucast b1))) = unat acc + (unat b0 + 256 * unat b1)"
    using "1.prems" by (subst unat_add_less) (simp_all add: unat_pair)
  with "1.IH" "1.prems" show ?case by simp
next
  case (2 acc b)
  let ?w = "ucast (htons (push_bit 8 (and (ucast b) 0xff))) :: u32"
  have "unat (acc + ?w) = unat acc + unat ?w"
    using 2 by (intro unat_add_less) (simp only: unat_odd_byte word_sum.simps, simp)
  then show ?case by (simp only: chksum_loop.simps word_sum.simps unat_odd_byte)
qed simp

text \<open>The length of a memory area is at most 65535: the C functions take it as a \<^verbatim>\<open>uint16_t\<close>.\<close>

lemma unat_chksum:
  assumes "length bs \<le> 65535"
  shows "unat (chksum bs) = word_sum bs"
proof -
  have "word_sum bs < 2 ^ 32"
    using word_sum_bound [of bs] assms by simp
  then show ?thesis
    using unat_chksum_loop [of 0 bs] by (simp add: chksum_def)
qed

lemma fold16_le: "unat (fold16 acc) \<le> 65535"
  by (simp add: unat_fold16 oc_norm_le)

lemma unat_complement16:
  "unat (ucast (not (and (acc :: u32) 0xffff)) :: u16) = 65535 - unat acc mod 65536"
proof -
  have "ucast (not (and acc 0xffff)) = (not (ucast acc) :: u16)"
  proof (intro bit_word_eqI)
    fix n assume "n < LENGTH(16)"
    moreover have "(0xffff :: u32) = mask 16" by (simp add: mask_eq_exp_minus_1)
    ultimately show "bit (ucast (not (and acc 0xffff)) :: u16) n = bit (not (ucast acc) :: u16) n"
      by (simp only: bit_simps) simp
  qed
  moreover have "unat (not (ucast acc :: u16)) = 65535 - unat (ucast acc :: u16)"
  proof -
    have eq: "not (ucast acc :: u16) = -1 - ucast acc" and ones: "unat (-1 :: u16) = 65535"
      by (simp_all add: not_eq_complement unsigned_minus_1_eq_mask mask_eq_exp_minus_1)
    show ?thesis
      unfolding eq
      using unat_u16_less [of "ucast acc"] by (subst unat_sub_le) (simp_all only: ones)
  qed
  ultimately show ?thesis by (simp add: unat_ucast_u32_u16)
qed

lemma unat_chksum_result:
  "unat (ucast (not (and (fold16 acc) 0xffff)) :: u16) = 65535 - oc_norm (unat acc)"
  using oc_norm_le [of "unat acc"] by (simp only: unat_complement16 unat_fold16) simp

lemma unat_inet_chksum:
  "length bs \<le> 65535 \<Longrightarrow> unat (inet_chksum bs) = 65535 - oc_norm (word_sum bs)"
  by (simp only: inet_chksum_def unat_chksum_result unat_chksum)

subsection \<open>Sums of concatenated areas\<close>

lemma word_sum_append_even:
  "even (length xs) \<Longrightarrow> word_sum (xs @ ys) = word_sum xs + word_sum ys"
  by (induction xs rule: word_sum.induct) simp_all

text \<open>After an odd number of bytes the bytes of the rest change places in their words.\<close>

lemma word_sum_Cons: "word_sum (b # ys) mod 65535 = (unat b + 256 * word_sum ys) mod 65535"
proof (induction ys arbitrary: b rule: word_sum.induct)
  case (1 b0 b1 bs)
  have "word_sum (b # b0 # b1 # bs) mod 65535 = (unat b + 256 * unat b0 + word_sum (b1 # bs)) mod 65535"
    by simp
  also have "\<dots> = (unat b + 256 * unat b0 + (unat b1 + 256 * word_sum bs)) mod 65535"
    by (metis "1" mod_add_right_eq)
  also have "\<dots> = (unat b + 256 * unat b0 + (unat b1 + 256 * word_sum bs) + unat b1 * 65535) mod 65535"
    by (rule mod_mult_self1 [symmetric])
  also have "unat b + 256 * unat b0 + (unat b1 + 256 * word_sum bs) + unat b1 * 65535 =
      unat b + 256 * word_sum (b0 # b1 # bs)"
    by simp
  finally show ?case .
qed simp_all

lemma word_sum_append_odd:
  "odd (length xs) \<Longrightarrow>
     word_sum (xs @ ys) mod 65535 = (word_sum xs + 256 * word_sum ys) mod 65535"
proof (induction xs rule: word_sum.induct)
  case (1 b0 b1 bs)
  then have "(unat b0 + 256 * unat b1 + word_sum (bs @ ys)) mod 65535 =
      (unat b0 + 256 * unat b1 + (word_sum bs + 256 * word_sum ys)) mod 65535"
    by (intro mod_add_cong) simp_all
  then show ?case by (simp add: add.assoc)
next
  case (2 b)
  show ?case using word_sum_Cons [of b ys] by simp
qed simp

lemma word_sum_eq_0: "word_sum bs = 0 \<longleftrightarrow> (\<forall>b \<in> set bs. b = 0)"
  by (induction bs rule: word_sum.induct) (auto simp: unat_eq_zero)

lemma oc_norm_append_odd:
  assumes "odd (length xs)"
  shows "oc_norm (word_sum (xs @ ys)) = oc_norm (word_sum xs + 256 * word_sum ys)"
  using assms by (intro oc_norm_eqI word_sum_append_odd) (auto simp: word_sum_eq_0)

lemma oc_norm_65536: "oc_norm (m + 65536 * n) = oc_norm (m + n)"
proof (rule oc_norm_eqI)
  have "m + 65536 * n = m + n + n * 65535" by simp
  then show "(m + 65536 * n) mod 65535 = (m + n) mod 65535"
    by (metis mod_mult_self1)
qed auto

text \<open>The byte swap multiplies by 256 in one's complement arithmetic.\<close>

lemma unat_swap_acc:
  assumes "unat acc \<le> 65535"
  shows "unat (swap_acc acc) = oc_norm (256 * unat acc)"
proof -
  let ?l = "unat acc mod 256" and ?h = "unat acc div 256"
  have h: "?h < 256" using assms by (simp add: div_less_iff_less_mult)
  have l: "?l < 256" by simp
  have m: "(0xff :: u32) = mask 8" "(0xff00 :: u32) = push_bit 8 (mask 8)"
    by (simp_all add: mask_eq_exp_minus_1 push_bit_eq_mult)
  have "take_bit 16 acc = acc"
    using assms by (simp add: take_bit_eq_mod word_unat_eq_iff unat_mod_distrib)
  then have top: "\<not> bit acc n" if "16 \<le> n" for n
    using that by (metis bit_take_bit_iff not_less)
  have eq: "swap_acc acc = or (push_bit 8 (take_bit 8 acc)) (drop_bit 8 acc)"
    unfolding swap_acc_def m
    by (intro bit_word_eqI) (auto simp: bit_simps top)
  have dis: "or (push_bit 8 (take_bit 8 acc)) (drop_bit 8 acc) = push_bit 8 (take_bit 8 acc) + drop_bit 8 acc"
    by (rule disjunctive_add [symmetric]) (auto simp: bit_simps top)
  have "unat (push_bit 8 (take_bit 8 acc)) = 256 * ?l"
    using l by (simp add: push_bit_eq_mult take_bit_eq_mod unat_word_ariths unat_mod_distrib)
  moreover have "unat (drop_bit 8 acc) = ?h"
    by (simp add: drop_bit_eq_div unat_div_distrib)
  ultimately have "unat (swap_acc acc) = 256 * ?l + ?h"
    unfolding eq dis using h l by (subst unat_add_less) simp_all
  moreover have "oc_norm (256 * unat acc) = oc_norm (256 * ?l + ?h)"
  proof -
    have "256 * (x + 256 * y) = 256 * x + 65536 * (y :: nat)" for x y by simp
    from this [of ?l ?h] have "256 * unat acc = 256 * ?l + 65536 * ?h"
      by (simp only: mod_mult_div_eq)
    then show ?thesis by (simp only: oc_norm_65536)
  qed
  moreover have "oc_norm (256 * ?l + ?h) = 256 * ?l + ?h"
    using h l by (intro oc_norm_small) linarith
  ultimately show ?thesis by simp
qed

lemma unat_fold16_chksum:
  assumes "unat acc \<le> 65535" and "length q \<le> 65535"
  shows "unat (fold16 (acc + chksum q)) = oc_norm (unat acc + word_sum q)"
proof -
  have "unat acc + word_sum q < 2 ^ 32"
    using assms word_sum_bound [of q] by simp
  then show ?thesis
    using assms(2) by (simp add: unat_fold16 unat_add_less unat_chksum)
qed

text \<open>
  The value of the accumulator with the pending swap undone; the loop adds the words of the
  areas to it, swapped when an odd number of bytes went before.
\<close>

definition unswapped :: "u32 \<Rightarrow> bool \<Rightarrow> nat" where
  "unswapped acc swapped = (if swapped then oc_norm (256 * unat acc) else unat acc)"

lemma oc_norm_mult256: "oc_norm (256 * oc_norm n) = oc_norm (256 * n)"
  by (rule oc_norm_eqI) (metis mod_mult_right_eq oc_norm_mod, simp)

lemma oc_norm_cong_mult:
  assumes "oc_norm m = oc_norm n"
  shows "oc_norm (a + k * m) = oc_norm (a + k * n)"
proof (rule oc_norm_eqI)
  have "m mod 65535 = n mod 65535" using assms by (metis oc_norm_mod)
  then show "(a + k * m) mod 65535 = (a + k * n) mod 65535"
    by (intro mod_add_cong mod_mult_cong) simp_all
  show "a + k * m = 0 \<longleftrightarrow> a + k * n = 0"
    using assms by (metis add_is_0 mult_is_0 oc_norm_0)
qed

lemma oc_norm_256_256: "oc_norm (256 * oc_norm (256 * n)) = oc_norm n"
  using oc_norm_65536 [of 0 n] by (simp add: oc_norm_mult256)

lemma chain_loop_sum:
  assumes "chain_loop acc swapped qs = (acc', swapped')"
    and "unat acc \<le> 65535" and "\<forall>q \<in> set qs. length q \<le> 65535"
  shows "unat acc' \<le> 65535 \<and>
    unswapped acc' swapped' =
      oc_norm (unswapped acc swapped + (if swapped then 256 else 1) * word_sum (concat qs))"
  using assms
proof (induction acc swapped qs rule: chain_loop.induct)
  case (1 acc swapped)
  then show ?case by (auto simp: unswapped_def oc_norm_small oc_norm_le)
next
  case (2 acc swapped q qs)
  let ?acc = "fold16 (acc + chksum q)"
  have q: "length q \<le> 65535" and qs: "\<forall>q \<in> set qs. length q \<le> 65535"
    using "2.prems"(3) by auto
  have v: "unat ?acc = oc_norm (unat acc + word_sum q)"
    using "2.prems"(2) q by (rule unat_fold16_chksum)
  have le: "unat ?acc \<le> 65535" by (rule fold16_le)
  have step: "unswapped ?acc swapped = oc_norm (unswapped acc swapped + (if swapped then 256 else 1) * word_sum q)"
    using v by (simp add: unswapped_def oc_norm_mult256 oc_norm_add_left distrib_left)
  show ?case
  proof (cases "even (length q)")
    case True
    then have "chain_loop ?acc swapped qs = (acc', swapped')"
      using "2.prems"(1) by (simp add: Let_def even_iff_mod_2_eq_zero)
    with "2.IH"(2) [OF refl] True le qs step show ?thesis
      by (simp add: even_iff_mod_2_eq_zero word_sum_append_even oc_norm_add_left add.assoc distrib_left)
  next
    case False
    have sw: "unat (swap_acc ?acc) = oc_norm (256 * unat ?acc)"
      using le by (rule unat_swap_acc)
    have un: "unswapped (swap_acc ?acc) (\<not> swapped) = unswapped ?acc swapped"
      using le sw by (simp add: unswapped_def oc_norm_256_256 oc_norm_small)
    let ?r = "word_sum (concat qs)" and ?u = "unswapped acc swapped"
    have "chain_loop (swap_acc ?acc) (\<not> swapped) qs = (acc', swapped')"
      using "2.prems"(1) False by (simp add: Let_def odd_iff_mod_2_eq_one)
    then have "unat acc' \<le> 65535 \<and> unswapped acc' swapped' =
        oc_norm (unswapped ?acc swapped + (if \<not> swapped then 256 else 1) * ?r)"
      using "2.IH"(1) [OF refl] False sw qs un by (simp add: odd_iff_mod_2_eq_one oc_norm_le)
    moreover have "oc_norm (?u + k * word_sum (q @ concat qs)) = oc_norm (?u + k * (word_sum q + 256 * ?r))" for k
      using False by (intro oc_norm_cong_mult oc_norm_append_odd)
    note this [of 1] this [of 256]
    ultimately show ?thesis
      using oc_norm_65536 [of "?u + 256 * word_sum q" ?r] step
      by (cases swapped) (simp_all add: oc_norm_add_left distrib_left add.assoc)
  qed
qed

lemma chain_loop_concat:
  assumes "chain_loop 0 False p = (acc, swapped)" and "\<forall>q \<in> set p. length q \<le> 65535"
  shows "unat (if swapped then swap_acc acc else acc) = oc_norm (word_sum (concat p))"
  using chain_loop_sum [OF assms(1) _ assms(2)] by (auto simp: unswapped_def unat_swap_acc)

text \<open>The bytes of the TCP and UDP pseudo header as they would lie in memory.\<close>

definition u32_bytes :: "u32 \<Rightarrow> u8 list" where
  "u32_bytes w = [ucast w, ucast (drop_bit 8 w), ucast (drop_bit 16 w), ucast (drop_bit 24 w)]"

definition u16_bytes :: "u16 \<Rightarrow> u8 list" where
  "u16_bytes w = [ucast w, ucast (drop_bit 8 w)]"

definition pseudo_header :: "u32 \<Rightarrow> u32 \<Rightarrow> u8 \<Rightarrow> u16 \<Rightarrow> u8 list" where
  "pseudo_header src dest proto proto_len =
     u32_bytes src @ u32_bytes dest @ [0, proto] @ u16_bytes (htons proto_len)"

lemma word_sum_u16_bytes: "word_sum (u16_bytes w) = unat w"
proof -
  have "unat (ucast w :: u8) = unat w mod 256"
    by (simp add: unsigned_ucast_eq take_bit_eq_mod)
  moreover have "unat (ucast (drop_bit 8 w) :: u8) = unat w div 256"
    using unat_u16_less [of w]
    by (simp add: unsigned_ucast_eq take_bit_eq_mod drop_bit_eq_div unat_div_distrib div_less_iff_less_mult)
  ultimately show ?thesis by (simp add: u16_bytes_def)
qed

lemma word_sum_u32_bytes:
  "word_sum (u32_bytes w) = unat (and w 0xffff) + unat (and (drop_bit 16 w) 0xffff)"
proof -
  have m: "(0xffff :: u32) = mask 16" by (simp add: mask_eq_exp_minus_1)
  have split: "u32_bytes w = u16_bytes (ucast w) @ u16_bytes (ucast (drop_bit 16 w))"
    unfolding u32_bytes_def u16_bytes_def
    by (auto intro!: bit_word_eqI simp: bit_simps)
  have "unat (ucast w :: u16) = unat (and w 0xffff)"
    "unat (ucast (drop_bit 16 w) :: u16) = unat (and (drop_bit 16 w) 0xffff)"
    by (simp_all only: unat_ucast_u32_u16 unat_and_0xffff)
  then show ?thesis
    unfolding split by (simp add: word_sum_append_even u16_bytes_def [THEN arg_cong [where f=length]] word_sum_u16_bytes)
qed

lemma word_sum_proto: "word_sum [0, proto] = unat (ucast (htons (ucast proto)) :: u32)"
proof -
  have "htons (ucast proto) = push_bit 8 (ucast proto :: u16)"
    unfolding htons_def by (intro bit_word_eqI) (auto simp: bit_simps dest: bit_imp_le_length)
  moreover have "unat (push_bit 8 (ucast proto :: u16)) = 256 * unat proto"
    using unat_u8_less [of proto] by (simp add: push_bit_eq_mult unat_word_ariths)
  ultimately show ?thesis by simp
qed

lemma length_u16_bytes [simp]: "length (u16_bytes w) = 2"
  by (simp add: u16_bytes_def)

text \<open>
  A message with its checksum in a field at an even offset sums up to all ones. UDP sends a
  checksum of 0 as all ones, which is the other zero of one's complement arithmetic.
\<close>

lemma chksum_field_verifies:
  assumes "even (length pre)" and "length (pre @ [0, 0] @ post) \<le> 65535"
    and "c = inet_chksum (pre @ [0, 0] @ post) \<or> inet_chksum (pre @ [0, 0] @ post) = 0 \<and> c = 0xffff"
  shows "inet_chksum (pre @ u16_bytes c @ post) = 0"
proof -
  let ?S = "word_sum pre + word_sum post"
  have k: "unat (inet_chksum (pre @ [0, 0] @ post)) = 65535 - oc_norm ?S"
    using assms by (simp only: unat_inet_chksum) (simp add: word_sum_append_even)
  have "word_sum (pre @ u16_bytes c @ post) = ?S + unat c"
    using assms(1) by (simp add: word_sum_append_even word_sum_u16_bytes)
  also have "oc_norm \<dots> = oc_norm (oc_norm ?S + unat c)"
    by (simp only: oc_norm_add_left)
  also have "\<dots> = 65535"
    using assms(3)
  proof
    assume "c = inet_chksum (pre @ [0, 0] @ post)"
    with k have "oc_norm ?S + unat c = 65535" using oc_norm_le [of ?S] by simp
    then show ?thesis by (simp add: oc_norm_def)
  next
    assume c: "inet_chksum (pre @ [0, 0] @ post) = 0 \<and> c = 0xffff"
    with k have "oc_norm ?S = 65535" using oc_norm_le [of ?S] by simp
    with c show ?thesis by (simp add: oc_norm_def)
  qed
  finally have "unat (inet_chksum (pre @ u16_bytes c @ post)) = 0"
    using assms(2) by (subst unat_inet_chksum) simp_all
  then show ?thesis by (simp add: unat_eq_zero)
qed

lemma unat_add7:
  fixes a b c d e f g :: u32
  assumes "unat a \<le> 65535" "unat b < 65536" "unat c < 65536" "unat d < 65536" "unat e < 65536"
    "unat f < 65536" "unat g < 65536"
  shows "unat (a + b + c + d + e + f + g) =
    unat a + unat b + unat c + unat d + unat e + unat f + unat g"
  using assms by (simp add: unat_add_less)

lemma length_pseudo_header: "length (pseudo_header src dest proto proto_len) = 12"
  by (simp add: pseudo_header_def u32_bytes_def u16_bytes_def)

lemma unat_pseudo_sum:
  assumes "unat acc \<le> 65535"
  shows "unat (acc + and src 0xffff + and (drop_bit 16 src) 0xffff + and dest 0xffff
      + and (drop_bit 16 dest) 0xffff + ucast (htons (ucast proto)) + ucast (htons proto_len))
    = unat acc + word_sum (pseudo_header src dest proto proto_len)"
proof -
  have b: "unat (and x 0xffff) < 65536" for x :: u32
    by (simp add: unat_and_0xffff)
  have b2: "unat (ucast (w :: u16) :: u32) < 65536" for w
    by (simp add: unat_u16_less)
  have len: "length (u32_bytes w) = 4" for w by (simp add: u32_bytes_def)
  have "word_sum (pseudo_header src dest proto proto_len) = word_sum (u32_bytes src)
      + word_sum (u32_bytes dest) + word_sum [0, proto] + word_sum (u16_bytes (htons proto_len))"
    unfolding pseudo_header_def by (simp add: word_sum_append_even len)
  then show ?thesis
    using unat_add7 [OF assms b [of src] b [of "drop_bit 16 src"] b [of dest] b [of "drop_bit 16 dest"]
        b2 [of "htons (ucast proto)"] b2 [of "htons proto_len"]]
    by (simp only: word_sum_u32_bytes word_sum_proto word_sum_u16_bytes unat_ucast_u16_u32 add.assoc)
qed

lemma pseudo_contiguous:
  assumes "length (concat p) + 12 \<le> 65535"
  shows "inet_chksum_pseudo p src dest proto proto_len =
    inet_chksum (pseudo_header src dest proto proto_len @ concat p)"
proof -
  obtain acc swapped where loop: "chain_loop 0 False p = (acc, swapped)"
    by (cases "chain_loop 0 False p")
  let ?acc = "if swapped then swap_acc acc else acc" and ?h = "pseudo_header src dest proto proto_len"
  let ?sum = "?acc + and src 0xffff + and (drop_bit 16 src) 0xffff + and dest 0xffff
    + and (drop_bit 16 dest) 0xffff + ucast (htons (ucast proto)) + ucast (htons proto_len) :: u32"
  have "length q \<le> length (concat p)" if "q \<in> set p" for q
    using that by (induction p) auto
  then have "\<forall>q \<in> set p. length q \<le> 65535"
    using assms by fastforce
  note acc = chain_loop_concat [OF loop this]
  then have "unat ?sum = oc_norm (word_sum (concat p)) + word_sum ?h"
    by (subst unat_pseudo_sum) (simp_all only: oc_norm_le)
  then have "oc_norm (unat ?sum) = oc_norm (word_sum (?h @ concat p))"
    by (simp add: oc_norm_add_left word_sum_append_even length_pseudo_header add.commute)
  moreover have "length (?h @ concat p) \<le> 65535"
    using assms by (simp add: length_pseudo_header)
  moreover have "inet_chksum_pseudo p src dest proto proto_len = ucast (not (and (fold16 ?sum) 0xffff))"
    by (simp only: inet_chksum_pseudo_def loop Let_def prod.case)
  ultimately have "unat (inet_chksum_pseudo p src dest proto proto_len) = unat (inet_chksum (?h @ concat p))"
    by (simp only: unat_inet_chksum unat_chksum_result)
  then show ?thesis by (simp only: word_unat_eq_iff)
qed

text \<open>The same for a chain of pbufs of which the first holds the checksum field.\<close>

lemma pseudo_field_verifies:
  assumes "even (length pre)" and "length (pre @ [0, 0] @ post) + length (concat rest) + 12 \<le> 65535"
    and "k = inet_chksum_pseudo ((pre @ [0, 0] @ post) # rest) src dest proto len" and "c = k \<or> k = 0 \<and> c = 0xffff"
  shows "inet_chksum_pseudo ((pre @ u16_bytes c @ post) # rest) src dest proto len = 0"
proof -
  let ?h = "pseudo_header src dest proto len"
  have "inet_chksum_pseudo ((pre @ [0, 0] @ post) # rest) src dest proto len = inet_chksum ((?h @ pre) @ [0, 0] @ post @ concat rest)"
    using assms(2) by (subst pseudo_contiguous) simp_all
  then have "inet_chksum ((?h @ pre) @ u16_bytes c @ post @ concat rest) = 0"
    using assms by (intro chksum_field_verifies) (auto simp: length_pseudo_header)
  then show ?thesis using assms(2) by (subst pseudo_contiguous) simp_all
qed

subsection \<open>Properties\<close>

text \<open>
  C30: for every memory area whose length fits the \<^verbatim>\<open>uint16_t\<close> length parameter,
  \<open>inet_chksum\<close> is the complement of the one's complement sum of its 16 bit words.
\<close>

theorem inet_chksum_is_complement_of_sum:
  assumes "length bs \<le> 65535"
  shows "unat (inet_chksum bs) = 65535 - oc_norm (word_sum bs)"
  using assms by (rule unat_inet_chksum)

theorem inet_chksum_is_complement_of_sum_witness:
  "unat (inet_chksum [0xff, 0xff, 2, 0, 7]) = 65526"
  using inet_chksum_is_complement_of_sum [of "[0xff, 0xff, 2, 0, 7]"] by (simp add: oc_norm_def)

text \<open>
  a message that carries its own checksum in a field at an even offset (computed with the
  field zero, as the stack does for its headers) verifies to 0.
\<close>

theorem inet_chksum_verifies:
  assumes "even (length pre)" and "length (pre @ [0, 0] @ post) \<le> 65535"
  shows "inet_chksum (pre @ u16_bytes (inet_chksum (pre @ [0, 0] @ post)) @ post) = 0"
  using assms by (intro chksum_field_verifies) simp_all

theorem inet_chksum_verifies_witness:
  "inet_chksum ([0x45, 0] @ u16_bytes (inet_chksum ([0x45, 0] @ [0, 0] @ [9, 1, 3])) @ [9, 1, 3]) = 0"
  using inet_chksum_verifies [of "[0x45, 0]" "[9, 1, 3]"] by simp

text \<open>
  C13: \<open>inet_chksum_pseudo\<close> over a pbuf chain, split into pbufs of any lengths (odd ones
  included), is the plain checksum of the pseudo header followed by the contiguous payload.
\<close>

theorem inet_chksum_pseudo_eq_contiguous:
  assumes "length (concat p) + 12 \<le> 65535"
  shows "inet_chksum_pseudo p src dest proto proto_len =
    inet_chksum (pseudo_header src dest proto proto_len @ concat p)"
  using assms by (rule pseudo_contiguous)

theorem inet_chksum_pseudo_eq_contiguous_witness:
  "inet_chksum_pseudo [[1], [2, 3, 4], [5]] 0x0100000a 0x0200000a 6 5 =
     inet_chksum (pseudo_header 0x0100000a 0x0200000a 6 5 @ [1, 2, 3, 4, 5])"
  using inet_chksum_pseudo_eq_contiguous [of "[[1], [2, 3, 4], [5]]" "0x0100000a" "0x0200000a" 6 5]
  by simp

lemma swap_acc_pbuf_id: "unat acc \<le> 65535 \<Longrightarrow> swap_acc_pbuf acc = acc"
proof -
  assume "unat acc \<le> 65535"
  then have t: "take_bit 16 acc = acc"
    by (simp add: take_bit_eq_mod word_unat_eq_iff unat_mod_distrib)
  have m: "mask 16 = or (0xff00 :: u32) 0xff" by (simp add: mask_eq_exp_minus_1)
  have "swap_acc_pbuf acc = or (and acc 0xff00) (and acc 0xff)"
    by (simp add: swap_acc_pbuf_def)
  also have "\<dots> = and acc (mask 16)" by (simp only: m bit.conj_disj_distrib)
  finally show ?thesis using t by (simp only: take_bit_eq_mask)
qed

lemma chain_loop_pbuf_even:
  "\<forall>q \<in> set p. even (length q) \<Longrightarrow> chain_loop_pbuf acc swapped p = chain_loop acc swapped p"
  by (induction p arbitrary: acc) (simp_all add: Let_def even_iff_mod_2_eq_zero)

text \<open>
  \<open>inet_chksum_pbuf\<close> is the checksum of the contiguous payload for every chain of pbufs of
  even length; its shifts are not parenthesised, so that for a chain of odd length pbufs it is not:
  for the one byte payload 1 it returns the byte swapped checksum.
\<close>

theorem inet_chksum_pbuf_even_only:
  "(\<forall>p. (\<forall>q \<in> set p. even (length q)) \<longrightarrow> length (concat p) \<le> 65535 \<longrightarrow>
      inet_chksum_pbuf p = inet_chksum (concat p)) \<and>
   inet_chksum_pbuf [[1]] = 0xfeff \<and> inet_chksum [1] = 0xfffe"
proof -
  have even: "inet_chksum_pbuf p = inet_chksum (concat p)"
    if "\<forall>q \<in> set p. even (length q)" "length (concat p) \<le> 65535" for p
  proof -
    obtain acc swapped where loop: "chain_loop 0 False p = (acc, swapped)"
      by (cases "chain_loop 0 False p")
    have "length q \<le> length (concat p)" if "q \<in> set p" for q
      using that by (induction p) auto
    then have "\<forall>q \<in> set p. length q \<le> 65535"
      using that(2) by fastforce
    from chain_loop_concat [OF loop this] show ?thesis
      using that oc_norm_le [of "word_sum (concat p)"]
      by (simp only: inet_chksum_pbuf_def chain_loop_pbuf_even loop Let_def prod.case
        word_unat_eq_iff unat_complement16 unat_inet_chksum) simp
  qed
  have "fold16 1 = 1" "fold16 0x100 = 0x100" by (simp_all add: fold16.simps)
  with even show ?thesis
    by (simp add: inet_chksum_pbuf_def inet_chksum_def chksum_def htons_def Let_def swap_acc_pbuf_def swap_acc_def)
qed

theorem inet_chksum_pbuf_even_only_witness:
  "inet_chksum_pbuf [[1, 2], [3, 4]] = inet_chksum [1, 2, 3, 4]"
  using inet_chksum_pbuf_even_only [THEN conjunct1, THEN spec, of "[[1, 2], [3, 4]]"] by simp

end
