(* ===== verification/Byte_Mem.thy ===== *)
theory Byte_Mem
  imports Net_Prelude
begin

text \<open>
  The bytes of the memory that packets and application data are kept in, as a function from 32 bit
  addresses. A C access to a 16 or 32 bit field is a little-endian load or store; \<^verbatim>\<open>bcopy\<close> and
  \<^verbatim>\<open>memcpy\<close> move bytes. The lemmas say what a load returns after a store, for the same address and
  for addresses that do not overlap; the components' proofs about packet headers rest on them.
\<close>

type_synonym bytes = "u32 \<Rightarrow> u8"

definition ld16 :: "u32 \<Rightarrow> bytes \<Rightarrow> u16" where
  "ld16 a m = or (ucast (m a)) (push_bit 8 (ucast (m (a + 1))))"

definition ld32 :: "u32 \<Rightarrow> bytes \<Rightarrow> u32" where
  "ld32 a m = or (or (ucast (m a)) (push_bit 8 (ucast (m (a + 1)))))
                 (or (push_bit 16 (ucast (m (a + 2)))) (push_bit 24 (ucast (m (a + 3)))))"

definition st16 :: "u32 \<Rightarrow> u16 \<Rightarrow> bytes \<Rightarrow> bytes" where
  "st16 a v m = m(a := ucast v, a + 1 := ucast (drop_bit 8 v))"

definition st32 :: "u32 \<Rightarrow> u32 \<Rightarrow> bytes \<Rightarrow> bytes" where
  "st32 a v m = m(a := ucast v, a + 1 := ucast (drop_bit 8 v),
                  a + 2 := ucast (drop_bit 16 v), a + 3 := ucast (drop_bit 24 v))"

definition ld_bytes :: "nat \<Rightarrow> u32 \<Rightarrow> bytes \<Rightarrow> u8 list" where
  "ld_bytes n a m = map (\<lambda>i. m (a + of_nat i)) [0..<n]"

definition st_bytes :: "u32 \<Rightarrow> u8 list \<Rightarrow> bytes \<Rightarrow> bytes" where
  "st_bytes a bs m = (\<lambda>x. if unat (x - a) < length bs then bs ! unat (x - a) else m x)"

definition bcopy :: "u32 \<Rightarrow> u32 \<Rightarrow> nat \<Rightarrow> bytes \<Rightarrow> bytes" where
  "bcopy src dst n m = (\<lambda>x. if unat (x - dst) < n then m (src + (x - dst)) else m x)"

subsection \<open>Loads after stores\<close>

lemma ld16_st16 [simp]: "ld16 a (st16 a v m) = v"
  unfolding ld16_def st16_def by (intro bit_word_eqI) (auto simp: bit_simps)

lemma ld32_st32 [simp]: "ld32 a (st32 a v m) = v"
proof (intro bit_word_eqI)
  fix n assume "n < LENGTH(32)"
  then consider "n < 8" | "8 \<le> n" "n < 16" | "16 \<le> n" "n < 24" | "24 \<le> n" "n < 32" by fastforce
  then show "bit (ld32 a (st32 a v m)) n = bit v n"
    unfolding ld32_def st32_def by cases (auto simp: bit_simps)
qed

lemma ld_zero [simp]: "ld16 a (\<lambda>_. 0) = 0" "ld32 a (\<lambda>_. 0) = 0"
  by (simp_all add: ld16_def ld32_def)

text \<open>Accesses that do not overlap.\<close>

lemma ld16_st16_other [simp]:
  "b \<noteq> a \<Longrightarrow> b \<noteq> a + 1 \<Longrightarrow> b + 1 \<noteq> a \<Longrightarrow> ld16 a (st16 b v m) = ld16 a m"
  by (auto simp: ld16_def st16_def)

lemma ld32_st16_other [simp]:
  "b \<noteq> a \<Longrightarrow> b \<noteq> a + 1 \<Longrightarrow> b \<noteq> a + 2 \<Longrightarrow> b \<noteq> a + 3 \<Longrightarrow> b + 1 \<noteq> a \<Longrightarrow> ld32 a (st16 b v m) = ld32 a m"
  by (auto simp: ld32_def st16_def)

lemma ld16_st32_other [simp]:
  "b \<noteq> a \<Longrightarrow> b \<noteq> a + 1 \<Longrightarrow> b + 1 \<noteq> a \<Longrightarrow> b + 2 \<noteq> a \<Longrightarrow> b + 3 \<noteq> a \<Longrightarrow> ld16 a (st32 b v m) = ld16 a m"
  by (auto simp: ld16_def st32_def)

lemma ld32_st32_other [simp]:
  "b \<noteq> a \<Longrightarrow> b \<noteq> a + 1 \<Longrightarrow> b \<noteq> a + 2 \<Longrightarrow> b \<noteq> a + 3 \<Longrightarrow> b + 1 \<noteq> a \<Longrightarrow> b + 2 \<noteq> a \<Longrightarrow> b + 3 \<noteq> a \<Longrightarrow>
     ld32 a (st32 b v m) = ld32 a m"
  by (auto simp: ld32_def st32_def)

lemma st16_other: "x \<noteq> a \<Longrightarrow> x \<noteq> a + 1 \<Longrightarrow> st16 a v m x = m x"
  by (simp add: st16_def)

lemma st32_other: "x \<noteq> a \<Longrightarrow> x \<noteq> a + 1 \<Longrightarrow> x \<noteq> a + 2 \<Longrightarrow> x \<noteq> a + 3 \<Longrightarrow> st32 a v m x = m x"
  by (simp add: st32_def)

text \<open>Two areas that do not overlap, by the distance of their starts in both directions.\<close>

definition apart :: "u32 \<Rightarrow> nat \<Rightarrow> u32 \<Rightarrow> nat \<Rightarrow> bool" where
  "apart a n b k \<longleftrightarrow> n \<le> unat (b - a) \<and> k \<le> unat (a - b)"

lemma apart_sym: "apart a n b k \<longleftrightarrow> apart b k a n"
  by (auto simp: apart_def)

lemma apart_neq:
  assumes "apart a n b k" "i < n" "j < k"
  shows "a + of_nat i \<noteq> b + of_nat j"
proof
  assume eq: "a + of_nat i = b + of_nat j"
  have n: "n < 2 ^ 32" "k < 2 ^ 32"
    using assms(1) unat_u32_less [of "b - a"] unat_u32_less [of "a - b"] by (auto simp: apart_def)
  show False
  proof (cases "j \<le> i")
    case True
    then have "b - a = of_nat (i - j)" using eq by (simp add: algebra_simps of_nat_diff)
    then have "unat (b - a) = i - j" using assms(2) n by (simp add: unat_of_nat)
    with assms show False by (auto simp: apart_def)
  next
    case False
    then have "a - b = of_nat (j - i)" using eq by (simp add: algebra_simps of_nat_diff)
    then have "unat (a - b) = j - i" using assms(3) n by (simp add: unat_of_nat)
    with assms False show False by (auto simp: apart_def)
  qed
qed

end
