(* ===== verification/Tcp_Types.thy ===== *)
theory Tcp_Types
  imports Pbuf Inet_Chksum Byte_Mem
begin

text \<open>
  The data of TCP: the header, the segment and the protocol control block of \<^verbatim>\<open>lwip/tcp.h\<close>, the
  global variables of \<^verbatim>\<open>tcp.c\<close> and \<^verbatim>\<open>tcp_input.c\<close>, and the hand-over of packets to IP in
  \<^verbatim>\<open>sr_lwtcp_glue.c\<close>. The world of TCP extends the state of the packet buffers, pools and heap with
  the bytes of memory, so that headers are read and written where the code does. Segments and
  control blocks live at addresses handed out by the pools; an access to an address at which there
  is none, as after its release, is the fault \<open>None\<close>. A listening control block has only the fields
  up to the local port, so the full control block extends it.
\<close>

subsection \<open>Sequence numbers, headers and states\<close>

type_synonym err_t = "8 word"

abbreviation ERR_OK :: err_t where "ERR_OK \<equiv> 0"
abbreviation ERR_MEM :: err_t where "ERR_MEM \<equiv> - 1"
abbreviation ERR_BUF :: err_t where "ERR_BUF \<equiv> - 2"
abbreviation ERR_ABRT :: err_t where "ERR_ABRT \<equiv> - 3"
abbreviation ERR_RST :: err_t where "ERR_RST \<equiv> - 4"
abbreviation ERR_CONN :: err_t where "ERR_CONN \<equiv> - 6"
abbreviation ERR_VAL :: err_t where "ERR_VAL \<equiv> - 7"
abbreviation ERR_USE :: err_t where "ERR_USE \<equiv> - 10"

definition TCP_SEQ_LT :: "u32 \<Rightarrow> u32 \<Rightarrow> bool" where
  "TCP_SEQ_LT a b \<longleftrightarrow> sint (a - b) < 0"

definition TCP_SEQ_LEQ :: "u32 \<Rightarrow> u32 \<Rightarrow> bool" where
  "TCP_SEQ_LEQ a b \<longleftrightarrow> sint (a - b) \<le> 0"

definition TCP_SEQ_GT :: "u32 \<Rightarrow> u32 \<Rightarrow> bool" where
  "TCP_SEQ_GT a b \<longleftrightarrow> sint (a - b) > 0"

definition TCP_SEQ_GEQ :: "u32 \<Rightarrow> u32 \<Rightarrow> bool" where
  "TCP_SEQ_GEQ a b \<longleftrightarrow> sint (a - b) \<ge> 0"

abbreviation TCP_FIN :: u8 where "TCP_FIN \<equiv> 0x01"
abbreviation TCP_SYN :: u8 where "TCP_SYN \<equiv> 0x02"
abbreviation TCP_RST :: u8 where "TCP_RST \<equiv> 0x04"
abbreviation TCP_PSH :: u8 where "TCP_PSH \<equiv> 0x08"
abbreviation TCP_ACK :: u8 where "TCP_ACK \<equiv> 0x10"

abbreviation TCP_HLEN :: u16 where "TCP_HLEN \<equiv> 20"
abbreviation TCP_MSS :: u16 where "TCP_MSS \<equiv> 128"
abbreviation TCP_SND_BUF :: u16 where "TCP_SND_BUF \<equiv> 256"
abbreviation TCP_SND_QUEUELEN :: u8 where "TCP_SND_QUEUELEN \<equiv> 8"
abbreviation TCP_WND :: u16 where "TCP_WND \<equiv> 1024"
abbreviation TCP_MAXRTX :: u8 where "TCP_MAXRTX \<equiv> 12"
abbreviation TCP_SYNMAXRTX :: u8 where "TCP_SYNMAXRTX \<equiv> 4"
abbreviation TCP_SLOW_INTERVAL :: u32 where "TCP_SLOW_INTERVAL \<equiv> 500"
abbreviation TCP_FIN_WAIT_TIMEOUT :: u32 where "TCP_FIN_WAIT_TIMEOUT \<equiv> 20000"
abbreviation TCP_SYN_RCVD_TIMEOUT :: u32 where "TCP_SYN_RCVD_TIMEOUT \<equiv> 20000"
abbreviation TCP_OOSEQ_TIMEOUT :: u32 where "TCP_OOSEQ_TIMEOUT \<equiv> 6"
abbreviation TCP_MSL :: u32 where "TCP_MSL \<equiv> 60000"
abbreviation IP_PROTO_TCP :: u8 where "IP_PROTO_TCP \<equiv> 6"

text \<open>The fields of \<^verbatim>\<open>struct tcp_hdr\<close> at the address \<open>h\<close>, and the macros on its offset and flags.\<close>

abbreviation th_src :: "u32 \<Rightarrow> u32" where "th_src h \<equiv> h + 0"
abbreviation th_dest :: "u32 \<Rightarrow> u32" where "th_dest h \<equiv> h + 2"
abbreviation th_seqno :: "u32 \<Rightarrow> u32" where "th_seqno h \<equiv> h + 4"
abbreviation th_ackno :: "u32 \<Rightarrow> u32" where "th_ackno h \<equiv> h + 8"
abbreviation th_offset_flags :: "u32 \<Rightarrow> u32" where "th_offset_flags h \<equiv> h + 12"
abbreviation th_wnd :: "u32 \<Rightarrow> u32" where "th_wnd h \<equiv> h + 14"
abbreviation th_chksum :: "u32 \<Rightarrow> u32" where "th_chksum h \<equiv> h + 16"
abbreviation th_urgp :: "u32 \<Rightarrow> u32" where "th_urgp h \<equiv> h + 18"

definition TCPH_OFFSET :: "u32 \<Rightarrow> bytes \<Rightarrow> u16" where
  "TCPH_OFFSET h m = drop_bit 8 (ntohs (ld16 (th_offset_flags h) m))"

definition TCPH_FLAGS :: "u32 \<Rightarrow> bytes \<Rightarrow> u8" where
  "TCPH_FLAGS h m = ucast (and (ntohs (ld16 (th_offset_flags h) m)) 0xff)"

definition TCPH_OFFSET_SET :: "u32 \<Rightarrow> u16 \<Rightarrow> bytes \<Rightarrow> bytes" where
  "TCPH_OFFSET_SET h offset m = st16 (th_offset_flags h) (htons (or (push_bit 8 offset) (ucast (TCPH_FLAGS h m)))) m"

definition TCPH_FLAGS_SET :: "u32 \<Rightarrow> u8 \<Rightarrow> bytes \<Rightarrow> bytes" where
  "TCPH_FLAGS_SET h flags m = st16 (th_offset_flags h) (htons (or (push_bit 8 (TCPH_OFFSET h m)) (ucast flags))) m"

datatype tcp_state =
    CLOSED
  | LISTEN
  | SYN_SENT
  | SYN_RCVD
  | ESTABLISHED
  | FIN_WAIT_1
  | FIN_WAIT_2
  | CLOSE_WAIT
  | CLOSING
  | LAST_ACK
  | TIME_WAIT

text \<open>The code compares states by their numbers.\<close>

fun state_no :: "tcp_state \<Rightarrow> nat" where
  "state_no CLOSED = 0"
| "state_no LISTEN = 1"
| "state_no SYN_SENT = 2"
| "state_no SYN_RCVD = 3"
| "state_no ESTABLISHED = 4"
| "state_no FIN_WAIT_1 = 5"
| "state_no FIN_WAIT_2 = 6"
| "state_no CLOSE_WAIT = 7"
| "state_no CLOSING = 8"
| "state_no LAST_ACK = 9"
| "state_no TIME_WAIT = 10"

lemma state_no_inject [simp]: "state_no a = state_no b \<longleftrightarrow> a = b"
  by (cases a; cases b) simp_all

instantiation tcp_state :: linorder
begin

definition less_eq_tcp_state :: "tcp_state \<Rightarrow> tcp_state \<Rightarrow> bool" where
  "less_eq_tcp_state a b \<longleftrightarrow> state_no a \<le> state_no b"

definition less_tcp_state :: "tcp_state \<Rightarrow> tcp_state \<Rightarrow> bool" where
  "less_tcp_state a b \<longleftrightarrow> state_no a < state_no b"

instance
  by standard (auto simp: less_eq_tcp_state_def less_tcp_state_def)

end

subsection \<open>Segments, control blocks and the world of TCP\<close>

record tcp_seg =
  sg_next :: "u32 option"
  sg_p :: "u32 option"
  sg_dataptr :: u32
  sg_len :: u16
  sg_tcphdr :: u32

abbreviation TF_ACK_DELAY :: u8 where "TF_ACK_DELAY \<equiv> 0x01"
abbreviation TF_ACK_NOW :: u8 where "TF_ACK_NOW \<equiv> 0x02"
abbreviation TF_INFR :: u8 where "TF_INFR \<equiv> 0x04"
abbreviation TF_RESET :: u8 where "TF_RESET \<equiv> 0x08"
abbreviation TF_CLOSED :: u8 where "TF_CLOSED \<equiv> 0x10"
abbreviation TF_GOT_FIN :: u8 where "TF_GOT_FIN \<equiv> 0x20"

text \<open>Function pointers are numbers, \<open>None\<close> for NULL; the environment below says what a call does.\<close>

record tcp_pcb_listen =
  pcb_next :: "u32 option"
  pcb_state :: tcp_state
  pcb_callback_arg :: u32
  pcb_accept :: "nat option"
  pcb_local_ip :: u32
  pcb_local_port :: u16

record tcp_pcb = tcp_pcb_listen +
  pcb_remote_ip :: u32
  pcb_remote_port :: u16
  pcb_rcv_nxt :: u32
  pcb_rcv_wnd :: u16
  pcb_tmr :: u16
  pcb_rtime :: u8
  pcb_mss :: u16
  pcb_flags :: u8
  pcb_rttest :: u16
  pcb_rtseq :: u32
  pcb_sa :: u32
  pcb_sv :: u32
  pcb_rto :: u16
  pcb_nrtx :: u8
  pcb_lastack :: u32
  pcb_dupacks :: u8
  pcb_cwnd :: u16
  pcb_ssthresh :: u16
  pcb_snd_nxt :: u32
  pcb_snd_max :: u32
  pcb_snd_wnd :: u32
  pcb_snd_wl1 :: u32
  pcb_snd_wl2 :: u32
  pcb_snd_lbb :: u32
  pcb_snd_buf :: u16
  pcb_snd_queuelen :: u8
  pcb_sent :: "nat option"
  pcb_acked :: u16
  pcb_recv :: "nat option"
  pcb_recv_data :: "u32 option"
  pcb_connected :: "nat option"
  pcb_poll :: "nat option"
  pcb_errf :: "nat option"
  pcb_polltmr :: u8
  pcb_pollinterval :: u8
  pcb_unsent :: "u32 option"
  pcb_unacked :: "u32 option"
  pcb_ooseq :: "u32 option"

record tcp_stats =
  ts_xmit :: u16
  ts_rexmit :: u16
  ts_recv :: u16
  ts_fw :: u16
  ts_drop :: u16
  ts_chkerr :: u16
  ts_lenerr :: u16
  ts_memerr :: u16
  ts_rterr :: u16
  ts_proterr :: u16
  ts_opterr :: u16
  ts_err :: u16
  ts_cachehit :: u16

text \<open>A packet handed to IP: protocol, source and destination address, and the copied payload.\<close>

record ip_packet =
  ip_proto :: u8
  ip_src :: u32
  ip_dest :: u32
  ip_payload :: "u8 list"

record tcp_world = pbuf_state +
  mem8 :: bytes
  segs :: "u32 \<rightharpoonup> tcp_seg"
  pcbs :: "u32 \<rightharpoonup> tcp_pcb"
  lpcbs :: "u32 \<rightharpoonup> tcp_pcb_listen"
  tcp_listen_pcbs :: "u32 option"
  tcp_active_pcbs :: "u32 option"
  tcp_tw_pcbs :: "u32 option"
  tcp_ticks :: u32
  tcp_timer :: u8
  iss :: u32
  new_port :: u16
  inseg :: tcp_seg
  tcp_stats :: tcp_stats
  ip_out :: "ip_packet list"

text \<open>The calls through the function pointers of a control block.\<close>

datatype tcp_call =
    CALL_ACCEPT u32 u32 err_t
  | CALL_RECV u32 u32 "u32 option" err_t
  | CALL_SENT u32 u32 u16
  | CALL_CONNECTED u32 u32 err_t
  | CALL_POLL u32 u32
  | CALL_ERRF u32 err_t

text \<open>
  The environment: the address of the heap array and the application's functions, which may do
  anything to the world, or fault.
\<close>

record 's tcp_env =
  te_ram :: u32
  te_call :: "nat \<Rightarrow> tcp_call \<Rightarrow> 's \<Rightarrow> (err_t \<times> 's) option"

definition upd_seg :: "u32 \<Rightarrow> (tcp_seg \<Rightarrow> tcp_seg) \<Rightarrow> 'a tcp_world_scheme \<Rightarrow> 'a tcp_world_scheme option" where
  "upd_seg p f s = (case segs s p of None \<Rightarrow> None | Some g \<Rightarrow> Some (s\<lparr>segs := (segs s)(p \<mapsto> f g)\<rparr>))"

definition upd_pcb :: "u32 \<Rightarrow> (tcp_pcb \<Rightarrow> tcp_pcb) \<Rightarrow> 'a tcp_world_scheme \<Rightarrow> 'a tcp_world_scheme option" where
  "upd_pcb p f s = (case pcbs s p of None \<Rightarrow> None | Some c \<Rightarrow> Some (s\<lparr>pcbs := (pcbs s)(p \<mapsto> f c)\<rparr>))"

definition upd_mem :: "(bytes \<Rightarrow> bytes) \<Rightarrow> 'a tcp_world_scheme \<Rightarrow> 'a tcp_world_scheme" where
  "upd_mem f s = s\<lparr>mem8 := f (mem8 s)\<rparr>"

definition stat_tcp :: "(tcp_stats \<Rightarrow> tcp_stats) \<Rightarrow> 'a tcp_world_scheme \<Rightarrow> 'a tcp_world_scheme" where
  "stat_tcp f s = s\<lparr>tcp_stats := f (tcp_stats s)\<rparr>"

definition TCP_TCPLEN :: "tcp_seg \<Rightarrow> bytes \<Rightarrow> u32" where
  "TCP_TCPLEN seg m =
     ucast (sg_len seg) +
     (if and (TCPH_FLAGS (sg_tcphdr seg) m) TCP_FIN \<noteq> 0 \<or> and (TCPH_FLAGS (sg_tcphdr seg) m) TCP_SYN \<noteq> 0
      then 1 else 0)"

text \<open>The fields that both kinds of control block have, through a pointer to either.\<close>

definition pcb_prefix :: "u32 \<Rightarrow> 'a tcp_world_scheme \<Rightarrow> tcp_pcb_listen option" where
  "pcb_prefix p s = (case pcbs s p of Some c \<Rightarrow> Some (tcp_pcb_listen.truncate c) | None \<Rightarrow> lpcbs s p)"

definition set_pcb_next :: "u32 \<Rightarrow> u32 option \<Rightarrow> 'a tcp_world_scheme \<Rightarrow> 'a tcp_world_scheme option" where
  "set_pcb_next p n s =
     (case pcbs s p of
        Some c \<Rightarrow> Some (s\<lparr>pcbs := (pcbs s)(p \<mapsto> c\<lparr>pcb_next := n\<rparr>)\<rparr>)
      | None \<Rightarrow> (case lpcbs s p of
                   Some l \<Rightarrow> Some (s\<lparr>lpcbs := (lpcbs s)(p \<mapsto> l\<lparr>pcb_next := n\<rparr>)\<rparr>)
                 | None \<Rightarrow> None))"

subsection \<open>The lists of control blocks\<close>

datatype pcb_list = LISTEN_PCBS | ACTIVE_PCBS | TW_PCBS

fun list_head :: "pcb_list \<Rightarrow> 'a tcp_world_scheme \<Rightarrow> u32 option" where
  "list_head LISTEN_PCBS s = tcp_listen_pcbs s"
| "list_head ACTIVE_PCBS s = tcp_active_pcbs s"
| "list_head TW_PCBS s = tcp_tw_pcbs s"

fun set_head :: "pcb_list \<Rightarrow> u32 option \<Rightarrow> 'a tcp_world_scheme \<Rightarrow> 'a tcp_world_scheme" where
  "set_head LISTEN_PCBS p s = s\<lparr>tcp_listen_pcbs := p\<rparr>"
| "set_head ACTIVE_PCBS p s = s\<lparr>tcp_active_pcbs := p\<rparr>"
| "set_head TW_PCBS p s = s\<lparr>tcp_tw_pcbs := p\<rparr>"

definition TCP_REG :: "pcb_list \<Rightarrow> u32 \<Rightarrow> 'a tcp_world_scheme \<Rightarrow> 'a tcp_world_scheme option" where
  "TCP_REG l npcb s = do {
     s \<leftarrow> set_pcb_next npcb (list_head l s) s;
     Some (set_head l (Some npcb) s)
   }"

partial_function (option) rmv_loop :: "u32 option \<Rightarrow> u32 \<Rightarrow> 'a tcp_world_scheme \<Rightarrow> 'a tcp_world_scheme option" where
  "rmv_loop tmp npcb s =
     (case tmp of
        None \<Rightarrow> Some s
      | Some t \<Rightarrow> do {
          c \<leftarrow> pcb_prefix t s;
          if pcb_next c = Some npcb then do {
            n \<leftarrow> pcb_prefix npcb s;
            set_pcb_next t (pcb_next n) s
          }
          else rmv_loop (pcb_next c) npcb s
        })"

definition TCP_RMV :: "pcb_list \<Rightarrow> u32 \<Rightarrow> 'a tcp_world_scheme \<Rightarrow> 'a tcp_world_scheme option" where
  "TCP_RMV l npcb s = do {
     s \<leftarrow> (if list_head l s = Some npcb then do {
              c \<leftarrow> pcb_prefix npcb s;
              Some (set_head l (pcb_next c) s)
            }
            else rmv_loop (list_head l s) npcb s);
     set_pcb_next npcb None s
   }"

subsection \<open>Handing packets to IP\<close>

text \<open>The contents of the pbufs of a chain, for the checksum and for the copy that IP is given.\<close>

partial_function (option) chain_bytes :: "(u32 \<rightharpoonup> pbuf) \<Rightarrow> bytes \<Rightarrow> u32 option \<Rightarrow> u8 list list option" where
  "chain_bytes pbs m p =
     (case p of
        None \<Rightarrow> Some []
      | Some q \<Rightarrow> do {
          b \<leftarrow> pbs q;
          bss \<leftarrow> chain_bytes pbs m (pb_next b);
          Some (ld_bytes (unat (pb_len b)) (pb_payload b) m # bss)
        })"

definition chksum_pseudo :: "u32 \<Rightarrow> u32 \<Rightarrow> u32 \<Rightarrow> u8 \<Rightarrow> u16 \<Rightarrow> 'a tcp_world_scheme \<Rightarrow> u16 option" where
  "chksum_pseudo p src dest proto len s = do {
     bss \<leftarrow> chain_bytes (pbufs s) (mem8 s) (Some p);
     Some (inet_chksum_pseudo bss src dest proto len)
   }"

text \<open>
  The hooks that a router implementation fills in: there is no route, and a packet given to IP is
  dropped. The model records what IP is given.
\<close>

definition sr_integ_findsrcip :: "u32 \<Rightarrow> u32" where
  "sr_integ_findsrcip dest = 0"

definition ip_route :: "u32 \<Rightarrow> u32" where
  "ip_route dest = sr_integ_findsrcip dest"

definition sr_integ_ip_output :: "u8 list \<Rightarrow> u8 \<Rightarrow> u32 \<Rightarrow> u32 \<Rightarrow> 'a tcp_world_scheme \<Rightarrow> u32 \<times> 'a tcp_world_scheme" where
  "sr_integ_ip_output payload proto src dest s =
     (0, s\<lparr>ip_out := ip_out s @ [\<lparr>ip_proto = proto, ip_src = src, ip_dest = dest, ip_payload = payload\<rparr>]\<rparr>)"

text \<open>
  The payload is copied into a fresh buffer of \<^verbatim>\<open>tot_len\<close> bytes: pbufs that hold more overrun it.
  A shorter chain leaves bytes of the buffer unset; they are not part of the recorded payload.
\<close>

definition sr_lwip_output :: "u32 \<Rightarrow> u32 \<Rightarrow> u32 \<Rightarrow> u8 \<Rightarrow> 'a tcp_world_scheme \<Rightarrow> (err_t \<times> 'a tcp_world_scheme) option" where
  "sr_lwip_output p src dst proto s = do {
     b \<leftarrow> pbufs s p;
     bss \<leftarrow> chain_bytes (pbufs s) (mem8 s) (Some p);
     if length (concat bss) > unat (pb_tot_len b) then None
     else do {
       let (r, s) = sr_integ_ip_output (concat bss) proto src dst s;
       Some (0, s)
     }
   }"

end
