(* ===== verification/Tcp_Output.thy ===== *)
theory Tcp_Output
  imports Tcp_Types
begin

text \<open>
  \<^verbatim>\<open>lwtcp/tcp_output.c\<close>: queueing data for transmission and sending what the window allows, and the
  release of segments of \<^verbatim>\<open>tcp.c\<close>. The argument \<open>E\<close> is the environment. Loops over lists of
  segments are partial functions.
\<close>

subsection \<open>Segments\<close>

definition tcp_seg_free :: "'s tcp_env \<Rightarrow> u32 option \<Rightarrow> 'a tcp_world_scheme \<Rightarrow> (u8 \<times> 'a tcp_world_scheme) option" where
  "tcp_seg_free E seg s =
     (case seg of
        None \<Rightarrow> Some (0, s)
      | Some q \<Rightarrow> do {
          g \<leftarrow> segs s q;
          (count, s) \<leftarrow> (case sg_p g of None \<Rightarrow> Some (0, s) | Some p \<Rightarrow> pbuf_free (te_ram E) (Some p) s);
          let s = memp_free MEMP_TCP_SEG (Some q) s;
          Some (count, s\<lparr>segs := (segs s)(q := None)\<rparr>)
        })"

partial_function (option) tcp_segs_free_loop ::
  "'s tcp_env \<Rightarrow> u32 option \<Rightarrow> u8 \<Rightarrow> 'a tcp_world_scheme \<Rightarrow> (u8 \<times> 'a tcp_world_scheme) option" where
  "tcp_segs_free_loop E seg count s =
     (case seg of
        None \<Rightarrow> Some (count, s)
      | Some q \<Rightarrow> do {
          g \<leftarrow> segs s q;
          (n, s) \<leftarrow> tcp_seg_free E (Some q) s;
          tcp_segs_free_loop E (sg_next g) (count + n) s
        })"

definition tcp_segs_free :: "'s tcp_env \<Rightarrow> u32 option \<Rightarrow> 'a tcp_world_scheme \<Rightarrow> (u8 \<times> 'a tcp_world_scheme) option" where
  "tcp_segs_free E seg s = tcp_segs_free_loop E seg 0 s"

definition tcp_seg_copy :: "tcp_seg \<Rightarrow> 'a tcp_world_scheme \<Rightarrow> (u32 option \<times> 'a tcp_world_scheme) option" where
  "tcp_seg_copy seg s =
     (case memp_malloc MEMP_TCP_SEG s of
        (None, s) \<Rightarrow> Some (None, s)
      | (Some c, s) \<Rightarrow> do {
          let s = s\<lparr>segs := (segs s)(c \<mapsto> seg)\<rparr>;
          s \<leftarrow> pbuf_ref (sg_p seg) s;
          Some (Some c, s)
        })"

partial_function (option) last_seg :: "(u32 \<rightharpoonup> tcp_seg) \<Rightarrow> u32 \<Rightarrow> u32 option" where
  "last_seg sgs p =
     (case sgs p of
        None \<Rightarrow> None
      | Some g \<Rightarrow> (case sg_next g of None \<Rightarrow> Some p | Some q \<Rightarrow> last_seg sgs q))"

subsection \<open>Queueing\<close>

text \<open>
  The arguments of \<open>tcp_enqueue\<close> that its loop uses (\<open>eq_opt\<close> is \<^verbatim>\<open>optdata\<close> with its \<^verbatim>\<open>optlen\<close>
  bytes) and the variables of the loop.
\<close>

record enq_args =
  eq_arg :: "u32 option"
  eq_flags :: u8
  eq_copy :: u8
  eq_opt :: "u8 list option"

record enq_vars =
  ev_queue :: "u32 option"
  ev_seg :: "u32 option"
  ev_left :: u32
  ev_seqno :: u32
  ev_seglen :: u16
  ev_ptr :: u32
  ev_queuelen :: u8

text \<open>
  The allocation of the pbufs of a segment; the answer is \<open>False\<close> when the code jumps to
  \<^verbatim>\<open>memerr\<close>. The number of pbufs is added to \<^verbatim>\<open>queuelen\<close>.
\<close>

definition enqueue_pbufs ::
  "'s tcp_env \<Rightarrow> enq_args \<Rightarrow> u32 \<Rightarrow> u16 \<Rightarrow> u32 \<Rightarrow> u8 \<Rightarrow> 'a tcp_world_scheme \<Rightarrow> ((bool \<times> u8) \<times> 'a tcp_world_scheme) option" where
  "enqueue_pbufs E A seg seglen ptr queuelen s =
     (case eq_opt A of
        Some opt \<Rightarrow> do {
          (p, s) \<leftarrow> pbuf_alloc (te_ram E) PBUF_TRANSPORT (of_nat (length opt)) PBUF_RAM s;
          s \<leftarrow> upd_seg seg (\<lambda>g. g\<lparr>sg_p := p\<rparr>) s;
          case p of
            None \<Rightarrow> Some ((False, queuelen), s)
          | Some p \<Rightarrow> do {
              b \<leftarrow> pbufs s p;
              s \<leftarrow> upd_seg seg (\<lambda>g. g\<lparr>sg_dataptr := pb_payload b\<rparr>) s;
              Some ((True, queuelen + 1), s)
            }
        }
      | None \<Rightarrow>
          if eq_copy A \<noteq> 0 then do {
            (p, s) \<leftarrow> pbuf_alloc (te_ram E) PBUF_TRANSPORT seglen PBUF_RAM s;
            s \<leftarrow> upd_seg seg (\<lambda>g. g\<lparr>sg_p := p\<rparr>) s;
            case p of
              None \<Rightarrow> Some ((False, queuelen), s)
            | Some p \<Rightarrow> do {
                b \<leftarrow> pbufs s p;
                let s = (if eq_arg A \<noteq> None then upd_mem (bcopy ptr (pb_payload b) (unat seglen)) s else s);
                s \<leftarrow> upd_seg seg (\<lambda>g. g\<lparr>sg_dataptr := pb_payload b\<rparr>) s;
                Some ((True, queuelen + 1), s)
              }
          }
          else do {
            (p, s) \<leftarrow> pbuf_alloc (te_ram E) PBUF_TRANSPORT seglen PBUF_ROM s;
            case p of
              None \<Rightarrow> Some ((False, queuelen), s)
            | Some p \<Rightarrow> do {
                s \<leftarrow> upd_pbuf p (\<lambda>b. b\<lparr>pb_payload := ptr\<rparr>) s;
                s \<leftarrow> upd_seg seg (\<lambda>g. g\<lparr>sg_dataptr := ptr\<rparr>) s;
                (h, s) \<leftarrow> pbuf_alloc (te_ram E) PBUF_TRANSPORT 0 PBUF_RAM s;
                s \<leftarrow> upd_seg seg (\<lambda>g. g\<lparr>sg_p := h\<rparr>) s;
                case h of
                  None \<Rightarrow> do {
                    (n, s) \<leftarrow> pbuf_free (te_ram E) (Some p) s;
                    Some ((False, queuelen + 1), s)
                  }
                | Some h \<Rightarrow> do {
                    s \<leftarrow> pbuf_chain h p s;
                    Some ((True, queuelen + 2), s)
                  }
              }
          })"

text \<open>The header of a queued segment; the acknowledgement and the window are filled in when it is sent.\<close>

definition enqueue_header :: "enq_args \<Rightarrow> tcp_pcb \<Rightarrow> u32 \<Rightarrow> u32 \<Rightarrow> bytes \<Rightarrow> bytes" where
  "enqueue_header A c h seqno m =
     (let m = st16 (th_src h) (htons (pcb_local_port c)) m;
          m = st16 (th_dest h) (htons (pcb_remote_port c)) m;
          m = st32 (th_seqno h) (htonl seqno) m;
          m = st16 (th_urgp h) 0 m;
          m = TCPH_FLAGS_SET h (eq_flags A) m
      in case eq_opt A of
           None \<Rightarrow> TCPH_OFFSET_SET h (push_bit 4 5) m
         | Some opt \<Rightarrow> TCPH_OFFSET_SET h (push_bit 4 (5 + of_nat (length opt) div 4)) m)"

definition enqueue_body ::
  "'s tcp_env \<Rightarrow> u32 \<Rightarrow> enq_args \<Rightarrow> enq_vars \<Rightarrow> 'a tcp_world_scheme \<Rightarrow> ((bool \<times> enq_vars) \<times> 'a tcp_world_scheme) option" where
  "enqueue_body E pcb A v s = do {
     c \<leftarrow> pcbs s pcb;
     let v = v\<lparr>ev_seglen := (if ev_left v > ucast (pcb_mss c) then pcb_mss c else ucast (ev_left v))\<rparr>;
     let (seg, s) = memp_malloc MEMP_TCP_SEG s;
     case seg of
       None \<Rightarrow> Some ((False, v\<lparr>ev_seg := None\<rparr>), s)
     | Some seg \<Rightarrow> do {
         let s = s\<lparr>segs := (segs s)(seg \<mapsto> \<lparr>sg_next = None, sg_p = None, sg_dataptr = 0, sg_len = 0, sg_tcphdr = 0\<rparr>)\<rparr>;
         s \<leftarrow> (case ev_queue v of
                  None \<Rightarrow> Some s
                | Some q \<Rightarrow> do {
                    useg \<leftarrow> last_seg (segs s) q;
                    upd_seg useg (\<lambda>g. g\<lparr>sg_next := Some seg\<rparr>) s
                  });
         let v = v\<lparr>ev_seg := Some seg, ev_queue := (if ev_queue v = None then Some seg else ev_queue v)\<rparr>;
         ((ok, queuelen), s) \<leftarrow> enqueue_pbufs E A seg (ev_seglen v) (ev_ptr v) (ev_queuelen v) s;
         let v = v\<lparr>ev_queuelen := queuelen\<rparr>;
         if \<not> ok \<or> queuelen > TCP_SND_QUEUELEN then Some ((False, v), s)
         else do {
           s \<leftarrow> upd_seg seg (\<lambda>g. g\<lparr>sg_len := ev_seglen v\<rparr>) s;
           g \<leftarrow> segs s seg;
           p \<leftarrow> sg_p g;
           (r, s) \<leftarrow> pbuf_header p TCP_HLEN s;
           if r \<noteq> 0 then Some ((False, v), stat_tcp (\<lambda>st. st\<lparr>ts_err := ts_err st + 1\<rparr>) s)
           else do {
             b \<leftarrow> pbufs s p;
             let h = pb_payload b;
             s \<leftarrow> upd_seg seg (\<lambda>g. g\<lparr>sg_tcphdr := h\<rparr>) s;
             let s = upd_mem (enqueue_header A c h (ev_seqno v)) s;
             let s = (case eq_opt A of None \<Rightarrow> s | Some opt \<Rightarrow> upd_mem (st_bytes (sg_dataptr g) opt) s);
             Some ((True, v\<lparr>ev_left := ev_left v - ucast (ev_seglen v), ev_seqno := ev_seqno v + ucast (ev_seglen v),
                            ev_ptr := ev_ptr v + ucast (ev_seglen v)\<rparr>), s)
           }
         }
       }
   }"

partial_function (option) enqueue_loop ::
  "'s tcp_env \<Rightarrow> u32 \<Rightarrow> enq_args \<Rightarrow> enq_vars \<Rightarrow> 'a tcp_world_scheme \<Rightarrow> ((bool \<times> enq_vars) \<times> 'a tcp_world_scheme) option" where
  "enqueue_loop E pcb A v s =
     (if ev_queue v = None \<or> ev_left v > 0 then do {
        ((ok, v), s) \<leftarrow> enqueue_body E pcb A v s;
        if ok then enqueue_loop E pcb A v s else Some ((False, v), s)
      }
      else Some ((True, v), s))"

text \<open>
  Appending the new segments to the unsent queue: the first of them is merged into the last unsent
  segment if it fits. The answer is the variable \<^verbatim>\<open>seg\<close>.
\<close>

definition enqueue_append ::
  "u32 \<Rightarrow> u8 \<Rightarrow> u32 \<Rightarrow> u32 option \<Rightarrow> 'a tcp_world_scheme \<Rightarrow> (u32 option \<times> 'a tcp_world_scheme) option" where
  "enqueue_append pcb flags queue seg s = do {
     c \<leftarrow> pcbs s pcb;
     case pcb_unsent c of
       None \<Rightarrow> do {
         s \<leftarrow> upd_pcb pcb (\<lambda>c. c\<lparr>pcb_unsent := Some queue\<rparr>) s;
         Some (seg, s)
       }
     | Some us \<Rightarrow> do {
         useg \<leftarrow> last_seg (segs s) us;
         u \<leftarrow> segs s useg;
         q \<leftarrow> segs s queue;
         if TCP_TCPLEN u (mem8 s) \<noteq> 0 \<and>
            and (TCPH_FLAGS (sg_tcphdr u) (mem8 s)) (or TCP_SYN TCP_FIN) = 0 \<and>
            and flags (or TCP_SYN TCP_FIN) = 0 \<and>
            unat (sg_len u) + unat (sg_len q) \<le> unat (pcb_mss c)
         then do {
           qp \<leftarrow> sg_p q;
           (r, s) \<leftarrow> pbuf_header qp (- TCP_HLEN) s;
           up \<leftarrow> sg_p u;
           s \<leftarrow> pbuf_chain up qp s;
           s \<leftarrow> upd_seg useg (\<lambda>g. g\<lparr>sg_len := sg_len g + sg_len q, sg_next := sg_next q\<rparr>) s;
           let s = memp_free MEMP_TCP_SEG (Some queue) s;
           let s = s\<lparr>segs := (segs s)(queue := None)\<rparr>;
           Some (if seg = Some queue then None else seg, s)
         }
         else do {
           s \<leftarrow> upd_seg useg (\<lambda>g. g\<lparr>sg_next := Some queue\<rparr>) s;
           Some (seg, s)
         }
       }
   }"

definition enqueue_memerr ::
  "'s tcp_env \<Rightarrow> u32 option \<Rightarrow> 'a tcp_world_scheme \<Rightarrow> (err_t \<times> 'a tcp_world_scheme) option" where
  "enqueue_memerr E queue s = do {
     let s = stat_tcp (\<lambda>st. st\<lparr>ts_memerr := ts_memerr st + 1\<rparr>) s;
     (n, s) \<leftarrow> tcp_segs_free E queue s;
     Some (ERR_MEM, s)
   }"

definition tcp_enqueue ::
  "'s tcp_env \<Rightarrow> u32 \<Rightarrow> u32 option \<Rightarrow> u16 \<Rightarrow> u8 \<Rightarrow> u8 \<Rightarrow> u8 list option \<Rightarrow> 'a tcp_world_scheme \<Rightarrow>
     (err_t \<times> 'a tcp_world_scheme) option" where
  "tcp_enqueue E pcb arg len flags copy optdata s = do {
     c \<leftarrow> pcbs s pcb;
     if len > pcb_snd_buf c then Some (ERR_MEM, s)
     else if pcb_snd_queuelen c \<ge> TCP_SND_QUEUELEN then enqueue_memerr E None s
     else do {
       let A = \<lparr>eq_arg = arg, eq_flags = flags, eq_copy = copy, eq_opt = optdata\<rparr>;
       ((ok, v), s) \<leftarrow> enqueue_loop E pcb A
         \<lparr>ev_queue = None, ev_seg = None, ev_left = ucast len, ev_seqno = pcb_snd_lbb c, ev_seglen = 0,
          ev_ptr = (case arg of None \<Rightarrow> 0 | Some a \<Rightarrow> a), ev_queuelen = pcb_snd_queuelen c\<rparr> s;
       if \<not> ok then enqueue_memerr E (ev_queue v) s
       else do {
         queue \<leftarrow> ev_queue v;
         (seg, s) \<leftarrow> enqueue_append pcb flags queue (ev_seg v) s;
         let len = (if and flags TCP_SYN \<noteq> 0 \<or> and flags TCP_FIN \<noteq> 0 then len + 1 else len);
         s \<leftarrow> upd_pcb pcb (\<lambda>c. c\<lparr>pcb_snd_lbb := pcb_snd_lbb c + ucast len, pcb_snd_buf := pcb_snd_buf c - len,
                                  pcb_snd_queuelen := ev_queuelen v\<rparr>) s;
         case seg of
           None \<Rightarrow> Some (ERR_OK, s)
         | Some seg \<Rightarrow> do {
             g \<leftarrow> segs s seg;
             let h = sg_tcphdr g;
             Some (ERR_OK, if ev_seglen v > 0 \<and> h \<noteq> 0
                           then upd_mem (\<lambda>m. TCPH_FLAGS_SET h (or (TCPH_FLAGS h m) TCP_PSH) m) s else s)
           }
       }
     }
   }"

definition tcp_send_ctrl :: "'s tcp_env \<Rightarrow> u32 \<Rightarrow> u8 \<Rightarrow> 'a tcp_world_scheme \<Rightarrow> (err_t \<times> 'a tcp_world_scheme) option" where
  "tcp_send_ctrl E pcb flags s = tcp_enqueue E pcb None 0 flags 1 None s"

definition tcp_write ::
  "'s tcp_env \<Rightarrow> u32 \<Rightarrow> u32 \<Rightarrow> u16 \<Rightarrow> u8 \<Rightarrow> 'a tcp_world_scheme \<Rightarrow> (err_t \<times> 'a tcp_world_scheme) option" where
  "tcp_write E pcb arg len copy s = do {
     c \<leftarrow> pcbs s pcb;
     if pcb_state c \<in> {SYN_SENT, SYN_RCVD, ESTABLISHED, CLOSE_WAIT} then
       if len > 0 then tcp_enqueue E pcb (Some arg) len 0 copy None s else Some (ERR_OK, s)
     else Some (ERR_CONN, s)
   }"

subsection \<open>Sending\<close>

text \<open>
  The checksum of a packet and its hand-over to IP. IP may move the payload of the first pbuf, so
  the caller restores its fields; the implementation of the hook here does not touch the pbuf.
\<close>

definition xmit_seg :: "tcp_seg \<Rightarrow> u32 \<Rightarrow> u32 \<Rightarrow> 'a tcp_world_scheme \<Rightarrow> 'a tcp_world_scheme option" where
  "xmit_seg g src dst s = do {
     p \<leftarrow> sg_p g;
     b \<leftarrow> pbufs s p;
     let len = pb_len b;
     let tot_len = pb_tot_len b;
     (r, s) \<leftarrow> sr_lwip_output p src dst IP_PROTO_TCP s;
     upd_pbuf p (\<lambda>b. b\<lparr>pb_len := len, pb_tot_len := tot_len, pb_payload := sg_tcphdr g\<rparr>) s
   }"

definition set_chksum :: "u32 \<Rightarrow> u32 \<Rightarrow> u32 \<Rightarrow> u32 \<Rightarrow> 'a tcp_world_scheme \<Rightarrow> 'a tcp_world_scheme option" where
  "set_chksum h p src dst s = do {
     let s = upd_mem (st16 (th_chksum h) 0) s;
     b \<leftarrow> pbufs s p;
     k \<leftarrow> chksum_pseudo p src dst IP_PROTO_TCP (pb_tot_len b) s;
     Some (upd_mem (st16 (th_chksum h) k) s)
   }"

definition tcp_output_segment :: "u32 \<Rightarrow> u32 \<Rightarrow> 'a tcp_world_scheme \<Rightarrow> 'a tcp_world_scheme option" where
  "tcp_output_segment seg pcb s = do {
     g \<leftarrow> segs s seg;
     c \<leftarrow> pcbs s pcb;
     let h = sg_tcphdr g;
     let s = upd_mem (st32 (th_ackno h) (htonl (pcb_rcv_nxt c))) s;
     let s = upd_mem (st16 (th_wnd h) (if pcb_rcv_wnd c < pcb_mss c then 0 else htons (pcb_rcv_wnd c))) s;
     s \<leftarrow> (if pcb_local_ip c = 0 then
              let addr = ip_route (pcb_remote_ip c)
              in if addr = 0 then None else upd_pcb pcb (\<lambda>c. c\<lparr>pcb_local_ip := addr\<rparr>) s
            else Some s);
     s \<leftarrow> upd_pcb pcb (\<lambda>c. c\<lparr>pcb_rtime := 0\<rparr>) s;
     s \<leftarrow> (if pcb_rttest c = 0
            then upd_pcb pcb (\<lambda>c. c\<lparr>pcb_rttest := ucast (tcp_ticks s), pcb_rtseq := ntohl (ld32 (th_seqno h) (mem8 s))\<rparr>) s
            else Some s);
     c \<leftarrow> pcbs s pcb;
     p \<leftarrow> sg_p g;
     s \<leftarrow> set_chksum h p (pcb_local_ip c) (pcb_remote_ip c) s;
     let s = stat_tcp (\<lambda>st. st\<lparr>ts_xmit := ts_xmit st + 1\<rparr>) s;
     xmit_seg g (pcb_local_ip c) (pcb_remote_ip c) s
   }"

definition in_window :: "tcp_seg \<Rightarrow> tcp_pcb \<Rightarrow> u32 \<Rightarrow> bytes \<Rightarrow> bool" where
  "in_window g c wnd m \<longleftrightarrow> ntohl (ld32 (th_seqno (sg_tcphdr g)) m) - pcb_lastack c + ucast (sg_len g) \<le> wnd"

text \<open>One pass of the loop of \<open>tcp_output\<close>, for the segment \<open>seg\<close> at the head of the unsent queue.\<close>

definition output_body :: "'s tcp_env \<Rightarrow> u32 \<Rightarrow> u32 \<Rightarrow> 'a tcp_world_scheme \<Rightarrow> 'a tcp_world_scheme option" where
  "output_body E pcb seg s = do {
     g \<leftarrow> segs s seg;
     let h = sg_tcphdr g;
     s \<leftarrow> upd_pcb pcb (\<lambda>c. c\<lparr>pcb_rtime := 0, pcb_unsent := sg_next g\<rparr>) s;
     c \<leftarrow> pcbs s pcb;
     s \<leftarrow> (if pcb_state c \<noteq> SYN_SENT
            then upd_pcb pcb (\<lambda>c. c\<lparr>pcb_flags := and (pcb_flags c) (not (or TF_ACK_DELAY TF_ACK_NOW))\<rparr>)
                   (upd_mem (\<lambda>m. TCPH_FLAGS_SET h (or (TCPH_FLAGS h m) TCP_ACK) m) s)
            else Some s);
     s \<leftarrow> tcp_output_segment seg pcb s;
     let nxt = ntohl (ld32 (th_seqno h) (mem8 s)) + TCP_TCPLEN g (mem8 s);
     s \<leftarrow> upd_pcb pcb (\<lambda>c. c\<lparr>pcb_snd_nxt := nxt, pcb_snd_max := (if TCP_SEQ_LT (pcb_snd_max c) nxt then nxt else pcb_snd_max c)\<rparr>) s;
     if TCP_TCPLEN g (mem8 s) > 0 then do {
       s \<leftarrow> upd_seg seg (\<lambda>g. g\<lparr>sg_next := None\<rparr>) s;
       c \<leftarrow> pcbs s pcb;
       case pcb_unacked c of
         None \<Rightarrow> upd_pcb pcb (\<lambda>c. c\<lparr>pcb_unacked := Some seg\<rparr>) s
       | Some q \<Rightarrow> do {
           useg \<leftarrow> last_seg (segs s) q;
           upd_seg useg (\<lambda>g. g\<lparr>sg_next := Some seg\<rparr>) s
         }
     }
     else do {
       (n, s) \<leftarrow> tcp_seg_free E (Some seg) s;
       Some s
     }
   }"

partial_function (option) output_loop :: "'s tcp_env \<Rightarrow> u32 \<Rightarrow> u32 \<Rightarrow> 'a tcp_world_scheme \<Rightarrow> 'a tcp_world_scheme option" where
  "output_loop E pcb wnd s = do {
     c \<leftarrow> pcbs s pcb;
     case pcb_unsent c of
       None \<Rightarrow> Some s
     | Some seg \<Rightarrow> do {
         g \<leftarrow> segs s seg;
         if in_window g c wnd (mem8 s) then do {
           s \<leftarrow> output_body E pcb seg s;
           output_loop E pcb wnd s
         }
         else Some s
       }
   }"

text \<open>The header of an empty segment with the given flags: of an acknowledgement or a reset.\<close>

definition ctrl_header :: "u32 \<Rightarrow> u16 \<Rightarrow> u16 \<Rightarrow> u32 \<Rightarrow> u32 \<Rightarrow> u8 \<Rightarrow> u16 \<Rightarrow> bytes \<Rightarrow> bytes" where
  "ctrl_header h local_port remote_port seqno ackno flags wnd m =
     (let m = st16 (th_src h) (htons local_port) m;
          m = st16 (th_dest h) (htons remote_port) m;
          m = st32 (th_seqno h) (htonl seqno) m;
          m = st32 (th_ackno h) (htonl ackno) m;
          m = TCPH_FLAGS_SET h flags m;
          m = st16 (th_wnd h) (htons wnd) m;
          m = st16 (th_urgp h) 0 m
      in TCPH_OFFSET_SET h (push_bit 4 5) m)"

definition send_empty_ack :: "'s tcp_env \<Rightarrow> u32 \<Rightarrow> 'a tcp_world_scheme \<Rightarrow> (err_t \<times> 'a tcp_world_scheme) option" where
  "send_empty_ack E pcb s = do {
     s \<leftarrow> upd_pcb pcb (\<lambda>c. c\<lparr>pcb_flags := and (pcb_flags c) (not (or TF_ACK_DELAY TF_ACK_NOW))\<rparr>) s;
     (p, s) \<leftarrow> pbuf_alloc (te_ram E) PBUF_TRANSPORT 0 PBUF_RAM s;
     case p of
       None \<Rightarrow> Some (ERR_BUF, s)
     | Some p \<Rightarrow> do {
         (r, s) \<leftarrow> pbuf_header p TCP_HLEN s;
         if r \<noteq> 0 then do {
           let s = stat_tcp (\<lambda>st. st\<lparr>ts_err := ts_err st + 1\<rparr>) s;
           (n, s) \<leftarrow> pbuf_free (te_ram E) (Some p) s;
           Some (ERR_BUF, s)
         }
         else do {
           b \<leftarrow> pbufs s p;
           c \<leftarrow> pcbs s pcb;
           let h = pb_payload b;
           let s = upd_mem (ctrl_header h (pcb_local_port c) (pcb_remote_port c) (pcb_snd_nxt c) (pcb_rcv_nxt c)
                              TCP_ACK (pcb_rcv_wnd c)) s;
           s \<leftarrow> set_chksum h p (pcb_local_ip c) (pcb_remote_ip c) s;
           (r, s) \<leftarrow> sr_lwip_output p (pcb_local_ip c) (pcb_remote_ip c) IP_PROTO_TCP s;
           (n, s) \<leftarrow> pbuf_free (te_ram E) (Some p) s;
           Some (ERR_OK, s)
         }
       }
   }"

definition tcp_output :: "'s tcp_env \<Rightarrow> u32 \<Rightarrow> 'a tcp_world_scheme \<Rightarrow> (err_t \<times> 'a tcp_world_scheme) option" where
  "tcp_output E pcb s = do {
     c \<leftarrow> pcbs s pcb;
     let wnd = min (pcb_snd_wnd c) (ucast (pcb_cwnd c));
     if and (pcb_flags c) TF_ACK_NOW \<noteq> 0 then send_empty_ack E pcb s
     else do {
       s \<leftarrow> output_loop E pcb wnd s;
       Some (ERR_OK, s)
     }
   }"

definition tcp_rexmit_seg :: "u32 \<Rightarrow> u32 \<Rightarrow> 'a tcp_world_scheme \<Rightarrow> 'a tcp_world_scheme option" where
  "tcp_rexmit_seg pcb seg s = do {
     c \<leftarrow> pcbs s pcb;
     g \<leftarrow> segs s seg;
     let wnd = min (pcb_snd_wnd c) (ucast (pcb_cwnd c));
     if in_window g c wnd (mem8 s) then do {
       let h = sg_tcphdr g;
       s \<leftarrow> upd_pcb pcb (\<lambda>c. c\<lparr>pcb_nrtx := pcb_nrtx c + 1\<rparr>) s;
       let s = upd_mem (st32 (th_ackno h) (htonl (pcb_rcv_nxt c))) s;
       let s = upd_mem (st16 (th_wnd h) (htons (pcb_rcv_wnd c))) s;
       p \<leftarrow> sg_p g;
       s \<leftarrow> set_chksum h p (pcb_local_ip c) (pcb_remote_ip c) s;
       s \<leftarrow> xmit_seg g (pcb_local_ip c) (pcb_remote_ip c) s;
       let s = stat_tcp (\<lambda>st. st\<lparr>ts_xmit := ts_xmit st + 1, ts_rexmit := ts_rexmit st + 1\<rparr>) s;
       upd_pcb pcb (\<lambda>c. c\<lparr>pcb_rtime := 0, pcb_rttest := 0\<rparr>) s
     }
     else Some s
   }"

text \<open>The macros \<^verbatim>\<open>tcp_ack\<close> and \<^verbatim>\<open>tcp_ack_now\<close>.\<close>

definition tcp_ack_now :: "'s tcp_env \<Rightarrow> u32 \<Rightarrow> 'a tcp_world_scheme \<Rightarrow> 'a tcp_world_scheme option" where
  "tcp_ack_now E pcb s = do {
     s \<leftarrow> upd_pcb pcb (\<lambda>c. c\<lparr>pcb_flags := or (pcb_flags c) TF_ACK_NOW\<rparr>) s;
     (r, s) \<leftarrow> tcp_output E pcb s;
     Some s
   }"

definition tcp_ack :: "'s tcp_env \<Rightarrow> u32 \<Rightarrow> 'a tcp_world_scheme \<Rightarrow> 'a tcp_world_scheme option" where
  "tcp_ack E pcb s = do {
     c \<leftarrow> pcbs s pcb;
     if and (pcb_flags c) TF_ACK_DELAY \<noteq> 0 then tcp_ack_now E pcb s
     else upd_pcb pcb (\<lambda>c. c\<lparr>pcb_flags := or (pcb_flags c) TF_ACK_DELAY\<rparr>) s
   }"

end
