(* ===== verification/Tcp_Pcb.thy ===== *)
theory Tcp_Pcb
  imports Tcp_Output
begin

text \<open>
  \<^verbatim>\<open>lwtcp/tcp.c\<close> and the reset of \<^verbatim>\<open>tcp_output.c\<close>: the life of protocol control blocks and the
  timers. Sending a reset may reclaim memory, which aborts the oldest connection, which sends a
  reset: this recursion is a partial function whose recursive call goes through the list of
  registered reclaim functions. A shift that C leaves undefined, and an access outside of the table
  of backoffs, are the fault \<open>None\<close>.
\<close>

subsection \<open>Removing control blocks\<close>

definition set_pcb_prefix :: "u32 \<Rightarrow> (tcp_pcb_listen \<Rightarrow> tcp_pcb_listen) \<Rightarrow> (tcp_pcb \<Rightarrow> tcp_pcb) \<Rightarrow> 'a tcp_world_scheme \<Rightarrow> 'a tcp_world_scheme option" where
  "set_pcb_prefix p fl fp s =
     (case pcbs s p of
        Some c \<Rightarrow> Some (s\<lparr>pcbs := (pcbs s)(p \<mapsto> fp c)\<rparr>)
      | None \<Rightarrow> (case lpcbs s p of
                   Some l \<Rightarrow> Some (s\<lparr>lpcbs := (lpcbs s)(p \<mapsto> fl l)\<rparr>)
                 | None \<Rightarrow> None))"

definition free_pcb :: "u32 \<Rightarrow> 'a tcp_world_scheme \<Rightarrow> 'a tcp_world_scheme" where
  "free_pcb p s = (let s = memp_free MEMP_TCP_PCB (Some p) s in s\<lparr>pcbs := (pcbs s)(p := None)\<rparr>)"

definition free_lpcb :: "u32 \<Rightarrow> 'a tcp_world_scheme \<Rightarrow> 'a tcp_world_scheme" where
  "free_lpcb p s = (let s = memp_free MEMP_TCP_PCB_LISTEN (Some p) s in s\<lparr>lpcbs := (lpcbs s)(p := None)\<rparr>)"

definition tcp_pcb_purge :: "'s tcp_env \<Rightarrow> u32 \<Rightarrow> 'a tcp_world_scheme \<Rightarrow> 'a tcp_world_scheme option" where
  "tcp_pcb_purge E pcb s = do {
     l \<leftarrow> pcb_prefix pcb s;
     if pcb_state l \<noteq> CLOSED \<and> pcb_state l \<noteq> TIME_WAIT \<and> pcb_state l \<noteq> LISTEN then do {
       c \<leftarrow> pcbs s pcb;
       (n, s) \<leftarrow> tcp_segs_free E (pcb_unsent c) s;
       (n, s) \<leftarrow> tcp_segs_free E (pcb_ooseq c) s;
       (n, s) \<leftarrow> tcp_segs_free E (pcb_unacked c) s;
       upd_pcb pcb (\<lambda>c. c\<lparr>pcb_unacked := None, pcb_unsent := None, pcb_ooseq := None\<rparr>) s
     }
     else Some s
   }"

definition tcp_pcb_remove :: "'s tcp_env \<Rightarrow> pcb_list \<Rightarrow> u32 \<Rightarrow> 'a tcp_world_scheme \<Rightarrow> 'a tcp_world_scheme option" where
  "tcp_pcb_remove E pcblist pcb s = do {
     s \<leftarrow> TCP_RMV pcblist pcb s;
     s \<leftarrow> tcp_pcb_purge E pcb s;
     l \<leftarrow> pcb_prefix pcb s;
     s \<leftarrow> (if pcb_state l \<noteq> TIME_WAIT \<and> pcb_state l \<noteq> LISTEN then do {
              c \<leftarrow> pcbs s pcb;
              if and (pcb_flags c) TF_ACK_DELAY \<noteq> 0 then do {
                s \<leftarrow> upd_pcb pcb (\<lambda>c. c\<lparr>pcb_flags := or (pcb_flags c) TF_ACK_NOW\<rparr>) s;
                (r, s) \<leftarrow> tcp_output E pcb s;
                Some s
              }
              else Some s
            }
            else Some s);
     set_pcb_prefix pcb (\<lambda>l. l\<lparr>pcb_state := CLOSED\<rparr>) (\<lambda>c. c\<lparr>pcb_state := CLOSED\<rparr>) s
   }"

subsection \<open>Reset, abort and reclaiming memory\<close>

text \<open>The search for the active control block that was inactive for the longest time.\<close>

partial_function (option) oldest_loop ::
  "(u32 \<rightharpoonup> tcp_pcb) \<Rightarrow> u32 \<Rightarrow> u32 option \<Rightarrow> u32 \<Rightarrow> u32 option \<Rightarrow> u32 option option" where
  "oldest_loop pbs ticks pcb inactivity inactive =
     (case pcb of
        None \<Rightarrow> Some inactive
      | Some p \<Rightarrow> do {
          c \<leftarrow> pbs p;
          if ticks - ucast (pcb_tmr c) > inactivity
          then oldest_loop pbs ticks (pcb_next c) (ticks - ucast (pcb_tmr c)) (Some p)
          else oldest_loop pbs ticks (pcb_next c) inactivity inactive
        })"

text \<open>\<open>tcp_abort\<close>, with the function that sends the reset as an argument.\<close>

definition abort_with ::
  "(u32 \<Rightarrow> u32 \<Rightarrow> u32 \<Rightarrow> u32 \<Rightarrow> u16 \<Rightarrow> u16 \<Rightarrow> 'a tcp_world_scheme \<Rightarrow> 'a tcp_world_scheme option) \<Rightarrow>
     ('a tcp_world_scheme) tcp_env \<Rightarrow> u32 \<Rightarrow> 'a tcp_world_scheme \<Rightarrow> 'a tcp_world_scheme option" where
  "abort_with rst E pcb s = do {
     l \<leftarrow> pcb_prefix pcb s;
     if pcb_state l = TIME_WAIT then do {
       s \<leftarrow> tcp_pcb_remove E TW_PCBS pcb s;
       Some (free_pcb pcb s)
     }
     else if pcb_state l = LISTEN then do {
       s \<leftarrow> tcp_pcb_remove E LISTEN_PCBS pcb s;
       Some (free_lpcb pcb s)
     }
     else do {
       c \<leftarrow> pcbs s pcb;
       s \<leftarrow> tcp_pcb_remove E ACTIVE_PCBS pcb s;
       let s = free_pcb pcb s;
       s \<leftarrow> (case pcb_errf c of
                None \<Rightarrow> Some s
              | Some f \<Rightarrow> do { (r, s) \<leftarrow> te_call E f (CALL_ERRF (pcb_callback_arg c) ERR_ABRT) s; Some s });
       rst (pcb_snd_nxt c) (pcb_rcv_nxt c) (pcb_local_ip c) (pcb_remote_ip c) (pcb_local_port c) (pcb_remote_port c) s
     }
   }"

definition mem_reclaim_with ::
  "(u32 \<Rightarrow> u32 \<Rightarrow> u32 \<Rightarrow> u32 \<Rightarrow> u16 \<Rightarrow> u16 \<Rightarrow> 'a tcp_world_scheme \<Rightarrow> 'a tcp_world_scheme option) \<Rightarrow>
     ('a tcp_world_scheme) tcp_env \<Rightarrow> 'a tcp_world_scheme \<Rightarrow> (u32 \<times> 'a tcp_world_scheme) option" where
  "mem_reclaim_with rst E s = do {
     inactive \<leftarrow> oldest_loop (pcbs s) (tcp_ticks s) (tcp_active_pcbs s) 0 None;
     case inactive of
       None \<Rightarrow> Some (0, s)
     | Some p \<Rightarrow> do {
         s \<leftarrow> abort_with rst E p s;
         Some (0, s)
       }
   }"

text \<open>Only the functions of TCP are registered for reclaiming; their numbers are 0 and 1.\<close>

abbreviation TCP_MEM_RECLAIM :: nat where "TCP_MEM_RECLAIM \<equiv> 0"

abbreviation TCP_MEMP_RECLAIM :: nat where "TCP_MEMP_RECLAIM \<equiv> 1"

definition reclaim_call where
  "reclaim_call rst E fa sz s = (if fst fa = TCP_MEM_RECLAIM then mem_reclaim_with rst E s else None)"

lemma reclaim_loop_mono [partial_function_mono]:
  assumes "\<And>x n t. mono_option (\<lambda>f. C f x n t)"
  shows "mono_option (\<lambda>f. reclaim_loop (C f) sz mrs rec s)"
proof (induction mrs arbitrary: rec s)
  case (Cons mr mrs)
  have "mono_option (\<lambda>f. C f mr sz s \<bind> (\<lambda>y. reclaim_loop (C f) sz mrs (rec + fst y) (snd y)))"
    by (rule bind_mono, rule assms, rule Cons.IH)
  then show ?case by (simp add: case_prod_beta')
next
  case Nil
  show ?case by (simp add: option.const_mono)
qed

lemma mem_reclaim_mono [partial_function_mono]:
  assumes "\<And>x n t. mono_option (\<lambda>f. C f x n t)"
  shows "mono_option (\<lambda>f. mem_reclaim (C f) sz s)"
  unfolding mem_reclaim_def by (rule bind_mono, rule reclaim_loop_mono, rule assms, rule option.const_mono)

lemma abort_with_mono [partial_function_mono]:
  assumes "\<And>a b c d e g t. mono_option (\<lambda>f. R f a b c d e g t)"
  shows "mono_option (\<lambda>f. abort_with (R f) E pcb s)"
  unfolding abort_with_def
  by (intro bind_mono option.const_mono partial_function_mono assms | simp add: Let_def split_beta)+

lemma mono_case_option:
  assumes "mono_option N" "\<And>x. mono_option (S x)"
  shows "mono_option (\<lambda>f. case y of None \<Rightarrow> N f | Some x \<Rightarrow> S x f)"
  using assms by (cases y) simp_all

lemma reclaim_call_mono [partial_function_mono]:
  assumes "\<And>a b c d e g t. mono_option (\<lambda>f. R f a b c d e g t)"
  shows "mono_option (\<lambda>f. reclaim_call (R f) E fa sz s)"
  unfolding reclaim_call_def mem_reclaim_with_def
  by (intro if_mono bind_mono mono_case_option option.const_mono abort_with_mono assms)

partial_function (option) tcp_rst ::
  "('a tcp_world_scheme) tcp_env \<Rightarrow> u32 \<Rightarrow> u32 \<Rightarrow> u32 \<Rightarrow> u32 \<Rightarrow> u16 \<Rightarrow> u16 \<Rightarrow> 'a tcp_world_scheme \<Rightarrow>
     'a tcp_world_scheme option" where
  "tcp_rst E seqno ackno local_ip remote_ip local_port remote_port s = do {
     (p, s) \<leftarrow> pbuf_alloc (te_ram E) PBUF_TRANSPORT 0 PBUF_RAM s;
     (p, s) \<leftarrow> (case p of
                   Some p \<Rightarrow> Some (Some p, s)
                 | None \<Rightarrow> do {
                     s \<leftarrow> mem_reclaim (reclaim_call (tcp_rst E) E) SIZEOF_STRUCT_PBUF s;
                     pbuf_alloc (te_ram E) PBUF_TRANSPORT 0 PBUF_RAM s
                   });
     case p of
       None \<Rightarrow> Some s
     | Some p \<Rightarrow> do {
         (r, s) \<leftarrow> pbuf_header p TCP_HLEN s;
         if r \<noteq> 0 then Some (stat_tcp (\<lambda>st. st\<lparr>ts_err := ts_err st + 1\<rparr>) s)
         else do {
           b \<leftarrow> pbufs s p;
           let h = pb_payload b;
           let s = upd_mem (ctrl_header h local_port remote_port seqno ackno (or TCP_RST TCP_ACK) 0) s;
           s \<leftarrow> set_chksum h p local_ip remote_ip s;
           let s = stat_tcp (\<lambda>st. st\<lparr>ts_xmit := ts_xmit st + 1\<rparr>) s;
           (r, s) \<leftarrow> sr_lwip_output p local_ip remote_ip IP_PROTO_TCP s;
           (n, s) \<leftarrow> pbuf_free (te_ram E) (Some p) s;
           Some s
         }
       }
   }"

definition tcp_abort :: "('a tcp_world_scheme) tcp_env \<Rightarrow> u32 \<Rightarrow> 'a tcp_world_scheme \<Rightarrow> 'a tcp_world_scheme option" where
  "tcp_abort E pcb s = abort_with (tcp_rst E) E pcb s"

definition tcp_mem_reclaim :: "('a tcp_world_scheme) tcp_env \<Rightarrow> 'a tcp_world_scheme \<Rightarrow> (u32 \<times> 'a tcp_world_scheme) option" where
  "tcp_mem_reclaim E s = mem_reclaim_with (tcp_rst E) E s"

text \<open>The first active control block with queued out of sequence data gives it up.\<close>

partial_function (option) reclaim_ooseq ::
  "'s tcp_env \<Rightarrow> u32 option \<Rightarrow> 'a tcp_world_scheme \<Rightarrow> (u8 \<times> 'a tcp_world_scheme) option" where
  "reclaim_ooseq E pcb s =
     (case pcb of
        None \<Rightarrow> Some (0, s)
      | Some p \<Rightarrow> do {
          c \<leftarrow> pcbs s p;
          if pcb_ooseq c \<noteq> None then do {
            (n, s) \<leftarrow> tcp_segs_free E (pcb_ooseq c) s;
            s \<leftarrow> upd_pcb p (\<lambda>c. c\<lparr>pcb_ooseq := None\<rparr>) s;
            Some (1, s)
          }
          else reclaim_ooseq E (pcb_next c) s
        })"

definition tcp_memp_reclaim ::
  "('a tcp_world_scheme) tcp_env \<Rightarrow> memp_t \<Rightarrow> 'a tcp_world_scheme \<Rightarrow> (u8 \<times> 'a tcp_world_scheme) option" where
  "tcp_memp_reclaim E type s =
     (if type = MEMP_TCP_SEG \<or> type = MEMP_PBUF then reclaim_ooseq E (tcp_active_pcbs s) s
      else if type = MEMP_TCP_PCB then
        (case tcp_tw_pcbs s of
           Some p \<Rightarrow> do {
             c \<leftarrow> pcbs s p;
             Some (1, free_pcb p (s\<lparr>tcp_tw_pcbs := pcb_next c\<rparr>))
           }
         | None \<Rightarrow> do {
             inactive \<leftarrow> oldest_loop (pcbs s) (tcp_ticks s) (tcp_active_pcbs s) 0 None;
             case inactive of
               None \<Rightarrow> Some (0, s)
             | Some p \<Rightarrow> do {
                 s \<leftarrow> tcp_abort E p s;
                 Some (1, s)
               }
           })
      else Some (0, s))"

definition memp_reclaim_call ::
  "('a tcp_world_scheme) tcp_env \<Rightarrow> nat \<times> u32 \<Rightarrow> memp_t \<Rightarrow> 'a tcp_world_scheme \<Rightarrow> (u8 \<times> 'a tcp_world_scheme) option" where
  "memp_reclaim_call E fa type s = (if fst fa = TCP_MEMP_RECLAIM then tcp_memp_reclaim E type s else None)"

definition tcp_init :: "'a tcp_world_scheme \<Rightarrow> 'a tcp_world_scheme option" where
  "tcp_init s = do {
     let s = s\<lparr>tcp_listen_pcbs := None, tcp_active_pcbs := None, tcp_tw_pcbs := None\<rparr>;
     s \<leftarrow> mem_register_reclaim TCP_MEM_RECLAIM 0 s;
     s \<leftarrow> memp_register_reclaim MEMP_PBUF TCP_MEMP_RECLAIM 0 s;
     s \<leftarrow> memp_register_reclaim MEMP_TCP_SEG TCP_MEMP_RECLAIM 0 s;
     s \<leftarrow> memp_register_reclaim MEMP_TCP_PCB TCP_MEMP_RECLAIM 0 s;
     Some (s\<lparr>tcp_ticks := 0, tcp_timer := 0\<rparr>)
   }"

subsection \<open>Connections\<close>

definition tcp_next_iss :: "'a tcp_world_scheme \<Rightarrow> u32 \<times> 'a tcp_world_scheme" where
  "tcp_next_iss s = (let s = s\<lparr>iss := iss s + tcp_ticks s\<rparr> in (iss s, s))"

definition zero_pcb :: tcp_pcb where
  "zero_pcb = \<lparr>pcb_next = None, pcb_state = CLOSED, pcb_callback_arg = 0, pcb_accept = None, pcb_local_ip = 0,
     pcb_local_port = 0, pcb_remote_ip = 0, pcb_remote_port = 0, pcb_rcv_nxt = 0, pcb_rcv_wnd = 0, pcb_tmr = 0,
     pcb_rtime = 0, pcb_mss = 0, pcb_flags = 0, pcb_rttest = 0, pcb_rtseq = 0, pcb_sa = 0, pcb_sv = 0, pcb_rto = 0,
     pcb_nrtx = 0, pcb_lastack = 0, pcb_dupacks = 0, pcb_cwnd = 0, pcb_ssthresh = 0, pcb_snd_nxt = 0,
     pcb_snd_max = 0, pcb_snd_wnd = 0, pcb_snd_wl1 = 0, pcb_snd_wl2 = 0, pcb_snd_lbb = 0, pcb_snd_buf = 0,
     pcb_snd_queuelen = 0, pcb_sent = None, pcb_acked = 0, pcb_recv = None, pcb_recv_data = None,
     pcb_connected = None, pcb_poll = None, pcb_errf = None, pcb_polltmr = 0, pcb_pollinterval = 0,
     pcb_unsent = None, pcb_unacked = None, pcb_ooseq = None\<rparr>"

definition tcp_new :: "('a tcp_world_scheme) tcp_env \<Rightarrow> 'a tcp_world_scheme \<Rightarrow> (u32 option \<times> 'a tcp_world_scheme) option" where
  "tcp_new E s = do {
     (pcb, s) \<leftarrow> memp_malloc2 (memp_reclaim_call E) MEMP_TCP_PCB s;
     case pcb of
       None \<Rightarrow> Some (None, s)
     | Some p \<Rightarrow>
         let (iss, s) = tcp_next_iss s
         in Some (Some p, s\<lparr>pcbs := (pcbs s)(p \<mapsto> zero_pcb
              \<lparr>pcb_snd_buf := TCP_SND_BUF, pcb_snd_queuelen := 0, pcb_rcv_wnd := TCP_WND, pcb_mss := TCP_MSS,
               pcb_rto := 6, pcb_sa := 0, pcb_sv := 6, pcb_rtime := 0, pcb_cwnd := 1, pcb_snd_wl2 := iss,
               pcb_snd_nxt := iss, pcb_snd_max := iss, pcb_lastack := iss, pcb_snd_lbb := iss,
               pcb_tmr := ucast (tcp_ticks s), pcb_polltmr := 0\<rparr>)\<rparr>)
   }"

definition tcp_close :: "'s tcp_env \<Rightarrow> u32 \<Rightarrow> 'a tcp_world_scheme \<Rightarrow> (err_t \<times> 'a tcp_world_scheme) option" where
  "tcp_close E pcb s = do {
     l \<leftarrow> pcb_prefix pcb s;
     case pcb_state l of
       LISTEN \<Rightarrow> do {
         s \<leftarrow> tcp_pcb_remove E LISTEN_PCBS pcb s;
         Some (ERR_OK, free_lpcb pcb s)
       }
     | SYN_SENT \<Rightarrow> do {
         s \<leftarrow> tcp_pcb_remove E ACTIVE_PCBS pcb s;
         Some (ERR_OK, free_pcb pcb s)
       }
     | SYN_RCVD \<Rightarrow> do {
         (err, s) \<leftarrow> tcp_send_ctrl E pcb TCP_FIN s;
         if err = ERR_OK then do {
           s \<leftarrow> upd_pcb pcb (\<lambda>c. c\<lparr>pcb_state := FIN_WAIT_1\<rparr>) s;
           tcp_output E pcb s
         }
         else Some (err, s)
       }
     | ESTABLISHED \<Rightarrow> do {
         (err, s) \<leftarrow> tcp_send_ctrl E pcb TCP_FIN s;
         if err = ERR_OK then do {
           s \<leftarrow> upd_pcb pcb (\<lambda>c. c\<lparr>pcb_state := FIN_WAIT_1\<rparr>) s;
           tcp_output E pcb s
         }
         else Some (err, s)
       }
     | CLOSE_WAIT \<Rightarrow> do {
         (err, s) \<leftarrow> tcp_send_ctrl E pcb TCP_FIN s;
         if err = ERR_OK then do {
           s \<leftarrow> upd_pcb pcb (\<lambda>c. c\<lparr>pcb_state := LAST_ACK\<rparr>) s;
           tcp_output E pcb s
         }
         else Some (err, s)
       }
     | _ \<Rightarrow> Some (ERR_OK, s)
   }"

text \<open>The loops of \<open>tcp_bind\<close> and \<open>tcp_new_port\<close> over a list of control blocks.\<close>

partial_function (option) bind_conflict ::
  "u32 option \<Rightarrow> u16 \<Rightarrow> u32 option \<Rightarrow> 'a tcp_world_scheme \<Rightarrow> bool option" where
  "bind_conflict ipaddr port cpcb s =
     (case cpcb of
        None \<Rightarrow> Some False
      | Some p \<Rightarrow> do {
          l \<leftarrow> pcb_prefix p s;
          if pcb_local_port l = port \<and>
             (pcb_local_ip l = 0 \<or> ipaddr = None \<or> ipaddr = Some 0 \<or> ipaddr = Some (pcb_local_ip l))
          then Some True
          else bind_conflict ipaddr port (pcb_next l) s
        })"

definition tcp_bind :: "u32 \<Rightarrow> u32 option \<Rightarrow> u16 \<Rightarrow> 'a tcp_world_scheme \<Rightarrow> (err_t \<times> 'a tcp_world_scheme) option" where
  "tcp_bind pcb ipaddr port s = do {
     b \<leftarrow> bind_conflict ipaddr port (tcp_listen_pcbs s) s;
     if b then Some (ERR_USE, s)
     else do {
       b \<leftarrow> bind_conflict ipaddr port (tcp_active_pcbs s) s;
       if b then Some (ERR_USE, s)
       else do {
         s \<leftarrow> (case ipaddr of
                  None \<Rightarrow> Some s
                | Some a \<Rightarrow> if a = 0 then Some s else upd_pcb pcb (\<lambda>c. c\<lparr>pcb_local_ip := a\<rparr>) s);
         s \<leftarrow> upd_pcb pcb (\<lambda>c. c\<lparr>pcb_local_port := port\<rparr>) s;
         Some (ERR_OK, s)
       }
     }
   }"

definition tcp_listen :: "u32 \<Rightarrow> 'a tcp_world_scheme \<Rightarrow> (u32 option \<times> 'a tcp_world_scheme) option" where
  "tcp_listen pcb s = do {
     s \<leftarrow> upd_pcb pcb (\<lambda>c. c\<lparr>pcb_state := LISTEN\<rparr>) s;
     c \<leftarrow> pcbs s pcb;
     let (r, s) = memp_realloc MEMP_TCP_PCB MEMP_TCP_PCB_LISTEN (Some pcb) s;
     case r of
       None \<Rightarrow> Some (None, s)
     | Some q \<Rightarrow> do {
         let s = s\<lparr>pcbs := (pcbs s)(pcb := None), lpcbs := (lpcbs s)(q \<mapsto> tcp_pcb_listen.truncate c)\<rparr>;
         s \<leftarrow> TCP_REG LISTEN_PCBS q s;
         Some (Some q, s)
       }
   }"

definition tcp_recved :: "'s tcp_env \<Rightarrow> u32 \<Rightarrow> u16 \<Rightarrow> 'a tcp_world_scheme \<Rightarrow> 'a tcp_world_scheme option" where
  "tcp_recved E pcb len s = do {
     s \<leftarrow> upd_pcb pcb (\<lambda>c. c\<lparr>pcb_rcv_wnd := pcb_rcv_wnd c + len\<rparr>) s;
     s \<leftarrow> upd_pcb pcb (\<lambda>c. if pcb_rcv_wnd c > TCP_WND then c\<lparr>pcb_rcv_wnd := TCP_WND\<rparr> else c) s;
     c \<leftarrow> pcbs s pcb;
     if and (pcb_flags c) TF_ACK_DELAY = 0 \<or> and (pcb_flags c) TF_ACK_NOW = 0 then tcp_ack E pcb s else Some s
   }"

partial_function (option) port_in_use :: "u16 \<Rightarrow> u32 option \<Rightarrow> 'a tcp_world_scheme \<Rightarrow> bool option" where
  "port_in_use port pcb s =
     (case pcb of
        None \<Rightarrow> Some False
      | Some p \<Rightarrow> do {
          l \<leftarrow> pcb_prefix p s;
          if pcb_local_port l = port then Some True else port_in_use port (pcb_next l) s
        })"

partial_function (option) tcp_new_port :: "'a tcp_world_scheme \<Rightarrow> (u16 \<times> 'a tcp_world_scheme) option" where
  "tcp_new_port s = do {
     let s = s\<lparr>new_port := new_port s + 1\<rparr>;
     let s = (if new_port s > 0x7fff then s\<lparr>new_port := 4096\<rparr> else s);
     a \<leftarrow> port_in_use (new_port s) (tcp_active_pcbs s) s;
     if a then tcp_new_port s
     else do {
       t \<leftarrow> port_in_use (new_port s) (tcp_tw_pcbs s) s;
       if t then tcp_new_port s
       else do {
         l \<leftarrow> port_in_use (new_port s) (tcp_listen_pcbs s) s;
         if l then tcp_new_port s else Some (new_port s, s)
       }
     }
   }"

text \<open>The MSS option, as the bytes of the 32 bit variable that the code builds.\<close>

definition mss_option :: "u16 \<Rightarrow> u8 list" where
  "mss_option mss =
     (let optdata = htonl (or (or (push_bit 24 2) (push_bit 16 4)) (or (push_bit 8 (ucast mss div 256)) (and (ucast mss) 255)))
      in ld_bytes 4 0 (st32 0 optdata (\<lambda>_. 0)))"

definition tcp_connect ::
  "'s tcp_env \<Rightarrow> u32 \<Rightarrow> u32 option \<Rightarrow> u16 \<Rightarrow> nat option \<Rightarrow> 'a tcp_world_scheme \<Rightarrow> (err_t \<times> 'a tcp_world_scheme) option" where
  "tcp_connect E pcb ipaddr port connected s =
     (case ipaddr of
        None \<Rightarrow> Some (ERR_VAL, s)
      | Some a \<Rightarrow> do {
          s \<leftarrow> upd_pcb pcb (\<lambda>c. c\<lparr>pcb_remote_ip := a, pcb_remote_port := port\<rparr>) s;
          c \<leftarrow> pcbs s pcb;
          s \<leftarrow> (if pcb_local_port c = 0 then do {
                   (q, s) \<leftarrow> tcp_new_port s;
                   upd_pcb pcb (\<lambda>c. c\<lparr>pcb_local_port := q\<rparr>) s
                 }
                 else Some s);
          let (iss, s) = tcp_next_iss s;
          s \<leftarrow> upd_pcb pcb (\<lambda>c. c\<lparr>pcb_rcv_nxt := 0, pcb_snd_nxt := iss, pcb_lastack := iss - 1, pcb_snd_lbb := iss - 1,
                 pcb_rcv_wnd := TCP_WND, pcb_snd_wnd := ucast TCP_WND, pcb_mss := TCP_MSS, pcb_cwnd := 1,
                 pcb_ssthresh := TCP_MSS * 10, pcb_state := SYN_SENT, pcb_connected := connected\<rparr>) s;
          s \<leftarrow> TCP_REG ACTIVE_PCBS pcb s;
          c \<leftarrow> pcbs s pcb;
          (ret, s) \<leftarrow> tcp_enqueue E pcb None 0 TCP_SYN 0 (Some (mss_option (pcb_mss c))) s;
          if ret = ERR_OK then do {
            (r, s) \<leftarrow> tcp_output E pcb s;
            Some (ret, s)
          }
          else Some (ret, s)
        })"

definition tcp_arg :: "u32 \<Rightarrow> u32 \<Rightarrow> 'a tcp_world_scheme \<Rightarrow> 'a tcp_world_scheme option" where
  "tcp_arg pcb arg s = set_pcb_prefix pcb (\<lambda>l. l\<lparr>pcb_callback_arg := arg\<rparr>) (\<lambda>c. c\<lparr>pcb_callback_arg := arg\<rparr>) s"

definition tcp_recv :: "u32 \<Rightarrow> nat option \<Rightarrow> 'a tcp_world_scheme \<Rightarrow> 'a tcp_world_scheme option" where
  "tcp_recv pcb recv s = upd_pcb pcb (\<lambda>c. c\<lparr>pcb_recv := recv\<rparr>) s"

definition tcp_sent :: "u32 \<Rightarrow> nat option \<Rightarrow> 'a tcp_world_scheme \<Rightarrow> 'a tcp_world_scheme option" where
  "tcp_sent pcb sent s = upd_pcb pcb (\<lambda>c. c\<lparr>pcb_sent := sent\<rparr>) s"

definition tcp_err :: "u32 \<Rightarrow> nat option \<Rightarrow> 'a tcp_world_scheme \<Rightarrow> 'a tcp_world_scheme option" where
  "tcp_err pcb errf s = upd_pcb pcb (\<lambda>c. c\<lparr>pcb_errf := errf\<rparr>) s"

definition tcp_poll :: "u32 \<Rightarrow> nat option \<Rightarrow> u8 \<Rightarrow> 'a tcp_world_scheme \<Rightarrow> 'a tcp_world_scheme option" where
  "tcp_poll pcb poll interval s = upd_pcb pcb (\<lambda>c. c\<lparr>pcb_poll := poll, pcb_pollinterval := interval\<rparr>) s"

definition tcp_accept :: "u32 \<Rightarrow> nat option \<Rightarrow> 'a tcp_world_scheme \<Rightarrow> 'a tcp_world_scheme option" where
  "tcp_accept pcb accept s = set_pcb_prefix pcb (\<lambda>l. l\<lparr>pcb_accept := accept\<rparr>) (\<lambda>c. c\<lparr>pcb_accept := accept\<rparr>) s"

subsection \<open>Timers\<close>

definition tcp_backoff :: "nat list" where
  "tcp_backoff = [1, 2, 4, 8, 16, 32, 64, 64, 64, 64, 64, 64, 64]"

definition rto_backoff :: "tcp_pcb \<Rightarrow> u16 option" where
  "rto_backoff c =
     (if unat (pcb_nrtx c) < length tcp_backoff then
        let k = tcp_backoff ! unat (pcb_nrtx c)
        in if k < 32 then Some (ucast (push_bit k (signed_drop_bit 3 (pcb_sa c) + pcb_sv c))) else None
      else None)"

text \<open>The retransmission of the first unacknowledged segment; the others go back to the unsent queue.\<close>

definition slow_rexmit :: "u32 \<Rightarrow> u32 \<Rightarrow> 'a tcp_world_scheme \<Rightarrow> 'a tcp_world_scheme option" where
  "slow_rexmit pcb seg s = do {
     c \<leftarrow> pcbs s pcb;
     s \<leftarrow> (if pcb_state c \<noteq> SYN_SENT then do {
              rto \<leftarrow> rto_backoff c;
              upd_pcb pcb (\<lambda>c. c\<lparr>pcb_rto := rto\<rparr>) s
            }
            else Some s);
     g \<leftarrow> segs s seg;
     s \<leftarrow> (case sg_next g of
              None \<Rightarrow> Some s
            | Some n \<Rightarrow> do {
                useg \<leftarrow> last_seg (segs s) n;
                s \<leftarrow> upd_seg useg (\<lambda>u. u\<lparr>sg_next := pcb_unsent c\<rparr>) s;
                s \<leftarrow> upd_pcb pcb (\<lambda>c. c\<lparr>pcb_unsent := Some n\<rparr>) s;
                s \<leftarrow> upd_seg seg (\<lambda>g. g\<lparr>sg_next := None\<rparr>) s;
                h \<leftarrow> segs s n;
                upd_pcb pcb (\<lambda>c. c\<lparr>pcb_snd_nxt := ntohl (ld32 (th_seqno (sg_tcphdr h)) (mem8 s))\<rparr>) s
              });
     s \<leftarrow> tcp_rexmit_seg pcb seg s;
     upd_pcb pcb (\<lambda>c.
       let eff_wnd = min (ucast (pcb_cwnd c)) (pcb_snd_wnd c);
           ssthresh = ucast (drop_bit 1 eff_wnd)
       in c\<lparr>pcb_ssthresh := (if ssthresh < pcb_mss c then pcb_mss c * 2 else ssthresh), pcb_cwnd := pcb_mss c\<rparr>) s
   }"

text \<open>The checks of one active control block; the answer says whether it has to be removed.\<close>

definition slow_check :: "'s tcp_env \<Rightarrow> u32 \<Rightarrow> 'a tcp_world_scheme \<Rightarrow> (bool \<times> 'a tcp_world_scheme) option" where
  "slow_check E pcb s = do {
     c \<leftarrow> pcbs s pcb;
     (rm, s) \<leftarrow>
       (if (pcb_state c = SYN_SENT \<and> pcb_nrtx c = TCP_SYNMAXRTX) \<or> pcb_nrtx c = TCP_MAXRTX then Some (True, s)
        else do {
          s \<leftarrow> upd_pcb pcb (\<lambda>c. c\<lparr>pcb_rtime := pcb_rtime c + 1\<rparr>) s;
          c \<leftarrow> pcbs s pcb;
          case pcb_unacked c of
            None \<Rightarrow> Some (False, s)
          | Some seg \<Rightarrow>
              if ucast (pcb_rtime c) \<ge> pcb_rto c then do {
                s \<leftarrow> slow_rexmit pcb seg s;
                Some (False, s)
              }
              else Some (False, s)
        });
     c \<leftarrow> pcbs s pcb;
     let age = tcp_ticks s - ucast (pcb_tmr c);
     let rm = (rm \<or> (pcb_state c = FIN_WAIT_2 \<and> age > TCP_FIN_WAIT_TIMEOUT div TCP_SLOW_INTERVAL));
     s \<leftarrow> (if pcb_ooseq c \<noteq> None \<and> age \<ge> ucast (pcb_rto c) * TCP_OOSEQ_TIMEOUT then do {
              (n, s) \<leftarrow> tcp_segs_free E (pcb_ooseq c) s;
              upd_pcb pcb (\<lambda>c. c\<lparr>pcb_ooseq := None\<rparr>) s
            }
            else Some s);
     Some (rm \<or> (pcb_state c = SYN_RCVD \<and> age > TCP_SYN_RCVD_TIMEOUT div TCP_SLOW_INTERVAL), s)
   }"

text \<open>Unlinking a control block during the walk over its list.\<close>

definition slow_unlink :: "pcb_list \<Rightarrow> u32 option \<Rightarrow> u32 \<Rightarrow> 'a tcp_world_scheme \<Rightarrow> 'a tcp_world_scheme option" where
  "slow_unlink l prev pcb s = do {
     c \<leftarrow> pcbs s pcb;
     case prev of
       Some q \<Rightarrow> upd_pcb q (\<lambda>d. d\<lparr>pcb_next := pcb_next c\<rparr>) s
     | None \<Rightarrow> Some (set_head l (pcb_next c) s)
   }"

partial_function (option) slow_active ::
  "('a tcp_world_scheme) tcp_env \<Rightarrow> u32 option \<Rightarrow> u32 option \<Rightarrow> 'a tcp_world_scheme \<Rightarrow> 'a tcp_world_scheme option" where
  "slow_active E prev pcb s =
     (case pcb of
        None \<Rightarrow> Some s
      | Some p \<Rightarrow> do {
          (rm, s) \<leftarrow> slow_check E p s;
          if rm then do {
            s \<leftarrow> tcp_pcb_purge E p s;
            s \<leftarrow> slow_unlink ACTIVE_PCBS prev p s;
            c \<leftarrow> pcbs s p;
            s \<leftarrow> (case pcb_errf c of
                     None \<Rightarrow> Some s
                   | Some f \<Rightarrow> do { (r, s) \<leftarrow> te_call E f (CALL_ERRF (pcb_callback_arg c) ERR_ABRT) s; Some s });
            c \<leftarrow> pcbs s p;
            slow_active E prev (pcb_next c) (free_pcb p s)
          }
          else do {
            s \<leftarrow> upd_pcb p (\<lambda>c. c\<lparr>pcb_polltmr := pcb_polltmr c + 1\<rparr>) s;
            c \<leftarrow> pcbs s p;
            s \<leftarrow> (case pcb_poll c of
                     None \<Rightarrow> Some s
                   | Some f \<Rightarrow>
                       if pcb_polltmr c \<ge> pcb_pollinterval c then do {
                         s \<leftarrow> upd_pcb p (\<lambda>c. c\<lparr>pcb_polltmr := 0\<rparr>) s;
                         (r, s) \<leftarrow> te_call E f (CALL_POLL (pcb_callback_arg c) p) s;
                         (r, s) \<leftarrow> tcp_output E p s;
                         Some s
                       }
                       else Some s);
            c \<leftarrow> pcbs s p;
            slow_active E (Some p) (pcb_next c) s
          }
        })"

partial_function (option) slow_tw ::
  "'s tcp_env \<Rightarrow> u32 option \<Rightarrow> u32 option \<Rightarrow> 'a tcp_world_scheme \<Rightarrow> 'a tcp_world_scheme option" where
  "slow_tw E prev pcb s =
     (case pcb of
        None \<Rightarrow> Some s
      | Some p \<Rightarrow> do {
          c \<leftarrow> pcbs s p;
          if tcp_ticks s - ucast (pcb_tmr c) > 2 * TCP_MSL div TCP_SLOW_INTERVAL then do {
            s \<leftarrow> tcp_pcb_purge E p s;
            s \<leftarrow> slow_unlink TW_PCBS prev p s;
            c \<leftarrow> pcbs s p;
            slow_tw E prev (pcb_next c) (free_pcb p s)
          }
          else slow_tw E (Some p) (pcb_next c) s
        })"

definition tcp_slowtmr :: "('a tcp_world_scheme) tcp_env \<Rightarrow> 'a tcp_world_scheme \<Rightarrow> 'a tcp_world_scheme option" where
  "tcp_slowtmr E s = do {
     let s = s\<lparr>tcp_ticks := tcp_ticks s + 1\<rparr>;
     s \<leftarrow> slow_active E None (tcp_active_pcbs s) s;
     slow_tw E None (tcp_tw_pcbs s) s
   }"

partial_function (option) fast_loop :: "'s tcp_env \<Rightarrow> u32 option \<Rightarrow> 'a tcp_world_scheme \<Rightarrow> 'a tcp_world_scheme option" where
  "fast_loop E pcb s =
     (case pcb of
        None \<Rightarrow> Some s
      | Some p \<Rightarrow> do {
          c \<leftarrow> pcbs s p;
          s \<leftarrow> (if and (pcb_flags c) TF_ACK_DELAY \<noteq> 0 then do {
                   s \<leftarrow> tcp_ack_now E p s;
                   upd_pcb p (\<lambda>c. c\<lparr>pcb_flags := and (pcb_flags c) (not (or TF_ACK_DELAY TF_ACK_NOW))\<rparr>) s
                 }
                 else Some s);
          c \<leftarrow> pcbs s p;
          fast_loop E (pcb_next c) s
        })"

definition tcp_fasttmr :: "'s tcp_env \<Rightarrow> 'a tcp_world_scheme \<Rightarrow> 'a tcp_world_scheme option" where
  "tcp_fasttmr E s = fast_loop E (tcp_active_pcbs s) s"

definition tcp_tmr :: "('a tcp_world_scheme) tcp_env \<Rightarrow> 'a tcp_world_scheme \<Rightarrow> 'a tcp_world_scheme option" where
  "tcp_tmr E s = do {
     let s = s\<lparr>tcp_timer := tcp_timer s + 1\<rparr>;
     let s = (if tcp_timer s = 10 then s\<lparr>tcp_timer := 0\<rparr> else s);
     s \<leftarrow> (if and (tcp_timer s) 1 \<noteq> 0 then tcp_fasttmr E s else Some s);
     if tcp_timer s = 0 \<or> tcp_timer s = 5 then tcp_slowtmr E s else Some s
   }"

end
