(* ===== verification/Tcp_Input.thy ===== *)
theory Tcp_Input
  imports Tcp_Pcb
begin

text \<open>
  \<^verbatim>\<open>lwtcp/tcp_input.c\<close>: the processing of a received segment. \<open>tcp_input\<close> checks the packet and
  finds its control block, \<open>tcp_process\<close> is the state machine, \<open>tcp_receive\<close> handles the
  acknowledgement and the data. The variable \<^verbatim>\<open>inseg\<close> is the segment being processed; the fields of
  its header are converted to host byte order in place, as in the code.
\<close>

subsection \<open>Options\<close>

partial_function (option) parseopt_loop :: "bytes \<Rightarrow> u32 \<Rightarrow> nat \<Rightarrow> u8 \<Rightarrow> u16 option option" where
  "parseopt_loop m opts lim c =
     (if unat c < lim then
        let opt = m (opts + ucast c)
        in if opt = 0x00 then Some None
           else if opt = 0x01 then parseopt_loop m opts lim (c + 1)
           else if opt = 0x02 \<and> m (opts + ucast c + 1) = 0x04 then
             Some (Some (or (push_bit 8 (ucast (m (opts + ucast c + 2)))) (ucast (m (opts + ucast c + 3)))))
           else if m (opts + ucast c + 1) = 0 then Some None
           else parseopt_loop m opts lim (c + m (opts + ucast c + 1))
      else Some None)"

definition tcp_parseopt :: "u32 \<Rightarrow> 'a tcp_world_scheme \<Rightarrow> 'a tcp_world_scheme option" where
  "tcp_parseopt pcb s =
     (let h = sg_tcphdr (inseg s)
      in if and (TCPH_OFFSET h (mem8 s)) 0xf0 > 0x50 then do {
           r \<leftarrow> parseopt_loop (mem8 s) (h + ucast TCP_HLEN) ((unat (drop_bit 4 (TCPH_OFFSET h (mem8 s))) - 5) * 4) 0;
           case r of
             None \<Rightarrow> Some s
           | Some mss \<Rightarrow> upd_pcb pcb (\<lambda>c. c\<lparr>pcb_mss := (if mss > TCP_MSS then TCP_MSS else mss)\<rparr>) s
         }
         else Some s)"

subsection \<open>Acknowledgements\<close>

definition recv_window :: "u32 \<Rightarrow> u32 \<Rightarrow> u16 \<Rightarrow> tcp_pcb \<Rightarrow> tcp_pcb" where
  "recv_window seqno ackno wnd c =
     (if TCP_SEQ_LT (pcb_snd_wl1 c) seqno \<or>
         (pcb_snd_wl1 c = seqno \<and> TCP_SEQ_LT (pcb_snd_wl2 c) ackno) \<or>
         (pcb_snd_wl2 c = ackno \<and> ucast wnd > pcb_snd_wnd c)
      then c\<lparr>pcb_snd_wnd := ucast wnd, pcb_snd_wl1 := seqno, pcb_snd_wl2 := ackno\<rparr>
      else c)"

text \<open>The sum is computed in \<^verbatim>\<open>int\<close>, so the test for an overflow only tests that the MSS is not 0.\<close>

definition inflate_cwnd :: "tcp_pcb \<Rightarrow> tcp_pcb" where
  "inflate_cwnd c =
     (if unat (pcb_cwnd c) + unat (pcb_mss c) > unat (pcb_cwnd c)
      then c\<lparr>pcb_cwnd := pcb_cwnd c + pcb_mss c\<rparr> else c)"

definition recv_dupack :: "u32 \<Rightarrow> 'a tcp_world_scheme \<Rightarrow> 'a tcp_world_scheme option" where
  "recv_dupack pcb s = do {
     s \<leftarrow> upd_pcb pcb (\<lambda>c. c\<lparr>pcb_dupacks := pcb_dupacks c + 1\<rparr>) s;
     c \<leftarrow> pcbs s pcb;
     case pcb_unacked c of
       None \<Rightarrow> Some s
     | Some seg \<Rightarrow>
         if pcb_dupacks c \<ge> 3 then
           if and (pcb_flags c) TF_INFR = 0 then do {
             s \<leftarrow> tcp_rexmit_seg pcb seg s;
             upd_pcb pcb (\<lambda>c.
               let ssthresh = ucast (max ((pcb_snd_max c - pcb_lastack c) div 2) (2 * ucast (pcb_mss c)))
               in c\<lparr>pcb_ssthresh := ssthresh, pcb_cwnd := ssthresh + 3 * pcb_mss c, pcb_flags := or (pcb_flags c) TF_INFR\<rparr>) s
           }
           else upd_pcb pcb inflate_cwnd s
         else Some s
   }"

text \<open>Slow start and congestion avoidance; a congestion window of 0 divides by zero.\<close>

definition grow_cwnd :: "tcp_pcb \<Rightarrow> tcp_pcb option" where
  "grow_cwnd c =
     (if pcb_state c \<ge> ESTABLISHED then
        if pcb_cwnd c < pcb_ssthresh c then Some (inflate_cwnd c)
        else if pcb_cwnd c = 0 then None
        else
          let k = unat (pcb_mss c) * unat (pcb_mss c) div unat (pcb_cwnd c)
          in Some (if unat (pcb_cwnd c) + k > unat (pcb_cwnd c) then c\<lparr>pcb_cwnd := pcb_cwnd c + of_nat k\<rparr> else c)
      else Some c)"

definition new_ack :: "u32 \<Rightarrow> tcp_pcb \<Rightarrow> tcp_pcb option" where
  "new_ack ackno c =
     (let c = (if and (pcb_flags c) TF_INFR \<noteq> 0
               then c\<lparr>pcb_flags := and (pcb_flags c) (not TF_INFR), pcb_cwnd := pcb_ssthresh c\<rparr> else c);
          acked = ucast (ackno - pcb_lastack c);
          c = c\<lparr>pcb_nrtx := 0, pcb_rto := ucast (signed_drop_bit 3 (pcb_sa c) + pcb_sv c), pcb_acked := acked,
                pcb_snd_buf := pcb_snd_buf c + acked, pcb_dupacks := 0, pcb_lastack := ackno\<rparr>
      in grow_cwnd c)"

text \<open>A segment is acknowledged when its last sequence number is.\<close>

definition seg_acked :: "tcp_seg \<Rightarrow> u32 \<Rightarrow> bytes \<Rightarrow> bool" where
  "seg_acked g ackno m \<longleftrightarrow> TCP_SEQ_LEQ (ntohl (ld32 (th_seqno (sg_tcphdr g)) m) + TCP_TCPLEN g m) ackno"

partial_function (option) ack_unsent :: "'s tcp_env \<Rightarrow> u32 \<Rightarrow> u32 \<Rightarrow> 'a tcp_world_scheme \<Rightarrow> 'a tcp_world_scheme option" where
  "ack_unsent E pcb ackno s = do {
     c \<leftarrow> pcbs s pcb;
     case pcb_unsent c of
       None \<Rightarrow> Some s
     | Some q \<Rightarrow> do {
         g \<leftarrow> segs s q;
         if seg_acked g ackno (mem8 s) then do {
           n \<leftarrow> pbuf_clen (sg_p g) s;
           s \<leftarrow> upd_pcb pcb (\<lambda>c. c\<lparr>pcb_unsent := sg_next g, pcb_snd_queuelen := pcb_snd_queuelen c - n\<rparr>) s;
           (k, s) \<leftarrow> tcp_seg_free E (Some q) s;
           s \<leftarrow> (case sg_next g of
                    None \<Rightarrow> Some s
                  | Some r \<Rightarrow> do {
                      h \<leftarrow> segs s r;
                      upd_pcb pcb (\<lambda>c. c\<lparr>pcb_snd_nxt := htonl (ld32 (th_seqno (sg_tcphdr h)) (mem8 s))\<rparr>) s
                    });
           ack_unsent E pcb ackno s
         }
         else Some s
       }
   }"

partial_function (option) ack_unacked :: "'s tcp_env \<Rightarrow> u32 \<Rightarrow> u32 \<Rightarrow> 'a tcp_world_scheme \<Rightarrow> 'a tcp_world_scheme option" where
  "ack_unacked E pcb ackno s = do {
     c \<leftarrow> pcbs s pcb;
     case pcb_unacked c of
       None \<Rightarrow> Some s
     | Some q \<Rightarrow> do {
         g \<leftarrow> segs s q;
         if seg_acked g ackno (mem8 s) then do {
           n \<leftarrow> pbuf_clen (sg_p g) s;
           s \<leftarrow> upd_pcb pcb (\<lambda>c. c\<lparr>pcb_unacked := sg_next g, pcb_snd_queuelen := pcb_snd_queuelen c - n\<rparr>) s;
           (k, s) \<leftarrow> tcp_seg_free E (Some q) s;
           ack_unacked E pcb ackno s
         }
         else Some s
       }
   }"

definition rtt_estimate :: "u32 \<Rightarrow> u32 \<Rightarrow> tcp_pcb \<Rightarrow> tcp_pcb" where
  "rtt_estimate ticks ackno c =
     (if pcb_rttest c \<noteq> 0 \<and> TCP_SEQ_LT (pcb_rtseq c) ackno then
        let m = ticks - ucast (pcb_rttest c);
            m = m - signed_drop_bit 3 (pcb_sa c);
            sa = pcb_sa c + m;
            m = (if sint m < 0 then - m else m);
            m = m - signed_drop_bit 2 (pcb_sv c);
            sv = pcb_sv c + m
        in c\<lparr>pcb_sa := sa, pcb_sv := sv, pcb_rto := ucast (signed_drop_bit 3 sa + sv), pcb_rttest := 0\<rparr>
      else c)"

text \<open>The first half of \<open>tcp_receive\<close>: a segment that carries an acknowledgement.\<close>

definition receive_ack :: "'s tcp_env \<Rightarrow> u32 \<Rightarrow> u32 \<Rightarrow> u32 \<Rightarrow> 'a tcp_world_scheme \<Rightarrow> 'a tcp_world_scheme option" where
  "receive_ack E pcb seqno ackno s = do {
     s \<leftarrow> upd_pcb pcb (recv_window seqno ackno (ld16 (th_wnd (sg_tcphdr (inseg s))) (mem8 s))) s;
     c \<leftarrow> pcbs s pcb;
     s \<leftarrow> (if pcb_lastack c = ackno then recv_dupack pcb s
            else if TCP_SEQ_LT (pcb_lastack c) ackno \<and> TCP_SEQ_LEQ ackno (pcb_snd_max c) then do {
              c \<leftarrow> new_ack ackno c;
              s \<leftarrow> upd_pcb pcb (\<lambda>_. c) s;
              s \<leftarrow> ack_unsent E pcb ackno s;
              s \<leftarrow> ack_unacked E pcb ackno s;
              upd_pcb pcb (\<lambda>c. c\<lparr>pcb_polltmr := 0\<rparr>) s
            }
            else Some s);
     upd_pcb pcb (rtt_estimate (tcp_ticks s) ackno) s
   }"

subsection \<open>Data\<close>

text \<open>
  Trimming the first edge: pbufs that hold only old data are emptied, and the payload pointer of
  the pbuf in which new data starts is moved. \<open>first\<close> is \<^verbatim>\<open>inseg.p\<close>.
\<close>

partial_function (option) trim_loop ::
  "u32 \<Rightarrow> u32 \<Rightarrow> u32 \<Rightarrow> 'a tcp_world_scheme \<Rightarrow> ((u32 \<times> u32) \<times> 'a tcp_world_scheme) option" where
  "trim_loop first p off s = do {
     b \<leftarrow> pbufs s p;
     if int (unat (pb_len b)) < sint off then do {
       s \<leftarrow> upd_pbuf first (\<lambda>f. f\<lparr>pb_tot_len := pb_tot_len f - pb_len b\<rparr>) s;
       s \<leftarrow> upd_pbuf p (\<lambda>b. b\<lparr>pb_len := 0\<rparr>) s;
       b' \<leftarrow> pbufs s p;
       q \<leftarrow> pb_next b';
       trim_loop first q (off - ucast (pb_len b)) s
     }
     else Some ((p, off), s)
   }"

definition trim_first :: "u32 \<Rightarrow> u32 \<Rightarrow> 'a tcp_world_scheme \<Rightarrow> (u32 \<times> 'a tcp_world_scheme) option" where
  "trim_first rcv_nxt seqno s =
     (if TCP_SEQ_LT seqno rcv_nxt \<and> TCP_SEQ_LT rcv_nxt (seqno + ucast (sg_len (inseg s))) then do {
        first \<leftarrow> sg_p (inseg s);
        ((p, off), s) \<leftarrow> trim_loop first first (rcv_nxt - seqno) s;
        (r, s) \<leftarrow> pbuf_header p (- ucast off) s;
        b \<leftarrow> pbufs s first;
        let s = s\<lparr>inseg := (inseg s)\<lparr>sg_dataptr := pb_payload b, sg_len := sg_len (inseg s) - ucast (rcv_nxt - seqno)\<rparr>\<rparr>;
        let s = upd_mem (st32 (th_seqno (sg_tcphdr (inseg s))) rcv_nxt) s;
        Some (rcv_nxt, s)
      }
      else Some (seqno, s))"

definition advance_rcv :: "u32 \<Rightarrow> tcp_pcb \<Rightarrow> tcp_pcb" where
  "advance_rcv n c =
     c\<lparr>pcb_rcv_nxt := pcb_rcv_nxt c + n,
       pcb_rcv_wnd := (if ucast (pcb_rcv_wnd c) < n then 0 else pcb_rcv_wnd c - ucast n)\<rparr>"

text \<open>Out of sequence segments that are now in sequence are chained to the received data.\<close>

partial_function (option) dequeue_ooseq :: "'s tcp_env \<Rightarrow> u32 \<Rightarrow> 'a tcp_world_scheme \<Rightarrow> 'a tcp_world_scheme option" where
  "dequeue_ooseq E pcb s = do {
     c \<leftarrow> pcbs s pcb;
     case pcb_ooseq c of
       None \<Rightarrow> Some s
     | Some q \<Rightarrow> do {
         g \<leftarrow> segs s q;
         if ld32 (th_seqno (sg_tcphdr g)) (mem8 s) = pcb_rcv_nxt c then do {
           s \<leftarrow> upd_pcb pcb (advance_rcv (TCP_TCPLEN g (mem8 s))) s;
           p \<leftarrow> sg_p g;
           b \<leftarrow> pbufs s p;
           s \<leftarrow> (if pb_tot_len b > 0 then do {
                    d \<leftarrow> pcb_recv_data c;
                    s \<leftarrow> pbuf_chain d p s;
                    upd_seg q (\<lambda>g. g\<lparr>sg_p := None\<rparr>) s
                  }
                  else Some s);
           s \<leftarrow> (if and (TCPH_FLAGS (sg_tcphdr (inseg s)) (mem8 s)) TCP_FIN \<noteq> 0
                  then upd_pcb pcb (\<lambda>c. c\<lparr>pcb_flags := or (pcb_flags c) TF_GOT_FIN\<rparr>) s else Some s);
           s \<leftarrow> upd_pcb pcb (\<lambda>c. c\<lparr>pcb_ooseq := sg_next g\<rparr>) s;
           (n, s) \<leftarrow> tcp_seg_free E (Some q) s;
           dequeue_ooseq E pcb s
         }
         else Some s
       }
   }"

definition receive_inseq :: "'s tcp_env \<Rightarrow> u32 \<Rightarrow> u32 \<Rightarrow> 'a tcp_world_scheme \<Rightarrow> 'a tcp_world_scheme option" where
  "receive_inseq E pcb seqno s = do {
     c \<leftarrow> pcbs s pcb;
     s \<leftarrow> (case pcb_ooseq c of
              None \<Rightarrow> Some s
            | Some q \<Rightarrow> do {
                g \<leftarrow> segs s q;
                let oseq = ld32 (th_seqno (sg_tcphdr g)) (mem8 s);
                if TCP_SEQ_LEQ oseq (seqno + ucast (sg_len (inseg s))) then do {
                  let s = s\<lparr>inseg := (inseg s)\<lparr>sg_len := ucast (oseq - seqno)\<rparr>\<rparr>;
                  p \<leftarrow> sg_p (inseg s);
                  pbuf_realloc (te_ram E) p (sg_len (inseg s)) s
                }
                else Some s
              });
     s \<leftarrow> upd_pcb pcb (advance_rcv (TCP_TCPLEN (inseg s) (mem8 s))) s;
     p \<leftarrow> sg_p (inseg s);
     b \<leftarrow> pbufs s p;
     s \<leftarrow> (if pb_tot_len b > 0 then do {
              s \<leftarrow> upd_pcb pcb (\<lambda>c. c\<lparr>pcb_recv_data := Some p\<rparr>) s;
              Some (s\<lparr>inseg := (inseg s)\<lparr>sg_p := None\<rparr>\<rparr>)
            }
            else Some s);
     s \<leftarrow> (if and (TCPH_FLAGS (sg_tcphdr (inseg s)) (mem8 s)) TCP_FIN \<noteq> 0
            then upd_pcb pcb (\<lambda>c. c\<lparr>pcb_flags := or (pcb_flags c) TF_GOT_FIN\<rparr>) s else Some s);
     s \<leftarrow> dequeue_ooseq E pcb s;
     tcp_ack E pcb s
   }"

text \<open>
  Queueing an out of sequence segment. The incoming segment is cut where the next segment starts,
  and the segment before it where the incoming one starts.
\<close>

definition trim_inseg :: "'s tcp_env \<Rightarrow> u32 \<Rightarrow> u32 \<Rightarrow> 'a tcp_world_scheme \<Rightarrow> 'a tcp_world_scheme option" where
  "trim_inseg E seqno nseq s =
     (if TCP_SEQ_GT (seqno + ucast (sg_len (inseg s))) nseq then do {
        let s = s\<lparr>inseg := (inseg s)\<lparr>sg_len := ucast (nseq - seqno)\<rparr>\<rparr>;
        p \<leftarrow> sg_p (inseg s);
        pbuf_realloc (te_ram E) p (sg_len (inseg s)) s
      }
      else Some s)"

definition trim_queued :: "'s tcp_env \<Rightarrow> u32 \<Rightarrow> u32 \<Rightarrow> 'a tcp_world_scheme \<Rightarrow> 'a tcp_world_scheme option" where
  "trim_queued E seqno q s = do {
     g \<leftarrow> segs s q;
     let qseq = ld32 (th_seqno (sg_tcphdr g)) (mem8 s);
     if TCP_SEQ_GT (qseq + ucast (sg_len g)) seqno then do {
       s \<leftarrow> upd_seg q (\<lambda>g. g\<lparr>sg_len := ucast (seqno - qseq)\<rparr>) s;
       p \<leftarrow> sg_p g;
       pbuf_realloc (te_ram E) p (ucast (seqno - qseq)) s
     }
     else Some s
   }"

definition link_ooseq :: "u32 \<Rightarrow> u32 option \<Rightarrow> u32 \<Rightarrow> 'a tcp_world_scheme \<Rightarrow> 'a tcp_world_scheme option" where
  "link_ooseq pcb prev cseg s =
     (case prev of
        Some q \<Rightarrow> upd_seg q (\<lambda>g. g\<lparr>sg_next := Some cseg\<rparr>) s
      | None \<Rightarrow> upd_pcb pcb (\<lambda>c. c\<lparr>pcb_ooseq := Some cseg\<rparr>) s)"

partial_function (option) ooseq_loop ::
  "'s tcp_env \<Rightarrow> u32 \<Rightarrow> u32 \<Rightarrow> u32 option \<Rightarrow> u32 option \<Rightarrow> 'a tcp_world_scheme \<Rightarrow> 'a tcp_world_scheme option" where
  "ooseq_loop E pcb seqno prev nxt s =
     (case nxt of
        None \<Rightarrow> Some s
      | Some n \<Rightarrow> do {
          g \<leftarrow> segs s n;
          let nseq = ld32 (th_seqno (sg_tcphdr g)) (mem8 s);
          if seqno = nseq then
            if sg_len (inseg s) > sg_len g then do {
              (cseg, s) \<leftarrow> tcp_seg_copy (inseg s) s;
              case cseg of
                None \<Rightarrow> Some s
              | Some k \<Rightarrow> do {
                  s \<leftarrow> upd_seg k (\<lambda>k. k\<lparr>sg_next := sg_next g\<rparr>) s;
                  link_ooseq pcb prev k s
                }
            }
            else Some s
          else do {
            before \<leftarrow> (case prev of
                          None \<Rightarrow> Some (TCP_SEQ_LT seqno nseq)
                        | Some q \<Rightarrow> do {
                            h \<leftarrow> segs s q;
                            Some (TCP_SEQ_LT (ld32 (th_seqno (sg_tcphdr h)) (mem8 s)) seqno \<and> TCP_SEQ_LT seqno nseq)
                          });
            if before then do {
              s \<leftarrow> trim_inseg E seqno nseq s;
              (cseg, s) \<leftarrow> tcp_seg_copy (inseg s) s;
              case cseg of
                None \<Rightarrow> Some s
              | Some k \<Rightarrow> do {
                  s \<leftarrow> upd_seg k (\<lambda>k. k\<lparr>sg_next := Some n\<rparr>) s;
                  s \<leftarrow> link_ooseq pcb prev k s;
                  case prev of None \<Rightarrow> Some s | Some q \<Rightarrow> trim_queued E seqno q s
                }
            }
            else if sg_next g = None \<and> TCP_SEQ_GT seqno nseq then do {
              (cseg, s) \<leftarrow> tcp_seg_copy (inseg s) s;
              s \<leftarrow> upd_seg n (\<lambda>g. g\<lparr>sg_next := cseg\<rparr>) s;
              if cseg \<noteq> None then trim_queued E seqno n s else Some s
            }
            else ooseq_loop E pcb seqno (Some n) (sg_next g) s
          }
        })"

definition receive_ooseq :: "'s tcp_env \<Rightarrow> u32 \<Rightarrow> u32 \<Rightarrow> 'a tcp_world_scheme \<Rightarrow> 'a tcp_world_scheme option" where
  "receive_ooseq E pcb seqno s = do {
     s \<leftarrow> tcp_ack_now E pcb s;
     c \<leftarrow> pcbs s pcb;
     case pcb_ooseq c of
       None \<Rightarrow> do {
         (cseg, s) \<leftarrow> tcp_seg_copy (inseg s) s;
         upd_pcb pcb (\<lambda>c. c\<lparr>pcb_ooseq := cseg\<rparr>) s
       }
     | Some q \<Rightarrow> ooseq_loop E pcb seqno None (Some q) s
   }"

definition tcp_receive :: "'s tcp_env \<Rightarrow> u32 \<Rightarrow> 'a tcp_world_scheme \<Rightarrow> 'a tcp_world_scheme option" where
  "tcp_receive E pcb s = do {
     let h = sg_tcphdr (inseg s);
     let ackno = ld32 (th_ackno h) (mem8 s);
     let seqno = ld32 (th_seqno h) (mem8 s);
     s \<leftarrow> (if and (TCPH_FLAGS h (mem8 s)) TCP_ACK \<noteq> 0 then receive_ack E pcb seqno ackno s else Some s);
     c \<leftarrow> pcbs s pcb;
     if TCP_TCPLEN (inseg s) (mem8 s) > 0 then do {
       (seqno, s) \<leftarrow> trim_first (pcb_rcv_nxt c) seqno s;
       if TCP_SEQ_GEQ seqno (pcb_rcv_nxt c) \<and> TCP_SEQ_LT seqno (pcb_rcv_nxt c + ucast (pcb_rcv_wnd c)) then
         if pcb_rcv_nxt c = seqno then receive_inseq E pcb seqno s
         else receive_ooseq E pcb seqno s
       else Some s
     }
     else if TCP_SEQ_GT (pcb_rcv_nxt c) seqno \<or> TCP_SEQ_GEQ seqno (pcb_rcv_nxt c + ucast (pcb_rcv_wnd c))
     then tcp_ack_now E pcb s
     else Some s
   }"

subsection \<open>The state machine\<close>

definition rst_acceptable :: "tcp_pcb \<Rightarrow> u32 \<Rightarrow> u32 \<Rightarrow> bool" where
  "rst_acceptable c seqno ackno =
     (if pcb_state c = SYN_SENT then ackno = pcb_snd_nxt c
      else TCP_SEQ_GEQ seqno (pcb_rcv_nxt c) \<and> TCP_SEQ_LEQ seqno (pcb_rcv_nxt c + ucast (pcb_rcv_wnd c)))"

text \<open>
  A SYN for a listening control block creates a connection. The addresses are those of the IP header
  that the code expects in the 20 bytes before the TCP header.
\<close>

definition process_listen ::
  "('a tcp_world_scheme) tcp_env \<Rightarrow> tcp_pcb_listen \<Rightarrow> u8 \<Rightarrow> 'a tcp_world_scheme \<Rightarrow> (err_t \<times> 'a tcp_world_scheme) option" where
  "process_listen E l flags s =
     (let h = sg_tcphdr (inseg s);
          iphdr = h - 20;
          src = ld32 (iphdr + 12) (mem8 s);
          dest = ld32 (iphdr + 16) (mem8 s);
          seqno = ld32 (th_seqno h) (mem8 s);
          ackno = ld32 (th_ackno h) (mem8 s)
      in if and flags TCP_ACK \<noteq> 0 then do {
           s \<leftarrow> tcp_rst E (ackno + 1) (seqno + TCP_TCPLEN (inseg s) (mem8 s)) dest src
                  (ld16 (th_dest h) (mem8 s)) (ld16 (th_src h) (mem8 s)) s;
           Some (ERR_OK, s)
         }
         else if and flags TCP_SYN \<noteq> 0 then do {
           (npcb, s) \<leftarrow> tcp_new E s;
           case npcb of
             None \<Rightarrow> Some (ERR_OK, stat_tcp (\<lambda>st. st\<lparr>ts_memerr := ts_memerr st + 1\<rparr>) s)
           | Some n \<Rightarrow> do {
               s \<leftarrow> upd_pcb n (\<lambda>c. c\<lparr>pcb_local_ip := dest, pcb_local_port := pcb_local_port l, pcb_remote_ip := src,
                      pcb_remote_port := ld16 (th_src h) (mem8 s), pcb_state := SYN_RCVD, pcb_rcv_nxt := seqno + 1,
                      pcb_snd_wnd := ucast (ld16 (th_wnd h) (mem8 s)), pcb_ssthresh := ld16 (th_wnd h) (mem8 s),
                      pcb_snd_wl1 := seqno, pcb_accept := pcb_accept l, pcb_callback_arg := pcb_callback_arg l\<rparr>) s;
               s \<leftarrow> TCP_REG ACTIVE_PCBS n s;
               s \<leftarrow> tcp_parseopt n s;
               c \<leftarrow> pcbs s n;
               (r, s) \<leftarrow> tcp_enqueue E n None 0 (or TCP_SYN TCP_ACK) 0 (Some (mss_option (pcb_mss c))) s;
               tcp_output E n s
             }
         }
         else Some (ERR_OK, s))"

definition process_syn_sent ::
  "('a tcp_world_scheme) tcp_env \<Rightarrow> u32 \<Rightarrow> u8 \<Rightarrow> 'a tcp_world_scheme \<Rightarrow> 'a tcp_world_scheme option" where
  "process_syn_sent E pcb flags s =
     (let h = sg_tcphdr (inseg s);
          seqno = ld32 (th_seqno h) (mem8 s);
          ackno = ld32 (th_ackno h) (mem8 s)
      in if and flags TCP_ACK \<noteq> 0 \<and> and flags TCP_SYN \<noteq> 0 then do {
           c \<leftarrow> pcbs s pcb;
           rseg \<leftarrow> pcb_unacked c;
           g \<leftarrow> segs s rseg;
           if ackno = ntohl (ld32 (th_seqno (sg_tcphdr g)) (mem8 s)) + 1 then do {
             s \<leftarrow> upd_pcb pcb (\<lambda>c. c\<lparr>pcb_rcv_nxt := seqno + 1, pcb_lastack := ackno, pcb_rcv_wnd := ld16 (th_wnd h) (mem8 s),
                    pcb_state := ESTABLISHED, pcb_cwnd := pcb_mss c, pcb_snd_queuelen := pcb_snd_queuelen c - 1,
                    pcb_unacked := sg_next g\<rparr>) s;
             (n, s) \<leftarrow> tcp_seg_free E (Some rseg) s;
             s \<leftarrow> tcp_parseopt pcb s;
             c \<leftarrow> pcbs s pcb;
             s \<leftarrow> (case pcb_connected c of
                      None \<Rightarrow> Some s
                    | Some f \<Rightarrow> do {
                        (r, s) \<leftarrow> te_call E f (CALL_CONNECTED (pcb_callback_arg c) pcb ERR_OK) s;
                        Some s
                      });
             tcp_ack E pcb s
           }
           else Some s
         }
         else Some s)"

definition process_syn_rcvd ::
  "('a tcp_world_scheme) tcp_env \<Rightarrow> u32 \<Rightarrow> u8 \<Rightarrow> 'a tcp_world_scheme \<Rightarrow> 'a tcp_world_scheme option" where
  "process_syn_rcvd E pcb flags s = do {
     c \<leftarrow> pcbs s pcb;
     let ackno = ld32 (th_ackno (sg_tcphdr (inseg s))) (mem8 s);
     if and flags TCP_ACK \<noteq> 0 \<and> and flags TCP_RST = 0 \<and>
        TCP_SEQ_LT (pcb_lastack c) ackno \<and> TCP_SEQ_LEQ ackno (pcb_snd_nxt c)
     then do {
       s \<leftarrow> upd_pcb pcb (\<lambda>c. c\<lparr>pcb_state := ESTABLISHED\<rparr>) s;
       case pcb_accept c of
         None \<Rightarrow> tcp_abort E pcb s
       | Some f \<Rightarrow> do {
           (r, s) \<leftarrow> te_call E f (CALL_ACCEPT (pcb_callback_arg c) pcb ERR_OK) s;
           if r \<noteq> ERR_OK then tcp_abort E pcb s
           else do {
             s \<leftarrow> tcp_receive E pcb s;
             upd_pcb pcb (\<lambda>c. c\<lparr>pcb_cwnd := pcb_mss c\<rparr>) s
           }
         }
     }
     else Some s
   }"

text \<open>The end of a connection: acknowledge, purge, and move the control block to the TIME-WAIT list.\<close>

definition enter_time_wait :: "'s tcp_env \<Rightarrow> u32 \<Rightarrow> 'a tcp_world_scheme \<Rightarrow> 'a tcp_world_scheme option" where
  "enter_time_wait E pcb s = do {
     s \<leftarrow> tcp_ack_now E pcb s;
     s \<leftarrow> tcp_pcb_purge E pcb s;
     s \<leftarrow> TCP_RMV ACTIVE_PCBS pcb s;
     s \<leftarrow> upd_pcb pcb (\<lambda>c. c\<lparr>pcb_state := TIME_WAIT\<rparr>) s;
     TCP_REG TW_PCBS pcb s
   }"

definition set_state :: "u32 \<Rightarrow> tcp_state \<Rightarrow> 'a tcp_world_scheme \<Rightarrow> 'a tcp_world_scheme option" where
  "set_state pcb st s = upd_pcb pcb (\<lambda>c. c\<lparr>pcb_state := st\<rparr>) s"

definition process_fin_wait_1 :: "'s tcp_env \<Rightarrow> u32 \<Rightarrow> u8 \<Rightarrow> u32 \<Rightarrow> 'a tcp_world_scheme \<Rightarrow> 'a tcp_world_scheme option" where
  "process_fin_wait_1 E pcb flags ackno s = do {
     s \<leftarrow> tcp_receive E pcb s;
     c \<leftarrow> pcbs s pcb;
     if and flags TCP_FIN \<noteq> 0 then
       if and flags TCP_ACK \<noteq> 0 \<and> ackno = pcb_snd_nxt c then enter_time_wait E pcb s
       else do {
         s \<leftarrow> tcp_ack_now E pcb s;
         set_state pcb CLOSING s
       }
     else if and flags TCP_ACK \<noteq> 0 \<and> ackno = pcb_snd_nxt c then set_state pcb FIN_WAIT_2 s
     else Some s
   }"

definition tcp_process :: "('a tcp_world_scheme) tcp_env \<Rightarrow> u32 \<Rightarrow> 'a tcp_world_scheme \<Rightarrow> (err_t \<times> 'a tcp_world_scheme) option" where
  "tcp_process E pcb s = do {
     let h = sg_tcphdr (inseg s);
     let flags = TCPH_FLAGS h (mem8 s);
     let seqno = ld32 (th_seqno h) (mem8 s);
     let ackno = ld32 (th_ackno h) (mem8 s);
     l \<leftarrow> pcb_prefix pcb s;
     if and flags TCP_RST \<noteq> 0 then
       if pcb_state l = LISTEN then Some (ERR_RST, s)
       else do {
         c \<leftarrow> pcbs s pcb;
         s \<leftarrow> (if rst_acceptable c seqno ackno
                then upd_pcb pcb (\<lambda>c. c\<lparr>pcb_flags := and (or (pcb_flags c) TF_RESET) (not TF_ACK_DELAY)\<rparr>) s else Some s);
         Some (ERR_RST, s)
       }
     else if pcb_state l = LISTEN then process_listen E l flags s
     else do {
       s \<leftarrow> upd_pcb pcb (\<lambda>c. c\<lparr>pcb_tmr := ucast (tcp_ticks s)\<rparr>) s;
       s \<leftarrow>
         (case pcb_state l of
            CLOSED \<Rightarrow> Some s
          | LISTEN \<Rightarrow> Some s
          | SYN_SENT \<Rightarrow> process_syn_sent E pcb flags s
          | SYN_RCVD \<Rightarrow> process_syn_rcvd E pcb flags s
          | CLOSE_WAIT \<Rightarrow> do {
              s \<leftarrow> tcp_receive E pcb s;
              if and flags TCP_FIN \<noteq> 0 then do {
                s \<leftarrow> tcp_ack_now E pcb s;
                set_state pcb CLOSE_WAIT s
              }
              else Some s
            }
          | ESTABLISHED \<Rightarrow> do {
              s \<leftarrow> tcp_receive E pcb s;
              if and flags TCP_FIN \<noteq> 0 then do {
                s \<leftarrow> tcp_ack_now E pcb s;
                set_state pcb CLOSE_WAIT s
              }
              else Some s
            }
          | FIN_WAIT_1 \<Rightarrow> process_fin_wait_1 E pcb flags ackno s
          | FIN_WAIT_2 \<Rightarrow> do {
              s \<leftarrow> tcp_receive E pcb s;
              if and flags TCP_FIN \<noteq> 0 then enter_time_wait E pcb s else Some s
            }
          | CLOSING \<Rightarrow> do {
              s \<leftarrow> tcp_receive E pcb s;
              c \<leftarrow> pcbs s pcb;
              if and flags TCP_ACK \<noteq> 0 \<and> ackno = pcb_snd_nxt c then enter_time_wait E pcb s else Some s
            }
          | LAST_ACK \<Rightarrow> do {
              s \<leftarrow> tcp_receive E pcb s;
              c \<leftarrow> pcbs s pcb;
              if and flags TCP_ACK \<noteq> 0 \<and> ackno = pcb_snd_nxt c
              then upd_pcb pcb (\<lambda>c. c\<lparr>pcb_state := CLOSED, pcb_flags := or (pcb_flags c) TF_CLOSED\<rparr>) s
              else Some s
            }
          | TIME_WAIT \<Rightarrow> do {
              let len = TCP_TCPLEN (inseg s) (mem8 s);
              s \<leftarrow> upd_pcb pcb (\<lambda>c. if TCP_SEQ_GT (seqno + len) (pcb_rcv_nxt c) then c\<lparr>pcb_rcv_nxt := seqno + len\<rparr> else c) s;
              if len > 0 then tcp_ack_now E pcb s else Some s
            });
       Some (ERR_OK, s)
     }
   }"

subsection \<open>Demultiplexing\<close>

partial_function (option) find_pcb ::
  "(u32 \<rightharpoonup> tcp_pcb) \<Rightarrow> u16 \<Rightarrow> u16 \<Rightarrow> u32 \<Rightarrow> u32 \<Rightarrow> u32 option \<Rightarrow> u32 option \<Rightarrow> (u32 option \<times> u32 option) option" where
  "find_pcb pbs sport dport src dest prev pcb =
     (case pcb of
        None \<Rightarrow> Some (None, prev)
      | Some p \<Rightarrow> do {
          c \<leftarrow> pbs p;
          if pcb_remote_port c = sport \<and> pcb_local_port c = dport \<and> pcb_remote_ip c = src \<and> pcb_local_ip c = dest
          then Some (Some p, prev)
          else find_pcb pbs sport dport src dest (Some p) (pcb_next c)
        })"

partial_function (option) find_listen ::
  "(u32 \<rightharpoonup> tcp_pcb_listen) \<Rightarrow> u16 \<Rightarrow> u32 \<Rightarrow> u32 option \<Rightarrow> u32 option \<Rightarrow> (u32 option \<times> u32 option) option" where
  "find_listen lbs dport dest prev pcb =
     (case pcb of
        None \<Rightarrow> Some (None, prev)
      | Some p \<Rightarrow> do {
          l \<leftarrow> lbs p;
          if (pcb_local_ip l = 0 \<or> pcb_local_ip l = dest) \<and> pcb_local_port l = dport
          then Some (Some p, prev)
          else find_listen lbs dport dest (Some p) (pcb_next l)
        })"

text \<open>A control block that was found is moved to the front of its list.\<close>

definition move_front :: "pcb_list \<Rightarrow> u32 option \<Rightarrow> u32 \<Rightarrow> 'a tcp_world_scheme \<Rightarrow> 'a tcp_world_scheme option" where
  "move_front l prev p s =
     (case prev of
        None \<Rightarrow> Some s
      | Some q \<Rightarrow> do {
          c \<leftarrow> pcb_prefix p s;
          s \<leftarrow> set_pcb_next q (pcb_next c) s;
          s \<leftarrow> set_pcb_next p (list_head l s) s;
          Some (set_head l (Some p) s)
        })"

definition demux :: "u16 \<Rightarrow> u16 \<Rightarrow> u32 \<Rightarrow> u32 \<Rightarrow> 'a tcp_world_scheme \<Rightarrow> (u32 option \<times> 'a tcp_world_scheme) option" where
  "demux sport dport src dest s = do {
     (a, prev) \<leftarrow> find_pcb (pcbs s) sport dport src dest None (tcp_active_pcbs s);
     case a of
       Some p \<Rightarrow> do {
         s \<leftarrow> move_front ACTIVE_PCBS prev p s;
         Some (Some p, s)
       }
     | None \<Rightarrow> do {
         (t, prev) \<leftarrow> find_pcb (pcbs s) sport dport src dest None (tcp_tw_pcbs s);
         case t of
           Some p \<Rightarrow> Some (Some p, s)
         | None \<Rightarrow> do {
             (l, prev) \<leftarrow> find_listen (lpcbs s) dport dest None (tcp_listen_pcbs s);
             case l of
               None \<Rightarrow> Some (None, s)
             | Some p \<Rightarrow> do {
                 s \<leftarrow> move_front LISTEN_PCBS prev p s;
                 Some (Some p, s)
               }
           }
       }
   }"

text \<open>The calls of the application after a segment was processed, and the output they caused.\<close>

definition deliver :: "('a tcp_world_scheme) tcp_env \<Rightarrow> u32 \<Rightarrow> 'a tcp_world_scheme \<Rightarrow> 'a tcp_world_scheme option" where
  "deliver E pcb s = do {
     c \<leftarrow> pcbs s pcb;
     (err, s) \<leftarrow> (case pcb_sent c of
                     Some f \<Rightarrow> if pcb_acked c > 0 then te_call E f (CALL_SENT (pcb_callback_arg c) pcb (pcb_acked c)) s
                               else Some (ERR_OK, s)
                   | None \<Rightarrow> Some (ERR_OK, s));
     c \<leftarrow> pcbs s pcb;
     (err, s) \<leftarrow>
       (case pcb_recv c of
          Some f \<Rightarrow> do {
            (err, s) \<leftarrow> (case pcb_recv_data c of
                            None \<Rightarrow> Some (err, s)
                          | Some d \<Rightarrow> te_call E f (CALL_RECV (pcb_callback_arg c) pcb (Some d) ERR_OK) s);
            c \<leftarrow> pcbs s pcb;
            if and (pcb_flags c) TF_GOT_FIN \<noteq> 0 then do {
              g \<leftarrow> pcb_recv c;
              te_call E g (CALL_RECV (pcb_callback_arg c) pcb None ERR_OK) s
            }
            else Some (err, s)
          }
        | None \<Rightarrow> do {
            (n, s) \<leftarrow> pbuf_free (te_ram E) (pcb_recv_data c) s;
            c \<leftarrow> pcbs s pcb;
            s \<leftarrow> (if and (pcb_flags c) TF_GOT_FIN \<noteq> 0 then do { (r, s) \<leftarrow> tcp_close E pcb s; Some s } else Some s);
            Some (ERR_OK, s)
          });
     if err = ERR_OK then do { (r, s) \<leftarrow> tcp_output E pcb s; Some s } else Some s
   }"

definition after_process :: "('a tcp_world_scheme) tcp_env \<Rightarrow> u32 \<Rightarrow> 'a tcp_world_scheme \<Rightarrow> 'a tcp_world_scheme option" where
  "after_process E pcb s = do {
     l \<leftarrow> pcb_prefix pcb s;
     if pcb_state l = LISTEN then Some s
     else do {
       c \<leftarrow> pcbs s pcb;
       if and (pcb_flags c) TF_RESET \<noteq> 0 then do {
         s \<leftarrow> (case pcb_errf c of
                  None \<Rightarrow> Some s
                | Some f \<Rightarrow> do { (r, s) \<leftarrow> te_call E f (CALL_ERRF (pcb_callback_arg c) ERR_RST) s; Some s });
         l \<leftarrow> pcb_prefix pcb s;
         s \<leftarrow> tcp_pcb_remove E (if pcb_state l = TIME_WAIT then TW_PCBS else ACTIVE_PCBS) pcb s;
         Some (free_pcb pcb s)
       }
       else if and (pcb_flags c) TF_CLOSED \<noteq> 0 then do {
         s \<leftarrow> tcp_pcb_remove E ACTIVE_PCBS pcb s;
         Some (free_pcb pcb s)
       }
       else if pcb_state c < TIME_WAIT then deliver E pcb s
       else do {
         (n, s) \<leftarrow> pbuf_free (te_ram E) (pcb_recv_data c) s;
         (r, s) \<leftarrow> tcp_output E pcb s;
         Some s
       }
     }
   }"

definition ip_addr_isbroadcast :: "u32 \<Rightarrow> u32 \<Rightarrow> bool" where
  "ip_addr_isbroadcast addr netmask \<longleftrightarrow>
     and addr (not netmask) = and 0xffffffff (not netmask) \<or> addr = 0xffffffff \<or> addr = 0"

definition ip_addr_ismulticast :: "u32 \<Rightarrow> bool" where
  "ip_addr_ismulticast addr \<longleftrightarrow> and addr (ntohl 0xf0000000) = ntohl 0xe0000000"

definition IPH_HL :: "u32 \<Rightarrow> bytes \<Rightarrow> u16" where
  "IPH_HL h m = and (drop_bit 8 (ntohs (ld16 h m))) 0x0f"

text \<open>The fields of the header that are converted to host byte order in place.\<close>

definition header_to_host :: "u32 \<Rightarrow> bytes \<Rightarrow> bytes" where
  "header_to_host h m =
     (let m = st16 (th_src h) (ntohs (ld16 (th_src h) m)) m;
          m = st16 (th_dest h) (ntohs (ld16 (th_dest h) m)) m;
          m = st32 (th_seqno h) (ntohl (ld32 (th_seqno h) m)) m;
          m = st32 (th_ackno h) (ntohl (ld32 (th_ackno h) m)) m
      in st16 (th_wnd h) (ntohs (ld16 (th_wnd h) m)) m)"

definition process_segment ::
  "('a tcp_world_scheme) tcp_env \<Rightarrow> u32 \<Rightarrow> u32 \<Rightarrow> u32 \<Rightarrow> 'a tcp_world_scheme \<Rightarrow> 'a tcp_world_scheme option" where
  "process_segment E pcb p h s = do {
     b \<leftarrow> pbufs s p;
     let s = s\<lparr>inseg := \<lparr>sg_next = None, sg_p = Some p, sg_dataptr = pb_payload b, sg_len = pb_tot_len b, sg_tcphdr = h\<rparr>\<rparr>;
     l \<leftarrow> pcb_prefix pcb s;
     s \<leftarrow> (if pcb_state l \<noteq> LISTEN \<and> pcb_state l \<noteq> TIME_WAIT
            then upd_pcb pcb (\<lambda>c. c\<lparr>pcb_recv_data := None\<rparr>) s else Some s);
     (err, s) \<leftarrow> tcp_process E pcb s;
     s \<leftarrow> (if err \<noteq> ERR_ABRT then after_process E pcb s else Some s);
     (n, s) \<leftarrow> pbuf_free (te_ram E) (sg_p (inseg s)) s;
     Some s
   }"

definition tcp_input :: "('a tcp_world_scheme) tcp_env \<Rightarrow> u32 \<Rightarrow> u32 \<Rightarrow> 'a tcp_world_scheme \<Rightarrow> 'a tcp_world_scheme option" where
  "tcp_input E netmask p s = do {
     let s = stat_tcp (\<lambda>st. st\<lparr>ts_recv := ts_recv st + 1\<rparr>) s;
     b \<leftarrow> pbufs s p;
     let iphdr = pb_payload b;
     let hlen = IPH_HL iphdr (mem8 s) * 4;
     let h = iphdr + ucast hlen;
     let src = ld32 (iphdr + 12) (mem8 s);
     let dest = ld32 (iphdr + 16) (mem8 s);
     (r, s) \<leftarrow> pbuf_header p (- hlen) s;
     if ip_addr_isbroadcast dest netmask \<or> ip_addr_ismulticast dest then do {
       (n, s) \<leftarrow> pbuf_free (te_ram E) (Some p) s;
       Some s
     }
     else do {
       b \<leftarrow> pbufs s p;
       k \<leftarrow> chksum_pseudo p src dest IP_PROTO_TCP (pb_tot_len b) s;
       if k \<noteq> 0 then do {
         let s = stat_tcp (\<lambda>st. st\<lparr>ts_chkerr := ts_chkerr st + 1, ts_drop := ts_drop st + 1\<rparr>) s;
         (n, s) \<leftarrow> pbuf_free (te_ram E) (Some p) s;
         Some s
       }
       else do {
         let offset = drop_bit 4 (TCPH_OFFSET h (mem8 s));
         (r, s) \<leftarrow> pbuf_header p (- (offset * 4)) s;
         let s = upd_mem (header_to_host h) s;
         let sport = ld16 (th_src h) (mem8 s);
         let dport = ld16 (th_dest h) (mem8 s);
         let src = ld32 (iphdr + 12) (mem8 s);
         let dest = ld32 (iphdr + 16) (mem8 s);
         (pcb, s) \<leftarrow> demux sport dport src dest s;
         case pcb of
           Some q \<Rightarrow> process_segment E q p h s
         | None \<Rightarrow> do {
             b \<leftarrow> pbufs s p;
             let flags = TCPH_FLAGS h (mem8 s);
             s \<leftarrow> (if and flags TCP_RST = 0 then
                      tcp_rst E (ld32 (th_ackno h) (mem8 s))
                        (ld32 (th_seqno h) (mem8 s) + ucast (pb_tot_len b) +
                         (if and flags TCP_FIN \<noteq> 0 \<or> and flags TCP_SYN \<noteq> 0 then 1 else 0))
                        dest src dport sport
                        (stat_tcp (\<lambda>st. st\<lparr>ts_proterr := ts_proterr st + 1, ts_drop := ts_drop st + 1\<rparr>) s)
                    else Some s);
             (n, s) \<leftarrow> pbuf_free (te_ram E) (Some p) s;
             Some s
           }
       }
     }
   }"

end
