(* ===== verification/Option_Wp.thy ===== *)
theory Option_Wp
  imports Main "HOL-Library.Monad_Syntax"
begin

text \<open>
  Partial correctness of computations in the option monad: \<open>rets P m\<close> says that if \<open>m\<close> returns then
  its result satisfies \<open>P\<close>. The rules in the collection \<open>wp\<close> take a computation apart; a component
  adds the rules of its operations in the form of a premise for their continuation, for which
  \<open>rets_mono\<close> turns a lemma into such a rule. \<open>auto intro!: wp\<close> then proves what an operation keeps.
\<close>

definition rets :: "('a \<Rightarrow> bool) \<Rightarrow> 'a option \<Rightarrow> bool" where
  "rets P m \<longleftrightarrow> (\<forall>x. m = Some x \<longrightarrow> P x)"

named_theorems wp

lemma retsI: "(\<And>x. m = Some x \<Longrightarrow> P x) \<Longrightarrow> rets P m"
  by (simp add: rets_def)

lemma retsD: "rets P m \<Longrightarrow> m = Some x \<Longrightarrow> P x"
  by (simp add: rets_def)

lemma rets_mono: "rets Q m \<Longrightarrow> (\<And>x. Q x \<Longrightarrow> P x) \<Longrightarrow> rets P m"
  by (simp add: rets_def)

lemma rets_Some [wp]: "P x \<Longrightarrow> rets P (Some x)"
  by (simp add: rets_def)

lemma rets_None [wp]: "rets P None"
  by (simp add: rets_def)

lemma rets_bind [wp]: "rets (\<lambda>x. rets P (f x)) m \<Longrightarrow> rets P (Option.bind m f)"
  by (auto simp: rets_def bind_eq_Some_conv)

lemma rets_if [wp]: "(b \<Longrightarrow> rets P m) \<Longrightarrow> (\<not> b \<Longrightarrow> rets P n) \<Longrightarrow> rets P (if b then m else n)"
  by simp

lemma rets_case_option [wp]:
  "(x = None \<Longrightarrow> rets P n) \<Longrightarrow> (\<And>y. x = Some y \<Longrightarrow> rets P (f y)) \<Longrightarrow> rets P (case x of None \<Rightarrow> n | Some y \<Rightarrow> f y)"
  by (cases x) simp_all

lemma rets_case_prod [wp]: "(\<And>a b. x = (a, b) \<Longrightarrow> rets P (f a b)) \<Longrightarrow> rets P (case x of (a, b) \<Rightarrow> f a b)"
  by (cases x) simp

lemma rets_Let [wp]: "(\<And>x. x = v \<Longrightarrow> rets P (f x)) \<Longrightarrow> rets P (let x = v in f x)"
  by simp

text \<open>Every map from addresses is read this way.\<close>

lemma rets_read: "(\<And>x. m = Some x \<Longrightarrow> P x) \<Longrightarrow> rets P m"
  by (rule retsI)

end
