(* ===== verification/Pbuf_Frame.thy ===== *)
theory Pbuf_Frame
  imports Pbuf Option_Wp
begin

text \<open>
  What the operations on the heap, the pools and the packet buffers leave alone: the part of the
  state that the components built on them add to the record, \<open>pbuf_state.more\<close>.
\<close>

lemma more_sem_wait [wp]: "(\<And>r. P r) \<Longrightarrow> rets P (sys_arch_sem_wait sem t ts)"
  by (simp add: rets_def)

lemma wp_mem_scan [wp]: "(\<And>r. P r) \<Longrightarrow> rets P (mem_scan r n p)"
  by (simp add: rets_def)

lemma wp_pbufs [wp]: "(\<And>b. pbufs s p = Some b \<Longrightarrow> P b) \<Longrightarrow> rets P (pbufs s p)"
  by (rule rets_read)

lemma wp_last_pbuf [wp]: "(\<And>q. P q) \<Longrightarrow> rets P (last_pbuf pbs p)"
  by (simp add: rets_def)

lemma wp_realloc_step [wp]: "(\<And>q. P q) \<Longrightarrow> rets P (realloc_step pbs n p)"
  by (simp add: rets_def)

lemma more_mem_lock [THEN rets_mono, wp]: "rets (\<lambda>s'. pbuf_state.more s' = pbuf_state.more s) (mem_lock s)"
  unfolding mem_lock_def by (auto intro!: wp)

lemma more_mem_unlock [simp]: "pbuf_state.more (mem_unlock s) = pbuf_state.more s"
  by (simp add: mem_unlock_def)

lemma more_plug_holes [simp]: "pbuf_state.more (plug_holes m s) = pbuf_state.more s"
  by (simp add: plug_holes_def plug_forward_def plug_backward_def Let_def)

lemma wp_lfree_walk [wp]: "(\<And>q. P q) \<Longrightarrow> rets P (lfree_walk r p)"
  by (simp add: rets_def)

lemma more_mem_malloc [THEN rets_mono, wp]: "rets (\<lambda>(_, s'). pbuf_state.more s' = pbuf_state.more s) (mem_malloc n s)"
  unfolding mem_malloc_def by (auto intro!: wp)

lemma more_mem_free [THEN rets_mono, wp]: "rets (\<lambda>s'. pbuf_state.more s' = pbuf_state.more s) (mem_free m s)"
  unfolding mem_free_def by (auto intro!: wp)

lemma more_mem_realloc [THEN rets_mono, wp]: "rets (\<lambda>(_, s'). pbuf_state.more s' = pbuf_state.more s) (mem_realloc m n s)"
  unfolding mem_realloc_def by (auto intro!: wp)

lemma more_memp_lock [THEN rets_mono, wp]: "rets (\<lambda>s'. pbuf_state.more s' = pbuf_state.more s) (memp_lock s)"
  unfolding memp_lock_def by (auto intro!: wp)

lemma more_memp_unlock [simp]: "pbuf_state.more (memp_unlock s) = pbuf_state.more s"
  by (simp add: memp_unlock_def)

lemma more_memp_stat_upd [simp]: "pbuf_state.more (memp_stat_upd t f s) = pbuf_state.more s"
  by (simp add: memp_stat_upd_def)

lemma more_memp_malloc: "memp_malloc t s = (m, s') \<Longrightarrow> pbuf_state.more s' = pbuf_state.more s"
  by (auto simp: memp_malloc_def Let_def split: option.splits)

lemma more_memp_free [simp]: "pbuf_state.more (memp_free t m s) = pbuf_state.more s"
  by (simp add: memp_free_def Let_def split: option.splits)

lemma more_memp_mallocp [THEN rets_mono, wp]:
  "rets (\<lambda>(_, s'). pbuf_state.more s' = pbuf_state.more s) (memp_mallocp t s)"
  unfolding memp_mallocp_def by (auto intro!: wp dest!: more_memp_malloc)

lemma more_memp_freep [THEN rets_mono, wp]: "rets (\<lambda>s'. pbuf_state.more s' = pbuf_state.more s) (memp_freep t m s)"
  unfolding memp_freep_def by (auto intro!: wp)

lemma more_pool_lock [THEN rets_mono, wp]: "rets (\<lambda>s'. pbuf_state.more s' = pbuf_state.more s) (pool_lock s)"
  unfolding pool_lock_def by (auto intro!: wp)

lemma more_pool_unlock [simp]: "pbuf_state.more (pool_unlock s) = pbuf_state.more s"
  by (simp add: pool_unlock_def)

lemma more_stat_pbuf [simp]: "pbuf_state.more (stat_pbuf f s) = pbuf_state.more s"
  by (simp add: stat_pbuf_def)

lemma more_upd_pbuf [THEN rets_mono, wp]: "rets (\<lambda>s'. pbuf_state.more s' = pbuf_state.more s) (upd_pbuf p f s)"
  unfolding upd_pbuf_def by (auto intro!: wp)

lemma more_PBUF_POOL_FREE [THEN rets_mono, wp]: "rets (\<lambda>s'. pbuf_state.more s' = pbuf_state.more s) (PBUF_POOL_FREE p s)"
  unfolding PBUF_POOL_FREE_def by (auto intro!: wp)

lemma more_pbuf_refresh [THEN rets_mono, wp]: "rets (\<lambda>s'. pbuf_state.more s' = pbuf_state.more s) (pbuf_refresh s)"
  unfolding pbuf_refresh_def by (auto intro!: wp)

lemma more_pbuf_free_loop [THEN rets_mono, wp]:
  "rets (\<lambda>(_, s'). pbuf_state.more s' = pbuf_state.more s) (pbuf_free_loop ram_addr p n s)"
  apply (rule retsI, erule pbuf_free_loop.raw_induct [rotated])
  subgoal premises step for _ loop ra p n s r
  proof -
    have [THEN rets_mono, wp]: "rets (\<lambda>(_, s'). pbuf_state.more s' = pbuf_state.more s) (loop ra p n s)" for ra p n s
      by (rule retsI) (rule step(1))
    show ?thesis by (rule retsD [OF _ step(2)]) (auto intro!: wp)
  qed
  done

lemma more_pbuf_free [THEN rets_mono, wp]:
  "rets (\<lambda>(_, s'). pbuf_state.more s' = pbuf_state.more s) (pbuf_free ram_addr p s)"
  unfolding pbuf_free_def by (auto intro!: wp)

lemma more_pbuf_alloc_RAM [THEN rets_mono, wp]:
  "rets (\<lambda>(_, s'). pbuf_state.more s' = pbuf_state.more s) (pbuf_alloc ram_addr l n PBUF_RAM s)"
  unfolding pbuf_alloc_def by (auto intro!: wp)

lemma more_pbuf_alloc_ROM [THEN rets_mono, wp]:
  "rets (\<lambda>(_, s'). pbuf_state.more s' = pbuf_state.more s) (pbuf_alloc ram_addr l n PBUF_ROM s)"
  unfolding pbuf_alloc_def by (auto intro!: wp)

lemma more_pbuf_header [THEN rets_mono, wp]:
  "rets (\<lambda>(_, s'). pbuf_state.more s' = pbuf_state.more s) (pbuf_header p n s)"
  unfolding pbuf_header_def by (auto intro!: wp)

lemma more_pbuf_ref [THEN rets_mono, wp]: "rets (\<lambda>s'. pbuf_state.more s' = pbuf_state.more s) (pbuf_ref p s)"
  unfolding pbuf_ref_def by (auto intro!: wp)

lemma more_pbuf_chain [THEN rets_mono, wp]: "rets (\<lambda>s'. pbuf_state.more s' = pbuf_state.more s) (pbuf_chain h t s)"
  unfolding pbuf_chain_def by (auto intro!: wp)

lemma more_realloc_pool_free [THEN rets_mono, wp]:
  "rets (\<lambda>s'. pbuf_state.more s' = pbuf_state.more s) (realloc_pool_free p s)"
  apply (rule retsI, erule realloc_pool_free.raw_induct [rotated])
  subgoal premises step for _ loop p s r
  proof -
    have [THEN rets_mono, wp]: "rets (\<lambda>s'. pbuf_state.more s' = pbuf_state.more s) (loop p s)" for p s
      by (rule retsI) (rule step(1))
    show ?thesis by (rule retsD [OF _ step(2)]) (auto intro!: wp)
  qed
  done

lemma more_realloc_ram_free [THEN rets_mono, wp]:
  "rets (\<lambda>s'. pbuf_state.more s' = pbuf_state.more s) (realloc_ram_free ra p s)"
  apply (rule retsI, erule realloc_ram_free.raw_induct [rotated])
  subgoal premises step for _ loop ra p s r
  proof -
    have [THEN rets_mono, wp]: "rets (\<lambda>s'. pbuf_state.more s' = pbuf_state.more s) (loop ra p s)" for ra p s
      by (rule retsI) (rule step(1))
    show ?thesis by (rule retsD [OF _ step(2)]) (auto intro!: wp)
  qed
  done

lemma more_pbuf_realloc [THEN rets_mono, wp]:
  "rets (\<lambda>s'. pbuf_state.more s' = pbuf_state.more s) (pbuf_realloc ra p n s)"
  unfolding pbuf_realloc_def by (auto intro!: wp)

end
