(* ===== verification/Tcp_Frame.thy ===== *)
theory Tcp_Frame
  imports Tcp_Input Pbuf_Frame
begin

text \<open>
  What sending and receiving leave alone. \<open>conn c\<close> are the fields of a control block that identify
  the connection: its place in the lists, its state, addresses and ports, and the functions of the
  application. \<open>net s\<close> adds the listening control blocks, the heads of the lists and the clock.
  Everything that \<open>tcp_output\<close> and \<open>tcp_receive\<close> do keeps it, whatever happens to the queues, the
  packet buffers and memory.
\<close>

definition conn where
  "conn c = (pcb_next c, pcb_state c, pcb_callback_arg c, pcb_accept c, pcb_local_ip c, pcb_local_port c,
     pcb_remote_ip c, pcb_remote_port c, pcb_sent c, pcb_recv c, pcb_connected c, pcb_poll c, pcb_errf c)"

definition net where
  "net s = ((\<lambda>p. map_option conn (pcbs s p)), lpcbs s, tcp_listen_pcbs s, tcp_active_pcbs s, tcp_tw_pcbs s, tcp_ticks s)"

lemma conn_simps [simp]:
  "conn (pcb_rcv_nxt_update f1 c) = conn c" "conn (pcb_rcv_wnd_update f2 c) = conn c" "conn (pcb_tmr_update f3 c) = conn c"
  "conn (pcb_rtime_update f4 c) = conn c" "conn (pcb_mss_update f5 c) = conn c" "conn (pcb_flags_update f6 c) = conn c"
  "conn (pcb_rttest_update f7 c) = conn c" "conn (pcb_rtseq_update f8 c) = conn c" "conn (pcb_sa_update f9 c) = conn c"
  "conn (pcb_sv_update f10 c) = conn c" "conn (pcb_rto_update f11 c) = conn c" "conn (pcb_nrtx_update f12 c) = conn c"
  "conn (pcb_lastack_update f13 c) = conn c" "conn (pcb_dupacks_update f14 c) = conn c" "conn (pcb_cwnd_update f15 c) = conn c"
  "conn (pcb_ssthresh_update f16 c) = conn c" "conn (pcb_snd_nxt_update f17 c) = conn c" "conn (pcb_snd_max_update f18 c) = conn c"
  "conn (pcb_snd_wnd_update f19 c) = conn c" "conn (pcb_snd_wl1_update f20 c) = conn c" "conn (pcb_snd_wl2_update f21 c) = conn c"
  "conn (pcb_snd_lbb_update f22 c) = conn c" "conn (pcb_snd_buf_update f23 c) = conn c" "conn (pcb_snd_queuelen_update f24 c) = conn c"
  "conn (pcb_acked_update f25 c) = conn c" "conn (pcb_recv_data_update f26 c) = conn c" "conn (pcb_polltmr_update f27 c) = conn c"
  "conn (pcb_pollinterval_update f28 c) = conn c" "conn (pcb_unsent_update f29 c) = conn c" "conn (pcb_unacked_update f30 c) = conn c"
  "conn (pcb_ooseq_update f31 c) = conn c"
  by (simp_all add: conn_def)

lemma net_more [dest!]: "pbuf_state.more s' = pbuf_state.more s \<Longrightarrow> net s' = net s"
  by (cases s, cases s') (simp add: net_def)

lemma net_simps [simp]:
  "net (s\<lparr>segs := a\<rparr>) = net s" "net (s\<lparr>mem8 := b\<rparr>) = net s" "net (s\<lparr>inseg := c\<rparr>) = net s"
  "net (s\<lparr>ip_out := d\<rparr>) = net s" "net (s\<lparr>tcp_stats := e\<rparr>) = net s" "net (upd_mem f s) = net s"
  "net (stat_tcp g s) = net s" "net (memp_free t m s) = net s"
  by (simp_all add: net_def upd_mem_def stat_tcp_def memp_free_def memp_stat_upd_def Let_def split: option.splits)

lemma net_case_option [simp]:
  "(\<And>y. net (f y) = net a) \<Longrightarrow> net (case x of None \<Rightarrow> a | Some y \<Rightarrow> f y) = net a"
  by (cases x) simp_all

lemma wp_pcbs [wp]: "(\<And>c. pcbs s p = Some c \<Longrightarrow> P c) \<Longrightarrow> rets P (pcbs s p)"
  by (rule rets_read)

lemma wp_segs [wp]: "(\<And>g. segs s p = Some g \<Longrightarrow> P g) \<Longrightarrow> rets P (segs s p)"
  by (rule rets_read)

lemma wp_sg_p [wp]: "(\<And>q. sg_p g = Some q \<Longrightarrow> P q) \<Longrightarrow> rets P (sg_p g)"
  by (rule rets_read)

lemma wp_recv_data [wp]: "(\<And>q. pcb_recv_data c = Some q \<Longrightarrow> P q) \<Longrightarrow> rets P (pcb_recv_data c)"
  by (rule rets_read)

lemma wp_unacked [wp]: "(\<And>q. pcb_unacked c = Some q \<Longrightarrow> P q) \<Longrightarrow> rets P (pcb_unacked c)"
  by (rule rets_read)

lemma wp_pcb_recv [wp]: "(\<And>q. pcb_recv c = Some q \<Longrightarrow> P q) \<Longrightarrow> rets P (pcb_recv c)"
  by (rule rets_read)

lemma wp_ev_queue [wp]: "(\<And>q. ev_queue v = Some q \<Longrightarrow> P q) \<Longrightarrow> rets P (ev_queue v)"
  by (rule rets_read)

lemma wp_pb_next [wp]: "(\<And>q. pb_next b = Some q \<Longrightarrow> P q) \<Longrightarrow> rets P (pb_next b)"
  by (rule rets_read)

lemma wp_last_seg [wp]: "(\<And>q. P q) \<Longrightarrow> rets P (last_seg sgs p)"
  by (simp add: rets_def)

lemma wp_pbuf_clen [wp]: "(\<And>q. P q) \<Longrightarrow> rets P (pbuf_clen p s)"
  by (simp add: rets_def)

lemma wp_chain_bytes [wp]: "(\<And>q. P q) \<Longrightarrow> rets P (chain_bytes pbs m p)"
  by (simp add: rets_def)

lemma wp_chksum_pseudo [wp]: "(\<And>q. P q) \<Longrightarrow> rets P (chksum_pseudo p a b c d s)"
  by (simp add: rets_def)

lemma net_upd_seg [THEN rets_mono, wp]: "rets (\<lambda>s'. net s' = net s) (upd_seg p f s)"
  unfolding upd_seg_def by (auto intro!: wp)

lemma net_upd_pcb [wp]:
  assumes "\<And>c. pcbs s p = Some c \<Longrightarrow> conn (f c) = conn c" "\<And>s'. net s' = net s \<Longrightarrow> P s'"
  shows "rets P (upd_pcb p f s)"
  using assms(1) unfolding upd_pcb_def by (auto intro!: wp assms(2) simp: net_def fun_eq_iff)

lemma net_memp_malloc [dest!]: "memp_malloc t s = (m, s') \<Longrightarrow> net s' = net s"
  by (drule more_memp_malloc) (rule net_more)

lemma net_tcp_seg_free [THEN rets_mono, wp]: "rets (\<lambda>(_, s'). net s' = net s) (tcp_seg_free E q s)"
  unfolding tcp_seg_free_def by (auto intro!: wp)

lemma net_tcp_segs_free [THEN rets_mono, wp]: "rets (\<lambda>(_, s'). net s' = net s) (tcp_segs_free_loop E q n s)"
  apply (rule retsI, erule tcp_segs_free_loop.raw_induct [rotated])
  subgoal premises step for _ loop E q n s r
  proof -
    have [THEN rets_mono, wp]: "rets (\<lambda>(_, s'). net s' = net s) (loop E q n s)" for E q n s
      by (rule retsI) (rule step(1))
    show ?thesis by (rule retsD [OF _ step(2)]) (auto intro!: wp)
  qed
  done

lemma net_tcp_seg_copy [THEN rets_mono, wp]: "rets (\<lambda>(_, s'). net s' = net s) (tcp_seg_copy g s)"
  unfolding tcp_seg_copy_def by (auto intro!: wp)

lemma net_sr_lwip_output [THEN rets_mono, wp]: "rets (\<lambda>(_, s'). net s' = net s) (sr_lwip_output p a b c s)"
  unfolding sr_lwip_output_def sr_integ_ip_output_def by (auto intro!: wp)

lemma net_xmit_seg [THEN rets_mono, wp]: "rets (\<lambda>s'. net s' = net s) (xmit_seg g a b s)"
  unfolding xmit_seg_def by (auto intro!: wp)

lemma net_set_chksum [THEN rets_mono, wp]: "rets (\<lambda>s'. net s' = net s) (set_chksum h p a b s)"
  unfolding set_chksum_def by (auto intro!: wp)

lemma net_tcp_output_segment [THEN rets_mono, wp]: "rets (\<lambda>s'. net s' = net s) (tcp_output_segment q p s)"
  unfolding tcp_output_segment_def by (auto intro!: wp simp: ip_route_def sr_integ_findsrcip_def)

lemma net_send_empty_ack [THEN rets_mono, wp]: "rets (\<lambda>(_, s'). net s' = net s) (send_empty_ack E p s)"
  unfolding send_empty_ack_def by (auto intro!: wp)

lemma net_output_body [THEN rets_mono, wp]: "rets (\<lambda>s'. net s' = net s) (output_body E p q s)"
  unfolding output_body_def by (auto intro!: wp)

lemma net_output_loop [THEN rets_mono, wp]: "rets (\<lambda>s'. net s' = net s) (output_loop E p w s)"
  apply (rule retsI, erule output_loop.raw_induct [rotated])
  subgoal premises step for _ loop E p w s r
  proof -
    have [THEN rets_mono, wp]: "rets (\<lambda>s'. net s' = net s) (loop E p w s)" for E p w s
      by (rule retsI) (rule step(1))
    show ?thesis by (rule retsD [OF _ step(2)]) (auto intro!: wp)
  qed
  done

lemma net_tcp_output [THEN rets_mono, wp]: "rets (\<lambda>(_, s'). net s' = net s) (tcp_output E p s)"
  unfolding tcp_output_def by (auto intro!: wp)

lemma net_tcp_rexmit_seg [THEN rets_mono, wp]: "rets (\<lambda>s'. net s' = net s) (tcp_rexmit_seg p q s)"
  unfolding tcp_rexmit_seg_def by (auto intro!: wp)

lemma net_tcp_ack_now [THEN rets_mono, wp]: "rets (\<lambda>s'. net s' = net s) (tcp_ack_now E p s)"
  unfolding tcp_ack_now_def by (auto intro!: wp)

lemma net_tcp_ack [THEN rets_mono, wp]: "rets (\<lambda>s'. net s' = net s) (tcp_ack E p s)"
  unfolding tcp_ack_def by (auto intro!: wp)

lemma net_enqueue_pbufs [THEN rets_mono, wp]: "rets (\<lambda>(_, s'). net s' = net s) (enqueue_pbufs E A q n ptr k s)"
  unfolding enqueue_pbufs_def by (auto intro!: wp)

lemma net_enqueue_body [THEN rets_mono, wp]: "rets (\<lambda>(_, s'). net s' = net s) (enqueue_body E p A v s)"
  unfolding enqueue_body_def by (auto intro!: wp)

lemma net_enqueue_loop [THEN rets_mono, wp]: "rets (\<lambda>(_, s'). net s' = net s) (enqueue_loop E p A v s)"
  apply (rule retsI, erule enqueue_loop.raw_induct [rotated])
  subgoal premises step for _ loop E p A v s r
  proof -
    have [THEN rets_mono, wp]: "rets (\<lambda>(_, s'). net s' = net s) (loop E p A v s)" for E p A v s
      by (rule retsI) (rule step(1))
    show ?thesis by (rule retsD [OF _ step(2)]) (auto intro!: wp)
  qed
  done

lemma net_enqueue_append [THEN rets_mono, wp]: "rets (\<lambda>(_, s'). net s' = net s) (enqueue_append p f q g s)"
  unfolding enqueue_append_def by (auto intro!: wp)

lemma net_segs_free [THEN rets_mono, wp]: "rets (\<lambda>(_, s'). net s' = net s) (tcp_segs_free E q s)"
  unfolding tcp_segs_free_def by (auto intro!: wp)

lemma net_enqueue_memerr [THEN rets_mono, wp]: "rets (\<lambda>(_, s'). net s' = net s) (enqueue_memerr E q s)"
  unfolding enqueue_memerr_def by (auto intro!: wp)

lemma net_tcp_enqueue [THEN rets_mono, wp]: "rets (\<lambda>(_, s'). net s' = net s) (tcp_enqueue E p a l f k opt s)"
  unfolding tcp_enqueue_def by (auto intro!: wp)

lemma wp_pcb_prefix [wp]: "(\<And>l. pcb_prefix p s = Some l \<Longrightarrow> P l) \<Longrightarrow> rets P (pcb_prefix p s)"
  by (rule rets_read)

lemma net_tcp_pcb_purge [THEN rets_mono, wp]: "rets (\<lambda>s'. net s' = net s) (tcp_pcb_purge E p s)"
  unfolding tcp_pcb_purge_def by (auto intro!: wp)

lemma wp_parseopt_loop [wp]: "(\<And>q. P q) \<Longrightarrow> rets P (parseopt_loop m a l c)"
  by (simp add: rets_def)

lemma net_tcp_parseopt [THEN rets_mono, wp]: "rets (\<lambda>s'. net s' = net s) (tcp_parseopt p s)"
  unfolding tcp_parseopt_def by (auto intro!: wp)

lemma conn_acks [simp]:
  "conn (recv_window a b w c) = conn c" "conn (inflate_cwnd c) = conn c" "conn (rtt_estimate t a c) = conn c"
  "conn (advance_rcv n c) = conn c"
  by (simp_all add: conn_def recv_window_def inflate_cwnd_def rtt_estimate_def advance_rcv_def Let_def)

lemma wp_new_ack [wp]: "(\<And>d. conn d = conn c \<Longrightarrow> P d) \<Longrightarrow> rets P (new_ack a c)"
  unfolding new_ack_def grow_cwnd_def by (auto intro!: wp)

lemma net_recv_dupack [THEN rets_mono, wp]: "rets (\<lambda>s'. net s' = net s) (recv_dupack p s)"
  unfolding recv_dupack_def by (auto intro!: wp simp: Let_def)

lemma net_ack_unsent [THEN rets_mono, wp]: "rets (\<lambda>s'. net s' = net s) (ack_unsent E p a s)"
  apply (rule retsI, erule ack_unsent.raw_induct [rotated])
  subgoal premises step for _ loop E p a s r
  proof -
    have [THEN rets_mono, wp]: "rets (\<lambda>s'. net s' = net s) (loop E p a s)" for E p a s
      by (rule retsI) (rule step(1))
    show ?thesis by (rule retsD [OF _ step(2)]) (auto intro!: wp)
  qed
  done

lemma net_ack_unacked [THEN rets_mono, wp]: "rets (\<lambda>s'. net s' = net s) (ack_unacked E p a s)"
  apply (rule retsI, erule ack_unacked.raw_induct [rotated])
  subgoal premises step for _ loop E p a s r
  proof -
    have [THEN rets_mono, wp]: "rets (\<lambda>s'. net s' = net s) (loop E p a s)" for E p a s
      by (rule retsI) (rule step(1))
    show ?thesis by (rule retsD [OF _ step(2)]) (auto intro!: wp)
  qed
  done

lemma net_receive_ack [THEN rets_mono, wp]: "rets (\<lambda>s'. net s' = net s) (receive_ack E p q a s)"
  unfolding receive_ack_def by (auto intro!: wp)

lemma net_trim_loop [THEN rets_mono, wp]: "rets (\<lambda>(_, s'). net s' = net s) (trim_loop f p k s)"
  apply (rule retsI, erule trim_loop.raw_induct [rotated])
  subgoal premises step for _ loop f p k s r
  proof -
    have [THEN rets_mono, wp]: "rets (\<lambda>(_, s'). net s' = net s) (loop f p k s)" for f p k s
      by (rule retsI) (rule step(1))
    show ?thesis by (rule retsD [OF _ step(2)]) (auto intro!: wp)
  qed
  done

lemma net_trim_first [THEN rets_mono, wp]: "rets (\<lambda>(_, s'). net s' = net s) (trim_first a b s)"
  unfolding trim_first_def by (auto intro!: wp)

lemma net_dequeue_ooseq [THEN rets_mono, wp]: "rets (\<lambda>s'. net s' = net s) (dequeue_ooseq E p s)"
  apply (rule retsI, erule dequeue_ooseq.raw_induct [rotated])
  subgoal premises step for _ loop E p s r
  proof -
    have [THEN rets_mono, wp]: "rets (\<lambda>s'. net s' = net s) (loop E p s)" for E p s
      by (rule retsI) (rule step(1))
    show ?thesis by (rule retsD [OF _ step(2)]) (auto intro!: wp)
  qed
  done

lemma net_receive_inseq [THEN rets_mono, wp]: "rets (\<lambda>s'. net s' = net s) (receive_inseq E p q s)"
  unfolding receive_inseq_def by (auto intro!: wp)

lemma net_trim_inseg [THEN rets_mono, wp]: "rets (\<lambda>s'. net s' = net s) (trim_inseg E a b s)"
  unfolding trim_inseg_def by (auto intro!: wp)

lemma net_trim_queued [THEN rets_mono, wp]: "rets (\<lambda>s'. net s' = net s) (trim_queued E a q s)"
  unfolding trim_queued_def by (auto intro!: wp)

lemma net_link_ooseq [THEN rets_mono, wp]: "rets (\<lambda>s'. net s' = net s) (link_ooseq p q k s)"
  unfolding link_ooseq_def by (auto intro!: wp)

lemma net_ooseq_loop [THEN rets_mono, wp]: "rets (\<lambda>s'. net s' = net s) (ooseq_loop E p a q n s)"
  apply (rule retsI, erule ooseq_loop.raw_induct [rotated])
  subgoal premises step for _ loop E p a q n s r
  proof -
    have [THEN rets_mono, wp]: "rets (\<lambda>s'. net s' = net s) (loop E p a q n s)" for E p a q n s
      by (rule retsI) (rule step(1))
    show ?thesis by (rule retsD [OF _ step(2)]) (auto intro!: wp)
  qed
  done

lemma net_receive_ooseq [THEN rets_mono, wp]: "rets (\<lambda>s'. net s' = net s) (receive_ooseq E p a s)"
  unfolding receive_ooseq_def by (auto intro!: wp)

lemma net_tcp_receive [THEN rets_mono, wp]: "rets (\<lambda>s'. net s' = net s) (tcp_receive E p s)"
  unfolding tcp_receive_def by (auto intro!: wp)

end
