(* ===== verification/Tcp_Options.thy ===== *)
theory Tcp_Options
  imports Tcp_Machine
begin

text \<open>
  The parser of TCP options. The offset into the options is a \<^verbatim>\<open>uint8_t\<close> to which the length byte of
  an option is added, so an option with a large length moves the parser backwards. The theorems: the
  parser never returns for a crafted header of a SYN segment, it returns when no length byte can
  make the offset wrap around, with a segment size that is at most \<open>TCP_MSS\<close>, and it reads back the
  option that a connection sends.
\<close>

text \<open>Two options between which the parser goes back and forth.\<close>

definition ping_pong :: "bytes \<Rightarrow> u32 \<Rightarrow> nat \<Rightarrow> bool" where
  "ping_pong m opts lim \<longleftrightarrow> 2 \<le> lim \<and> m opts = 1 \<and> m (opts + 1) > 2 \<and> m (opts + 2) = 255"

lemma parseopt_loop_diverges:
  "rets (\<lambda>r. \<not> (ping_pong m opts lim \<and> (c = 0 \<or> c = 1))) (parseopt_loop m opts lim c)"
  apply (rule retsI, erule parseopt_loop.raw_induct [rotated])
  subgoal premises step for _ loop m opts lim c r
  proof (rule notI, elim conjE disjE)
    assume pp: "ping_pong m opts lim" and "c = 0"
    then have "loop m opts lim 1 = Some r" using step(2) by (auto simp: ping_pong_def)
    from step(1) [OF this] pp show False by simp
  next
    assume pp: "ping_pong m opts lim" and c: "c = 1"
    then have "m (opts + 1) \<noteq> 0" "m (opts + 1) \<noteq> 1" "m (opts + 1) \<noteq> 2" by (auto simp: ping_pong_def)
    moreover have len: "m (opts + ucast (1 :: u8) + 1) = 255"
      using pp by (simp add: ping_pong_def add.commute [of 2])
    ultimately have "loop m opts lim 256 = Some r"
      using step(2) pp unfolding c Let_def len by (simp add: ping_pong_def)
    moreover have wrap: "(256 :: u8) = 0" by (rule word_unat_eq_iff [THEN iffD2]) simp
    ultimately have "loop m opts lim 0 = Some r" by (simp only: wrap)
    from step(1) [OF this] pp show False by simp
  qed
  done

lemma offset_words:
  assumes "and (x :: u16) 0xf0 > 0x50"
  shows "6 \<le> unat (drop_bit 4 x)"
proof -
  have m: "(0xf0 :: u16) = push_bit 4 (mask 4)" by (simp add: mask_eq_exp_minus_1 push_bit_eq_mult)
  have "and x 0xf0 = push_bit 4 (take_bit 4 (drop_bit 4 x))"
    unfolding m by (intro bit_word_eqI) (auto simp: bit_simps)
  then have "unat (and x 0xf0) = 16 * (unat (drop_bit 4 x) mod 16)"
    by (simp add: push_bit_eq_mult take_bit_eq_mod unat_word_ariths unat_mod_distrib)
  moreover have "80 < unat (and x 0xf0)" using assms by (simp add: word_less_unat)
  ultimately have "5 < unat (drop_bit 4 x) mod 16" by linarith
  moreover have "unat (drop_bit 4 x) mod 16 \<le> unat (drop_bit 4 x)" by (rule mod_less_eq_dividend)
  ultimately show ?thesis by linarith
qed

lemma unat_offset_less: "unat (drop_bit 4 (TCPH_OFFSET h m)) < 16"
proof -
  have "unat (drop_bit 4 (TCPH_OFFSET h m)) = unat (ntohs (ld16 (th_offset_flags h) m)) div 4096"
    by (simp add: TCPH_OFFSET_def drop_bit_eq_div unat_div_distrib div_mult2_eq [symmetric])
  then show ?thesis using unat_u16_less [of "ntohs (ld16 (th_offset_flags h) m)"] by simp
qed

text \<open>
  C34: the parser of options does not terminate for a header with options in which a NOP is followed
  by an unknown option of length 255.
\<close>

theorem tcp_parseopt_hangs:
  assumes "h = sg_tcphdr (inseg s)" "and (TCPH_OFFSET h (mem8 s)) 0xf0 > 0x50"
    and "mem8 s (h + 20) = 1" "mem8 s (h + 21) > 2" "mem8 s (h + 22) = 255"
  shows "tcp_parseopt p s = None"
proof -
  let ?o = "TCPH_OFFSET h (mem8 s)"
  have "6 \<le> unat (drop_bit 4 ?o)" using assms(2) by (rule offset_words)
  then have "ping_pong (mem8 s) (h + 20) ((unat (drop_bit 4 ?o) - 5) * 4)"
    using assms(3-5) by (simp add: ping_pong_def algebra_simps)
  then have "parseopt_loop (mem8 s) (h + 20) ((unat (drop_bit 4 ?o) - 5) * 4) 0 = None"
    using retsD [OF parseopt_loop_diverges] by (cases "parseopt_loop (mem8 s) (h + 20) ((unat (drop_bit 4 ?o) - 5) * 4) 0") blast+
  with assms(1,2) show ?thesis by (simp add: tcp_parseopt_def Let_def)
qed

theorem tcp_parseopt_hangs_witness:
  "tcp_parseopt 64 (tcp_zero\<lparr>mem8 := (\<lambda>_. 0)(12 := 0x60, 20 := 1, 21 := 3, 22 := 255)\<rparr>) = None"
  by (rule tcp_parseopt_hangs [where h = 0])
    (simp_all add: tcp_zero_def tcp_world.defs pbuf_state.defs TCPH_OFFSET_def ld16_def htons_def)

subsection \<open>Termination\<close>

lemma parseopt_loop_returns:
  assumes "lim \<le> 40" "\<And>i. i < lim \<Longrightarrow> unat (m (opts + of_nat i + 1)) \<le> 215"
  shows "\<exists>r. parseopt_loop m opts lim c = Some r"
proof (induction "lim - unat c" arbitrary: c rule: less_induct)
  case less
  show ?case
  proof (cases "unat c < lim")
    case False
    then show ?thesis by (subst parseopt_loop.simps) simp
  next
    case True
    let ?n = "m (opts + ucast c + 1)"
    have "of_nat (unat c) = (ucast c :: u32)" by (rule word_unat_eq_iff [THEN iffD2]) (use unat_u8_less [of c] in simp)
    then have n: "unat ?n \<le> 215" using assms(2) [OF True] by simp
    have "unat (c + 1) = unat c + 1" "unat (c + ?n) = unat c + unat ?n"
      using True assms(1) n by (simp_all add: unat_add_less)
    moreover have "?n \<noteq> 0 \<Longrightarrow> 0 < unat ?n" by (simp add: unat_gt_0)
    ultimately have "\<exists>r. parseopt_loop m opts lim (c + 1) = Some r"
        "?n \<noteq> 0 \<Longrightarrow> \<exists>r. parseopt_loop m opts lim (c + ?n) = Some r"
      using True by (auto intro!: less)
    with True show ?thesis by (subst parseopt_loop.simps) (auto simp: Let_def)
  qed
qed

text \<open>
  C31: the parser returns if no byte that may be a length exceeds 215, with the segment size
  unchanged or at most \<open>TCP_MSS\<close>; a header that starts with the MSS option sets it to the
  value of the option or to \<open>TCP_MSS\<close>, if that is smaller.
\<close>

theorem tcp_parseopt_returns:
  assumes "pcbs s p = Some c" "h = sg_tcphdr (inseg s)" "and (TCPH_OFFSET h (mem8 s)) 0xf0 > 0x50"
    and "\<And>i. i < 40 \<Longrightarrow> unat (mem8 s (h + 21 + of_nat i)) \<le> 215"
  shows "\<exists>s' mss. tcp_parseopt p s = Some s' \<and> pcbs s' p = Some (c\<lparr>pcb_mss := mss\<rparr>) \<and> (mss = pcb_mss c \<or> mss \<le> TCP_MSS) \<and>
    (mem8 s (h + 20) = 2 \<and> mem8 s (h + 21) = 4 \<longrightarrow>
      mss = min TCP_MSS (or (push_bit 8 (ucast (mem8 s (h + 22)))) (ucast (mem8 s (h + 23)))))"
proof -
  let ?lim = "(unat (drop_bit 4 (TCPH_OFFSET h (mem8 s))) - 5) * 4"
  have lim: "?lim \<le> 40" "0 < ?lim"
    using offset_words [OF assms(3)] unat_offset_less [of h "mem8 s"] by auto
  obtain r where r: "parseopt_loop (mem8 s) (h + 20) ?lim 0 = Some r"
    using parseopt_loop_returns [OF lim(1), of "mem8 s" "h + 20" 0] assms(4) lim(1) by (auto simp: algebra_simps)
  have mss: "r = Some (or (push_bit 8 (ucast (mem8 s (h + 22)))) (ucast (mem8 s (h + 23))))"
    if "mem8 s (h + 20) = 2" "mem8 s (h + 21) = 4"
    using r that lim(2) by (subst (asm) parseopt_loop.simps) (simp add: add.commute [of _ h])
  show ?thesis
  proof (cases r)
    case None
    with assms(1-3) r mss show ?thesis
      by (auto simp: tcp_parseopt_def Let_def intro!: exI [of _ s] exI [of _ "pcb_mss c"])
  next
    case (Some k)
    with assms(1-3) r mss show ?thesis by (auto simp: tcp_parseopt_def upd_pcb_def Let_def min_def)
  qed
qed

theorem tcp_parseopt_returns_witness:
  "\<exists>s' mss. tcp_parseopt 64 (tcp_zero\<lparr>mem8 := (\<lambda>_. 0)(12 := 0x60, 20 := 2, 21 := 4, 22 := 1, 23 := 8), pcbs := [64 \<mapsto> zero_pcb]\<rparr>)
     = Some s' \<and> pcbs s' 64 = Some (zero_pcb\<lparr>pcb_mss := mss\<rparr>) \<and> mss = TCP_MSS"
  using tcp_parseopt_returns [of "tcp_zero\<lparr>mem8 := (\<lambda>_. 0)(12 := 0x60, 20 := 2, 21 := 4, 22 := 1, 23 := 8), pcbs := [64 \<mapsto> zero_pcb]\<rparr>"
      64 zero_pcb 0]
  by (simp add: tcp_zero_def tcp_world.defs pbuf_state.defs TCPH_OFFSET_def ld16_def htons_def)

end
