(* ===== verification/Tcp_Timers.thy ===== *)
theory Tcp_Timers
  imports Tcp_Options Linked_List
begin

text \<open>
  The slow timer of TCP. The walk over the TIME-WAIT list removes exactly the control blocks that
  are older than two maximum segment lifetimes; the age of a control block is computed from a 16
  bit copy of the 32 bit clock, so it is wrong once the clock exceeds 16 bits. The retransmission
  timer shifts by the entries of a table that are meant as factors.
\<close>

definition pcb_nx :: "'a tcp_world_scheme \<Rightarrow> u32 \<Rightarrow> u32 option option" where
  "pcb_nx s p = map_option pcb_next (pcbs s p)"

lemma pcb_nx_upd: "pcb_nx (s\<lparr>pcbs := (pcbs s)(p := v)\<rparr>) = (pcb_nx s)(p := map_option pcb_next v)"
  by (auto simp: pcb_nx_def)

definition expired :: "'a tcp_world_scheme \<Rightarrow> u32 \<Rightarrow> bool" where
  "expired s p \<longleftrightarrow> (case pcbs s p of None \<Rightarrow> False | Some c \<Rightarrow> tcp_ticks s - ucast (pcb_tmr c) > 240)"

text \<open>The control blocks, but for their place in the lists.\<close>

definition unlinked :: "'a tcp_world_scheme \<Rightarrow> u32 \<Rightarrow> tcp_pcb option" where
  "unlinked s p = map_option (\<lambda>c. c\<lparr>pcb_next := None\<rparr>) (pcbs s p)"

lemma expired_unlinked: "unlinked s' p = unlinked s p \<Longrightarrow> tcp_ticks s' = tcp_ticks s \<Longrightarrow> expired s' p = expired s p"
  by (cases "pcbs s p"; cases "pcbs s' p") (auto simp: unlinked_def expired_def dest: arg_cong [where f = pcb_tmr])

lemma purge_time_wait:
  assumes "pcbs s p = Some c" "pcb_state c = TIME_WAIT"
  shows "tcp_pcb_purge E p s = Some s"
  using assms by (simp add: tcp_pcb_purge_def pcb_prefix_def tcp_pcb_listen.defs)

lemma free_pcb_simps [simp]:
  "pcbs (free_pcb p s) = (pcbs s)(p := None)" "tcp_tw_pcbs (free_pcb p s) = tcp_tw_pcbs s"
  "tcp_ticks (free_pcb p s) = tcp_ticks s"
  by (simp_all add: free_pcb_def memp_free_def memp_stat_upd_def Let_def split: option.splits)

text \<open>The state after the walk removed the control block \<open>p\<close>.\<close>

definition tw_removed :: "u32 list \<Rightarrow> u32 \<Rightarrow> tcp_pcb \<Rightarrow> 'a tcp_world_scheme \<Rightarrow> 'a tcp_world_scheme" where
  "tw_removed ks p c s =
     free_pcb p (if ks = [] then s\<lparr>tcp_tw_pcbs := pcb_next c\<rparr>
                 else s\<lparr>pcbs := (pcbs s)(last ks := map_option (\<lambda>d. d\<lparr>pcb_next := pcb_next c\<rparr>) (pcbs s (last ks)))\<rparr>)"

lemma tw_removed_ok:
  assumes ch: "chain (pcb_nx s) (tcp_tw_pcbs s) (ks @ p # rs)" and c: "pcbs s p = Some c"
  shows "chain (pcb_nx (tw_removed ks p c s)) (tcp_tw_pcbs (tw_removed ks p c s)) (ks @ rs)"
    "tcp_ticks (tw_removed ks p c s) = tcp_ticks s" "pcbs (tw_removed ks p c s) p = None"
    "q \<noteq> p \<Longrightarrow> unlinked (tw_removed ks p c s) q = unlinked s q"
proof -
  have p: "p \<notin> set ks" "p \<notin> set rs" using chain_distinct [OF ch] by auto
  show "chain (pcb_nx (tw_removed ks p c s)) (tcp_tw_pcbs (tw_removed ks p c s)) (ks @ rs)"
  proof (cases "ks = []")
    case True
    then have "pcb_nx (tw_removed ks p c s) = (pcb_nx s)(p := None)" by (auto simp: tw_removed_def pcb_nx_def)
    with True ch c p show ?thesis by (simp add: tw_removed_def pcb_nx_def [of s p])
  next
    case False
    then obtain d where d: "pcbs s (last ks) = Some d"
      using chain_alloc [OF ch, of "last ks"] by (auto simp: pcb_nx_def)
    have "pcb_nx (tw_removed ks p c s) = (pcb_nx s)(last ks := pcb_nx s p, p := None)"
      using False c d by (auto simp: tw_removed_def pcb_nx_def)
    with False p chain_unlink [OF ch False] show ?thesis by (simp add: tw_removed_def)
  qed
qed (auto simp: tw_removed_def unlinked_def map_option.compositionality comp_def)

lemma slow_tw_step:
  assumes ch: "chain (pcb_nx s) (tcp_tw_pcbs s) (ks @ p # rs)" and c: "pcbs s p = Some c" "pcb_state c = TIME_WAIT"
    and prev: "prev = (if ks = [] then None else Some (last ks))"
  shows "slow_tw E prev (Some p) s =
      (if expired s p then slow_tw E prev (pcb_next c) (tw_removed ks p c s) else slow_tw E (Some p) (pcb_next c) s)"
proof -
  have "p \<noteq> last ks" if "ks \<noteq> []" using chain_distinct [OF ch] that by auto
  moreover obtain d where "pcbs s (last ks) = Some d" if "ks \<noteq> []"
    using chain_alloc [OF ch, of "last ks"] by (cases "ks = []") (auto simp: pcb_nx_def)
  ultimately show ?thesis
    using c prev
    by (subst slow_tw.simps) (auto simp: expired_def purge_time_wait slow_unlink_def upd_pcb_def tw_removed_def)
qed

lemma slow_tw_loop:
  assumes "chain (pcb_nx s) (tcp_tw_pcbs s) (ks @ rs)" "prev = (if ks = [] then None else Some (last ks))"
    and "pcb = (if rs = [] then None else Some (hd rs))" "\<forall>p\<in>set rs. map_option pcb_state (pcbs s p) = Some TIME_WAIT"
  shows "\<exists>s'. slow_tw E prev pcb s = Some s' \<and> chain (pcb_nx s') (tcp_tw_pcbs s') (ks @ filter (\<lambda>p. \<not> expired s p) rs) \<and>
    (\<forall>p. unlinked s' p = (if p \<in> set rs \<and> expired s p then None else unlinked s p))"
  using assms
proof (induction rs arbitrary: ks prev pcb s)
  case Nil
  then show ?case by (subst slow_tw.simps) simp
next
  case (Cons p rs)
  from Cons.prems(4) obtain c where c: "pcbs s p = Some c" "pcb_state c = TIME_WAIT" by auto
  have step: "slow_tw E prev pcb s =
      (if expired s p then slow_tw E prev (pcb_next c) (tw_removed ks p c s) else slow_tw E (Some p) (pcb_next c) s)"
    using slow_tw_step [OF Cons.prems(1) c Cons.prems(2), of E] Cons.prems(3) by simp
  have nxt: "pcb_next c = (if rs = [] then None else Some (hd rs))"
    using chain_split [OF Cons.prems(1)] c by (cases rs) (auto simp: pcb_nx_def split: option.splits)
  have p: "p \<notin> set rs" using chain_distinct [OF Cons.prems(1)] by auto
  show ?case
  proof (cases "expired s p")
    case True
    let ?t = "tw_removed ks p c s"
    note t = tw_removed_ok [OF Cons.prems(1) c(1)]
    have same: "unlinked ?t q = unlinked s q" "expired ?t q = expired s q" if "q \<in> set rs" for q
    proof -
      have "q \<noteq> p" using that p by blast
      then show "unlinked ?t q = unlinked s q" by (rule t(4))
      then show "expired ?t q = expired s q" using t(2) by (rule expired_unlinked)
    qed
    have "\<forall>q\<in>set rs. map_option pcb_state (pcbs ?t q) = Some TIME_WAIT"
    proof
      fix q assume q: "q \<in> set rs"
      have "map_option pcb_state (pcbs ?t q) = map_option pcb_state (pcbs s q)"
        using same(1) [OF q] by (cases "pcbs s q"; cases "pcbs ?t q") (auto simp: unlinked_def dest: arg_cong [where f = pcb_state])
      with Cons.prems(4) q show "map_option pcb_state (pcbs ?t q) = Some TIME_WAIT" by simp
    qed
    from Cons.IH [OF t(1) Cons.prems(2) nxt this] obtain s' where s': "slow_tw E prev (pcb_next c) ?t = Some s'"
        "chain (pcb_nx s') (tcp_tw_pcbs s') (ks @ filter (\<lambda>p. \<not> expired ?t p) rs)"
        "\<forall>q. unlinked s' q = (if q \<in> set rs \<and> expired ?t q then None else unlinked ?t q)" by blast
    have "filter (\<lambda>p. \<not> expired ?t p) rs = filter (\<lambda>p. \<not> expired s p) rs" using same(2) by (auto intro: filter_cong)
    moreover have "unlinked s' q = (if q \<in> set (p # rs) \<and> expired s q then None else unlinked s q)" for q
    proof (cases "q = p")
      case q: True
      have "unlinked ?t p = None" using t(3) by (simp add: unlinked_def)
      with q True p s'(3) show ?thesis by simp
    next
      case False
      with t(4) [OF False] same(2) [of q] s'(3) show ?thesis by auto
    qed
    ultimately show ?thesis using step True s'(1,2) by auto
  next
    case False
    have "chain (pcb_nx s) (tcp_tw_pcbs s) ((ks @ [p]) @ rs)" using Cons.prems(1) by simp
    from Cons.IH [OF this _ nxt] Cons.prems(4) obtain s' where s': "slow_tw E (Some p) (pcb_next c) s = Some s'"
        "chain (pcb_nx s') (tcp_tw_pcbs s') ((ks @ [p]) @ filter (\<lambda>p. \<not> expired s p) rs)"
        "\<forall>q. unlinked s' q = (if q \<in> set rs \<and> expired s q then None else unlinked s q)" by fastforce
    with step False p show ?thesis by auto
  qed
qed

lemma expired_after_overflow:
  assumes "pcbs s p = Some c" "65775 < tcp_ticks s"
  shows "expired s p"
proof -
  have "unat (pcb_tmr c) < 65536" by (rule unat_u16_less)
  then have "unat (tcp_ticks s - ucast (pcb_tmr c)) = unat (tcp_ticks s) - unat (pcb_tmr c)"
    using assms(2) by (subst unat_sub_le) (auto simp: word_less_unat)
  then show ?thesis using assms \<open>unat (pcb_tmr c) < 65536\<close> by (simp add: expired_def word_less_unat)
qed

text \<open>
  C35: the walk of the slow timer over the TIME-WAIT list returns, unlinks and frees exactly the
  control blocks whose age is more than 240 ticks, and changes no other. The age is measured with
  a 16 bit time stamp: once the clock is above 65775 ticks every control block counts as expired.
\<close>

theorem slow_tw_removes_expired:
  assumes "chain (pcb_nx s) (tcp_tw_pcbs s) ps" "\<forall>p\<in>set ps. map_option pcb_state (pcbs s p) = Some TIME_WAIT"
  shows "\<exists>s'. slow_tw E None (tcp_tw_pcbs s) s = Some s' \<and>
    chain (pcb_nx s') (tcp_tw_pcbs s') (filter (\<lambda>p. \<not> expired s p) ps) \<and>
    (\<forall>p. unlinked s' p = (if p \<in> set ps \<and> expired s p then None else unlinked s p)) \<and>
    (65775 < tcp_ticks s \<longrightarrow> tcp_tw_pcbs s' = None)"
proof -
  have "tcp_tw_pcbs s = (if ps = [] then None else Some (hd ps))" using assms(1) by (cases ps) auto
  with slow_tw_loop [of s "[]" ps None _ E] assms obtain s' where s': "slow_tw E None (tcp_tw_pcbs s) s = Some s'"
      "chain (pcb_nx s') (tcp_tw_pcbs s') (filter (\<lambda>p. \<not> expired s p) ps)"
      "\<forall>p. unlinked s' p = (if p \<in> set ps \<and> expired s p then None else unlinked s p)" by auto
  have "filter (\<lambda>p. \<not> expired s p) ps = []" if "65775 < tcp_ticks s"
    using assms(2) that expired_after_overflow by (fastforce simp: filter_empty_conv)
  with s' show ?thesis by auto
qed

definition tw_world :: tcp_world where
  "tw_world = tcp_zero\<lparr>tcp_ticks := 66000, tcp_tw_pcbs := Some 64,
     pcbs := [64 \<mapsto> zero_pcb\<lparr>pcb_state := TIME_WAIT, pcb_tmr := ucast (66000 :: u32)\<rparr>]\<rparr>"

theorem slow_tw_removes_expired_witness:
  "\<exists>s'. slow_tw env0 None (tcp_tw_pcbs tw_world) tw_world = Some s' \<and> tcp_tw_pcbs s' = None \<and> unlinked s' 64 = None"
  using slow_tw_removes_expired [of tw_world "[64]" env0]
  by (auto simp: tw_world_def pcb_nx_def zero_pcb_def expired_def tcp_zero_def tcp_world.defs pbuf_state.defs)

text \<open>
  the fifth retransmission timeout sets the retransmission time to 0, and from the sixth on the
  timer shifts by 32 or more, which C leaves undefined: the entries of the table of backoffs are
  factors, but the code uses them as shift distances.
\<close>

theorem rto_backoff_undefined:
  assumes "pcbs s p = Some c" "pcb_state c \<noteq> SYN_SENT" "pcb_unacked c = Some q" "segs s q = Some g"
    and "ucast (pcb_rtime c + 1) \<ge> pcb_rto c"
  shows "(pcb_nrtx c = 4 \<longrightarrow> rto_backoff c = Some 0) \<and>
    (5 \<le> pcb_nrtx c \<and> pcb_nrtx c < 12 \<longrightarrow> slow_check E p s = None)"
proof (intro conjI impI)
  assume "pcb_nrtx c = 4"
  moreover have "(ucast (push_bit 16 x) :: u16) = 0" for x :: u32 by (intro bit_word_eqI) (simp add: bit_simps)
  ultimately show "rto_backoff c = Some 0" by (simp add: rto_backoff_def tcp_backoff_def)
next
  assume n: "5 \<le> pcb_nrtx c \<and> pcb_nrtx c < 12"
  then have "unat (pcb_nrtx c) \<in> {5, 6, 7, 8, 9, 10, 11}" by (auto simp: word_less_unat word_le_unat)
  then have undef: "rto_backoff (c\<lparr>pcb_rtime := x\<rparr>) = None" for x by (auto simp: rto_backoff_def tcp_backoff_def)
  have "pcb_nrtx c \<noteq> TCP_SYNMAXRTX" "pcb_nrtx c \<noteq> TCP_MAXRTX" using n by auto
  with assms undef show "slow_check E p s = None"
    by (simp add: slow_check_def slow_rexmit_def upd_pcb_def)
qed

definition rexmit_world :: tcp_world where
  "rexmit_world = tcp_zero\<lparr>
     pcbs := [64 \<mapsto> zero_pcb\<lparr>pcb_state := ESTABLISHED, pcb_nrtx := 5, pcb_unacked := Some 16\<rparr>],
     segs := [16 \<mapsto> \<lparr>sg_next = None, sg_p = None, sg_dataptr = 0, sg_len = 0, sg_tcphdr = 0\<rparr>]\<rparr>"

theorem rto_backoff_undefined_witness: "slow_check env0 64 rexmit_world = None"
  using rto_backoff_undefined [of rexmit_world 64 "zero_pcb\<lparr>pcb_state := ESTABLISHED, pcb_nrtx := 5, pcb_unacked := Some 16\<rparr>" 16
      "\<lparr>sg_next = None, sg_p = None, sg_dataptr = 0, sg_len = 0, sg_tcphdr = 0\<rparr>" env0]
  by (simp add: rexmit_world_def zero_pcb_def)

end
