(* ===== verification/Tcp_Window.thy ===== *)
theory Tcp_Window
  imports Tcp_Timers
begin

text \<open>
  What \<open>tcp_output\<close> sends: the longest prefix of the unsent queue whose segments lie in the window,
  in order; these segments move to the end of the unacknowledged queue and the others stay. The
  headers of the queued segments must not overlap; sending a segment writes to its own header only.
\<close>

subsection \<open>Headers\<close>

lemma in_header:
  assumes "20 \<le> unat (a - h :: u32)"
  shows "a \<noteq> h + 8" "a \<noteq> h + 8 + 1" "a \<noteq> h + 8 + 2" "a \<noteq> h + 8 + 3" "a \<noteq> h + 12" "a \<noteq> h + 12 + 1" "a \<noteq> h + 14" "a \<noteq> h + 14 + 1"
    "a \<noteq> h + 16" "a \<noteq> h + 16 + 1"
  using assms by auto

text \<open>A step that writes at most to the header \<open>h\<close>, and there neither to the sequence number nor to FIN and SYN.\<close>

definition header_step :: "u32 \<Rightarrow> bytes \<Rightarrow> bytes \<Rightarrow> bool" where
  "header_step h m m' \<longleftrightarrow> (\<forall>a. 20 \<le> unat (a - h) \<longrightarrow> m' a = m a) \<and> ld32 (th_seqno h) m' = ld32 (th_seqno h) m \<and>
     (\<forall>g. sg_tcphdr g = h \<longrightarrow> TCP_TCPLEN g m' = TCP_TCPLEN g m)"

lemma header_step_trans: "header_step h m m' \<Longrightarrow> header_step h m' m'' \<Longrightarrow> header_step h m m''"
  by (simp add: header_step_def)

lemma TCP_TCPLEN_cong: "ld16 (sg_tcphdr g + 12) m' = ld16 (sg_tcphdr g + 12) m \<Longrightarrow> TCP_TCPLEN g m' = TCP_TCPLEN g m"
  by (simp add: TCP_TCPLEN_def TCPH_FLAGS_def)

lemma header_step_store:
  "header_step h m (st32 (th_ackno h) v m)" "header_step h m (st16 (th_wnd h) w m)" "header_step h m (st16 (th_chksum h) w m)"
  using in_header
  by (auto simp: header_step_def intro!: TCP_TCPLEN_cong st16_other st32_other)

lemma TCPH_FLAGS_SET [simp]: "TCPH_FLAGS h (TCPH_FLAGS_SET h f m) = f"
proof -
  have m: "(0xff :: u16) = mask 8" by (simp add: mask_eq_exp_minus_1)
  show ?thesis unfolding TCPH_FLAGS_def TCPH_FLAGS_SET_def m by (intro bit_word_eqI) (auto simp: bit_simps)
qed

lemma header_step_ack: "header_step h m (TCPH_FLAGS_SET h (or (TCPH_FLAGS h m) TCP_ACK) m)"
proof -
  have "and (or x TCP_ACK) TCP_FIN = and x TCP_FIN" "and (or x TCP_ACK) TCP_SYN = and x TCP_SYN" for x :: u8
    by (simp_all add: bit.conj_disj_distrib2)
  then have "TCP_TCPLEN g (TCPH_FLAGS_SET h (or (TCPH_FLAGS h m) TCP_ACK) m) = TCP_TCPLEN g m" if "sg_tcphdr g = h" for g
    using that by (simp add: TCP_TCPLEN_def)
  then show ?thesis
    using in_header by (auto simp: header_step_def TCPH_FLAGS_SET_def [of h _ m] intro!: st16_other)
qed

subsection \<open>Sending one segment\<close>

definition sg_nx :: "'a tcp_world_scheme \<Rightarrow> u32 \<Rightarrow> u32 option option" where
  "sg_nx s q = map_option sg_next (segs s q)"

text \<open>The packet of a segment can be handed to IP: its pbufs are there and not longer than announced.\<close>

definition sendable :: "(u32 \<rightharpoonup> pbuf) \<Rightarrow> tcp_seg \<Rightarrow> bool" where
  "sendable pbs g \<longleftrightarrow> (\<exists>p b bss. sg_p g = Some p \<and> pbs p = Some b \<and> chain_bytes pbs (\<lambda>_. 0) (Some p) = Some bss \<and>
     length (concat bss) \<le> unat (pb_tot_len b))"

text \<open>The lengths of the contents do not depend on memory, nor on where the payloads are.\<close>

lemma chain_bytes_shape:
  assumes "chain_bytes pbs m p = Some bss"
    and "\<And>q. map_option (\<lambda>b. (pb_next b, pb_len b)) (pbs' q) = map_option (\<lambda>b. (pb_next b, pb_len b)) (pbs q)"
  shows "\<exists>bss'. chain_bytes pbs' m' p = Some bss' \<and> map length bss' = map length bss"
proof -
  have "rets (\<lambda>bss. \<forall>pbs' m'. (\<forall>q. map_option (\<lambda>b. (pb_next b, pb_len b)) (pbs' q) = map_option (\<lambda>b. (pb_next b, pb_len b)) (pbs q)) \<longrightarrow>
    (\<exists>bss'. chain_bytes pbs' m' p = Some bss' \<and> map length bss' = map length bss)) (chain_bytes pbs m p)"
    apply (rule retsI, erule chain_bytes.raw_induct [rotated])
    subgoal premises step for _ loop pbs m p r
    proof (intro allI impI)
      fix pbs' :: "u32 \<rightharpoonup> pbuf" and m'
      assume same: "\<forall>q. map_option (\<lambda>b. (pb_next b, pb_len b)) (pbs' q) = map_option (\<lambda>b. (pb_next b, pb_len b)) (pbs q)"
      show "\<exists>bss'. chain_bytes pbs' m' p = Some bss' \<and> map length bss' = map length r"
      proof (cases p)
        case None
        with step(2) show ?thesis by (subst chain_bytes.simps) simp
      next
        case (Some q)
        with step(2) obtain b bss where b: "pbs q = Some b" "loop pbs m (pb_next b) = Some bss"
            "r = ld_bytes (unat (pb_len b)) (pb_payload b) m # bss" by (auto simp: bind_eq_Some_conv)
        from b(1) same obtain b' where b': "pbs' q = Some b'" "pb_next b' = pb_next b" "pb_len b' = pb_len b"
          by (auto dest!: spec [of _ q])
        from step(1) [OF b(2)] same obtain bss' where "chain_bytes pbs' m' (pb_next b) = Some bss'" "map length bss' = map length bss"
          by blast
        with Some b b' show ?thesis by (subst chain_bytes.simps) (simp add: ld_bytes_def)
      qed
    qed
    done
  from retsD [OF this assms(1)] assms(2) show ?thesis by blast
qed

lemma length_concat_map: "map length xss = map length yss \<Longrightarrow> length (concat xss) = length (concat yss)"
  by (simp add: length_concat)

lemma sendable_upd:
  assumes "sendable pbs g" "pbs p = Some b"
  shows "sendable (pbs(p \<mapsto> b\<lparr>pb_payload := x\<rparr>)) g"
proof -
  let ?pbs = "pbs(p \<mapsto> b\<lparr>pb_payload := x\<rparr>)"
  from assms(1) obtain q d bss where g: "sg_p g = Some q" "pbs q = Some d" "chain_bytes pbs (\<lambda>_. 0) (Some q) = Some bss"
      "length (concat bss) \<le> unat (pb_tot_len d)" by (auto simp: sendable_def)
  have "map_option (\<lambda>b. (pb_next b, pb_len b)) (?pbs r) = map_option (\<lambda>b. (pb_next b, pb_len b)) (pbs r)" for r
    using assms(2) by simp
  from chain_bytes_shape [OF g(3) this] obtain bss' where "chain_bytes ?pbs (\<lambda>_. 0) (Some q) = Some bss'"
      "length (concat bss') = length (concat bss)" using length_concat_map by metis
  with g assms(2) show ?thesis by (auto simp: sendable_def intro!: exI [of _ q])
qed

lemma sendable_bytes:
  assumes "sendable pbs g"
  shows "\<exists>p b. sg_p g = Some p \<and> pbs p = Some b \<and>
    (\<forall>m. \<exists>bss. chain_bytes pbs m (Some p) = Some bss \<and> length (concat bss) \<le> unat (pb_tot_len b))"
proof -
  from assms obtain p b bss where g: "sg_p g = Some p" "pbs p = Some b" "chain_bytes pbs (\<lambda>_. 0) (Some p) = Some bss"
      "length (concat bss) \<le> unat (pb_tot_len b)" by (auto simp: sendable_def)
  have "\<exists>bss'. chain_bytes pbs m (Some p) = Some bss' \<and> length (concat bss') \<le> unat (pb_tot_len b)" for m
    using chain_bytes_shape [OF g(3), of pbs m] length_concat_map g(4) by force
  with g show ?thesis by blast
qed

text \<open>The control block after a segment was sent, but for what does not matter to the queues.\<close>

definition window_of :: "tcp_pcb \<Rightarrow> _" where
  "window_of c = (pcb_lastack c, pcb_local_ip c, pcb_remote_ip c, pcb_unacked c)"

definition sent_one :: "tcp_seg \<Rightarrow> tcp_pcb \<Rightarrow> 'a tcp_world_scheme \<Rightarrow> 'a tcp_world_scheme \<Rightarrow> bool" where
  "sent_one g c s s' \<longleftrightarrow> header_step (sg_tcphdr g) (mem8 s) (mem8 s') \<and>
     (\<exists>p b. pbufs s p = Some b \<and> pbufs s' = (pbufs s)(p \<mapsto> b\<lparr>pb_payload := sg_tcphdr g\<rparr>)) \<and>
     (\<exists>bs. ip_out s' = ip_out s @ [\<lparr>ip_proto = IP_PROTO_TCP, ip_src = pcb_local_ip c, ip_dest = pcb_remote_ip c, ip_payload = bs\<rparr>])"

lemma tcp_output_segment_does:
  assumes "segs s seg = Some g" "pcbs s pcb = Some c" "pcb_local_ip c \<noteq> 0" "sendable (pbufs s) g"
  shows "\<exists>s' c'. tcp_output_segment seg pcb s = Some s' \<and> sent_one g c s s' \<and> segs s' = segs s \<and>
    pcbs s' = (pcbs s)(pcb \<mapsto> c') \<and> window_of c' = window_of c \<and> pcb_unsent c' = pcb_unsent c \<and> pcb_state c' = pcb_state c"
proof -
  from sendable_bytes [OF assms(4)] obtain p b where p: "sg_p g = Some p" "pbufs s p = Some b"
    and out: "\<And>m. \<exists>bss. chain_bytes (pbufs s) m (Some p) = Some bss \<and> length (concat bss) \<le> unat (pb_tot_len b)" by blast
  from out obtain B where B: "\<And>m. chain_bytes (pbufs s) m (Some p) = Some (B m)" "\<And>m. \<not> unat (pb_tot_len b) < length (concat (B m))"
    by (metis not_less)
  note hs = header_step_trans [OF header_step_trans [OF header_step_trans [OF header_step_store(1) header_step_store(2)]
        header_step_store(3)] header_step_store(3)]
  show ?thesis
    using assms p B
    by (auto simp: tcp_output_segment_def set_chksum_def xmit_seg_def upd_pcb_def upd_mem_def stat_tcp_def upd_pbuf_def
        chksum_pseudo_def sr_lwip_output_def sr_integ_ip_output_def Let_def sent_one_def window_of_def simp del: not_less intro!: hs exI [of _ p])
qed

lemma upd_seg_Some: "segs s q = Some g \<Longrightarrow> upd_seg q f s = Some (s\<lparr>segs := (segs s)(q \<mapsto> f g)\<rparr>)"
  by (simp add: upd_seg_def)

lemma upd_pcb_Some: "pcbs s p = Some c \<Longrightarrow> upd_pcb p f s = Some (s\<lparr>pcbs := (pcbs s)(p \<mapsto> f c)\<rparr>)"
  by (simp add: upd_pcb_def)

lemma sg_nx_upd: "sg_nx (s\<lparr>segs := (segs s)(q \<mapsto> g)\<rparr>) = (sg_nx s)(q \<mapsto> sg_next g)"
  by (auto simp: sg_nx_def)

lemma last_seg_chain: "chain (sg_nx s) (Some q) us \<Longrightarrow> last_seg (segs s) q = Some (last us)"
proof (induction us arbitrary: q)
  case (Cons u us)
  then obtain n where "u = q" "sg_nx s q = Some n" "chain (sg_nx s) n us" by (auto split: option.splits)
  then obtain g where g: "u = q" "segs s q = Some g" "chain (sg_nx s) (sg_next g) us" by (auto simp: sg_nx_def [of s q])
  show ?case
  proof (cases us)
    case Nil
    with g show ?thesis by (subst last_seg.simps) simp
  next
    case (Cons v vs)
    with g Cons.IH [of v] show ?thesis by (subst last_seg.simps) auto
  qed
qed simp

lemma sent_one_ack:
  assumes "sent_one g c1 (s\<lparr>mem8 := m, pcbs := pcs\<rparr>) t" "header_step (sg_tcphdr g) (mem8 s) m" "window_of c1 = window_of c"
  shows "sent_one g c s (t\<lparr>segs := sgs, pcbs := pcs'\<rparr>)" "sent_one g c s (t\<lparr>pcbs := pcs', segs := sgs\<rparr>)"
  using assms header_step_trans by (auto simp: sent_one_def window_of_def)

lemma output_body_does:
  assumes g: "segs s q = Some g" "sendable (pbufs s) g" "0 < TCP_TCPLEN g (mem8 s)"
    and c: "pcbs s pcb = Some c" "pcb_local_ip c \<noteq> 0" and us: "chain (sg_nx s) (pcb_unacked c) us" "q \<notin> set us"
  shows "\<exists>s' c'. output_body E pcb q s = Some s' \<and> sent_one g c s s' \<and> pcbs s' pcb = Some c' \<and>
    pcb_unsent c' = sg_next g \<and> pcb_unacked c' = (if us = [] then Some q else pcb_unacked c) \<and>
    pcb_lastack c' = pcb_lastack c \<and> pcb_local_ip c' = pcb_local_ip c \<and> pcb_remote_ip c' = pcb_remote_ip c \<and>
    segs s' = (if us = [] then (segs s)(q \<mapsto> g\<lparr>sg_next := None\<rparr>)
               else (segs s)(q \<mapsto> g\<lparr>sg_next := None\<rparr>, last us \<mapsto> (the (segs s (last us)))\<lparr>sg_next := Some q\<rparr>))"
proof -
  let ?h = "sg_tcphdr g"
  let ?c = "c\<lparr>pcb_rtime := 0, pcb_unsent := sg_next g\<rparr>"
  define c1 where "c1 = (if pcb_state c \<noteq> SYN_SENT then ?c\<lparr>pcb_flags := and (pcb_flags c) (not (or TF_ACK_DELAY TF_ACK_NOW))\<rparr> else ?c)"
  define m where "m = (if pcb_state c \<noteq> SYN_SENT then TCPH_FLAGS_SET ?h (or (TCPH_FLAGS ?h (mem8 s)) TCP_ACK) (mem8 s) else mem8 s)"
  let ?s1 = "s\<lparr>mem8 := m, pcbs := (pcbs s)(pcb \<mapsto> c1)\<rparr>"
  have m: "header_step ?h (mem8 s) m" using header_step_ack by (simp add: m_def header_step_def)
  have w: "window_of c1 = window_of c" "pcb_unsent c1 = sg_next g" by (simp_all add: c1_def window_of_def)
  have "pcb_local_ip c1 \<noteq> 0" using c w by (simp add: window_of_def)
  with tcp_output_segment_does [of ?s1 q g pcb c1] g obtain t c' where t: "tcp_output_segment q pcb ?s1 = Some t" "sent_one g c1 ?s1 t"
      "segs t = segs s" "pcbs t = (pcbs s)(pcb \<mapsto> c')" "window_of c' = window_of c1" "pcb_unsent c' = pcb_unsent c1"
    by auto
  have seq: "header_step ?h (mem8 s) (mem8 t)" using t(2) m header_step_trans by (auto simp: sent_one_def)
  then have len: "TCP_TCPLEN g (mem8 t) = TCP_TCPLEN g (mem8 s)" by (simp add: header_step_def)
  define c2 where "c2 = c'\<lparr>pcb_snd_nxt := ntohl (ld32 (th_seqno ?h) (mem8 t)) + TCP_TCPLEN g (mem8 t),
    pcb_snd_max := (let nxt = ntohl (ld32 (th_seqno ?h) (mem8 t)) + TCP_TCPLEN g (mem8 t)
                    in if TCP_SEQ_LT (pcb_snd_max c') nxt then nxt else pcb_snd_max c')\<rparr>"
  have c2: "pcb_unsent c2 = sg_next g" "window_of c2 = window_of c" using t w by (simp_all add: c2_def window_of_def)
  have body: "output_body E pcb q s = (case pcb_unacked c of
      None \<Rightarrow> Some (t\<lparr>segs := (segs s)(q \<mapsto> g\<lparr>sg_next := None\<rparr>), pcbs := (pcbs s)(pcb \<mapsto> c2\<lparr>pcb_unacked := Some q\<rparr>)\<rparr>)
    | Some u \<Rightarrow> do {
        useg \<leftarrow> last_seg ((segs s)(q \<mapsto> g\<lparr>sg_next := None\<rparr>)) u;
        upd_seg useg (\<lambda>g. g\<lparr>sg_next := Some q\<rparr>) (t\<lparr>pcbs := (pcbs s)(pcb \<mapsto> c2), segs := (segs s)(q \<mapsto> g\<lparr>sg_next := None\<rparr>)\<rparr>)
      })"
  proof -
    have "output_body E pcb q s = do {
        t \<leftarrow> tcp_output_segment q pcb ?s1;
        let nxt = ntohl (ld32 (th_seqno ?h) (mem8 t)) + TCP_TCPLEN g (mem8 t);
        s \<leftarrow> upd_pcb pcb (\<lambda>c. c\<lparr>pcb_snd_nxt := nxt, pcb_snd_max := (if TCP_SEQ_LT (pcb_snd_max c) nxt then nxt else pcb_snd_max c)\<rparr>) t;
        s \<leftarrow> upd_seg q (\<lambda>g. g\<lparr>sg_next := None\<rparr>) s;
        c \<leftarrow> pcbs s pcb;
        case pcb_unacked c of
          None \<Rightarrow> upd_pcb pcb (\<lambda>c. c\<lparr>pcb_unacked := Some q\<rparr>) s
        | Some u \<Rightarrow> do {
            useg \<leftarrow> last_seg (segs s) u;
            upd_seg useg (\<lambda>g. g\<lparr>sg_next := Some q\<rparr>) s
          }
      }"
      using g c t len by (auto simp: output_body_def upd_pcb_def upd_mem_def m_def c1_def Let_def)
    then show ?thesis
      using g t w
      by (cases "pcb_unacked c") (simp_all add: upd_pcb_Some upd_seg_Some c2_def window_of_def Let_def fun_upd_same del: fun_upd_apply)
  qed
  note sent = sent_one_ack [OF t(2) m w(1)]
  show ?thesis
  proof (cases us rule: rev_cases)
    case Nil
    then show ?thesis using us body sent c2 by (auto simp: window_of_def)
  next
    case (snoc vs v)
    from us(1) snoc obtain u where u: "pcb_unacked c = Some u" by (cases vs) auto
    obtain gl where gl: "segs s v = Some gl" "v \<noteq> q" using chain_alloc [OF us(1), of v] us(2) snoc by (auto simp: sg_nx_def)
    have "last_seg ((segs s)(q \<mapsto> g\<lparr>sg_next := None\<rparr>)) u = Some v"
      using last_seg_chain [of "s\<lparr>segs := (segs s)(q \<mapsto> g\<lparr>sg_next := None\<rparr>)\<rparr>" u us] us u snoc
      by (simp add: sg_nx_upd del: fun_upd_apply)
    then show ?thesis using body sent c2 u gl snoc by (auto simp: window_of_def upd_seg_def)
  qed
qed

subsection \<open>The loop\<close>

lemma header_step_other:
  assumes "header_step h m m'" "apart h 20 (sg_tcphdr g) 20"
  shows "ld32 (th_seqno (sg_tcphdr g)) m' = ld32 (th_seqno (sg_tcphdr g)) m" "TCP_TCPLEN g m' = TCP_TCPLEN g m"
proof -
  have same: "m' (sg_tcphdr g + of_nat i) = m (sg_tcphdr g + of_nat i)" if "i < 20" for i
  proof -
    have "20 \<le> unat (sg_tcphdr g + of_nat i - h)"
    proof (rule ccontr)
      assume "\<not> 20 \<le> unat (sg_tcphdr g + of_nat i - h)"
      then have "h + of_nat (unat (sg_tcphdr g + of_nat i - h)) \<noteq> sg_tcphdr g + of_nat i"
        by (intro apart_neq [OF assms(2) _ that]) simp
      then show False by simp
    qed
    with assms(1) show ?thesis by (simp add: header_step_def)
  qed
  show "ld32 (th_seqno (sg_tcphdr g)) m' = ld32 (th_seqno (sg_tcphdr g)) m"
    using same [of 4] same [of 5] same [of 6] same [of 7] by (simp add: ld32_def add.assoc)
  show "TCP_TCPLEN g m' = TCP_TCPLEN g m"
    using same [of 12] same [of 13] by (intro TCP_TCPLEN_cong) (simp add: ld16_def add.assoc)
qed

text \<open>
  The unsent queue \<open>qs\<close> of the control block \<open>pcb\<close> is ready to be sent and \<open>us\<close> is its queue of
  unacknowledged segments. A segment of the queue \<open>fits\<close> when its last byte lies within \<open>wnd\<close> bytes of
  the last acknowledged one.
\<close>

definition ready :: "'a tcp_world_scheme \<Rightarrow> u32 \<Rightarrow> bool" where
  "ready s q \<longleftrightarrow> (\<exists>g. segs s q = Some g \<and> sendable (pbufs s) g \<and> 0 < TCP_TCPLEN g (mem8 s))"

definition hdr_of :: "'a tcp_world_scheme \<Rightarrow> u32 \<Rightarrow> u32" where
  "hdr_of s q = sg_tcphdr (the (segs s q))"

definition out_queues :: "'a tcp_world_scheme \<Rightarrow> u32 \<Rightarrow> u32 list \<Rightarrow> u32 list \<Rightarrow> bool" where
  "out_queues s pcb qs us \<longleftrightarrow> (\<exists>c. pcbs s pcb = Some c \<and> pcb_local_ip c \<noteq> 0 \<and>
     chain (sg_nx s) (pcb_unsent c) qs \<and> chain (sg_nx s) (pcb_unacked c) us) \<and> set us \<inter> set qs = {} \<and>
     (\<forall>q\<in>set qs. ready s q \<and> (\<forall>r\<in>set qs. q \<noteq> r \<longrightarrow> apart (hdr_of s q) 20 (hdr_of s r) 20))"

definition fits :: "'a tcp_world_scheme \<Rightarrow> u32 \<Rightarrow> u32 \<Rightarrow> u32 \<Rightarrow> bool" where
  "fits s pcb wnd q \<longleftrightarrow> (case (pcbs s pcb, segs s q) of
     (Some c, Some g) \<Rightarrow> ntohl (ld32 (th_seqno (sg_tcphdr g)) (mem8 s)) - pcb_lastack c + ucast (sg_len g) \<le> wnd
   | _ \<Rightarrow> False)"

text \<open>Packets of the connection of \<open>pcb\<close>.\<close>

definition packet_of :: "'a tcp_world_scheme \<Rightarrow> u32 \<Rightarrow> ip_packet \<Rightarrow> bool" where
  "packet_of s pcb x \<longleftrightarrow> ip_proto x = IP_PROTO_TCP \<and>
     (case pcbs s pcb of None \<Rightarrow> False | Some c \<Rightarrow> ip_src x = pcb_local_ip c \<and> ip_dest x = pcb_remote_ip c)"

lemma output_body_step:
  assumes inv: "out_queues s pcb (q # qs) us"
  shows "\<exists>s' x. output_body E pcb q s = Some s' \<and> out_queues s' pcb qs (us @ [q]) \<and> ip_out s' = ip_out s @ [x] \<and>
    packet_of s pcb x \<and> packet_of s' pcb = packet_of s pcb \<and> (\<forall>r\<in>set qs. fits s' pcb wnd r = fits s pcb wnd r)"
proof -
  from inv obtain c g where c: "pcbs s pcb = Some c" "pcb_local_ip c \<noteq> 0" "chain (sg_nx s) (pcb_unsent c) (q # qs)"
      "chain (sg_nx s) (pcb_unacked c) us" and q: "q \<notin> set us" and g: "segs s q = Some g" "sendable (pbufs s) g" "0 < TCP_TCPLEN g (mem8 s)"
    by (auto simp: out_queues_def ready_def)
  have dist: "distinct (q # qs)" using chain_distinct [OF c(3)] .
  from output_body_does [OF g c(1,2,4) q, of E] obtain s' c' where s': "output_body E pcb q s = Some s'" "sent_one g c s s'"
      "pcbs s' pcb = Some c'" "pcb_unsent c' = sg_next g" "pcb_unacked c' = (if us = [] then Some q else pcb_unacked c)"
      "pcb_lastack c' = pcb_lastack c" "pcb_local_ip c' = pcb_local_ip c" "pcb_remote_ip c' = pcb_remote_ip c"
      "segs s' = (if us = [] then (segs s)(q \<mapsto> g\<lparr>sg_next := None\<rparr>)
               else (segs s)(q \<mapsto> g\<lparr>sg_next := None\<rparr>, last us \<mapsto> (the (segs s (last us)))\<lparr>sg_next := Some q\<rparr>))" by blast
  from s'(2) obtain p b where pb: "pbufs s p = Some b" "pbufs s' = (pbufs s)(p \<mapsto> b\<lparr>pb_payload := sg_tcphdr g\<rparr>)"
    and hs: "header_step (sg_tcphdr g) (mem8 s) (mem8 s')" by (auto simp: sent_one_def)
  have nx: "sg_nx s' = (if us = [] then (sg_nx s)(q := Some None) else (sg_nx s)(last us := Some (Some q), q := Some None))"
  proof
    fix r
    have "us \<noteq> [] \<Longrightarrow> last us \<noteq> q" using q by auto
    then show "sg_nx s' r = (if us = [] then (sg_nx s)(q := Some None) else (sg_nx s)(last us := Some (Some q), q := Some None)) r"
      using s'(9) by (auto simp: sg_nx_def)
  qed
  have disj: "set us \<inter> set qs = {}" using inv by (auto simp: out_queues_def)
  have same: "segs s' r = segs s r" if "r \<in> set qs" for r
  proof -
    have "r \<noteq> q" using dist that by auto
    moreover have "r \<noteq> last us" if "us \<noteq> []" using last_in_set [OF that] disj \<open>r \<in> set qs\<close> by auto
    ultimately show ?thesis using s'(9) by simp
  qed
  have keep: "ld32 (th_seqno (sg_tcphdr d)) (mem8 s') = ld32 (th_seqno (sg_tcphdr d)) (mem8 s)" "TCP_TCPLEN d (mem8 s') = TCP_TCPLEN d (mem8 s)"
    if "r \<in> set qs" "segs s r = Some d" for r d
    using header_step_other [OF hs, of d] that inv dist g(1) by (auto simp: out_queues_def hdr_of_def)
  have "chain (sg_nx s') (pcb_unsent c') qs"
  proof -
    have "chain (sg_nx s) (sg_next g) qs" using c(3) g(1) by (simp add: sg_nx_def [of s q])
    then show ?thesis using s'(4) same chain_cong [of qs "sg_nx s'" "sg_nx s"] by (simp add: sg_nx_def)
  qed
  moreover have "chain (sg_nx s') (pcb_unacked c') (us @ [q])"
  proof (cases us rule: rev_cases)
    case Nil
    then show ?thesis using s'(5) nx by simp
  next
    case (snoc vs v)
    then show ?thesis using chain_append_last [of "sg_nx s" "pcb_unacked c" vs v q] c(4) q s'(5) nx by simp
  qed
  moreover have "ready s' r" if "r \<in> set qs" for r
    using inv that same [OF that] keep [OF that] sendable_upd [of "pbufs s" _ p b] pb by (auto simp: out_queues_def ready_def)
  moreover have "hdr_of s' r = hdr_of s r" if "r \<in> set qs" for r using same [OF that] by (simp add: hdr_of_def)
  ultimately have "out_queues s' pcb qs (us @ [q])"
    using inv dist c s'(3,7) by (auto simp: out_queues_def)
  moreover have "fits s' pcb wnd r = fits s pcb wnd r" if "r \<in> set qs" for r
    using same [OF that] keep [OF that] c(1) s'(3,6) by (auto simp: fits_def in_window_def split: option.splits)
  ultimately show ?thesis using s'(1,2,3,7,8) c(1) by (auto simp: sent_one_def packet_of_def fun_eq_iff)
qed

lemma output_loop_does:
  assumes "out_queues s pcb qs us"
  shows "\<exists>s' xs. output_loop E pcb wnd s = Some s' \<and> ip_out s' = ip_out s @ xs \<and> (\<forall>x\<in>set xs. packet_of s pcb x) \<and>
    length xs = length (takeWhile (fits s pcb wnd) qs) \<and>
    out_queues s' pcb (dropWhile (fits s pcb wnd) qs) (us @ takeWhile (fits s pcb wnd) qs)"
  using assms
proof (induction qs arbitrary: s us)
  case Nil
  then show ?case by (subst output_loop.simps) (auto simp: out_queues_def)
next
  case (Cons q qs)
  then obtain c g where c: "pcbs s pcb = Some c" "pcb_unsent c = Some q" "segs s q = Some g"
    by (auto simp: out_queues_def ready_def)
  have loop: "output_loop E pcb wnd s = (if fits s pcb wnd q then output_body E pcb q s \<bind> output_loop E pcb wnd else Some s)"
    using c by (subst output_loop.simps) (simp add: fits_def in_window_def)
  show ?case
  proof (cases "fits s pcb wnd q")
    case True
    from output_body_step [OF Cons.prems, of E wnd] obtain t x where t: "output_body E pcb q s = Some t" "out_queues t pcb qs (us @ [q])"
        "ip_out t = ip_out s @ [x]" "packet_of s pcb x" "packet_of t pcb = packet_of s pcb" "\<forall>r\<in>set qs. fits t pcb wnd r = fits s pcb wnd r" by blast
    have "takeWhile (fits t pcb wnd) qs = takeWhile (fits s pcb wnd) qs" "dropWhile (fits t pcb wnd) qs = dropWhile (fits s pcb wnd) qs"
      using t(6) by (auto intro: takeWhile_cong dropWhile_cong)
    with Cons.IH [OF t(2)] t loop True show ?thesis by fastforce
  qed (use loop Cons.prems in auto)
qed


text \<open>Two segments are queued and the congestion window has room for the first only.\<close>

definition queued_pcb :: tcp_pcb where
  "queued_pcb = zero_pcb\<lparr>pcb_state := ESTABLISHED, pcb_local_ip := 1, pcb_remote_ip := 2, pcb_unsent := Some 16, pcb_snd_wnd := 4096,
     pcb_cwnd := 512\<rparr>"

definition queued_pbuf :: "u32 \<Rightarrow> pbuf" where
  "queued_pbuf a = \<lparr>pb_next = None, pb_flags = PBUF_FLAG_RAM, pb_ref = 1, pb_payload = a, pb_tot_len = 22, pb_len = 22\<rparr>"

definition queued_world :: tcp_world where
  "queued_world = tcp_zero\<lparr>mem8 := st32 (204 :: u32) (htonl 511) (\<lambda>_. 0), pcbs := [64 \<mapsto> queued_pcb], pbufs := [96 \<mapsto> queued_pbuf 100, 196 \<mapsto> queued_pbuf 200],
     segs := [16 \<mapsto> \<lparr>sg_next = Some 32, sg_p = Some 96, sg_dataptr = 120, sg_len = 2, sg_tcphdr = 100\<rparr>,
              32 \<mapsto> \<lparr>sg_next = None, sg_p = Some 196, sg_dataptr = 220, sg_len = 2, sg_tcphdr = 200\<rparr>]\<rparr>"

lemma queued_world_simps [simp]: "pcbs queued_world = [64 \<mapsto> queued_pcb]" "pbufs queued_world = [96 \<mapsto> queued_pbuf 100, 196 \<mapsto> queued_pbuf 200]"
    "segs queued_world = [16 \<mapsto> \<lparr>sg_next = Some 32, sg_p = Some 96, sg_dataptr = 120, sg_len = 2, sg_tcphdr = 100\<rparr>,
              32 \<mapsto> \<lparr>sg_next = None, sg_p = Some 196, sg_dataptr = 220, sg_len = 2, sg_tcphdr = 200\<rparr>]"
    "mem8 queued_world = st32 204 (htonl 511) (\<lambda>_. 0)"
  by (simp_all add: queued_world_def)

lemma queued_world_ready: "out_queues queued_world 64 [16, 32] []"
proof -
  have "sendable pbs g" if "sg_p g = Some p" "pbs p = Some (queued_pbuf a)" for pbs g p a
  proof -
    have "chain_bytes pbs m None = Some []" for m by (subst chain_bytes.simps) simp
    then have "chain_bytes pbs m (Some p) = Some [ld_bytes 22 a m]" for m
      using that by (subst chain_bytes.simps) (simp add: queued_pbuf_def)
    with that show ?thesis by (simp add: sendable_def queued_pbuf_def ld_bytes_def)
  qed
  then have "ready queued_world q" if "q = 16 \<or> q = 32" for q
    using that by (auto simp: ready_def TCP_TCPLEN_def)
  moreover have "chain (sg_nx queued_world) (Some 16) [16, 32]" by (simp add: sg_nx_def)
  ultimately show ?thesis
    by (auto simp: out_queues_def queued_pcb_def hdr_of_def apart_def zero_pcb_def)
qed


end
