(* ===== verification/Packet_Bytes.thy ===== *)
theory Packet_Bytes
  imports Tcp_Types
begin

text \<open>
  The bytes of a packet in memory after stores to the fields of its header. The components that fill
  in a header and then its checksum share these lemmas: a store to a field replaces two or four bytes
  of the packet, a store elsewhere none.
\<close>

lemma length_ld_bytes [simp]: "length (ld_bytes n a m) = n"
  by (simp add: ld_bytes_def)

lemma nth_ld_bytes [simp]: "i < n \<Longrightarrow> ld_bytes n a m ! i = m (a + of_nat i)"
  by (simp add: ld_bytes_def)

lemma ld_bytes_Suc: "ld_bytes (Suc n) a m = m a # ld_bytes n (a + 1) m"
  by (rule nth_equalityI) (auto simp: nth_Cons algebra_simps split: nat.split)

lemma ld_bytes_append: "ld_bytes (n + k) a m = ld_bytes n a m @ ld_bytes k (a + of_nat n) m"
  by (rule nth_equalityI) (auto simp: nth_append algebra_simps of_nat_diff)

lemma ld_bytes_cong: "(\<And>i. i < n \<Longrightarrow> m (a + of_nat i) = m' (a + of_nat i)) \<Longrightarrow> ld_bytes n a m = ld_bytes n a m'"
  by (simp add: ld_bytes_def)

text \<open>The distance of two bytes of an area that does not wrap around.\<close>

lemma area_inject:
  assumes "i < n" "j < n" "n \<le> 2 ^ 32"
  shows "(a :: u32) + of_nat i = a + of_nat j \<longleftrightarrow> i = j"
proof
  assume "a + of_nat i = a + of_nat j"
  then have "unat (of_nat i :: u32) = unat (of_nat j :: u32)" by simp
  with assms show "i = j" by (simp add: unat_of_nat)
qed simp

lemma ld_bytes_st16:
  assumes "k + 2 \<le> n" "n \<le> 2 ^ 32"
  shows "ld_bytes n a (st16 (a + of_nat k) v m) = take k (ld_bytes n a m) @ u16_bytes v @ drop (k + 2) (ld_bytes n a m)"
proof (rule nth_equalityI)
  fix i assume "i < length (ld_bytes n a (st16 (a + of_nat k) v m))"
  then have i: "i < n" by simp
  have e: "a + of_nat i = a + of_nat k \<longleftrightarrow> i = k" "a + of_nat i = a + of_nat k + 1 \<longleftrightarrow> i = Suc k"
    using area_inject [of i n k a] area_inject [of i n "Suc k" a] i assms by (auto simp: algebra_simps)
  consider "i < k" | "i = k" | "i = Suc k" | "k + 2 \<le> i" by linarith
  then show "ld_bytes n a (st16 (a + of_nat k) v m) ! i =
      (take k (ld_bytes n a m) @ u16_bytes v @ drop (k + 2) (ld_bytes n a m)) ! i"
    using e i assms(1) by cases (auto simp: st16_def u16_bytes_def nth_append)
qed (use assms(1) in simp)

lemma ld_bytes_st16_front:
  "2 \<le> n \<Longrightarrow> n \<le> 2 ^ 32 \<Longrightarrow> ld_bytes n a (st16 a v m) = u16_bytes v @ drop 2 (ld_bytes n a m)"
  using ld_bytes_st16 [of 0 n a v m] by (simp only: semiring_1_class.of_nat_0 add_0_right add_0 take_0 append_Nil simp_thms)

text \<open>Stores into an area that does not overlap.\<close>

lemma ld_bytes_st16_other:
  assumes "apart b k a n" "i + 2 \<le> k"
  shows "ld_bytes n a (st16 (b + of_nat i) v m) = ld_bytes n a m"
proof (rule ld_bytes_cong)
  fix j assume j: "j < n"
  have "b + of_nat (Suc i) \<noteq> a + of_nat j" "b + of_nat i \<noteq> a + of_nat j"
    using apart_neq [OF assms(1) _ j, of "Suc i"] apart_neq [OF assms(1) _ j, of i] assms(2) by simp_all
  then show "st16 (b + of_nat i) v m (a + of_nat j) = m (a + of_nat j)"
    by (auto simp: st16_def algebra_simps)
qed

lemma ld_bytes_st32_other:
  assumes "apart b k a n" "i + 4 \<le> k"
  shows "ld_bytes n a (st32 (b + of_nat i) v m) = ld_bytes n a m"
proof (rule ld_bytes_cong)
  fix j assume j: "j < n"
  have "b + of_nat (i + d) \<noteq> a + of_nat j" if "d < 4" for d
    using apart_neq [OF assms(1) _ j, of "i + d"] assms(2) that by simp
  from this [of 0] this [of 1] this [of 2] this [of 3]
  show "st32 (b + of_nat i) v m (a + of_nat j) = m (a + of_nat j)"
    by (auto simp: st32_def algebra_simps)
qed

lemma ld32_st16_apart:
  assumes "apart a k b n" "i + 2 \<le> n" "j + 4 \<le> k"
  shows "ld32 (a + of_nat j) (st16 (b + of_nat i) v m) = ld32 (a + of_nat j) m"
proof -
  have "a + of_nat (j + d) \<noteq> b + of_nat (i + e)" if "d < 4" "e < 2" for d e
    using apart_neq [OF assms(1), of "j + d" "i + e"] assms(2,3) that by simp
  from this [of 0 0] this [of 1 0] this [of 2 0] this [of 3 0] this [of 0 1] this [of 1 1] this [of 2 1] this [of 3 1]
  show ?thesis by (simp add: ld32_def st16_def algebra_simps)
qed

text \<open>A header at the front of a packet, followed by its data.\<close>

lemma u16_bytes_ld16: "u16_bytes (ld16 a m) = [m a, m (a + 1)]"
proof -
  have "\<not> bit x (8 + n)" for x :: u8 and n using bit_imp_le_length [of x "8 + n"] by auto
  then show ?thesis unfolding u16_bytes_def ld16_def by (auto intro!: bit_word_eqI simp: bit_simps)
qed

lemma ld16_ld_bytes: "k + 2 \<le> n \<Longrightarrow> u16_bytes (ld16 (a + of_nat k) m) = take 2 (drop k (ld_bytes n a m))"
  by (rule nth_equalityI) (auto simp: u16_bytes_ld16 numeral_2_eq_2 less_Suc_eq algebra_simps)

lemma u16_bytes_inject [simp]: "u16_bytes v = u16_bytes w \<longleftrightarrow> v = w"
proof
  assume "u16_bytes v = u16_bytes w"
  then have "unat v = unat w" by (metis word_sum_u16_bytes)
  then show "v = w" by (simp only: word_unat_eq_iff)
qed simp

lemma ucast_ucast_byte [simp]: "ucast (ucast (x :: u8) :: u16) = x"
  by (intro bit_word_eqI) (auto simp: bit_simps)

text \<open>The bytes of a chain of pbufs, and that a store outside of them keeps them.\<close>

definition pbuf_bytes :: "(u32 \<rightharpoonup> pbuf) \<Rightarrow> bytes \<Rightarrow> u32 \<Rightarrow> u8 list" where
  "pbuf_bytes pbs m q = (case pbs q of None \<Rightarrow> [] | Some b \<Rightarrow> ld_bytes (unat (pb_len b)) (pb_payload b) m)"

lemma chain_bytes_chain: "chain (pb_nx pbs) h xs \<Longrightarrow> chain_bytes pbs m h = Some (map (pbuf_bytes pbs m) xs)"
proof (induction xs arbitrary: h)
  case Nil
  then show ?case by (subst chain_bytes.simps) simp
next
  case (Cons q xs)
  then obtain b where "h = Some q" "pbs q = Some b" "chain (pb_nx pbs) (pb_next b) xs"
    by (auto simp: pb_nx_def split: option.splits)
  with Cons.IH show ?case by (subst chain_bytes.simps) (simp add: pbuf_bytes_def)
qed

definition pbuf_apart :: "u32 \<Rightarrow> nat \<Rightarrow> (u32 \<rightharpoonup> pbuf) \<Rightarrow> u32 \<Rightarrow> bool" where
  "pbuf_apart a n pbs q \<longleftrightarrow> (\<forall>b. pbs q = Some b \<longrightarrow> apart a n (pb_payload b) (unat (pb_len b)))"

lemma pbuf_bytes_st16: "pbuf_apart a n pbs q \<Longrightarrow> i + 2 \<le> n \<Longrightarrow> pbuf_bytes pbs (st16 (a + of_nat i) v m) q = pbuf_bytes pbs m q"
  by (auto simp: pbuf_bytes_def pbuf_apart_def ld_bytes_st16_other split: option.split)

text \<open>One checksum for the packet in one piece and in the pieces of a chain.\<close>

lemma pseudo_concat:
  "length (concat xs) + 12 \<le> 65535 \<Longrightarrow> inet_chksum_pseudo [concat xs] src dest proto len = inet_chksum_pseudo xs src dest proto len"
  by (simp add: pseudo_contiguous)

end
