(* ===== verification/Icmp.thy ===== *)
theory Icmp
  imports Tcp_Frame Packet_Bytes
begin

text \<open>
  \<^verbatim>\<open>lwtcp/icmp.c\<close>: the answer to an echo request and the two error messages. The world of TCP is
  extended with the counters of ICMP. Packets are read and written in the byte memory as the code
  does; the address of the heap array, from which the error messages are allocated, is an argument.
  Echo requests are answered in place, with the checksum adjusted for the changed type; the code then
  stops at \<^verbatim>\<open>assert(0)\<close>, the fault \<open>None\<close>, where the answer should be sent.
\<close>

subsection \<open>The code\<close>

abbreviation IP_PROTO_ICMP :: u8 where "IP_PROTO_ICMP \<equiv> 1"
abbreviation IP_HLEN :: nat where "IP_HLEN \<equiv> 20"
abbreviation ICMP_ER :: u8 where "ICMP_ER \<equiv> 0"
abbreviation ICMP_DUR :: u8 where "ICMP_DUR \<equiv> 3"
abbreviation ICMP_ECHO :: u8 where "ICMP_ECHO \<equiv> 8"
abbreviation ICMP_TE :: u8 where "ICMP_TE \<equiv> 11"

datatype icmp_dur_type = ICMP_DUR_NET | ICMP_DUR_HOST | ICMP_DUR_PROTO | ICMP_DUR_PORT | ICMP_DUR_FRAG | ICMP_DUR_SR

fun dur_code :: "icmp_dur_type \<Rightarrow> u8" where
  "dur_code ICMP_DUR_NET = 0"
| "dur_code ICMP_DUR_HOST = 1"
| "dur_code ICMP_DUR_PROTO = 2"
| "dur_code ICMP_DUR_PORT = 3"
| "dur_code ICMP_DUR_FRAG = 4"
| "dur_code ICMP_DUR_SR = 5"

datatype icmp_te_type = ICMP_TE_TTL | ICMP_TE_FRAG

fun te_code :: "icmp_te_type \<Rightarrow> u8" where
  "te_code ICMP_TE_TTL = 0"
| "te_code ICMP_TE_FRAG = 1"

text \<open>The headers: \<^verbatim>\<open>_type_code\<close> at offset 0 and \<^verbatim>\<open>chksum\<close> at offset 2.\<close>

abbreviation ic_type_code :: "u32 \<Rightarrow> u32" where "ic_type_code h \<equiv> h + 0"
abbreviation ic_chksum :: "u32 \<Rightarrow> u32" where "ic_chksum h \<equiv> h + 2"

definition ICMPH_TYPE :: "u32 \<Rightarrow> bytes \<Rightarrow> u16" where
  "ICMPH_TYPE h m = drop_bit 8 (ntohs (ld16 (ic_type_code h) m))"

definition ICMPH_CODE :: "u32 \<Rightarrow> bytes \<Rightarrow> u16" where
  "ICMPH_CODE h m = and (ntohs (ld16 (ic_type_code h) m)) 0xff"

definition ICMPH_TYPE_SET :: "u32 \<Rightarrow> u8 \<Rightarrow> bytes \<Rightarrow> bytes" where
  "ICMPH_TYPE_SET h type m = st16 (ic_type_code h) (htons (or (ICMPH_CODE h m) (push_bit 8 (ucast type)))) m"

definition ICMPH_CODE_SET :: "u32 \<Rightarrow> u8 \<Rightarrow> bytes \<Rightarrow> bytes" where
  "ICMPH_CODE_SET h code m = st16 (ic_type_code h) (htons (or (ucast code) (push_bit 8 (ICMPH_TYPE h m)))) m"

record icmp_world = tcp_world +
  icmp_stats :: tcp_stats

definition stat_icmp :: "(tcp_stats \<Rightarrow> tcp_stats) \<Rightarrow> 'a icmp_world_scheme \<Rightarrow> 'a icmp_world_scheme" where
  "stat_icmp f s = s\<lparr>icmp_stats := f (icmp_stats s)\<rparr>"

text \<open>The checksum adjusted for the type that changes from 8 to 0, with the carry.\<close>

definition adjust_chksum :: "u16 \<Rightarrow> u16" where
  "adjust_chksum k =
     (if k \<ge> htons (0xffff - push_bit 8 (ucast ICMP_ECHO)) then k + (htons (push_bit 8 (ucast ICMP_ECHO)) + 1)
      else k + htons (push_bit 8 (ucast ICMP_ECHO)))"

text \<open>Turning a request into its answer: the addresses change places, then type and checksum.\<close>

definition echo_reply :: "u32 \<Rightarrow> u32 \<Rightarrow> bytes \<Rightarrow> bytes" where
  "echo_reply iphdr iecho m =
     (let tmpaddr = ld32 (iphdr + 12) m;
          m = st32 (iphdr + 12) (ld32 (iphdr + 16) m) m;
          m = st32 (iphdr + 16) tmpaddr m;
          m = ICMPH_TYPE_SET iecho ICMP_ER m
      in st16 (ic_chksum iecho) (adjust_chksum (ld16 (ic_chksum iecho) m)) m)"

definition icmp_input :: "u32 \<Rightarrow> u32 \<Rightarrow> u32 \<Rightarrow> 'a icmp_world_scheme \<Rightarrow> 'a icmp_world_scheme option" where
  "icmp_input ram_addr netmask p s = do {
     let s = stat_icmp (\<lambda>st. st\<lparr>ts_recv := ts_recv st + 1\<rparr>) s;
     b \<leftarrow> pbufs s p;
     let iphdr = pb_payload b;
     let hlen = IPH_HL iphdr (mem8 s) * 4;
     (r, s) \<leftarrow> pbuf_header p (- hlen) s;
     b \<leftarrow> pbufs s p;
     let type = mem8 s (pb_payload b);
     if type = ICMP_ECHO then
       let dest = ld32 (iphdr + 16) (mem8 s)
       in if ip_addr_isbroadcast dest netmask \<or> ip_addr_ismulticast dest then do {
            (n, s) \<leftarrow> pbuf_free ram_addr (Some p) (stat_icmp (\<lambda>st. st\<lparr>ts_err := ts_err st + 1\<rparr>) s);
            Some s
          }
          else if pb_tot_len b < 8 then do {
            (n, s) \<leftarrow> pbuf_free ram_addr (Some p) s;
            Some (stat_icmp (\<lambda>st. st\<lparr>ts_lenerr := ts_lenerr st + 1\<rparr>) s)
          }
          else do {
            let iecho = pb_payload b;
            bss \<leftarrow> chain_bytes (pbufs s) (mem8 s) (Some p);
            if inet_chksum_pbuf bss \<noteq> 0 then do {
              (n, s) \<leftarrow> pbuf_free ram_addr (Some p) s;
              Some (stat_icmp (\<lambda>st. st\<lparr>ts_chkerr := ts_chkerr st + 1\<rparr>) s)
            }
            else do {
              let s = upd_mem (echo_reply iphdr iecho) s;
              let s = stat_icmp (\<lambda>st. st\<lparr>ts_xmit := ts_xmit st + 1\<rparr>) s;
              (r, s) \<leftarrow> pbuf_header p hlen s;
              None
            }
          }
     else do {
       (n, s) \<leftarrow> pbuf_free ram_addr (Some p)
                  (stat_icmp (\<lambda>st. st\<lparr>ts_proterr := ts_proterr st + 1, ts_drop := ts_drop st + 1\<rparr>) s);
       Some s
     }
   }"

text \<open>
  The two error messages differ in type and code only. The allocation is not checked for NULL, which
  faults; the four bytes after the checksum are not written.
\<close>

definition error_header :: "u8 \<Rightarrow> u8 \<Rightarrow> u32 \<Rightarrow> u32 \<Rightarrow> nat \<Rightarrow> bytes \<Rightarrow> bytes" where
  "error_header type code orig h len m =
     (let m = ICMPH_TYPE_SET h type m;
          m = ICMPH_CODE_SET h code m;
          m = bcopy orig (h + 8) (IP_HLEN + 8) m;
          m = st16 (ic_chksum h) 0 m
      in st16 (ic_chksum h) (inet_chksum (ld_bytes len h m)) m)"

definition icmp_error :: "u32 \<Rightarrow> u8 \<Rightarrow> u8 \<Rightarrow> u32 \<Rightarrow> 'a icmp_world_scheme \<Rightarrow> 'a icmp_world_scheme option" where
  "icmp_error ram_addr type code p s = do {
     (q, s) \<leftarrow> pbuf_alloc ram_addr PBUF_TRANSPORT (8 + 20 + 8) PBUF_RAM s;
     pb \<leftarrow> pbufs s p;
     let iphdr = pb_payload pb;
     q \<leftarrow> q;
     qb \<leftarrow> pbufs s q;
     let s = upd_mem (error_header type code iphdr (pb_payload qb) (unat (pb_len qb))) s;
     let s = stat_icmp (\<lambda>st. st\<lparr>ts_xmit := ts_xmit st + 1\<rparr>) s;
     (r, s) \<leftarrow> sr_lwip_output q (ld32 (iphdr + 16) (mem8 s)) (ld32 (iphdr + 12) (mem8 s)) IP_PROTO_ICMP s;
     (n, s) \<leftarrow> pbuf_free ram_addr (Some q) s;
     Some s
   }"

definition icmp_dest_unreach :: "u32 \<Rightarrow> u32 \<Rightarrow> icmp_dur_type \<Rightarrow> 'a icmp_world_scheme \<Rightarrow> 'a icmp_world_scheme option" where
  "icmp_dest_unreach ram_addr p t s = icmp_error ram_addr ICMP_DUR (dur_code t) p s"

definition icmp_time_exceeded :: "u32 \<Rightarrow> u32 \<Rightarrow> icmp_te_type \<Rightarrow> 'a icmp_world_scheme \<Rightarrow> 'a icmp_world_scheme option" where
  "icmp_time_exceeded ram_addr p t s = icmp_error ram_addr ICMP_TE (te_code t) p s"

subsection \<open>The answer to an echo request\<close>

lemma adjust_chksum_unat:
  "unat (adjust_chksum k) = (if 65527 \<le> unat k then unat k + 9 - 65536 else unat k + 8)"
proof -
  have c: "htons (0xffff - push_bit 8 (ucast ICMP_ECHO)) = 65527" "htons (push_bit 8 (ucast ICMP_ECHO)) = 8"
    by (simp_all add: htons_def)
  have "unat (k + 9) = unat k + 9 - 65536" if "65527 \<le> unat k"
    using that unat_u16_less [of k] by (simp add: unat_word_ariths mod_if)
  moreover have "unat (k + 8) = unat k + 8" if "\<not> 65527 \<le> unat k"
    using that by (simp add: unat_word_ariths)
  ultimately show ?thesis unfolding adjust_chksum_def c by (simp add: word_le_unat)
qed

lemma verifies_iff: "length bs \<le> 65535 \<Longrightarrow> inet_chksum bs = 0 \<longleftrightarrow> oc_norm (word_sum bs) = 65535"
  using unat_inet_chksum [of bs] oc_norm_le [of "word_sum bs"] by (auto simp: unat_eq_zero [symmetric])

lemma oc_norm_full:
  assumes "oc_norm t = 65535" and "t = t' \<or> t = t' + 65535"
  shows "oc_norm t' = 65535 \<longleftrightarrow> t' \<noteq> 0"
proof (cases "t' = 0")
  case False
  then have "oc_norm t = oc_norm t'" using assms(2) by (intro oc_norm_eqI) auto
  with False assms(1) show ?thesis by simp
qed (simp add: oc_norm_def)

lemma adjusted_sum:
  assumes "length rest \<le> 65531" and "inet_chksum ([8, c] @ u16_bytes k @ rest) = 0"
  shows "inet_chksum ([0, c] @ u16_bytes (adjust_chksum k) @ rest) = 0 \<longleftrightarrow>
    (\<exists>b\<in>set ([0, c] @ u16_bytes (adjust_chksum k) @ rest). b \<noteq> 0)"
proof -
  let ?T = "8 + 256 * unat c + (unat k + word_sum rest)"
    and ?T' = "256 * unat c + (unat (adjust_chksum k) + word_sum rest)"
  have "word_sum ([8, c] @ u16_bytes k @ rest) = ?T" "word_sum ([0, c] @ u16_bytes (adjust_chksum k) @ rest) = ?T'"
    by (simp_all add: word_sum_append_even word_sum_u16_bytes)
  moreover have "oc_norm ?T = 65535"
    using assms calculation by (simp add: verifies_iff)
  moreover have "?T = ?T' \<or> ?T = ?T' + 65535"
    using unat_u16_less [of k] by (simp add: adjust_chksum_unat)
  ultimately have "inet_chksum ([0, c] @ u16_bytes (adjust_chksum k) @ rest) = 0 \<longleftrightarrow>
      word_sum ([0, c] @ u16_bytes (adjust_chksum k) @ rest) \<noteq> 0"
    using assms(1) oc_norm_full [of ?T ?T'] by (simp only: verifies_iff) (simp add: verifies_iff)
  then show ?thesis by (simp only: word_sum_eq_0) blast
qed

lemma u16_bytes_type_set: "u16_bytes (htons (or (ICMPH_CODE h m) (push_bit 8 (ucast type)))) = [type, m (h + 1)]"
proof -
  have "ICMPH_CODE h m = ucast (m (h + 1))"
  proof -
    have f: "(0xff :: u16) = mask 8" by (simp add: mask_eq_exp_minus_1)
    show ?thesis unfolding ICMPH_CODE_def htons_def ld16_def f
      by (intro bit_word_eqI) (auto simp: bit_simps dest: bit_imp_le_length)
  qed
  moreover have "\<not> bit x (8 + n)" for x :: u8 and n using bit_imp_le_length [of x "8 + n"] by auto
  ultimately show ?thesis unfolding u16_bytes_def htons_def
    by (auto intro!: bit_word_eqI simp: bit_simps dest: bit_imp_le_length)
qed

lemma ld_bytes_4: "4 \<le> n \<Longrightarrow> ld_bytes n a m = [m a, m (a + 1)] @ u16_bytes (ld16 (a + 2) m) @ ld_bytes (n - 4) (a + 4) m"
proof -
  assume "4 \<le> n"
  moreover have "ld_bytes 4 a m = [m a, m (a + 1), m (a + 2), m (a + 3)]"
    by (simp add: ld_bytes_def upt_rec)
  ultimately show ?thesis using ld_bytes_append [of 4 "n - 4" a m]
    by (simp add: u16_bytes_ld16 add.assoc)
qed

lemma echo_reply_bytes:
  assumes "8 \<le> n" "n \<le> 65535" "apart iphdr 20 iecho n"
  shows "ld_bytes n iecho (echo_reply iphdr iecho m) =
    [ICMP_ER, m (iecho + 1)] @ u16_bytes (adjust_chksum (ld16 (iecho + 2) m)) @ ld_bytes (n - 4) (iecho + 4) m"
proof -
  let ?m1 = "st32 (iphdr + 16) (ld32 (iphdr + 12) m) (st32 (iphdr + 12) (ld32 (iphdr + 16) m) m)"
  let ?m2 = "ICMPH_TYPE_SET iecho ICMP_ER ?m1"
  have m1: "ld_bytes n iecho ?m1 = ld_bytes n iecho m"
    using ld_bytes_st32_other [OF assms(3), of 16] ld_bytes_st32_other [OF assms(3), of 12] by simp
  from m1 [unfolded ld_bytes_4 [of n]] assms(1)
  have f: "?m1 (iecho + 1) = m (iecho + 1)" "ld16 (iecho + 2) ?m1 = ld16 (iecho + 2) m"
      "ld_bytes (n - 4) (iecho + 4) ?m1 = ld_bytes (n - 4) (iecho + 4) m"
    by (simp_all add: ld_bytes_4)
  have m2: "ld_bytes n iecho ?m2 = [ICMP_ER, m (iecho + 1)] @ drop 2 (ld_bytes n iecho m)"
    using ld_bytes_st16_front [of n iecho _ ?m1] assms(1,2) f(1) m1 u16_bytes_type_set [of iecho ?m1 ICMP_ER]
    by (simp add: ICMPH_TYPE_SET_def)
  then have "ld16 (iecho + 2) ?m2 = ld16 (iecho + 2) m"
    using ld16_ld_bytes [of 2 n iecho ?m2] ld16_ld_bytes [of 2 n iecho m] assms(1)
    by (simp add: u16_bytes_inject [symmetric] del: u16_bytes_inject)
  then show ?thesis
    using ld_bytes_st16 [of 2 n iecho "adjust_chksum (ld16 (iecho + 2) m)" ?m2] assms(1,2) m2
    by (simp add: echo_reply_def Let_def ld_bytes_4 [of n iecho m])
qed

text \<open>
  C37: an echo request whose checksum verifies is turned into a reply in place: the type becomes that
  of a reply, the addresses of the IP header change places and the rest of the message is kept. The
  checksum adjusted for the new type verifies, except when the reply consists of zero bytes only: the
  test for the carry is off by one, and such a reply carries the checksum 0 in place of 0xffff.
\<close>

theorem echo_reply_verifies:
  assumes "8 \<le> n" "n \<le> 65535" "apart iphdr 20 iecho n" and "m iecho = ICMP_ECHO" and "inet_chksum (ld_bytes n iecho m) = 0"
  shows "(inet_chksum (ld_bytes n iecho (echo_reply iphdr iecho m)) = 0 \<longleftrightarrow>
      (\<exists>b\<in>set (ld_bytes n iecho (echo_reply iphdr iecho m)). b \<noteq> 0)) \<and>
    echo_reply iphdr iecho m iecho = ICMP_ER \<and>
    drop 4 (ld_bytes n iecho (echo_reply iphdr iecho m)) = drop 4 (ld_bytes n iecho m) \<and>
    ld32 (iphdr + 12) (echo_reply iphdr iecho m) = ld32 (iphdr + 16) m \<and>
    ld32 (iphdr + 16) (echo_reply iphdr iecho m) = ld32 (iphdr + 12) m"
proof -
  let ?m = "echo_reply iphdr iecho m"
  note b = echo_reply_bytes [OF assms(1-3), of m]
  have "inet_chksum ([8, m (iecho + 1)] @ u16_bytes (ld16 (iecho + 2) m) @ ld_bytes (n - 4) (iecho + 4) m) = 0"
    using assms(1,4,5) by (simp add: ld_bytes_4)
  then have "inet_chksum (ld_bytes n iecho ?m) = 0 \<longleftrightarrow> (\<exists>b\<in>set (ld_bytes n iecho ?m). b \<noteq> 0)"
    unfolding b using assms(2) by (intro adjusted_sum) simp_all
  moreover have "?m iecho = ICMP_ER"
    using b assms(1) by (simp add: ld_bytes_4 [of n iecho ?m])
  moreover have "drop 4 (ld_bytes n iecho ?m) = drop 4 (ld_bytes n iecho m)"
    unfolding b using assms(1) by (simp add: ld_bytes_4 [of n iecho m])
  moreover have "ld32 (iphdr + 12) ?m = ld32 (iphdr + 16) m \<and> ld32 (iphdr + 16) ?m = ld32 (iphdr + 12) m"
    using ld32_st16_apart [OF assms(3), of 0 12] ld32_st16_apart [OF assms(3), of 2 12]
      ld32_st16_apart [OF assms(3), of 0 16] ld32_st16_apart [OF assms(3), of 2 16] assms(1)
    by (simp add: echo_reply_def ICMPH_TYPE_SET_def Let_def)
  ultimately show ?thesis by blast
qed

text \<open>A request with the data byte 1, and one that has only zero bytes after its checksum.\<close>

definition echo_example :: "u8 \<Rightarrow> u8 \<Rightarrow> bytes" where
  "echo_example k d = (\<lambda>_. 0)(100 := 8, 102 := 0xf7, 103 := k, 109 := d)"

lemma echo_example_bytes: "ld_bytes 10 100 (echo_example k d) = [8, 0, 0xf7, k, 0, 0, 0, 0, 0, d]"
  by (simp add: ld_bytes_def upt_rec echo_example_def)

theorem echo_reply_verifies_witness:
  "inet_chksum (ld_bytes 10 100 (echo_reply 0 100 (echo_example 0xfe 1))) = 0 \<and>
   inet_chksum (ld_bytes 10 100 (echo_reply 0 100 (echo_example 0xff 0))) \<noteq> 0"
proof -
  have v: "inet_chksum (ld_bytes 10 100 (echo_example 0xfe 1)) = 0" "inet_chksum (ld_bytes 10 100 (echo_example 0xff 0)) = 0"
    by (simp_all add: verifies_iff echo_example_bytes oc_norm_def)
  have a: "apart 0 20 100 10" "echo_example k d 100 = ICMP_ECHO" for k d
    by (simp_all add: apart_def echo_example_def)
  have "adjust_chksum 0xfff7 = 0" by (simp add: adjust_chksum_def htons_def)
  moreover have "ld16 102 (echo_example 0xff 0) = 0xfff7" by (simp add: ld16_def echo_example_def)
  moreover have "ld_bytes 6 104 (echo_example 0xff 0) = [0, 0, 0, 0, 0, 0]"
    by (simp add: ld_bytes_def upt_rec echo_example_def)
  ultimately have "ld_bytes 10 100 (echo_reply 0 100 (echo_example 0xff 0)) = [0, 0, 0, 0, 0, 0, 0, 0, 0, 0]"
    using echo_reply_bytes [of 10 0 100 "echo_example 0xff 0"] a by (simp add: u16_bytes_def echo_example_def)
  moreover have "drop 4 (ld_bytes 10 100 (echo_reply 0 100 (echo_example 0xfe 1))) = [0, 0, 0, 0, 0, 1]"
    using echo_reply_verifies [OF _ _ a v(1)] by (simp add: echo_example_bytes)
  then have "\<exists>b\<in>set (ld_bytes 10 100 (echo_reply 0 100 (echo_example 0xfe 1))). b \<noteq> 0"
    using in_set_dropD [of 1 4 "ld_bytes 10 100 (echo_reply 0 100 (echo_example 0xfe 1))"] by (intro bexI [of _ 1]) simp_all
  ultimately show ?thesis
    using echo_reply_verifies [OF _ _ a v(1)] echo_reply_verifies [OF _ _ a v(2)] by (simp add: echo_example_bytes)
qed

end
