(* ===== verification/Udp.thy ===== *)
theory Udp
  imports Icmp
begin

text \<open>
  \<^verbatim>\<open>lwtcp/udp.c\<close>: the control blocks of UDP, the list of the bound and connected ones, the choice of
  the control block for a received datagram, and sending. The world is extended with the control
  blocks; an access to an address at which there is none is the fault \<open>None\<close>. The receive function of
  a control block belongs to the application and is given by the environment. \<^verbatim>\<open>udp_lookup\<close> is only
  compiled for debugging and is left out.
\<close>

subsection \<open>The code\<close>

abbreviation IP_PROTO_UDP :: u8 where "IP_PROTO_UDP \<equiv> 17"
abbreviation IP_PROTO_UDPLITE :: u8 where "IP_PROTO_UDPLITE \<equiv> 170"
abbreviation UDP_HLEN :: u16 where "UDP_HLEN \<equiv> 8"
abbreviation UDP_FLAGS_NOCHKSUM :: u8 where "UDP_FLAGS_NOCHKSUM \<equiv> 0x01"
abbreviation UDP_FLAGS_UDPLITE :: u8 where "UDP_FLAGS_UDPLITE \<equiv> 0x02"

abbreviation uh_src :: "u32 \<Rightarrow> u32" where "uh_src h \<equiv> h + 0"
abbreviation uh_dest :: "u32 \<Rightarrow> u32" where "uh_dest h \<equiv> h + 2"
abbreviation uh_len :: "u32 \<Rightarrow> u32" where "uh_len h \<equiv> h + 4"
abbreviation uh_chksum :: "u32 \<Rightarrow> u32" where "uh_chksum h \<equiv> h + 6"

definition IPH_PROTO :: "u32 \<Rightarrow> bytes \<Rightarrow> u16" where
  "IPH_PROTO h m = and (ntohs (ld16 (h + 8) m)) 0xff"

record udp_pcb =
  up_next :: "u32 option"
  up_local_ip :: u32
  up_remote_ip :: u32
  up_local_port :: u16
  up_remote_port :: u16
  up_flags :: u8
  up_chksum_len :: u16
  up_recv :: "nat option"
  up_recv_arg :: u32

record udp_world = icmp_world +
  upcbs :: "u32 \<rightharpoonup> udp_pcb"
  udp_pcbs :: "u32 option"
  udp_stats :: tcp_stats

text \<open>A receive function is called with its argument, the control block, the pbuf, the address at which the
  source address lies, and the source port.\<close>

record 's udp_env =
  ue_ram :: u32
  ue_recv :: "nat \<Rightarrow> u32 \<Rightarrow> u32 \<Rightarrow> u32 \<Rightarrow> u32 \<Rightarrow> u16 \<Rightarrow> 's \<Rightarrow> 's option"

definition stat_udp :: "(tcp_stats \<Rightarrow> tcp_stats) \<Rightarrow> 'a udp_world_scheme \<Rightarrow> 'a udp_world_scheme" where
  "stat_udp f s = s\<lparr>udp_stats := f (udp_stats s)\<rparr>"

definition upd_upcb :: "u32 \<Rightarrow> (udp_pcb \<Rightarrow> udp_pcb) \<Rightarrow> 'a udp_world_scheme \<Rightarrow> 'a udp_world_scheme option" where
  "upd_upcb p f s = (case upcbs s p of None \<Rightarrow> None | Some c \<Rightarrow> Some (s\<lparr>upcbs := (upcbs s)(p \<mapsto> f c)\<rparr>))"

text \<open>The test of the two loops that choose a control block; the first also compares the remote port.\<close>

definition udp_match :: "bool \<Rightarrow> u16 \<Rightarrow> u16 \<Rightarrow> u32 \<Rightarrow> u32 \<Rightarrow> udp_pcb \<Rightarrow> bool" where
  "udp_match perfect src dest ipsrc ipdest c \<longleftrightarrow>
     (perfect \<longrightarrow> up_remote_port c = src) \<and> up_local_port c = dest \<and>
     (up_remote_ip c = 0 \<or> up_remote_ip c = ipsrc) \<and> (up_local_ip c = 0 \<or> up_local_ip c = ipdest)"

partial_function (option) udp_find :: "(udp_pcb \<Rightarrow> bool) \<Rightarrow> (u32 \<rightharpoonup> udp_pcb) \<Rightarrow> u32 option \<Rightarrow> u32 option option" where
  "udp_find P cs pcb =
     (case pcb of
        None \<Rightarrow> Some None
      | Some p \<Rightarrow> do {
          c \<leftarrow> cs p;
          if P c then Some pcb else udp_find P cs (up_next c)
        })"

text \<open>The checksum tests: for UDP Lite with the length of the header, for UDP unless the field is 0.\<close>

definition udp_verify :: "u32 \<Rightarrow> u32 \<Rightarrow> u32 \<Rightarrow> 'a udp_world_scheme \<Rightarrow> bool option" where
  "udp_verify p iphdr udphdr s =
     (let m = mem8 s; src = ld32 (iphdr + 12) m; dest = ld32 (iphdr + 16) m
      in if IPH_PROTO iphdr m = ucast IP_PROTO_UDPLITE then do {
           k \<leftarrow> chksum_pseudo p src dest IP_PROTO_UDPLITE (ntohs (ld16 (uh_len udphdr) m)) s;
           Some (k = 0)
         }
         else if ld16 (uh_chksum udphdr) m \<noteq> 0 then do {
           b \<leftarrow> pbufs s p;
           k \<leftarrow> chksum_pseudo p src dest IP_PROTO_UDP (pb_tot_len b) s;
           Some (k = 0)
         }
         else Some True)"

text \<open>
  The delivery. The branch for a datagram that no control block matches is written here in the code
  too, although it is only reached when there is one.
\<close>

definition udp_deliver ::
  "('a udp_world_scheme) udp_env \<Rightarrow> u32 \<Rightarrow> u32 option \<Rightarrow> u32 \<Rightarrow> u32 \<Rightarrow> u32 \<Rightarrow> u16 \<Rightarrow> 'a udp_world_scheme \<Rightarrow> 'a udp_world_scheme option" where
  "udp_deliver E netmask pcb p iphdr udphdr src s =
     (case pcb of
        Some q \<Rightarrow> do {
          c \<leftarrow> upcbs s q;
          f \<leftarrow> up_recv c;
          ue_recv E f (up_recv_arg c) q p (iphdr + 12) src s
        }
      | None \<Rightarrow> do {
          let dest = ld32 (iphdr + 16) (mem8 s);
          s \<leftarrow> (if \<not> ip_addr_isbroadcast dest netmask \<and> \<not> ip_addr_ismulticast dest then do {
                  let s = upd_mem (\<lambda>m. st16 (uh_src udphdr) (htons (ld16 (uh_src udphdr) m)) m) s;
                  let s = upd_mem (\<lambda>m. st16 (uh_dest udphdr) (htons (ld16 (uh_dest udphdr) m)) m) s;
                  s \<leftarrow> upd_pbuf p (\<lambda>b. b\<lparr>pb_payload := iphdr\<rparr>) s;
                  icmp_dest_unreach (ue_ram E) p ICMP_DUR_PORT s
                }
                else Some s);
          let s = stat_udp (\<lambda>st. st\<lparr>ts_proterr := ts_proterr st + 1, ts_drop := ts_drop st + 1\<rparr>) s;
          (n, s) \<leftarrow> pbuf_free (ue_ram E) (Some p) s;
          Some s
        })"

definition udp_input :: "('a udp_world_scheme) udp_env \<Rightarrow> u32 \<Rightarrow> u32 \<Rightarrow> 'a udp_world_scheme \<Rightarrow> 'a udp_world_scheme option" where
  "udp_input E netmask p s = do {
     let s = stat_udp (\<lambda>st. st\<lparr>ts_recv := ts_recv st + 1\<rparr>) s;
     b \<leftarrow> pbufs s p;
     let iphdr = pb_payload b;
     (r, s) \<leftarrow> pbuf_header p (- (UDP_HLEN + IPH_HL iphdr (mem8 s) * 4)) s;
     b \<leftarrow> pbufs s p;
     let udphdr = pb_payload b - ucast UDP_HLEN;
     let src = ntohs (ld16 (uh_src udphdr) (mem8 s));
     let dest = ntohs (ld16 (uh_dest udphdr) (mem8 s));
     let ipsrc = ld32 (iphdr + 12) (mem8 s);
     let ipdest = ld32 (iphdr + 16) (mem8 s);
     pcb \<leftarrow> udp_find (udp_match True src dest ipsrc ipdest) (upcbs s) (udp_pcbs s);
     pcb \<leftarrow> (if pcb = None then udp_find (udp_match False src dest ipsrc ipdest) (upcbs s) (udp_pcbs s)
             else Some pcb);
     if pcb \<noteq> None then do {
       (r, s) \<leftarrow> pbuf_header p UDP_HLEN s;
       ok \<leftarrow> udp_verify p iphdr udphdr s;
       if \<not> ok then do {
         let s = stat_udp (\<lambda>st. st\<lparr>ts_chkerr := ts_chkerr st + 1, ts_drop := ts_drop st + 1\<rparr>) s;
         (n, s) \<leftarrow> pbuf_free (ue_ram E) (Some p) s;
         Some s
       }
       else do {
         (r, s) \<leftarrow> pbuf_header p (- UDP_HLEN) s;
         udp_deliver E netmask pcb p iphdr udphdr src s
       }
     }
     else do {
       (n, s) \<leftarrow> pbuf_free (ue_ram E) (Some p) s;
       Some s
     }
   }"

text \<open>
  Sending: the header goes in front of the data, in a pbuf of its own if there is no room for it. Then
  the header is filled in and the datagram is handed to IP.
\<close>

definition udp_emit :: "udp_pcb \<Rightarrow> u32 \<Rightarrow> 'a udp_world_scheme \<Rightarrow> (err_t \<times> 'a udp_world_scheme) option" where
  "udp_emit c p s = do {
     b \<leftarrow> pbufs s p;
     let h = pb_payload b;
     let s = upd_mem (st16 (uh_src h) (htons (up_local_port c))) s;
     let s = upd_mem (st16 (uh_dest h) (htons (up_remote_port c))) s;
     let s = upd_mem (st16 (uh_chksum h) 0) s;
     (err, s) \<leftarrow>
       (if and (up_flags c) UDP_FLAGS_UDPLITE \<noteq> 0 then do {
          let s = upd_mem (st16 (uh_len h) (htons (up_chksum_len c))) s;
          k \<leftarrow> chksum_pseudo p (up_local_ip c) (up_remote_ip c) IP_PROTO_UDP (up_chksum_len c) s;
          let s = upd_mem (st16 (uh_chksum h) (if k = 0 then 0xffff else k)) s;
          sr_lwip_output p (up_local_ip c) (up_remote_ip c) IP_PROTO_UDPLITE s
        }
        else do {
          let s = upd_mem (st16 (uh_len h) (htons (pb_tot_len b))) s;
          s \<leftarrow> (if and (up_flags c) UDP_FLAGS_NOCHKSUM = 0 then do {
                  k \<leftarrow> chksum_pseudo p (up_local_ip c) (up_remote_ip c) IP_PROTO_UDP (pb_tot_len b) s;
                  Some (upd_mem (st16 (uh_chksum h) (if k = 0 then 0xffff else k)) s)
                }
                else Some s);
          sr_lwip_output p (up_local_ip c) (up_remote_ip c) IP_PROTO_UDP s
        });
     Some (err, stat_udp (\<lambda>st. st\<lparr>ts_xmit := ts_xmit st + 1\<rparr>) s)
   }"

definition udp_send :: "u32 \<Rightarrow> u32 \<Rightarrow> u32 \<Rightarrow> 'a udp_world_scheme \<Rightarrow> (err_t \<times> 'a udp_world_scheme) option" where
  "udp_send ram_addr pcb p s = do {
     (r, s) \<leftarrow> pbuf_header p UDP_HLEN s;
     if r \<noteq> 0 then do {
       (q, s) \<leftarrow> pbuf_alloc ram_addr PBUF_IP UDP_HLEN PBUF_RAM s;
       case q of
         None \<Rightarrow> Some (ERR_MEM, s)
       | Some q \<Rightarrow> do {
           s \<leftarrow> pbuf_chain q p s;
           c \<leftarrow> upcbs s pcb;
           udp_emit c q s
         }
     }
     else do {
       c \<leftarrow> upcbs s pcb;
       udp_emit c p s
     }
   }"

text \<open>Binding and connecting put the control block on the list unless it is there.\<close>

partial_function (option) udp_listed :: "(u32 \<rightharpoonup> udp_pcb) \<Rightarrow> u32 \<Rightarrow> u32 option \<Rightarrow> bool option" where
  "udp_listed cs pcb ipcb =
     (case ipcb of
        None \<Rightarrow> Some False
      | Some i \<Rightarrow> if pcb = i then Some True else do {
          c \<leftarrow> cs i;
          udp_listed cs pcb (up_next c)
        })"

definition udp_register :: "u32 \<Rightarrow> 'a udp_world_scheme \<Rightarrow> 'a udp_world_scheme option" where
  "udp_register pcb s = do {
     l \<leftarrow> udp_listed (upcbs s) pcb (udp_pcbs s);
     if l then Some s
     else do {
       s \<leftarrow> upd_upcb pcb (\<lambda>c. c\<lparr>up_next := udp_pcbs s\<rparr>) s;
       Some (s\<lparr>udp_pcbs := Some pcb\<rparr>)
     }
   }"

definition udp_bind :: "u32 \<Rightarrow> u32 option \<Rightarrow> u16 \<Rightarrow> 'a udp_world_scheme \<Rightarrow> (err_t \<times> 'a udp_world_scheme) option" where
  "udp_bind pcb ipaddr port s = do {
     s \<leftarrow> upd_upcb pcb (\<lambda>c. c\<lparr>up_local_ip := (case ipaddr of None \<Rightarrow> 0 | Some a \<Rightarrow> a), up_local_port := port\<rparr>) s;
     s \<leftarrow> udp_register pcb s;
     Some (ERR_OK, s)
   }"

definition udp_connect :: "u32 \<Rightarrow> u32 option \<Rightarrow> u16 \<Rightarrow> 'a udp_world_scheme \<Rightarrow> (err_t \<times> 'a udp_world_scheme) option" where
  "udp_connect pcb ipaddr port s = do {
     s \<leftarrow> upd_upcb pcb (\<lambda>c. c\<lparr>up_remote_ip := (case ipaddr of None \<Rightarrow> 0 | Some a \<Rightarrow> a), up_remote_port := port\<rparr>) s;
     s \<leftarrow> udp_register pcb s;
     Some (ERR_OK, s)
   }"

definition udp_recv :: "u32 \<Rightarrow> nat option \<Rightarrow> u32 \<Rightarrow> 'a udp_world_scheme \<Rightarrow> 'a udp_world_scheme option" where
  "udp_recv pcb recv recv_arg s = upd_upcb pcb (\<lambda>c. c\<lparr>up_recv := recv, up_recv_arg := recv_arg\<rparr>) s"

text \<open>The loop of \<open>udp_remove\<close> runs to the end of the list, also after it has unlinked the control block.\<close>

partial_function (option) remove_loop :: "u32 \<Rightarrow> u32 option \<Rightarrow> 'a udp_world_scheme \<Rightarrow> 'a udp_world_scheme option" where
  "remove_loop pcb pcb2 s =
     (case pcb2 of
        None \<Rightarrow> Some s
      | Some p2 \<Rightarrow> do {
          c2 \<leftarrow> upcbs s p2;
          s \<leftarrow> (if up_next c2 = Some pcb then do {
                  c \<leftarrow> upcbs s pcb;
                  upd_upcb p2 (\<lambda>c2. c2\<lparr>up_next := up_next c\<rparr>) s
                }
                else Some s);
          c2 \<leftarrow> upcbs s p2;
          remove_loop pcb (up_next c2) s
        })"

definition udp_remove :: "u32 \<Rightarrow> 'a udp_world_scheme \<Rightarrow> 'a udp_world_scheme option" where
  "udp_remove pcb s = do {
     s \<leftarrow> (if udp_pcbs s = Some pcb then do {
             c \<leftarrow> upcbs s pcb;
             Some (s\<lparr>udp_pcbs := up_next c\<rparr>)
           }
           else remove_loop pcb (udp_pcbs s) s);
     let s = s\<lparr>upcbs := (upcbs s)(pcb := None)\<rparr>;
     Some (memp_free MEMP_UDP_PCB (Some pcb) s)
   }"

definition udp_zero :: udp_pcb where
  "udp_zero = \<lparr>up_next = None, up_local_ip = 0, up_remote_ip = 0, up_local_port = 0, up_remote_port = 0,
     up_flags = 0, up_chksum_len = 0, up_recv = None, up_recv_arg = 0\<rparr>"

definition udp_new :: "'a udp_world_scheme \<Rightarrow> u32 option \<times> 'a udp_world_scheme" where
  "udp_new s =
     (let (pcb, s) = memp_malloc MEMP_UDP_PCB s
      in case pcb of
           Some p \<Rightarrow> (Some p, s\<lparr>upcbs := (upcbs s)(p \<mapsto> udp_zero)\<rparr>)
         | None \<Rightarrow> (None, s))"

end
