(* ===== verification/Udp_List.thy ===== *)
theory Udp_List
  imports Udp Tcp_Machine
begin

text \<open>
  The list of UDP control blocks: no operation on a control block that the application holds faults,
  the list stays a list of live control blocks without repetition, and the pool that they come from
  stays consistent with them.
\<close>

definition up_nx :: "'a udp_world_scheme \<Rightarrow> u32 \<Rightarrow> u32 option option" where
  "up_nx s p = map_option up_next (upcbs s p)"

definition udp_ok :: "'a udp_world_scheme \<Rightarrow> u32 list \<Rightarrow> (memp_t \<times> u32) set \<Rightarrow> bool" where
  "udp_ok s us A \<longleftrightarrow> chain (up_nx s) (udp_pcbs s) us \<and> memp_holds s A \<and> {p. (MEMP_UDP_PCB, p) \<in> A} = dom (upcbs s)"

lemma up_nx_upd [simp]:
  "up_nx (s\<lparr>upcbs := (upcbs s)(p \<mapsto> c)\<rparr>) = (up_nx s)(p := Some (up_next c))"
  "up_nx (s\<lparr>upcbs := (upcbs s)(p := None)\<rparr>) = (up_nx s)(p := None)"
  "up_nx (s\<lparr>udp_pcbs := q\<rparr>) = up_nx s"
  by (auto simp: up_nx_def)

lemma chain_udp_Cons:
  "chain (up_nx s) h (u # us) \<longleftrightarrow> h = Some u \<and> (\<exists>c. upcbs s u = Some c \<and> chain (up_nx s) (up_next c) us)"
  by (cases "upcbs s u") (auto simp: up_nx_def [of s u])

text \<open>The pool is part of the world below the control blocks.\<close>

lemma memp_holds_udp [simp]: "memp_holds (s\<lparr>upcbs := cs\<rparr>) A = memp_holds s A" "memp_holds (s\<lparr>udp_pcbs := q\<rparr>) A = memp_holds s A"
  by (simp_all add: memp_holds_def memp_ok_def pool_ok_def memp_nx_def)

lemma chain_in_dom: "udp_ok s us A \<Longrightarrow> set us \<subseteq> dom (upcbs s)"
  using chain_alloc by (fastforce simp: udp_ok_def up_nx_def)

lemma udp_listed_iff: "chain (up_nx s) h us \<Longrightarrow> udp_listed (upcbs s) p h = Some (p \<in> set us)"
proof (induction us arbitrary: h)
  case Nil
  then show ?case by (subst udp_listed.simps) simp
next
  case (Cons u us)
  then obtain c where "h = Some u" "upcbs s u = Some c" "chain (up_nx s) (up_next c) us"
    by (auto simp: chain_udp_Cons simp del: chain.simps(2))
  with Cons.IH show ?case by (subst udp_listed.simps) simp
qed

lemma udp_find_find:
  "chain (up_nx s) h us \<Longrightarrow> udp_find P (upcbs s) h = Some (List.find (\<lambda>u. P (the (upcbs s u))) us)"
proof (induction us arbitrary: h)
  case Nil
  then show ?case by (subst udp_find.simps) simp
next
  case (Cons u us)
  then obtain c where "h = Some u" "upcbs s u = Some c" "chain (up_nx s) (up_next c) us"
    by (auto simp: chain_udp_Cons simp del: chain.simps(2))
  with Cons.IH show ?case by (subst udp_find.simps) simp
qed

text \<open>Changing the other fields of a control block.\<close>

lemma udp_ok_upd:
  assumes "udp_ok s us A" "upcbs s p = Some c" "up_next (f c) = up_next c"
  shows "upd_upcb p f s = Some (s\<lparr>upcbs := (upcbs s)(p \<mapsto> f c)\<rparr>) \<and> udp_ok (s\<lparr>upcbs := (upcbs s)(p \<mapsto> f c)\<rparr>) us A"
proof -
  have "up_nx (s\<lparr>upcbs := (upcbs s)(p \<mapsto> f c)\<rparr>) = up_nx s"
    using assms(2,3) by (auto simp: up_nx_def)
  then show ?thesis using assms by (auto simp: udp_ok_def upd_upcb_def)
qed

lemma udp_register_ok:
  assumes "udp_ok s us A" "upcbs s p = Some c"
  shows "\<exists>s'. udp_register p s = Some s' \<and> udp_ok s' (if p \<in> set us then us else p # us) A \<and>
    (\<exists>n. upcbs s' = (upcbs s)(p \<mapsto> c\<lparr>up_next := n\<rparr>))"
proof (cases "p \<in> set us")
  case True
  with assms udp_listed_iff [of s "udp_pcbs s" us p] show ?thesis
    by (auto simp: udp_register_def udp_ok_def intro!: exI [of _ "up_next c"])
next
  case False
  with assms udp_listed_iff [of s "udp_pcbs s" us p] show ?thesis
    by (auto simp: udp_register_def udp_ok_def upd_upcb_def)
qed

lemma udp_set_register:
  assumes "udp_ok s us A" "upcbs s p = Some c" "up_next (f c) = up_next c"
  shows "\<exists>s' n. do { s \<leftarrow> upd_upcb p f s; s \<leftarrow> udp_register p s; Some (ERR_OK, s) } = Some (ERR_OK, s') \<and> udp_ok s' (if p \<in> set us then us else p # us) A \<and>
    upcbs s' = (upcbs s)(p \<mapsto> (f c)\<lparr>up_next := n\<rparr>)"
  using udp_ok_upd [of s us A p c f, OF assms] udp_register_ok [of "s\<lparr>upcbs := (upcbs s)(p \<mapsto> f c)\<rparr>" us A p "f c"]
  by auto

text \<open>The rest of the list after the removed control block is walked without a change.\<close>

lemma remove_loop_end:
  assumes "chain (up_nx s) h us" "p \<notin> set us"
  shows "remove_loop p h s = Some s"
  using assms
proof (induction us arbitrary: h)
  case Nil
  then show ?case by (subst remove_loop.simps) simp
next
  case (Cons u us)
  then obtain c where c: "h = Some u" "upcbs s u = Some c" "chain (up_nx s) (up_next c) us"
    by (auto simp: chain_udp_Cons simp del: chain.simps(2))
  moreover have "up_next c \<noteq> Some p" using c(3) Cons.prems(2) by (cases us) (auto simp: chain_udp_Cons simp del: chain.simps(2))
  ultimately show ?case using Cons by (subst remove_loop.simps) simp
qed

lemma remove_loop_unlinks:
  assumes "chain (up_nx s) h us" "h \<noteq> Some p" "upcbs s p = Some d"
  shows "\<exists>s'. remove_loop p h s = Some s' \<and> chain (up_nx s') h (removeAll p us) \<and> dom (upcbs s') = dom (upcbs s) \<and>
    udp_pcbs s' = udp_pcbs s \<and> (\<forall>A. memp_holds s' A = memp_holds s A) \<and> (\<forall>q. q \<notin> set us \<longrightarrow> upcbs s' q = upcbs s q)"
  using assms
proof (induction us arbitrary: h)
  case Nil
  then show ?case by (subst remove_loop.simps) simp
next
  case (Cons u us)
  then obtain c where c: "h = Some u" "upcbs s u = Some c" "chain (up_nx s) (up_next c) us" "u \<noteq> p"
    by (auto simp: chain_udp_Cons simp del: chain.simps(2))
  have dist: "distinct (u # us)" using chain_distinct [OF Cons.prems(1)] .
  show ?case
  proof (cases "up_next c = Some p")
    case False
    with Cons.IH [OF c(3) False Cons.prems(3)] c dist obtain s' where
      s': "remove_loop p (up_next c) s = Some s'" "chain (up_nx s') (up_next c) (removeAll p us)" "dom (upcbs s') = dom (upcbs s)"
        "udp_pcbs s' = udp_pcbs s" "\<forall>A. memp_holds s' A = memp_holds s A" "\<forall>q. q \<notin> set us \<longrightarrow> upcbs s' q = upcbs s q"
      by blast
    moreover have "upcbs s' u = Some c" using s'(6) c(2) dist by simp
    ultimately show ?thesis using c False by (subst remove_loop.simps) (auto simp: chain_udp_Cons simp del: chain.simps(2))
  next
    case True
    then obtain vs where us: "us = p # vs" "chain (up_nx s) (up_next d) vs"
      using c(3) Cons.prems(3) by (cases us) (auto simp: chain_udp_Cons simp del: chain.simps(2))
    let ?s = "s\<lparr>upcbs := (upcbs s)(u \<mapsto> c\<lparr>up_next := up_next d\<rparr>)\<rparr>"
    have ch: "chain (up_nx ?s) (up_next d) vs" using us dist by simp
    then have "remove_loop p (up_next d) ?s = Some ?s" using us dist by (intro remove_loop_end) auto
    then have "remove_loop p h s = Some ?s"
      using c True Cons.prems(3) by (subst remove_loop.simps) (simp add: upd_upcb_def)
    with ch us c dist show ?thesis by (auto simp: removeAll_id)
  qed
qed

lemma udp_remove_ok:
  assumes ok: "udp_ok s us A" and p: "upcbs s p = Some c"
  shows "\<exists>s'. udp_remove p s = Some s' \<and> udp_ok s' (removeAll p us) (A - {(MEMP_UDP_PCB, p)})"
proof -
  have ch: "chain (up_nx s) (udp_pcbs s) us" and A: "memp_holds s A" "{p. (MEMP_UDP_PCB, p) \<in> A} = dom (upcbs s)"
    using ok by (auto simp: udp_ok_def)
  obtain s1 where s1: "(if udp_pcbs s = Some p then do { c \<leftarrow> upcbs s p; Some (s\<lparr>udp_pcbs := up_next c\<rparr>) }
      else remove_loop p (udp_pcbs s) s) = Some s1" "chain (up_nx s1) (udp_pcbs s1) (removeAll p us)"
      "dom (upcbs s1) = dom (upcbs s)" "memp_holds s1 A"
  proof (cases "udp_pcbs s = Some p")
    case True
    then obtain vs where "us = p # vs" "chain (up_nx s) (up_next c) vs" using ch p by (cases us) (auto simp: chain_udp_Cons simp del: chain.simps(2))
    moreover have "p \<notin> set vs" using chain_distinct [OF ch] calculation(1) by simp
    ultimately show ?thesis using True p A that by (simp add: removeAll_id)
  next
    case False
    from remove_loop_unlinks [OF ch False p] A(1) False show ?thesis by (auto intro: that)
  qed
  let ?s2 = "s1\<lparr>upcbs := (upcbs s1)(p := None)\<rparr>"
  have "(MEMP_UDP_PCB, p) \<in> A" using A(2) p by blast
  then have "memp_holds (memp_free MEMP_UDP_PCB (Some p) ?s2) (A - {(MEMP_UDP_PCB, p)})"
    using memp.free_ok [of ?s2 A "(MEMP_UDP_PCB, p)"] s1(4) by simp
  moreover have "up_nx (memp_free MEMP_UDP_PCB (Some p) ?s2) = up_nx ?s2" "udp_pcbs (memp_free MEMP_UDP_PCB (Some p) ?s2) = udp_pcbs ?s2"
      "upcbs (memp_free MEMP_UDP_PCB (Some p) ?s2) = upcbs ?s2"
    by (simp_all add: memp_free_def memp_stat_upd_def up_nx_def fun_eq_iff Let_def)
  ultimately have "udp_ok (memp_free MEMP_UDP_PCB (Some p) ?s2) (removeAll p us) (A - {(MEMP_UDP_PCB, p)})"
    using s1(2,3) A(2) by (auto simp: udp_ok_def)
  then show ?thesis using s1(1) by (auto simp: udp_remove_def Let_def)
qed

lemma udp_new_ok:
  assumes "udp_ok s us A"
  shows "\<exists>r s'. udp_new s = (r, s') \<and> (case r of None \<Rightarrow> udp_ok s' us A
    | Some p \<Rightarrow> upcbs s p = None \<and> upcbs s' = (upcbs s)(p \<mapsto> udp_zero) \<and> udp_ok s' us (insert (MEMP_UDP_PCB, p) A))"
proof -
  obtain r s1 where m: "memp_malloc MEMP_UDP_PCB s = (r, s1)" by fastforce
  have keep: "upcbs s1 = upcbs s" "udp_pcbs s1 = udp_pcbs s" "up_nx s1 = up_nx s"
    using m by (auto simp: memp_malloc_def memp_stat_upd_def up_nx_def fun_eq_iff Let_def split: option.splits)
  have A: "case r of None \<Rightarrow> memp_holds s1 A | Some p \<Rightarrow> (MEMP_UDP_PCB, p) \<notin> A \<and> memp_holds s1 (insert (MEMP_UDP_PCB, p) A)"
    using memp.alloc_ok [of s A MEMP_UDP_PCB] assms m by (auto simp: udp_ok_def split: option.splits)
  show ?thesis
  proof (cases r)
    case None
    with m A keep assms show ?thesis by (auto simp: udp_new_def udp_ok_def)
  next
    case (Some p)
    then have "upcbs s p = None" using A assms by (auto simp: udp_ok_def)
    moreover have "p \<notin> set us" using calculation chain_in_dom [OF assms] by auto
    moreover have "up_nx (s1\<lparr>upcbs := (upcbs s)(p \<mapsto> udp_zero)\<rparr>) = (up_nx s)(p := Some (up_next udp_zero))"
      using up_nx_upd(1) [of s1 p udp_zero] keep by simp
    ultimately show ?thesis using m A keep assms Some by (auto simp: udp_new_def udp_ok_def)
  qed
qed

text \<open>
  C29: the operations on the control blocks of UDP. On a world whose list of control blocks is \<open>us\<close> and
  whose pool has handed out exactly the live control blocks, creating one never hands out one that is
  live; binding, connecting and setting the receive function return and set their fields; the first two
  put the control block at the front of the list unless it is on it; removal unlinks it and gives it
  back to the pool. Each keeps the invariant.
\<close>

theorem udp_operations_keep_list:
  assumes "udp_ok s us A"
  shows "(\<exists>r s'. udp_new s = (r, s') \<and> (case r of None \<Rightarrow> udp_ok s' us A
      | Some p \<Rightarrow> upcbs s p = None \<and> upcbs s' = (upcbs s)(p \<mapsto> udp_zero) \<and> udp_ok s' us (insert (MEMP_UDP_PCB, p) A))) \<and>
    (\<forall>p c. upcbs s p = Some c \<longrightarrow>
      (\<forall>a port. \<exists>s' n. udp_bind p a port s = Some (ERR_OK, s') \<and> udp_ok s' (if p \<in> set us then us else p # us) A \<and>
        upcbs s' = (upcbs s)(p \<mapsto> c\<lparr>up_local_ip := (case a of None \<Rightarrow> 0 | Some a \<Rightarrow> a), up_local_port := port, up_next := n\<rparr>)) \<and>
      (\<forall>a port. \<exists>s' n. udp_connect p a port s = Some (ERR_OK, s') \<and> udp_ok s' (if p \<in> set us then us else p # us) A \<and>
        upcbs s' = (upcbs s)(p \<mapsto> c\<lparr>up_remote_ip := (case a of None \<Rightarrow> 0 | Some a \<Rightarrow> a), up_remote_port := port, up_next := n\<rparr>)) \<and>
      (\<forall>f arg. \<exists>s'. udp_recv p f arg s = Some s' \<and> udp_ok s' us A \<and>
        upcbs s' = (upcbs s)(p \<mapsto> c\<lparr>up_recv := f, up_recv_arg := arg\<rparr>)) \<and>
      (\<exists>s'. udp_remove p s = Some s' \<and> udp_ok s' (removeAll p us) (A - {(MEMP_UDP_PCB, p)})))"
proof -
  have "\<exists>s' n. udp_bind p a port s = Some (ERR_OK, s') \<and> udp_ok s' (if p \<in> set us then us else p # us) A \<and>
      upcbs s' = (upcbs s)(p \<mapsto> c\<lparr>up_local_ip := (case a of None \<Rightarrow> 0 | Some a \<Rightarrow> a), up_local_port := port, up_next := n\<rparr>)"
    if "upcbs s p = Some c" for p c a port
    using udp_set_register [OF assms that, of "\<lambda>c. c\<lparr>up_local_ip := (case a of None \<Rightarrow> 0 | Some a \<Rightarrow> a), up_local_port := port\<rparr>"]
    by (auto simp: udp_bind_def)
  moreover have "\<exists>s' n. udp_connect p a port s = Some (ERR_OK, s') \<and> udp_ok s' (if p \<in> set us then us else p # us) A \<and>
      upcbs s' = (upcbs s)(p \<mapsto> c\<lparr>up_remote_ip := (case a of None \<Rightarrow> 0 | Some a \<Rightarrow> a), up_remote_port := port, up_next := n\<rparr>)"
    if "upcbs s p = Some c" for p c a port
    using udp_set_register [OF assms that, of "\<lambda>c. c\<lparr>up_remote_ip := (case a of None \<Rightarrow> 0 | Some a \<Rightarrow> a), up_remote_port := port\<rparr>"]
    by (auto simp: udp_connect_def)
  moreover have "\<exists>s'. udp_recv p f arg s = Some s' \<and> udp_ok s' us A \<and> upcbs s' = (upcbs s)(p \<mapsto> c\<lparr>up_recv := f, up_recv_arg := arg\<rparr>)"
    if "upcbs s p = Some c" for p c f arg
    using udp_ok_upd [OF assms that, of "\<lambda>c. c\<lparr>up_recv := f, up_recv_arg := arg\<rparr>"] by (simp add: udp_recv_def)
  ultimately show ?thesis using udp_new_ok [OF assms] udp_remove_ok [OF assms] by blast
qed

definition udp_start :: udp_world where
  "udp_start = memp_init (\<lambda>t. 16) 0x8000 (icmp_world.extend (tcp_world.extend tcp_zero (icmp_world.fields (tcp_stats tcp_zero)))
     (udp_world.fields Map.empty None (tcp_stats tcp_zero)))"

lemma udp_start_ok: "udp_ok udp_start [] {}"
proof -
  have "memp_holds udp_start {}"
    unfolding udp_start_def memp_holds_def by (rule memp_init_ok) (simp_all add: aligned_def)
  moreover have "upcbs (memp_init_loop z ts m s) = upcbs s \<and> udp_pcbs (memp_init_loop z ts m s) = udp_pcbs s"
    for z ts m and s :: udp_world
    by (induction z ts m s rule: memp_init_loop.induct) (auto simp: Let_def split: prod.splits)
  ultimately show ?thesis
    by (simp add: udp_ok_def udp_start_def memp_init_def icmp_world.defs udp_world.defs tcp_world.defs)
qed

theorem udp_operations_keep_list_witness:
  "\<exists>r s'. udp_new udp_start = (r, s') \<and> (case r of None \<Rightarrow> udp_ok s' [] {} | Some p \<Rightarrow> udp_ok s' [] {(MEMP_UDP_PCB, p)} \<and>
     (\<exists>s''. udp_bind p None 53 s' = Some (ERR_OK, s'') \<and> udp_ok s'' [p] {(MEMP_UDP_PCB, p)}))"
proof -
  from udp_operations_keep_list [OF udp_start_ok] obtain r s' where "udp_new udp_start = (r, s')"
      "case r of None \<Rightarrow> udp_ok s' [] {} | Some p \<Rightarrow> upcbs s' p = Some udp_zero \<and> udp_ok s' [] {(MEMP_UDP_PCB, p)}"
    by (auto split: option.splits)
  with udp_operations_keep_list [of s' "[]"] show ?thesis
    by (intro exI [of _ r] exI [of _ s']) (fastforce split: option.splits)
qed

end
