(* ===== verification/Udp_Wire.thy ===== *)
theory Udp_Wire
  imports Udp_List
begin

text \<open>
  What \<open>udp_send\<close> puts on the wire and what \<open>udp_input\<close> makes of it: a datagram has the header of RFC
  768 with a checksum that the receiver accepts, a UDP Lite datagram one that it rejects; a received
  datagram is handed to the first control block that matches it exactly, or else the first that matches
  it but for the remote port.
\<close>

subsection \<open>The header of a datagram\<close>

definition udp_header :: "u16 \<Rightarrow> u16 \<Rightarrow> u16 \<Rightarrow> u16 \<Rightarrow> u8 list" where
  "udp_header src dest len k = u16_bytes (htons src) @ u16_bytes (htons dest) @ u16_bytes (htons len) @ u16_bytes k"

lemma length_udp_header [simp]: "length (udp_header src dest len k) = 8"
  by (simp add: udp_header_def)

definition udp_stores :: "u32 \<Rightarrow> u16 \<Rightarrow> u16 \<Rightarrow> u16 \<Rightarrow> bytes \<Rightarrow> bytes" where
  "udp_stores h src dest len m = st16 (uh_len h) (htons len) (st16 (uh_chksum h) 0 (st16 (uh_dest h) (htons dest) (st16 (uh_src h) (htons src) m)))"

lemma ld_bytes_8: "ld_bytes 8 h m = [m h, m (h + 1), m (h + 2), m (h + 3), m (h + 4), m (h + 5), m (h + 6), m (h + 7)]"
  by (simp add: ld_bytes_def upt_rec)

lemma apart_front: "n \<le> 65535 \<Longrightarrow> apart h 8 (h + 8) n"
proof -
  have "unat (h - (h + 8) :: u32) = 4294967288" by simp
  then show "n \<le> 65535 \<Longrightarrow> ?thesis" by (simp add: apart_def)
qed

lemma st16_front_other: "n \<le> 65535 \<Longrightarrow> i + 2 \<le> 8 \<Longrightarrow> ld_bytes n (h + 8) (st16 (h + of_nat i) v m) = ld_bytes n (h + 8) m"
  by (rule ld_bytes_st16_other [OF apart_front])

lemma udp_stores_bytes:
  assumes "n \<le> 65535"
  shows "ld_bytes (8 + n) h (udp_stores h src dest len m) = udp_header src dest len 0 @ ld_bytes n (h + 8) m"
    and "ld_bytes (8 + n) h (st16 (uh_chksum h) k (udp_stores h src dest len m)) = udp_header src dest len k @ ld_bytes n (h + 8) m"
proof -
  note other = st16_front_other [OF assms, of 0] st16_front_other [OF assms, of 2] st16_front_other [OF assms, of 4]
    st16_front_other [OF assms, of 6]
  have rest: "ld_bytes n (h + 8) (udp_stores h src dest len m) = ld_bytes n (h + 8) m"
      "ld_bytes n (h + 8) (st16 (uh_chksum h) k (udp_stores h src dest len m)) = ld_bytes n (h + 8) m"
    using other by (simp_all add: udp_stores_def)
  have "ld_bytes 8 h (udp_stores h src dest len m) = udp_header src dest len 0"
      "ld_bytes 8 h (st16 (uh_chksum h) k (udp_stores h src dest len m)) = udp_header src dest len k"
    by (simp_all add: ld_bytes_8 udp_stores_def st16_def udp_header_def u16_bytes_def)
  with rest show "ld_bytes (8 + n) h (udp_stores h src dest len m) = udp_header src dest len 0 @ ld_bytes n (h + 8) m"
      "ld_bytes (8 + n) h (st16 (uh_chksum h) k (udp_stores h src dest len m)) = udp_header src dest len k @ ld_bytes n (h + 8) m"
    by (simp_all add: ld_bytes_append)
qed

lemma pbuf_bytes_stores:
  assumes "pbuf_apart h 8 pbs q"
  shows "pbuf_bytes pbs (udp_stores h src dest len m) q = pbuf_bytes pbs m q"
    and "pbuf_bytes pbs (st16 (uh_chksum h) k (udp_stores h src dest len m)) q = pbuf_bytes pbs m q"
  using pbuf_bytes_st16 [OF assms, of 0] pbuf_bytes_st16 [OF assms, of 2] pbuf_bytes_st16 [OF assms, of 4] pbuf_bytes_st16 [OF assms, of 6]
  by (simp_all add: udp_stores_def)

subsection \<open>Sending\<close>

text \<open>
  A datagram ready to be sent: the data \<open>d\<close> is in a chain of pbufs, the first of which has room for the
  header, and the pbufs do not overlap the place of the header.
\<close>

definition sendable_data :: "'a udp_world_scheme \<Rightarrow> u32 \<Rightarrow> u8 list \<Rightarrow> bool" where
  "sendable_data s p d \<longleftrightarrow> (\<exists>b ps. pbufs s p = Some b \<and> chain (pb_nx (pbufs s)) (Some p) (p # ps) \<and>
     \<not> pb_payload b - 8 < p + SIZEOF_STRUCT_PBUF \<and> d = concat (map (pbuf_bytes (pbufs s) (mem8 s)) (p # ps)) \<and>
     length d = unat (pb_tot_len b) \<and> length d + 20 \<le> 65535 \<and> (\<forall>q\<in>set ps. pbuf_apart (pb_payload b - 8) 8 (pbufs s) q))"

text \<open>The checksum that the code stores: 0 for none, and all ones in place of 0.\<close>

definition udp_field :: "u32 \<Rightarrow> u32 \<Rightarrow> u8 \<Rightarrow> u16 \<Rightarrow> u8 list list \<Rightarrow> u16" where
  "udp_field src dest proto len bss = (let k = inet_chksum_pseudo bss src dest proto len in if k = 0 then 0xffff else k)"

lemma udp_header_verifies:
  assumes "length d + 20 \<le> 65535" "k = udp_field ip1 ip2 17 clen ((udp_header src dest len 0 @ d1) # ds)" "d = d1 @ concat ds"
  shows "inet_chksum_pseudo [udp_header src dest len k @ d] ip1 ip2 17 clen = 0 \<and> k \<noteq> 0"
proof -
  let ?pre = "u16_bytes (htons src) @ u16_bytes (htons dest) @ u16_bytes (htons len)"
  have h: "udp_header src dest len v = ?pre @ u16_bytes v" for v by (simp add: udp_header_def)
  have z: "u16_bytes 0 = [0, 0]" by (simp add: u16_bytes_def)
  have "inet_chksum_pseudo ((?pre @ u16_bytes k @ d1) # ds) ip1 ip2 17 clen = 0"
    using assms by (intro pseudo_field_verifies [OF _ _ refl]) (auto simp: h z udp_field_def Let_def)
  then show ?thesis
    using pseudo_concat [of "(?pre @ u16_bytes k @ d1) # ds" ip1 ip2 17 clen] assms
    by (auto simp: h udp_field_def Let_def)
qed

lemma other_proto_fails:
  assumes "length x + 12 \<le> 65535" "inet_chksum_pseudo [x] src dest 17 len = 0"
  shows "inet_chksum_pseudo [x] src dest 170 len \<noteq> 0"
proof -
  have c: "inet_chksum_pseudo [x] src dest pr len = inet_chksum (pseudo_header src dest pr len @ x)" for pr
    using assms(1) by (simp add: pseudo_contiguous)
  have l: "length (pseudo_header src dest pr len @ x) \<le> 65535" for pr
    using assms(1) by (simp add: length_pseudo_header)
  have e: "even (length (u32_bytes src @ u32_bytes dest))" by (simp add: u32_bytes_def)
  have "word_sum (pseudo_header src dest pr len @ x) =
      word_sum (u32_bytes src @ u32_bytes dest) + (256 * unat pr + word_sum (u16_bytes (htons len) @ x))" for pr
    using word_sum_append_even [OF e, of "[0, pr] @ u16_bytes (htons len) @ x"] by (simp add: pseudo_header_def)
  from this [of 17] this [of 170]
  have w: "word_sum (pseudo_header src dest 170 len @ x) = word_sum (pseudo_header src dest 17 len @ x) + 39168" by simp
  have "oc_norm (word_sum (pseudo_header src dest 17 len @ x)) = 65535"
    using assms(2) c [of 17] verifies_iff [OF l] by simp
  then have "word_sum (pseudo_header src dest 17 len @ x) mod 65535 = 0"
    using oc_norm_mod [of "word_sum (pseudo_header src dest 17 len @ x)"] by simp
  then have "word_sum (pseudo_header src dest 170 len @ x) mod 65535 = 39168"
    unfolding w by (subst mod_add_left_eq [symmetric]) simp
  then have "oc_norm (word_sum (pseudo_header src dest 170 len @ x)) \<noteq> 65535"
    using oc_norm_mod [of "word_sum (pseudo_header src dest 170 len @ x)"] by auto
  then show ?thesis using c [of 170] verifies_iff [OF l] by simp
qed

lemma scast_8 [simp]: "scast (8 :: u16) = (8 :: u32)" "scast (- 8 :: u16) = (- 8 :: u32)"
  by simp_all

lemma udp_emit_sends:
  assumes p: "pbufs s p = Some b" "chain (pb_nx (pbufs s)) (Some p) (p # ps)" "unat (pb_len b) = 8 + n" "unat (pb_tot_len b) = 8 + length d"
    and d: "d = ld_bytes n (pb_payload b + 8) (mem8 s) @ concat ds" "ds = map (pbuf_bytes (pbufs s) (mem8 s)) ps" "length d + 20 \<le> 65535"
    and ap: "\<forall>q\<in>set ps. pbuf_apart (pb_payload b) 8 (pbufs s) q"
  shows "\<exists>s' x k len. udp_emit c p s = Some (ERR_OK, s') \<and> ip_out s' = ip_out s @ [x] \<and>
    ip_src x = up_local_ip c \<and> ip_dest x = up_remote_ip c \<and> ip_payload x = udp_header (up_local_port c) (up_remote_port c) len k @ d \<and>
    (if and (up_flags c) UDP_FLAGS_UDPLITE \<noteq> 0
     then ip_proto x = IP_PROTO_UDPLITE \<and> len = up_chksum_len c \<and> k = udp_field (up_local_ip c) (up_remote_ip c) IP_PROTO_UDP len
       ((udp_header (up_local_port c) (up_remote_port c) len 0 @ ld_bytes n (pb_payload b + 8) (mem8 s)) # ds)
     else ip_proto x = IP_PROTO_UDP \<and> len = pb_tot_len b \<and> k = (if and (up_flags c) UDP_FLAGS_NOCHKSUM = 0
       then udp_field (up_local_ip c) (up_remote_ip c) IP_PROTO_UDP len
         ((udp_header (up_local_port c) (up_remote_port c) len 0 @ ld_bytes n (pb_payload b + 8) (mem8 s)) # ds) else 0))"
proof -
  let ?h = "pb_payload b" and ?l = "up_local_port c" and ?r = "up_remote_port c"
  let ?len = "if and (up_flags c) UDP_FLAGS_UDPLITE \<noteq> 0 then up_chksum_len c else pb_tot_len b"
  let ?m = "udp_stores ?h ?l ?r ?len (mem8 s)" and ?d1 = "ld_bytes n (?h + 8) (mem8 s)"
  have n: "n \<le> 65535" using d by simp
  have bytes: "chain_bytes (pbufs s) m (Some p) = Some (pbuf_bytes (pbufs s) m p # map (pbuf_bytes (pbufs s) m) ps)" for m
    using chain_bytes_chain [OF p(2), of m] by simp
  have ds: "map (pbuf_bytes (pbufs s) ?m) ps = ds" "map (pbuf_bytes (pbufs s) (st16 (uh_chksum ?h) k ?m)) ps = ds" for k
    using ap by (auto simp: d(2) pbuf_bytes_stores)
  have first: "pbuf_bytes (pbufs s) ?m p = udp_header ?l ?r ?len 0 @ ?d1"
      "pbuf_bytes (pbufs s) (st16 (uh_chksum ?h) k ?m) p = udp_header ?l ?r ?len k @ ?d1" for k
    using p(1,3) udp_stores_bytes [OF n] by (simp_all add: pbuf_bytes_def)
  have "length (udp_header ?l ?r ?len k) = 8" for k by (simp add: udp_header_def)
  then have fits: "\<not> unat (pb_tot_len b) < length (udp_header ?l ?r ?len k @ ?d1 @ concat ds)" for k
    using p(4) d(1) by simp
  have m: "upd_mem (st16 (uh_len ?h) (htons ?len)) (upd_mem (st16 (uh_chksum ?h) 0) (upd_mem (st16 (uh_dest ?h) (htons ?r))
      (upd_mem (st16 (uh_src ?h) (htons ?l)) s))) = s\<lparr>mem8 := ?m\<rparr>"
    by (simp add: upd_mem_def udp_stores_def)
  have k: "chksum_pseudo p ip1 ip2 pr len (s\<lparr>mem8 := ?m\<rparr>) = Some (inet_chksum_pseudo ((udp_header ?l ?r ?len 0 @ ?d1) # ds) ip1 ip2 pr len)"
    for ip1 ip2 pr len using ds first by (simp add: chksum_pseudo_def bytes)
  have out: "\<exists>s'. sr_lwip_output p ip1 ip2 pr (s\<lparr>mem8 := ?m\<rparr>) = Some (ERR_OK, s') \<and>
      ip_out s' = ip_out s @ [\<lparr>ip_proto = pr, ip_src = ip1, ip_dest = ip2, ip_payload = udp_header ?l ?r ?len 0 @ d\<rparr>]"
    for ip1 ip2 pr using ds first fits p(1) d(1) by (simp add: sr_lwip_output_def bytes sr_integ_ip_output_def)
  have outk: "\<exists>s'. sr_lwip_output p ip1 ip2 pr (upd_mem (st16 (uh_chksum ?h) k) (s\<lparr>mem8 := ?m\<rparr>)) = Some (ERR_OK, s') \<and>
      ip_out s' = ip_out s @ [\<lparr>ip_proto = pr, ip_src = ip1, ip_dest = ip2, ip_payload = udp_header ?l ?r ?len k @ d\<rparr>]"
    for ip1 ip2 pr k using ds first fits p(1) d(1) by (simp add: sr_lwip_output_def bytes sr_integ_ip_output_def upd_mem_def)
  let ?lite = "and (up_flags c) UDP_FLAGS_UDPLITE \<noteq> 0" and ?none = "and (up_flags c) UDP_FLAGS_NOCHKSUM \<noteq> 0"
  let ?f = "udp_field (up_local_ip c) (up_remote_ip c) IP_PROTO_UDP ?len ((udp_header ?l ?r ?len 0 @ ?d1) # ds)"
  let ?k = "if \<not> ?lite \<and> ?none then 0 else ?f" and ?pr = "if ?lite then IP_PROTO_UDPLITE else IP_PROTO_UDP"
  let ?x = "\<lparr>ip_proto = ?pr, ip_src = up_local_ip c, ip_dest = up_remote_ip c, ip_payload = udp_header ?l ?r ?len ?k @ d\<rparr>"
  have "\<exists>s'. udp_emit c p s = Some (ERR_OK, stat_udp (\<lambda>st. st\<lparr>ts_xmit := ts_xmit st + 1\<rparr>) s') \<and> ip_out s' = ip_out s @ [?x]"
  proof (cases "\<not> ?lite \<and> ?none")
    case True
    with out [of "up_local_ip c" "up_remote_ip c" IP_PROTO_UDP] m show ?thesis
      by (auto simp: udp_emit_def p(1) Let_def)
  next
    case False
    with outk [of "up_local_ip c" "up_remote_ip c" ?pr ?f] m k [of "up_local_ip c" "up_remote_ip c" IP_PROTO_UDP ?len] show ?thesis
      by (auto simp: udp_emit_def p(1) Let_def udp_field_def)
  qed
  then obtain s' where "udp_emit c p s = Some (ERR_OK, stat_udp (\<lambda>st. st\<lparr>ts_xmit := ts_xmit st + 1\<rparr>) s')" "ip_out s' = ip_out s @ [?x]"
    by blast
  then show ?thesis
    by (intro exI [of _ "stat_udp (\<lambda>st. st\<lparr>ts_xmit := ts_xmit st + 1\<rparr>) s'"] exI [of _ ?x] exI [of _ ?k] exI [of _ ?len])
      (simp add: stat_udp_def)
qed

text \<open>Making room for the header.\<close>

lemma pbuf_header_front:
  assumes "pbufs s p = Some b" "chain (pb_nx (pbufs s)) (Some p) (p # ps)" "\<not> pb_payload b - 8 < p + SIZEOF_STRUCT_PBUF"
  shows "pbuf_header p UDP_HLEN s =
      Some (0, s\<lparr>pbufs := (pbufs s)(p \<mapsto> b\<lparr>pb_payload := pb_payload b - 8, pb_len := pb_len b + 8, pb_tot_len := pb_tot_len b + 8\<rparr>)\<rparr>)"
    and "chain (pb_nx ((pbufs s)(p \<mapsto> b\<lparr>pb_payload := pb_payload b - 8, pb_len := pb_len b + 8, pb_tot_len := pb_tot_len b + 8\<rparr>))) (Some p) (p # ps)"
proof -
  show "pbuf_header p UDP_HLEN s =
      Some (0, s\<lparr>pbufs := (pbufs s)(p \<mapsto> b\<lparr>pb_payload := pb_payload b - 8, pb_len := pb_len b + 8, pb_tot_len := pb_tot_len b + 8\<rparr>)\<rparr>)"
    using assms(1,3) by (simp add: pbuf_header_def upd_pbuf_def Let_def)
  have "pb_nx ((pbufs s)(p \<mapsto> b\<lparr>pb_payload := pb_payload b - 8, pb_len := pb_len b + 8, pb_tot_len := pb_tot_len b + 8\<rparr>)) = pb_nx (pbufs s)"
    using assms(1) by (auto simp: pb_nx_def)
  with assms(2) show "chain (pb_nx ((pbufs s)(p \<mapsto> b\<lparr>pb_payload := pb_payload b - 8, pb_len := pb_len b + 8, pb_tot_len := pb_tot_len b + 8\<rparr>))) (Some p) (p # ps)"
    by simp
qed

lemma udp_sent:
  assumes "sendable_data s p d" "upcbs s pcb = Some c"
  shows "\<exists>s' x k len. udp_send ram_addr pcb p s = Some (ERR_OK, s') \<and> ip_out s' = ip_out s @ [x] \<and>
    ip_src x = up_local_ip c \<and> ip_dest x = up_remote_ip c \<and> ip_payload x = udp_header (up_local_port c) (up_remote_port c) len k @ d \<and>
    (if and (up_flags c) UDP_FLAGS_UDPLITE \<noteq> 0
     then ip_proto x = IP_PROTO_UDPLITE \<and> inet_chksum_pseudo [ip_payload x] (ip_src x) (ip_dest x) IP_PROTO_UDPLITE len \<noteq> 0
     else ip_proto x = IP_PROTO_UDP \<and> unat len = 8 + length d \<and>
       (if and (up_flags c) UDP_FLAGS_NOCHKSUM \<noteq> 0 then k = 0
        else k \<noteq> 0 \<and> inet_chksum_pseudo [ip_payload x] (ip_src x) (ip_dest x) IP_PROTO_UDP len = 0))"
proof -
  from assms(1) obtain b ps where p: "pbufs s p = Some b" "chain (pb_nx (pbufs s)) (Some p) (p # ps)"
      "\<not> pb_payload b - 8 < p + SIZEOF_STRUCT_PBUF" and d: "d = concat (map (pbuf_bytes (pbufs s) (mem8 s)) (p # ps))"
      "length d = unat (pb_tot_len b)" "length d + 20 \<le> 65535" and ap: "\<forall>q\<in>set ps. pbuf_apart (pb_payload b - 8) 8 (pbufs s) q"
    by (auto simp: sendable_data_def)
  let ?b = "b\<lparr>pb_payload := pb_payload b - 8, pb_len := pb_len b + 8, pb_tot_len := pb_tot_len b + 8\<rparr>"
  let ?s = "s\<lparr>pbufs := (pbufs s)(p \<mapsto> ?b)\<rparr>" and ?n = "unat (pb_len b)"
  let ?ds = "map (pbuf_bytes (pbufs ?s) (mem8 ?s)) ps"
  note hdr = pbuf_header_front [OF p]
  have ne: "p \<notin> set ps" using chain_distinct [OF p(2)] by simp
  then have "?ds = map (pbuf_bytes (pbufs s) (mem8 s)) ps" by (auto simp: pbuf_bytes_def)
  moreover have "pbuf_bytes (pbufs s) (mem8 s) p = ld_bytes ?n (pb_payload ?b + 8) (mem8 ?s)"
    using p(1) by (simp add: pbuf_bytes_def)
  ultimately have d': "d = ld_bytes ?n (pb_payload ?b + 8) (mem8 ?s) @ concat ?ds"
    by (simp only: d(1) list.map concat.simps)
  then have n: "?n \<le> length d" by simp
  have u: "unat (pb_len ?b) = 8 + ?n" "unat (pb_tot_len ?b) = 8 + length d"
    using n d(2,3) by (simp_all add: unat_word_ariths)
  have ap': "\<forall>q\<in>set ps. pbuf_apart (pb_payload ?b) 8 (pbufs ?s) q" using ap ne by (auto simp: pbuf_apart_def)
  have "pbufs ?s p = Some ?b" "chain (pb_nx (pbufs ?s)) (Some p) (p # ps)" using hdr(2) by simp_all
  from udp_emit_sends [OF this u d' refl d(3) ap', of c] obtain s' x k len where
    out: "udp_emit c p ?s = Some (ERR_OK, s')" "ip_out s' = ip_out ?s @ [x]" "ip_src x = up_local_ip c" "ip_dest x = up_remote_ip c"
      "ip_payload x = udp_header (up_local_port c) (up_remote_port c) len k @ d"
    and f: "if and (up_flags c) UDP_FLAGS_UDPLITE \<noteq> 0
     then ip_proto x = IP_PROTO_UDPLITE \<and> len = up_chksum_len c \<and> k = udp_field (up_local_ip c) (up_remote_ip c) IP_PROTO_UDP len
       ((udp_header (up_local_port c) (up_remote_port c) len 0 @ ld_bytes ?n (pb_payload ?b + 8) (mem8 ?s)) # ?ds)
     else ip_proto x = IP_PROTO_UDP \<and> len = pb_tot_len ?b \<and> k = (if and (up_flags c) UDP_FLAGS_NOCHKSUM = 0
       then udp_field (up_local_ip c) (up_remote_ip c) IP_PROTO_UDP len
         ((udp_header (up_local_port c) (up_remote_port c) len 0 @ ld_bytes ?n (pb_payload ?b + 8) (mem8 ?s)) # ?ds) else 0)"
    by blast
  have send: "udp_send ram_addr pcb p s = Some (ERR_OK, s')"
    using hdr(1) out(1) assms(2) by (simp add: udp_send_def)
  have len: "length (ip_payload x) + 12 \<le> 65535" using out(5) d(3) by (simp add: udp_header_def)
  note v = udp_header_verifies [OF d(3) _ d', of k "up_local_ip c" "up_remote_ip c" len]
  show ?thesis
    using send out f v other_proto_fails [OF len, of "ip_src x" "ip_dest x" len] u(2)
    by (intro exI [of _ s'] exI [of _ x] exI [of _ k] exI [of _ len]) (auto split: if_splits)
qed

text \<open>
  \<open>udp_send\<close> of data in a chain of pbufs returns and hands one datagram to IP: the ports of the control
  block, the length and the checksum in front of the data. A UDP datagram carries a checksum that
  verifies at the receiver, unless the control block asks for none. A UDP Lite datagram never verifies:
  its checksum is computed for the protocol number of UDP and the receiver uses that of UDP Lite.
\<close>

theorem udp_send_verifies:
  assumes "sendable_data s p d" "upcbs s pcb = Some c"
  shows "\<exists>s' x k len. udp_send ram_addr pcb p s = Some (ERR_OK, s') \<and> ip_out s' = ip_out s @ [x] \<and>
    ip_src x = up_local_ip c \<and> ip_dest x = up_remote_ip c \<and> ip_payload x = udp_header (up_local_port c) (up_remote_port c) len k @ d \<and>
    (if and (up_flags c) UDP_FLAGS_UDPLITE \<noteq> 0
     then ip_proto x = IP_PROTO_UDPLITE \<and> inet_chksum_pseudo [ip_payload x] (ip_src x) (ip_dest x) IP_PROTO_UDPLITE len \<noteq> 0
     else ip_proto x = IP_PROTO_UDP \<and> unat len = 8 + length d \<and>
       (if and (up_flags c) UDP_FLAGS_NOCHKSUM \<noteq> 0 then k = 0
        else k \<noteq> 0 \<and> inet_chksum_pseudo [ip_payload x] (ip_src x) (ip_dest x) IP_PROTO_UDP len = 0))"
  using assms by (rule udp_sent)

text \<open>A datagram with one data byte, as UDP and as UDP Lite.\<close>

definition udp_example :: "u8 \<Rightarrow> udp_world" where
  "udp_example f = udp_start\<lparr>mem8 := (\<lambda>_. 0)(200 := 42),
     pbufs := [100 \<mapsto> \<lparr>pb_next = None, pb_flags = PBUF_FLAG_RAM, pb_ref = 1, pb_payload = 200, pb_tot_len = 1, pb_len = 1\<rparr>],
     upcbs := [64 \<mapsto> udp_zero\<lparr>up_local_ip := 1, up_remote_ip := 2, up_local_port := 53, up_remote_port := 54, up_flags := f\<rparr>]\<rparr>"

theorem udp_send_verifies_witness:
  "(\<exists>s' x k. udp_send 0 64 100 (udp_example 0) = Some (ERR_OK, s') \<and> ip_out s' = ip_out (udp_example 0) @ [x] \<and>
      ip_payload x = udp_header 53 54 9 k @ [42] \<and> inet_chksum_pseudo [ip_payload x] 1 2 IP_PROTO_UDP 9 = 0) \<and>
   (\<exists>s' x len. udp_send 0 64 100 (udp_example UDP_FLAGS_UDPLITE) = Some (ERR_OK, s') \<and>
      ip_out s' = ip_out (udp_example UDP_FLAGS_UDPLITE) @ [x] \<and> inet_chksum_pseudo [ip_payload x] 1 2 IP_PROTO_UDPLITE len \<noteq> 0)"
proof -
  have sd: "sendable_data (udp_example f) 100 [42]" for f
    by (auto simp: sendable_data_def udp_example_def pbuf_bytes_def ld_bytes_def pb_nx_def intro!: exI [of _ "[]"])
  have c: "upcbs (udp_example f) 64 = Some (udp_zero\<lparr>up_local_ip := 1, up_remote_ip := 2, up_local_port := 53, up_remote_port := 54, up_flags := f\<rparr>)" for f
    by (simp add: udp_example_def)
  have nine: "unat (len :: u16) = 9 \<longleftrightarrow> len = 9" for len by (simp add: word_unat_eq_iff)
  show ?thesis
    using udp_send_verifies [OF sd c, of 0 0] udp_send_verifies [OF sd c, of 0 UDP_FLAGS_UDPLITE] nine
    by (auto simp: udp_zero_def)
qed

subsection \<open>Receiving\<close>

text \<open>The pbuf \<open>p\<close> holds an IP packet at \<open>a\<close>, with a header of 20 bytes and the payload \<open>x\<close>.\<close>

definition packet_at :: "'a udp_world_scheme \<Rightarrow> u32 \<Rightarrow> u32 \<Rightarrow> u32 \<Rightarrow> u32 \<Rightarrow> u8 \<Rightarrow> u8 list \<Rightarrow> bool" where
  "packet_at s p a src dst proto x \<longleftrightarrow>
     (\<exists>b. pbufs s p = Some b \<and> pb_next b = None \<and> pb_payload b = a \<and> pb_tot_len b = pb_len b \<and> unat (pb_len b) = 20 + length x) \<and>
     length x + 12 \<le> 65535 \<and> unat p + 16 \<le> unat a \<and> unat a + 65535 < 2 ^ 32 \<and>
     IPH_HL a (mem8 s) = 5 \<and> IPH_PROTO a (mem8 s) = ucast proto \<and>
     ld32 (a + 12) (mem8 s) = src \<and> ld32 (a + 16) (mem8 s) = dst \<and> ld_bytes (length x) (a + 20) (mem8 s) = x"

text \<open>The choice: the first exact match on the list, or else the first match but for the remote port.\<close>

definition udp_target :: "'a udp_world_scheme \<Rightarrow> u32 list \<Rightarrow> u16 \<Rightarrow> u16 \<Rightarrow> u32 \<Rightarrow> u32 \<Rightarrow> u32 option" where
  "udp_target s us sp dp src dst =
     (case List.find (\<lambda>u. udp_match True sp dp src dst (the (upcbs s u))) us of
        Some q \<Rightarrow> Some q
      | None \<Rightarrow> List.find (\<lambda>u. udp_match False sp dp src dst (the (upcbs s u))) us)"

lemma moved_pbuf:
  assumes "pbufs s p = Some b" "pb_payload b - scast n = a" "unat p + 16 \<le> unat a"
  shows "pbuf_header p n s = Some (0, s\<lparr>pbufs := (pbufs s)(p \<mapsto> b\<lparr>pb_payload := a, pb_len := pb_len b + n, pb_tot_len := pb_tot_len b + n\<rparr>)\<rparr>)"
proof -
  have "unat (p + 16) = unat p + 16"
    using assms(3) unat_u32_less [of a] by (simp add: unat_word_ariths)
  then have "\<not> a < p + SIZEOF_STRUCT_PBUF" using assms(3) by (simp add: word_less_unat)
  then show ?thesis using assms(1,2) by (simp add: pbuf_header_def upd_pbuf_def Let_def)
qed

text \<open>The world with the payload of \<open>p\<close> moved to \<open>a\<close>, where \<open>n\<close> bytes are left.\<close>

definition payload_at :: "u32 \<Rightarrow> u32 \<Rightarrow> nat \<Rightarrow> 'a udp_world_scheme \<Rightarrow> 'a udp_world_scheme" where
  "payload_at p a n s =
     s\<lparr>pbufs := (pbufs s)(p \<mapsto> (the (pbufs s p))\<lparr>pb_payload := a, pb_len := of_nat n, pb_tot_len := of_nat n\<rparr>)\<rparr>"

definition recv_stat :: "'a udp_world_scheme \<Rightarrow> 'a udp_world_scheme" where
  "recv_stat s = stat_udp (\<lambda>st. st\<lparr>ts_recv := ts_recv st + 1\<rparr>) s"

lemma packet_header:
  assumes "packet_at s p a src dst pr (udp_header sp dp len k @ d)"
  shows "ntohs (ld16 (a + 20) (mem8 s)) = sp" "ntohs (ld16 (a + 22) (mem8 s)) = dp" "ld16 (a + 26) (mem8 s) = k"
    "ld_bytes (length d) (a + 28) (mem8 s) = d"
proof -
  let ?m = "mem8 s"
  have x: "ld_bytes (8 + length d) (a + 20) ?m = udp_header sp dp len k @ d"
    using assms by (simp add: packet_at_def)
  then have b: "ld_bytes 8 (a + 20) ?m = udp_header sp dp len k" "ld_bytes (length d) (a + 28) ?m = d"
    by (simp_all add: ld_bytes_append add.commute [of 28 a])
  then show "ld_bytes (length d) (a + 28) ?m = d" by simp
  have "u16_bytes (ld16 (a + 20) ?m) = u16_bytes (htons sp)" "u16_bytes (ld16 (a + 22) ?m) = u16_bytes (htons dp)"
      "u16_bytes (ld16 (a + 26) ?m) = u16_bytes k"
    using ld16_ld_bytes [of 0 8 "a + 20" ?m] ld16_ld_bytes [of 2 8 "a + 20" ?m] ld16_ld_bytes [of 6 8 "a + 20" ?m] b(1)
    by (simp_all add: udp_header_def add.commute [of 22 a] add.commute [of 26 a])
  then show "ntohs (ld16 (a + 20) ?m) = sp" "ntohs (ld16 (a + 22) ?m) = dp" "ld16 (a + 26) ?m = k" by simp_all
qed

lemma payload_moves:
  assumes "packet_at s p a src dst pr (udp_header sp dp len k @ d)"
  shows "pbuf_header p (- (UDP_HLEN + IPH_HL a (mem8 s) * 4)) (recv_stat s) = Some (0, payload_at p (a + 28) (length d) (recv_stat s))"
    "pbuf_header p UDP_HLEN (payload_at p (a + 28) (length d) (recv_stat s)) = Some (0, payload_at p (a + 20) (8 + length d) (recv_stat s))"
    "pbuf_header p (- UDP_HLEN) (payload_at p (a + 20) (8 + length d) (recv_stat s)) = Some (0, payload_at p (a + 28) (length d) (recv_stat s))"
proof -
  from assms obtain b where b: "pbufs s p = Some b" "pb_payload b = a" "pb_tot_len b = pb_len b" "unat (pb_len b) = 28 + length d"
      "unat p + 16 \<le> unat a" "unat a + 65535 < 2 ^ 32" "IPH_HL a (mem8 s) = 5"
    by (auto simp: packet_at_def)
  have len: "pb_len b = of_nat (28 + length d)" using arg_cong [OF b(4), of "of_nat :: nat \<Rightarrow> u16"] by simp
  have u: "unat (a + 28) = unat a + 28" "unat (a + 20) = unat a + 20" using b(6) by (simp_all add: unat_word_ariths)
  show "pbuf_header p (- (UDP_HLEN + IPH_HL a (mem8 s) * 4)) (recv_stat s) = Some (0, payload_at p (a + 28) (length d) (recv_stat s))"
    using b u len by (subst moved_pbuf [where b = b and a = "a + 28"]) (simp_all add: recv_stat_def stat_udp_def payload_at_def)
  show "pbuf_header p UDP_HLEN (payload_at p (a + 28) (length d) (recv_stat s)) = Some (0, payload_at p (a + 20) (8 + length d) (recv_stat s))"
    using b u by (subst moved_pbuf [where b = "b\<lparr>pb_payload := a + 28, pb_len := of_nat (length d), pb_tot_len := of_nat (length d)\<rparr>" and a = "a + 20"])
      (simp_all add: recv_stat_def stat_udp_def payload_at_def add.commute)
  show "pbuf_header p (- UDP_HLEN) (payload_at p (a + 20) (8 + length d) (recv_stat s)) = Some (0, payload_at p (a + 28) (length d) (recv_stat s))"
    using b u by (subst moved_pbuf [where b = "b\<lparr>pb_payload := a + 20, pb_len := of_nat (8 + length d), pb_tot_len := of_nat (8 + length d)\<rparr>" and a = "a + 28"])
      (simp_all add: recv_stat_def stat_udp_def payload_at_def)
qed

lemma udp_input_eq:
  assumes pk: "packet_at s p a src dst IP_PROTO_UDP (udp_header sp dp len k @ d)" and ch: "chain (up_nx s) (udp_pcbs s) us"
  shows "udp_input E netmask p s =
    (case udp_target s us sp dp src dst of
       None \<Rightarrow> map_option snd (pbuf_free (ue_ram E) (Some p) (payload_at p (a + 28) (length d) (recv_stat s)))
     | Some q \<Rightarrow>
         if k \<noteq> 0 \<and> inet_chksum_pseudo [udp_header sp dp len k @ d] src dst IP_PROTO_UDP (of_nat (8 + length d)) \<noteq> 0
         then map_option snd (pbuf_free (ue_ram E) (Some p) (stat_udp (\<lambda>st. st\<lparr>ts_chkerr := ts_chkerr st + 1, ts_drop := ts_drop st + 1\<rparr>)
                (payload_at p (a + 20) (8 + length d) (recv_stat s))))
         else udp_deliver E netmask (Some q) p a (a + 20) sp (payload_at p (a + 28) (length d) (recv_stat s)))"
proof -
  let ?s28 = "payload_at p (a + 28) (length d) (recv_stat s)" and ?s20 = "payload_at p (a + 20) (8 + length d) (recv_stat s)"
  from pk obtain b where b: "pbufs s p = Some b" "pb_next b = None" "pb_payload b = a" "ld32 (a + 12) (mem8 s) = src" "ld32 (a + 16) (mem8 s) = dst"
      "IPH_PROTO a (mem8 s) = ucast IP_PROTO_UDP" "ld_bytes (8 + length d) (a + 20) (mem8 s) = udp_header sp dp len k @ d" "length d + 20 \<le> 65535"
    by (auto simp: packet_at_def)
  note keep = recv_stat_def stat_udp_def payload_at_def
  have same: "mem8 ?s28 = mem8 s" "mem8 ?s20 = mem8 s" "upcbs ?s28 = upcbs s" "udp_pcbs ?s28 = udp_pcbs s" by (simp_all add: keep)
  have "udp_find P (upcbs s) (udp_pcbs s) = Some (List.find (\<lambda>u. P (the (upcbs s u))) us)" for P
    by (rule udp_find_find [OF ch])
  note find = this
  have free: "do { (n, s) \<leftarrow> x; Some s } = map_option snd x" for x :: "(u8 \<times> 'b) option" by (cases x) auto
  have "chain_bytes (pbufs ?s20) (mem8 s) (Some p) = Some [udp_header sp dp len k @ d]"
    using chain_bytes_chain [of "pbufs ?s20" "Some p" "[p]" "mem8 s"] b
      unat_add_less [of "8 :: u16" "of_nat (length d)"]
    by (simp add: keep pb_nx_def pbuf_bytes_def unat_of_nat)
  then have ver: "udp_verify p a (a + 20) ?s20 =
      Some (k = 0 \<or> inet_chksum_pseudo [udp_header sp dp len k @ d] src dst IP_PROTO_UDP (of_nat (8 + length d)) = 0)"
    using packet_header(3) [OF pk] b same
    by (simp add: udp_verify_def Let_def chksum_pseudo_def add.commute [of 26 a]) (simp add: keep)
  have r: "pbufs (recv_stat s) p = Some b" "mem8 (recv_stat s) = mem8 s"
      "pbufs ?s28 p = Some (b\<lparr>pb_payload := a + 28, pb_len := of_nat (length d), pb_tot_len := of_nat (length d)\<rparr>)"
    by (simp_all add: keep b)
  have input: "udp_input E netmask p s = do {
      pcb \<leftarrow> Some (udp_target s us sp dp src dst);
      if pcb \<noteq> None then do {
        ok \<leftarrow> udp_verify p a (a + 20) ?s20;
        if \<not> ok then map_option snd (pbuf_free (ue_ram E) (Some p) (stat_udp (\<lambda>st. st\<lparr>ts_chkerr := ts_chkerr st + 1, ts_drop := ts_drop st + 1\<rparr>) ?s20))
        else udp_deliver E netmask pcb p a (a + 20) sp ?s28
      } else map_option snd (pbuf_free (ue_ram E) (Some p) ?s28) }"
    unfolding udp_input_def recv_stat_def [symmetric]
    using payload_moves [OF pk] packet_header(1,2) [OF pk] b(3-5) same
    by (cases "List.find (\<lambda>u. udp_match True sp dp src dst (the (upcbs s u))) us")
      (simp_all add: Let_def r find free add.commute [of 20 a] add.commute [of 22 a] udp_target_def cong: if_cong)
  show ?thesis unfolding input ver by (simp split: option.split)
qed

text \<open>A datagram that no control block matches is dropped; no ICMP message is sent for it.\<close>

lemma udp_unmatched_dropped:
  assumes "packet_at s p a src dst IP_PROTO_UDP (udp_header sp dp len k @ d)" "chain (up_nx s) (udp_pcbs s) us"
    and "udp_target s us sp dp src dst = None" and "udp_input E netmask p s = Some s'"
  shows "ip_out s' = ip_out s"
proof -
  let ?X = "payload_at p (a + 28) (length d) (recv_stat s)"
  obtain n where n: "pbuf_free (ue_ram E) (Some p) ?X = Some (n, s')"
    using udp_input_eq [OF assms(1,2), of E netmask] assms(3,4) by (auto simp: map_option_eq_Some eq_commute [of "Some _"])
  have "rets (\<lambda>r. pbuf_state.more (snd r) = pbuf_state.more ?X) (pbuf_free (ue_ram E) (Some p) ?X)"
    by (rule more_pbuf_free) (simp split: prod.splits)
  from retsD [OF this n] have "pbuf_state.more s' = pbuf_state.more ?X" by simp
  then show ?thesis by (cases s', cases s) (simp add: payload_at_def recv_stat_def stat_udp_def)
qed

text \<open>
  C7: a UDP datagram reaches its receiver. The packet that \<open>udp_send\<close> hands to IP, put into a pbuf of any
  world running the same stack, makes \<open>udp_input\<close> call the receive function of the control block that
  matches its ports and addresses, the first exact match or else the first that matches but for the
  remote port, with the pbuf holding exactly the data that was sent and with the port of the sender.
\<close>

theorem udp_end_to_end:
  assumes "sendable_data s p d" "upcbs s pcb = Some c" "and (up_flags c) UDP_FLAGS_UDPLITE = 0"
  shows "\<exists>s' x. udp_send ram_addr pcb p s = Some (ERR_OK, s') \<and> ip_out s' = ip_out s @ [x] \<and>
    (\<forall>r q a us u v f. packet_at r q a (ip_src x) (ip_dest x) (ip_proto x) (ip_payload x) \<and> chain (up_nx r) (udp_pcbs r) us \<and>
       udp_target r us (up_local_port c) (up_remote_port c) (up_local_ip c) (up_remote_ip c) = Some u \<and>
       upcbs r u = Some v \<and> up_recv v = Some f \<longrightarrow>
       (\<exists>r'. udp_input E netmask q r = ue_recv E f (up_recv_arg v) u q (a + 12) (up_local_port c) r' \<and>
          pbuf_bytes (pbufs r') (mem8 r') q = d \<and> upcbs r' = upcbs r))"
proof -
  from udp_sent [OF assms(1,2), of ram_addr] assms(3) obtain s' x k len where
    x: "udp_send ram_addr pcb p s = Some (ERR_OK, s')" "ip_out s' = ip_out s @ [x]" "ip_src x = up_local_ip c" "ip_dest x = up_remote_ip c"
      "ip_payload x = udp_header (up_local_port c) (up_remote_port c) len k @ d" "ip_proto x = IP_PROTO_UDP" "unat len = 8 + length d"
      "k = 0 \<or> inet_chksum_pseudo [ip_payload x] (ip_src x) (ip_dest x) IP_PROTO_UDP len = 0"
    by (auto split: if_splits)
  have len: "len = of_nat (8 + length d)" using arg_cong [OF x(7), of "of_nat :: nat \<Rightarrow> u16"] by simp
  have "\<exists>r'. udp_input E netmask q r = ue_recv E f (up_recv_arg v) u q (a + 12) (up_local_port c) r' \<and>
      pbuf_bytes (pbufs r') (mem8 r') q = d \<and> upcbs r' = upcbs r"
    if "packet_at r q a (ip_src x) (ip_dest x) (ip_proto x) (ip_payload x)" "chain (up_nx r) (udp_pcbs r) us"
      "udp_target r us (up_local_port c) (up_remote_port c) (up_local_ip c) (up_remote_ip c) = Some u"
      "upcbs r u = Some v" "up_recv v = Some f" for r q a us u v f
  proof -
    have pk: "packet_at r q a (up_local_ip c) (up_remote_ip c) IP_PROTO_UDP (udp_header (up_local_port c) (up_remote_port c) len k @ d)"
      using that(1) x by simp
    let ?r = "payload_at q (a + 28) (length d) (recv_stat r)"
    have "length d \<le> 65515" using pk by (simp add: packet_at_def)
    then have "pbuf_bytes (pbufs ?r) (mem8 ?r) q = d" "upcbs ?r = upcbs r"
      using packet_header(4) [OF pk] by (simp_all add: payload_at_def recv_stat_def stat_udp_def pbuf_bytes_def unat_of_nat)
    moreover have "udp_input E netmask q r = udp_deliver E netmask (Some u) q a (a + 20) (up_local_port c) ?r"
      using udp_input_eq [OF pk that(2), of E netmask] that(3) x(3-5,8) len by auto
    ultimately show ?thesis using that(4,5) by (intro exI [of _ ?r]) (simp add: udp_deliver_def)
  qed
  with x show ?thesis by blast
qed

text \<open>The receiver of the example: one control block, bound to the port, and the packet at 1000.\<close>

definition udp_receiver :: "ip_packet \<Rightarrow> udp_world" where
  "udp_receiver x = udp_start\<lparr>mem8 := st_bytes 1000 ([0x45, 0, 0, 0, 0, 0, 0, 0, 0, ip_proto x, 0, 0] @ u32_bytes (ip_src x) @ u32_bytes (ip_dest x) @ ip_payload x) (\<lambda>_. 0),
     pbufs := [500 \<mapsto> \<lparr>pb_next = None, pb_flags = PBUF_FLAG_RAM, pb_ref = 1, pb_payload = 1000,
       pb_tot_len = of_nat (20 + length (ip_payload x)), pb_len = of_nat (20 + length (ip_payload x))\<rparr>],
     upcbs := [64 \<mapsto> udp_zero\<lparr>up_local_port := 54, up_recv := Some 0, up_recv_arg := 7\<rparr>], udp_pcbs := Some 64\<rparr>"

lemma ld_bytes_st_bytes: "length bs \<le> 2 ^ 32 \<Longrightarrow> k + n \<le> length bs \<Longrightarrow> ld_bytes n (a + of_nat k) (st_bytes a bs m) = take n (drop k bs)"
  by (rule nth_equalityI) (auto simp: st_bytes_def unat_of_nat simp flip: of_nat_add)

lemma ld32_st_bytes:
  assumes "length bs \<le> 2 ^ 32" "k + 4 \<le> length bs" "take 4 (drop k bs) = u32_bytes v"
  shows "ld32 (a + of_nat k) (st_bytes a bs m) = v"
proof -
  have "ld_bytes 4 (a + of_nat k) (st_bytes a bs m) = u32_bytes v"
    using ld_bytes_st_bytes [of bs k 4 a m] assms by simp
  then have "st_bytes a bs m (a + of_nat k) = ucast v" "st_bytes a bs m (a + of_nat k + 1) = ucast (drop_bit 8 v)"
      "st_bytes a bs m (a + of_nat k + 2) = ucast (drop_bit 16 v)" "st_bytes a bs m (a + of_nat k + 3) = ucast (drop_bit 24 v)"
    by (simp_all add: ld_bytes_def upt_rec u32_bytes_def)
  then have "ld32 (a + of_nat k) (st_bytes a bs m) = ld32 0 (st32 0 v (\<lambda>_. 0))"
    by (simp add: ld32_def st32_def)
  then show ?thesis by simp
qed

lemma low_byte: "and (htons (push_bit 8 (ucast (x :: u8)))) 255 = ucast x"
proof -
  have m: "(255 :: u16) = mask 8" by (simp add: mask_eq_exp_minus_1)
  show ?thesis unfolding htons_def m by (intro bit_word_eqI) (auto simp: bit_simps dest: bit_imp_le_length)
qed

lemma udp_receiver_packet:
  assumes "length (ip_payload x) + 20 \<le> 65535"
  shows "packet_at (udp_receiver x) 500 1000 (ip_src x) (ip_dest x) (ip_proto x) (ip_payload x)"
proof -
  let ?h = "[0x45, 0, 0, 0, 0, 0, 0, 0, 0, ip_proto x, 0, 0] :: u8 list"
  let ?bs = "?h @ u32_bytes (ip_src x) @ u32_bytes (ip_dest x) @ ip_payload x" and ?n = "length (ip_payload x)"
  let ?m = "st_bytes 1000 ?bs (\<lambda>_. 0)"
  have l [simp]: "length (u32_bytes w) = 4" for w by (simp add: u32_bytes_def)
  have "ld_bytes ?n 1020 ?m = ip_payload x" using ld_bytes_st_bytes [of ?bs 20 ?n 1000 "\<lambda>_. 0"] assms by simp
  moreover have "ld32 1012 ?m = ip_src x" "ld32 1016 ?m = ip_dest x"
    using ld32_st_bytes [of ?bs 12 "ip_src x" 1000 "\<lambda>_. 0"] ld32_st_bytes [of ?bs 16 "ip_dest x" 1000 "\<lambda>_. 0"] assms by simp_all
  moreover have "?m 1000 = 0x45" "?m 1001 = 0" "?m 1008 = 0" "?m 1009 = ip_proto x"
    by (simp_all add: st_bytes_def nth_append)
  then have "IPH_HL 1000 ?m = 5" "IPH_PROTO 1000 ?m = ucast (ip_proto x)"
    by (simp_all add: IPH_HL_def IPH_PROTO_def ld16_def low_byte, simp add: htons_def)
  ultimately show ?thesis using assms by (simp add: packet_at_def udp_receiver_def unat_of_nat unat_word_ariths)
qed

theorem udp_end_to_end_witness:
  "\<exists>s' x r'. udp_send 0 64 100 (udp_example 0) = Some (ERR_OK, s') \<and> ip_out s' = ip_out (udp_example 0) @ [x] \<and>
     udp_input \<lparr>ue_ram = 0, ue_recv = \<lambda>f arg u q a port r. if f = 0 \<and> arg = 7 \<and> u = 64 \<and> q = 500 \<and> port = 53 then Some r else None\<rparr> 0 500
       (udp_receiver x) = Some r' \<and> pbuf_bytes (pbufs r') (mem8 r') 500 = [42]"
proof -
  let ?E = "\<lparr>ue_ram = 0, ue_recv = \<lambda>f arg u q a port r. if f = 0 \<and> arg = 7 \<and> u = 64 \<and> q = 500 \<and> port = 53 then Some r else None\<rparr> :: udp_world udp_env"
  let ?c = "udp_zero\<lparr>up_local_ip := 1, up_remote_ip := 2, up_local_port := 53, up_remote_port := 54, up_flags := 0\<rparr>"
  have sd: "sendable_data (udp_example 0) 100 [42]"
    by (auto simp: sendable_data_def udp_example_def pbuf_bytes_def ld_bytes_def pb_nx_def intro!: exI [of _ "[]"])
  have c: "upcbs (udp_example 0) 64 = Some ?c" by (simp add: udp_example_def)
  let ?v = "udp_zero\<lparr>up_local_port := 54, up_recv := Some 0, up_recv_arg := 7\<rparr>"
  have "and (up_flags ?c) UDP_FLAGS_UDPLITE = 0" by simp
  from udp_end_to_end [OF sd c this, of 0 ?E 0] obtain s' x where x: "udp_send 0 64 100 (udp_example 0) = Some (ERR_OK, s')"
      "ip_out s' = ip_out (udp_example 0) @ [x]"
    and recv: "\<And>r q a us u v f. packet_at r q a (ip_src x) (ip_dest x) (ip_proto x) (ip_payload x) \<and> chain (up_nx r) (udp_pcbs r) us \<and>
       udp_target r us (up_local_port ?c) (up_remote_port ?c) (up_local_ip ?c) (up_remote_ip ?c) = Some u \<and>
       upcbs r u = Some v \<and> up_recv v = Some f \<Longrightarrow>
       \<exists>r'. udp_input ?E 0 q r = ue_recv ?E f (up_recv_arg v) u q (a + 12) (up_local_port ?c) r' \<and>
          pbuf_bytes (pbufs r') (mem8 r') q = [42] \<and> upcbs r' = upcbs r"
    by blast
  have v: "upcbs (udp_receiver x) 64 = Some ?v" by (simp add: udp_receiver_def)
  have "length (ip_payload x) = 9" using udp_sent [OF sd c, of 0] x by auto
  then have "packet_at (udp_receiver x) 500 1000 (ip_src x) (ip_dest x) (ip_proto x) (ip_payload x)"
    by (intro udp_receiver_packet) simp
  moreover have "chain (up_nx (udp_receiver x)) (udp_pcbs (udp_receiver x)) [64]"
    by (simp add: up_nx_def udp_receiver_def udp_zero_def)
  moreover have "udp_target (udp_receiver x) [64] 53 54 1 2 = Some 64"
    by (simp add: udp_target_def udp_match_def udp_receiver_def udp_zero_def)
  ultimately show ?thesis using x v recv [of "udp_receiver x" 500 1000 "[64]" 64 ?v 0] by auto
qed

end
