(* ===== verification/Nf10_Driver.thy ===== *)
theory Nf10_Driver
  imports Net_Prelude
begin

text \<open>
  The NIC driver of the NetFPGA 10G card, \<^verbatim>\<open>nf10priv.c\<close> and \<^verbatim>\<open>nf10iface.c\<close>: transmission, reception
  and the handler of completions. The driver and the card share rings: descriptors in memory of the
  card (\<open>tx_dsc\<close>, \<open>rx_dsc\<close>) and completions in memory of the host (\<open>host_tx_dne_ptr\<close>,
  \<open>host_rx_dne_ptr\<close>), in lines of 64 bytes. The state holds the fields of \<^verbatim>\<open>struct nf10_card\<close> and the
  socket buffers that the driver owns. The kernel is a parameter: what it returns to a call (the
  address of a DMA mapping, a fresh socket buffer) is an argument of the operation that calls it,
  and its functions on socket buffers are fields of the record \<open>nf_kernel\<close>. The result \<open>None\<close> is an
  access outside an array, through NULL or to a socket buffer that was freed, or a panic.
\<close>

subsection \<open>Data\<close>

record nf10mem =
  wr_ptr :: u64
  rd_ptr :: u64
  cnt :: u64
  mem_mask :: u64
  cl_size :: u64

text \<open>A socket buffer: the fields that the driver uses, and what the kernel keeps for itself.\<close>

record 'k sk_buff =
  skb_data :: u64
  skb_len :: u32
  skb_dev :: "nat option"
  skb_protocol :: u16
  skb_ip_summed :: u8
  skb_priv :: 'k

record net_device =
  queue_stopped :: bool
  port_num :: nat
  port_up :: bool
  rx_packets :: u64
  rx_bytes :: u64
  tx_packets :: u64
  tx_bytes :: u64
  dev_addr :: "u8 list"
  mtu :: u32

record 'k nf10 =
  cfg_addr :: "nat \<Rightarrow> u64"
  tx_dsc :: "nat \<Rightarrow> u64"
  rx_dsc :: "nat \<Rightarrow> u64"
  tx_dsc_mask :: u64
  rx_dsc_mask :: u64
  tx_pkt_mask :: u64
  rx_pkt_mask :: u64
  tx_dne_mask :: u64
  rx_dne_mask :: u64
  host_tx_dne_ptr :: "u32 list"
  host_rx_dne_ptr :: "u64 list"
  ndev :: "net_device option list"
  mem_tx_dsc :: nf10mem
  mem_tx_pkt :: nf10mem
  mem_rx_dsc :: nf10mem
  mem_rx_pkt :: nf10mem
  host_tx_dne :: nf10mem
  host_rx_dne :: nf10mem
  tx_bk_skb :: "u64 list"
  tx_bk_dma_addr :: "u64 list"
  tx_bk_size :: "u64 list"
  tx_bk_port :: "u64 list"
  rx_bk_skb :: "u64 list"
  rx_bk_dma_addr :: "u64 list"
  rx_bk_size :: "u64 list"
  work_queued :: bool
  skbs :: "u64 \<rightharpoonup> 'k sk_buff"
  delivered :: "(u64 \<times> 'k sk_buff) list"

text \<open>The functions of the kernel on socket buffers that the driver calls; \<open>None\<close> is a panic.\<close>

record 'k nf_kernel =
  k_skb_put :: "u32 \<Rightarrow> 'k sk_buff \<Rightarrow> 'k sk_buff option"
  k_skb_reserve :: "u32 \<Rightarrow> 'k sk_buff \<Rightarrow> 'k sk_buff"
  k_eth_type_trans :: "nat \<Rightarrow> 'k sk_buff \<Rightarrow> u16 \<times> 'k sk_buff"

text \<open>Arrays: an access outside is a fault.\<close>

definition rd :: "'v list \<Rightarrow> nat \<Rightarrow> 'v option" where
  "rd xs i = (if i < length xs then Some (xs ! i) else None)"

definition wr :: "'v list \<Rightarrow> nat \<Rightarrow> 'v \<Rightarrow> 'v list option" where
  "wr xs i v = (if i < length xs then Some (xs[i := v]) else None)"

definition upd_ndev :: "nat \<Rightarrow> (net_device \<Rightarrow> net_device) \<Rightarrow> ('k, 'a) nf10_scheme \<Rightarrow> ('k, 'a) nf10_scheme option" where
  "upd_ndev port f s = do {
     d \<leftarrow> rd (ndev s) port;
     d \<leftarrow> d;
     Some (s\<lparr>ndev := (ndev s)[port := Some (f d)]\<rparr>)
   }"

definition kfree_skb :: "u64 \<Rightarrow> ('k, 'a) nf10_scheme \<Rightarrow> ('k, 'a) nf10_scheme option" where
  "kfree_skb skb s = do {
     b \<leftarrow> skbs s skb;
     Some (s\<lparr>skbs := (skbs s)(skb := None)\<rparr>)
   }"

definition netif_receive_skb :: "u64 \<Rightarrow> ('k, 'a) nf10_scheme \<Rightarrow> ('k, 'a) nf10_scheme option" where
  "netif_receive_skb skb s = do {
     b \<leftarrow> skbs s skb;
     Some (s\<lparr>skbs := (skbs s)(skb := None), delivered := delivered s @ [(skb, b)]\<rparr>)
   }"

abbreviation SK_BUFF_ALLOC_SIZE :: u64 where
  "SK_BUFF_ALLOC_SIZE \<equiv> 1533"

abbreviation CHECKSUM_NONE :: u8 where
  "CHECKSUM_NONE \<equiv> 0"

subsection \<open>Transmission\<close>

text \<open>
  The part of \<open>nf10priv_xmit\<close> that runs under \<open>tx_lock\<close>: room for one descriptor and the packet is
  taken from the rings. \<open>dma\<close> is the outcome of \<^verbatim>\<open>pci_map_single\<close>, \<open>None\<close> for a mapping error. The
  result is the address of the packet buffer and of the descriptor, or \<open>None\<close> for the return of -1.
\<close>

definition xmit_cl_size :: "u32 \<Rightarrow> u64" where
  "xmit_cl_size len = ucast ((len + 2 * 63) div 64)"

definition xmit_reserve :: "u64 option \<Rightarrow> u32 \<Rightarrow> nat \<Rightarrow> ('k, 'a) nf10_scheme \<Rightarrow> ((u64 \<times> u64) option \<times> ('k, 'a) nf10_scheme) option" where
  "xmit_reserve dma len port s =
     (let cl = xmit_cl_size len
      in if cnt (mem_tx_dsc s) + 1 \<le> cl_size (mem_tx_dsc s) \<and> cnt (mem_tx_pkt s) + cl \<le> cl_size (mem_tx_pkt s) then do {
           let pkt_addr = wr_ptr (mem_tx_pkt s);
           let s = s\<lparr>mem_tx_pkt := (mem_tx_pkt s)\<lparr>wr_ptr := and (pkt_addr + 64 * cl) (mem_mask (mem_tx_pkt s))\<rparr>\<rparr>;
           let dsc_addr = wr_ptr (mem_tx_dsc s);
           let s = s\<lparr>mem_tx_dsc := (mem_tx_dsc s)\<lparr>wr_ptr := and (dsc_addr + 64) (mem_mask (mem_tx_dsc s))\<rparr>\<rparr>;
           case dma of
             None \<Rightarrow> Some (None, s)
           | Some dma_addr \<Rightarrow> do {
               let s = s\<lparr>mem_tx_dsc := (mem_tx_dsc s)\<lparr>cnt := cnt (mem_tx_dsc s) + 1\<rparr>\<rparr>;
               let s = s\<lparr>mem_tx_pkt := (mem_tx_pkt s)\<lparr>cnt := cnt (mem_tx_pkt s) + cl\<rparr>\<rparr>;
               s \<leftarrow> (if \<not> (cnt (mem_tx_dsc s) + 1 \<le> cl_size (mem_tx_dsc s) \<and> cnt (mem_tx_pkt s) + 32 \<le> cl_size (mem_tx_pkt s))
                     then upd_ndev port (\<lambda>d. d\<lparr>queue_stopped := True\<rparr>) s else Some s);
               Some (Some (pkt_addr, dsc_addr), s)
             }
         }
         else Some (None, s))"

text \<open>The rest of \<open>nf10priv_xmit\<close>, which runs without the lock: the books and the descriptor.\<close>

definition port_decoded :: "nat \<Rightarrow> u64" where
  "port_decoded port =
     (if port = 0 then 0x0102 else if port = 1 then 0x0408 else if port = 2 then 0x1020 else if port = 3 then 0x4080 else 0)"

definition xmit_post :: "u64 \<Rightarrow> u64 \<Rightarrow> u32 \<Rightarrow> nat \<Rightarrow> u64 \<times> u64 \<Rightarrow> ('k, 'a) nf10_scheme \<Rightarrow> ('k, 'a) nf10_scheme option" where
  "xmit_post dma_addr skb len port a s = do {
     let (pkt_addr, dsc_addr) = a;
     let dsc_index = unat (dsc_addr div 64);
     let pkt_addr_fixed = pkt_addr + and dma_addr 0x3f;
     let dsc_l0 = push_bit 48 (ucast len) + push_bit 32 (port_decoded port) + and pkt_addr_fixed 0xffffffff;
     dmas \<leftarrow> wr (tx_bk_dma_addr s) dsc_index dma_addr;
     bufs \<leftarrow> wr (tx_bk_skb s) dsc_index skb;
     sizes \<leftarrow> wr (tx_bk_size s) dsc_index (xmit_cl_size len);
     ports \<leftarrow> wr (tx_bk_port s) dsc_index (of_nat port);
     Some (s\<lparr>tx_bk_dma_addr := dmas, tx_bk_skb := bufs, tx_bk_size := sizes, tx_bk_port := ports,
             tx_dsc := (tx_dsc s)(8 * dsc_index + 0 := dsc_l0, 8 * dsc_index + 1 := dma_addr)\<rparr>)
   }"

definition nf10priv_xmit :: "u64 option \<Rightarrow> u64 \<Rightarrow> nat \<Rightarrow> ('k, 'a) nf10_scheme \<Rightarrow> (int \<times> ('k, 'a) nf10_scheme) option" where
  "nf10priv_xmit dma skb port s = do {
     b \<leftarrow> skbs s skb;
     let len = skb_len b;
     (r, s) \<leftarrow> xmit_reserve dma len port s;
     case r of
       None \<Rightarrow> Some (-1, s)
     | Some a \<Rightarrow> do {
         s \<leftarrow> xmit_post (the dma) skb len port a s;
         Some (0, s)
       }
   }"

subsection \<open>Reception\<close>

text \<open>
  \<open>nf10priv_send_rx_dsc\<close> with the outcome of \<^verbatim>\<open>dev_alloc_skb\<close> (the address of a fresh socket buffer and
  its contents, or \<open>None\<close>) and the DMA address that \<^verbatim>\<open>pci_map_single\<close> returns.
\<close>

record 'k rx_supply =
  rs_skb :: "(u64 \<times> 'k sk_buff) option"
  rs_dma :: u64

definition nf10priv_send_rx_dsc ::
  "'k nf_kernel \<Rightarrow> 'k rx_supply \<Rightarrow> ('k, 'a) nf10_scheme \<Rightarrow> (int \<times> ('k, 'a) nf10_scheme) option" where
  "nf10priv_send_rx_dsc K rxs s =
     (let cl = (SK_BUFF_ALLOC_SIZE + 66) div 64
      in if cnt (mem_rx_dsc s) + 1 \<le> cl_size (mem_rx_dsc s) \<and> cnt (mem_rx_pkt s) + cl \<le> cl_size (mem_rx_pkt s) then
           case rs_skb rxs of
             None \<Rightarrow> Some (-1, s)
           | Some (skb, b) \<Rightarrow> do {
               let s = s\<lparr>skbs := (skbs s)(skb \<mapsto> k_skb_reserve K 2 b)\<rparr>;
               let pkt_addr = wr_ptr (mem_rx_pkt s);
               let s = s\<lparr>mem_rx_pkt := (mem_rx_pkt s)\<lparr>wr_ptr := and (pkt_addr + 64 * cl) (mem_mask (mem_rx_pkt s))\<rparr>\<rparr>;
               let dsc_addr = wr_ptr (mem_rx_dsc s);
               let s = s\<lparr>mem_rx_dsc := (mem_rx_dsc s)\<lparr>wr_ptr := and (dsc_addr + 64) (mem_mask (mem_rx_dsc s))\<rparr>\<rparr>;
               let s = s\<lparr>mem_rx_dsc := (mem_rx_dsc s)\<lparr>cnt := cnt (mem_rx_dsc s) + 1\<rparr>\<rparr>;
               let s = s\<lparr>mem_rx_pkt := (mem_rx_pkt s)\<lparr>cnt := cnt (mem_rx_pkt s) + cl\<rparr>\<rparr>;
               let dsc_index = unat (dsc_addr div 64);
               let dma_addr = rs_dma rxs;
               let pkt_addr_fixed = pkt_addr + and dma_addr 0x3;
               let dsc_l0 = push_bit 48 SK_BUFF_ALLOC_SIZE + and pkt_addr_fixed 0xffffffff;
               dmas \<leftarrow> wr (rx_bk_dma_addr s) dsc_index dma_addr;
               bufs \<leftarrow> wr (rx_bk_skb s) dsc_index skb;
               sizes \<leftarrow> wr (rx_bk_size s) dsc_index cl;
               Some (0, s\<lparr>rx_bk_dma_addr := dmas, rx_bk_skb := bufs, rx_bk_size := sizes,
                          rx_dsc := (rx_dsc s)(8 * dsc_index + 0 := dsc_l0, 8 * dsc_index + 1 := dma_addr)\<rparr>)
             }
         else Some (-1, s))"

subsection \<open>Completions\<close>

text \<open>The wake-up of the four queues.\<close>

fun wake_queues :: "nat list \<Rightarrow> ('k, 'a) nf10_scheme \<Rightarrow> ('k, 'a) nf10_scheme option" where
  "wake_queues [] s = Some s"
| "wake_queues (i # is) s = do {
     s \<leftarrow> upd_ndev i (\<lambda>d. if queue_stopped d then d\<lparr>queue_stopped := False\<rparr> else d) s;
     wake_queues is s
   }"

text \<open>The completion of a transmission; the work found in \<open>tx_int\<close> is done.\<close>

definition work_tx :: "('k, 'a) nf10_scheme \<Rightarrow> ('k, 'a) nf10_scheme option" where
  "work_tx s = do {
     let addr = rd_ptr (host_tx_dne s);
     let s = s\<lparr>host_tx_dne := (host_tx_dne s)\<lparr>rd_ptr := and (addr + 64) (mem_mask (host_tx_dne s))\<rparr>\<rparr>;
     let index = unat (addr div 64);
     dma \<leftarrow> rd (tx_bk_dma_addr s) index;
     skb \<leftarrow> rd (tx_bk_skb s) index;
     s \<leftarrow> kfree_skb skb s;
     size \<leftarrow> rd (tx_bk_size s) index;
     let s = s\<lparr>mem_tx_pkt := (mem_tx_pkt s)\<lparr>cnt := cnt (mem_tx_pkt s) - size\<rparr>\<rparr>;
     let s = s\<lparr>mem_tx_dsc := (mem_tx_dsc s)\<lparr>cnt := cnt (mem_tx_dsc s) - 1\<rparr>\<rparr>;
     dne \<leftarrow> wr (host_tx_dne_ptr s) (index * 16) 0xffffffff;
     let s = s\<lparr>host_tx_dne_ptr := dne\<rparr>;
     if cnt (mem_tx_dsc s) + 8 * 1 \<le> cl_size (mem_tx_dsc s) \<and> cnt (mem_tx_pkt s) + 4 * 32 \<le> cl_size (mem_tx_pkt s)
     then wake_queues [0, 1, 2, 3] s
     else Some s
   }"

text \<open>The port a received packet came from; \<open>None\<close> is the port -1.\<close>

definition rx_port :: "u64 \<Rightarrow> nat option" where
  "rx_port port_encoded =
     (if and port_encoded 0x0200 \<noteq> 0 then Some 0
      else if and port_encoded 0x0800 \<noteq> 0 then Some 1
      else if and port_encoded 0x2000 \<noteq> 0 then Some 2
      else if and port_encoded 0x8000 \<noteq> 0 then Some 3
      else None)"

text \<open>What becomes of a received packet: it is ignored, given to the kernel or dropped.\<close>

definition rx_deliver :: "'k nf_kernel \<Rightarrow> u64 \<Rightarrow> u64 \<Rightarrow> nat option \<Rightarrow> ('k, 'a) nf10_scheme \<Rightarrow> ('k, 'a) nf10_scheme option" where
  "rx_deliver K skb len port s =
     (case port of
        None \<Rightarrow> Some s
      | Some port \<Rightarrow>
          if len > 1514 \<or> len < 60 then Some s
          else do {
            d \<leftarrow> rd (ndev s) port;
            d \<leftarrow> d;
            if port_up d then do {
              b \<leftarrow> skbs s skb;
              b \<leftarrow> k_skb_put K (ucast len) b;
              let b = b\<lparr>skb_dev := Some port\<rparr>;
              let (proto, b) = k_eth_type_trans K port b;
              let b = b\<lparr>skb_protocol := proto, skb_ip_summed := CHECKSUM_NONE\<rparr>;
              let s = s\<lparr>skbs := (skbs s)(skb \<mapsto> b)\<rparr>;
              s \<leftarrow> upd_ndev port (\<lambda>d. d\<lparr>rx_packets := rx_packets d + 1, rx_bytes := rx_bytes d + ucast (skb_len b)\<rparr>) s;
              netif_receive_skb skb s
            }
            else kfree_skb skb s
          })"

definition work_rx :: "'k nf_kernel \<Rightarrow> 'k rx_supply \<Rightarrow> u64 \<Rightarrow> ('k, 'a) nf10_scheme \<Rightarrow> ('k, 'a) nf10_scheme option" where
  "work_rx K rxs rx_int s = do {
     let addr = rd_ptr (host_rx_dne s);
     let s = s\<lparr>host_rx_dne := (host_rx_dne s)\<lparr>rd_ptr := and (addr + 64) (mem_mask (host_rx_dne s))\<rparr>\<rparr>;
     let index = unat (addr div 64);
     dne \<leftarrow> wr (host_rx_dne_ptr s) (index * 8 + 7) (not 0);
     let s = s\<lparr>host_rx_dne_ptr := dne\<rparr>;
     skb \<leftarrow> rd (rx_bk_skb s) index;
     dma \<leftarrow> rd (rx_bk_dma_addr s) index;
     b \<leftarrow> skbs s skb;
     size \<leftarrow> rd (rx_bk_size s) index;
     let s = s\<lparr>mem_rx_pkt := (mem_rx_pkt s)\<lparr>cnt := cnt (mem_rx_pkt s) - size\<rparr>\<rparr>;
     let s = s\<lparr>mem_rx_dsc := (mem_rx_dsc s)\<lparr>cnt := cnt (mem_rx_dsc s) - 1\<rparr>\<rparr>;
     (r, s) \<leftarrow> nf10priv_send_rx_dsc K rxs s;
     let len = and rx_int 0xffff;
     let port_encoded = and (drop_bit 16 rx_int) 0xffff;
     rx_deliver K skb len (rx_port port_encoded) s
   }"

definition tx_done :: "u32 \<Rightarrow> bool" where
  "tx_done tx_int \<longleftrightarrow> and tx_int 0xffff = 1"

definition rx_done :: "u64 \<Rightarrow> bool" where
  "rx_done rx_int \<longleftrightarrow> and (drop_bit 48 rx_int) 0xffff \<noteq> 0xffff"

text \<open>
  One pass of the loop of \<open>work_handler\<close>. What the card and other processors did since the last pass
  is the function \<open>pe_dev\<close>; it acts before the completions are read. The kernel's answer to the
  allocation of a socket buffer, \<open>pe_rx\<close>, depends on the state.
\<close>

record ('k, 's) pass_env =
  pe_dev :: "'s \<Rightarrow> 's"
  pe_rx :: "'s \<Rightarrow> 'k rx_supply"

record work_vars =
  work_counter :: u32
  tcnt :: nat
  int_enabled :: bool

definition set_ints :: "u64 \<Rightarrow> ('k, 'a) nf10_scheme \<Rightarrow> ('k, 'a) nf10_scheme" where
  "set_ints v s = s\<lparr>cfg_addr := (cfg_addr s)(25 := v, 26 := v)\<rparr>"

definition poll_tx :: "('k, 'a) nf10_scheme \<Rightarrow> u32 option" where
  "poll_tx s = rd (host_tx_dne_ptr s) (unat (rd_ptr (host_tx_dne s) div 4))"

definition poll_rx :: "('k, 'a) nf10_scheme \<Rightarrow> u64 option" where
  "poll_rx s = rd (host_rx_dne_ptr s) (unat (rd_ptr (host_rx_dne s) div 8) + 7)"

text \<open>The head of the pass, up to the reading of the completions; its work; and its end.\<close>

definition pass_head :: "('k, ('k, 'a) nf10_scheme) pass_env \<Rightarrow> work_vars \<Rightarrow> ('k, 'a) nf10_scheme \<Rightarrow> work_vars \<times> ('k, 'a) nf10_scheme" where
  "pass_head env v s =
     (if int_enabled v \<and> sint (work_counter v) > 0 then (v\<lparr>int_enabled := False\<rparr>, pe_dev env (set_ints 0 s)) else (v, pe_dev env s))"

definition pass_work :: "'k nf_kernel \<Rightarrow> ('k, ('k, 'a) nf10_scheme) pass_env \<Rightarrow> u32 \<Rightarrow> u64 \<Rightarrow> ('k, 'a) nf10_scheme \<Rightarrow> ('k, 'a) nf10_scheme option" where
  "pass_work K env tx_int rx_int s = do {
     s \<leftarrow> (if tx_done tx_int then work_tx s else Some s);
     if rx_done rx_int then work_rx K (pe_rx env s) rx_int s else Some s
   }"

definition pass_end :: "bool \<Rightarrow> work_vars \<Rightarrow> ('k, 'a) nf10_scheme \<Rightarrow> work_vars \<times> ('k, 'a) nf10_scheme" where
  "pass_end irq_done v s =
     (let v = v\<lparr>work_counter := work_counter v + 1\<rparr>;
          v = v\<lparr>tcnt := (if irq_done then tcnt v - 1 else if tcnt v < 10000 then tcnt v + 1 else tcnt v)\<rparr>
      in if tcnt v \<le> 1 \<and> \<not> int_enabled v
         then (v\<lparr>work_counter := 0, tcnt := 1, int_enabled := True\<rparr>, set_ints 1 s)
         else (v, s))"

definition work_pass :: "'k nf_kernel \<Rightarrow> ('k, ('k, 'a) nf10_scheme) pass_env \<Rightarrow> work_vars \<Rightarrow> ('k, 'a) nf10_scheme \<Rightarrow>
    (work_vars \<times> ('k, 'a) nf10_scheme) option" where
  "work_pass K env v s = do {
     let (v, s) = pass_head env v s;
     tx_int \<leftarrow> poll_tx s;
     rx_int \<leftarrow> poll_rx s;
     s \<leftarrow> pass_work K env tx_int rx_int s;
     Some (pass_end (\<not> tx_done tx_int \<and> \<not> rx_done rx_int) v s)
   }"

partial_function (option) work_loop :: "'k nf_kernel \<Rightarrow> (nat \<Rightarrow> ('k, ('k, 'a) nf10_scheme) pass_env) \<Rightarrow> nat \<Rightarrow> work_vars \<Rightarrow>
    ('k, 'a) nf10_scheme \<Rightarrow> (nat \<times> ('k, 'a) nf10_scheme) option" where
  "work_loop K env n v s =
     (if tcnt v = 0 then Some (n, s)
      else do {
        (v, s) \<leftarrow> work_pass K (env n) v s;
        work_loop K env (Suc n) v s
      })"

text \<open>The handler; the first component of its result is the number of passes.\<close>

definition work_handler :: "'k nf_kernel \<Rightarrow> (nat \<Rightarrow> ('k, ('k, 'a) nf10_scheme) pass_env) \<Rightarrow> ('k, 'a) nf10_scheme \<Rightarrow>
    (nat \<times> ('k, 'a) nf10_scheme) option" where
  "work_handler K env s = work_loop K env 0 \<lparr>work_counter = 0, tcnt = 1, int_enabled = True\<rparr> s"

subsection \<open>The network interfaces\<close>

definition int_handler :: "('k, 'a) nf10_scheme \<Rightarrow> ('k, 'a) nf10_scheme" where
  "int_handler s = s\<lparr>work_queued := True\<rparr>"

text \<open>
  \<open>nf10i_tx\<close>. Padding is left to the kernel: \<open>pad\<close> is the socket buffer after \<^verbatim>\<open>skb_pad\<close>, or \<open>None\<close> when that
  failed and freed the socket buffer. The statistics are updated last, from the socket buffer.
\<close>

definition tx_min_size :: "'k nf_kernel \<Rightarrow> 'k sk_buff option \<Rightarrow> u64 \<Rightarrow> ('k, 'a) nf10_scheme \<Rightarrow> ('k, 'a) nf10_scheme option" where
  "tx_min_size K pad skb s = do {
     b \<leftarrow> skbs s skb;
     if skb_len b < 60 then do {
       let s = s\<lparr>skbs := (skbs s)(skb := pad)\<rparr>;
       b \<leftarrow> skbs s skb;
       b \<leftarrow> k_skb_put K (60 - skb_len b) b;
       Some (s\<lparr>skbs := (skbs s)(skb \<mapsto> b)\<rparr>)
     }
     else Some s
   }"

definition tx_count :: "u64 \<Rightarrow> nat \<Rightarrow> ('k, 'a) nf10_scheme \<Rightarrow> ('k, 'a) nf10_scheme option" where
  "tx_count skb port s = do {
     s \<leftarrow> upd_ndev port (\<lambda>d. d\<lparr>tx_packets := tx_packets d + 1\<rparr>) s;
     b \<leftarrow> skbs s skb;
     upd_ndev port (\<lambda>d. d\<lparr>tx_bytes := tx_bytes d + ucast (skb_len b)\<rparr>) s
   }"

definition nf10i_tx :: "'k nf_kernel \<Rightarrow> 'k sk_buff option \<Rightarrow> u64 option \<Rightarrow> u64 \<Rightarrow> nat \<Rightarrow> ('k, 'a) nf10_scheme \<Rightarrow> ('k, 'a) nf10_scheme option" where
  "nf10i_tx K pad dma skb dev s = do {
     d \<leftarrow> rd (ndev s) dev;
     d \<leftarrow> d;
     let port = port_num d;
     s \<leftarrow> tx_min_size K pad skb s;
     b \<leftarrow> skbs s skb;
     if skb_len b > 1514 then kfree_skb skb s
     else do {
       (r, s) \<leftarrow> nf10priv_xmit dma skb port s;
       if r \<noteq> 0 then kfree_skb skb s
       else tx_count skb port s
     }
   }"

definition nf10i_open :: "nat \<Rightarrow> ('k, 'a) nf10_scheme \<Rightarrow> ('k, 'a) nf10_scheme option" where
  "nf10i_open dev s = upd_ndev dev (\<lambda>d. d\<lparr>port_up := True\<rparr>) s"

definition nf10i_stop :: "nat \<Rightarrow> ('k, 'a) nf10_scheme \<Rightarrow> ('k, 'a) nf10_scheme option" where
  "nf10i_stop dev s = upd_ndev dev (\<lambda>d. d\<lparr>port_up := False\<rparr>) s"

text \<open>\<^verbatim>\<open>is_valid_ether_addr\<close> is the argument \<open>valid\<close>; the result \<open>False\<close> is \<^verbatim>\<open>-EADDRNOTAVAIL\<close>.\<close>

definition nf10i_set_mac :: "(u8 list \<Rightarrow> bool) \<Rightarrow> nat \<Rightarrow> u8 list \<Rightarrow> ('k, 'a) nf10_scheme \<Rightarrow> (bool \<times> ('k, 'a) nf10_scheme) option" where
  "nf10i_set_mac valid dev sa_data s =
     (if \<not> valid sa_data then Some (False, s)
      else do {
        s \<leftarrow> upd_ndev dev (\<lambda>d. d\<lparr>dev_addr := take 6 sa_data\<rparr>) s;
        Some (True, s)
      })"

subsection \<open>Setting up the rings\<close>

text \<open>The part of \<open>nf10_probe\<close> that sets the masks: a descriptor ring and its completion ring get the same size.\<close>

definition wr_cfg :: "nat \<Rightarrow> u64 \<Rightarrow> ('k, 'a) nf10_scheme \<Rightarrow> ('k, 'a) nf10_scheme" where
  "wr_cfg i v s = s\<lparr>cfg_addr := (cfg_addr s)(i := v)\<rparr>"

definition set_masks :: "('k, 'a) nf10_scheme \<Rightarrow> ('k, 'a) nf10_scheme" where
  "set_masks s =
     (let s = s\<lparr>tx_dsc_mask := 0x000007ff, rx_dsc_mask := 0x000007ff, tx_pkt_mask := 0x00007fff, rx_pkt_mask := 0x00007fff,
                tx_dne_mask := 0x000007ff, rx_dne_mask := 0x000007ff\<rparr>;
          s = (if tx_dsc_mask s > tx_dne_mask s then (wr_cfg 1 (tx_dne_mask s) s)\<lparr>tx_dsc_mask := tx_dne_mask s\<rparr>
               else if tx_dne_mask s > tx_dsc_mask s then (wr_cfg 7 (tx_dsc_mask s) s)\<lparr>tx_dne_mask := tx_dsc_mask s\<rparr>
               else s)
      in if rx_dsc_mask s > rx_dne_mask s then (wr_cfg 9 (rx_dne_mask s) s)\<lparr>rx_dsc_mask := rx_dne_mask s\<rparr>
         else if rx_dne_mask s > rx_dsc_mask s then (wr_cfg 15 (rx_dsc_mask s) s)\<lparr>rx_dne_mask := rx_dsc_mask s\<rparr>
         else s)"

text \<open>The initial contents of the rings; \<open>fill\<close> are the loops that invalidate the completions.\<close>

definition init_mem :: "u64 \<Rightarrow> nf10mem" where
  "init_mem m = \<lparr>wr_ptr = 0, rd_ptr = 0, cnt = 0, mem_mask = m, cl_size = (m + 1) div 64\<rparr>"

fun fill :: "(nat \<Rightarrow> nat) \<Rightarrow> 'v \<Rightarrow> nat \<Rightarrow> nat \<Rightarrow> 'v list \<Rightarrow> 'v list option" where
  "fill at v i 0 xs = Some xs"
| "fill at v i (Suc n) xs = do {
     xs \<leftarrow> wr xs (at i) v;
     fill at v (Suc i) n xs
   }"

definition init_rings :: "u64 \<Rightarrow> u64 \<Rightarrow> ('k, 'a) nf10_scheme \<Rightarrow> ('k, 'a) nf10_scheme option" where
  "init_rings host_tx_dne_dma host_rx_dne_dma s = do {
     let s = wr_cfg 19 (rx_dne_mask s) (wr_cfg 18 host_rx_dne_dma (wr_cfg 17 (tx_dne_mask s) (wr_cfg 16 host_tx_dne_dma s)));
     let s = s\<lparr>mem_tx_dsc := init_mem (tx_dsc_mask s), mem_tx_pkt := init_mem (tx_pkt_mask s), mem_rx_dsc := init_mem (rx_dsc_mask s),
               mem_rx_pkt := init_mem (rx_pkt_mask s), host_tx_dne := init_mem (tx_dne_mask s), host_rx_dne := init_mem (rx_dne_mask s)\<rparr>;
     tdne \<leftarrow> fill (\<lambda>i. i * 16) 0xffffffff 0 (unat (cl_size (host_tx_dne s))) (host_tx_dne_ptr s);
     rdne \<leftarrow> fill (\<lambda>i. i * 8 + 7) (not 0) 0 (unat (cl_size (host_rx_dne s))) (host_rx_dne_ptr s);
     Some (s\<lparr>host_tx_dne_ptr := tdne, host_rx_dne_ptr := rdne\<rparr>)
   }"

text \<open>The descriptors that \<open>nf10iface_probe\<close> gives to the card, one for each element of the supply.\<close>

fun give_dscs :: "'k nf_kernel \<Rightarrow> 'k rx_supply list \<Rightarrow> ('k, 'a) nf10_scheme \<Rightarrow> ('k, 'a) nf10_scheme option" where
  "give_dscs K [] s = Some s"
| "give_dscs K (rxs # rest) s = do {
     (r, s) \<leftarrow> nf10priv_send_rx_dsc K rxs s;
     give_dscs K rest s
   }"

end
