(* ===== verification/Nf10_Ring.thy ===== *)
theory Nf10_Ring
  imports Nf10_Driver
begin

text \<open>
  The rings that the NIC driver shares with the card, and their interleavings. A state \<open>nf_sys\<close> adds
  to the state of the driver what the card has still to do and the transmissions that are between
  the two parts of \<open>nf10priv_xmit\<close>; \<open>nf_step\<close> is one step of a transmitter, of the card or of the
  completion handler. The card handles descriptors in the order of the ring, each one once and
  only after it was written, and then writes the completion of that slot; this is all that is
  assumed of it. The invariant says which socket buffer is booked in which slot.
\<close>

subsection \<open>Ring positions\<close>

definition ptr :: "nat \<Rightarrow> u64" where
  "ptr i = of_nat (64 * i)"

definition slot :: "nat \<Rightarrow> nat \<Rightarrow> nat" where
  "slot r i = (r + i) mod 32"

lemma slot_less [simp]: "slot r i < 32"
  by (simp add: slot_def)

lemma slot_0 [simp]: "r < 32 \<Longrightarrow> slot r 0 = r"
  by (simp add: slot_def)

lemma slot_Suc [simp]: "slot (slot r (Suc 0)) i = slot r (Suc i)"
  by (simp add: slot_def mod_simps)

lemma slot_slot [simp]: "slot (slot r i) (Suc 0) = slot r (Suc i)"
  by (simp add: slot_def mod_simps)

lemma slot_inj:
  assumes "i < 32" "j < 32"
  shows "slot r i = slot r j \<longleftrightarrow> i = j"
proof -
  have "i = j" if "i \<le> j" "j < 32" "(r + j) mod 32 = (r + i) mod 32" for i j
  proof -
    have "32 dvd r + j - (r + i)" using that mod_eq_dvd_iff_nat [of "r + i" "r + j" 32] by simp
    then show ?thesis using that by (auto dest: dvd_imp_le)
  qed
  from this [of i j] this [of j i] assms show ?thesis by (cases "i \<le> j") (auto simp: slot_def)
qed

lemma unat_ptr: "i < 32 \<Longrightarrow> unat (ptr i) = 64 * i"
  by (simp add: ptr_def unat_of_nat del: of_nat_mult)

lemma ptr_div [simp]:
  "i < 32 \<Longrightarrow> unat (ptr i div 64) = i" "i < 32 \<Longrightarrow> unat (ptr i div 4) = i * 16" "i < 32 \<Longrightarrow> unat (ptr i div 8) = i * 8"
  by (simp_all add: unat_div_distrib unat_ptr)

lemma ptr_next [simp]:
  assumes "i < 32"
  shows "and (ptr i + 64) 0x7ff = ptr (slot i (Suc 0))"
proof -
  have m: "(0x7ff :: u64) = mask 11" by (simp add: mask_eq_exp_minus_1)
  have "and (ptr i + 64) 0x7ff = take_bit 11 (of_nat (64 * (i + 1)))"
    unfolding m by (simp add: take_bit_eq_mask ptr_def algebra_simps)
  also have "\<dots> = of_nat (take_bit 11 (64 * (i + 1)))"
    by (rule take_bit_of_nat)
  also have "take_bit 11 (64 * (i + 1)) = 64 * ((i + 1) mod 32)"
    using mult_mod_right [of 64 "i + 1" 32] by (simp add: take_bit_eq_mod)
  finally show ?thesis by (simp add: ptr_def slot_def)
qed

lemma rd_Some [simp]: "i < length xs \<Longrightarrow> rd xs i = Some (xs ! i)"
  by (simp add: rd_def)

lemma wr_Some [simp]: "i < length xs \<Longrightarrow> wr xs i v = Some (xs[i := v])"
  by (simp add: wr_def)

subsection \<open>The transmit ring\<close>

text \<open>A transmission between the two parts of \<open>nf10priv_xmit\<close>.\<close>

record xmit_req =
  xr_skb :: u64
  xr_dma :: u64
  xr_len :: u32
  xr_port :: nat
  xr_addr :: "u64 \<times> u64"

definition xr_slot :: "xmit_req \<Rightarrow> nat" where
  "xr_slot x = unat (snd (xr_addr x) div 64)"

definition xmit_post_req :: "xmit_req \<Rightarrow> ('k, 'a) nf10_scheme \<Rightarrow> ('k, 'a) nf10_scheme option" where
  "xmit_post_req x = xmit_post (xr_dma x) (xr_skb x) (xr_len x) (xr_port x) (xr_addr x)"

definition tx_cfg :: "('k, 'a) nf10_scheme \<Rightarrow> bool" where
  "tx_cfg s \<longleftrightarrow> mem_mask (mem_tx_dsc s) = 0x7ff \<and> cl_size (mem_tx_dsc s) = 32 \<and> cl_size (mem_tx_pkt s) = 512 \<and>
     mem_mask (host_tx_dne s) = 0x7ff \<and> length (host_tx_dne_ptr s) = 512 \<and> length (tx_bk_skb s) = 32 \<and>
     length (tx_bk_dma_addr s) = 32 \<and> length (tx_bk_size s) = 32 \<and> length (tx_bk_port s) = 32"

definition tx_dne :: "('k, 'a) nf10_scheme \<Rightarrow> nat \<Rightarrow> bool" where
  "tx_dne s j \<longleftrightarrow> tx_done (host_tx_dne_ptr s ! (j * 16))"

definition tx_booked :: "('k, 'a) nf10_scheme \<Rightarrow> nat \<Rightarrow> u64 \<times> u64 \<Rightarrow> bool" where
  "tx_booked s j q \<longleftrightarrow> tx_bk_skb s ! j = fst q \<and> tx_bk_size s ! j = snd q"

text \<open>
  The invariant: \<open>r\<close> is the oldest slot in use, \<open>Q\<close> the packets in use with their sizes, and the first
  \<open>k\<close> of them are completed. The card handles the slot \<open>h\<close> next, the slots \<open>P\<close> hold descriptors that it
  has not handled, and \<open>X\<close> are the transmissions that have not written theirs.
\<close>

definition tx_ring :: "('k, 'a) nf10_scheme \<Rightarrow> nat \<Rightarrow> nat set \<Rightarrow> xmit_req set \<Rightarrow> nat \<Rightarrow> (u64 \<times> u64) list \<Rightarrow> nat \<Rightarrow> bool" where
  "tx_ring s h P X r Q k \<longleftrightarrow> tx_cfg s \<and> r < 32 \<and> length Q \<le> 32 \<and> k \<le> length Q \<and>
     rd_ptr (host_tx_dne s) = ptr r \<and> wr_ptr (mem_tx_dsc s) = ptr (slot r (length Q)) \<and>
     unat (cnt (mem_tx_dsc s)) = length Q \<and> unat (cnt (mem_tx_pkt s)) = (\<Sum>q\<leftarrow>Q. unat (snd q)) \<and> (\<Sum>q\<leftarrow>Q. unat (snd q)) \<le> 512 \<and>
     h = slot r k \<and> P \<subseteq> slot r ` {k..<length Q} \<and>
     (\<forall>i<32. tx_dne s (slot r i) \<longleftrightarrow> i < k) \<and>
     (\<forall>i<length Q. i < k \<or> slot r i \<in> P \<longrightarrow> tx_booked s (slot r i) (Q ! i)) \<and>
     (\<forall>x\<in>X. \<exists>i. k \<le> i \<and> i < length Q \<and> snd (xr_addr x) = ptr (slot r i) \<and> slot r i \<notin> P \<and> Q ! i = (xr_skb x, xmit_cl_size (xr_len x))) \<and>
     inj_on xr_slot X"

definition nd_ok :: "('k, 'a) nf10_scheme \<Rightarrow> bool" where
  "nd_ok s \<longleftrightarrow> length (ndev s) = 4 \<and> None \<notin> set (ndev s)"

definition rx_card where
  "rx_card s = (mem_rx_dsc s, mem_rx_pkt s, host_rx_dne s, host_rx_dne_ptr s, rx_bk_skb s, rx_bk_dma_addr s, rx_bk_size s)"

definition tx_card where
  "tx_card s = (mem_tx_dsc s, mem_tx_pkt s, host_tx_dne s, host_tx_dne_ptr s, tx_bk_skb s, tx_bk_dma_addr s, tx_bk_size s, tx_bk_port s)"

lemma tx_ring_cong: "tx_card s' = tx_card s \<Longrightarrow> tx_ring s' = tx_ring s"
  by (simp add: tx_card_def tx_ring_def tx_cfg_def tx_dne_def tx_booked_def fun_eq_iff)

text \<open>Network devices may change; the rings and the socket buffers do not.\<close>

definition same_rings :: "('k, 'a) nf10_scheme \<Rightarrow> ('k, 'a) nf10_scheme \<Rightarrow> bool" where
  "same_rings s s' \<longleftrightarrow> tx_card s' = tx_card s \<and> rx_card s' = rx_card s \<and> skbs s' = skbs s \<and> delivered s' = delivered s \<and>
     nf10.more s' = nf10.more s"

lemma same_rings_refl [simp]: "same_rings s s"
  by (simp add: same_rings_def)

lemma same_rings_trans: "same_rings s s' \<Longrightarrow> same_rings s' s'' \<Longrightarrow> same_rings s s''"
  by (simp add: same_rings_def)

lemma upd_ndev_ok:
  assumes "nd_ok s" "port < 4"
  shows "\<exists>s'. upd_ndev port f s = Some s' \<and> nd_ok s' \<and> same_rings s s'"
proof -
  from assms obtain d where "ndev s ! port = Some d" by (metis nd_ok_def not_None_eq nth_mem)
  moreover have "None \<notin> set ((ndev s)[port := Some (f d)])" using assms set_update_subset_insert by (fastforce simp: nd_ok_def)
  ultimately show ?thesis
    using assms by (simp add: upd_ndev_def nd_ok_def same_rings_def tx_card_def rx_card_def)
qed

lemma wake_queues_ok: "nd_ok s \<Longrightarrow> \<forall>i\<in>set is. i < 4 \<Longrightarrow> \<exists>s'. wake_queues is s = Some s' \<and> nd_ok s' \<and> same_rings s s'"
proof (induction "is" arbitrary: s)
  case (Cons i "is")
  from upd_ndev_ok [OF Cons.prems(1), of i] Cons.prems(2) obtain t where
    "upd_ndev i (\<lambda>d. if queue_stopped d then d\<lparr>queue_stopped := False\<rparr> else d) s = Some t" "nd_ok t" "same_rings s t" by auto
  with Cons.IH [of t] Cons.prems(2) same_rings_trans show ?case by fastforce
qed simp

lemma unat_cl_size: "len \<le> 1514 \<Longrightarrow> unat (xmit_cl_size len) \<le> 25"
proof -
  assume "len \<le> 1514"
  then have "unat (len + 2 * 63) = unat len + 126" "unat len \<le> 1514" by (simp_all add: unat_add_less word_le_unat)
  then have "unat ((len + 2 * 63) div 64) \<le> 25" by (simp add: unat_div_distrib)
  then show ?thesis by (simp add: xmit_cl_size_def unsigned_ucast_eq take_bit_eq_mod)
qed

text \<open>The ring after room for one more packet was taken.\<close>

lemma tx_ring_reserve:
  assumes ring: "tx_ring s h P X r Q k" and room: "length Q < 32" "(\<Sum>q\<leftarrow>Q. unat (snd q)) + unat cl \<le> 512" and cl: "cl = xmit_cl_size len"
    and s': "mem_tx_dsc s' = (mem_tx_dsc s)\<lparr>wr_ptr := and (wr_ptr (mem_tx_dsc s) + 64) (mem_mask (mem_tx_dsc s)), cnt := cnt (mem_tx_dsc s) + 1\<rparr>"
    "mem_tx_pkt s' = (mem_tx_pkt s)\<lparr>wr_ptr := w, cnt := cnt (mem_tx_pkt s) + cl\<rparr>"
    "host_tx_dne s' = host_tx_dne s" "host_tx_dne_ptr s' = host_tx_dne_ptr s" "tx_bk_skb s' = tx_bk_skb s" "tx_bk_dma_addr s' = tx_bk_dma_addr s"
    "tx_bk_size s' = tx_bk_size s" "tx_bk_port s' = tx_bk_port s"
  shows "tx_ring s' h P (insert \<lparr>xr_skb = skb, xr_dma = dma, xr_len = len, xr_port = port, xr_addr = (p, wr_ptr (mem_tx_dsc s))\<rparr> X)
    r (Q @ [(skb, cl)]) k"
proof -
  let ?x = "\<lparr>xr_skb = skb, xr_dma = dma, xr_len = len, xr_port = port, xr_addr = (p, wr_ptr (mem_tx_dsc s))\<rparr>"
  have wp: "wr_ptr (mem_tx_dsc s) = ptr (slot r (length Q))" and k: "k \<le> length Q" and P: "P \<subseteq> slot r ` {k..<length Q}"
    and X: "\<And>x. x \<in> X \<Longrightarrow> \<exists>i. k \<le> i \<and> i < length Q \<and> snd (xr_addr x) = ptr (slot r i) \<and> slot r i \<notin> P \<and> Q ! i = (xr_skb x, xmit_cl_size (xr_len x))"
    using ring by (auto simp: tx_ring_def)
  have new: "slot r (length Q) \<notin> P"
  proof
    assume "slot r (length Q) \<in> P"
    then obtain i where "slot r (length Q) = slot r i" "i < length Q" using P by (meson atLeastLessThan_iff image_iff subsetD)
    then show False using slot_inj [of "length Q" i r] room(1) by simp
  qed
  have "xr_slot y \<noteq> xr_slot ?x" if "y \<in> X" for y
  proof -
    from X [OF that] obtain i where "i < length Q" "snd (xr_addr y) = ptr (slot r i)" by blast
    then show ?thesis using wp room(1) slot_inj [of i "length Q" r] by (simp add: xr_slot_def)
  qed
  then have inj: "inj_on xr_slot (insert ?x X)" using ring by (fastforce simp: tx_ring_def)
  have bk: "\<forall>i<length (Q @ [(skb, cl)]). i < k \<or> slot r i \<in> P \<longrightarrow> tx_booked s (slot r i) ((Q @ [(skb, cl)]) ! i)"
    using ring new k by (auto simp: tx_ring_def nth_append less_Suc_eq)
  have X': "\<forall>x\<in>insert ?x X. \<exists>i. k \<le> i \<and> i < length (Q @ [(skb, cl)]) \<and> snd (xr_addr x) = ptr (slot r i) \<and> slot r i \<notin> P \<and>
      (Q @ [(skb, cl)]) ! i = (xr_skb x, xmit_cl_size (xr_len x))"
  proof
    fix x assume x: "x \<in> insert ?x X"
    show "\<exists>i. k \<le> i \<and> i < length (Q @ [(skb, cl)]) \<and> snd (xr_addr x) = ptr (slot r i) \<and> slot r i \<notin> P \<and>
      (Q @ [(skb, cl)]) ! i = (xr_skb x, xmit_cl_size (xr_len x))"
    proof (cases "x = ?x")
      case True
      then show ?thesis using new wp k cl by (intro exI [of _ "length Q"]) simp
    next
      case False
      with x X obtain i where "k \<le> i" "i < length Q" "snd (xr_addr x) = ptr (slot r i)" "slot r i \<notin> P" "Q ! i = (xr_skb x, xmit_cl_size (xr_len x))"
        by blast
      then show ?thesis by (intro exI [of _ i]) (simp add: nth_append)
    qed
  qed
  have cfg: "tx_cfg s'" using ring s' by (simp add: tx_ring_def tx_cfg_def)
  have wp': "wr_ptr (mem_tx_dsc s') = ptr (slot r (length (Q @ [(skb, cl)])))"
    using s'(1) wp ring by (simp add: tx_ring_def tx_cfg_def)
  have cnt: "unat (cnt (mem_tx_dsc s')) = length (Q @ [(skb, cl)])" "unat (cnt (mem_tx_pkt s')) = (\<Sum>q\<leftarrow>Q @ [(skb, cl)]. unat (snd q))"
    using ring s'(1,2) room by (simp_all add: tx_ring_def unat_add_less)
  have dne: "\<forall>i<32. tx_dne s' (slot r i) \<longleftrightarrow> i < k" using ring s' by (simp add: tx_ring_def tx_dne_def)
  have bk': "\<forall>i<length (Q @ [(skb, cl)]). i < k \<or> slot r i \<in> P \<longrightarrow> tx_booked s' (slot r i) ((Q @ [(skb, cl)]) ! i)"
    using bk s' by (simp add: tx_booked_def)
  have rest: "r < 32" "length (Q @ [(skb, cl)]) \<le> 32" "k \<le> length (Q @ [(skb, cl)])" "rd_ptr (host_tx_dne s') = ptr r" "h = slot r k"
      "(\<Sum>q\<leftarrow>Q @ [(skb, cl)]. unat (snd q)) \<le> 512"
    using ring room s' by (simp_all add: tx_ring_def)
  have "slot r ` {k..<length Q} \<subseteq> slot r ` {k..<length (Q @ [(skb, cl)])}" by (intro image_mono) auto
  with P have "P \<subseteq> slot r ` {k..<length (Q @ [(skb, cl)])}" by blast
  then show ?thesis unfolding tx_ring_def using cfg wp' cnt dne bk' X' inj rest by blast
qed

lemma xmit_reserve_ok:
  assumes "nd_ok s" "port < 4" "tx_ring s h P X r Q k" "len \<le> 1514"
  shows "\<exists>a s'. xmit_reserve (Some dma) len port s = Some (a, s') \<and> nd_ok s' \<and> rx_card s' = rx_card s \<and> skbs s' = skbs s \<and>
    delivered s' = delivered s \<and> nf10.more s' = nf10.more s \<and>
    (case a of None \<Rightarrow> s' = s
     | Some a \<Rightarrow> tx_ring s' h P (insert \<lparr>xr_skb = skb, xr_dma = dma, xr_len = len, xr_port = port, xr_addr = a\<rparr> X) r (Q @ [(skb, xmit_cl_size len)]) k)"
proof (cases "cnt (mem_tx_dsc s) + 1 \<le> cl_size (mem_tx_dsc s) \<and> cnt (mem_tx_pkt s) + xmit_cl_size len \<le> cl_size (mem_tx_pkt s)")
  case False
  have "xmit_reserve (Some dma) len port s = Some (None, s)"
    unfolding xmit_reserve_def Let_def using False by (rule if_not_P)
  then show ?thesis using assms(1) by simp
next
  case True
  let ?cl = "xmit_cl_size len"
  let ?t = "s\<lparr>mem_tx_dsc := (mem_tx_dsc s)\<lparr>wr_ptr := and (wr_ptr (mem_tx_dsc s) + 64) (mem_mask (mem_tx_dsc s)), cnt := cnt (mem_tx_dsc s) + 1\<rparr>,
    mem_tx_pkt := (mem_tx_pkt s)\<lparr>wr_ptr := and (wr_ptr (mem_tx_pkt s) + 64 * ?cl) (mem_mask (mem_tx_pkt s)), cnt := cnt (mem_tx_pkt s) + ?cl\<rparr>\<rparr>"
  have "unat (cnt (mem_tx_dsc s)) = length Q" "length Q \<le> 32" "cl_size (mem_tx_dsc s) = 32" "cl_size (mem_tx_pkt s) = 512"
      "unat (cnt (mem_tx_pkt s)) = (\<Sum>q\<leftarrow>Q. unat (snd q))" "(\<Sum>q\<leftarrow>Q. unat (snd q)) \<le> 512"
    using assms(3) by (simp_all add: tx_ring_def tx_cfg_def)
  then have room: "length Q < 32" "(\<Sum>q\<leftarrow>Q. unat (snd q)) + unat ?cl \<le> 512"
    using True unat_cl_size [OF assms(4)] by (simp_all add: word_le_unat unat_add_less)
  have t: "tx_ring t h P (insert \<lparr>xr_skb = skb, xr_dma = dma, xr_len = len, xr_port = port, xr_addr = (p, wr_ptr (mem_tx_dsc s))\<rparr> X)
    r (Q @ [(skb, ?cl)]) k" if "tx_card t = tx_card ?t" for t p
    using tx_ring_reserve [OF assms(3) room refl, of t] that by (simp add: tx_card_def)
  have nd: "nd_ok ?t" using assms(1) by (simp add: nd_ok_def)
  from upd_ndev_ok [OF nd assms(2), of "\<lambda>d. d\<lparr>queue_stopped := True\<rparr>"] obtain u where
    u: "upd_ndev port (\<lambda>d. d\<lparr>queue_stopped := True\<rparr>) ?t = Some u" "nd_ok u" "same_rings ?t u" by blast
  have eq: "xmit_reserve (Some dma) len port s = Some (Some (wr_ptr (mem_tx_pkt s), wr_ptr (mem_tx_dsc s)),
      if cnt (mem_tx_dsc ?t) + 1 \<le> cl_size (mem_tx_dsc ?t) \<and> cnt (mem_tx_pkt ?t) + 32 \<le> cl_size (mem_tx_pkt ?t) then ?t else u)"
    using True u(1) by (simp add: xmit_reserve_def Let_def)
  show ?thesis
    using t [of ?t "wr_ptr (mem_tx_pkt s)"] t [of u "wr_ptr (mem_tx_pkt s)"] u nd unfolding eq
    by (auto simp: same_rings_def rx_card_def)
qed

lemma xmit_post_ok:
  assumes ring: "tx_ring s h P X r Q k" and x: "x \<in> X"
  shows "\<exists>s'. xmit_post_req x s = Some s' \<and> tx_ring s' h (insert (xr_slot x) P) (X - {x}) r Q k \<and> rx_card s' = rx_card s \<and>
    skbs s' = skbs s \<and> ndev s' = ndev s \<and> delivered s' = delivered s \<and> nf10.more s' = nf10.more s"
proof -
  from ring x obtain i where i: "k \<le> i" "i < length Q" "snd (xr_addr x) = ptr (slot r i)" "slot r i \<notin> P" "Q ! i = (xr_skb x, xmit_cl_size (xr_len x))"
    by (auto simp: tx_ring_def)
  have xi: "xr_slot x = slot r i" using i(3) by (simp add: xr_slot_def)
  have Q: "length Q \<le> 32" and cfg: "tx_cfg s" using ring by (auto simp: tx_ring_def)
  define s' where "s' = the (xmit_post_req x s)"
  have s': "xmit_post_req x s = Some s'" "tx_bk_skb s' = (tx_bk_skb s)[slot r i := xr_skb x]"
      "tx_bk_size s' = (tx_bk_size s)[slot r i := xmit_cl_size (xr_len x)]" "length (tx_bk_dma_addr s') = 32" "length (tx_bk_port s') = 32"
      "mem_tx_dsc s' = mem_tx_dsc s" "mem_tx_pkt s' = mem_tx_pkt s" "host_tx_dne s' = host_tx_dne s" "host_tx_dne_ptr s' = host_tx_dne_ptr s"
      "rx_card s' = rx_card s" "skbs s' = skbs s" "ndev s' = ndev s" "delivered s' = delivered s" "nf10.more s' = nf10.more s"
    using cfg xi by (simp_all add: s'_def xmit_post_req_def xmit_post_def xr_slot_def case_prod_beta Let_def tx_cfg_def rx_card_def)
  have bk: "tx_booked s' (slot r j) (Q ! j)" if "j < length Q" "j < k \<or> slot r j \<in> insert (xr_slot x) P" for j
  proof (cases "j = i")
    case True
    then show ?thesis using s' i(5) cfg by (simp add: tx_booked_def tx_cfg_def)
  next
    case False
    then have ne: "slot r j \<noteq> slot r i" using slot_inj [of j i r] that(1) i(2) Q by simp
    then have "tx_booked s (slot r j) (Q ! j)" using ring that xi by (auto simp: tx_ring_def)
    then show ?thesis using s' ne by (simp add: tx_booked_def)
  qed
  have X: "\<forall>y\<in>X - {x}. \<exists>j. k \<le> j \<and> j < length Q \<and> snd (xr_addr y) = ptr (slot r j) \<and> slot r j \<notin> insert (xr_slot x) P \<and>
      Q ! j = (xr_skb y, xmit_cl_size (xr_len y))"
  proof
    fix y assume y: "y \<in> X - {x}"
    with ring obtain j where j: "k \<le> j" "j < length Q" "snd (xr_addr y) = ptr (slot r j)" "slot r j \<notin> P" "Q ! j = (xr_skb y, xmit_cl_size (xr_len y))"
      by (auto simp: tx_ring_def)
    have "xr_slot y \<noteq> xr_slot x" using ring x y by (auto simp: tx_ring_def inj_on_def)
    with j show "\<exists>j. k \<le> j \<and> j < length Q \<and> snd (xr_addr y) = ptr (slot r j) \<and> slot r j \<notin> insert (xr_slot x) P \<and>
      Q ! j = (xr_skb y, xmit_cl_size (xr_len y))" by (intro exI [of _ j]) (simp add: xr_slot_def)
  qed
  have "inj_on xr_slot (X - {x})" "insert (xr_slot x) P \<subseteq> slot r ` {k..<length Q}"
    using ring xi i by (auto simp: tx_ring_def intro: inj_on_subset)
  moreover have "tx_cfg s'" "\<forall>i<32. tx_dne s' (slot r i) \<longleftrightarrow> i < k" using ring s' by (simp_all add: tx_ring_def tx_cfg_def tx_dne_def)
  moreover have "rd_ptr (host_tx_dne s') = ptr r" "wr_ptr (mem_tx_dsc s') = ptr (slot r (length Q))" "unat (cnt (mem_tx_dsc s')) = length Q"
      "unat (cnt (mem_tx_pkt s')) = (\<Sum>q\<leftarrow>Q. unat (snd q))" "(\<Sum>q\<leftarrow>Q. unat (snd q)) \<le> 512" "h = slot r k" "r < 32" "k \<le> length Q"
    using ring s' by (simp_all add: tx_ring_def)
  ultimately have "tx_ring s' h (insert (xr_slot x) P) (X - {x}) r Q k" using bk X Q unfolding tx_ring_def by blast
  with s' show ?thesis by blast
qed

text \<open>The card completes the oldest transmission it has not handled.\<close>

lemma card_tx_ok:
  assumes ring: "tx_ring s h P X r Q k" and h: "h \<in> P" "tx_done c"
    and s': "tx_card s' = tx_card (s\<lparr>host_tx_dne_ptr := (host_tx_dne_ptr s)[h * 16 := c]\<rparr>)"
  shows "tx_ring s' (slot h (Suc 0)) (P - {h}) X r Q (Suc k)"
proof -
  have k: "k < length Q" "h = slot r k" "length Q \<le> 32"
  proof -
    show "h = slot r k" "length Q \<le> 32" using ring by (auto simp: tx_ring_def)
    from ring h(1) obtain i where i: "h = slot r i" "k \<le> i" "i < length Q" by (auto simp: tx_ring_def)
    then show "k < length Q" by simp
  qed
  have P: "P - {h} \<subseteq> slot r ` {Suc k..<length Q}"
  proof
    fix j assume j: "j \<in> P - {h}"
    with ring obtain i where i: "j = slot r i" "k \<le> i" "i < length Q" by (auto simp: tx_ring_def)
    then have "i \<noteq> k" using j k by auto
    with i show "j \<in> slot r ` {Suc k..<length Q}" by simp
  qed
  have dne: "\<forall>i<32. tx_dne s' (slot r i) \<longleftrightarrow> i < Suc k"
  proof (intro allI impI)
    fix i :: nat assume i: "i < 32"
    have "tx_dne s' (slot r i) \<longleftrightarrow> (if slot r i = h then True else tx_dne s (slot r i))"
      using s' h(2) ring i k by (auto simp: tx_card_def tx_dne_def tx_ring_def tx_cfg_def nth_list_update)
    also have "\<dots> \<longleftrightarrow> i < Suc k" using ring i k slot_inj [of i k r] by (auto simp: tx_ring_def less_Suc_eq)
    finally show "tx_dne s' (slot r i) \<longleftrightarrow> i < Suc k" .
  qed
  have X: "\<forall>x\<in>X. \<exists>i. Suc k \<le> i \<and> i < length Q \<and> snd (xr_addr x) = ptr (slot r i) \<and> slot r i \<notin> P - {h} \<and> Q ! i = (xr_skb x, xmit_cl_size (xr_len x))"
  proof
    fix x assume "x \<in> X"
    with ring obtain i where i: "k \<le> i" "i < length Q" "snd (xr_addr x) = ptr (slot r i)" "slot r i \<notin> P" "Q ! i = (xr_skb x, xmit_cl_size (xr_len x))"
      by (auto simp: tx_ring_def)
    with h(1) k have "i \<noteq> k" by auto
    with i show "\<exists>i. Suc k \<le> i \<and> i < length Q \<and> snd (xr_addr x) = ptr (slot r i) \<and> slot r i \<notin> P - {h} \<and> Q ! i = (xr_skb x, xmit_cl_size (xr_len x))"
      by (intro exI [of _ i]) simp
  qed
  have bk: "\<forall>i<length Q. i < Suc k \<or> slot r i \<in> P - {h} \<longrightarrow> tx_booked s' (slot r i) (Q ! i)"
    using ring s' h(1) k by (auto simp: tx_card_def tx_booked_def tx_ring_def less_Suc_eq)
  have "tx_cfg s'" "rd_ptr (host_tx_dne s') = ptr r" "wr_ptr (mem_tx_dsc s') = ptr (slot r (length Q))" "unat (cnt (mem_tx_dsc s')) = length Q"
      "unat (cnt (mem_tx_pkt s')) = (\<Sum>q\<leftarrow>Q. unat (snd q))" "(\<Sum>q\<leftarrow>Q. unat (snd q)) \<le> 512" "r < 32" "inj_on xr_slot X"
    using ring s' by (simp_all add: tx_ring_def tx_card_def tx_cfg_def)
  then show ?thesis unfolding tx_ring_def using dne P X bk k by simp
qed

lemma work_tx_ok:
  assumes ring: "tx_ring s h P X r Q k" and dn: "tx_dne s r" and nd: "nd_ok s" and live: "fst ` set Q \<subseteq> dom (skbs s)"
  shows "\<exists>q Q' s'. 0 < k \<and> Q = q # Q' \<and> work_tx s = Some s' \<and> tx_bk_skb s ! r = fst q \<and> tx_ring s' h P X (slot r (Suc 0)) Q' (k - 1) \<and>
    rx_card s' = rx_card s \<and> skbs s' = (skbs s)(fst q := None) \<and> nd_ok s' \<and> delivered s' = delivered s \<and> nf10.more s' = nf10.more s"
proof -
  have r: "r < 32" "length Q \<le> 32" "k \<le> length Q" "rd_ptr (host_tx_dne s) = ptr r" and cfg: "tx_cfg s" using ring by (auto simp: tx_ring_def)
  have k: "0 < k" using ring dn r slot_0 [of r] by (auto simp: tx_ring_def dest!: spec [of _ 0])
  with r obtain q Q' where Q: "Q = q # Q'" by (cases Q) auto
  have bk: "tx_bk_skb s ! r = fst q" "tx_bk_size s ! r = snd q"
    using ring k Q r by (auto simp: tx_ring_def tx_booked_def dest!: spec [of _ 0])
  obtain b where b: "skbs s (fst q) = Some b" using live Q by auto
  let ?t = "s\<lparr>host_tx_dne := (host_tx_dne s)\<lparr>rd_ptr := ptr (slot r (Suc 0))\<rparr>, skbs := (skbs s)(fst q := None),
    mem_tx_pkt := (mem_tx_pkt s)\<lparr>cnt := cnt (mem_tx_pkt s) - snd q\<rparr>, mem_tx_dsc := (mem_tx_dsc s)\<lparr>cnt := cnt (mem_tx_dsc s) - 1\<rparr>,
    host_tx_dne_ptr := (host_tx_dne_ptr s)[r * 16 := 0xffffffff]\<rparr>"
  have nd': "nd_ok ?t" using nd by (simp add: nd_ok_def)
  from wake_queues_ok [OF nd', of "[0, 1, 2, 3]"] obtain u where u: "wake_queues [0, 1, 2, 3] ?t = Some u" "nd_ok u" "same_rings ?t u" by auto
  have "work_tx s = (if cnt (mem_tx_dsc ?t) + 8 * 1 \<le> cl_size (mem_tx_dsc ?t) \<and> cnt (mem_tx_pkt ?t) + 4 * 32 \<le> cl_size (mem_tx_pkt ?t)
      then wake_queues [0, 1, 2, 3] ?t else Some ?t)"
    using r cfg bk b by (simp add: work_tx_def Let_def tx_cfg_def kfree_skb_def)
  then obtain s' where s': "work_tx s = Some s'" "same_rings ?t s'" "nd_ok s'" using u nd' by (cases "cnt (mem_tx_dsc ?t) + 8 * 1 \<le> cl_size (mem_tx_dsc ?t) \<and>
      cnt (mem_tx_pkt ?t) + 4 * 32 \<le> cl_size (mem_tx_pkt ?t)") auto
  have card: "tx_card s' = tx_card ?t" using s'(2) by (simp add: same_rings_def)
  have "tx_ring s' h P X (slot r (Suc 0)) Q' (k - 1)"
  proof -
    have "\<not> tx_done 0xffffffff" by (simp add: tx_done_def)
    then have dne: "tx_dne s' (slot r (Suc i)) \<longleftrightarrow> i < k - 1" if "i < 32" for i
    proof (cases "i = 31")
      case True
      then have "slot r (Suc i) = r" using r(1) by (simp add: slot_def)
      then show ?thesis using card r(1) cfg True r Q by (simp add: tx_card_def tx_dne_def tx_cfg_def \<open>\<not> tx_done 0xffffffff\<close>)
    next
      case False
      with that have "slot r (Suc i) \<noteq> r" "Suc i < 32" using slot_inj [of "Suc i" 0 r] r(1) by auto
      then show ?thesis using ring card k by (auto simp: tx_card_def tx_dne_def tx_ring_def)
    qed
    have cnts: "unat (cnt (mem_tx_dsc s')) = length Q'" "unat (cnt (mem_tx_pkt s')) = (\<Sum>q\<leftarrow>Q'. unat (snd q))" "(\<Sum>q\<leftarrow>Q'. unat (snd q)) \<le> 512"
      using ring card Q by (simp_all add: tx_ring_def tx_card_def unat_sub_le)
    have P: "P \<subseteq> slot (slot r (Suc 0)) ` {k - 1..<length Q'}"
    proof
      fix j assume "j \<in> P"
      with ring obtain i where "j = slot r i" "k \<le> i" "i < length Q" by (auto simp: tx_ring_def)
      then show "j \<in> slot (slot r (Suc 0)) ` {k - 1..<length Q'}" using k Q by (intro image_eqI [of _ _ "i - 1"]) auto
    qed
    have bk': "\<forall>i<length Q'. i < k - 1 \<or> slot (slot r (Suc 0)) i \<in> P \<longrightarrow> tx_booked s' (slot (slot r (Suc 0)) i) (Q' ! i)"
    proof (intro allI impI)
      fix i assume i: "i < length Q'" "i < k - 1 \<or> slot (slot r (Suc 0)) i \<in> P"
      then have "tx_booked s (slot r (Suc i)) (Q ! Suc i)" using ring Q by (auto simp: tx_ring_def)
      then show "tx_booked s' (slot (slot r (Suc 0)) i) (Q' ! i)" using card Q by (simp add: tx_booked_def tx_card_def)
    qed
    have X: "\<forall>x\<in>X. \<exists>i. k - 1 \<le> i \<and> i < length Q' \<and> snd (xr_addr x) = ptr (slot (slot r (Suc 0)) i) \<and> slot (slot r (Suc 0)) i \<notin> P \<and>
        Q' ! i = (xr_skb x, xmit_cl_size (xr_len x))"
    proof
      fix x assume "x \<in> X"
      with ring obtain i where "k \<le> i" "i < length Q" "snd (xr_addr x) = ptr (slot r i)" "slot r i \<notin> P" "Q ! i = (xr_skb x, xmit_cl_size (xr_len x))"
        by (auto simp: tx_ring_def)
      then show "\<exists>i. k - 1 \<le> i \<and> i < length Q' \<and> snd (xr_addr x) = ptr (slot (slot r (Suc 0)) i) \<and> slot (slot r (Suc 0)) i \<notin> P \<and>
        Q' ! i = (xr_skb x, xmit_cl_size (xr_len x))" using k Q by (intro exI [of _ "i - 1"]) auto
    qed
    have "tx_cfg s'" "rd_ptr (host_tx_dne s') = ptr (slot r (Suc 0))" "wr_ptr (mem_tx_dsc s') = ptr (slot (slot r (Suc 0)) (length Q'))"
        "h = slot (slot r (Suc 0)) (k - 1)" "inj_on xr_slot X" "length Q' \<le> 32"
      using ring card Q k by (simp_all add: tx_ring_def tx_card_def tx_cfg_def)
    moreover have "k - 1 \<le> length Q'" using r(3) Q by auto
    ultimately show ?thesis unfolding tx_ring_def using dne cnts P bk' X by simp
  qed
  with Q s' bk k show ?thesis by (auto simp: same_rings_def rx_card_def)
qed

subsection \<open>The receive ring\<close>

definition rx_cfg :: "('k, 'a) nf10_scheme \<Rightarrow> bool" where
  "rx_cfg s \<longleftrightarrow> mem_mask (mem_rx_dsc s) = 0x7ff \<and> cl_size (mem_rx_dsc s) = 32 \<and> cl_size (mem_rx_pkt s) = 512 \<and>
     mem_mask (host_rx_dne s) = 0x7ff \<and> length (host_rx_dne_ptr s) = 256 \<and> length (rx_bk_skb s) = 32 \<and>
     length (rx_bk_dma_addr s) = 32 \<and> length (rx_bk_size s) = 32"

definition rx_dne :: "('k, 'a) nf10_scheme \<Rightarrow> nat \<Rightarrow> bool" where
  "rx_dne s j \<longleftrightarrow> rx_done (host_rx_dne_ptr s ! (j * 8 + 7))"

text \<open>
  The invariant: \<open>R\<close> are the socket buffers given to the card, the oldest in the slot \<open>r\<close>; the first
  \<open>k\<close> hold received packets. A descriptor takes 24 of the 512 lines of packet memory, so there are at
  most 21.
\<close>

definition rx_ring :: "('k, 'a) nf10_scheme \<Rightarrow> nat \<Rightarrow> nat set \<Rightarrow> nat \<Rightarrow> u64 list \<Rightarrow> nat \<Rightarrow> bool" where
  "rx_ring s h P r R k \<longleftrightarrow> rx_cfg s \<and> r < 32 \<and> length R \<le> 21 \<and> k \<le> length R \<and>
     rd_ptr (host_rx_dne s) = ptr r \<and> wr_ptr (mem_rx_dsc s) = ptr (slot r (length R)) \<and>
     unat (cnt (mem_rx_dsc s)) = length R \<and> unat (cnt (mem_rx_pkt s)) = 24 * length R \<and>
     h = slot r k \<and> P = slot r ` {k..<length R} \<and>
     (\<forall>i<32. rx_dne s (slot r i) \<longleftrightarrow> i < k) \<and>
     (\<forall>i<length R. rx_bk_skb s ! slot r i = R ! i \<and> rx_bk_size s ! slot r i = 24)"

lemma rx_ring_cong: "rx_card s' = rx_card s \<Longrightarrow> rx_ring s' = rx_ring s"
  by (simp add: rx_card_def rx_ring_def rx_cfg_def rx_dne_def fun_eq_iff)

lemma rx_lines: "(SK_BUFF_ALLOC_SIZE + 66) div 64 = 24"
  by simp

lemma rx_ring_give:
  assumes ring: "rx_ring s h P r R k" and room: "length R < 21"
    and s': "rx_card s' = rx_card (s\<lparr>mem_rx_dsc := (mem_rx_dsc s)\<lparr>wr_ptr := ptr (slot r (Suc (length R))), cnt := cnt (mem_rx_dsc s) + 1\<rparr>,
      mem_rx_pkt := (mem_rx_pkt s)\<lparr>wr_ptr := w, cnt := cnt (mem_rx_pkt s) + 24\<rparr>, rx_bk_skb := (rx_bk_skb s)[slot r (length R) := skb],
      rx_bk_size := (rx_bk_size s)[slot r (length R) := 24], rx_bk_dma_addr := (rx_bk_dma_addr s)[slot r (length R) := a]\<rparr>)"
  shows "rx_ring s' h (insert (slot r (length R)) P) r (R @ [skb]) k"
proof -
  have bk: "\<forall>i<length (R @ [skb]). rx_bk_skb s' ! slot r i = (R @ [skb]) ! i \<and> rx_bk_size s' ! slot r i = 24"
  proof (intro allI impI)
    fix i assume i: "i < length (R @ [skb])"
    then have "i = length R \<or> i < length R \<and> slot r i \<noteq> slot r (length R)" using room slot_inj [of i "length R" r] by auto
    then show "rx_bk_skb s' ! slot r i = (R @ [skb]) ! i \<and> rx_bk_size s' ! slot r i = 24"
      using ring s' by (auto simp: rx_ring_def rx_card_def rx_cfg_def nth_append)
  qed
  have "insert (slot r (length R)) P = slot r ` {k..<length (R @ [skb])}"
  proof -
    have "{k..<length (R @ [skb])} = insert (length R) {k..<length R}" using ring by (auto simp: rx_ring_def)
    then show ?thesis using ring by (simp add: rx_ring_def)
  qed
  moreover have "unat (cnt (mem_rx_dsc s')) = length (R @ [skb])" "unat (cnt (mem_rx_pkt s')) = 24 * length (R @ [skb])"
    using ring room s' by (simp_all add: rx_ring_def rx_card_def unat_add_less)
  moreover have "rx_cfg s'" "r < 32" "length (R @ [skb]) \<le> 21" "k \<le> length (R @ [skb])" "rd_ptr (host_rx_dne s') = ptr r"
      "wr_ptr (mem_rx_dsc s') = ptr (slot r (length (R @ [skb])))" "h = slot r k" "\<forall>i<32. rx_dne s' (slot r i) \<longleftrightarrow> i < k"
    using ring room s' by (simp_all add: rx_ring_def rx_card_def rx_cfg_def rx_dne_def)
  ultimately show ?thesis unfolding rx_ring_def using bk by blast
qed

text \<open>What is known of the fresh socket buffer, and of the functions of the kernel: \<open>T\<close> is the room behind the data.\<close>

definition kernel_ok :: "'k nf_kernel \<Rightarrow> ('k sk_buff \<Rightarrow> nat) \<Rightarrow> bool" where
  "kernel_ok K T \<longleftrightarrow> (\<forall>n b. unat n \<le> T b \<longrightarrow> k_skb_put K n b \<noteq> None) \<and> (\<forall>n b. T (k_skb_reserve K n b) = T b - unat n)"

definition fresh :: "('k sk_buff \<Rightarrow> nat) \<Rightarrow> 'k rx_supply \<Rightarrow> ('k, 'a) nf10_scheme \<Rightarrow> bool" where
  "fresh T rxs s \<longleftrightarrow> (\<forall>skb b. rs_skb rxs = Some (skb, b) \<longrightarrow> skbs s skb = None \<and> 1535 \<le> T b)"

text \<open>The socket buffers that are given to the card by a call, in a state with \<open>n\<close> of them.\<close>

definition gives :: "'k rx_supply \<Rightarrow> nat \<Rightarrow> (u64 \<times> 'k sk_buff) list" where
  "gives rxs n = (if n < 21 then (case rs_skb rxs of None \<Rightarrow> [] | Some x \<Rightarrow> [x]) else [])"

lemma send_rx_dsc_ok:
  assumes ring: "rx_ring s h P r R k"
  shows "\<exists>ret s'. nf10priv_send_rx_dsc K rxs s = Some (ret, s') \<and> tx_card s' = tx_card s \<and> ndev s' = ndev s \<and> delivered s' = delivered s \<and>
    nf10.more s' = nf10.more s \<and> skbs s' = (case gives rxs (length R) of [] \<Rightarrow> skbs s | x # _ \<Rightarrow> (skbs s)(fst x \<mapsto> k_skb_reserve K 2 (snd x))) \<and>
    rx_ring s' h (P \<union> slot r ` {length R..<length R + length (gives rxs (length R))}) r (R @ map fst (gives rxs (length R))) k"
proof -
  have cfg: "rx_cfg s" and n: "unat (cnt (mem_rx_dsc s)) = length R" "unat (cnt (mem_rx_pkt s)) = 24 * length R" "length R \<le> 21"
    using ring by (auto simp: rx_ring_def)
  have room: "cnt (mem_rx_dsc s) + 1 \<le> cl_size (mem_rx_dsc s) \<and> cnt (mem_rx_pkt s) + 24 \<le> cl_size (mem_rx_pkt s) \<longleftrightarrow> length R < 21"
    using cfg n by (auto simp: rx_cfg_def word_le_unat unat_add_less)
  show ?thesis
  proof (cases "length R < 21 \<and> rs_skb rxs \<noteq> None")
    case False
    then have "nf10priv_send_rx_dsc K rxs s = Some (-1, s)" "gives rxs (length R) = []"
      unfolding nf10priv_send_rx_dsc_def rx_lines Let_def room by (auto simp: gives_def split: option.splits)
    then show ?thesis using ring by simp
  next
    case True
    then obtain skb b where sup: "rs_skb rxs = Some (skb, b)" "length R < 21" by auto
    define s' where "s' = snd (the (nf10priv_send_rx_dsc K rxs s))"
    have wp: "wr_ptr (mem_rx_dsc s) = ptr (slot r (length R))" using ring by (simp add: rx_ring_def)
    have s': "nf10priv_send_rx_dsc K rxs s = Some (0, s')" "tx_card s' = tx_card s" "ndev s' = ndev s" "delivered s' = delivered s"
      "nf10.more s' = nf10.more s" "skbs s' = (skbs s)(skb \<mapsto> k_skb_reserve K 2 b)"
      "rx_card s' = rx_card (s\<lparr>mem_rx_dsc := (mem_rx_dsc s)\<lparr>wr_ptr := ptr (slot r (Suc (length R))), cnt := cnt (mem_rx_dsc s) + 1\<rparr>,
      mem_rx_pkt := (mem_rx_pkt s)\<lparr>wr_ptr := and (wr_ptr (mem_rx_pkt s) + 64 * 24) (mem_mask (mem_rx_pkt s)), cnt := cnt (mem_rx_pkt s) + 24\<rparr>,
      rx_bk_skb := (rx_bk_skb s)[slot r (length R) := skb], rx_bk_size := (rx_bk_size s)[slot r (length R) := 24],
      rx_bk_dma_addr := (rx_bk_dma_addr s)[slot r (length R) := rs_dma rxs]\<rparr>)"
      unfolding s'_def nf10priv_send_rx_dsc_def rx_lines Let_def room
      using sup cfg wp by (simp_all add: rx_cfg_def tx_card_def rx_card_def)
    show ?thesis using s'(1-6) rx_ring_give [OF ring sup(2) s'(7)] sup by (auto simp: gives_def)
  qed
qed

text \<open>The card fills the oldest socket buffer it has.\<close>

lemma card_rx_ok:
  assumes ring: "rx_ring s h P r R k" and h: "h \<in> P" "rx_done c"
    and s': "rx_card s' = rx_card (s\<lparr>host_rx_dne_ptr := (host_rx_dne_ptr s)[h * 8 + 7 := c]\<rparr>)"
  shows "rx_ring s' (slot h (Suc 0)) (P - {h}) r R (Suc k)"
proof -
  from ring h(1) have k: "k < length R" "h = slot r k" "length R \<le> 21" "P = slot r ` {k..<length R}" by (auto simp: rx_ring_def)
  have "P - {h} = slot r ` {Suc k..<length R}"
  proof -
    have "slot r k \<noteq> slot r i" if "i \<in> {Suc k..<length R}" for i using slot_inj [of k i r] that k by auto
    then have "slot r k \<notin> slot r ` {Suc k..<length R}" by blast
    moreover have "{k..<length R} = insert k {Suc k..<length R}" using k by auto
    ultimately show ?thesis using k by auto
  qed
  moreover have "rx_dne s' (slot r i) \<longleftrightarrow> i < Suc k" if "i < 32" for i
  proof -
    have "slot r k * 8 + 7 < 256" using slot_less [of r k] by linarith
    then have "rx_dne s' (slot r i) \<longleftrightarrow> slot r i = h \<or> rx_dne s (slot r i)"
      using s' h(2) ring k by (auto simp: rx_card_def rx_dne_def rx_ring_def rx_cfg_def nth_list_update)
    also have "\<dots> \<longleftrightarrow> i < Suc k" using ring that k slot_inj [of i k r] by (auto simp: rx_ring_def less_Suc_eq)
    finally show ?thesis .
  qed
  ultimately show ?thesis using ring s' k unfolding rx_ring_def by (simp add: rx_card_def rx_cfg_def)
qed

text \<open>The handler takes the oldest socket buffer out of the ring.\<close>

lemma rx_ring_take:
  assumes ring: "rx_ring s h P r (skb # R) k" and k: "0 < k"
    and s': "rx_card s' = rx_card (s\<lparr>host_rx_dne := (host_rx_dne s)\<lparr>rd_ptr := ptr (slot r (Suc 0))\<rparr>,
      host_rx_dne_ptr := (host_rx_dne_ptr s)[r * 8 + 7 := not 0], mem_rx_pkt := (mem_rx_pkt s)\<lparr>cnt := cnt (mem_rx_pkt s) - 24\<rparr>,
      mem_rx_dsc := (mem_rx_dsc s)\<lparr>cnt := cnt (mem_rx_dsc s) - 1\<rparr>\<rparr>)"
  shows "rx_ring s' h P (slot r (Suc 0)) R (k - 1)"
proof -
  have r: "r < 32" "k \<le> Suc (length R)" "Suc (length R) \<le> 21" using ring by (simp_all add: rx_ring_def)
  have "\<not> rx_done (not 0)"
  proof -
    have "drop_bit 48 (not 0 :: u64) = 0xffff" by (simp add: drop_bit_eq_div)
    then show ?thesis by (simp add: rx_done_def)
  qed
  then have dne: "rx_dne s' (slot r (Suc i)) \<longleftrightarrow> i < k - 1" if "i < 32" for i
  proof (cases "i = 31")
    case True
    then have "slot r (Suc i) = r" using r(1) by (simp add: slot_def)
    then show ?thesis using s' ring r True \<open>\<not> rx_done (not 0)\<close> by (simp add: rx_card_def rx_dne_def rx_ring_def rx_cfg_def)
  next
    case False
    with that have "slot r (Suc i) \<noteq> r" "Suc i < 32" using slot_inj [of "Suc i" 0 r] r(1) by auto
    then show ?thesis using ring s' k by (auto simp: rx_card_def rx_dne_def rx_ring_def)
  qed
  have "P = slot (slot r (Suc 0)) ` {k - 1..<length R}"
  proof -
    have e: "Suc ` {k - 1..<length R} = {k..<Suc (length R)}" using k by (simp add: image_Suc_atLeastLessThan)
    have "slot (slot r (Suc 0)) ` {k - 1..<length R} = slot r ` Suc ` {k - 1..<length R}" unfolding image_image by simp
    then show ?thesis unfolding e using ring by (simp add: rx_ring_def)
  qed
  moreover have "\<forall>i<length R. rx_bk_skb s' ! slot r (Suc i) = R ! i \<and> rx_bk_size s' ! slot r (Suc i) = 24"
  proof (intro allI impI)
    fix i assume "i < length R"
    then have "rx_bk_skb s ! slot r (Suc i) = (skb # R) ! Suc i \<and> rx_bk_size s ! slot r (Suc i) = 24"
      using ring by (simp add: rx_ring_def)
    then show "rx_bk_skb s' ! slot r (Suc i) = R ! i \<and> rx_bk_size s' ! slot r (Suc i) = 24" using s' by (simp add: rx_card_def)
  qed
  moreover have "unat (cnt (mem_rx_dsc s')) = length R" "unat (cnt (mem_rx_pkt s')) = 24 * length R"
    using ring s' by (simp_all add: rx_ring_def rx_card_def unat_sub_le)
  moreover have "rx_cfg s'" "rd_ptr (host_rx_dne s') = ptr (slot r (Suc 0))" "wr_ptr (mem_rx_dsc s') = ptr (slot r (Suc (length R)))" "h = slot r k"
    using ring s' by (simp_all add: rx_ring_def rx_card_def rx_cfg_def)
  moreover have "k - 1 \<le> length R" "length R \<le> 21" using r by auto
  ultimately show ?thesis unfolding rx_ring_def using dne k by simp
qed

lemma rx_deliver_ok:
  assumes nd: "nd_ok s" and b: "skbs s skb = Some b" "1514 \<le> T b" and K: "kernel_ok K T"
  shows "\<exists>s'. rx_deliver K skb len (rx_port e) s = Some s' \<and> tx_card s' = tx_card s \<and> rx_card s' = rx_card s \<and> nd_ok s' \<and>
    nf10.more s' = nf10.more s \<and> (skbs s' = skbs s \<or> skbs s' = (skbs s)(skb := None))"
proof (cases "\<exists>p. rx_port e = Some p \<and> \<not> (len > 1514 \<or> len < 60)")
  case False
  then show ?thesis using nd by (cases "rx_port e") (auto simp: rx_deliver_def)
next
  case True
  then obtain p where p: "rx_port e = Some p" "\<not> len > 1514" "\<not> len < 60" by auto
  then have p4: "p < 4" by (auto simp: rx_port_def split: if_splits)
  with nd obtain d where d: "ndev s ! p = Some d" "p < length (ndev s)" by (metis nd_ok_def not_None_eq nth_mem)
  show ?thesis
  proof (cases "port_up d")
    case False
    then show ?thesis using p d b nd
      by (simp add: rx_deliver_def kfree_skb_def tx_card_def rx_card_def nd_ok_def)
  next
    case True
    have "unat (ucast len :: u32) \<le> 1514" using p(2) by (simp add: unsigned_ucast_eq take_bit_eq_mod word_less_unat)
    then obtain b1 where b1: "k_skb_put K (ucast len) b = Some b1" using K b(2) unfolding kernel_ok_def by (meson not_Some_eq order_trans)
    define b2 where "b2 = snd (k_eth_type_trans K p (b1\<lparr>skb_dev := Some p\<rparr>))\<lparr>skb_protocol := fst (k_eth_type_trans K p (b1\<lparr>skb_dev := Some p\<rparr>)),
      skb_ip_summed := CHECKSUM_NONE\<rparr>"
    let ?t = "s\<lparr>skbs := (skbs s)(skb \<mapsto> b2)\<rparr>"
    have "nd_ok ?t" using nd by (simp add: nd_ok_def)
    from upd_ndev_ok [OF this p4] obtain u where
      u: "upd_ndev p (\<lambda>d. d\<lparr>rx_packets := rx_packets d + 1, rx_bytes := rx_bytes d + ucast (skb_len b2)\<rparr>) ?t = Some u" "nd_ok u" "same_rings ?t u"
      by blast
    have "rx_deliver K skb len (rx_port e) s = netif_receive_skb skb u"
      using p d True b b1 u(1) by (simp add: rx_deliver_def b2_def Let_def case_prod_beta)
    with u show ?thesis
      by (auto simp: netif_receive_skb_def same_rings_def tx_card_def rx_card_def nd_ok_def)
  qed
qed

lemma rd_lines: "r < 32 \<Longrightarrow> r * 8 + 7 < 256" for r :: nat
  by linarith

lemma work_rx_ok:
  assumes ring: "rx_ring s h P r R k" and dn: "rx_dne s r" and nd: "nd_ok s" and K: "kernel_ok K T" and fr: "fresh T rxs s"
    and live: "\<And>skb. skb \<in> set R \<Longrightarrow> \<exists>b. skbs s skb = Some b \<and> 1533 \<le> T b"
  shows "\<exists>skb R' s' m. 0 < k \<and> R = skb # R' \<and> work_rx K rxs c s = Some s' \<and> rx_bk_skb s ! r = skb \<and> tx_card s' = tx_card s \<and> nd_ok s' \<and>
    nf10.more s' = nf10.more s \<and> m = (case gives rxs (length R') of [] \<Rightarrow> skbs s | x # _ \<Rightarrow> (skbs s)(fst x \<mapsto> k_skb_reserve K 2 (snd x))) \<and>
    (skbs s' = m \<or> skbs s' = m(skb := None)) \<and>
    rx_ring s' h (P \<union> slot (slot r (Suc 0)) ` {length R'..<length R' + length (gives rxs (length R'))}) (slot r (Suc 0))
      (R' @ map fst (gives rxs (length R'))) (k - 1)"
proof -
  have r: "r < 32" "k \<le> length R" "rd_ptr (host_rx_dne s) = ptr r" "\<forall>i<32. rx_dne s (slot r i) \<longleftrightarrow> i < k" and cfg: "rx_cfg s"
    using ring by (auto simp: rx_ring_def)
  from r dn have k: "0 < k" by (auto dest!: spec [of _ 0])
  with r obtain skb R' where R: "R = skb # R'" by (cases R) auto
  then obtain b where b: "skbs s skb = Some b" "1533 \<le> T b" using live by auto
  have bk: "rx_bk_skb s ! r = skb" "rx_bk_size s ! r = 24" using ring R r by (auto simp: rx_ring_def dest!: spec [of _ 0])
  define t where "t = s\<lparr>host_rx_dne := (host_rx_dne s)\<lparr>rd_ptr := ptr (slot r (Suc 0))\<rparr>, host_rx_dne_ptr := (host_rx_dne_ptr s)[r * 8 + 7 := not 0],
    mem_rx_pkt := (mem_rx_pkt s)\<lparr>cnt := cnt (mem_rx_pkt s) - 24\<rparr>, mem_rx_dsc := (mem_rx_dsc s)\<lparr>cnt := cnt (mem_rx_dsc s) - 1\<rparr>\<rparr>"
  have t: "rx_ring t h P (slot r (Suc 0)) R' (k - 1)"
    using rx_ring_take [OF ring [unfolded R] k, of t] by (simp add: t_def rx_card_def)
  have same: "tx_card t = tx_card s" "skbs t = skbs s" "ndev t = ndev s" "nf10.more t = nf10.more s" by (simp_all add: t_def tx_card_def)
  from send_rx_dsc_ok [OF t, of K rxs] obtain ret u where u: "nf10priv_send_rx_dsc K rxs t = Some (ret, u)" "tx_card u = tx_card t" "ndev u = ndev t"
      "nf10.more u = nf10.more t" "skbs u = (case gives rxs (length R') of [] \<Rightarrow> skbs t | x # _ \<Rightarrow> (skbs t)(fst x \<mapsto> k_skb_reserve K 2 (snd x)))"
      "rx_ring u h (P \<union> slot (slot r (Suc 0)) ` {length R'..<length R' + length (gives rxs (length R'))}) (slot r (Suc 0))
        (R' @ map fst (gives rxs (length R'))) (k - 1)" by blast
  have work: "work_rx K rxs c s = rx_deliver K skb (and c 0xffff) (rx_port (and (drop_bit 16 c) 0xffff)) u"
    using r cfg bk b u(1) rd_lines [OF r(1)] by (simp add: work_rx_def Let_def rx_cfg_def t_def)
  have "nd_ok u" using nd u(3) same by (simp add: nd_ok_def)
  moreover have "skbs u skb = Some b"
    using u(5) same(2) b(1) fr by (auto simp: gives_def fresh_def split: option.splits)
  ultimately obtain s' where "work_rx K rxs c s = Some s'" "tx_card s' = tx_card u" "rx_card s' = rx_card u" "nd_ok s'" "nf10.more s' = nf10.more u"
      "skbs s' = skbs u \<or> skbs s' = (skbs u)(skb := None)"
    using rx_deliver_ok [of u skb b T K] K b(2) work by fastforce
  with k R bk u(1-4,6) u(5) [unfolded same(2)] same(1,3,4) rx_ring_cong [of s' u] show ?thesis by auto
qed

end
