(* ===== verification/Nf10_System.thy ===== *)
theory Nf10_System
  imports Nf10_Ring
begin

text \<open>
  The NIC driver with the card and the transmitters it runs beside. A state \<open>nf_sys\<close> adds to the state
  of the driver what the card has still to do, the transmissions that are between the two parts of
  \<open>nf10priv_xmit\<close>, and the history of the socket buffers. \<open>nf_step\<close> is one step of a transmitter, of
  the card or of the completion handler. The card handles the descriptors in the order of the ring,
  each one once and only after it was written, and then writes the completion of that slot; this is
  all that is assumed of it. In every interleaving no step faults, and every socket buffer has one
  owner.
\<close>

record 'k nf_sys = "'k nf10" +
  hw_tx :: nat
  tx_posted :: "nat set"
  hw_rx :: nat
  rx_posted :: "nat set"
  xmits :: "xmit_req set"
  tx_accepted :: "u64 list"
  tx_completed :: "u64 list"
  rx_given :: "u64 list"
  rx_taken :: "u64 list"
  rx_leaked :: "u64 set"

text \<open>The card learns of a new receive descriptor when the write pointer moves.\<close>

definition log_given :: "'k rx_supply \<Rightarrow> 'k nf_sys \<Rightarrow> 'k nf_sys \<Rightarrow> 'k nf_sys" where
  "log_given rxs s s' =
     (if wr_ptr (mem_rx_dsc s') = wr_ptr (mem_rx_dsc s) then s'
      else s'\<lparr>rx_posted := insert (unat (wr_ptr (mem_rx_dsc s) div 64)) (rx_posted s'),
              rx_given := rx_given s' @ [fst (the (rs_skb rxs))]\<rparr>)"

definition log_taken :: "u64 \<Rightarrow> 'k nf_sys \<Rightarrow> 'k nf_sys" where
  "log_taken skb s = s\<lparr>rx_taken := rx_taken s @ [skb], rx_leaked := (if skbs s skb = None then rx_leaked s else insert skb (rx_leaked s))\<rparr>"

inductive nf_step :: "'k nf_kernel \<Rightarrow> ('k sk_buff \<Rightarrow> nat) \<Rightarrow> 'k nf_sys \<Rightarrow> 'k nf_sys \<Rightarrow> bool" for K T where
  reserve: "\<lbrakk>skbs s skb = None; skb_len b \<le> 1514; port < 4;
      xmit_reserve (Some dma) (skb_len b) port (s\<lparr>skbs := (skbs s)(skb \<mapsto> b)\<rparr>) = Some (Some a, s')\<rbrakk> \<Longrightarrow>
    nf_step K T s (s'\<lparr>xmits := insert \<lparr>xr_skb = skb, xr_dma = dma, xr_len = skb_len b, xr_port = port, xr_addr = a\<rparr> (xmits s'),
                      tx_accepted := tx_accepted s' @ [skb]\<rparr>)"
| full: "\<lbrakk>skbs s skb = None; skb_len b \<le> 1514; port < 4;
      xmit_reserve (Some dma) (skb_len b) port (s\<lparr>skbs := (skbs s)(skb \<mapsto> b)\<rparr>) = Some (None, s'); kfree_skb skb s' = Some s''\<rbrakk> \<Longrightarrow>
    nf_step K T s s''"
| post: "\<lbrakk>x \<in> xmits s; xmit_post_req x s = Some s'\<rbrakk> \<Longrightarrow>
    nf_step K T s (s'\<lparr>xmits := xmits s' - {x}, tx_posted := insert (xr_slot x) (tx_posted s')\<rparr>)"
| card_tx: "\<lbrakk>hw_tx s \<in> tx_posted s; tx_done c\<rbrakk> \<Longrightarrow>
    nf_step K T s (s\<lparr>host_tx_dne_ptr := (host_tx_dne_ptr s)[hw_tx s * 16 := c], tx_posted := tx_posted s - {hw_tx s},
                     hw_tx := slot (hw_tx s) 1\<rparr>)"
| handle_tx: "\<lbrakk>poll_tx s = Some c; tx_done c; work_tx s = Some s'\<rbrakk> \<Longrightarrow>
    nf_step K T s (s'\<lparr>tx_completed := tx_completed s' @ [tx_bk_skb s ! unat (rd_ptr (host_tx_dne s) div 64)]\<rparr>)"
| give: "\<lbrakk>fresh T rxs s; nf10priv_send_rx_dsc K rxs s = Some (r, s')\<rbrakk> \<Longrightarrow> nf_step K T s (log_given rxs s s')"
| card_rx: "\<lbrakk>hw_rx s \<in> rx_posted s; rx_done c\<rbrakk> \<Longrightarrow>
    nf_step K T s (s\<lparr>host_rx_dne_ptr := (host_rx_dne_ptr s)[hw_rx s * 8 + 7 := c], rx_posted := rx_posted s - {hw_rx s},
                     hw_rx := slot (hw_rx s) 1\<rparr>)"
| handle_rx: "\<lbrakk>poll_rx s = Some c; rx_done c; fresh T rxs s; work_rx K rxs c s = Some s'\<rbrakk> \<Longrightarrow>
    nf_step K T s (log_taken (rx_bk_skb s ! unat (rd_ptr (host_rx_dne s) div 64)) (log_given rxs s s'))"
| up: "nf10i_open p s = Some s' \<Longrightarrow> nf_step K T s s'"
| down: "nf10i_stop p s = Some s' \<Longrightarrow> nf_step K T s s'"

text \<open>
  The invariant: the packets \<open>Q\<close> in the transmit ring and the socket buffers \<open>R\<close> in the receive ring are
  what was accepted and not completed, given and not taken; they are different, and there is no other
  socket buffer that the driver owns, except for those it lost.
\<close>

definition nf_at :: "('k sk_buff \<Rightarrow> nat) \<Rightarrow> 'k nf_sys \<Rightarrow> nat \<Rightarrow> (u64 \<times> u64) list \<Rightarrow> nat \<Rightarrow> nat \<Rightarrow> u64 list \<Rightarrow> nat \<Rightarrow> bool" where
  "nf_at T s r Q k r' R k' \<longleftrightarrow> nd_ok s \<and> tx_ring s (hw_tx s) (tx_posted s) (xmits s) r Q k \<and>
     rx_ring s (hw_rx s) (rx_posted s) r' R k' \<and> tx_accepted s = tx_completed s @ map fst Q \<and> rx_given s = rx_taken s @ R \<and>
     distinct (map fst Q @ R) \<and> (fst ` set Q \<union> set R) \<inter> rx_leaked s = {} \<and> dom (skbs s) = fst ` set Q \<union> set R \<union> rx_leaked s \<and>
     (\<forall>skb\<in>set R. \<exists>b. skbs s skb = Some b \<and> 1533 \<le> T b)"

definition nf_inv :: "('k sk_buff \<Rightarrow> nat) \<Rightarrow> 'k nf_sys \<Rightarrow> bool" where
  "nf_inv T s \<longleftrightarrow> (\<exists>r Q k r' R k'. nf_at T s r Q k r' R k')"

lemma nf_atD:
  assumes "nf_at T s r Q k r' R k'"
  shows "nd_ok s" "tx_ring s (hw_tx s) (tx_posted s) (xmits s) r Q k" "rx_ring s (hw_rx s) (rx_posted s) r' R k'"
    "tx_accepted s = tx_completed s @ map fst Q" "rx_given s = rx_taken s @ R" "distinct (map fst Q @ R)"
    "(fst ` set Q \<union> set R) \<inter> rx_leaked s = {}" "dom (skbs s) = fst ` set Q \<union> set R \<union> rx_leaked s"
    "\<And>skb. skb \<in> set R \<Longrightarrow> \<exists>b. skbs s skb = Some b \<and> 1533 \<le> T b"
  using assms by (simp_all add: nf_at_def)

lemma nf_invI:
  assumes "nd_ok s" "tx_ring s (hw_tx s) (tx_posted s) (xmits s) r Q k" "rx_ring s (hw_rx s) (rx_posted s) r' R k'"
    "tx_accepted s = tx_completed s @ map fst Q" "rx_given s = rx_taken s @ R" "distinct (map fst Q @ R)"
    "(fst ` set Q \<union> set R) \<inter> rx_leaked s = {}" "dom (skbs s) = fst ` set Q \<union> set R \<union> rx_leaked s"
    "\<And>skb. skb \<in> set R \<Longrightarrow> \<exists>b. skbs s skb = Some b \<and> 1533 \<le> T b"
  shows "nf_inv T s"
  using assms unfolding nf_inv_def nf_at_def by blast

text \<open>What the driver calls keep beside its own state: the rest of the record.\<close>

lemma nf_sys_more:
  fixes s :: "'k nf_sys"
  assumes "nf10.more s' = nf10.more s"
  shows "hw_tx s' = hw_tx s" "tx_posted s' = tx_posted s" "hw_rx s' = hw_rx s" "rx_posted s' = rx_posted s" "xmits s' = xmits s"
    "tx_accepted s' = tx_accepted s" "tx_completed s' = tx_completed s" "rx_given s' = rx_given s" "rx_taken s' = rx_taken s" "rx_leaked s' = rx_leaked s"
  using assms by (cases s; cases s'; simp)+

lemma card_ghosts [simp]:
  fixes s :: "'k nf_sys"
  shows "tx_card (s\<lparr>xmits := a\<rparr>) = tx_card s" "tx_card (s\<lparr>tx_accepted := b\<rparr>) = tx_card s" "tx_card (s\<lparr>tx_posted := c\<rparr>) = tx_card s"
    "tx_card (s\<lparr>tx_completed := d\<rparr>) = tx_card s" "tx_card (s\<lparr>rx_posted := e\<rparr>) = tx_card s" "tx_card (s\<lparr>rx_given := f\<rparr>) = tx_card s"
    "tx_card (s\<lparr>rx_taken := f\<rparr>) = tx_card s" "tx_card (s\<lparr>rx_leaked := g\<rparr>) = tx_card s" "tx_card (s\<lparr>skbs := m\<rparr>) = tx_card s"
    "tx_card (s\<lparr>hw_rx := h\<rparr>) = tx_card s" "tx_card (s\<lparr>host_rx_dne_ptr := l\<rparr>) = tx_card s"
    "rx_card (s\<lparr>xmits := a\<rparr>) = rx_card s" "rx_card (s\<lparr>tx_accepted := b\<rparr>) = rx_card s" "rx_card (s\<lparr>tx_posted := c\<rparr>) = rx_card s"
    "rx_card (s\<lparr>tx_completed := d\<rparr>) = rx_card s" "rx_card (s\<lparr>rx_posted := e\<rparr>) = rx_card s" "rx_card (s\<lparr>rx_given := f\<rparr>) = rx_card s"
    "rx_card (s\<lparr>rx_taken := f\<rparr>) = rx_card s" "rx_card (s\<lparr>rx_leaked := g\<rparr>) = rx_card s" "rx_card (s\<lparr>skbs := m\<rparr>) = rx_card s"
    "rx_card (s\<lparr>hw_tx := h\<rparr>) = rx_card s" "rx_card (s\<lparr>host_tx_dne_ptr := n\<rparr>) = rx_card s"
  by (simp_all add: tx_card_def rx_card_def)

lemma nd_ok_cong: "ndev s' = ndev s \<Longrightarrow> nd_ok s' = nd_ok s"
  by (simp add: nd_ok_def)

lemma reserve_inv:
  fixes s :: "'k nf_sys"
  assumes inv: "nf_at T s r Q k r' R k'" and new: "skbs s skb = None" and len: "skb_len b \<le> 1514" "port < 4"
    and res: "xmit_reserve (Some dma) (skb_len b) port (s\<lparr>skbs := (skbs s)(skb \<mapsto> b)\<rparr>) = Some (Some a, s')"
  shows "nf_inv T (s'\<lparr>xmits := insert \<lparr>xr_skb = skb, xr_dma = dma, xr_len = skb_len b, xr_port = port, xr_addr = a\<rparr> (xmits s'),
      tx_accepted := tx_accepted s' @ [skb]\<rparr>)"
proof -
  note I = nf_atD [OF inv]
  let ?t = "s\<lparr>skbs := (skbs s)(skb \<mapsto> b)\<rparr>"
  have t: "nd_ok ?t" "tx_ring ?t (hw_tx s) (tx_posted s) (xmits s) r Q k"
    using I(1,2) nd_ok_cong [of ?t s] tx_ring_cong [of ?t s] by auto
  have s': "nd_ok s'" "rx_card s' = rx_card s" "skbs s' = (skbs s)(skb \<mapsto> b)" "nf10.more s' = nf10.more s"
      "tx_ring s' (hw_tx s) (tx_posted s) (insert \<lparr>xr_skb = skb, xr_dma = dma, xr_len = skb_len b, xr_port = port, xr_addr = a\<rparr> (xmits s))
        r (Q @ [(skb, xmit_cl_size (skb_len b))]) k"
    using xmit_reserve_ok [OF t(1) len(2) t(2) len(1), of dma skb] res by auto
  note m = nf_sys_more [OF s'(4)]
  have out: "skb \<notin> fst ` set Q" "skb \<notin> set R" "skb \<notin> rx_leaked s" using new I(8) by blast+
  let ?u = "s'\<lparr>xmits := insert \<lparr>xr_skb = skb, xr_dma = dma, xr_len = skb_len b, xr_port = port, xr_addr = a\<rparr> (xmits s'),
      tx_accepted := tx_accepted s' @ [skb]\<rparr>"
  have rings: "tx_ring ?u = tx_ring s'" "rx_ring ?u = rx_ring s" by (rule tx_ring_cong, simp) (rule rx_ring_cong, simp add: s'(2))
  show ?thesis
  proof (rule nf_invI)
    show "nd_ok ?u" using s'(1) by (simp add: nd_ok_def)
    show "tx_ring ?u (hw_tx ?u) (tx_posted ?u) (xmits ?u) r (Q @ [(skb, xmit_cl_size (skb_len b))]) k" unfolding rings using s'(5) by (simp add: m)
    show "rx_ring ?u (hw_rx ?u) (rx_posted ?u) r' R k'" unfolding rings using I(3) by (simp add: m)
    show "\<exists>b. skbs ?u x = Some b \<and> 1533 \<le> T b" if "x \<in> set R" for x using I(9) [OF that] that out by (auto simp: s'(3))
  qed (use I(4-8) out in \<open>auto simp: s'(3) m\<close>)
qed

lemma full_inv:
  fixes s :: "'k nf_sys"
  assumes inv: "nf_at T s r Q k r' R k'" and new: "skbs s skb = None" and len: "skb_len b \<le> 1514" "port < 4"
    and res: "xmit_reserve (Some dma) (skb_len b) port (s\<lparr>skbs := (skbs s)(skb \<mapsto> b)\<rparr>) = Some (None, s')" "kfree_skb skb s' = Some s''"
  shows "nf_inv T s''"
proof -
  note I = nf_atD [OF inv]
  let ?t = "s\<lparr>skbs := (skbs s)(skb \<mapsto> b)\<rparr>"
  have t: "nd_ok ?t" "tx_ring ?t (hw_tx s) (tx_posted s) (xmits s) r Q k"
    using I(1,2) nd_ok_cong [of ?t s] tx_ring_cong [of ?t s] by auto
  have "s' = ?t" using xmit_reserve_ok [OF t(1) len(2) t(2) len(1), of dma skb] res(1) by auto
  moreover have "(skbs s)(skb := None) = skbs s" using new by auto
  ultimately have "s'' = s" using res(2) by (simp add: kfree_skb_def)
  with inv show ?thesis unfolding nf_inv_def by blast
qed

lemma post_inv:
  fixes s :: "'k nf_sys"
  assumes inv: "nf_at T s r Q k r' R k'" and x: "x \<in> xmits s" "xmit_post_req x s = Some s'"
  shows "nf_inv T (s'\<lparr>xmits := xmits s' - {x}, tx_posted := insert (xr_slot x) (tx_posted s')\<rparr>)"
proof -
  note I = nf_atD [OF inv]
  have s': "tx_ring s' (hw_tx s) (insert (xr_slot x) (tx_posted s)) (xmits s - {x}) r Q k" "rx_card s' = rx_card s" "skbs s' = skbs s"
      "ndev s' = ndev s" "nf10.more s' = nf10.more s"
    using xmit_post_ok [OF I(2) x(1)] x(2) by auto
  note m = nf_sys_more [OF s'(5)]
  let ?u = "s'\<lparr>xmits := xmits s' - {x}, tx_posted := insert (xr_slot x) (tx_posted s')\<rparr>"
  have rings: "tx_ring ?u = tx_ring s'" "rx_ring ?u = rx_ring s" by (rule tx_ring_cong, simp) (rule rx_ring_cong, simp add: s'(2))
  show ?thesis
  proof (rule nf_invI)
    show "nd_ok ?u" using I(1) s'(4) by (simp add: nd_ok_def)
    show "tx_ring ?u (hw_tx ?u) (tx_posted ?u) (xmits ?u) r Q k" unfolding rings using s'(1) by (simp add: m)
    show "rx_ring ?u (hw_rx ?u) (rx_posted ?u) r' R k'" unfolding rings using I(3) by (simp add: m)
  qed (use I(4-9) in \<open>auto simp: s'(3) m\<close>)
qed

lemma card_tx_inv:
  fixes s :: "'k nf_sys"
  assumes inv: "nf_at T s r Q k r' R k'" and h: "hw_tx s \<in> tx_posted s" "tx_done c"
  shows "nf_inv T (s\<lparr>host_tx_dne_ptr := (host_tx_dne_ptr s)[hw_tx s * 16 := c], tx_posted := tx_posted s - {hw_tx s}, hw_tx := slot (hw_tx s) 1\<rparr>)"
proof -
  note I = nf_atD [OF inv]
  let ?u = "s\<lparr>host_tx_dne_ptr := (host_tx_dne_ptr s)[hw_tx s * 16 := c], tx_posted := tx_posted s - {hw_tx s}, hw_tx := slot (hw_tx s) 1\<rparr>"
  have "tx_ring ?u (slot (hw_tx s) (Suc 0)) (tx_posted s - {hw_tx s}) (xmits s) r Q (Suc k)"
    by (rule card_tx_ok [OF I(2) h]) (simp add: tx_card_def)
  moreover have "rx_ring ?u = rx_ring s" by (rule rx_ring_cong) (simp add: rx_card_def)
  ultimately show ?thesis
    using I by (intro nf_invI [of ?u r Q "Suc k" r' R k']) (auto simp: nd_ok_def)
qed

lemma card_rx_inv:
  fixes s :: "'k nf_sys"
  assumes inv: "nf_at T s r Q k r' R k'" and h: "hw_rx s \<in> rx_posted s" "rx_done c"
  shows "nf_inv T (s\<lparr>host_rx_dne_ptr := (host_rx_dne_ptr s)[hw_rx s * 8 + 7 := c], rx_posted := rx_posted s - {hw_rx s}, hw_rx := slot (hw_rx s) 1\<rparr>)"
proof -
  note I = nf_atD [OF inv]
  let ?u = "s\<lparr>host_rx_dne_ptr := (host_rx_dne_ptr s)[hw_rx s * 8 + 7 := c], rx_posted := rx_posted s - {hw_rx s}, hw_rx := slot (hw_rx s) 1\<rparr>"
  have "rx_ring ?u (slot (hw_rx s) (Suc 0)) (rx_posted s - {hw_rx s}) r' R (Suc k')"
    by (rule card_rx_ok [OF I(3) h]) (simp add: rx_card_def)
  moreover have "tx_ring ?u = tx_ring s" by (rule tx_ring_cong) (simp add: tx_card_def)
  ultimately show ?thesis
    using I by (intro nf_invI [of ?u r Q k r' R "Suc k'"]) (auto simp: nd_ok_def)
qed

lemma poll_tx_ok: "tx_ring s h P X r Q k \<Longrightarrow> poll_tx s = Some (host_tx_dne_ptr s ! (r * 16))"
  by (simp add: tx_ring_def poll_tx_def tx_cfg_def)

lemma poll_rx_ok: "rx_ring s h P r R k \<Longrightarrow> poll_rx s = Some (host_rx_dne_ptr s ! (r * 8 + 7))"
  using rd_lines [of r] by (simp add: rx_ring_def poll_rx_def rx_cfg_def)

lemma handle_tx_inv:
  fixes s :: "'k nf_sys"
  assumes inv: "nf_at T s r Q k r' R k'" and c: "poll_tx s = Some c" "tx_done c" and s': "work_tx s = Some s'"
  shows "nf_inv T (s'\<lparr>tx_completed := tx_completed s' @ [tx_bk_skb s ! unat (rd_ptr (host_tx_dne s) div 64)]\<rparr>)"
proof -
  note I = nf_atD [OF inv]
  have "tx_dne s r" using c poll_tx_ok [OF I(2)] by (simp add: tx_dne_def)
  moreover have "fst ` set Q \<subseteq> dom (skbs s)" using I(8) by blast
  ultimately obtain q Q' where q: "Q = q # Q'" "tx_bk_skb s ! r = fst q"
      "tx_ring s' (hw_tx s) (tx_posted s) (xmits s) (slot r (Suc 0)) Q' (k - 1)" "rx_card s' = rx_card s"
      "skbs s' = (skbs s)(fst q := None)" "nd_ok s'" "nf10.more s' = nf10.more s"
    using work_tx_ok [OF I(2) _ I(1)] s' by fastforce
  note m = nf_sys_more [OF q(7)]
  have r: "unat (rd_ptr (host_tx_dne s) div 64) = r" using I(2) by (simp add: tx_ring_def)
  let ?u = "s'\<lparr>tx_completed := tx_completed s' @ [fst q]\<rparr>"
  have rings: "tx_ring ?u = tx_ring s'" "rx_ring ?u = rx_ring s" by (rule tx_ring_cong, simp) (rule rx_ring_cong, simp add: q(4))
  have "nf_inv T ?u"
  proof (rule nf_invI)
    show "nd_ok ?u" using q(6) by (simp add: nd_ok_def)
    show "tx_ring ?u (hw_tx ?u) (tx_posted ?u) (xmits ?u) (slot r (Suc 0)) Q' (k - 1)" unfolding rings using q(3) by (simp add: m)
    show "rx_ring ?u (hw_rx ?u) (rx_posted ?u) r' R k'" unfolding rings using I(3) by (simp add: m)
    show "\<exists>b. skbs ?u x = Some b \<and> 1533 \<le> T b" if "x \<in> set R" for x using I(9) [OF that] that I(6) q(1) by (auto simp: q(5))
    show "dom (skbs ?u) = fst ` set Q' \<union> set R \<union> rx_leaked ?u" using I(6-8) q(1) by (auto simp: q(5) m)
  qed (use I(4-7) q(1) in \<open>auto simp: m\<close>)
  then show ?thesis by (simp add: r q(2))
qed

text \<open>What a call of \<open>nf10priv_send_rx_dsc\<close> adds to the history.\<close>

lemma log_given_eq:
  fixes s :: "'k nf_sys"
  assumes "wr_ptr (mem_rx_dsc s) = ptr (slot r n)" "wr_ptr (mem_rx_dsc s') = ptr (slot r (n + length (gives rxs l)))" "n < 32"
  shows "log_given rxs s s' = s'\<lparr>rx_posted := rx_posted s' \<union> slot r ` {n..<n + length (gives rxs l)}, rx_given := rx_given s' @ map fst (gives rxs l)\<rparr>"
proof (cases "gives rxs l")
  case Nil
  then show ?thesis using assms by (simp add: log_given_def)
next
  case (Cons x xs)
  then have x: "rs_skb rxs = Some x" "xs = []" by (auto simp: gives_def split: if_splits option.splits)
  have "slot r (Suc n) \<noteq> slot r n"
  proof -
    have "slot (slot r n) (Suc 0) \<noteq> slot (slot r n) 0" using slot_inj [of "Suc 0" 0 "slot r n"] by simp
    then show ?thesis by simp
  qed
  then have "ptr (slot r (Suc n)) \<noteq> ptr (slot r n)" using ptr_div(1) [OF slot_less] by metis
  then show ?thesis using assms Cons x by (simp add: log_given_def atLeastLessThanSuc)
qed

lemma given_live:
  assumes K: "kernel_ok K T" and fr: "fresh T rxs s" and x: "gives rxs n = [x]"
  shows "1533 \<le> T (k_skb_reserve K 2 (snd x))" "skbs s (fst x) = None"
proof -
  have "rs_skb rxs = Some (fst x, snd x)" using x by (auto simp: gives_def split: if_splits option.splits)
  then have "1535 \<le> T (snd x)" "skbs s (fst x) = None" using fr unfolding fresh_def by blast+
  then show "1533 \<le> T (k_skb_reserve K 2 (snd x))" "skbs s (fst x) = None" using K by (simp_all add: kernel_ok_def)
qed

lemma gives_cases: "gives rxs n = [] \<or> (\<exists>x. gives rxs n = [x])"
  by (auto simp: gives_def split: option.splits)

lemma give_inv:
  fixes s :: "'k nf_sys"
  assumes inv: "nf_at T s r Q k r' R k'" and K: "kernel_ok K T" and fr: "fresh T rxs s" and s': "nf10priv_send_rx_dsc K rxs s = Some (ret, s')"
  shows "nf_inv T (log_given rxs s s')"
proof -
  note I = nf_atD [OF inv]
  let ?G = "gives rxs (length R)"
  have g: "tx_card s' = tx_card s" "ndev s' = ndev s" "nf10.more s' = nf10.more s"
      "skbs s' = (case ?G of [] \<Rightarrow> skbs s | x # _ \<Rightarrow> (skbs s)(fst x \<mapsto> k_skb_reserve K 2 (snd x)))"
      "rx_ring s' (hw_rx s) (rx_posted s \<union> slot r' ` {length R..<length R + length ?G}) r' (R @ map fst ?G) k'"
    using send_rx_dsc_ok [OF I(3), of K rxs] s' by auto
  note m = nf_sys_more [OF g(3)]
  have "log_given rxs s s' = s'\<lparr>rx_posted := rx_posted s' \<union> slot r' ` {length R..<length R + length ?G}, rx_given := rx_given s' @ map fst ?G\<rparr>"
    using I(3) g(5) by (intro log_given_eq) (auto simp: rx_ring_def)
  moreover have new: "fst x \<notin> fst ` set Q \<union> set R \<union> rx_leaked s" if "?G = [x]" for x
    using given_live(2) [OF K fr that] I(8) by blast
  moreover define u where "u = s'\<lparr>rx_posted := rx_posted s' \<union> slot r' ` {length R..<length R + length ?G}, rx_given := rx_given s' @ map fst ?G\<rparr>"
  moreover have "nf_inv T u"
  proof (rule nf_invI)
    have rings: "rx_ring u = rx_ring s'" "tx_ring u = tx_ring s" by (rule rx_ring_cong, simp add: u_def) (rule tx_ring_cong, simp add: u_def g(1))
    show "nd_ok u" using I(1) g(2) by (simp add: nd_ok_def u_def)
    show "tx_ring u (hw_tx u) (tx_posted u) (xmits u) r Q k" unfolding rings using I(2) by (simp add: m u_def)
    show "rx_ring u (hw_rx u) (rx_posted u) r' (R @ map fst ?G) k'" unfolding rings using g(5) by (simp add: m u_def)
    show "\<exists>b. skbs u x = Some b \<and> 1533 \<le> T b" if "x \<in> set (R @ map fst ?G)" for x
      using gives_cases [of rxs "length R"] that I(9) [of x] given_live [OF K fr] by (auto simp: g(4) u_def)
    show "distinct (map fst Q @ R @ map fst ?G)"
      using gives_cases [of rxs "length R"] I(6) new by (elim disjE exE) simp_all
    show "(fst ` set Q \<union> set (R @ map fst ?G)) \<inter> rx_leaked u = {}"
      using gives_cases [of rxs "length R"] I(7) new by (auto simp: u_def m)
    show "dom (skbs u) = fst ` set Q \<union> set (R @ map fst ?G) \<union> rx_leaked u"
      using gives_cases [of rxs "length R"] by (elim disjE exE) (simp_all add: u_def g(4) m I(8))
  qed (use I(4,5) in \<open>auto simp: u_def m\<close>)
  ultimately show ?thesis by simp
qed

lemma handle_rx_inv:
  fixes s :: "'k nf_sys"
  assumes inv: "nf_at T s r Q k r' R k'" and K: "kernel_ok K T" and fr: "fresh T rxs s"
    and c: "poll_rx s = Some c" "rx_done c" and s': "work_rx K rxs c s = Some s'"
  shows "nf_inv T (log_taken (rx_bk_skb s ! unat (rd_ptr (host_rx_dne s) div 64)) (log_given rxs s s'))"
proof -
  note I = nf_atD [OF inv]
  have "rx_dne s r'" using c poll_rx_ok [OF I(3)] by (simp add: rx_dne_def)
  from work_rx_ok [OF I(3) this I(1) K fr I(9), of c] s' obtain skb R' M where g: "R = skb # R'" "rx_bk_skb s ! r' = skb"
      "tx_card s' = tx_card s" "nd_ok s'" "nf10.more s' = nf10.more s"
      "M = (case gives rxs (length R') of [] \<Rightarrow> skbs s | x # _ \<Rightarrow> (skbs s)(fst x \<mapsto> k_skb_reserve K 2 (snd x)))"
      "skbs s' = M \<or> skbs s' = M(skb := None)"
      "rx_ring s' (hw_rx s) (rx_posted s \<union> slot (slot r' (Suc 0)) ` {length R'..<length R' + length (gives rxs (length R'))}) (slot r' (Suc 0))
        (R' @ map fst (gives rxs (length R'))) (k' - 1)" by auto
  let ?G = "gives rxs (length R')" and ?r = "slot r' (Suc 0)"
  note m = nf_sys_more [OF g(5)]
  have r: "unat (rd_ptr (host_rx_dne s) div 64) = r'" using I(3) by (simp add: rx_ring_def)
  define u where "u = log_taken skb (s'\<lparr>rx_posted := rx_posted s' \<union> slot ?r ` {length R'..<length R' + length ?G}, rx_given := rx_given s' @ map fst ?G\<rparr>)"
  have log: "log_taken (rx_bk_skb s ! unat (rd_ptr (host_rx_dne s) div 64)) (log_given rxs s s') = u"
  proof -
    have "wr_ptr (mem_rx_dsc s) = ptr (slot ?r (length R'))" "length R' < 32" using I(3) g(1) by (auto simp: rx_ring_def)
    moreover have "wr_ptr (mem_rx_dsc s') = ptr (slot ?r (length R' + length ?G))" using g(8) by (simp add: rx_ring_def)
    ultimately show ?thesis using log_given_eq [of s ?r "length R'" s' rxs "length R'"] r g(2) by (simp add: u_def)
  qed
  have new: "fst x \<notin> fst ` set Q \<union> set R \<union> rx_leaked s" if "?G = [x]" for x
    using given_live(2) [OF K fr that] I(8) by blast
  have skb: "skb \<notin> fst ` set Q" "skb \<notin> set R'" "skb \<notin> rx_leaked s" using I(6,7) g(1) by (auto simp: image_iff)
  have M: "dom M = fst ` set Q \<union> set R \<union> set (map fst ?G) \<union> rx_leaked s"
    using gives_cases [of rxs "length R'"] by (elim disjE exE) (simp_all add: g(6) I(8))
  have lk: "rx_leaked u = (if skbs s' skb = None then rx_leaked s else insert skb (rx_leaked s))" by (simp add: u_def log_taken_def m)
  have ex: "skb \<in> dom M" using M g(1) by simp
  have "nf_inv T u"
  proof (rule nf_invI)
    have rings: "rx_ring u = rx_ring s'" "tx_ring u = tx_ring s"
      by (rule rx_ring_cong, simp add: u_def log_taken_def) (rule tx_ring_cong, simp add: u_def log_taken_def g(3))
    show "nd_ok u" using g(4) by (simp add: nd_ok_def u_def log_taken_def)
    show "tx_ring u (hw_tx u) (tx_posted u) (xmits u) r Q k" unfolding rings using I(2) by (simp add: m u_def log_taken_def)
    show "rx_ring u (hw_rx u) (rx_posted u) ?r (R' @ map fst ?G) (k' - 1)" unfolding rings using g(8) by (simp add: m u_def log_taken_def)
    show "\<exists>b. skbs u x = Some b \<and> 1533 \<le> T b" if x: "x \<in> set (R' @ map fst ?G)" for x
    proof -
      have "x \<noteq> skb" using x skb gives_cases [of rxs "length R'"] new g(1) by auto
      moreover have "\<exists>b. M x = Some b \<and> 1533 \<le> T b"
        using gives_cases [of rxs "length R'"] x I(9) [of x] given_live [OF K fr] g(1) by (auto simp: g(6))
      ultimately show ?thesis using g(7) by (auto simp: u_def log_taken_def)
    qed
    show "distinct (map fst Q @ R' @ map fst ?G)" using gives_cases [of rxs "length R'"] I(6) new g(1) by (elim disjE exE) simp_all
    show "(fst ` set Q \<union> set (R' @ map fst ?G)) \<inter> rx_leaked u = {}"
      using gives_cases [of rxs "length R'"] I(7) new skb g(1) by (auto simp: lk)
    show "dom (skbs u) = fst ` set Q \<union> set (R' @ map fst ?G) \<union> rx_leaked u"
    proof (cases "skbs s' skb = None")
      case True
      then have "skbs s' = M(skb := None)" using g(7) ex by auto
      then have "dom (skbs s') = dom M - {skb}" by simp
      moreover have "dom M - {skb} = fst ` set Q \<union> set (R' @ map fst ?G) \<union> rx_leaked s"
        using M g(1) skb new gives_cases [of rxs "length R'"] by (auto simp: image_iff)
      ultimately show ?thesis using True lk by (simp add: u_def log_taken_def)
    next
      case False
      then have "skbs s' = M" using g(7) by auto
      then show ?thesis using M False lk g(1) by (auto simp: u_def log_taken_def)
    qed
  qed (use I(4,5) g(1) in \<open>auto simp: u_def m log_taken_def\<close>)
  with log show ?thesis by simp
qed

lemma up_down_inv:
  fixes s :: "'k nf_sys"
  assumes inv: "nf_at T s r Q k r' R k'" and s': "upd_ndev p f s = Some s'"
  shows "nf_inv T s'"
proof -
  note I = nf_atD [OF inv]
  have "p < 4" using s' I(1) by (auto simp: upd_ndev_def nd_ok_def rd_def bind_eq_Some_conv split: if_splits)
  from upd_ndev_ok [OF I(1) this, of f] s' have "nd_ok s'" "same_rings s s'" by auto
  then have "tx_ring s' = tx_ring s" "rx_ring s' = rx_ring s" "skbs s' = skbs s" "nf10.more s' = nf10.more s"
    by (auto simp: same_rings_def intro!: tx_ring_cong rx_ring_cong)
  with nf_sys_more [OF this(4)] I \<open>nd_ok s'\<close> show ?thesis
    by (intro nf_invI [of s' r Q k r' R k']) simp_all
qed

lemma nf_step_inv:
  assumes "nf_step K T s s'" "kernel_ok K T" "nf_inv T s"
  shows "nf_inv T s'"
proof -
  from assms(3) obtain r Q k r' R k' where inv: "nf_at T s r Q k r' R k'" by (auto simp: nf_inv_def)
  from assms(1) show ?thesis
  proof cases
    case reserve
    then show ?thesis using reserve_inv [OF inv] by blast
  next
    case full
    then show ?thesis using full_inv [OF inv] by blast
  next
    case post
    then show ?thesis using post_inv [OF inv] by blast
  next
    case card_tx
    then show ?thesis using card_tx_inv [OF inv] by blast
  next
    case handle_tx
    then show ?thesis using handle_tx_inv [OF inv] by blast
  next
    case give
    then show ?thesis using give_inv [OF inv assms(2)] by blast
  next
    case card_rx
    then show ?thesis using card_rx_inv [OF inv] by blast
  next
    case handle_rx
    then show ?thesis using handle_rx_inv [OF inv assms(2)] by blast
  next
    case up
    then show ?thesis using up_down_inv [OF inv] by (simp add: nf10i_open_def)
  next
    case down
    then show ?thesis using up_down_inv [OF inv] by (simp add: nf10i_stop_def)
  qed
qed

subsection \<open>Reachable states\<close>

text \<open>
  The state after \<open>nf10_probe\<close> set up the rings: the completion rings have the 2048 bytes that were
  asked for, the books 32 entries, and no socket buffer is in use.
\<close>

definition nf_init :: "'k nf_sys \<Rightarrow> bool" where
  "nf_init s \<longleftrightarrow> (\<exists>t d d'. init_rings d d' (set_masks t) = Some s \<and> length (host_tx_dne_ptr t) = 512 \<and> length (host_rx_dne_ptr t) = 256 \<and>
     length (tx_bk_skb t) = 32 \<and> length (tx_bk_dma_addr t) = 32 \<and> length (tx_bk_size t) = 32 \<and> length (tx_bk_port t) = 32 \<and>
     length (rx_bk_skb t) = 32 \<and> length (rx_bk_dma_addr t) = 32 \<and> length (rx_bk_size t) = 32 \<and> nd_ok t) \<and>
     skbs s = Map.empty \<and> hw_tx s = 0 \<and> tx_posted s = {} \<and> hw_rx s = 0 \<and> rx_posted s = {} \<and> xmits s = {} \<and>
     tx_accepted s = [] \<and> tx_completed s = [] \<and> rx_given s = [] \<and> rx_taken s = [] \<and> rx_leaked s = {}"

inductive nf_reach :: "'k nf_kernel \<Rightarrow> ('k sk_buff \<Rightarrow> nat) \<Rightarrow> 'k nf_sys \<Rightarrow> bool" for K T where
  init: "nf_init s \<Longrightarrow> nf_reach K T s"
| step: "nf_reach K T s \<Longrightarrow> nf_step K T s s' \<Longrightarrow> nf_reach K T s'"

lemma fill_ok:
  assumes "inj at" "\<And>j. i \<le> j \<Longrightarrow> j < i + n \<Longrightarrow> at j < length xs"
  shows "\<exists>ys. fill at v i n xs = Some ys \<and> length ys = length xs \<and> (\<forall>j. i \<le> j \<and> j < i + n \<longrightarrow> ys ! at j = v) \<and>
    (\<forall>l. l \<notin> at ` {i..<i + n} \<longrightarrow> ys ! l = xs ! l)"
  using assms(2)
proof (induction n arbitrary: i xs)
  case (Suc n)
  have "at i < length xs" using Suc.prems [of i] by simp
  from Suc.IH [of "Suc i" "xs[at i := v]"] Suc.prems obtain ys where ys: "fill at v (Suc i) n (xs[at i := v]) = Some ys" "length ys = length xs"
      "\<forall>j. Suc i \<le> j \<and> j < Suc i + n \<longrightarrow> ys ! at j = v" "\<forall>l. l \<notin> at ` {Suc i..<Suc i + n} \<longrightarrow> ys ! l = xs[at i := v] ! l" by auto
  have ati: "at i \<notin> at ` {Suc i..<Suc i + n}" using inj_image_mem_iff [OF assms(1)] by simp
  have "ys ! at j = v" if "i \<le> j" "j < i + Suc n" for j
    using that ys(3,4) ati \<open>at i < length xs\<close> by (cases "j = i") auto
  moreover have "ys ! l = xs ! l" if "l \<notin> at ` {i..<i + Suc n}" for l
  proof -
    have "l \<noteq> at i" "l \<notin> at ` {Suc i..<Suc i + n}" using that by auto
    then show ?thesis using ys(4) by simp
  qed
  ultimately show ?case using ys(1,2) \<open>at i < length xs\<close> by simp
qed auto

lemma init_rings_ok:
  assumes len: "length (host_tx_dne_ptr t) = 512" "length (host_rx_dne_ptr t) = 256"
  shows "\<exists>s ys zs. init_rings d d' (set_masks t) = Some s \<and> length ys = 512 \<and> (\<forall>j<32. ys ! (j * 16) = 0xffffffff) \<and>
    length zs = 256 \<and> (\<forall>j<32. zs ! (j * 8 + 7) = not 0) \<and>
    mem_tx_dsc s = init_mem 0x7ff \<and> mem_tx_pkt s = init_mem 0x7fff \<and> mem_rx_dsc s = init_mem 0x7ff \<and> mem_rx_pkt s = init_mem 0x7fff \<and>
    host_tx_dne s = init_mem 0x7ff \<and> host_rx_dne s = init_mem 0x7ff \<and> host_tx_dne_ptr s = ys \<and> host_rx_dne_ptr s = zs \<and> ndev s = ndev t \<and>
    tx_bk_skb s = tx_bk_skb t \<and> tx_bk_dma_addr s = tx_bk_dma_addr t \<and> tx_bk_size s = tx_bk_size t \<and> tx_bk_port s = tx_bk_port t \<and>
    rx_bk_skb s = rx_bk_skb t \<and> rx_bk_dma_addr s = rx_bk_dma_addr t \<and> rx_bk_size s = rx_bk_size t \<and> skbs s = skbs t \<and>
    cfg_addr s = (cfg_addr t)(16 := d, 17 := 0x7ff, 18 := d', 19 := 0x7ff) \<and> nf10.more s = nf10.more t"
proof -
  obtain ys where ys: "fill (\<lambda>i. i * 16) (0xffffffff :: u32) 0 32 (host_tx_dne_ptr t) = Some ys" "length ys = 512" "\<forall>j<32. ys ! (j * 16) = 0xffffffff"
    using fill_ok [of "\<lambda>i. i * 16" 0 32 "host_tx_dne_ptr t" "0xffffffff :: u32"] len(1) by (auto simp: inj_def)
  obtain zs where zs: "fill (\<lambda>i. i * 8 + 7) (not 0 :: u64) 0 32 (host_rx_dne_ptr t) = Some zs" "length zs = 256" "\<forall>j<32. zs ! (j * 8 + 7) = not 0"
    using fill_ok [of "\<lambda>i. i * 8 + 7" 0 32 "host_rx_dne_ptr t" "not 0 :: u64"] len(2) by (auto simp: inj_def)
  show ?thesis
    using ys zs by (auto simp: init_rings_def set_masks_def init_mem_def wr_cfg_def Let_def)
qed

lemma nf_init_inv:
  assumes "nf_init s"
  shows "nf_inv T s"
proof -
  from assms obtain t d d' where i: "init_rings d d' (set_masks t) = Some s" and len: "length (host_tx_dne_ptr t) = 512" "length (host_rx_dne_ptr t) = 256"
      "length (tx_bk_skb t) = 32" "length (tx_bk_dma_addr t) = 32" "length (tx_bk_size t) = 32" "length (tx_bk_port t) = 32"
      "length (rx_bk_skb t) = 32" "length (rx_bk_dma_addr t) = 32" "length (rx_bk_size t) = 32" and nd: "nd_ok t" by (auto simp: nf_init_def)
  from init_rings_ok [OF len(1,2), of d d'] i obtain ys zs where ys: "length ys = 512" "\<forall>j<32. ys ! (j * 16) = 0xffffffff"
    and zs: "length zs = 256" "\<forall>j<32. zs ! (j * 8 + 7) = not 0" and s: "mem_tx_dsc s = init_mem 0x7ff" "mem_tx_pkt s = init_mem 0x7fff"
      "mem_rx_dsc s = init_mem 0x7ff" "mem_rx_pkt s = init_mem 0x7fff" "host_tx_dne s = init_mem 0x7ff" "host_rx_dne s = init_mem 0x7ff"
      "host_tx_dne_ptr s = ys" "host_rx_dne_ptr s = zs" "ndev s = ndev t"
      "tx_bk_skb s = tx_bk_skb t" "tx_bk_dma_addr s = tx_bk_dma_addr t" "tx_bk_size s = tx_bk_size t" "tx_bk_port s = tx_bk_port t"
      "rx_bk_skb s = rx_bk_skb t" "rx_bk_dma_addr s = rx_bk_dma_addr t" "rx_bk_size s = rx_bk_size t"
    by auto
  have "tx_ring s 0 {} {} 0 [] 0"
    using ys len by (simp add: tx_ring_def tx_cfg_def s init_mem_def ptr_def tx_dne_def tx_done_def slot_def)
  moreover have "rx_ring s 0 {} 0 [] 0"
  proof -
    have "drop_bit 48 (not 0 :: u64) = 0xffff" by (simp add: drop_bit_eq_div)
    then show ?thesis
      using zs len by (simp add: rx_ring_def rx_cfg_def s init_mem_def ptr_def rx_dne_def rx_done_def slot_def)
  qed
  moreover have "nd_ok s" using nd s(9) by (simp add: nd_ok_def)
  ultimately show ?thesis using assms by (intro nf_invI [of s 0 "[]" 0 0 "[]" 0]) (auto simp: nf_init_def)
qed

lemma nf_reach_inv: "nf_reach K T s \<Longrightarrow> kernel_ok K T \<Longrightarrow> nf_inv T s"
  by (induction rule: nf_reach.induct) (auto intro: nf_init_inv nf_step_inv)

text \<open>No step of the driver faults.\<close>

definition nf_no_fault :: "'k nf_kernel \<Rightarrow> ('k sk_buff \<Rightarrow> nat) \<Rightarrow> 'k nf_sys \<Rightarrow> bool" where
  "nf_no_fault K T s \<longleftrightarrow> (\<forall>x\<in>xmits s. xmit_post_req x s \<noteq> None) \<and>
     (\<forall>dma len port. len \<le> 1514 \<and> port < 4 \<longrightarrow> xmit_reserve (Some dma) len port s \<noteq> None) \<and>
     (\<exists>c. poll_tx s = Some c \<and> (tx_done c \<longrightarrow> work_tx s \<noteq> None)) \<and>
     (\<exists>c. poll_rx s = Some c \<and> (rx_done c \<longrightarrow> (\<forall>rxs. fresh T rxs s \<longrightarrow> work_rx K rxs c s \<noteq> None)))"

lemma nf_at_no_fault:
  fixes s :: "'k nf_sys"
  assumes inv: "nf_at T s r Q k r' R k'" and K: "kernel_ok K T"
  shows "nf_no_fault K T s"
proof -
  note I = nf_atD [OF inv]
  have "xmit_post_req x s \<noteq> None" if "x \<in> xmits s" for x using xmit_post_ok [OF I(2) that] by auto
  moreover have "xmit_reserve (Some dma) len port s \<noteq> None" if "len \<le> 1514" "port < 4" for dma len port
    using xmit_reserve_ok [OF I(1) that(2) I(2) that(1), of dma 0] by auto
  moreover have "work_tx s \<noteq> None" if "tx_done (host_tx_dne_ptr s ! (r * 16))"
    using work_tx_ok [OF I(2) _ I(1)] that I(8) by (auto simp: tx_dne_def)
  moreover have "work_rx K rxs c s \<noteq> None" if "rx_done (host_rx_dne_ptr s ! (r' * 8 + 7))" "fresh T rxs s" for rxs c
    using work_rx_ok [OF I(3) _ I(1) K that(2) I(9), of c] that(1) by (auto simp: rx_dne_def)
  ultimately show ?thesis using poll_tx_ok [OF I(2)] poll_rx_ok [OF I(3)] by (simp add: nf_no_fault_def)
qed


text \<open>A kernel whose socket buffers hold the room behind the data.\<close>

definition kernel0 :: "nat nf_kernel" where
  "kernel0 = \<lparr>k_skb_put = (\<lambda>n b. if unat n \<le> skb_priv b then Some (b\<lparr>skb_len := skb_len b + n, skb_priv := skb_priv b - unat n\<rparr>) else None),
     k_skb_reserve = (\<lambda>n b. b\<lparr>skb_data := skb_data b + ucast n, skb_priv := skb_priv b - unat n\<rparr>),
     k_eth_type_trans = (\<lambda>p b. (0x0800, b))\<rparr>"

lemma kernel0_ok: "kernel_ok kernel0 skb_priv"
  by (simp add: kernel_ok_def kernel0_def)

definition nd0 :: "nat \<Rightarrow> net_device" where
  "nd0 i = \<lparr>queue_stopped = False, port_num = i, port_up = False, rx_packets = 0, rx_bytes = 0, tx_packets = 0, tx_bytes = 0, dev_addr = [], mtu = 1500\<rparr>"

definition nf_blank :: "nat nf_sys" where
  "nf_blank = \<lparr>cfg_addr = (\<lambda>_. 1), tx_dsc = (\<lambda>_. 0), rx_dsc = (\<lambda>_. 0), tx_dsc_mask = 0, rx_dsc_mask = 0, tx_pkt_mask = 0, rx_pkt_mask = 0,
     tx_dne_mask = 0, rx_dne_mask = 0, host_tx_dne_ptr = replicate 512 0, host_rx_dne_ptr = replicate 256 0, ndev = map (Some \<circ> nd0) [0, 1, 2, 3],
     mem_tx_dsc = init_mem 0, mem_tx_pkt = init_mem 0, mem_rx_dsc = init_mem 0, mem_rx_pkt = init_mem 0, host_tx_dne = init_mem 0,
     host_rx_dne = init_mem 0, tx_bk_skb = replicate 32 0, tx_bk_dma_addr = replicate 32 0, tx_bk_size = replicate 32 0,
     tx_bk_port = replicate 32 0, rx_bk_skb = replicate 32 0, rx_bk_dma_addr = replicate 32 0, rx_bk_size = replicate 32 0,
     work_queued = False, skbs = Map.empty, delivered = [], hw_tx = 0, tx_posted = {}, hw_rx = 0, rx_posted = {}, xmits = {},
     tx_accepted = [], tx_completed = [], rx_given = [], rx_taken = [], rx_leaked = {}\<rparr>"

definition nf_start :: "nat nf_sys" where
  "nf_start = the (init_rings 0 0 (set_masks nf_blank))"

lemma nf_start_props:
  "init_rings 0 0 (set_masks nf_blank) = Some nf_start" "mem_tx_dsc nf_start = init_mem 0x7ff" "mem_tx_pkt nf_start = init_mem 0x7fff"
  "skbs nf_start = skbs nf_blank" "nf10.more nf_start = nf10.more nf_blank" "ndev nf_start = ndev nf_blank"
  "cfg_addr nf_start = (cfg_addr nf_blank)(16 := 0, 17 := 0x7ff, 18 := 0, 19 := 0x7ff)"
  using init_rings_ok [of nf_blank 0 0] by (auto simp: nf_start_def nf_blank_def)

lemma nf_start_init: "nf_init nf_start"
proof -
  note m = nf_sys_more [OF nf_start_props(5)]
  have "nd_ok nf_blank" by (simp add: nd_ok_def nf_blank_def)
  then show ?thesis unfolding nf_init_def using nf_start_props(1,4) m
    by (intro conjI exI [of _ nf_blank] exI [of _ 0]) (simp_all add: nf_blank_def)
qed


end
