(* ===== verification/Nf10_Handler.thy ===== *)
theory Nf10_Handler
  imports Nf10_System Option_Wp
begin

text \<open>
  The loop of \<open>work_handler\<close>. It polls with interrupts disabled while there is work and enables them
  before it leaves; it leaves only after a pass that found no work with interrupts enabled, so that no
  completion is left without an interrupt. When the card and the transmitters fall silent it returns.
\<close>

lemma wp_arrays [wp]: "(\<And>v. P v) \<Longrightarrow> rets P (rd xs i)" "(\<And>ys. P' ys) \<Longrightarrow> rets P' (wr xs i v)" "(\<And>b. P'' b) \<Longrightarrow> rets P'' (skbs s skb)"
  by (simp_all add: rets_def)

lemma cfg_upd_ndev: "upd_ndev p f s = Some s' \<Longrightarrow> cfg_addr s' = cfg_addr s"
  unfolding upd_ndev_def by (auto simp: bind_eq_Some_conv)

lemma cfg_wake_queues [THEN rets_mono, wp]: "rets (\<lambda>s'. cfg_addr s' = cfg_addr s) (wake_queues is s)"
proof (induction "is" arbitrary: s)
  case (Cons i "is")
  then show ?case by (auto simp: rets_def bind_eq_Some_conv dest!: cfg_upd_ndev)
qed (simp add: rets_def)

lemma cfg_kfree_skb [THEN rets_mono, wp]: "rets (\<lambda>s'. cfg_addr s' = cfg_addr s) (kfree_skb skb s)"
  unfolding kfree_skb_def by (auto intro!: wp)

lemma cfg_work_tx [THEN rets_mono, wp]: "rets (\<lambda>s'. cfg_addr s' = cfg_addr s) (work_tx s)"
  unfolding work_tx_def by (auto intro!: wp)

lemma cfg_send_rx_dsc [THEN rets_mono, wp]: "rets (\<lambda>(_, s'). cfg_addr s' = cfg_addr s) (nf10priv_send_rx_dsc K rxs s)"
  unfolding nf10priv_send_rx_dsc_def by (auto intro!: wp)

lemma cfg_rx_deliver [THEN rets_mono, wp]: "rets (\<lambda>s'. cfg_addr s' = cfg_addr s) (rx_deliver K skb len port s)"
  unfolding rx_deliver_def netif_receive_skb_def kfree_skb_def Let_def
  by (auto simp: rets_def bind_eq_Some_conv case_prod_beta split: option.splits if_splits dest!: cfg_upd_ndev)

lemma cfg_work_rx [THEN rets_mono, wp]: "rets (\<lambda>s'. cfg_addr s' = cfg_addr s) (work_rx K rxs c s)"
  unfolding work_rx_def by (auto intro!: wp)

text \<open>The interrupt enable registers of the card.\<close>

definition ints :: "('k, 'a) nf10_scheme \<Rightarrow> u64 \<times> u64" where
  "ints s = (cfg_addr s 25, cfg_addr s 26)"

lemma ints_set [simp]: "ints (set_ints v s) = (v, v)"
  by (simp add: ints_def set_ints_def)

lemma ints_cfg: "cfg_addr s' = cfg_addr s \<Longrightarrow> ints s' = ints s"
  by (simp add: ints_def)

lemma cfg_pass_work:
  assumes "pass_work K env a b t = Some s'"
  shows "ints s' = ints t"
proof -
  have "rets (\<lambda>s'. cfg_addr s' = cfg_addr t) (pass_work K env a b t)" unfolding pass_work_def by (auto intro!: wp)
  from retsD [OF this assms] show ?thesis by (rule ints_cfg)
qed

lemma pass_work_idle [simp]: "\<not> tx_done a \<Longrightarrow> \<not> rx_done b \<Longrightarrow> pass_work K env a b t = Some t"
  by (simp add: pass_work_def)

text \<open>A pass that ends the loop found no work, with interrupts enabled.\<close>

lemma work_pass_ints:
  assumes pass: "work_pass K env v s = Some (v', s')" and ints: "int_enabled v \<Longrightarrow> ints s = (1, 1)"
    and dev: "\<And>t. ints (pe_dev env t) = ints t"
  shows "int_enabled v' \<Longrightarrow> ints s' = (1, 1)"
    "tcnt v' = 0 \<Longrightarrow> \<exists>a b. s' = pe_dev env s \<and> ints s = (1, 1) \<and> ints s' = (1, 1) \<and> poll_tx s' = Some a \<and> \<not> tx_done a \<and>
       poll_rx s' = Some b \<and> \<not> rx_done b"
proof -
  obtain w t where h: "pass_head env v s = (w, t)" by (cases "pass_head env v s")
  from pass h obtain a b u where p: "poll_tx t = Some a" "poll_rx t = Some b" "pass_work K env a b t = Some u"
      "(v', s') = pass_end (\<not> tx_done a \<and> \<not> rx_done b) w u"
    by (auto simp: work_pass_def bind_eq_Some_conv)
  have w: "int_enabled w \<Longrightarrow> ints t = (1, 1) \<and> t = pe_dev env s \<and> ints s = (1, 1)"
    using h ints dev by (auto simp: pass_head_def split: if_splits)
  note u = cfg_pass_work [OF p(3)]
  show "int_enabled v' \<Longrightarrow> ints s' = (1, 1)"
    using p(4) w u by (auto simp: pass_end_def Let_def split: if_splits)
  assume "tcnt v' = 0"
  then have "\<not> tx_done a" "\<not> rx_done b" "int_enabled w" "s' = u"
    using p(4) by (auto simp: pass_end_def Let_def split: if_splits)
  with w p u show "\<exists>a b. s' = pe_dev env s \<and> ints s = (1, 1) \<and> ints s' = (1, 1) \<and> poll_tx s' = Some a \<and> \<not> tx_done a \<and>
       poll_rx s' = Some b \<and> \<not> rx_done b" by auto
qed

definition handler_post :: "(nat \<Rightarrow> ('k, ('k, 'a) nf10_scheme) pass_env) \<Rightarrow> nat \<Rightarrow> ('k, 'a) nf10_scheme \<Rightarrow> bool" where
  "handler_post env n s' \<longleftrightarrow> (\<exists>a b t. 0 < n \<and> s' = pe_dev (env (n - 1)) t \<and> ints t = (1, 1) \<and> ints s' = (1, 1) \<and>
     poll_tx s' = Some a \<and> \<not> tx_done a \<and> poll_rx s' = Some b \<and> \<not> rx_done b)"

lemma work_loop_exit:
  assumes "work_loop K env n v s = Some (m, s')" "\<forall>i t. ints (pe_dev (env i) t) = ints t" "int_enabled v \<longrightarrow> ints s = (1, 1)" "tcnt v \<noteq> 0"
  shows "handler_post env m s'"
proof -
  have "rets (\<lambda>(m, s'). (\<forall>i t. ints (pe_dev (env i) t) = ints t) \<longrightarrow> (int_enabled v \<longrightarrow> ints s = (1, 1)) \<longrightarrow>
      (if tcnt v = 0 then m = n \<and> s' = s else handler_post env m s')) (work_loop K env n v s)"
    apply (rule retsI, erule work_loop.raw_induct [rotated])
    subgoal premises step for _ loop K env n v s r
    proof (cases "tcnt v = 0")
      case True
      with step(2) show ?thesis by auto
    next
      case False
      with step(2) obtain v1 s1 where p: "work_pass K (env n) v s = Some (v1, s1)" "loop K env (Suc n) v1 s1 = Some r"
        by (auto simp: bind_eq_Some_conv)
      obtain m s' where r: "r = (m, s')" by (cases r)
      show ?thesis
      proof (clarsimp simp: r False)
        assume dev: "\<forall>i t. ints (pe_dev (env i) t) = ints t" and i: "int_enabled v \<longrightarrow> ints s = (1, 1)"
        note q = work_pass_ints [OF p(1) i [rule_format] dev [rule_format]]
        from step(1) [OF p(2)] dev q(1) r have "if tcnt v1 = 0 then m = Suc n \<and> s' = s1 else handler_post env m s'" by auto
        then show "handler_post env m s'" using q(2) by (auto simp: handler_post_def split: if_splits)
      qed
    qed
    done
  from retsD [OF this assms(1)] assms(2-4) show ?thesis by simp
qed

text \<open>
  C21: the handler leaves the interrupts of the card enabled. The last thing it did was to look at both
  completion rings, with interrupts enabled, and to find nothing: a completion that comes later
  raises an interrupt, and none is left behind.
\<close>

theorem work_handler_no_lost_interrupt:
  assumes "work_handler K env s = Some (n, s')" "ints s = (1, 1)" "\<forall>i t. ints (pe_dev (env i) t) = ints t"
  shows "\<exists>a b t. 0 < n \<and> s' = pe_dev (env (n - 1)) t \<and> ints t = (1, 1) \<and> ints s' = (1, 1) \<and>
    poll_tx s' = Some a \<and> \<not> tx_done a \<and> poll_rx s' = Some b \<and> \<not> rx_done b"
  using work_loop_exit [of K env 0 _ s n s'] assms unfolding work_handler_def handler_post_def by auto

subsection \<open>The handler returns\<close>

text \<open>The rings are in order, with \<open>k\<close> and \<open>k'\<close> completions that were not handled.\<close>

definition drv_at :: "('k sk_buff \<Rightarrow> nat) \<Rightarrow> ('k, 'a) nf10_scheme \<Rightarrow> nat \<Rightarrow> nat \<Rightarrow> bool" where
  "drv_at T s k k' \<longleftrightarrow> (\<exists>h P X h' P' r Q r' R. nd_ok s \<and> tx_ring s h P X r Q k \<and> rx_ring s h' P' r' R k' \<and> distinct (map fst Q @ R) \<and>
     fst ` set Q \<subseteq> dom (skbs s) \<and> (\<forall>skb\<in>set R. \<exists>b. skbs s skb = Some b \<and> 1533 \<le> T b))"

definition drv_ok :: "('k sk_buff \<Rightarrow> nat) \<Rightarrow> ('k, 'a) nf10_scheme \<Rightarrow> bool" where
  "drv_ok T s \<longleftrightarrow> (\<exists>k k'. drv_at T s k k')"

lemma drv_atI:
  assumes "nd_ok s" "tx_ring s h P X r Q k" "rx_ring s h' P' r' R k'" "distinct (map fst Q @ R)" "fst ` set Q \<subseteq> dom (skbs s)"
    "\<And>skb. skb \<in> set R \<Longrightarrow> \<exists>b. skbs s skb = Some b \<and> 1533 \<le> T b"
  shows "drv_at T s k k'"
proof -
  have "\<forall>skb\<in>set R. \<exists>b. skbs s skb = Some b \<and> 1533 \<le> T b" using assms(6) by blast
  with assms(1-5) show ?thesis unfolding drv_at_def by (intro exI conjI)
qed

lemma drv_atE:
  assumes "drv_at T s k k'"
  obtains h P X r Q h' P' r' R where "nd_ok s" "tx_ring s h P X r Q k" "rx_ring s h' P' r' R k'" "distinct (map fst Q @ R)"
    "fst ` set Q \<subseteq> dom (skbs s)" "\<And>skb. skb \<in> set R \<Longrightarrow> \<exists>b. skbs s skb = Some b \<and> 1533 \<le> T b"
  using assms unfolding drv_at_def by (elim exE conjE) (rule that; (assumption | erule (1) bspec))

lemma nf_inv_drv_ok:
  assumes "nf_inv T s"
  shows "drv_ok T s"
proof -
  from assms obtain r Q k r' R k' where "nf_at T s r Q k r' R k'" unfolding nf_inv_def by (elim exE)
  note I = nf_atD [OF this]
  have "fst ` set Q \<subseteq> dom (skbs s)" unfolding I(8) by blast
  from drv_atI [OF I(1-3,6) this I(9)] show ?thesis unfolding drv_ok_def by blast
qed

lemma drv_at_set_ints [simp]: "drv_at T (set_ints v s) = drv_at T s"
proof -
  have "tx_ring (set_ints v s) = tx_ring s" "rx_ring (set_ints v s) = rx_ring s"
    by (rule tx_ring_cong, simp add: set_ints_def tx_card_def) (rule rx_ring_cong, simp add: set_ints_def rx_card_def)
  moreover have "nd_ok (set_ints v s) = nd_ok s" "skbs (set_ints v s) = skbs s" by (simp_all add: set_ints_def nd_ok_def)
  ultimately show ?thesis by (intro ext) (simp add: drv_at_def)
qed

lemma drv_at_pass_end: "drv_at T (snd (pass_end i w x)) = drv_at T x"
  by (simp add: pass_end_def Let_def)

lemma drv_tx:
  assumes "drv_at T s k k'" "poll_tx s = Some a" "tx_done a"
  shows "\<exists>s'. work_tx s = Some s' \<and> drv_at T s' (k - 1) k' \<and> 0 < k"
proof -
  from assms(1) obtain h P X r Q h' P' r' R where d: "nd_ok s" "tx_ring s h P X r Q k" "rx_ring s h' P' r' R k'" "distinct (map fst Q @ R)"
      "fst ` set Q \<subseteq> dom (skbs s)" "\<And>skb. skb \<in> set R \<Longrightarrow> \<exists>b. skbs s skb = Some b \<and> 1533 \<le> T b" by (rule drv_atE) (rule that)
  have "tx_dne s r" using assms(2,3) poll_tx_ok [OF d(2)] by (simp add: tx_dne_def)
  from work_tx_ok [OF d(2) this d(1,5)] obtain q Q' s' where q: "0 < k" "Q = q # Q'" "work_tx s = Some s'"
      "tx_ring s' h P X (slot r (Suc 0)) Q' (k - 1)" "rx_card s' = rx_card s" "skbs s' = (skbs s)(fst q := None)" "nd_ok s'" by blast
  have rx: "rx_ring s' h' P' r' R k'" using d(3) rx_ring_cong [OF q(5)] by simp
  have ne: "fst q \<notin> fst ` set Q'" "fst q \<notin> set R" "distinct (map fst Q' @ R)" using d(4) q(2) by auto
  then have "fst ` set Q' \<subseteq> dom (skbs s')" using d(5) q(2) by (simp add: q(6) subset_Diff_insert)
  moreover have "\<exists>b. skbs s' skb = Some b \<and> 1533 \<le> T b" if "skb \<in> set R" for skb using d(6) [OF that] that ne(2) by (auto simp: q(6))
  ultimately have "drv_at T s' (k - 1) k'" by (rule drv_atI [OF q(7,4) rx ne(3)])
  with q(1,3) show ?thesis by blast
qed

lemma drv_rx:
  assumes "drv_at T s k k'" "poll_rx s = Some b" "rx_done b" and K: "kernel_ok K T" and fr: "fresh T rxs s"
  shows "\<exists>s'. work_rx K rxs b s = Some s' \<and> drv_at T s' k (k' - 1) \<and> 0 < k'"
proof -
  from assms(1) obtain h P X r Q h' P' r' R where d: "nd_ok s" "tx_ring s h P X r Q k" "rx_ring s h' P' r' R k'" "distinct (map fst Q @ R)"
      "fst ` set Q \<subseteq> dom (skbs s)" "\<And>skb. skb \<in> set R \<Longrightarrow> \<exists>b. skbs s skb = Some b \<and> 1533 \<le> T b" by (rule drv_atE) (rule that)
  have "rx_dne s r'" using assms(2,3) poll_rx_ok [OF d(3)] by (simp add: rx_dne_def)
  from work_rx_ok [OF d(3) this d(1) K fr d(6), of b] obtain skb R' s' M where g: "0 < k'" "R = skb # R'" "work_rx K rxs b s = Some s'"
      "tx_card s' = tx_card s" "nd_ok s'" "M = (case gives rxs (length R') of [] \<Rightarrow> skbs s | x # _ \<Rightarrow> (skbs s)(fst x \<mapsto> k_skb_reserve K 2 (snd x)))"
      "skbs s' = M \<or> skbs s' = M(skb := None)"
      "rx_ring s' h' (P' \<union> slot (slot r' (Suc 0)) ` {length R'..<length R' + length (gives rxs (length R'))}) (slot r' (Suc 0))
        (R' @ map fst (gives rxs (length R'))) (k' - 1)" by blast
  let ?G = "gives rxs (length R')"
  have new: "fst x \<notin> fst ` set Q" "fst x \<notin> set R" if "?G = [x]" for x
    using given_live(2) [OF K fr that] d(5) d(6) [of "fst x"] by auto
  have tx: "tx_ring s' h P X r Q k" using d(2) tx_ring_cong [OF g(4)] by simp
  have dist: "distinct (map fst Q @ R' @ map fst ?G)" using gives_cases [of rxs "length R'"] d(4) new g(2) by (elim disjE exE) simp_all
  have "\<exists>b. skbs s' x = Some b \<and> 1533 \<le> T b" if x: "x \<in> set (R' @ map fst ?G)" for x
  proof -
    have "x \<noteq> skb" using x d(4) gives_cases [of rxs "length R'"] new g(2) by auto
    moreover have "\<exists>b. M x = Some b \<and> 1533 \<le> T b"
      using gives_cases [of rxs "length R'"] x d(6) [of x] given_live [OF K fr] g(2) by (auto simp: g(6))
    ultimately show ?thesis using g(7) by auto
  qed
  moreover have "fst ` set Q \<subseteq> dom (skbs s')"
  proof
    fix x assume x: "x \<in> fst ` set Q"
    then have "x \<noteq> skb" using d(4) g(2) by auto
    moreover have "x \<in> dom M" using d(5) x gives_cases [of rxs "length R'"] by (auto simp: g(6))
    ultimately show "x \<in> dom (skbs s')" using g(7) by auto
  qed
  ultimately have "drv_at T s' k (k' - 1)" by (intro drv_atI [OF g(5) tx g(8) dist])
  with g(1,3) show ?thesis by blast
qed

lemma pass_work_ok:
  assumes d: "drv_at T s k k'" and ab: "poll_tx s = Some a" "poll_rx s = Some b" and K: "kernel_ok K T" and fr: "\<And>t. fresh T (pe_rx env t) t"
  shows "\<exists>s' j j'. pass_work K env a b s = Some s' \<and> drv_at T s' j j' \<and> (if tx_done a \<or> rx_done b then j + j' < k + k' else s' = s)"
proof -
  obtain t j where t: "(if tx_done a then work_tx s else Some s) = Some t" "drv_at T t j k'" "if tx_done a then j < k else j = k \<and> t = s"
    using drv_tx [OF d ab(1)] d by (cases "tx_done a") auto
  have "poll_rx t = Some b"
  proof (cases "tx_done a")
    case True
    with drv_tx [OF d ab(1)] t(1) have "work_tx s = Some t" by auto
    with d ab(1) True have "rx_card t = rx_card s" unfolding drv_at_def
      by (metis (no_types, lifting) option.inject poll_tx_ok tx_dne_def work_tx_ok)
    then show ?thesis using ab(2) by (simp add: poll_rx_def rx_card_def)
  qed (use t ab in auto)
  with drv_rx [OF t(2) _ _ K fr [of t]] t show ?thesis
    by (cases "rx_done b") (fastforce simp: pass_work_def split: if_splits)+
qed

text \<open>What the surroundings of the handler do: they keep the rings in order, supply fresh socket buffers, and fall silent.\<close>

definition env_ok :: "('k sk_buff \<Rightarrow> nat) \<Rightarrow> (nat \<Rightarrow> ('k, ('k, 'a) nf10_scheme) pass_env) \<Rightarrow> nat \<Rightarrow> bool" where
  "env_ok T env N \<longleftrightarrow> (\<forall>i t. fresh T (pe_rx (env i) t) t) \<and> (\<forall>i t. drv_ok T t \<longrightarrow> drv_ok T (pe_dev (env i) t)) \<and> (\<forall>i\<ge>N. pe_dev (env i) = id)"

text \<open>A pass without work brings the loop closer to its end.\<close>

definition idle_measure :: "work_vars \<Rightarrow> nat" where
  "idle_measure v = 3 * tcnt v + (if \<not> int_enabled v then 2 else if sint (work_counter v) > 0 then 1 else 0)"

lemma idle_measure_less:
  assumes "pass_head env v s = (w, t)" "pass_end True w u = (v', s')" "tcnt v \<noteq> 0"
  shows "idle_measure v' < idle_measure v"
  using assms by (auto simp: pass_head_def pass_end_def idle_measure_def Let_def split: if_splits)

lemma work_pass_ok:
  assumes env: "env_ok T env N" and K: "kernel_ok K T" and d: "drv_ok T s"
  shows "\<exists>v' s'. work_pass K (env n) v s = Some (v', s') \<and> drv_ok T s'"
    and "N \<le> n \<Longrightarrow> drv_at T s k k' \<Longrightarrow> tcnt v \<noteq> 0 \<Longrightarrow> \<exists>v' s' j j'. work_pass K (env n) v s = Some (v', s') \<and> drv_at T s' j j' \<and>
      (j + j' < k + k' \<or> j + j' = k + k' \<and> idle_measure v' < idle_measure v)"
proof -
  obtain w t where h: "pass_head (env n) v s = (w, t)" by (cases "pass_head (env n) v s")
  have fr: "fresh T (pe_rx (env n) t) t" for t using env by (simp add: env_ok_def)
  have pass: "\<exists>v' s' u j j'. work_pass K (env n) v s = Some (v', s') \<and> drv_at T s' j j' \<and>
      (j + j' < k + k' \<or> j + j' = k + k' \<and> pass_end True w u = (v', s'))" if t: "drv_at T t k k'" for k k'
  proof -
    from t obtain a b where ab: "poll_tx t = Some a" "poll_rx t = Some b" by (elim drv_atE) (drule poll_tx_ok poll_rx_ok)+
    from pass_work_ok [OF t ab K fr] obtain u j j' where u: "pass_work K (env n) a b t = Some u" "drv_at T u j j'"
      "if tx_done a \<or> rx_done b then j + j' < k + k' else u = t" by blast
    have "work_pass K (env n) v s = Some (pass_end (\<not> tx_done a \<and> \<not> rx_done b) w u)" using h ab u(1) by (simp add: work_pass_def)
    moreover obtain v' s' where e: "pass_end (\<not> tx_done a \<and> \<not> rx_done b) w u = (v', s')" by (cases "pass_end (\<not> tx_done a \<and> \<not> rx_done b) w u")
    moreover have "drv_at T s' = drv_at T u" using drv_at_pass_end [of T _ w u] e by (metis snd_conv)
    ultimately show ?thesis using t u(2,3) by (cases "tx_done a \<or> rx_done b") auto
  qed
  have "drv_ok T (set_ints 0 s)" using d by (simp add: drv_ok_def)
  then have "drv_ok T t" using h env d by (auto simp: pass_head_def env_ok_def split: if_splits)
  then obtain i i' where "drv_at T t i i'" by (auto simp: drv_ok_def)
  from pass [OF this] show "\<exists>v' s'. work_pass K (env n) v s = Some (v', s') \<and> drv_ok T s'" unfolding drv_ok_def by (elim exE conjE) (intro exI conjI)
  assume n: "N \<le> n" "drv_at T s k k'" "tcnt v \<noteq> 0"
  then have "drv_at T t k k'" using h env by (auto simp: pass_head_def env_ok_def split: if_splits)
  from pass [OF this] obtain v' s' u j j' where p: "work_pass K (env n) v s = Some (v', s')" "drv_at T s' j j'"
      "j + j' < k + k' \<or> j + j' = k + k' \<and> pass_end True w u = (v', s')" by (elim exE conjE)
  then have "j + j' < k + k' \<or> j + j' = k + k' \<and> idle_measure v' < idle_measure v" using idle_measure_less [OF h _ n(3), of u v' s'] by auto
  with p(1,2) show "\<exists>v' s' j j'. work_pass K (env n) v s = Some (v', s') \<and> drv_at T s' j j' \<and>
      (j + j' < k + k' \<or> j + j' = k + k' \<and> idle_measure v' < idle_measure v)" by (intro exI conjI)
qed

lemma work_loop_quiet:
  assumes env: "env_ok T env N" and K: "kernel_ok K T"
  shows "N \<le> n \<Longrightarrow> drv_at T s k k' \<Longrightarrow> \<exists>m s'. work_loop K env n v s = Some (m, s') \<and> drv_ok T s'"
proof (induction "(k + k', idle_measure v)" arbitrary: n s k k' v rule: wf_induct_rule [OF wf_lex_prod [OF wf_less wf_less]])
  case less: 1
  show ?case
  proof (cases "tcnt v = 0")
    case True
    then show ?thesis using less.prems by (subst work_loop.simps) (auto simp: drv_ok_def)
  next
    case False
    have "drv_ok T s" using less.prems by (auto simp: drv_ok_def)
    from work_pass_ok(2) [OF env K this less.prems False] obtain v' s' j j' where p: "work_pass K (env n) v s = Some (v', s')" "drv_at T s' j j'"
        "j + j' < k + k' \<or> j + j' = k + k' \<and> idle_measure v' < idle_measure v" by blast
    then have "((j + j', idle_measure v'), (k + k', idle_measure v)) \<in> {(x, y). x < y} <*lex*> {(x, y). x < y}" by auto
    from less.hyps [OF this, of "Suc n" s'] less.prems p(1,2) False show ?thesis by (subst work_loop.simps) auto
  qed
qed

lemma work_loop_returns:
  assumes env: "env_ok T env N" and K: "kernel_ok K T" and d: "drv_ok T s"
  shows "\<exists>m s'. work_loop K env n v s = Some (m, s') \<and> drv_ok T s'"
  using d
proof (induction "N - n" arbitrary: n s v)
  case 0
  then show ?case using work_loop_quiet [OF env K, of n s] by (auto simp: drv_ok_def)
next
  case (Suc i)
  show ?case
  proof (cases "tcnt v = 0")
    case True
    then show ?thesis using Suc.prems by (subst work_loop.simps) simp
  next
    case False
    from work_pass_ok(1) [OF env K Suc.prems] obtain v' s' where p: "work_pass K (env n) v s = Some (v', s')" "drv_ok T s'" by blast
    have "i = N - Suc n" using Suc.hyps(2) by simp
    from Suc.hyps(1) [OF this p(2)] p(1) False show ?thesis by (subst work_loop.simps) simp
  qed
qed

text \<open>
  C22: the handler returns, whatever completions there are and come, when the card and the transmitters
  fall silent at some point; it faults in no pass, and the rings stay in order.
\<close>

theorem work_handler_returns:
  assumes "env_ok T env N" "kernel_ok K T" "drv_ok T s"
  shows "\<exists>n s'. work_handler K env s = Some (n, s') \<and> drv_ok T s'"
  unfolding work_handler_def by (rule work_loop_returns [OF assms])

definition idle_env :: "nat \<Rightarrow> (nat, nat nf_sys) pass_env" where
  "idle_env i = \<lparr>pe_dev = id, pe_rx = (\<lambda>_. \<lparr>rs_skb = None, rs_dma = 0\<rparr>)\<rparr>"

lemma idle_env_ok: "env_ok T idle_env 0"
  by (simp add: env_ok_def idle_env_def fresh_def)

lemma nf_start_ok: "drv_ok skb_priv nf_start" "ints nf_start = (1, 1)"
  by (rule nf_inv_drv_ok, rule nf_init_inv, rule nf_start_init) (simp add: ints_def nf_start_props nf_blank_def)

theorem work_handler_returns_witness: "\<exists>n s'. work_handler kernel0 idle_env nf_start = Some (n, s') \<and> drv_ok skb_priv s'"
  by (rule work_handler_returns [OF idle_env_ok kernel0_ok nf_start_ok(1)])

theorem work_handler_no_lost_interrupt_witness: "\<exists>n s'. work_handler kernel0 idle_env nf_start = Some (n, s') \<and> ints s' = (1, 1)"
proof -
  obtain n s' where h: "work_handler kernel0 idle_env nf_start = Some (n, s')"
    using work_loop_returns [OF idle_env_ok kernel0_ok nf_start_ok(1)] unfolding work_handler_def by blast
  have "\<forall>i t. ints (pe_dev (idle_env i) t) = ints t" by (simp add: idle_env_def)
  from work_handler_no_lost_interrupt [OF h nf_start_ok(2) this] h show ?thesis by blast
qed

subsection \<open>What goes wrong\<close>

text \<open>
  when a packet cannot be mapped for DMA, \<open>nf10priv_xmit\<close> returns -1 with the write pointers
  moved and the counters unchanged. No way of reading the ring makes sense any more: the next
  descriptor is written behind a slot that stays empty, and the card and the handler wait for that slot.
\<close>

theorem xmit_dma_error_breaks_ring:
  assumes "tx_ring s h P X r Q k" "length Q < 32" "cnt (mem_tx_pkt s) + xmit_cl_size len \<le> cl_size (mem_tx_pkt s)"
  shows "\<exists>s'. xmit_reserve None len port s = Some (None, s') \<and> wr_ptr (mem_tx_dsc s') = ptr (slot r (Suc (length Q))) \<and>
    (\<nexists>h P X r Q k. tx_ring s' h P X r Q k)"
proof -
  define s' where "s' = snd (the (xmit_reserve None len port s))"
  have c: "cl_size (mem_tx_dsc s) = 32" "unat (cnt (mem_tx_dsc s)) = length Q" "mem_mask (mem_tx_dsc s) = 0x7ff"
      "wr_ptr (mem_tx_dsc s) = ptr (slot r (length Q))" "r < 32" "rd_ptr (host_tx_dne s) = ptr r"
    using assms(1) by (simp_all add: tx_ring_def tx_cfg_def)
  then have "cnt (mem_tx_dsc s) + 1 \<le> cl_size (mem_tx_dsc s)" using assms(2) by (simp add: word_le_unat unat_add_less)
  then have s': "xmit_reserve None len port s = Some (None, s')" "wr_ptr (mem_tx_dsc s') = ptr (slot r (Suc (length Q)))"
      "cnt (mem_tx_dsc s') = cnt (mem_tx_dsc s)" "host_tx_dne s' = host_tx_dne s"
    unfolding s'_def using assms(3) c by (simp_all add: xmit_reserve_def Let_def)
  have False if "tx_ring s' h' P' X' r' Q' k'" for h' P' X' r' Q' k'
  proof -
    from that have a: "wr_ptr (mem_tx_dsc s') = ptr (slot r' (length Q'))" "rd_ptr (host_tx_dne s') = ptr r'" "unat (cnt (mem_tx_dsc s')) = length Q'" "r' < 32"
      unfolding tx_ring_def by simp_all
    then have "ptr r' = ptr r" "length Q' = length Q" "ptr (slot r (Suc (length Q))) = ptr (slot r' (length Q'))" using s' c by auto
    then have "slot r (Suc (length Q)) = slot r (length Q)" using c(5) a(4) ptr_div(1) slot_less by metis
    then have "slot (slot r (length Q)) (Suc 0) = slot (slot r (length Q)) 0" by simp
    then show False using slot_inj [of "Suc 0" 0 "slot r (length Q)"] by simp
  qed
  with s' show ?thesis by blast
qed

theorem xmit_dma_error_breaks_ring_witness:
  "\<exists>s'. xmit_reserve None 60 0 nf_start = Some (None, s') \<and> wr_ptr (mem_tx_dsc s') = ptr 1 \<and> (\<nexists>h P X r Q k. tx_ring s' h P X r Q k)"
proof -
  have "nf_inv skb_priv nf_start" by (rule nf_init_inv [OF nf_start_init])
  then obtain r Q k r' R k' where "nf_at skb_priv nf_start r Q k r' R k'" unfolding nf_inv_def by (elim exE)
  note ring = nf_atD(2,4) [OF this]
  then have Q: "Q = []" using nf_start_init by (simp add: nf_init_def)
  have "wr_ptr (mem_tx_dsc nf_start) = ptr (slot r (length Q))" "r < 32" using ring(1) by (auto simp: tx_ring_def)
  then have "ptr r = ptr 0" using Q nf_start_props(2) by (simp add: init_mem_def ptr_def)
  then have "r = 0" using ptr_div(1) [OF \<open>r < 32\<close>] by (simp add: ptr_def)
  with xmit_dma_error_breaks_ring [OF ring(1), of 60 0] Q show ?thesis
    using nf_start_props(3) by (simp add: xmit_cl_size_def init_mem_def slot_def)
qed

text \<open>
  \<open>nf10i_tx\<close> counts the bytes of a packet after it was handed to the card: when the handler completed
  the packet in the meantime, this reads a freed socket buffer.
\<close>

lemma tx_count_use_after_free:
  assumes "drv_at T s k k'" "poll_tx s = Some a" "tx_done a"
  shows "\<exists>s' r. work_tx s = Some s' \<and> rd_ptr (host_tx_dne s) = ptr r \<and> tx_count (tx_bk_skb s ! r) port s' = None"
proof -
  from assms(1) obtain h P X r Q h' P' r' R where d: "nd_ok s" "tx_ring s h P X r Q k" "rx_ring s h' P' r' R k'" "distinct (map fst Q @ R)"
      "fst ` set Q \<subseteq> dom (skbs s)" "\<And>skb. skb \<in> set R \<Longrightarrow> \<exists>b. skbs s skb = Some b \<and> 1533 \<le> T b" by (rule drv_atE) (rule that)
  have "tx_dne s r" using assms(2,3) poll_tx_ok [OF d(2)] by (simp add: tx_dne_def)
  from work_tx_ok [OF d(2) this d(1,5)] obtain q :: "u64 \<times> u64" and s' where q: "work_tx s = Some s'" "tx_bk_skb s ! r = fst q" "skbs s' = (skbs s)(fst q := None)" by blast
  have "tx_count (fst q) port s' = None"
    using q(3) by (auto simp: tx_count_def upd_ndev_def bind_eq_None_conv rd_def)
  moreover have "rd_ptr (host_tx_dne s) = ptr r" using d(2) by (simp add: tx_ring_def)
  ultimately show ?thesis using q by auto
qed

end
