(* ===== verification/Nf10_Probe.thy ===== *)
theory Nf10_Probe
  imports Nf10_Handler
begin

text \<open>
  The NIC driver's device file, \<^verbatim>\<open>nf10fops.c\<close>, and what \<^verbatim>\<open>nf10driver.c\<close> and \<^verbatim>\<open>nf10iface.c\<close> acquire
  and release when the card is found and removed. The answers of the kernel are arguments. The
  resources that the driver holds are a set; the error paths of \<open>nf10_probe\<close> are the labels of the code,
  each one continuing with the next. How the rings are set up is in \<open>init_rings\<close> and \<open>give_dscs\<close>.
\<close>

subsection \<open>The device file\<close>

datatype ioctl_cmd = NF10_IOCTL_CMD_READ_STAT | NF10_IOCTL_CMD_WRITE_REG | NF10_IOCTL_CMD_READ_REG | OTHER_CMD

abbreviation EINVAL :: int where "EINVAL \<equiv> 22"
abbreviation EFAULT :: int where "EFAULT \<equiv> 14"
abbreviation ENODEV :: int where "ENODEV \<equiv> 19"
abbreviation ENOMEM :: int where "ENOMEM \<equiv> 12"

text \<open>
  The state of the device file: the registers of the card and the count of the writes since the buffer
  of the card was last known to be empty. What the card answers to the reads of its status register is
  the list \<open>vals\<close>; \<open>addr\<close> is the variable that is filled from user space.
\<close>

record fops_state =
  fo_cfg :: "nat \<Rightarrow> u64"
  axi_wr_cnt :: int

definition axi_count :: "u64 \<Rightarrow> int option" where
  "axi_count val =
     (if and val 0x1 \<noteq> 0 then Some 1
      else if not (and val 0x2) \<noteq> 0 then Some 49
      else if not (and val 0x4) \<noteq> 0 then Some 64
      else None)"

definition write_reg_cnt :: "u64 \<Rightarrow> u64 \<Rightarrow> int \<Rightarrow> int" where
  "write_reg_cnt val val' n =
     (if n < 64 then n + 1
      else case axi_count val of
             Some n \<Rightarrow> n
           | None \<Rightarrow> (case axi_count val' of Some n \<Rightarrow> n | None \<Rightarrow> 65))"

definition nf10fops_ioctl :: "u64 \<Rightarrow> u64 \<Rightarrow> u64 \<Rightarrow> ioctl_cmd \<Rightarrow> u64 \<Rightarrow> fops_state \<Rightarrow> int \<times> u64 option \<times> fops_state" where
  "nf10fops_ioctl val val' addr cmd arg s =
     (case cmd of
        NF10_IOCTL_CMD_READ_STAT \<Rightarrow>
          if addr \<ge> 4096 div 8 then (- EINVAL, None, s)
          else (0, Some (fo_cfg s (4096 div 8 + unat addr)), s)
      | NF10_IOCTL_CMD_WRITE_REG \<Rightarrow>
          let s = s\<lparr>axi_wr_cnt := write_reg_cnt val val' (axi_wr_cnt s)\<rparr>;
              s = (if axi_wr_cnt s \<le> 64 then s\<lparr>fo_cfg := (fo_cfg s)(128 := arg)\<rparr> else s)
          in if axi_wr_cnt s > 64 then (- EFAULT, None, s) else (0, None, s)
      | NF10_IOCTL_CMD_READ_REG \<Rightarrow>
          let s = s\<lparr>fo_cfg := (fo_cfg s)(129 := push_bit 32 addr)\<rparr>
          in (0, Some val, s\<lparr>axi_wr_cnt := 0\<rparr>)
      | OTHER_CMD \<Rightarrow> (0, None, s))"

subsection \<open>Resources\<close>

datatype resource =
    Pci_enabled | Msi | Region0 | Region2 | Card | Drvdata | Map_cfg | Map_tx_dsc | Map_rx_dsc | Dne_tx | Dne_rx | Workqueue
  | Bk_tx_skb | Bk_tx_dma | Bk_tx_size | Bk_tx_port | Bk_rx_skb | Bk_rx_dma | Bk_rx_size
  | Irq | Netdev nat | Chrdev | Cdev | Dev_class

text \<open>The answers of the kernel: whether each request is granted.\<close>

record probe_env =
  ok_enable :: bool
  ok_dma_mask :: bool
  ok_msi :: bool
  ok_region0 :: bool
  ok_region2 :: bool
  ok_card :: bool
  ok_cfg :: bool
  ok_tx_dsc :: bool
  ok_rx_dsc :: bool
  ok_tx_dne :: bool
  ok_rx_dne :: bool
  ok_wq :: bool
  ok_bk :: "resource \<Rightarrow> bool"
  ok_irq :: bool
  ok_netdev :: "nat \<Rightarrow> bool"
  ok_chrdev :: bool
  ok_cdev :: bool

type_synonym held = "resource set"

definition acquire :: "bool \<Rightarrow> resource \<Rightarrow> held \<Rightarrow> held" where
  "acquire ok r H = (if ok then insert r H else H)"

abbreviation books :: "resource list" where
  "books \<equiv> [Bk_tx_skb, Bk_tx_dma, Bk_tx_size, Bk_tx_port, Bk_rx_skb, Bk_rx_dma, Bk_rx_size]"

text \<open>The network devices are allocated and registered one after the other.\<close>

fun alloc_netdevs :: "probe_env \<Rightarrow> nat list \<Rightarrow> held \<Rightarrow> bool \<times> held" where
  "alloc_netdevs E [] H = (True, H)"
| "alloc_netdevs E (i # is) H = (if ok_netdev E i then alloc_netdevs E is (insert (Netdev i) H) else (False, H))"

definition free_netdevs :: "held \<Rightarrow> held" where
  "free_netdevs H = H - Netdev ` {0, 1, 2, 3}"

definition nf10iface_probe :: "probe_env \<Rightarrow> held \<Rightarrow> int \<times> held" where
  "nf10iface_probe E H =
     (if \<not> ok_irq E then (- ENODEV, H)
      else case alloc_netdevs E [0, 1, 2, 3] (insert Irq H) of
             (True, H) \<Rightarrow> (0, H)
           | (False, H) \<Rightarrow> (- ENOMEM, free_netdevs H))"

definition nf10iface_remove :: "held \<Rightarrow> held" where
  "nf10iface_remove H = free_netdevs H - {Irq}"

text \<open>The error numbers of \<^verbatim>\<open>alloc_chrdev_region\<close> and \<^verbatim>\<open>cdev_add\<close> are negative; one stands for them.\<close>

definition nf10fops_probe :: "probe_env \<Rightarrow> held \<Rightarrow> int \<times> held" where
  "nf10fops_probe E H =
     (if \<not> ok_chrdev E then (- ENOMEM, H)
      else let H = insert Chrdev H
           in if \<not> ok_cdev E then (- ENOMEM, H)
              else (0, insert Dev_class (insert Cdev H)))"

definition nf10fops_remove :: "held \<Rightarrow> held" where
  "nf10fops_remove H = H - {Dev_class, Cdev, Chrdev}"

text \<open>The labels at the end of \<open>nf10_probe\<close>.\<close>

definition err_out_disable_device :: "int \<Rightarrow> held \<Rightarrow> int \<times> held" where
  "err_out_disable_device ret H = (ret, H - {Pci_enabled})"

definition err_out_msi :: "int \<Rightarrow> held \<Rightarrow> int \<times> held" where
  "err_out_msi ret H = err_out_disable_device ret (H - {Msi})"

definition err_out_release_mem_region1 :: "int \<Rightarrow> held \<Rightarrow> int \<times> held" where
  "err_out_release_mem_region1 ret H = err_out_msi ret (H - {Region0})"

definition err_out_release_mem_region2 :: "int \<Rightarrow> held \<Rightarrow> int \<times> held" where
  "err_out_release_mem_region2 ret H = err_out_release_mem_region1 ret (H - {Region2})"

definition err_out_iounmap :: "int \<Rightarrow> held \<Rightarrow> int \<times> held" where
  "err_out_iounmap ret H = err_out_release_mem_region2 ret (H - {Map_tx_dsc, Map_rx_dsc, Map_cfg, Drvdata, Card})"

definition err_out_free_private2 :: "int \<Rightarrow> held \<Rightarrow> int \<times> held" where
  "err_out_free_private2 ret H = err_out_iounmap ret (H - set books - {Dne_tx, Dne_rx})"

definition nf10_probe :: "probe_env \<Rightarrow> held \<Rightarrow> int \<times> held" where
  "nf10_probe E H =
     (if \<not> ok_enable E then (- ENODEV, H)
      else let H = insert Pci_enabled H in if \<not> ok_dma_mask E then err_out_disable_device (- EFAULT) H
      else if \<not> ok_msi E then err_out_disable_device (- EFAULT) H
      else let H = insert Msi H in if \<not> ok_region0 E then err_out_msi (- ENOMEM) H
      else let H = insert Region0 H in if \<not> ok_region2 E then err_out_release_mem_region1 (- ENOMEM) H
      else let H = insert Region2 H in if \<not> ok_card E then err_out_release_mem_region2 (- ENOMEM) H
      else let H = insert Card H in if \<not> ok_cfg E then err_out_iounmap (- ENODEV) H
      else let H = acquire (ok_rx_dsc E) Map_rx_dsc (acquire (ok_tx_dsc E) Map_tx_dsc (insert Map_cfg H))
      in if \<not> ok_tx_dsc E \<or> \<not> ok_rx_dsc E then err_out_iounmap (- ENODEV) H
      else let H = acquire (ok_rx_dne E) Dne_rx (acquire (ok_tx_dne E) Dne_tx H)
      in if \<not> ok_rx_dne E \<or> \<not> ok_tx_dne E then err_out_free_private2 (- ENODEV) H
      else let H = acquire (ok_wq E) Workqueue H;
               H = fold (\<lambda>b. acquire (ok_bk E b) b) books H
      in if \<exists>b\<in>set books. \<not> ok_bk E b then err_out_free_private2 (- ENODEV) H
      else let (ret, H) = nf10iface_probe E (insert Drvdata H)
      in if ret < 0 then err_out_free_private2 ret H
      else let (ret, H) = nf10fops_probe E H
      in if ret < 0 then err_out_free_private2 ret H
      else (ret, H))"

definition nf10_remove :: "held \<Rightarrow> held" where
  "nf10_remove H =
     (let H = (if Drvdata \<in> H
               then nf10iface_remove (nf10fops_remove H) - {Map_cfg, Map_tx_dsc, Map_rx_dsc, Dne_tx, Dne_rx} - set books - {Card}
               else H)
      in H - {Drvdata} - {Region0, Region2} - {Msi} - {Pci_enabled})"

subsection \<open>Properties\<close>

text \<open>
  a write to a register of the card through the device file is never refused. The code means to stop
  when the card reports that its write buffer is full, but it tests \<^verbatim>\<open>~(val & 0x2)\<close>, which is never
  zero: the counter is set to 49 and the register is written, whatever the card reports.
\<close>

theorem write_reg_never_refused:
  "nf10fops_ioctl val val' addr NF10_IOCTL_CMD_WRITE_REG arg s =
     (0, None, s\<lparr>axi_wr_cnt := (if axi_wr_cnt s < 64 then axi_wr_cnt s + 1 else if and val 1 \<noteq> 0 then 1 else 49), fo_cfg := (fo_cfg s)(128 := arg)\<rparr>)"
proof -
  have "not (and val 0x2) \<noteq> 0"
  proof
    assume "not (and val 0x2) = 0"
    then have "bit (not (and val 0x2)) 0 = bit (0 :: u64) 0" by (rule arg_cong)
    then show False by (simp add: bit_simps)
  qed
  then show ?thesis by (auto simp: nf10fops_ioctl_def write_reg_cnt_def axi_count_def Let_def)
qed

text \<open>The requests up to the completion rings are granted; and all but those for the device file.\<close>

definition mapped :: "probe_env \<Rightarrow> bool" where
  "mapped E \<longleftrightarrow> ok_enable E \<and> ok_dma_mask E \<and> ok_msi E \<and> ok_region0 E \<and> ok_region2 E \<and> ok_card E \<and> ok_cfg E \<and> ok_tx_dsc E \<and> ok_rx_dsc E \<and>
     ok_tx_dne E \<and> ok_rx_dne E"

definition running :: "probe_env \<Rightarrow> bool" where
  "running E \<longleftrightarrow> mapped E \<and> (\<forall>b\<in>set books. ok_bk E b) \<and> ok_irq E \<and> (\<forall>i\<in>{0, 1, 2, 3}. ok_netdev E i)"

text \<open>What a failed probe leaves when the device file cannot be made.\<close>

definition leftover :: "probe_env \<Rightarrow> held" where
  "leftover E = {Irq, Netdev 0, Netdev 1, Netdev 2, Netdev 3} \<union> (if ok_wq E then {Workqueue} else {}) \<union> (if ok_chrdev E then {Chrdev} else {})"

lemmas err_defs = err_out_disable_device_def err_out_msi_def err_out_release_mem_region1_def err_out_release_mem_region2_def
  err_out_iounmap_def err_out_free_private2_def

lemma probe_unmapped:
  assumes "\<not> mapped E"
  shows "fst (nf10_probe E {}) < 0 \<and> snd (nf10_probe E {}) = {}"
proof -
  consider "\<not> ok_enable E"
    | "ok_enable E" "\<not> ok_dma_mask E"
    | "ok_enable E" "ok_dma_mask E" "\<not> ok_msi E"
    | "ok_enable E" "ok_dma_mask E" "ok_msi E" "\<not> ok_region0 E"
    | "ok_enable E" "ok_dma_mask E" "ok_msi E" "ok_region0 E" "\<not> ok_region2 E"
    | "ok_enable E" "ok_dma_mask E" "ok_msi E" "ok_region0 E" "ok_region2 E" "\<not> ok_card E"
    | "ok_enable E" "ok_dma_mask E" "ok_msi E" "ok_region0 E" "ok_region2 E" "ok_card E" "\<not> ok_cfg E"
    | "ok_enable E" "ok_dma_mask E" "ok_msi E" "ok_region0 E" "ok_region2 E" "ok_card E" "ok_cfg E" "\<not> (ok_tx_dsc E \<and> ok_rx_dsc E)"
    | "ok_enable E" "ok_dma_mask E" "ok_msi E" "ok_region0 E" "ok_region2 E" "ok_card E" "ok_cfg E" "ok_tx_dsc E" "ok_rx_dsc E" "\<not> (ok_tx_dne E \<and> ok_rx_dne E)"
    using assms unfolding mapped_def by argo
  then show ?thesis by cases (auto simp: nf10_probe_def err_defs acquire_def Let_def split: if_splits)
qed

lemma probe_running:
  assumes "running E"
  shows "nf10_probe E {} = (let (ret, H) = nf10fops_probe E ({Pci_enabled, Msi, Region0, Region2, Card, Map_cfg, Map_tx_dsc, Map_rx_dsc, Dne_tx, Dne_rx,
      Drvdata, Irq, Netdev 0, Netdev 1, Netdev 2, Netdev 3} \<union> set books \<union> (if ok_wq E then {Workqueue} else {}))
      in if ret < 0 then err_out_free_private2 ret H else (ret, H))"
proof -
  have "nf10iface_probe E H = (0, {Irq, Netdev 0, Netdev 1, Netdev 2, Netdev 3} \<union> H)" for H
    using assms by (auto simp: running_def nf10iface_probe_def)
  moreover have "ok_enable E" "ok_dma_mask E" "ok_msi E" "ok_region0 E" "ok_region2 E" "ok_card E" "ok_cfg E" "ok_tx_dsc E" "ok_rx_dsc E"
      "ok_tx_dne E" "ok_rx_dne E" "\<forall>b\<in>set books. ok_bk E b"
    using assms by (simp_all add: running_def mapped_def)
  ultimately show ?thesis
    by (simp add: nf10_probe_def acquire_def insert_commute)
qed


definition all_granted :: probe_env where
  "all_granted = \<lparr>ok_enable = True, ok_dma_mask = True, ok_msi = True, ok_region0 = True, ok_region2 = True, ok_card = True, ok_cfg = True,
     ok_tx_dsc = True, ok_rx_dsc = True, ok_tx_dne = True, ok_rx_dne = True, ok_wq = True, ok_bk = (\<lambda>_. True), ok_irq = True,
     ok_netdev = (\<lambda>_. True), ok_chrdev = True, ok_cdev = True\<rparr>"


end
