(* ===== verification/Netbuf.thy ===== *)
theory Netbuf
  imports Udp_Wire
begin

text \<open>
  The network buffers of \<^verbatim>\<open>lwtcp/api_lib.c\<close> (\<^verbatim>\<open>netbuf_new\<close> to \<^verbatim>\<open>netbuf_fromport\<close>): a chain of pbufs with a
  position in it and the address and port that the data came from. Memory from a pool is not cleared, so
  the fields that the code does not set have the values \<open>junk\<close> that the memory happens to hold.
\<close>

subsection \<open>The code\<close>

record netbuf =
  nb_p :: "u32 option"
  nb_ptr :: "u32 option"
  nb_fromaddr :: "u32 option"
  nb_fromport :: u16
  nb_err :: err_t

record netbuf_world = udp_world +
  netbufs :: "u32 \<rightharpoonup> netbuf"

definition upd_netbuf :: "u32 \<Rightarrow> (netbuf \<Rightarrow> netbuf) \<Rightarrow> 'a netbuf_world_scheme \<Rightarrow> 'a netbuf_world_scheme option" where
  "upd_netbuf a f s = (case netbufs s a of None \<Rightarrow> None | Some b \<Rightarrow> Some (s\<lparr>netbufs := (netbufs s)(a \<mapsto> f b)\<rparr>))"

definition netbuf_new :: "netbuf \<Rightarrow> 'a netbuf_world_scheme \<Rightarrow> (u32 option \<times> 'a netbuf_world_scheme) option" where
  "netbuf_new junk s = do {
     (buf, s) \<leftarrow> memp_mallocp MEMP_NETBUF s;
     case buf of
       Some a \<Rightarrow> Some (Some a, s\<lparr>netbufs := (netbufs s)(a \<mapsto> junk\<lparr>nb_p := None, nb_ptr := None\<rparr>)\<rparr>)
     | None \<Rightarrow> Some (None, s)
   }"

definition free_netbuf :: "u32 \<Rightarrow> 'a netbuf_world_scheme \<Rightarrow> 'a netbuf_world_scheme option" where
  "free_netbuf a s = do {
     s \<leftarrow> memp_freep MEMP_NETBUF (Some a) s;
     Some (s\<lparr>netbufs := (netbufs s)(a := None)\<rparr>)
   }"

definition netbuf_delete :: "u32 \<Rightarrow> u32 option \<Rightarrow> 'a netbuf_world_scheme \<Rightarrow> 'a netbuf_world_scheme option" where
  "netbuf_delete ram_addr buf s =
     (case buf of
        None \<Rightarrow> Some s
      | Some a \<Rightarrow> do {
          b \<leftarrow> netbufs s a;
          s \<leftarrow> (if nb_p b \<noteq> None then do {
                  (n, s) \<leftarrow> pbuf_free ram_addr (nb_p b) s;
                  upd_netbuf a (\<lambda>b. b\<lparr>nb_p := None, nb_ptr := None\<rparr>) s
                }
                else Some s);
          free_netbuf a s
        })"

definition release_data :: "u32 \<Rightarrow> netbuf \<Rightarrow> 'a netbuf_world_scheme \<Rightarrow> 'a netbuf_world_scheme option" where
  "release_data ram_addr b s =
     (if nb_p b \<noteq> None then do {
        (n, s) \<leftarrow> pbuf_free ram_addr (nb_p b) s;
        Some s
      }
      else Some s)"

definition netbuf_alloc :: "u32 \<Rightarrow> u32 \<Rightarrow> u16 \<Rightarrow> 'a netbuf_world_scheme \<Rightarrow> (u32 option \<times> 'a netbuf_world_scheme) option" where
  "netbuf_alloc ram_addr a sz s = do {
     b \<leftarrow> netbufs s a;
     s \<leftarrow> release_data ram_addr b s;
     (p, s) \<leftarrow> pbuf_alloc ram_addr PBUF_TRANSPORT sz PBUF_RAM s;
     s \<leftarrow> upd_netbuf a (\<lambda>b. b\<lparr>nb_p := p\<rparr>) s;
     case p of
       None \<Rightarrow> Some (None, s)
     | Some q \<Rightarrow> do {
         s \<leftarrow> upd_netbuf a (\<lambda>b. b\<lparr>nb_ptr := p\<rparr>) s;
         pb \<leftarrow> pbufs s q;
         Some (Some (pb_payload pb), s)
       }
   }"

definition netbuf_free :: "u32 \<Rightarrow> u32 \<Rightarrow> 'a netbuf_world_scheme \<Rightarrow> 'a netbuf_world_scheme option" where
  "netbuf_free ram_addr a s = do {
     b \<leftarrow> netbufs s a;
     s \<leftarrow> release_data ram_addr b s;
     upd_netbuf a (\<lambda>b. b\<lparr>nb_p := None, nb_ptr := None\<rparr>) s
   }"

definition netbuf_ref :: "u32 \<Rightarrow> u32 \<Rightarrow> u32 \<Rightarrow> u16 \<Rightarrow> 'a netbuf_world_scheme \<Rightarrow> 'a netbuf_world_scheme option" where
  "netbuf_ref ram_addr a dataptr sz s = do {
     b \<leftarrow> netbufs s a;
     s \<leftarrow> release_data ram_addr b s;
     (p, s) \<leftarrow> pbuf_alloc ram_addr PBUF_TRANSPORT 0 PBUF_ROM s;
     s \<leftarrow> upd_netbuf a (\<lambda>b. b\<lparr>nb_p := p\<rparr>) s;
     q \<leftarrow> p;
     s \<leftarrow> upd_pbuf q (\<lambda>pb. pb\<lparr>pb_payload := dataptr, pb_len := sz, pb_tot_len := sz\<rparr>) s;
     upd_netbuf a (\<lambda>b. b\<lparr>nb_ptr := p\<rparr>) s
   }"

definition netbuf_chain :: "u32 \<Rightarrow> u32 \<Rightarrow> 'a netbuf_world_scheme \<Rightarrow> 'a netbuf_world_scheme option" where
  "netbuf_chain head tail s = do {
     h \<leftarrow> netbufs s head;
     t \<leftarrow> netbufs s tail;
     p \<leftarrow> nb_p h;
     q \<leftarrow> nb_p t;
     s \<leftarrow> pbuf_chain p q s;
     s \<leftarrow> upd_netbuf head (\<lambda>h. h\<lparr>nb_ptr := nb_p h\<rparr>) s;
     free_netbuf tail s
   }"

definition netbuf_len :: "u32 \<Rightarrow> 'a netbuf_world_scheme \<Rightarrow> u16 option" where
  "netbuf_len a s = do {
     b \<leftarrow> netbufs s a;
     p \<leftarrow> nb_p b;
     pb \<leftarrow> pbufs s p;
     Some (pb_tot_len pb)
   }"

text \<open>The data pointer and length are only set when there is data.\<close>

definition netbuf_data :: "u32 \<Rightarrow> 'a netbuf_world_scheme \<Rightarrow> (err_t \<times> (u32 \<times> u16) option) option" where
  "netbuf_data a s = do {
     b \<leftarrow> netbufs s a;
     case nb_ptr b of
       None \<Rightarrow> Some (ERR_BUF, None)
     | Some p \<Rightarrow> do {
         pb \<leftarrow> pbufs s p;
         Some (ERR_OK, Some (pb_payload pb, pb_len pb))
       }
   }"

definition netbuf_next :: "u32 \<Rightarrow> 'a netbuf_world_scheme \<Rightarrow> (int \<times> 'a netbuf_world_scheme) option" where
  "netbuf_next a s = do {
     b \<leftarrow> netbufs s a;
     p \<leftarrow> nb_ptr b;
     pb \<leftarrow> pbufs s p;
     case pb_next pb of
       None \<Rightarrow> Some (- 1, s)
     | Some q \<Rightarrow> do {
         s \<leftarrow> upd_netbuf a (\<lambda>b. b\<lparr>nb_ptr := Some q\<rparr>) s;
         qb \<leftarrow> pbufs s q;
         Some (if pb_next qb = None then 1 else 0, s)
       }
   }"

definition netbuf_first :: "u32 \<Rightarrow> 'a netbuf_world_scheme \<Rightarrow> 'a netbuf_world_scheme option" where
  "netbuf_first a s = upd_netbuf a (\<lambda>b. b\<lparr>nb_ptr := nb_p b\<rparr>) s"

text \<open>
  The inner loop of \<open>netbuf_copy_partial\<close> copies the bytes of a pbuf from \<open>i\<close> on; it reports whether the
  function returns from within the loop.
\<close>

function copy_inner :: "u32 \<Rightarrow> u32 \<Rightarrow> u16 \<Rightarrow> u16 \<Rightarrow> u16 \<Rightarrow> u16 \<Rightarrow> bytes \<Rightarrow> bool \<times> u16 \<times> bytes" where
  "copy_inner payload dataptr n len i left m =
     (if i < n then
        let m = m(dataptr + ucast left := m (payload + ucast i)); left = left + 1
        in if left \<ge> len then (True, left, m) else copy_inner payload dataptr n len (i + 1) left m
      else (False, left, m))"
  by pat_completeness auto

termination
proof (relation "measure (\<lambda>(_, _, n, _, i, _, _). unat n - unat i)")
  fix i n :: u16
  assume "i < n"
  then show "((payload, dataptr, n, len, i + 1, l, m'), payload, dataptr, n, len, i, left, m) \<in>
      measure (\<lambda>(_, _, n, _, i, _, _). unat n - unat i)" for payload dataptr :: u32 and len l left :: u16 and m m' :: bytes
    using unat_u16_less [of n] by (simp add: word_less_unat unat_word_ariths)
qed simp

declare copy_inner.simps [simp del]

partial_function (option) copy_outer :: "(u32 \<rightharpoonup> pbuf) \<Rightarrow> u32 \<Rightarrow> u16 \<Rightarrow> u32 option \<Rightarrow> u16 \<Rightarrow> u16 \<Rightarrow> bytes \<Rightarrow> bytes option" where
  "copy_outer pbs dataptr len p offset left m =
     (if left < len then
        case p of
          None \<Rightarrow> Some m
        | Some q \<Rightarrow> do {
            b \<leftarrow> pbs q;
            if offset \<noteq> 0 \<and> offset \<ge> pb_len b then copy_outer pbs dataptr len (pb_next b) (offset - pb_len b) left m
            else
              let (ret, left, m) = copy_inner (pb_payload b) dataptr (pb_len b) len offset left m
              in if ret then Some m else copy_outer pbs dataptr len (pb_next b) offset left m
          }
      else Some m)"

definition netbuf_copy_partial ::
  "u32 option \<Rightarrow> u32 \<Rightarrow> u16 \<Rightarrow> u16 \<Rightarrow> 'a netbuf_world_scheme \<Rightarrow> 'a netbuf_world_scheme option" where
  "netbuf_copy_partial buf dataptr len offset s =
     (case buf of
        None \<Rightarrow> Some s
      | Some a \<Rightarrow> do {
          b \<leftarrow> netbufs s a;
          m \<leftarrow> copy_outer (pbufs s) dataptr len (nb_p b) offset 0 (mem8 s);
          Some (s\<lparr>mem8 := m\<rparr>)
        })"

definition netbuf_copy :: "u32 option \<Rightarrow> u32 \<Rightarrow> u16 \<Rightarrow> 'a netbuf_world_scheme \<Rightarrow> 'a netbuf_world_scheme option" where
  "netbuf_copy buf dataptr len s = netbuf_copy_partial buf dataptr len 0 s"

definition netbuf_fromaddr :: "u32 \<Rightarrow> 'a netbuf_world_scheme \<Rightarrow> u32 option option" where
  "netbuf_fromaddr a s = map_option nb_fromaddr (netbufs s a)"

definition netbuf_fromport :: "u32 \<Rightarrow> 'a netbuf_world_scheme \<Rightarrow> u16 option" where
  "netbuf_fromport a s = map_option nb_fromport (netbufs s a)"

subsection \<open>What is copied\<close>

text \<open>
  The bytes that the loops copy, for a chain of pbufs with the contents \<open>bss\<close>: the code never resets the
  offset, so that after the pbuf in which the copy starts it skips the same number of bytes again.
\<close>

fun skipped :: "nat \<Rightarrow> u8 list list \<Rightarrow> u8 list" where
  "skipped off [] = []"
| "skipped off (bs # bss) = (if off \<noteq> 0 \<and> length bs \<le> off then skipped (off - length bs) bss else drop off bs @ skipped off bss)"

lemma skipped_0: "skipped 0 bss = concat bss"
  by (induction bss) simp_all

lemma skipped_single: "skipped off [bs] = drop off bs"
  by simp

lemma st_bytes_Nil [simp]: "st_bytes a [] m = m"
  by (simp add: st_bytes_def)

lemma st_bytes_Cons: "length bs < 2 ^ 32 - 1 \<Longrightarrow> st_bytes a (b # bs) m = st_bytes (a + 1) bs (m(a := b))"
proof (rule ext)
  fix x
  assume len: "length bs < 2 ^ 32 - 1"
  show "st_bytes a (b # bs) m x = st_bytes (a + 1) bs (m(a := b)) x"
  proof (cases "x = a")
    case True
    have "unat (- 1 :: u32) = 4294967295" by (simp add: unsigned_minus_1_eq_mask mask_eq_exp_minus_1)
    with True len show ?thesis by (simp add: st_bytes_def)
  next
    case False
    then have "x - a \<noteq> 0" by simp
    then have "unat (x - a) = Suc (unat (x - a - 1))"
      using unat_minus_one [of "x - a"] unat_gt_0 [of "x - a"] by simp
    moreover have "x - a - 1 = x - (a + 1)" by simp
    ultimately have "unat (x - a) = Suc (unat (x - (a + 1)))" by (simp only:)
    with False show ?thesis by (simp add: st_bytes_def)
  qed
qed

lemma st_bytes_append:
  assumes "length xs + length ys < 2 ^ 32 - 1"
  shows "st_bytes (a + of_nat (length xs)) ys (st_bytes a xs m) = st_bytes a (xs @ ys) m"
  using assms
proof (induction xs arbitrary: a m)
  case (Cons x xs)
  then show ?case by (simp add: st_bytes_Cons add.assoc [symmetric])
qed simp

lemma ld_bytes_st_apart:
  assumes "apart a n b k" "i + length bs \<le> n"
  shows "ld_bytes k b (st_bytes (a + of_nat i) bs m) = ld_bytes k b m"
proof (rule ld_bytes_cong)
  fix j assume j: "j < k"
  let ?d = "unat (b + of_nat j - (a + of_nat i))"
  have "\<not> ?d < length bs"
  proof
    assume l: "?d < length bs"
    have "a + of_nat (i + ?d) = b + of_nat j" by simp
    with apart_neq [OF assms(1), of "i + ?d" j] l j assms(2) show False by simp
  qed
  then show "st_bytes (a + of_nat i) bs m (b + of_nat j) = m (b + of_nat j)" by (simp add: st_bytes_def)
qed

lemma pbuf_bytes_st_apart:
  "pbuf_apart a n pbs q \<Longrightarrow> i + length bs \<le> n \<Longrightarrow> pbuf_bytes pbs (st_bytes (a + of_nat i) bs m) q = pbuf_bytes pbs m q"
  by (auto simp: pbuf_bytes_def pbuf_apart_def ld_bytes_st_apart split: option.split)

lemma st_one_apart:
  assumes "apart a n b k" "i < n"
  shows "ld_bytes k b (m(a + of_nat i := v)) = ld_bytes k b m"
  using apart_neq [OF assms(1,2)] by (intro ld_bytes_cong) (metis fun_upd_other)

lemma copy_inner_eq:
  assumes "left < len" "apart dst (unat len) payload (unat n)"
  shows "copy_inner payload dst n len i left m =
    (let xs = take (unat len - unat left) (drop (unat i) (ld_bytes (unat n) payload m))
     in (unat len \<le> unat left + (unat n - unat i), left + of_nat (length xs), st_bytes (dst + ucast left) xs m))"
  using assms
proof (induction payload dst n len i left m rule: copy_inner.induct)
  case (1 payload dst n len i left m)
  show ?case
  proof (cases "i < n")
    case False
    with "1.prems"(1) show ?thesis by (subst copy_inner.simps) (simp add: word_less_unat)
  next
    case True
    let ?m = "m(dst + ucast left := m (payload + ucast i))"
    have i: "unat (i + 1) = Suc (unat i)" "unat (left + 1) = Suc (unat left)" "unat i < unat n" "unat left < unat len"
      using True "1.prems"(1) unat_u16_less [of n] unat_u16_less [of len] by (simp_all add: word_less_unat unat_word_ariths)
    have u: "(ucast w :: u32) = of_nat (unat w)" for w :: u16 by (simp add: word_unat_eq_iff unat_of_nat)
    have same: "ld_bytes (unat n) payload ?m = ld_bytes (unat n) payload m"
      using st_one_apart [OF "1.prems"(2) i(4)] by (simp only: u)
    have d: "drop (unat i) (ld_bytes (unat n) payload m) = m (payload + ucast i) # drop (Suc (unat i)) (ld_bytes (unat n) payload m)"
      using i(3) by (subst Cons_nth_drop_Suc [symmetric]) simp_all
    show ?thesis
    proof (cases "left + 1 \<ge> len")
      case True
      then have "unat len - unat left = 1" using i by (simp add: word_le_unat)
      with True \<open>i < n\<close> i show ?thesis
        by (subst copy_inner.simps) (simp add: d Let_def st_bytes_Cons take_Cons')
    next
      case False
      then have lt: "left + 1 < len" by simp
      let ?xs = "take (unat len - Suc (unat left)) (drop (Suc (unat i)) (ld_bytes (unat n) payload m))"
      have k: "unat len - unat left = Suc (unat len - Suc (unat left))" using i by simp
      have step: "copy_inner payload dst n len i left m = copy_inner payload dst n len (i + 1) (left + 1) ?m"
        using False \<open>i < n\<close> by (subst copy_inner.simps) simp
      have rec: "copy_inner payload dst n len (i + 1) (left + 1) ?m =
          (unat len \<le> Suc (unat left) + (unat n - Suc (unat i)), left + 1 + of_nat (length ?xs), st_bytes (dst + ucast (left + 1)) ?xs ?m)"
        using "1.IH" [OF \<open>i < n\<close> refl refl _ lt "1.prems"(2)] False by (simp only: Let_def i same not_False_eq_True)
      have "dst + ucast (left + 1) = dst + ucast left + 1" unfolding u i(2) by simp
      moreover have "length ?xs < 2 ^ 32 - 1" using unat_u16_less [of n] by simp
      ultimately have st: "st_bytes (dst + ucast left) (m (payload + ucast i) # ?xs) m = st_bytes (dst + ucast (left + 1)) ?xs ?m"
        by (simp only: st_bytes_Cons)
      have "left + 1 + of_nat (length ?xs) = left + of_nat (length (m (payload + ucast i) # ?xs))" by (simp only: length_Cons of_nat_Suc add.assoc)
      moreover have "unat len \<le> Suc (unat left) + (unat n - Suc (unat i)) \<longleftrightarrow> unat len \<le> unat left + (unat n - unat i)" using i by linarith
      ultimately show ?thesis unfolding step rec Let_def d k take_Suc_Cons st by simp
    qed
  qed
qed

lemma copy_outer_eq:
  assumes "chain (pb_nx pbs) h ps" "\<forall>q\<in>set ps. pbuf_apart dst (unat len) pbs q"
  shows "copy_outer pbs dst len h off left m =
    Some (st_bytes (dst + ucast left) (take (unat len - unat left) (skipped (unat off) (map (pbuf_bytes pbs m) ps))) m)"
  using assms
proof (induction ps arbitrary: h off left m)
  case Nil
  then show ?case by (subst copy_outer.simps) simp
next
  case (Cons q ps)
  then obtain b where b: "h = Some q" "pbs q = Some b" "chain (pb_nx pbs) (pb_next b) ps"
    by (auto simp: pb_nx_def split: option.splits)
  let ?bs = "ld_bytes (unat (pb_len b)) (pb_payload b) m"
  have bytes: "pbuf_bytes pbs m q = ?bs" using b(2) by (simp add: pbuf_bytes_def)
  have IH: "copy_outer pbs dst len (pb_next b) off left m =
    Some (st_bytes (dst + ucast left) (take (unat len - unat left) (skipped (unat off) (map (pbuf_bytes pbs m) ps))) m)" for off left m
    using Cons.IH [OF b(3)] Cons.prems(2) by simp
  show ?case
  proof (cases "left < len")
    case False
    then have "unat len - unat left = 0" by (simp add: word_less_unat)
    with False show ?thesis by (subst copy_outer.simps) simp
  next
    case lt: True
    show ?thesis
    proof (cases "off \<noteq> 0 \<and> pb_len b \<le> off")
      case True
      then have "unat (off - pb_len b) = unat off - unat (pb_len b)" by (simp add: unat_sub_le word_le_unat)
      moreover have "unat off \<noteq> 0 \<and> length ?bs \<le> unat off" using True by (simp add: word_le_unat unat_eq_zero)
      ultimately show ?thesis using True lt b IH bytes by (subst copy_outer.simps) simp
    next
      case False
      let ?K = "unat len - unat left"
      let ?xs = "take ?K (drop (unat off) ?bs)"
      have nf: "\<not> (unat off \<noteq> 0 \<and> length ?bs \<le> unat off)" using False by (auto simp: word_le_unat unat_eq_zero)
      have inner: "copy_inner (pb_payload b) dst (pb_len b) len off left m =
          (unat len \<le> unat left + (unat (pb_len b) - unat off), left + of_nat (length ?xs), st_bytes (dst + ucast left) ?xs m)"
        using copy_inner_eq [OF lt, of dst "pb_payload b" "pb_len b" off m] Cons.prems(2) b(2) by (simp add: pbuf_apart_def Let_def)
      show ?thesis
      proof (cases "unat len \<le> unat left + (unat (pb_len b) - unat off)")
        case True
        have "take ?K (skipped (unat off) (map (pbuf_bytes pbs m) (q # ps))) = ?xs" using True nf bytes by auto
        moreover have "copy_outer pbs dst len h off left m = Some (st_bytes (dst + ucast left) ?xs m)"
          using True False lt b inner by (subst copy_outer.simps) auto
        ultimately show ?thesis by (simp only:)
      next
        case short: False
        then have xs: "?xs = drop (unat off) ?bs" by simp
        let ?m = "st_bytes (dst + ucast left) ?xs m"
        have keep: "map (pbuf_bytes pbs ?m) ps = map (pbuf_bytes pbs m) ps"
          using Cons.prems(2) short xs pbuf_bytes_st_apart [of dst "unat len" pbs _ "unat left" ?xs m] by auto
        have left: "unat (left + of_nat (length ?xs)) = unat left + length ?xs"
          using short xs unat_u16_less [of len] by (simp add: unat_word_ariths unat_of_nat)
        let ?ys = "take (unat len - unat (left + of_nat (length ?xs))) (skipped (unat off) (map (pbuf_bytes pbs m) ps))"
        have u: "(ucast w :: u32) = of_nat (unat w)" for w :: u16 by (simp add: word_unat_eq_iff unat_of_nat)
        have "dst + ucast (left + of_nat (length ?xs)) = dst + ucast left + of_nat (length ?xs)"
          unfolding u left by simp
        moreover have "length ?xs + length ?ys < 2 ^ 32 - 1"
          using unat_u16_less [of len] unat_u16_less [of "pb_len b"] by (simp add: xs)
        ultimately have "st_bytes (dst + ucast (left + of_nat (length ?xs))) ?ys ?m = st_bytes (dst + ucast left) (?xs @ ?ys) m"
          by (simp only: st_bytes_append)
        moreover have "?xs @ ?ys = take ?K (skipped (unat off) (map (pbuf_bytes pbs m) (q # ps)))"
          using nf bytes left xs by (auto simp: take_append)
        moreover have "copy_outer pbs dst len h off left m = copy_outer pbs dst len (pb_next b) off (left + of_nat (length ?xs)) ?m"
          using False lt b inner short by (subst copy_outer.simps) auto
        ultimately show ?thesis using IH [of off "left + of_nat (length ?xs)" ?m] keep by simp
      qed
    qed
  qed
qed

text \<open>
  \<open>netbuf_copy_partial\<close> returns on every chain of pbufs, and the only memory it changes is the destination, which then holds the first
  \<open>len\<close> of the bytes \<open>skipped off\<close>: with the offset 0 (\<open>netbuf_copy\<close>), or when the data is in one pbuf, these are the bytes of the data from
  the offset on, and with several pbufs the bytes at the start of each later pbuf are lost again.
\<close>

theorem netbuf_copy_skips:
  assumes "netbufs s a = Some b" "chain (pb_nx (pbufs s)) (nb_p b) ps" "\<forall>q\<in>set ps. pbuf_apart dst (unat len) (pbufs s) q"
  defines "data \<equiv> map (pbuf_bytes (pbufs s) (mem8 s)) ps"
  shows "netbuf_copy_partial (Some a) dst len off s = Some (s\<lparr>mem8 := st_bytes dst (take (unat len) (skipped (unat off) data)) (mem8 s)\<rparr>) \<and>
    (ps = [q] \<longrightarrow> skipped (unat off) data = drop (unat off) (concat data)) \<and>
    netbuf_copy (Some a) dst len s = Some (s\<lparr>mem8 := st_bytes dst (take (unat len) (concat data)) (mem8 s)\<rparr>)"
  using assms copy_outer_eq [OF assms(2,3), of off 0 "mem8 s"] copy_outer_eq [OF assms(2,3), of 0 0 "mem8 s"]
  by (simp add: netbuf_copy_partial_def netbuf_copy_def skipped_0)

text \<open>A netbuf at 8 on two pbufs of two bytes each.\<close>

definition netbuf_example :: netbuf_world where
  "netbuf_example = udp_world.extend (udp_start\<lparr>
     pbufs := [100 \<mapsto> \<lparr>pb_next = Some 200, pb_flags = PBUF_FLAG_RAM, pb_ref = 1, pb_payload = 1000, pb_tot_len = 4, pb_len = 2\<rparr>,
               200 \<mapsto> \<lparr>pb_next = None, pb_flags = PBUF_FLAG_RAM, pb_ref = 1, pb_payload = 2000, pb_tot_len = 2, pb_len = 2\<rparr>],
     mem8 := (\<lambda>x. 0)(1000 := 1, 1001 := 2, 2000 := 3, 2001 := 4)\<rparr>)
     (netbuf_world.fields [8 \<mapsto> \<lparr>nb_p = Some 100, nb_ptr = Some 100, nb_fromaddr = None, nb_fromport = 0, nb_err = 0\<rparr>])"

theorem netbuf_copy_skips_witness:
  "\<exists>s. netbuf_copy_partial (Some 8) 4000 2 1 netbuf_example = Some s \<and> mem8 s 4000 = 2 \<and> mem8 s 4001 = 4"
proof -
  have "chain (pb_nx (pbufs netbuf_example)) (Some 100) [100, 200]"
    by (simp add: pb_nx_def netbuf_example_def udp_world.defs netbuf_world.defs)
  moreover have "\<forall>q\<in>set [100, 200]. pbuf_apart 4000 (unat (2 :: u16)) (pbufs netbuf_example) q"
    by (simp add: pbuf_apart_def apart_def netbuf_example_def udp_world.defs netbuf_world.defs)
  moreover have "map (pbuf_bytes (pbufs netbuf_example) (mem8 netbuf_example)) [100, 200] = [[1, 2], [3, 4]]"
    by (simp add: pbuf_bytes_def ld_bytes_def netbuf_example_def udp_world.defs netbuf_world.defs upt_rec)
  moreover have "netbufs netbuf_example 8 = Some \<lparr>nb_p = Some 100, nb_ptr = Some 100, nb_fromaddr = None, nb_fromport = 0, nb_err = 0\<rparr>"
    by (simp add: netbuf_example_def netbuf_world.defs udp_world.defs)
  ultimately show ?thesis
    using netbuf_copy_skips [of netbuf_example 8 _ "[100, 200]" 4000 2 1 0] by (simp add: st_bytes_def)
qed

end
