(* ===== verification/Api_Msg.thy ===== *)
theory Api_Msg
  imports Netbuf Sys_Timeouts
begin

text \<open>
  The side of the transport thread in the sequential API (\<^verbatim>\<open>lwtcp/api_msg.c\<close>): the functions that TCP and UDP
  call for a connection, and the handlers of the requests that the application posts. Connections,
  mailboxes, semaphores and messages live in a store; an access at an address at which there is none is
  the fault \<open>None\<close>. A handler answers a request by a post to the mailbox of the connection.
\<close>

subsection \<open>The store\<close>

datatype netconn_type = NETCONN_TCP | NETCONN_UDP | NETCONN_UDPLITE | NETCONN_UDPNOCHKSUM

datatype netconn_state = NETCONN_NONE | NETCONN_WRITE | NETCONN_ACCEPT | NETCONN_RECV | NETCONN_CONNECT | NETCONN_CLOSE

text \<open>The pointer \<open>nc_pcb\<close> is the union of a TCP and a UDP control block; the type says which it is.\<close>

record netconn =
  nc_type :: netconn_type
  nc_state :: netconn_state
  nc_pcb :: "u32 option"
  nc_err :: err_t
  nc_mbox :: "u32 option"
  nc_recvmbox :: "u32 option"
  nc_acceptmbox :: "u32 option"
  nc_sem :: "u32 option"

datatype api_msg_type =
    API_MSG_NEWCONN | API_MSG_DELCONN | API_MSG_BIND | API_MSG_CONNECT | API_MSG_LISTEN
  | API_MSG_ACCEPT | API_MSG_SEND | API_MSG_RECV | API_MSG_WRITE | API_MSG_CLOSE

text \<open>A pointer to an IP address points into memory or to a member of a control block.\<close>

datatype ip_ptr = IP_MEM u32 | UDP_REMOTE_IP u32 | UDP_LOCAL_IP u32 | TCP_REMOTE_IP u32 | TCP_LOCAL_IP u32

text \<open>The union of the arguments; a member can only be read after it has been written.\<close>

datatype api_args =
    ARG_P "u32 option"
  | ARG_BC "ip_ptr option" u16
  | ARG_W u32 u16 u8
  | ARG_LEN u16
  | ARG_NONE

record api_msg_msg =
  am_conn :: u32
  am_msg :: api_args

record api_msg =
  am_type :: api_msg_type
  am_body :: api_msg_msg

datatype transport_msg = TCP_MSG_API u32 | TCP_MSG_INPUT u32 u32

text \<open>
  The mailboxes hold pointers. The addresses that \<^verbatim>\<open>malloc\<close> is going to return are in \<open>fresh\<close>, each with
  what the memory holds; when there are none left \<^verbatim>\<open>malloc\<close> returns NULL, which the code does not test.
  The timeouts are those of the transport thread; it never has more than one, at the address \<open>timeout_mem\<close>.
\<close>

record api_world = netbuf_world +
  netconns :: "u32 \<rightharpoonup> netconn"
  mboxes :: "u32 \<rightharpoonup> (u32 option) sys_mbox"
  sems :: "u32 \<rightharpoonup> sys_sem"
  api_msgs :: "u32 \<rightharpoonup> api_msg"
  transport_msgs :: "u32 \<rightharpoonup> transport_msg"
  transport_mbox :: "u32 option"
  timeouts :: "sys_timeout_t list"
  timeout_mem :: u32
  sys_counts :: sys_stats
  fresh :: "(u32 \<times> u32 option list) list"

definition upd_conn :: "u32 \<Rightarrow> (netconn \<Rightarrow> netconn) \<Rightarrow> 'a api_world_scheme \<Rightarrow> 'a api_world_scheme option" where
  "upd_conn a f s = (case netconns s a of None \<Rightarrow> None | Some c \<Rightarrow> Some (s\<lparr>netconns := (netconns s)(a \<mapsto> f c)\<rparr>))"

definition new_mbox :: "'a api_world_scheme \<Rightarrow> (u32 option \<times> 'a api_world_scheme) option" where
  "new_mbox s =
     (case fresh s of
        [] \<Rightarrow> None
      | (a, junk) # as \<Rightarrow>
          let (m, st) = sys_mbox_new junk (sys_counts s)
          in Some (Some a, s\<lparr>mboxes := (mboxes s)(a \<mapsto> m), sys_counts := st, fresh := as\<rparr>))"

definition new_sem :: "u8 \<Rightarrow> 'a api_world_scheme \<Rightarrow> (u32 option \<times> 'a api_world_scheme) option" where
  "new_sem n s =
     (case fresh s of
        [] \<Rightarrow> None
      | (a, junk) # as \<Rightarrow>
          let (m, st) = sys_sem_new n (sys_counts s)
          in Some (Some a, s\<lparr>sems := (sems s)(a \<mapsto> m), sys_counts := st, fresh := as\<rparr>))"

definition post_mbox :: "u32 option \<Rightarrow> u32 option \<Rightarrow> 'a api_world_scheme \<Rightarrow> 'a api_world_scheme option" where
  "post_mbox mbox msg s = do {
     a \<leftarrow> mbox;
     m \<leftarrow> mboxes s a;
     m \<leftarrow> sys_mbox_post msg m;
     Some (s\<lparr>mboxes := (mboxes s)(a \<mapsto> m)\<rparr>)
   }"

definition free_mbox :: "u32 option \<Rightarrow> 'a api_world_scheme \<Rightarrow> 'a api_world_scheme option" where
  "free_mbox mbox s =
     (case mbox of
        None \<Rightarrow> Some s
      | Some a \<Rightarrow> do {
          m \<leftarrow> mboxes s a;
          st \<leftarrow> sys_mbox_free (Some m) (sys_counts s);
          Some (s\<lparr>mboxes := (mboxes s)(a := None), sys_counts := st\<rparr>)
        })"

definition signal_sem :: "u32 option \<Rightarrow> 'a api_world_scheme \<Rightarrow> 'a api_world_scheme option" where
  "signal_sem sem s = do {
     a \<leftarrow> sem;
     m \<leftarrow> sems s a;
     Some (s\<lparr>sems := (sems s)(a \<mapsto> sys_sem_signal m)\<rparr>)
   }"

definition free_sem :: "u32 option \<Rightarrow> 'a api_world_scheme \<Rightarrow> 'a api_world_scheme option" where
  "free_sem sem s = do {
     a \<leftarrow> sem;
     m \<leftarrow> sems s a;
     Some (s\<lparr>sems := (sems s)(a := None), sys_counts := sys_sem_free (Some m) (sys_counts s)\<rparr>)
   }"

subsection \<open>The functions that TCP and UDP call\<close>

text \<open>The function pointers that the handlers install. The argument of a call is an address, 0 for NULL.\<close>

abbreviation FN_RECV_TCP :: nat where "FN_RECV_TCP \<equiv> 1"
abbreviation FN_POLL_TCP :: nat where "FN_POLL_TCP \<equiv> 2"
abbreviation FN_SENT_TCP :: nat where "FN_SENT_TCP \<equiv> 3"
abbreviation FN_ERR_TCP :: nat where "FN_ERR_TCP \<equiv> 4"
abbreviation FN_ACCEPT :: nat where "FN_ACCEPT \<equiv> 5"
abbreviation FN_CONNECTED :: nat where "FN_CONNECTED \<equiv> 6"
abbreviation FN_RECV_UDP :: nat where "FN_RECV_UDP \<equiv> 7"

definition recv_tcp :: "u32 \<Rightarrow> u32 \<Rightarrow> u32 option \<Rightarrow> err_t \<Rightarrow> 'a api_world_scheme \<Rightarrow> (err_t \<times> 'a api_world_scheme) option" where
  "recv_tcp ram_addr cn p err s =
     (if cn = 0 then do {
        (n, s) \<leftarrow> pbuf_free ram_addr p s;
        Some (ERR_VAL, s)
      }
      else do {
        c \<leftarrow> netconns s cn;
        s \<leftarrow> (if nc_recvmbox c \<noteq> None then do {
                s \<leftarrow> upd_conn cn (\<lambda>c. c\<lparr>nc_err := err\<rparr>) s;
                post_mbox (nc_recvmbox c) p s
              }
              else Some s);
        Some (ERR_OK, s)
      })"

definition recv_udp ::
  "u32 \<Rightarrow> ('a api_world_scheme \<Rightarrow> netbuf) \<Rightarrow> u32 \<Rightarrow> u32 \<Rightarrow> u32 \<Rightarrow> u16 \<Rightarrow> 'a api_world_scheme \<Rightarrow> 'a api_world_scheme option" where
  "recv_udp ram_addr junk cn p addr port s =
     (if cn = 0 then do {
        (n, s) \<leftarrow> pbuf_free ram_addr (Some p) s;
        Some s
      }
      else do {
        c \<leftarrow> netconns s cn;
        if nc_recvmbox c \<noteq> None then do {
          (buf, s) \<leftarrow> memp_mallocp MEMP_NETBUF s;
          case buf of
            None \<Rightarrow> do {
              (n, s) \<leftarrow> pbuf_free ram_addr (Some p) s;
              Some s
            }
          | Some b \<Rightarrow>
              let s = s\<lparr>netbufs := (netbufs s)(b \<mapsto>
                        (junk s)\<lparr>nb_p := Some p, nb_ptr := Some p, nb_fromaddr := Some addr, nb_fromport := port\<rparr>)\<rparr>
              in post_mbox (nc_recvmbox c) buf s
        }
        else Some s
      })"

definition poll_tcp :: "u32 \<Rightarrow> 'a api_world_scheme \<Rightarrow> (err_t \<times> 'a api_world_scheme) option" where
  "poll_tcp cn s =
     (if cn \<noteq> 0 then do {
        c \<leftarrow> netconns s cn;
        s \<leftarrow> (if (nc_state c = NETCONN_WRITE \<or> nc_state c = NETCONN_CLOSE) \<and> nc_sem c \<noteq> None then signal_sem (nc_sem c) s
              else Some s);
        Some (ERR_OK, s)
      }
      else Some (ERR_OK, s))"

definition sent_tcp :: "u32 \<Rightarrow> 'a api_world_scheme \<Rightarrow> (err_t \<times> 'a api_world_scheme) option" where
  "sent_tcp cn s =
     (if cn \<noteq> 0 then do {
        c \<leftarrow> netconns s cn;
        s \<leftarrow> (if nc_sem c \<noteq> None then signal_sem (nc_sem c) s else Some s);
        Some (ERR_OK, s)
      }
      else Some (ERR_OK, s))"

definition post_if :: "u32 option \<Rightarrow> 'a api_world_scheme \<Rightarrow> 'a api_world_scheme option" where
  "post_if mbox s = (if mbox \<noteq> None then post_mbox mbox None s else Some s)"

definition err_tcp :: "u32 \<Rightarrow> err_t \<Rightarrow> 'a api_world_scheme \<Rightarrow> 'a api_world_scheme option" where
  "err_tcp cn err s = do {
     s \<leftarrow> upd_conn cn (\<lambda>c. c\<lparr>nc_pcb := None\<rparr>) s;
     s \<leftarrow> upd_conn cn (\<lambda>c. c\<lparr>nc_err := err\<rparr>) s;
     c \<leftarrow> netconns s cn;
     s \<leftarrow> post_if (nc_recvmbox c) s;
     s \<leftarrow> post_if (nc_mbox c) s;
     s \<leftarrow> post_if (nc_acceptmbox c) s;
     if nc_sem c \<noteq> None then signal_sem (nc_sem c) s else Some s
   }"

definition setup_tcp :: "u32 \<Rightarrow> 'a api_world_scheme \<Rightarrow> 'a api_world_scheme option" where
  "setup_tcp cn s = do {
     c \<leftarrow> netconns s cn;
     pcb \<leftarrow> nc_pcb c;
     s \<leftarrow> tcp_arg pcb cn s;
     s \<leftarrow> tcp_recv pcb (Some FN_RECV_TCP) s;
     s \<leftarrow> tcp_sent pcb (Some FN_SENT_TCP) s;
     s \<leftarrow> tcp_poll pcb (Some FN_POLL_TCP) 4 s;
     tcp_err pcb (Some FN_ERR_TCP) s
   }"

text \<open>
  The argument of \<open>accept_function\<close> is the address of the member \<^verbatim>\<open>acceptmbox\<close> of the listening connection,
  24 bytes into it.
\<close>

abbreviation ACCEPTMBOX :: u32 where "ACCEPTMBOX \<equiv> 24"

definition release_conn :: "u32 \<Rightarrow> 'a api_world_scheme \<Rightarrow> 'a api_world_scheme" where
  "release_conn a s = (let s = memp_free MEMP_NETCONN (Some a) s in s\<lparr>netconns := (netconns s)(a := None)\<rparr>)"

definition accept_function ::
  "('a api_world_scheme \<Rightarrow> netconn) \<Rightarrow> u32 \<Rightarrow> u32 \<Rightarrow> err_t \<Rightarrow> 'a api_world_scheme \<Rightarrow> (err_t \<times> 'a api_world_scheme) option" where
  "accept_function junk arg newpcb err s = do {
     (newconn, s) \<leftarrow> memp_mallocp MEMP_NETCONN s;
     case newconn of
       None \<Rightarrow> Some (ERR_MEM, s)
     | Some n \<Rightarrow> do {
         let s = s\<lparr>netconns := (netconns s)(n \<mapsto> (junk s)\<lparr>nc_type := NETCONN_TCP, nc_pcb := Some newpcb\<rparr>)\<rparr>;
         s \<leftarrow> setup_tcp n s;
         (recvmbox, s) \<leftarrow> new_mbox s;
         s \<leftarrow> upd_conn n (\<lambda>c. c\<lparr>nc_recvmbox := recvmbox\<rparr>) s;
         if recvmbox = None then Some (ERR_MEM, release_conn n s)
         else do {
           (mbox, s) \<leftarrow> new_mbox s;
           s \<leftarrow> upd_conn n (\<lambda>c. c\<lparr>nc_mbox := mbox\<rparr>) s;
           if mbox = None then do {
             s \<leftarrow> free_mbox recvmbox s;
             Some (ERR_MEM, release_conn n s)
           }
           else do {
             (sem, s) \<leftarrow> new_sem 0 s;
             s \<leftarrow> upd_conn n (\<lambda>c. c\<lparr>nc_sem := sem\<rparr>) s;
             if sem = None then do {
               s \<leftarrow> free_mbox recvmbox s;
               s \<leftarrow> free_mbox mbox s;
               Some (ERR_MEM, release_conn n s)
             }
             else do {
               s \<leftarrow> upd_conn n (\<lambda>c. c\<lparr>nc_acceptmbox := None, nc_err := err\<rparr>) s;
               l \<leftarrow> netconns s (arg - ACCEPTMBOX);
               s \<leftarrow> post_mbox (nc_acceptmbox l) newconn s;
               Some (ERR_OK, s)
             }
           }
         }
       }
   }"

definition do_connected :: "u32 \<Rightarrow> err_t \<Rightarrow> 'a api_world_scheme \<Rightarrow> (err_t \<times> 'a api_world_scheme) option" where
  "do_connected cn err s =
     (if cn = 0 then Some (ERR_VAL, s)
      else do {
        s \<leftarrow> upd_conn cn (\<lambda>c. c\<lparr>nc_err := err\<rparr>) s;
        c \<leftarrow> netconns s cn;
        s \<leftarrow> (if nc_type c = NETCONN_TCP \<and> err = ERR_OK then setup_tcp cn s else Some s);
        s \<leftarrow> post_mbox (nc_mbox c) None s;
        Some (ERR_OK, s)
      })"

text \<open>The environments of TCP and UDP: what a call through a function pointer does.\<close>

record 's api_env =
  ae_ram :: u32
  ae_conn :: "'s \<Rightarrow> netconn"
  ae_buf :: "'s \<Rightarrow> netbuf"

fun api_call :: "('a api_world_scheme) api_env \<Rightarrow> nat \<Rightarrow> tcp_call \<Rightarrow> 'a api_world_scheme \<Rightarrow> (err_t \<times> 'a api_world_scheme) option" where
  "api_call A f (CALL_RECV arg pcb p err) s = (if f = FN_RECV_TCP then recv_tcp (ae_ram A) arg p err s else None)"
| "api_call A f (CALL_POLL arg pcb) s = (if f = FN_POLL_TCP then poll_tcp arg s else None)"
| "api_call A f (CALL_SENT arg pcb len) s = (if f = FN_SENT_TCP then sent_tcp arg s else None)"
| "api_call A f (CALL_ERRF arg err) s =
     (if f = FN_ERR_TCP then map_option (\<lambda>s. (ERR_OK, s)) (err_tcp arg err s) else None)"
| "api_call A f (CALL_ACCEPT arg pcb err) s = (if f = FN_ACCEPT then accept_function (ae_conn A) arg pcb err s else None)"
| "api_call A f (CALL_CONNECTED arg pcb err) s = (if f = FN_CONNECTED then do_connected arg err s else None)"

definition tcp_of :: "('a api_world_scheme) api_env \<Rightarrow> ('a api_world_scheme) tcp_env" where
  "tcp_of A = \<lparr>te_ram = ae_ram A, te_call = api_call A\<rparr>"

definition udp_of :: "('a api_world_scheme) api_env \<Rightarrow> ('a api_world_scheme) udp_env" where
  "udp_of A = \<lparr>ue_ram = ae_ram A,
     ue_recv = \<lambda>f arg pcb p addr port s. if f = FN_RECV_UDP then recv_udp (ae_ram A) (ae_buf A) arg p addr port s else None\<rparr>"

subsection \<open>The handlers of the requests\<close>

definition do_newconn :: "api_msg_msg \<Rightarrow> 'a api_world_scheme \<Rightarrow> 'a api_world_scheme option" where
  "do_newconn m s = Some s"

definition udp_setflags :: "u32 \<Rightarrow> u8 \<Rightarrow> 'a udp_world_scheme \<Rightarrow> 'a udp_world_scheme option" where
  "udp_setflags pcb f s = upd_upcb pcb (\<lambda>c. c\<lparr>up_flags := f\<rparr>) s"

fun load_ip :: "ip_ptr \<Rightarrow> 'a api_world_scheme \<Rightarrow> u32 option" where
  "load_ip (IP_MEM a) s = Some (ld32 a (mem8 s))"
| "load_ip (UDP_REMOTE_IP a) s = map_option up_remote_ip (upcbs s a)"
| "load_ip (UDP_LOCAL_IP a) s = map_option up_local_ip (upcbs s a)"
| "load_ip (TCP_REMOTE_IP a) s = map_option pcb_remote_ip (pcbs s a)"
| "load_ip (TCP_LOCAL_IP a) s = map_option pcb_local_ip (pcb_prefix a s)"

definition deref_ip :: "ip_ptr option \<Rightarrow> 'a api_world_scheme \<Rightarrow> u32 option option" where
  "deref_ip ipaddr s = (case ipaddr of None \<Rightarrow> Some None | Some a \<Rightarrow> map_option Some (load_ip a s))"

definition delete_tcp :: "('a api_world_scheme) api_env \<Rightarrow> u32 \<Rightarrow> 'a api_world_scheme \<Rightarrow> 'a api_world_scheme option" where
  "delete_tcp A pcb s = do {
     s \<leftarrow> tcp_arg pcb 0 s;
     s \<leftarrow> tcp_sent pcb None s;
     s \<leftarrow> tcp_recv pcb None s;
     s \<leftarrow> tcp_accept pcb None s;
     s \<leftarrow> tcp_poll pcb None 0 s;
     s \<leftarrow> tcp_err pcb None s;
     l \<leftarrow> pcb_prefix pcb s;
     if pcb_state l = LISTEN then do {
       (e, s) \<leftarrow> tcp_close (tcp_of A) pcb s;
       Some s
     }
     else do {
       (e, s) \<leftarrow> tcp_close (tcp_of A) pcb s;
       if e \<noteq> ERR_OK then tcp_abort (tcp_of A) pcb s else Some s
     }
   }"

definition do_delconn :: "('a api_world_scheme) api_env \<Rightarrow> api_msg_msg \<Rightarrow> 'a api_world_scheme \<Rightarrow> 'a api_world_scheme option" where
  "do_delconn A m s = do {
     c \<leftarrow> netconns s (am_conn m);
     s \<leftarrow> (case nc_pcb c of
              None \<Rightarrow> Some s
            | Some pcb \<Rightarrow>
                if nc_type c = NETCONN_TCP then delete_tcp A pcb s
                else do {
                  s \<leftarrow> upd_upcb pcb (\<lambda>u. u\<lparr>up_recv_arg := 0\<rparr>) s;
                  udp_remove pcb s
                });
     c \<leftarrow> netconns s (am_conn m);
     if nc_mbox c \<noteq> None then post_mbox (nc_mbox c) None s else Some s
   }"

text \<open>
  The creation of a control block, for \<open>do_bind\<close> and for \<open>do_connect\<close>. The flags of \<open>udp_new\<close> are 0. In
  \<open>do_bind\<close> the result of the allocation is not tested; in \<open>do_connect\<close> it is.
\<close>

definition udp_type_flags :: "netconn_type \<Rightarrow> u8 option" where
  "udp_type_flags t = (case t of NETCONN_UDPLITE \<Rightarrow> Some UDP_FLAGS_UDPLITE | NETCONN_UDPNOCHKSUM \<Rightarrow> Some UDP_FLAGS_NOCHKSUM | _ \<Rightarrow> None)"

definition setup_udp :: "u32 \<Rightarrow> u32 \<Rightarrow> netconn_type \<Rightarrow> 'a api_world_scheme \<Rightarrow> 'a api_world_scheme option" where
  "setup_udp cn pcb t s = do {
     s \<leftarrow> (case udp_type_flags t of None \<Rightarrow> Some s | Some f \<Rightarrow> udp_setflags pcb f s);
     udp_recv pcb (Some FN_RECV_UDP) cn s
   }"

definition bind_new :: "('a api_world_scheme) api_env \<Rightarrow> u32 \<Rightarrow> netconn_type \<Rightarrow> 'a api_world_scheme \<Rightarrow> 'a api_world_scheme option" where
  "bind_new A cn t s =
     (if t = NETCONN_TCP then do {
        (pcb, s) \<leftarrow> tcp_new (tcp_of A) s;
        s \<leftarrow> upd_conn cn (\<lambda>c. c\<lparr>nc_pcb := pcb\<rparr>) s;
        setup_tcp cn s
      }
      else do {
        let (pcb, s) = udp_new s;
        s \<leftarrow> upd_conn cn (\<lambda>c. c\<lparr>nc_pcb := pcb\<rparr>) s;
        p \<leftarrow> pcb;
        setup_udp cn p t s
      })"

definition do_bind :: "('a api_world_scheme) api_env \<Rightarrow> api_msg_msg \<Rightarrow> 'a api_world_scheme \<Rightarrow> 'a api_world_scheme option" where
  "do_bind A m s = do {
     let cn = am_conn m;
     c \<leftarrow> netconns s cn;
     s \<leftarrow> (if nc_pcb c = None then bind_new A cn (nc_type c) s else Some s);
     c \<leftarrow> netconns s cn;
     pcb \<leftarrow> nc_pcb c;
     s \<leftarrow> (case am_msg m of
             ARG_BC ipaddr port \<Rightarrow>
               if nc_type c = NETCONN_TCP then do {
                 ip \<leftarrow> deref_ip ipaddr s;
                 (err, s) \<leftarrow> tcp_bind pcb ip port s;
                 upd_conn cn (\<lambda>c. c\<lparr>nc_err := err\<rparr>) s
               }
               else do {
                 ip \<leftarrow> deref_ip ipaddr s;
                 (err, s) \<leftarrow> udp_bind pcb ip port s;
                 Some s
               }
           | _ \<Rightarrow> None);
     post_mbox (nc_mbox c) None s
   }"

text \<open>The result says whether there is a control block now.\<close>

definition connect_new ::
  "('a api_world_scheme) api_env \<Rightarrow> u32 \<Rightarrow> netconn_type \<Rightarrow> 'a api_world_scheme \<Rightarrow> (bool \<times> 'a api_world_scheme) option" where
  "connect_new A cn t s = do {
     (pcb, s) \<leftarrow> (if t = NETCONN_TCP then tcp_new (tcp_of A) s else Some (udp_new s));
     s \<leftarrow> upd_conn cn (\<lambda>c. c\<lparr>nc_pcb := pcb\<rparr>) s;
     case pcb of
       None \<Rightarrow> do {
         s \<leftarrow> upd_conn cn (\<lambda>c. c\<lparr>nc_err := ERR_MEM\<rparr>) s;
         c \<leftarrow> netconns s cn;
         s \<leftarrow> post_mbox (nc_mbox c) None s;
         Some (False, s)
       }
     | Some p \<Rightarrow> do {
         s \<leftarrow> (if t = NETCONN_TCP then Some s else setup_udp cn p t s);
         Some (True, s)
       }
   }"

definition do_connect :: "('a api_world_scheme) api_env \<Rightarrow> api_msg_msg \<Rightarrow> 'a api_world_scheme \<Rightarrow> 'a api_world_scheme option" where
  "do_connect A m s = do {
     let cn = am_conn m;
     c \<leftarrow> netconns s cn;
     (ok, s) \<leftarrow> (if nc_pcb c = None then connect_new A cn (nc_type c) s else Some (True, s));
     if \<not> ok then Some s
     else do {
       c \<leftarrow> netconns s cn;
       pcb \<leftarrow> nc_pcb c;
       case am_msg m of
         ARG_BC ipaddr port \<Rightarrow>
           if nc_type c = NETCONN_TCP then do {
             s \<leftarrow> setup_tcp cn s;
             ip \<leftarrow> deref_ip ipaddr s;
             (err, s) \<leftarrow> tcp_connect (tcp_of A) pcb ip port (Some FN_CONNECTED) s;
             Some s
           }
           else do {
             ip \<leftarrow> deref_ip ipaddr s;
             (err, s) \<leftarrow> udp_connect pcb ip port s;
             post_mbox (nc_mbox c) None s
           }
       | _ \<Rightarrow> None
     }
   }"

definition listen_tcp :: "u32 \<Rightarrow> u32 \<Rightarrow> 'a api_world_scheme \<Rightarrow> 'a api_world_scheme option" where
  "listen_tcp cn pcb s = do {
     (lpcb, s) \<leftarrow> tcp_listen pcb s;
     s \<leftarrow> upd_conn cn (\<lambda>c. c\<lparr>nc_pcb := lpcb\<rparr>) s;
     case lpcb of
       None \<Rightarrow> upd_conn cn (\<lambda>c. c\<lparr>nc_err := ERR_MEM\<rparr>) s
     | Some l \<Rightarrow> do {
         c \<leftarrow> netconns s cn;
         s \<leftarrow> (if nc_acceptmbox c = None then do {
                 (mbox, s) \<leftarrow> new_mbox s;
                 upd_conn cn (\<lambda>c. c\<lparr>nc_acceptmbox := mbox\<rparr>) s
               }
               else Some s);
         c \<leftarrow> netconns s cn;
         if nc_acceptmbox c = None then upd_conn cn (\<lambda>c. c\<lparr>nc_err := ERR_MEM\<rparr>) s
         else do {
           s \<leftarrow> tcp_arg l (cn + ACCEPTMBOX) s;
           tcp_accept l (Some FN_ACCEPT) s
         }
       }
   }"

definition do_listen :: "api_msg_msg \<Rightarrow> 'a api_world_scheme \<Rightarrow> 'a api_world_scheme option" where
  "do_listen m s = do {
     let cn = am_conn m;
     c \<leftarrow> netconns s cn;
     s \<leftarrow> (case nc_pcb c of
             None \<Rightarrow> Some s
           | Some pcb \<Rightarrow> if nc_type c = NETCONN_TCP then listen_tcp cn pcb s else Some s);
     c \<leftarrow> netconns s cn;
     post_mbox (nc_mbox c) None s
   }"

definition do_accept :: "api_msg_msg \<Rightarrow> 'a api_world_scheme \<Rightarrow> 'a api_world_scheme option" where
  "do_accept m s = do {
     c \<leftarrow> netconns s (am_conn m);
     Some s
   }"

definition do_send :: "('a api_world_scheme) api_env \<Rightarrow> api_msg_msg \<Rightarrow> 'a api_world_scheme \<Rightarrow> 'a api_world_scheme option" where
  "do_send A m s = do {
     c \<leftarrow> netconns s (am_conn m);
     s \<leftarrow> (case nc_pcb c of
             None \<Rightarrow> Some s
           | Some pcb \<Rightarrow>
               if nc_type c = NETCONN_TCP then Some s
               else
                 case am_msg m of
                   ARG_P p \<Rightarrow> do {
                     q \<leftarrow> p;
                     (err, s) \<leftarrow> udp_send (ae_ram A) pcb q s;
                     Some s
                   }
                 | _ \<Rightarrow> None);
     post_mbox (nc_mbox c) None s
   }"

definition do_recv :: "('a api_world_scheme) api_env \<Rightarrow> api_msg_msg \<Rightarrow> 'a api_world_scheme \<Rightarrow> 'a api_world_scheme option" where
  "do_recv A m s = do {
     c \<leftarrow> netconns s (am_conn m);
     s \<leftarrow> (case nc_pcb c of
             None \<Rightarrow> Some s
           | Some pcb \<Rightarrow>
               if nc_type c = NETCONN_TCP then
                 case am_msg m of ARG_LEN len \<Rightarrow> tcp_recved (tcp_of A) pcb len s | _ \<Rightarrow> None
               else Some s);
     post_mbox (nc_mbox c) None s
   }"

definition do_write :: "('a api_world_scheme) api_env \<Rightarrow> api_msg_msg \<Rightarrow> 'a api_world_scheme \<Rightarrow> 'a api_world_scheme option" where
  "do_write A m s = do {
     let cn = am_conn m;
     c \<leftarrow> netconns s cn;
     s \<leftarrow> (case nc_pcb c of
             None \<Rightarrow> Some s
           | Some pcb \<Rightarrow>
               if nc_type c = NETCONN_TCP then
                 case am_msg m of
                   ARG_W dataptr len copy \<Rightarrow> do {
                     (err, s) \<leftarrow> tcp_write (tcp_of A) pcb dataptr len copy s;
                     s \<leftarrow> (if err = ERR_OK then do {
                             p \<leftarrow> pcbs s pcb;
                             if pcb_unacked p = None then do {
                               (r, s) \<leftarrow> tcp_output (tcp_of A) pcb s;
                               Some s
                             }
                             else Some s
                           }
                           else Some s);
                     upd_conn cn (\<lambda>c. c\<lparr>nc_err := err\<rparr>) s
                   }
                 | _ \<Rightarrow> None
               else upd_conn cn (\<lambda>c. c\<lparr>nc_err := ERR_VAL\<rparr>) s);
     post_mbox (nc_mbox c) None s
   }"

definition do_close :: "('a api_world_scheme) api_env \<Rightarrow> api_msg_msg \<Rightarrow> 'a api_world_scheme \<Rightarrow> 'a api_world_scheme option" where
  "do_close A m s = do {
     let cn = am_conn m;
     c \<leftarrow> netconns s cn;
     s \<leftarrow> (case nc_pcb c of
             None \<Rightarrow> Some s
           | Some pcb \<Rightarrow>
               if nc_type c = NETCONN_TCP then do {
                 (err, s) \<leftarrow> tcp_close (tcp_of A) pcb s;
                 upd_conn cn (\<lambda>c. c\<lparr>nc_err := err\<rparr>) s
               }
               else Some s);
     c \<leftarrow> netconns s cn;
     post_mbox (nc_mbox c) None s
   }"

fun decode :: "('a api_world_scheme) api_env \<Rightarrow> api_msg_type \<Rightarrow> api_msg_msg \<Rightarrow> 'a api_world_scheme \<Rightarrow> 'a api_world_scheme option" where
  "decode A API_MSG_NEWCONN m s = do_newconn m s"
| "decode A API_MSG_DELCONN m s = do_delconn A m s"
| "decode A API_MSG_BIND m s = do_bind A m s"
| "decode A API_MSG_CONNECT m s = do_connect A m s"
| "decode A API_MSG_LISTEN m s = do_listen m s"
| "decode A API_MSG_ACCEPT m s = do_accept m s"
| "decode A API_MSG_SEND m s = do_send A m s"
| "decode A API_MSG_RECV m s = do_recv A m s"
| "decode A API_MSG_WRITE m s = do_write A m s"
| "decode A API_MSG_CLOSE m s = do_close A m s"

definition api_msg_input :: "('a api_world_scheme) api_env \<Rightarrow> u32 \<Rightarrow> 'a api_world_scheme \<Rightarrow> 'a api_world_scheme option" where
  "api_msg_input A msg s = do {
     m \<leftarrow> api_msgs s msg;
     decode A (am_type m) (am_body m) s
   }"

end
