(* ===== verification/Transport.thy ===== *)
theory Transport
  imports Api_Msg
begin

text \<open>
  The transport thread (\<^verbatim>\<open>lwtcp/transport_subsys.c\<close>): it takes messages from its mailbox, requests of the
  application and received packets, and runs the TCP timer. Received packets come from the router
  through \<^verbatim>\<open>sr_transport_input\<close> (\<^verbatim>\<open>sr_lwtcp_glue.c\<close>).
\<close>

subsection \<open>The code\<close>

abbreviation TCP_TMR_INTERVAL :: u16 where "TCP_TMR_INTERVAL \<equiv> 100"
abbreviation FN_TCP_TIMER :: nat where "FN_TCP_TIMER \<equiv> 1"

definition arm_timeout :: "u16 \<Rightarrow> nat \<Rightarrow> u32 \<Rightarrow> 'a api_world_scheme \<Rightarrow> 'a api_world_scheme" where
  "arm_timeout msecs h arg s =
     (let (t, s) = memp_malloc MEMP_SYS_TIMEOUT s
      in s\<lparr>timeouts := sys_timeout (t \<noteq> None) msecs h arg (timeouts s),
             timeout_mem := (case t of None \<Rightarrow> timeout_mem s | Some a \<Rightarrow> a)\<rparr>)"

definition transport_tcp_timer :: "('a api_world_scheme) api_env \<Rightarrow> 'a api_world_scheme \<Rightarrow> 'a api_world_scheme option" where
  "transport_tcp_timer A s = do {
     s \<leftarrow> tcp_tmr (tcp_of A) s;
     Some (arm_timeout TCP_TMR_INTERVAL FN_TCP_TIMER 0 s)
   }"

text \<open>The head of the thread; \<open>init_fn\<close> is the function that the creator wants called.\<close>

definition transport_start :: "('a api_world_scheme \<Rightarrow> 'a api_world_scheme option) option \<Rightarrow> 'a api_world_scheme \<Rightarrow> 'a api_world_scheme option" where
  "transport_start init_fn s = do {
     s \<leftarrow> tcp_init s;
     let s = arm_timeout TCP_TMR_INTERVAL FN_TCP_TIMER 0 s;
     case init_fn of None \<Rightarrow> Some s | Some f \<Rightarrow> f s
   }"

definition free_transport_msg :: "u32 \<Rightarrow> 'a api_world_scheme \<Rightarrow> 'a api_world_scheme option" where
  "free_transport_msg msg s = do {
     s \<leftarrow> memp_freep MEMP_TCP_MSG (Some msg) s;
     Some (s\<lparr>transport_msgs := (transport_msgs s)(msg := None)\<rparr>)
   }"

text \<open>One turn of the loop, for the message that was fetched. The netmask is the second word of a \<^verbatim>\<open>struct netif\<close>.\<close>

definition transport_serve :: "('a api_world_scheme) api_env \<Rightarrow> u32 \<Rightarrow> 'a api_world_scheme \<Rightarrow> 'a api_world_scheme option" where
  "transport_serve A msg s = do {
     t \<leftarrow> transport_msgs s msg;
     s \<leftarrow> (case t of
             TCP_MSG_API apimsg \<Rightarrow> api_msg_input A apimsg s
           | TCP_MSG_INPUT p netif \<Rightarrow> tcp_input (tcp_of A) (ld32 (netif + 4) (mem8 s)) p s);
     free_transport_msg msg s
   }"

text \<open>
  The thread looks into its mailbox and serves the message it finds. If there is none it waits for
  mail, and looks again once it has been signalled.
\<close>

definition transport_look :: "('a api_world_scheme) api_env \<Rightarrow> 'a api_world_scheme \<Rightarrow> 'a api_world_scheme option" where
  "transport_look A s = do {
     a \<leftarrow> transport_mbox s;
     m \<leftarrow> mboxes s a;
     (r, m) \<leftarrow> mbox_fetch_pass m;
     case r of
       Some msg \<Rightarrow> do {
         msg \<leftarrow> msg;
         transport_serve A msg (s\<lparr>mboxes := (mboxes s)(a \<mapsto> m)\<rparr>)
       }
     | None \<Rightarrow>
         (case sys_arch_sem_wait (mbox_mail m) 0 [] of
            None \<Rightarrow> Some (s\<lparr>mboxes := (mboxes s)(a \<mapsto> m)\<rparr>)
          | Some (t, mail) \<Rightarrow> Some (s\<lparr>mboxes := (mboxes s)(a \<mapsto> m\<lparr>mbox_mail := mail\<rparr>)\<rparr>))
   }"

text \<open>The wait for a message ends with the timeout: its entry leaves the list and the handler runs.\<close>

definition transport_timeout :: "('a api_world_scheme) api_env \<Rightarrow> 'a api_world_scheme \<Rightarrow> 'a api_world_scheme option" where
  "transport_timeout A s =
     (case timeouts s of
        [] \<Rightarrow> Some s
      | t # ts \<Rightarrow>
          let s = memp_free MEMP_SYS_TIMEOUT (Some (timeout_mem s)) (s\<lparr>timeouts := ts\<rparr>)
          in if to_h t = FN_TCP_TIMER then transport_tcp_timer A s else None)"

definition tcp_msg_input :: "u32 \<Rightarrow> u32 \<Rightarrow> u32 \<Rightarrow> 'a api_world_scheme \<Rightarrow> (err_t \<times> 'a api_world_scheme) option" where
  "tcp_msg_input ram_addr p inp s = do {
     (msg, s) \<leftarrow> memp_mallocp MEMP_TCP_MSG s;
     case msg of
       None \<Rightarrow> do {
         (n, s) \<leftarrow> pbuf_free ram_addr (Some p) s;
         Some (ERR_MEM, s)
       }
     | Some a \<Rightarrow> do {
         let s = s\<lparr>transport_msgs := (transport_msgs s)(a \<mapsto> TCP_MSG_INPUT p inp)\<rparr>;
         s \<leftarrow> post_mbox (transport_mbox s) msg s;
         Some (ERR_OK, s)
       }
   }"

text \<open>\<open>transport_subsys_input\<close> has the same body, and \<open>udp_msg_input\<close> is \<^verbatim>\<open>assert(0)\<close>.\<close>

definition transport_subsys_input :: "u32 \<Rightarrow> u32 \<Rightarrow> u32 \<Rightarrow> 'a api_world_scheme \<Rightarrow> (err_t \<times> 'a api_world_scheme) option" where
  "transport_subsys_input = tcp_msg_input"

definition udp_msg_input :: "u32 \<Rightarrow> u32 \<Rightarrow> 'a api_world_scheme \<Rightarrow> (err_t \<times> 'a api_world_scheme) option" where
  "udp_msg_input p inp s = None"

text \<open>Without memory for the message the request is released, but into the pool of the transport messages.\<close>

definition transport_apimsg :: "u32 \<Rightarrow> 'a api_world_scheme \<Rightarrow> 'a api_world_scheme option" where
  "transport_apimsg apimsg s = do {
     (msg, s) \<leftarrow> memp_mallocp MEMP_TCP_MSG s;
     case msg of
       None \<Rightarrow> Some (memp_free MEMP_TCP_MSG (Some apimsg) s\<lparr>api_msgs := (api_msgs s)(apimsg := None)\<rparr>)
     | Some a \<Rightarrow> do {
         let s = s\<lparr>transport_msgs := (transport_msgs s)(a \<mapsto> TCP_MSG_API apimsg)\<rparr>;
         post_mbox (transport_mbox s) msg s
       }
   }"

definition api_msg_post :: "u32 \<Rightarrow> 'a api_world_scheme \<Rightarrow> 'a api_world_scheme option" where
  "api_msg_post msg s = transport_apimsg msg s"

text \<open>The initialisation makes the mailbox; the thread that it creates begins with \<open>transport_start\<close>.\<close>

definition transport_subsys_init :: "'a api_world_scheme \<Rightarrow> 'a api_world_scheme option" where
  "transport_subsys_init s = do {
     (mbox, s) \<leftarrow> new_mbox s;
     Some (s\<lparr>transport_mbox := mbox\<rparr>)
   }"

text \<open>
  The router hands over a packet at the address \<open>packet\<close>. The structure \<open>inp\<close> is a local variable, at an
  address that the caller does not see; \<^verbatim>\<open>memset\<close> with the length 0 leaves it as it is.
\<close>

definition sr_transport_input :: "u32 \<Rightarrow> u32 \<Rightarrow> u32 \<Rightarrow> 'a api_world_scheme \<Rightarrow> 'a api_world_scheme option" where
  "sr_transport_input ram_addr inp packet s = do {
     let len = ntohs (ld16 (packet + 2) (mem8 s));
     (pb, s) \<leftarrow> pbuf_alloc ram_addr PBUF_RAW len PBUF_RAM s;
     p \<leftarrow> pb;
     s \<leftarrow> upd_pbuf p (\<lambda>b. b\<lparr>pb_len := len, pb_tot_len := len\<rparr>) s;
     b \<leftarrow> pbufs s p;
     let s = upd_mem (\<lambda>m. st_bytes (pb_payload b) (ld_bytes (unat (pb_tot_len b)) packet m) m) s;
     (err, s) \<leftarrow> tcp_msg_input ram_addr p inp s;
     Some s
   }"

end
