(* ===== verification/Api_Lib.thy ===== *)
theory Api_Lib
  imports Transport
begin

text \<open>
  The application's side of the sequential API (\<^verbatim>\<open>netconn_new\<close> to \<^verbatim>\<open>netconn_err\<close> of \<^verbatim>\<open>lwtcp/api_lib.c\<close>): a call
  posts a request and waits on the mailbox of the connection for the answer. What the other threads do
  while the caller is blocked is a function \<open>W\<close> of the state; a caller that is never woken does not
  return, which is \<open>None\<close>. The threads of the application have no timeouts.
\<close>

subsection \<open>Waiting\<close>

text \<open>\<open>sys_arch_mbox_fetch\<close> without a timeout, and with one, during which \<open>W\<close> happens once.\<close>

partial_function (option) mail_wait :: "('a api_world_scheme \<Rightarrow> 'a api_world_scheme option) \<Rightarrow> u32 \<Rightarrow> 'a api_world_scheme \<Rightarrow> 'a api_world_scheme option" where
  "mail_wait W a s = do {
     m \<leftarrow> mboxes s a;
     case sys_arch_sem_wait (mbox_mail m) 0 [] of
       Some (t, mail) \<Rightarrow> Some (s\<lparr>mboxes := (mboxes s)(a \<mapsto> m\<lparr>mbox_mail := mail\<rparr>)\<rparr>)
     | None \<Rightarrow> do {
         s \<leftarrow> W s;
         mail_wait W a s
       }
   }"

partial_function (option) fetch_wait :: "('a api_world_scheme \<Rightarrow> 'a api_world_scheme option) \<Rightarrow> u32 option \<Rightarrow> 'a api_world_scheme \<Rightarrow> (u32 option \<times> 'a api_world_scheme) option" where
  "fetch_wait W mbox s = do {
     a \<leftarrow> mbox;
     m \<leftarrow> mboxes s a;
     (r, m) \<leftarrow> mbox_fetch_pass m;
     let s = s\<lparr>mboxes := (mboxes s)(a \<mapsto> m)\<rparr>;
     case r of
       Some msg \<Rightarrow> Some (msg, s)
     | None \<Rightarrow> do {
         s \<leftarrow> mail_wait W a s;
         fetch_wait W mbox s
       }
   }"

partial_function (option) fetch_timed :: "('a api_world_scheme \<Rightarrow> 'a api_world_scheme option) \<Rightarrow> u32 option \<Rightarrow> 'a api_world_scheme \<Rightarrow> (u32 option option \<times> 'a api_world_scheme) option" where
  "fetch_timed W mbox s = do {
     a \<leftarrow> mbox;
     m \<leftarrow> mboxes s a;
     (r, m) \<leftarrow> mbox_fetch_pass m;
     let s = s\<lparr>mboxes := (mboxes s)(a \<mapsto> m)\<rparr>;
     case r of
       Some msg \<Rightarrow> Some (Some msg, s)
     | None \<Rightarrow> do {
         s \<leftarrow> (if sem_c (mbox_mail m) = 0 then W s else Some s);
         m \<leftarrow> mboxes s a;
         case sys_arch_sem_wait (mbox_mail m) 0 [] of
           None \<Rightarrow> Some (None, s)
         | Some (t, mail) \<Rightarrow> fetch_timed W mbox (s\<lparr>mboxes := (mboxes s)(a \<mapsto> m\<lparr>mbox_mail := mail\<rparr>)\<rparr>)
       }
   }"

partial_function (option) sem_wait :: "('a api_world_scheme \<Rightarrow> 'a api_world_scheme option) \<Rightarrow> u32 option \<Rightarrow> 'a api_world_scheme \<Rightarrow> 'a api_world_scheme option" where
  "sem_wait W sem s = do {
     a \<leftarrow> sem;
     m \<leftarrow> sems s a;
     case sys_arch_sem_wait m 0 [] of
       Some (t, m) \<Rightarrow> Some (s\<lparr>sems := (sems s)(a \<mapsto> m)\<rparr>)
     | None \<Rightarrow> do {
         s \<leftarrow> W s;
         sem_wait W sem s
       }
   }"

subsection \<open>Connections\<close>

definition netconn_new :: "netconn \<Rightarrow> netconn_type \<Rightarrow> 'a api_world_scheme \<Rightarrow> (u32 option \<times> 'a api_world_scheme) option" where
  "netconn_new junk t s = do {
     (cn, s) \<leftarrow> memp_mallocp MEMP_NETCONN s;
     case cn of
       None \<Rightarrow> Some (None, s)
     | Some a \<Rightarrow> do {
         let s = s\<lparr>netconns := (netconns s)(a \<mapsto> junk\<lparr>nc_type := t, nc_pcb := None\<rparr>)\<rparr>;
         (mbox, s) \<leftarrow> new_mbox s;
         s \<leftarrow> upd_conn a (\<lambda>c. c\<lparr>nc_mbox := mbox\<rparr>) s;
         if mbox = None then do {
           s \<leftarrow> memp_freep MEMP_NETCONN cn s;
           Some (None, s\<lparr>netconns := (netconns s)(a := None)\<rparr>)
         }
         else do {
           s \<leftarrow> upd_conn a (\<lambda>c. c\<lparr>nc_recvmbox := None, nc_acceptmbox := None, nc_sem := None, nc_state := NETCONN_NONE\<rparr>) s;
           Some (cn, s)
         }
       }
   }"

text \<open>A request: its memory, the post, the wait for the answer, and the release of the memory.\<close>

definition free_api_msg :: "u32 \<Rightarrow> 'a api_world_scheme \<Rightarrow> 'a api_world_scheme option" where
  "free_api_msg msg s = do {
     s \<leftarrow> memp_freep MEMP_API_MSG (Some msg) s;
     Some (s\<lparr>api_msgs := (api_msgs s)(msg := None)\<rparr>)
   }"

definition put_api_msg :: "u32 \<Rightarrow> api_msg_type \<Rightarrow> u32 \<Rightarrow> api_args \<Rightarrow> 'a api_world_scheme \<Rightarrow> 'a api_world_scheme" where
  "put_api_msg msg t cn args s = s\<lparr>api_msgs := (api_msgs s)(msg \<mapsto> \<lparr>am_type = t, am_body = \<lparr>am_conn = cn, am_msg = args\<rparr>\<rparr>)\<rparr>"

definition post_and_wait :: "('a api_world_scheme \<Rightarrow> 'a api_world_scheme option) \<Rightarrow> u32 \<Rightarrow> u32 \<Rightarrow> 'a api_world_scheme \<Rightarrow> 'a api_world_scheme option" where
  "post_and_wait W cn msg s = do {
     s \<leftarrow> api_msg_post msg s;
     c \<leftarrow> netconns s cn;
     (r, s) \<leftarrow> fetch_wait W (nc_mbox c) s;
     Some s
   }"

definition api_request ::
  "('a api_world_scheme \<Rightarrow> 'a api_world_scheme option) \<Rightarrow> api_msg_type \<Rightarrow> u32 \<Rightarrow> api_args \<Rightarrow> 'a api_world_scheme \<Rightarrow> (bool \<times> 'a api_world_scheme) option" where
  "api_request W t cn args s = do {
     (msg, s) \<leftarrow> memp_mallocp MEMP_API_MSG s;
     case msg of
       None \<Rightarrow> Some (False, s)
     | Some m \<Rightarrow> do {
         s \<leftarrow> post_and_wait W cn m (put_api_msg m t cn args s);
         s \<leftarrow> free_api_msg m s;
         Some (True, s)
       }
   }"

definition set_err :: "u32 \<Rightarrow> err_t \<Rightarrow> 'a api_world_scheme \<Rightarrow> (err_t \<times> 'a api_world_scheme) option" where
  "set_err cn err s = do {
     s \<leftarrow> upd_conn cn (\<lambda>c. c\<lparr>nc_err := err\<rparr>) s;
     Some (err, s)
   }"

definition get_err :: "u32 \<Rightarrow> 'a api_world_scheme \<Rightarrow> (err_t \<times> 'a api_world_scheme) option" where
  "get_err cn s = do {
     c \<leftarrow> netconns s cn;
     Some (nc_err c, s)
   }"

text \<open>
  The two loops that empty a mailbox. \<open>netconn_delete\<close> calls itself for the connections that have not been
  accepted; the argument \<open>draining\<close> says that the call is in that loop.
\<close>

partial_function (option) drain_recv :: "('a api_world_scheme \<Rightarrow> 'a api_world_scheme option) \<Rightarrow> u32 \<Rightarrow> u32 \<Rightarrow> 'a api_world_scheme \<Rightarrow> 'a api_world_scheme option" where
  "drain_recv W ram_addr cn s = do {
     c \<leftarrow> netconns s cn;
     (r, s) \<leftarrow> fetch_timed W (nc_recvmbox c) s;
     case r of
       None \<Rightarrow> Some s
     | Some mem \<Rightarrow> do {
         s \<leftarrow> (if nc_type c = NETCONN_TCP then do {
                 (n, s) \<leftarrow> pbuf_free ram_addr mem s;
                 Some s
               }
               else netbuf_delete ram_addr mem s);
         drain_recv W ram_addr cn s
       }
   }"

definition delete_recv :: "('a api_world_scheme \<Rightarrow> 'a api_world_scheme option) \<Rightarrow> u32 \<Rightarrow> u32 \<Rightarrow> 'a api_world_scheme \<Rightarrow> 'a api_world_scheme option" where
  "delete_recv W ram_addr cn s = do {
     c \<leftarrow> netconns s cn;
     if nc_recvmbox c \<noteq> None then do {
       s \<leftarrow> drain_recv W ram_addr cn s;
       s \<leftarrow> free_mbox (nc_recvmbox c) s;
       upd_conn cn (\<lambda>c. c\<lparr>nc_recvmbox := None\<rparr>) s
     }
     else Some s
   }"

definition delete_rest :: "u32 \<Rightarrow> 'a api_world_scheme \<Rightarrow> 'a api_world_scheme option" where
  "delete_rest cn s = do {
     c \<leftarrow> netconns s cn;
     s \<leftarrow> free_mbox (nc_mbox c) s;
     s \<leftarrow> upd_conn cn (\<lambda>c. c\<lparr>nc_mbox := None\<rparr>) s;
     s \<leftarrow> (if nc_sem c \<noteq> None then free_sem (nc_sem c) s else Some s);
     Some (release_conn cn s)
   }"

partial_function (option) delete_loop ::
  "('a api_world_scheme \<Rightarrow> 'a api_world_scheme option) \<Rightarrow> u32 \<Rightarrow> bool \<Rightarrow> u32 \<Rightarrow> 'a api_world_scheme \<Rightarrow> (err_t \<times> 'a api_world_scheme) option" where
  "delete_loop W ram_addr draining cn s =
     (if \<not> draining then do {
        (ok, s) \<leftarrow> api_request W API_MSG_DELCONN cn ARG_NONE s;
        if \<not> ok then Some (ERR_MEM, s)
        else do {
          s \<leftarrow> delete_recv W ram_addr cn s;
          c \<leftarrow> netconns s cn;
          if nc_acceptmbox c \<noteq> None then delete_loop W ram_addr True cn s
          else do {
            s \<leftarrow> delete_rest cn s;
            Some (ERR_OK, s)
          }
        }
      }
      else do {
        c \<leftarrow> netconns s cn;
        (r, s) \<leftarrow> fetch_timed W (nc_acceptmbox c) s;
        case r of
          Some mem \<Rightarrow> do {
            (e, s) \<leftarrow> (case mem of None \<Rightarrow> Some (ERR_OK, s) | Some a \<Rightarrow> delete_loop W ram_addr False a s);
            delete_loop W ram_addr True cn s
          }
        | None \<Rightarrow> do {
            s \<leftarrow> free_mbox (nc_acceptmbox c) s;
            s \<leftarrow> upd_conn cn (\<lambda>c. c\<lparr>nc_acceptmbox := None\<rparr>) s;
            s \<leftarrow> delete_rest cn s;
            Some (ERR_OK, s)
          }
      })"

definition netconn_delete ::
  "('a api_world_scheme \<Rightarrow> 'a api_world_scheme option) \<Rightarrow> u32 \<Rightarrow> u32 option \<Rightarrow> 'a api_world_scheme \<Rightarrow> (err_t \<times> 'a api_world_scheme) option" where
  "netconn_delete W ram_addr cn s = (case cn of None \<Rightarrow> Some (ERR_OK, s) | Some a \<Rightarrow> delete_loop W ram_addr False a s)"

definition netconn_type_of :: "u32 \<Rightarrow> 'a api_world_scheme \<Rightarrow> netconn_type option" where
  "netconn_type_of cn s = map_option nc_type (netconns s cn)"

text \<open>The addresses are given as pointers into the control block.\<close>

definition netconn_peer :: "u32 \<Rightarrow> 'a api_world_scheme \<Rightarrow> ((ip_ptr \<times> u16) \<times> 'a api_world_scheme) option" where
  "netconn_peer cn s = do {
     c \<leftarrow> netconns s cn;
     pcb \<leftarrow> nc_pcb c;
     ap \<leftarrow> (if nc_type c = NETCONN_TCP then map_option (\<lambda>p. (TCP_REMOTE_IP pcb, pcb_remote_port p)) (pcbs s pcb)
            else map_option (\<lambda>u. (UDP_REMOTE_IP pcb, up_remote_port u)) (upcbs s pcb));
     s \<leftarrow> upd_conn cn (\<lambda>c. c\<lparr>nc_err := ERR_OK\<rparr>) s;
     Some (ap, s)
   }"

definition netconn_addr :: "u32 \<Rightarrow> 'a api_world_scheme \<Rightarrow> ((ip_ptr \<times> u16) \<times> 'a api_world_scheme) option" where
  "netconn_addr cn s = do {
     c \<leftarrow> netconns s cn;
     pcb \<leftarrow> nc_pcb c;
     ap \<leftarrow> (if nc_type c = NETCONN_TCP then map_option (\<lambda>l. (TCP_LOCAL_IP pcb, pcb_local_port l)) (pcb_prefix pcb s)
            else map_option (\<lambda>u. (UDP_LOCAL_IP pcb, up_local_port u)) (upcbs s pcb));
     s \<leftarrow> upd_conn cn (\<lambda>c. c\<lparr>nc_err := ERR_OK\<rparr>) s;
     Some (ap, s)
   }"

text \<open>A mailbox of the connection is made when it is not there yet.\<close>

definition need_recvmbox :: "u32 \<Rightarrow> 'a api_world_scheme \<Rightarrow> (u32 option \<times> 'a api_world_scheme) option" where
  "need_recvmbox cn s = do {
     c \<leftarrow> netconns s cn;
     if nc_recvmbox c = None then do {
       (mbox, s) \<leftarrow> new_mbox s;
       s \<leftarrow> upd_conn cn (\<lambda>c. c\<lparr>nc_recvmbox := mbox\<rparr>) s;
       Some (mbox, s)
     }
     else Some (nc_recvmbox c, s)
   }"

definition netconn_bind ::
  "('a api_world_scheme \<Rightarrow> 'a api_world_scheme option) \<Rightarrow> u32 option \<Rightarrow> ip_ptr option \<Rightarrow> u16 \<Rightarrow> 'a api_world_scheme \<Rightarrow> (err_t \<times> 'a api_world_scheme) option" where
  "netconn_bind W cn addr port s =
     (case cn of
        None \<Rightarrow> Some (ERR_VAL, s)
      | Some a \<Rightarrow> do {
          c \<leftarrow> netconns s a;
          (mbox, s) \<leftarrow> (if nc_type c \<noteq> NETCONN_TCP then need_recvmbox a s else Some (Some 0, s));
          if mbox = None then Some (ERR_MEM, s)
          else do {
            (ok, s) \<leftarrow> api_request W API_MSG_BIND a (ARG_BC addr port) s;
            if ok then get_err a s else set_err a ERR_MEM s
          }
        })"

definition netconn_connect ::
  "('a api_world_scheme \<Rightarrow> 'a api_world_scheme option) \<Rightarrow> u32 option \<Rightarrow> ip_ptr option \<Rightarrow> u16 \<Rightarrow> 'a api_world_scheme \<Rightarrow> (err_t \<times> 'a api_world_scheme) option" where
  "netconn_connect W cn addr port s =
     (case cn of
        None \<Rightarrow> Some (ERR_VAL, s)
      | Some a \<Rightarrow> do {
          (mbox, s) \<leftarrow> need_recvmbox a s;
          if mbox = None then Some (ERR_MEM, s)
          else do {
            (ok, s) \<leftarrow> api_request W API_MSG_CONNECT a (ARG_BC addr port) s;
            if ok then get_err a s else Some (ERR_MEM, s)
          }
        })"

definition netconn_listen ::
  "('a api_world_scheme \<Rightarrow> 'a api_world_scheme option) \<Rightarrow> u32 option \<Rightarrow> 'a api_world_scheme \<Rightarrow> (err_t \<times> 'a api_world_scheme) option" where
  "netconn_listen W cn s =
     (case cn of
        None \<Rightarrow> Some (ERR_VAL, s)
      | Some a \<Rightarrow> do {
          c \<leftarrow> netconns s a;
          s \<leftarrow> (if nc_acceptmbox c = None then do {
                  (mbox, s) \<leftarrow> new_mbox s;
                  upd_conn a (\<lambda>c. c\<lparr>nc_acceptmbox := mbox\<rparr>) s
                }
                else Some s);
          c \<leftarrow> netconns s a;
          if nc_acceptmbox c = None then Some (ERR_MEM, s)
          else do {
            (ok, s) \<leftarrow> api_request W API_MSG_LISTEN a ARG_NONE s;
            if ok then get_err a s else set_err a ERR_MEM s
          }
        })"

definition netconn_accept ::
  "('a api_world_scheme \<Rightarrow> 'a api_world_scheme option) \<Rightarrow> u32 option \<Rightarrow> 'a api_world_scheme \<Rightarrow> (u32 option \<times> 'a api_world_scheme) option" where
  "netconn_accept W cn s =
     (case cn of
        None \<Rightarrow> Some (None, s)
      | Some a \<Rightarrow> do {
          c \<leftarrow> netconns s a;
          fetch_wait W (nc_acceptmbox c) s
        })"

text \<open>The branch of TCP: the pbuf from the mailbox gets a netbuf, and the transport thread is told of it.\<close>

definition recv_data ::
  "('a api_world_scheme \<Rightarrow> 'a api_world_scheme option) \<Rightarrow> netbuf \<Rightarrow> u32 \<Rightarrow> u32 \<Rightarrow> u32 option \<Rightarrow> 'a api_world_scheme \<Rightarrow> (u32 option \<times> 'a api_world_scheme) option" where
  "recv_data W junk cn b p s =
     (case p of
        None \<Rightarrow> do {
          s \<leftarrow> memp_freep MEMP_NETBUF (Some b) s;
          let s = s\<lparr>netbufs := (netbufs s)(b := None)\<rparr>;
          c \<leftarrow> netconns s cn;
          s \<leftarrow> free_mbox (nc_recvmbox c) s;
          s \<leftarrow> upd_conn cn (\<lambda>c. c\<lparr>nc_recvmbox := None\<rparr>) s;
          Some (None, s)
        }
      | Some q \<Rightarrow> do {
          let s = s\<lparr>netbufs := (netbufs s)(b \<mapsto> junk\<lparr>nb_p := p, nb_ptr := p, nb_fromport := 0, nb_fromaddr := None\<rparr>)\<rparr>;
          (msg, s) \<leftarrow> memp_mallocp MEMP_API_MSG s;
          case msg of
            None \<Rightarrow> do {
              s \<leftarrow> upd_conn cn (\<lambda>c. c\<lparr>nc_err := ERR_MEM\<rparr>) s;
              Some (Some b, s)
            }
          | Some m \<Rightarrow> do {
              pb \<leftarrow> pbufs s q;
              s \<leftarrow> post_and_wait W cn m (put_api_msg m API_MSG_RECV cn (ARG_LEN (pb_tot_len pb)) s);
              s \<leftarrow> free_api_msg m s;
              Some (Some b, s)
            }
        })"

definition netconn_recv ::
  "('a api_world_scheme \<Rightarrow> 'a api_world_scheme option) \<Rightarrow> netbuf \<Rightarrow> u32 option \<Rightarrow> 'a api_world_scheme \<Rightarrow> (u32 option \<times> 'a api_world_scheme) option" where
  "netconn_recv W junk cn s =
     (case cn of
        None \<Rightarrow> Some (None, s)
      | Some a \<Rightarrow> do {
          c \<leftarrow> netconns s a;
          if nc_recvmbox c = None then do {
            (e, s) \<leftarrow> set_err a ERR_CONN s;
            Some (None, s)
          }
          else if nc_err c \<noteq> ERR_OK then Some (None, s)
          else if nc_type c = NETCONN_TCP then do {
            pcb \<leftarrow> nc_pcb c;
            l \<leftarrow> pcb_prefix pcb s;
            if pcb_state l = LISTEN then do {
              (e, s) \<leftarrow> set_err a ERR_CONN s;
              Some (None, s)
            }
            else do {
              (buf, s) \<leftarrow> memp_mallocp MEMP_NETBUF s;
              case buf of
                None \<Rightarrow> do {
                  (e, s) \<leftarrow> set_err a ERR_MEM s;
                  Some (None, s)
                }
              | Some b \<Rightarrow> do {
                  (p, s) \<leftarrow> fetch_wait W (nc_recvmbox c) s;
                  recv_data W junk a b p s
                }
            }
          }
          else fetch_wait W (nc_recvmbox c) s
        })"

definition netconn_send ::
  "('a api_world_scheme \<Rightarrow> 'a api_world_scheme option) \<Rightarrow> u32 option \<Rightarrow> u32 \<Rightarrow> 'a api_world_scheme \<Rightarrow> (err_t \<times> 'a api_world_scheme) option" where
  "netconn_send W cn buf s =
     (case cn of
        None \<Rightarrow> Some (ERR_VAL, s)
      | Some a \<Rightarrow> do {
          c \<leftarrow> netconns s a;
          if nc_err c \<noteq> ERR_OK then Some (nc_err c, s)
          else do {
            (msg, s) \<leftarrow> memp_mallocp MEMP_API_MSG s;
            case msg of
              None \<Rightarrow> set_err a ERR_MEM s
            | Some m \<Rightarrow> do {
                b \<leftarrow> netbufs s buf;
                s \<leftarrow> post_and_wait W a m (put_api_msg m API_MSG_SEND a (ARG_P (nb_p b)) s);
                s \<leftarrow> free_api_msg m s;
                get_err a s
              }
          }
        })"

text \<open>One turn of the loop of \<open>netconn_write\<close> for TCP; \<open>None\<close> for the length means that an error was signalled.\<close>

definition write_len :: "('a api_world_scheme \<Rightarrow> 'a api_world_scheme option) \<Rightarrow> u32 \<Rightarrow> u16 \<Rightarrow> 'a api_world_scheme \<Rightarrow> (u16 option \<times> 'a api_world_scheme) option" where
  "write_len W cn sz s = do {
     c \<leftarrow> netconns s cn;
     if nc_type c \<noteq> NETCONN_TCP then Some (Some sz, s)
     else do {
       a \<leftarrow> nc_pcb c;
       p \<leftarrow> pcbs s a;
       s \<leftarrow> (if pcb_snd_buf p = 0 then sem_wait W (nc_sem c) s else Some s);
       c' \<leftarrow> netconns s cn;
       if pcb_snd_buf p = 0 \<and> nc_err c' \<noteq> ERR_OK then Some (None, s)
       else do {
         a \<leftarrow> nc_pcb c';
         p \<leftarrow> pcbs s a;
         Some (Some (if sz > pcb_snd_buf p then pcb_snd_buf p else sz), s)
       }
     }
   }"

text \<open>The result says whether there was a serious error.\<close>

partial_function (option) write_loop ::
  "('a api_world_scheme \<Rightarrow> 'a api_world_scheme option) \<Rightarrow> u32 \<Rightarrow> u32 \<Rightarrow> u32 \<Rightarrow> u16 \<Rightarrow> u8 \<Rightarrow> 'a api_world_scheme \<Rightarrow> (bool \<times> 'a api_world_scheme) option" where
  "write_loop W cn m dataptr sz copy s = do {
     c \<leftarrow> netconns s cn;
     if nc_err c = ERR_OK \<and> sz > 0 then do {
       (r, s) \<leftarrow> write_len W cn sz s;
       case r of
         None \<Rightarrow> Some (True, s)
       | Some len \<Rightarrow> do {
           s \<leftarrow> post_and_wait W cn m (put_api_msg m API_MSG_WRITE cn (ARG_W dataptr len copy) s);
           c \<leftarrow> netconns s cn;
           if nc_err c = ERR_OK then write_loop W cn m (dataptr + ucast len) (sz - len) copy s
           else if nc_err c = ERR_MEM then do {
             s \<leftarrow> upd_conn cn (\<lambda>c. c\<lparr>nc_err := ERR_OK\<rparr>) s;
             s \<leftarrow> sem_wait W (nc_sem c) s;
             write_loop W cn m dataptr sz copy s
           }
           else Some (True, s)
         }
     }
     else Some (False, s)
   }"

definition write_trouble :: "u32 \<Rightarrow> 'a api_world_scheme \<Rightarrow> 'a api_world_scheme option" where
  "write_trouble cn s = do {
     s \<leftarrow> upd_conn cn (\<lambda>c. c\<lparr>nc_state := NETCONN_NONE\<rparr>) s;
     c \<leftarrow> netconns s cn;
     if nc_sem c \<noteq> None then do {
       s \<leftarrow> free_sem (nc_sem c) s;
       upd_conn cn (\<lambda>c. c\<lparr>nc_sem := None\<rparr>) s
     }
     else Some s
   }"

definition netconn_write ::
  "('a api_world_scheme \<Rightarrow> 'a api_world_scheme option) \<Rightarrow> u32 option \<Rightarrow> u32 \<Rightarrow> u16 \<Rightarrow> u8 \<Rightarrow> 'a api_world_scheme \<Rightarrow> (err_t \<times> 'a api_world_scheme) option" where
  "netconn_write W cn dataptr sz copy s =
     (case cn of
        None \<Rightarrow> Some (ERR_VAL, s)
      | Some a \<Rightarrow> do {
          c \<leftarrow> netconns s a;
          if nc_err c \<noteq> ERR_OK then Some (nc_err c, s)
          else do {
            s \<leftarrow> (if nc_sem c = None then do {
                    (sem, s) \<leftarrow> new_sem 0 s;
                    upd_conn a (\<lambda>c. c\<lparr>nc_sem := sem\<rparr>) s
                  }
                  else Some s);
            c \<leftarrow> netconns s a;
            if nc_sem c = None then Some (ERR_MEM, s)
            else do {
              (msg, s) \<leftarrow> memp_mallocp MEMP_API_MSG s;
              case msg of
                None \<Rightarrow> set_err a ERR_MEM s
              | Some m \<Rightarrow> do {
                  let s = put_api_msg m API_MSG_WRITE a ARG_NONE s;
                  s \<leftarrow> upd_conn a (\<lambda>c. c\<lparr>nc_state := NETCONN_WRITE\<rparr>) s;
                  (trouble, s) \<leftarrow> write_loop W a m dataptr sz copy s;
                  s \<leftarrow> free_api_msg m s;
                  s \<leftarrow> (if trouble then write_trouble a s else Some s);
                  get_err a s
                }
            }
          }
        })"

partial_function (option) close_loop ::
  "('a api_world_scheme \<Rightarrow> 'a api_world_scheme option) \<Rightarrow> u32 \<Rightarrow> u32 \<Rightarrow> 'a api_world_scheme \<Rightarrow> 'a api_world_scheme option" where
  "close_loop W cn m s = do {
     s \<leftarrow> post_and_wait W cn m (put_api_msg m API_MSG_CLOSE cn ARG_NONE s);
     c \<leftarrow> netconns s cn;
     if nc_err c = ERR_MEM \<and> nc_sem c \<noteq> None then do {
       s \<leftarrow> sem_wait W (nc_sem c) s;
       close_loop W cn m s
     }
     else Some s
   }"

definition netconn_close ::
  "('a api_world_scheme \<Rightarrow> 'a api_world_scheme option) \<Rightarrow> u32 option \<Rightarrow> 'a api_world_scheme \<Rightarrow> (err_t \<times> 'a api_world_scheme) option" where
  "netconn_close W cn s =
     (case cn of
        None \<Rightarrow> Some (ERR_VAL, s)
      | Some a \<Rightarrow> do {
          (msg, s) \<leftarrow> memp_mallocp MEMP_API_MSG s;
          case msg of
            None \<Rightarrow> set_err a ERR_MEM s
          | Some m \<Rightarrow> do {
              s \<leftarrow> upd_conn a (\<lambda>c. c\<lparr>nc_state := NETCONN_CLOSE\<rparr>) s;
              s \<leftarrow> close_loop W a m s;
              s \<leftarrow> upd_conn a (\<lambda>c. c\<lparr>nc_state := NETCONN_NONE\<rparr>) s;
              s \<leftarrow> free_api_msg m s;
              get_err a s
            }
        })"

definition netconn_err :: "u32 \<Rightarrow> 'a api_world_scheme \<Rightarrow> err_t option" where
  "netconn_err cn s = map_option nc_err (netconns s cn)"

end
