(* ===== verification/Sockets.thy ===== *)
theory Sockets
  imports Api_Lib
begin

text \<open>
  The socket functions (\<^verbatim>\<open>lwtcp/sockets.c\<close>): a table of ten sockets, each with its connection and with the data
  that the last read left over. Accesses outside the table and to released or NULL objects are the
  fault \<open>None\<close>. The address of a local variable that a function passes on is an argument of the function.
\<close>

subsection \<open>The code\<close>

abbreviation NUM_SOCKETS :: int where "NUM_SOCKETS \<equiv> 10"
abbreviation ERR_ARG :: err_t where "ERR_ARG \<equiv> - 8"

record lwip_socket_t =
  sk_conn :: "u32 option"
  sk_lastdata :: "u32 option"
  sk_lastoffset :: u16

record sock_world = api_world +
  sockets :: "lwip_socket_t list"

definition sock_at :: "int \<Rightarrow> 'a sock_world_scheme \<Rightarrow> lwip_socket_t option" where
  "sock_at i s = (if 0 \<le> i \<and> i < int (length (sockets s)) then Some (sockets s ! nat i) else None)"

definition upd_sock :: "int \<Rightarrow> (lwip_socket_t \<Rightarrow> lwip_socket_t) \<Rightarrow> 'a sock_world_scheme \<Rightarrow> 'a sock_world_scheme" where
  "upd_sock i f s = s\<lparr>sockets := (sockets s)[nat i := f (sockets s ! nat i)]\<rparr>"

text \<open>\<open>get_socket\<close>: the result \<open>Some None\<close> is NULL.\<close>

definition get_socket :: "int \<Rightarrow> 'a sock_world_scheme \<Rightarrow> lwip_socket_t option option" where
  "get_socket i s =
     (if i > NUM_SOCKETS then Some None
      else do {
        sock \<leftarrow> sock_at i s;
        Some (if sk_conn sock = None then None else Some sock)
      })"

fun alloc_loop :: "u32 option \<Rightarrow> nat \<Rightarrow> lwip_socket_t list \<Rightarrow> int \<times> lwip_socket_t list" where
  "alloc_loop newconn i [] = (- 1, [])"
| "alloc_loop newconn i (k # ks) =
     (if sk_conn k = None then (int i, \<lparr>sk_conn = newconn, sk_lastdata = None, sk_lastoffset = 0\<rparr> # ks)
      else let (r, ks) = alloc_loop newconn (Suc i) ks in (r, k # ks))"

definition alloc_socket :: "u32 option \<Rightarrow> 'a sock_world_scheme \<Rightarrow> int \<times> 'a sock_world_scheme" where
  "alloc_socket newconn s = (let (r, ks) = alloc_loop newconn 0 (sockets s) in (r, s\<lparr>sockets := ks\<rparr>))"

text \<open>The members of \<^verbatim>\<open>struct sockaddr_in\<close>.\<close>

abbreviation sin_port :: "u32 \<Rightarrow> u32" where "sin_port a \<equiv> a + 2"
abbreviation sin_addr :: "u32 \<Rightarrow> u32" where "sin_addr a \<equiv> a + 4"

definition lwip_accept ::
  "('a sock_world_scheme \<Rightarrow> 'a sock_world_scheme option) \<Rightarrow> u32 \<Rightarrow> int \<Rightarrow> u32 \<Rightarrow> 'a sock_world_scheme \<Rightarrow> (int \<times> 'a sock_world_scheme) option" where
  "lwip_accept W ram_addr i addr s = do {
     r \<leftarrow> get_socket i s;
     case r of
       None \<Rightarrow> Some (- 1, s)
     | Some sock \<Rightarrow> do {
         (newconn, s) \<leftarrow> netconn_accept W (sk_conn sock) s;
         a \<leftarrow> newconn;
         ((naddr, port), s) \<leftarrow> netconn_peer a s;
         ip \<leftarrow> load_ip naddr s;
         let s = upd_mem (st32 (sin_addr addr) ip) s;
         let s = upd_mem (st16 (sin_port addr) port) s;
         let (newsock, s) = alloc_socket newconn s;
         if newsock = - 1 then do {
           (e, s) \<leftarrow> netconn_delete W ram_addr newconn s;
           Some (newsock, s)
         }
         else Some (newsock, s)
       }
   }"

text \<open>\<open>lwip_bind\<close> and \<open>lwip_connect\<close> copy the address to a local variable, at \<open>remote_addr\<close>.\<close>

definition lwip_bind ::
  "('a sock_world_scheme \<Rightarrow> 'a sock_world_scheme option) \<Rightarrow> u32 \<Rightarrow> int \<Rightarrow> u32 \<Rightarrow> 'a sock_world_scheme \<Rightarrow> (int \<times> 'a sock_world_scheme) option" where
  "lwip_bind W remote_addr i name s = do {
     r \<leftarrow> get_socket i s;
     case r of
       None \<Rightarrow> Some (- 1, s)
     | Some sock \<Rightarrow> do {
         let s = upd_mem (\<lambda>m. st32 remote_addr (ld32 (sin_addr name) m) m) s;
         let remote_port = ld16 (sin_port name) (mem8 s);
         (err, s) \<leftarrow> netconn_bind W (sk_conn sock) (Some (IP_MEM remote_addr)) (ntohs remote_port) s;
         Some (if err \<noteq> ERR_OK then - 1 else 0, s)
       }
   }"

definition lwip_close ::
  "('a sock_world_scheme \<Rightarrow> 'a sock_world_scheme option) \<Rightarrow> u32 \<Rightarrow> int \<Rightarrow> 'a sock_world_scheme \<Rightarrow> (int \<times> 'a sock_world_scheme) option" where
  "lwip_close W ram_addr i s = do {
     r \<leftarrow> get_socket i s;
     case r of
       None \<Rightarrow> Some (- 1, s)
     | Some sock \<Rightarrow> do {
         (e, s) \<leftarrow> netconn_delete W ram_addr (sk_conn sock) s;
         sock \<leftarrow> sock_at i s;
         s \<leftarrow> (if sk_lastdata sock \<noteq> None then netbuf_delete ram_addr (sk_lastdata sock) s else Some s);
         Some (0, upd_sock i (\<lambda>k. k\<lparr>sk_lastdata := None, sk_lastoffset := 0, sk_conn := None\<rparr>) s)
       }
   }"

definition lwip_connect ::
  "('a sock_world_scheme \<Rightarrow> 'a sock_world_scheme option) \<Rightarrow> u32 \<Rightarrow> int \<Rightarrow> u32 \<Rightarrow> 'a sock_world_scheme \<Rightarrow> (int \<times> 'a sock_world_scheme) option" where
  "lwip_connect W remote_addr i name s = do {
     r \<leftarrow> get_socket i s;
     case r of
       None \<Rightarrow> Some (- 1, s)
     | Some sock \<Rightarrow> do {
         let s = upd_mem (\<lambda>m. st32 remote_addr (ld32 (sin_addr name) m) m) s;
         let remote_port = ld16 (sin_port name) (mem8 s);
         (err, s) \<leftarrow> netconn_connect W (sk_conn sock) (Some (IP_MEM remote_addr)) (ntohs remote_port) s;
         Some (if err \<noteq> ERR_OK then - 1 else 0, s)
       }
   }"

definition lwip_listen ::
  "('a sock_world_scheme \<Rightarrow> 'a sock_world_scheme option) \<Rightarrow> int \<Rightarrow> int \<Rightarrow> 'a sock_world_scheme \<Rightarrow> (int \<times> 'a sock_world_scheme) option" where
  "lwip_listen W i backlog s = do {
     r \<leftarrow> get_socket i s;
     case r of
       None \<Rightarrow> Some (- 1, s)
     | Some sock \<Rightarrow> do {
         (err, s) \<leftarrow> netconn_listen W (sk_conn sock) s;
         Some (if err \<noteq> ERR_OK then - 1 else 0, s)
       }
   }"

text \<open>
  Reading. The copy and what is kept for the next read; then the sender's address, which is asked
  from the netbuf also when it has just been released.
\<close>

definition recv_copy :: "u32 \<Rightarrow> int \<Rightarrow> u32 \<Rightarrow> u32 \<Rightarrow> int \<Rightarrow> 'a sock_world_scheme \<Rightarrow> (u16 \<times> 'a sock_world_scheme) option" where
  "recv_copy ram_addr i buf mem len s = do {
     sock \<leftarrow> sock_at i s;
     n \<leftarrow> netbuf_len buf s;
     let buflen = n - sk_lastoffset sock;
     let copylen = (if len > uint buflen then buflen else word_of_int len);
     s \<leftarrow> netbuf_copy_partial (Some buf) mem copylen (sk_lastoffset sock) s;
     cn \<leftarrow> sk_conn sock;
     t \<leftarrow> netconn_type_of cn s;
     if t = NETCONN_TCP \<and> uint buflen - uint copylen > 0 then
       Some (copylen, upd_sock i (\<lambda>k. k\<lparr>sk_lastdata := Some buf, sk_lastoffset := sk_lastoffset k + copylen\<rparr>) s)
     else do {
       s \<leftarrow> netbuf_delete ram_addr (Some buf) (upd_sock i (\<lambda>k. k\<lparr>sk_lastdata := None, sk_lastoffset := 0\<rparr>) s);
       Some (copylen, s)
     }
   }"

definition recv_from :: "u32 \<Rightarrow> u32 option \<Rightarrow> u32 option \<Rightarrow> 'a sock_world_scheme \<Rightarrow> 'a sock_world_scheme option" where
  "recv_from buf from fromlen s =
     (case (from, fromlen) of
        (Some f, Some fl) \<Rightarrow> do {
          addr \<leftarrow> netbuf_fromaddr buf s;
          port \<leftarrow> netbuf_fromport buf s;
          a \<leftarrow> addr;
          let s = upd_mem (\<lambda>m. st32 (sin_addr f) (ld32 a m) m) s;
          let s = upd_mem (st16 (sin_port f) (htons port)) s;
          Some (upd_mem (st32 fl 16) s)
        }
      | _ \<Rightarrow> Some s)"

definition lwip_recvfrom ::
  "('a sock_world_scheme \<Rightarrow> 'a sock_world_scheme option) \<Rightarrow> u32 \<Rightarrow> netbuf \<Rightarrow> int \<Rightarrow> u32 \<Rightarrow> int \<Rightarrow> u32 option \<Rightarrow> u32 option \<Rightarrow> 'a sock_world_scheme \<Rightarrow> (int \<times> 'a sock_world_scheme) option" where
  "lwip_recvfrom W ram_addr junk i mem len from fromlen s = do {
     r \<leftarrow> get_socket i s;
     case r of
       None \<Rightarrow> Some (- 1, s)
     | Some sock \<Rightarrow> do {
         (buf, s) \<leftarrow> (if sk_lastdata sock \<noteq> None then Some (sk_lastdata sock, s)
                      else netconn_recv W junk (sk_conn sock) s);
         case buf of
           None \<Rightarrow> Some (0, s)
         | Some b \<Rightarrow> do {
             (copylen, s) \<leftarrow> recv_copy ram_addr i b mem len s;
             s \<leftarrow> recv_from b from fromlen s;
             Some (if len > uint copylen then uint copylen else len, s)
           }
       }
   }"

definition lwip_recv where
  "lwip_recv W ram_addr junk i mem len s = lwip_recvfrom W ram_addr junk i mem len None None s"

definition lwip_read where
  "lwip_read W ram_addr junk i mem len s = lwip_recv W ram_addr junk i mem len s"

definition lwip_send ::
  "('a sock_world_scheme \<Rightarrow> 'a sock_world_scheme option) \<Rightarrow> u32 \<Rightarrow> netbuf \<Rightarrow> int \<Rightarrow> u32 \<Rightarrow> int \<Rightarrow> 'a sock_world_scheme \<Rightarrow> (int \<times> 'a sock_world_scheme) option" where
  "lwip_send W ram_addr junk i data sz s = do {
     r \<leftarrow> get_socket i s;
     case r of
       None \<Rightarrow> Some (- 1, s)
     | Some sock \<Rightarrow> do {
         cn \<leftarrow> sk_conn sock;
         t \<leftarrow> netconn_type_of cn s;
         case t of
           NETCONN_UDP \<Rightarrow> do {
             (buf, s) \<leftarrow> netbuf_new junk s;
             case buf of
               None \<Rightarrow> Some (- 1, s)
             | Some b \<Rightarrow> do {
                 s \<leftarrow> netbuf_ref ram_addr b data (word_of_int sz) s;
                 (err, s) \<leftarrow> netconn_send W (Some cn) b s;
                 s \<leftarrow> netbuf_delete ram_addr buf s;
                 Some (if err \<noteq> ERR_OK then - 1 else sz, s)
               }
           }
         | NETCONN_TCP \<Rightarrow> do {
             (err, s) \<leftarrow> netconn_write W (Some cn) data (word_of_int sz) 1 s;
             Some (if err \<noteq> ERR_OK then - 1 else sz, s)
           }
         | _ \<Rightarrow> Some (if ERR_ARG \<noteq> ERR_OK then - 1 else sz, s)
       }
   }"

definition lwip_sendto ::
  "('a sock_world_scheme \<Rightarrow> 'a sock_world_scheme option) \<Rightarrow> u32 \<Rightarrow> netbuf \<Rightarrow> u32 \<Rightarrow> int \<Rightarrow> u32 \<Rightarrow> int \<Rightarrow> u32 \<Rightarrow> 'a sock_world_scheme \<Rightarrow> (int \<times> 'a sock_world_scheme) option" where
  "lwip_sendto W ram_addr junk remote_addr i data sz to s = do {
     r \<leftarrow> get_socket i s;
     case r of
       None \<Rightarrow> Some (- 1, s)
     | Some sock \<Rightarrow> do {
         cn \<leftarrow> sk_conn sock;
         ((addr, port), s) \<leftarrow> netconn_peer cn s;
         let s = upd_mem (\<lambda>m. st32 remote_addr (ld32 (sin_addr to) m) m) s;
         let remote_port = ld16 (sin_port to) (mem8 s);
         (e, s) \<leftarrow> netconn_connect W (Some cn) (Some (IP_MEM remote_addr)) remote_port s;
         (ret, s) \<leftarrow> lwip_send W ram_addr junk i data sz s;
         (e, s) \<leftarrow> netconn_connect W (Some cn) (Some addr) port s;
         Some (ret, s)
       }
   }"

text \<open>The constants of the socket types on Linux.\<close>

abbreviation SOCK_STREAM :: int where "SOCK_STREAM \<equiv> 1"
abbreviation SOCK_DGRAM :: int where "SOCK_DGRAM \<equiv> 2"

definition new_socket ::
  "('a sock_world_scheme \<Rightarrow> 'a sock_world_scheme option) \<Rightarrow> u32 \<Rightarrow> netconn \<Rightarrow> netconn_type \<Rightarrow> 'a sock_world_scheme \<Rightarrow> (int \<times> 'a sock_world_scheme) option" where
  "new_socket W ram_addr junk t s = do {
     (cn, s) \<leftarrow> netconn_new junk t s;
     if cn = None then Some (- 1, s)
     else do {
       let (i, s) = alloc_socket cn s;
       if i = - 1 then do {
         (e, s) \<leftarrow> netconn_delete W ram_addr cn s;
         Some (i, s)
       }
       else Some (i, s)
     }
   }"

definition lwip_socket ::
  "('a sock_world_scheme \<Rightarrow> 'a sock_world_scheme option) \<Rightarrow> u32 \<Rightarrow> netconn \<Rightarrow> int \<Rightarrow> int \<Rightarrow> int \<Rightarrow> 'a sock_world_scheme \<Rightarrow> (int \<times> 'a sock_world_scheme) option" where
  "lwip_socket W ram_addr junk domain type protocol s =
     (if type = SOCK_DGRAM then new_socket W ram_addr junk NETCONN_UDP s
      else if type = SOCK_STREAM then new_socket W ram_addr junk NETCONN_TCP s
      else Some (- 1, s))"

definition lwip_write ::
  "('a sock_world_scheme \<Rightarrow> 'a sock_world_scheme option) \<Rightarrow> u32 \<Rightarrow> netbuf \<Rightarrow> int \<Rightarrow> u32 \<Rightarrow> int \<Rightarrow> 'a sock_world_scheme \<Rightarrow> (int \<times> 'a sock_world_scheme) option" where
  "lwip_write W ram_addr junk i data sz s = do {
     r \<leftarrow> get_socket i s;
     case r of
       None \<Rightarrow> Some (- 1, s)
     | Some sock \<Rightarrow> do {
         cn \<leftarrow> sk_conn sock;
         t \<leftarrow> netconn_type_of cn s;
         case t of
           NETCONN_UDP \<Rightarrow> lwip_send W ram_addr junk i data sz s
         | NETCONN_TCP \<Rightarrow> do {
             (err, s) \<leftarrow> netconn_write W (Some cn) data (word_of_int sz) 1 s;
             Some (if err \<noteq> ERR_OK then - 1 else sz, s)
           }
         | _ \<Rightarrow> Some (if ERR_ARG \<noteq> ERR_OK then - 1 else sz, s)
       }
   }"

end
