(* ===== verification/Api_Call.thy ===== *)
theory Api_Call
  imports Sockets
begin

text \<open>
  A call of the sequential API from beginning to end: the application posts its request and blocks, the
  transport thread takes it from its mailbox, runs the handler and answers, and the application goes on.
\<close>

subsection \<open>Pools and mailboxes\<close>

abbreviation unlocked :: "'a memp_state_scheme \<Rightarrow> bool" where
  "unlocked s \<equiv> sem_c (memp_mutex s) = 1"

lemma memp_lock_unlocked:
  assumes "unlocked s"
  shows "\<exists>sem. memp_lock s = Some (s\<lparr>memp_mutex := sem\<rparr>) \<and> sys_sem_signal sem = memp_mutex s"
  using mutex_cycle [OF assms] by (auto simp: memp_lock_def)

lemma memp_mallocp_eq:
  assumes "unlocked s"
  shows "memp_mallocp t s = Some (memp_malloc t s)"
proof -
  obtain sem where l: "memp_lock s = Some (s\<lparr>memp_mutex := sem\<rparr>)" "sys_sem_signal sem = memp_mutex s"
    using memp_lock_unlocked [OF assms] by blast
  show ?thesis
    by (simp add: memp_mallocp_def l memp_malloc_def memp_stat_upd_def memp_unlock_def Let_def split: option.split)
qed

lemma memp_freep_eq:
  assumes "unlocked s"
  shows "memp_freep t p s = Some (memp_free t p s)"
proof -
  obtain sem where l: "memp_lock s = Some (s\<lparr>memp_mutex := sem\<rparr>)" "sys_sem_signal sem = memp_mutex s"
    using memp_lock_unlocked [OF assms] by blast
  show ?thesis
    by (simp add: memp_freep_def l memp_free_def memp_stat_upd_def memp_unlock_def Let_def split: option.split)
qed

text \<open>The pools do not touch the rest of the world, and the reverse.\<close>

lemma memp_malloc_keeps:
  assumes "memp_malloc t s = (r, s')"
  shows "memp_mutex s' = memp_mutex s" "netconns s' = netconns s" "mboxes s' = mboxes s" "api_msgs s' = api_msgs s"
    "transport_msgs s' = transport_msgs s" "transport_mbox s' = transport_mbox s" "upcbs s' = upcbs s" "udp_pcbs s' = udp_pcbs s"
    "mem8 s' = mem8 s" "netbufs s' = netbufs s" "pbufs s' = pbufs s"
    "t' \<noteq> t \<Longrightarrow> memp_tab s' t' = memp_tab s t'" "fresh s' = fresh s" "sems s' = sems s"
  using assms by (auto simp: memp_malloc_def memp_stat_upd_def Let_def split: option.splits)

lemma memp_free_keeps [simp]:
  "memp_mutex (memp_free t r s) = memp_mutex s" "netconns (memp_free t r s) = netconns s" "mboxes (memp_free t r s) = mboxes s"
  "api_msgs (memp_free t r s) = api_msgs s" "transport_msgs (memp_free t r s) = transport_msgs s"
  "transport_mbox (memp_free t r s) = transport_mbox s" "upcbs (memp_free t r s) = upcbs s" "udp_pcbs (memp_free t r s) = udp_pcbs s"
  by (simp_all add: memp_free_def memp_stat_upd_def Let_def split: option.split)

lemma memp_holds_api [simp]:
  "memp_holds (s\<lparr>netconns := nc\<rparr>) A = memp_holds s A" "memp_holds (s\<lparr>mboxes := mb\<rparr>) A = memp_holds s A"
  "memp_holds (s\<lparr>api_msgs := am\<rparr>) A = memp_holds s A" "memp_holds (s\<lparr>transport_msgs := tm\<rparr>) A = memp_holds s A"
  by (simp_all add: memp_holds_def memp_ok_def pool_ok_def memp_nx_def)

lemma malloc_some:
  assumes "memp_holds s A" "memp_tab s t \<noteq> None"
  obtains p s' where "memp_malloc t s = (Some p, s')" "(t, p) \<notin> A" "memp_holds s' (insert (t, p) A)"
proof -
  obtain p s' where m: "memp_malloc t s = (Some p, s')" using assms(2) by (auto simp: memp_malloc_def Let_def)
  then show ?thesis using memp.alloc_ok [OF assms(1), of t] by (intro that [OF m]) auto
qed

lemma free_holds: "memp_holds s A \<Longrightarrow> (t, p) \<in> A \<Longrightarrow> memp_holds (memp_free t (Some p) s) (A - {(t, p)})"
  using memp.free_ok [of s A "(t, p)"] by simp

text \<open>A mailbox with the messages \<open>xs\<close>.\<close>

definition box :: "'a api_world_scheme \<Rightarrow> u32 \<Rightarrow> u32 option list \<Rightarrow> bool" where
  "box s a xs \<longleftrightarrow> (\<exists>m. mboxes s a = Some m \<and> mbox_rep m xs)"

lemma post_mbox_box:
  assumes "box s a xs" "length xs < 99"
  shows "\<exists>m. post_mbox (Some a) x s = Some (s\<lparr>mboxes := (mboxes s)(a \<mapsto> m)\<rparr>) \<and> mbox_rep m (xs @ [x]) \<and> (xs = [] \<longrightarrow> sem_c (mbox_mail m) = 1)"
proof -
  obtain m where m: "mboxes s a = Some m" "mbox_rep m xs" using assms(1) by (auto simp: box_def)
  then have "sem_ok (mbox_mail m)" by (simp add: mbox_rep_def)
  with m sys_mbox_post_rep [OF m(2) assms(2), of x] show ?thesis by (auto simp: post_mbox_def sys_sem_signal_c)
qed

lemma look_serves:
  assumes "transport_mbox s = Some tb" "box s tb (Some tm # xs)"
  shows "\<exists>m. mbox_rep m xs \<and> transport_look A s = transport_serve A tm (s\<lparr>mboxes := (mboxes s)(tb \<mapsto> m)\<rparr>)"
proof -
  obtain m where m: "mboxes s tb = Some m" "mbox_rep m (Some tm # xs)" using assms(2) by (auto simp: box_def)
  with mbox_fetch_pass_rep [OF m(2)] assms(1) show ?thesis by (auto simp: transport_look_def)
qed

lemma fetch_wait_some:
  assumes "box s a (x # xs)"
  shows "\<exists>m. fetch_wait W (Some a) s = Some (x, s\<lparr>mboxes := (mboxes s)(a \<mapsto> m)\<rparr>) \<and> mbox_rep m xs"
proof -
  obtain m where m: "mboxes s a = Some m" "mbox_rep m (x # xs)" using assms by (auto simp: box_def)
  with mbox_fetch_pass_rep [OF m(2)] show ?thesis by (subst fetch_wait.simps) auto
qed

lemma fetch_wait_blocks:
  assumes "mboxes s a = Some m" "mbox_rep m []" "sem_c (mbox_mail m) = 0"
  shows "\<exists>m'. mbox_rep m' [] \<and> sem_c (mbox_mail m') = 0 \<and>
    fetch_wait W (Some a) s = do { s \<leftarrow> W (s\<lparr>mboxes := (mboxes s)(a \<mapsto> m')\<rparr>); s \<leftarrow> mail_wait W a s; fetch_wait W (Some a) s }"
proof -
  obtain m' where m': "mbox_fetch_pass m = Some (None, m')" "mbox_rep m' []" "mbox_mail m' = mbox_mail m"
    using mbox_fetch_pass_rep [OF assms(2)] by auto
  let ?s = "s\<lparr>mboxes := (mboxes s)(a \<mapsto> m')\<rparr>"
  have "mail_wait W a ?s = do { s \<leftarrow> W ?s; mail_wait W a s }"
    using m'(3) assms(3) by (subst mail_wait.simps) (simp add: sys_arch_sem_wait_nil)
  then have "fetch_wait W (Some a) s = do { s \<leftarrow> W ?s; s \<leftarrow> mail_wait W a s; fetch_wait W (Some a) s }"
    using assms(1) m'(1) by (subst fetch_wait.simps) (simp add: Option.bind_assoc)
  with m' assms(3) show ?thesis by auto
qed

lemma fetch_wait_empty:
  assumes "box s a []"
  shows "\<exists>m'. mbox_rep m' [] \<and> sem_c (mbox_mail m') = 0 \<and>
    fetch_wait W (Some a) s = do { s \<leftarrow> W (s\<lparr>mboxes := (mboxes s)(a \<mapsto> m')\<rparr>); s \<leftarrow> mail_wait W a s; fetch_wait W (Some a) s }"
proof -
  obtain m where m: "mboxes s a = Some m" "mbox_rep m []" using assms by (auto simp: box_def)
  show ?thesis
  proof (cases "sem_c (mbox_mail m) = 0")
    case True
    with fetch_wait_blocks [OF m] show ?thesis by blast
  next
    case False
    obtain m1 where m1: "mbox_fetch_pass m = Some (None, m1)" "mbox_rep m1 []" "mbox_mail m1 = mbox_mail m"
      using mbox_fetch_pass_rep [OF m(2)] by auto
    let ?m2 = "m1\<lparr>mbox_mail := (mbox_mail m)\<lparr>sem_c := sem_c (mbox_mail m) - 1\<rparr>\<rparr>"
    have "sem_c (mbox_mail m) = 1" using m(2) False by (simp add: mbox_rep_def sem_ok_def word_le_unat) (metis One_nat_def le_SucE le_zero_eq unat_1 unat_eq_zero word_unat_eq_iff)
    then have m2: "mbox_rep ?m2 []" "sem_c (mbox_mail ?m2) = 0" using m1(2) by (simp_all add: mbox_rep_def sem_ok_def)
    have "mail_wait W a (s\<lparr>mboxes := (mboxes s)(a \<mapsto> m1)\<rparr>) = Some (s\<lparr>mboxes := (mboxes s)(a \<mapsto> ?m2)\<rparr>)"
      using m1(3) False by (subst mail_wait.simps) (simp add: sys_arch_sem_wait_nil)
    then have "fetch_wait W (Some a) s = fetch_wait W (Some a) (s\<lparr>mboxes := (mboxes s)(a \<mapsto> ?m2)\<rparr>)"
      using m(1) m1(1) by (subst fetch_wait.simps) simp
    then show ?thesis using fetch_wait_blocks [OF _ m2, of "s\<lparr>mboxes := (mboxes s)(a \<mapsto> ?m2)\<rparr>" a] by simp
  qed
qed

lemma mail_then_fetch:
  assumes "mboxes s a = Some m" "mbox_rep m (x # xs)" "sem_c (mbox_mail m) = 1"
  shows "\<exists>m'. mbox_rep m' xs \<and> do { s \<leftarrow> mail_wait W a s; fetch_wait W (Some a) s } = Some (x, s\<lparr>mboxes := (mboxes s)(a \<mapsto> m')\<rparr>)"
proof -
  let ?m = "m\<lparr>mbox_mail := (mbox_mail m)\<lparr>sem_c := 0\<rparr>\<rparr>"
  have "box (s\<lparr>mboxes := (mboxes s)(a \<mapsto> ?m)\<rparr>) a (x # xs)" using assms(2) by (simp add: box_def mbox_rep_def sem_ok_def)
  moreover have "mail_wait W a s = Some (s\<lparr>mboxes := (mboxes s)(a \<mapsto> ?m)\<rparr>)"
    using assms(1,3) by (subst mail_wait.simps) (simp add: sys_arch_sem_wait_nil)
  ultimately show ?thesis using fetch_wait_some [of "s\<lparr>mboxes := (mboxes s)(a \<mapsto> ?m)\<rparr>" a x xs W] by auto
qed

subsection \<open>A request from beginning to end\<close>

text \<open>The world after the answer: both messages are released and the answer is taken from the mailbox \<open>b\<close>.\<close>

definition answered :: "u32 \<Rightarrow> u32 \<Rightarrow> u32 \<Rightarrow> (u32 option) sys_mbox \<Rightarrow> 'a api_world_scheme \<Rightarrow> 'a api_world_scheme" where
  "answered am tm b m s =
     (let s = memp_free MEMP_TCP_MSG (Some tm) s;
          s = s\<lparr>transport_msgs := (transport_msgs s)(tm := None)\<rparr>;
          s = s\<lparr>mboxes := (mboxes s)(b \<mapsto> m)\<rparr>;
          s = memp_free MEMP_API_MSG (Some am) s
      in s\<lparr>api_msgs := (api_msgs s)(am := None)\<rparr>)"

text \<open>The world in which the handler runs, and what it has to do: post the answer.\<close>

definition in_handler :: "u32 \<Rightarrow> u32 \<Rightarrow> (u32 \<rightharpoonup> (u32 option) sys_mbox) \<Rightarrow> 'a api_world_scheme \<Rightarrow> 'a api_world_scheme" where
  "in_handler am tm B s = s\<lparr>transport_msgs := (transport_msgs s)(tm \<mapsto> TCP_MSG_API am), mboxes := B\<rparr>"

definition answers :: "u32 \<Rightarrow> (u32 \<rightharpoonup> (u32 option) sys_mbox) \<Rightarrow> 'a api_world_scheme \<Rightarrow> bool" where
  "answers b B s \<longleftrightarrow> (\<exists>m. mboxes s = B(b \<mapsto> m) \<and> mbox_rep m [None] \<and> sem_c (mbox_mail m) = 1) \<and> unlocked s"

lemma api_request_served:
  assumes unl: "unlocked s" and am: "memp_malloc MEMP_API_MSG s = (Some am, s1)"
    and tm: "memp_malloc MEMP_TCP_MSG (put_api_msg am t cn args s1) = (Some tm, s2)"
    and c: "netconns s cn = Some c" "nc_mbox c = Some b"
    and tb: "transport_mbox s = Some tb" "tb \<noteq> b" "box s b []" "box s tb []"
    and h: "\<And>B. (\<exists>m. B b = Some m \<and> mbox_rep m []) \<Longrightarrow>
      \<exists>s4. decode A t \<lparr>am_conn = cn, am_msg = args\<rparr> (in_handler am tm B s2) = Some s4 \<and> answers b B s4 \<and> P s4"
  shows "\<exists>s4 m. api_request (transport_look A) t cn args s = Some (True, answered am tm b m s4) \<and> P s4 \<and> mbox_rep m [] \<and>
    (\<exists>m'. mboxes s4 tb = Some m' \<and> mbox_rep m' []) \<and> (\<forall>x. x \<noteq> b \<and> x \<noteq> tb \<longrightarrow> mboxes s4 x = mboxes s x)"
proof -
  let ?p = "put_api_msg am t cn args s1"
  have keep1: "memp_mutex ?p = memp_mutex s" "netconns ?p = netconns s" "mboxes ?p = mboxes s" "transport_mbox ?p = transport_mbox s"
      "transport_msgs ?p = transport_msgs s" "api_msgs ?p = (api_msgs s)(am \<mapsto> \<lparr>am_type = t, am_body = \<lparr>am_conn = cn, am_msg = args\<rparr>\<rparr>)"
    using memp_malloc_keeps [OF am] by (simp_all add: put_api_msg_def)
  have keep2: "memp_mutex s2 = memp_mutex s" "netconns s2 = netconns s" "mboxes s2 = mboxes s" "transport_mbox s2 = transport_mbox s"
      "api_msgs s2 = (api_msgs s)(am \<mapsto> \<lparr>am_type = t, am_body = \<lparr>am_conn = cn, am_msg = args\<rparr>\<rparr>)"
    using memp_malloc_keeps [OF tm] keep1 by simp_all
  let ?t = "s2\<lparr>transport_msgs := (transport_msgs s2)(tm \<mapsto> TCP_MSG_API am)\<rparr>"
  have "box ?t tb []" using tb(4) keep2 by (simp add: box_def)
  then obtain mt where post: "post_mbox (Some tb) (Some tm) ?t = Some (?t\<lparr>mboxes := (mboxes ?t)(tb \<mapsto> mt)\<rparr>)" "mbox_rep mt [Some tm]"
    using post_mbox_box [of ?t tb "[]" "Some tm"] by auto
  let ?u = "?t\<lparr>mboxes := (mboxes s)(tb \<mapsto> mt)\<rparr>"
  have posted: "api_msg_post am ?p = Some ?u"
    using post(1) unl tb(1) keep1 keep2 by (simp add: api_msg_post_def transport_apimsg_def memp_mallocp_eq tm)
  have "box ?u b []" using tb by (simp add: box_def)
  then obtain mb where mb: "mbox_rep mb []" and wait: "fetch_wait (transport_look A) (Some b) ?u =
      do { s \<leftarrow> transport_look A (?u\<lparr>mboxes := (mboxes ?u)(b \<mapsto> mb)\<rparr>); s \<leftarrow> mail_wait (transport_look A) b s; fetch_wait (transport_look A) (Some b) s }"
    using fetch_wait_empty [of ?u b "transport_look A"] by blast
  let ?v = "?u\<lparr>mboxes := (mboxes ?u)(b \<mapsto> mb)\<rparr>"
  have "box ?v tb [Some tm]" "transport_mbox ?v = Some tb" using post(2) tb keep2 by (simp_all add: box_def)
  then obtain mt' where mt': "mbox_rep mt' []" "transport_look A ?v = transport_serve A tm (?v\<lparr>mboxes := (mboxes ?v)(tb \<mapsto> mt')\<rparr>)"
    using look_serves [of ?v tb tm "[]" A] by blast
  let ?B = "(mboxes s)(tb \<mapsto> mt, b \<mapsto> mb, tb \<mapsto> mt')"
  have "?v\<lparr>mboxes := (mboxes ?v)(tb \<mapsto> mt')\<rparr> = in_handler am tm ?B s2" by (simp add: in_handler_def)
  with mt' have look: "transport_look A ?v = transport_serve A tm (in_handler am tm ?B s2)" by (simp only:)
  have "\<exists>m. ?B b = Some m \<and> mbox_rep m []" using mb tb(2) by simp
  then obtain s4 where s4: "decode A t \<lparr>am_conn = cn, am_msg = args\<rparr> (in_handler am tm ?B s2) = Some s4" "answers b ?B s4" "P s4"
    using h [of ?B] by blast
  then obtain m4 where m4: "mboxes s4 = ?B(b \<mapsto> m4)" "mbox_rep m4 [None]" "sem_c (mbox_mail m4) = 1" and unl4: "unlocked s4"
    by (auto simp: answers_def)
  let ?w = "memp_free MEMP_TCP_MSG (Some tm) s4"
  let ?x = "?w\<lparr>transport_msgs := (transport_msgs ?w)(tm := None)\<rparr>"
  have serve: "transport_serve A tm (in_handler am tm ?B s2) = Some ?x"
    using s4(1) unl4 keep2 by (simp add: transport_serve_def api_msg_input_def free_transport_msg_def memp_freep_eq in_handler_def)
  obtain m where m: "mbox_rep m []" "do { s \<leftarrow> mail_wait (transport_look A) b ?x; fetch_wait (transport_look A) (Some b) s } =
      Some (None, ?x\<lparr>mboxes := (mboxes ?x)(b \<mapsto> m)\<rparr>)"
    using mail_then_fetch [of ?x b m4 None "[]" "transport_look A"] m4 by auto
  have "post_and_wait (transport_look A) cn am ?p = Some (?x\<lparr>mboxes := (mboxes ?x)(b \<mapsto> m)\<rparr>)"
    using posted wait look serve m(2) c keep2 by (simp add: post_and_wait_def)
  then have "api_request (transport_look A) t cn args s = Some (True, answered am tm b m s4)"
    using am unl unl4 by (simp add: api_request_def memp_mallocp_eq free_api_msg_def memp_freep_eq answered_def Let_def)
  moreover have "mboxes s4 tb = Some mt'" using m4(1) tb(2) by simp
  ultimately show ?thesis using m(1) mt'(1) s4(3) m4(1) by fastforce
qed

end
