(* ===== verification/Api_Udp.thy ===== *)
theory Api_Udp
  imports Api_Call
begin

text \<open>Making and binding a UDP connection through the sequential API.\<close>

lemma udp_register_frame: "udp_register p s = Some s' \<Longrightarrow> s' = s\<lparr>upcbs := upcbs s', udp_pcbs := udp_pcbs s'\<rparr>"
  by (auto simp: udp_register_def upd_upcb_def split: bind_splits option.splits if_splits)

lemma udp_bind_frame: "udp_bind p ip port s = Some (e, s') \<Longrightarrow> s' = s\<lparr>upcbs := upcbs s', udp_pcbs := udp_pcbs s'\<rparr>"
  by (auto simp: udp_bind_def upd_upcb_def split: bind_splits option.splits dest!: udp_register_frame)

definition bound_udp :: "u32 \<Rightarrow> netconn_type \<Rightarrow> u32 \<Rightarrow> u16 \<Rightarrow> u32 option \<Rightarrow> udp_pcb" where
  "bound_udp cn t ip port n = udp_zero\<lparr>up_flags := (case udp_type_flags t of None \<Rightarrow> 0 | Some f \<Rightarrow> f),
     up_recv := Some FN_RECV_UDP, up_recv_arg := cn, up_local_ip := ip, up_local_port := port, up_next := n\<rparr>"

lemma setup_udp_eq:
  assumes "upcbs s p = Some udp_zero"
  shows "setup_udp cn p t s = Some (s\<lparr>upcbs := (upcbs s)(p \<mapsto> udp_zero\<lparr>up_flags := (case udp_type_flags t of None \<Rightarrow> 0 | Some f \<Rightarrow> f),
     up_recv := Some FN_RECV_UDP, up_recv_arg := cn\<rparr>)\<rparr>)"
  using assms by (simp add: setup_udp_def udp_setflags_def upd_upcb_def udp_recv_def udp_zero_def split: option.split)

lemma udp_ok_netconns [simp]: "udp_ok (s\<lparr>netconns := nc\<rparr>) us A = udp_ok s us A" "udp_ok (s\<lparr>mboxes := mb\<rparr>) us A = udp_ok s us A"
  "udp_ok (s\<lparr>api_msgs := am\<rparr>) us A = udp_ok s us A" "udp_ok (s\<lparr>transport_msgs := tm\<rparr>) us A = udp_ok s us A"
  by (simp_all add: udp_ok_def up_nx_def [abs_def])

lemma do_bind_udp:
  assumes ok: "udp_ok s us A" "memp_tab s MEMP_UDP_PCB \<noteq> None"
    and c: "netconns s cn = Some c" "nc_type c \<noteq> NETCONN_TCP" "nc_pcb c = None" "nc_mbox c = Some b" "box s b []"
  shows "\<exists>p n s'. do_bind E \<lparr>am_conn = cn, am_msg = ARG_BC (Some (IP_MEM a)) port\<rparr> s = Some s' \<and>
    (\<exists>m. mboxes s' = (mboxes s)(b \<mapsto> m) \<and> mbox_rep m [None] \<and> sem_c (mbox_mail m) = 1) \<and> memp_mutex s' = memp_mutex s \<and>
    netconns s' = (netconns s)(cn \<mapsto> c\<lparr>nc_pcb := Some p\<rparr>) \<and> udp_ok s' (p # us) (insert (MEMP_UDP_PCB, p) A) \<and> p \<notin> set us \<and>
    upcbs s' = (upcbs s)(p \<mapsto> bound_udp cn (nc_type c) (ld32 a (mem8 s)) port n) \<and> api_msgs s' = api_msgs s \<and> transport_msgs s' = transport_msgs s \<and>
    transport_mbox s' = transport_mbox s"
proof -
  obtain p s1 where new: "udp_new s = (Some p, s1)" and p: "upcbs s p = None" "upcbs s1 = (upcbs s)(p \<mapsto> udp_zero)" "udp_ok s1 us (insert (MEMP_UDP_PCB, p) A)"
    using udp_new_ok [OF ok(1)] ok(2) by (auto simp: udp_new_def memp_malloc_def Let_def split: option.splits)
  have keep1: "memp_mutex s1 = memp_mutex s" "netconns s1 = netconns s" "mboxes s1 = mboxes s" "api_msgs s1 = api_msgs s"
      "transport_msgs s1 = transport_msgs s" "transport_mbox s1 = transport_mbox s" "mem8 s1 = mem8 s"
    using new memp_malloc_keeps [of MEMP_UDP_PCB s] by (auto simp: udp_new_def split: prod.splits option.splits)
  let ?s2 = "s1\<lparr>netconns := (netconns s)(cn \<mapsto> c\<lparr>nc_pcb := Some p\<rparr>)\<rparr>"
  let ?f = "\<lambda>u :: udp_pcb. u\<lparr>up_flags := (case udp_type_flags (nc_type c) of None \<Rightarrow> 0 | Some f \<Rightarrow> f), up_recv := Some FN_RECV_UDP, up_recv_arg := cn\<rparr>"
  let ?s3 = "?s2\<lparr>upcbs := (upcbs ?s2)(p \<mapsto> ?f udp_zero)\<rparr>"
  have "upcbs ?s2 p = Some udp_zero" "udp_ok ?s2 us (insert (MEMP_UDP_PCB, p) A)" using p by simp_all
  then have s3: "setup_udp cn p (nc_type c) ?s2 = Some ?s3" "udp_ok ?s3 us (insert (MEMP_UDP_PCB, p) A)"
    using setup_udp_eq [of ?s2 p cn "nc_type c"] udp_ok_upd [of ?s2 us _ p udp_zero ?f] by simp_all
  have notin: "p \<notin> set us" using chain_in_dom [OF ok(1)] p(1) by auto
  obtain s4 n where s4: "udp_bind p (Some (ld32 a (mem8 s))) port ?s3 = Some (ERR_OK, s4)" "udp_ok s4 (p # us) (insert (MEMP_UDP_PCB, p) A)"
      "upcbs s4 = (upcbs ?s3)(p \<mapsto> (?f udp_zero)\<lparr>up_local_ip := ld32 a (mem8 s), up_local_port := port, up_next := n\<rparr>)"
    using udp_set_register [OF s3(2), of p "?f udp_zero" "\<lambda>u. u\<lparr>up_local_ip := ld32 a (mem8 s), up_local_port := port\<rparr>"] notin
    by (auto simp: udp_bind_def)
  have frame: "s4 = ?s3\<lparr>upcbs := upcbs s4, udp_pcbs := udp_pcbs s4\<rparr>" using udp_bind_frame [OF s4(1)] .
  have keep4: "netconns s4 = (netconns s)(cn \<mapsto> c\<lparr>nc_pcb := Some p\<rparr>)" "mboxes s4 = mboxes s" "memp_mutex s4 = memp_mutex s" "api_msgs s4 = api_msgs s"
      "transport_msgs s4 = transport_msgs s" "transport_mbox s4 = transport_mbox s"
    by (subst frame, simp add: keep1)+
  have "box s4 b []" using c(5) keep4 by (simp add: box_def)
  then obtain m where m: "post_mbox (Some b) None s4 = Some (s4\<lparr>mboxes := (mboxes s4)(b \<mapsto> m)\<rparr>)" "mbox_rep m [None]" "sem_c (mbox_mail m) = 1"
    using post_mbox_box [of s4 b "[]" None] by auto
  have "do_bind E \<lparr>am_conn = cn, am_msg = ARG_BC (Some (IP_MEM a)) port\<rparr> s = Some (s4\<lparr>mboxes := (mboxes s4)(b \<mapsto> m)\<rparr>)"
    using c new s3(1) s4(1) m(1) keep1 by (simp add: do_bind_def bind_new_def upd_conn_def deref_ip_def)
  then show ?thesis using m s4(2,3) keep4 notin p(2)
    by (intro exI [of _ p] exI [of _ n]) (auto simp: bound_udp_def)
qed

lemma udp_ok_malloc:
  assumes "udp_ok s us A" "memp_tab s t \<noteq> None" "t \<noteq> MEMP_UDP_PCB"
  obtains p s' where "memp_malloc t s = (Some p, s')" "(t, p) \<notin> A" "udp_ok s' us (insert (t, p) A)"
proof -
  have "memp_holds s A" using assms(1) by (simp add: udp_ok_def)
  then obtain p s' where m: "memp_malloc t s = (Some p, s')" "(t, p) \<notin> A" "memp_holds s' (insert (t, p) A)"
    using assms(2) by (rule malloc_some)
  have "upcbs s' = upcbs s" "udp_pcbs s' = udp_pcbs s"
    using m(1) by (auto simp: memp_malloc_def memp_stat_upd_def Let_def split: option.splits)
  then have "up_nx s' = up_nx s" "upcbs s' = upcbs s" "udp_pcbs s' = udp_pcbs s" by (simp_all add: up_nx_def [abs_def])
  with m assms(1,3) have "udp_ok s' us (insert (t, p) A)" by (simp add: udp_ok_def)
  with m(1,2) show ?thesis by (rule that)
qed

lemma udp_ok_free:
  assumes "udp_ok s us A" "(t, p) \<in> A" "t \<noteq> MEMP_UDP_PCB"
  shows "udp_ok (memp_free t (Some p) s) us (A - {(t, p)})"
proof -
  have "upcbs (memp_free t (Some p) s) = upcbs s" "udp_pcbs (memp_free t (Some p) s) = udp_pcbs s"
    by (simp_all add: memp_free_def memp_stat_upd_def Let_def)
  then have "up_nx (memp_free t (Some p) s) = up_nx s" "upcbs (memp_free t (Some p) s) = upcbs s" "udp_pcbs (memp_free t (Some p) s) = udp_pcbs s"
    by (simp_all add: up_nx_def [abs_def])
  with assms free_holds [of s A t p] show ?thesis by (auto simp: udp_ok_def)
qed

lemma new_mbox_rep: "length junk = 100 \<Longrightarrow> mbox_rep (fst (sys_mbox_new junk cts)) []"
  by (simp add: sys_mbox_new_def Let_def mbox_rep_def sys_sem_new0_def sem_ok_def)

lemma udp_ok_misc [simp]: "udp_ok (s\<lparr>fresh := fs\<rparr>) us A = udp_ok s us A" "udp_ok (s\<lparr>sys_counts := cts\<rparr>) us A = udp_ok s us A"
  by (simp_all add: udp_ok_def up_nx_def [abs_def] memp_holds_def memp_ok_def pool_ok_def memp_nx_def)

text \<open>A transport thread that waits, and memory for the messages.\<close>

definition api_ready :: "u32 \<Rightarrow> 'a api_world_scheme \<Rightarrow> bool" where
  "api_ready tb s \<longleftrightarrow> unlocked s \<and> transport_mbox s = Some tb \<and> box s tb [] \<and> memp_tab s MEMP_API_MSG \<noteq> None \<and> memp_tab s MEMP_TCP_MSG \<noteq> None"

lemma new_mbox_eq:
  assumes "fresh s = (a, junk) # fs" "length junk = 100"
  shows "\<exists>m cts. new_mbox s = Some (Some a, s\<lparr>mboxes := (mboxes s)(a \<mapsto> m), sys_counts := cts, fresh := fs\<rparr>) \<and> mbox_rep m []"
  using assms new_mbox_rep [OF assms(2), of "sys_counts s"] by (auto simp: new_mbox_def Let_def split: prod.split)

lemma netconn_new_eq:
  assumes "unlocked s" "memp_malloc MEMP_NETCONN s = (Some cn, s1)" "fresh s1 = (b, jb) # fs" "length jb = 100"
  shows "\<exists>m cts. mbox_rep m [] \<and> netconn_new junk t s = Some (Some cn, s1\<lparr>mboxes := (mboxes s1)(b \<mapsto> m), sys_counts := cts, fresh := fs,
    netconns := (netconns s1)(cn \<mapsto> \<lparr>nc_type = t, nc_state = NETCONN_NONE, nc_pcb = None, nc_err = nc_err junk, nc_mbox = Some b, nc_recvmbox = None,
      nc_acceptmbox = None, nc_sem = None\<rparr>)\<rparr>)"
proof -
  let ?s2 = "s1\<lparr>netconns := (netconns s1)(cn \<mapsto> junk\<lparr>nc_type := t, nc_pcb := None\<rparr>)\<rparr>"
  obtain m cts where m: "new_mbox ?s2 = Some (Some b, ?s2\<lparr>mboxes := (mboxes ?s2)(b \<mapsto> m), sys_counts := cts, fresh := fs\<rparr>)" "mbox_rep m []"
    using new_mbox_eq [of ?s2 b jb fs] assms by auto
  then show ?thesis using assms
    by (intro exI [of _ m] exI [of _ cts]) (cases junk, simp add: netconn_new_def memp_mallocp_eq upd_conn_def)
qed

lemma netconn_bind_served:
  assumes ok: "udp_ok s us A" "api_ready tb s" "memp_tab s MEMP_UDP_PCB \<noteq> None"
    and c: "netconns s cn = Some c" "nc_type c \<noteq> NETCONN_TCP" "nc_pcb c = None" "nc_mbox c = Some b" "nc_recvmbox c = None" "box s b []"
    and f: "fresh s = (r, jr) # fs" "length jr = 100" "b \<noteq> tb" "r \<noteq> tb" "r \<noteq> b"
  shows "\<exists>p n s'. netconn_bind (transport_look E) (Some cn) (Some (IP_MEM a)) port s = Some (nc_err c, s') \<and>
    netconns s' = (netconns s)(cn \<mapsto> c\<lparr>nc_recvmbox := Some r, nc_pcb := Some p\<rparr>) \<and>
    upcbs s' = (upcbs s)(p \<mapsto> bound_udp cn (nc_type c) (ld32 a (mem8 s)) port n) \<and> p \<notin> set us \<and> udp_ok s' (p # us) (insert (MEMP_UDP_PCB, p) A) \<and>
    box s' b [] \<and> box s' r [] \<and> box s' tb [] \<and> api_msgs s' \<subseteq>\<^sub>m api_msgs s \<and> transport_msgs s' \<subseteq>\<^sub>m transport_msgs s"
proof -
  obtain mr cts where mr: "new_mbox s = Some (Some r, s\<lparr>mboxes := (mboxes s)(r \<mapsto> mr), sys_counts := cts, fresh := fs\<rparr>)" "mbox_rep mr []"
    using new_mbox_eq [OF f(1,2)] by blast
  let ?c = "c\<lparr>nc_recvmbox := Some r\<rparr>"
  let ?s = "s\<lparr>mboxes := (mboxes s)(r \<mapsto> mr), sys_counts := cts, fresh := fs, netconns := (netconns s)(cn \<mapsto> ?c)\<rparr>"
  have need: "need_recvmbox cn s = Some (Some r, ?s)" using mr(1) c by (simp add: need_recvmbox_def upd_conn_def)
  have ok1: "udp_ok ?s us A" "unlocked ?s" using ok by (simp_all add: api_ready_def)
  let ?args = "ARG_BC (Some (IP_MEM a)) port"
  have tabs: "memp_tab ?s MEMP_API_MSG \<noteq> None" "memp_tab s MEMP_TCP_MSG \<noteq> None" using ok(2) by (simp_all add: api_ready_def)
  obtain am s1 where am: "memp_malloc MEMP_API_MSG ?s = (Some am, s1)" "(MEMP_API_MSG, am) \<notin> A" "udp_ok s1 us (insert (MEMP_API_MSG, am) A)"
    by (rule udp_ok_malloc [OF ok1(1) tabs(1)]) simp
  let ?p = "put_api_msg am API_MSG_BIND cn ?args s1"
  have tab1: "memp_tab ?p t = memp_tab s t" if "t \<noteq> MEMP_API_MSG" for t
    using memp_malloc_keeps(12) [OF am(1) that] by (simp add: put_api_msg_def)
  have okp: "udp_ok ?p us (insert (MEMP_API_MSG, am) A)" using am(3) by (simp add: put_api_msg_def)
  have "memp_tab ?p MEMP_TCP_MSG \<noteq> None" using tabs(2) tab1 by simp
  then obtain tm s2 where tm: "memp_malloc MEMP_TCP_MSG ?p = (Some tm, s2)" "(MEMP_TCP_MSG, tm) \<notin> A"
      "udp_ok s2 us (insert (MEMP_TCP_MSG, tm) (insert (MEMP_API_MSG, am) A))"
    by (rule udp_ok_malloc [OF okp]) simp_all
  let ?A = "insert (MEMP_TCP_MSG, tm) (insert (MEMP_API_MSG, am) A)"
  note k = memp_malloc_keeps [OF am(1)] memp_malloc_keeps [OF tm(1)]
  have keep2: "netconns s2 = netconns ?s" "mem8 s2 = mem8 s" "upcbs s2 = upcbs s" "memp_mutex s2 = memp_mutex s"
      "api_msgs s2 = (api_msgs s)(am \<mapsto> \<lparr>am_type = API_MSG_BIND, am_body = \<lparr>am_conn = cn, am_msg = ?args\<rparr>\<rparr>)"
      "transport_msgs s2 = transport_msgs s" "transport_mbox s2 = transport_mbox s" "memp_tab s2 MEMP_UDP_PCB = memp_tab s MEMP_UDP_PCB"
    using k(1-11,15-25) k(12) [of MEMP_UDP_PCB] k(26) [of MEMP_UDP_PCB] by (simp_all add: put_api_msg_def)
  let ?P = "\<lambda>s4. \<exists>p n. netconns s4 = (netconns s)(cn \<mapsto> ?c\<lparr>nc_pcb := Some p\<rparr>) \<and> udp_ok s4 (p # us) (insert (MEMP_UDP_PCB, p) ?A) \<and> p \<notin> set us \<and>
    upcbs s4 = (upcbs s)(p \<mapsto> bound_udp cn (nc_type c) (ld32 a (mem8 s)) port n) \<and> api_msgs s4 = api_msgs s2 \<and>
    transport_msgs s4 = (transport_msgs s)(tm \<mapsto> TCP_MSG_API am) \<and> unlocked s4"
  have h: "\<exists>s4. decode E API_MSG_BIND \<lparr>am_conn = cn, am_msg = ?args\<rparr> (in_handler am tm B s2) = Some s4 \<and> answers b B s4 \<and> ?P s4"
    if "\<exists>m. B b = Some m \<and> mbox_rep m []" for B
    using do_bind_udp [of "in_handler am tm B s2" us ?A cn ?c b E a port] that ok(2,3) tm(3) keep2 c
    by (fastforce simp: in_handler_def answers_def box_def api_ready_def)
  have boxes: "box ?s b []" "box ?s tb []" using c(6) ok(2) f by (auto simp: box_def api_ready_def)
  obtain s4 m where req: "api_request (transport_look E) API_MSG_BIND cn ?args ?s = Some (True, answered am tm b m s4)" and P: "?P s4"
      and m: "mbox_rep m []" "\<exists>m'. mboxes s4 tb = Some m' \<and> mbox_rep m' []" "mboxes s4 r = Some mr"
    using api_request_served [OF ok1(2) am(1) tm(1) _ _ _ _ boxes h, of ?c] c f ok(2) by (fastforce simp: api_ready_def)
  then obtain p n where p: "netconns s4 = (netconns s)(cn \<mapsto> ?c\<lparr>nc_pcb := Some p\<rparr>)" "udp_ok s4 (p # us) (insert (MEMP_UDP_PCB, p) ?A)" "p \<notin> set us"
    "upcbs s4 = (upcbs s)(p \<mapsto> bound_udp cn (nc_type c) (ld32 a (mem8 s)) port n)" "api_msgs s4 = api_msgs s2"
    "transport_msgs s4 = (transport_msgs s)(tm \<mapsto> TCP_MSG_API am)" by blast
  let ?s' = "answered am tm b m s4"
  have keep: "netconns ?s' = netconns s4" "upcbs ?s' = upcbs s4" "mboxes ?s' = (mboxes s4)(b \<mapsto> m)" "api_msgs ?s' = (api_msgs s4)(am := None)"
      "transport_msgs ?s' = (transport_msgs s4)(tm := None)"
    by (simp_all add: answered_def Let_def)
  have "udp_ok (memp_free MEMP_TCP_MSG (Some tm) s4) (p # us) (insert (MEMP_UDP_PCB, p) ?A - {(MEMP_TCP_MSG, tm)})"
    using udp_ok_free [OF p(2), of MEMP_TCP_MSG tm] by simp
  then have "udp_ok ?s' (p # us) (insert (MEMP_UDP_PCB, p) ?A - {(MEMP_TCP_MSG, tm)} - {(MEMP_API_MSG, am)})"
    unfolding answered_def Let_def by (subst udp_ok_netconns, intro udp_ok_free) simp_all
  moreover have "insert (MEMP_UDP_PCB, p) ?A - {(MEMP_TCP_MSG, tm)} - {(MEMP_API_MSG, am)} = insert (MEMP_UDP_PCB, p) A" using am(2) tm(2) by auto
  ultimately have okE: "udp_ok ?s' (p # us) (insert (MEMP_UDP_PCB, p) A)" by (simp only:)
  have "netconn_bind (transport_look E) (Some cn) (Some (IP_MEM a)) port s = Some (nc_err c, ?s')"
    using c need req keep(1) p(1) by (simp add: netconn_bind_def get_err_def)
  moreover have "api_msgs ?s' \<subseteq>\<^sub>m api_msgs s" "transport_msgs ?s' \<subseteq>\<^sub>m transport_msgs s"
    unfolding keep p keep2 by (auto simp: map_le_def)
  moreover have "box ?s' b []" "box ?s' r []" "box ?s' tb []" using m f mr(2) by (auto simp: box_def keep)
  ultimately show ?thesis using okE p(1,3,4) keep by auto
qed

text \<open>
  C20: making and binding a connection for UDP, from the call of the application through the transport thread and back. With memory in the
  pools and a transport thread that waits, \<open>netconn_new\<close> and \<open>netconn_bind\<close> return; the connection then has a control block with the given
  address and port and with \<open>recv_udp\<close> and the connection as its receive function, first on the list of control blocks; the memory of both
  messages is back in its pools and all mailboxes are empty. But the result of \<open>netconn_bind\<close> is the error field that \<open>netconn_new\<close> does not
  initialise: what the memory of the connection happened to hold.
\<close>

theorem udp_bind_through_api:
  assumes ok: "udp_ok s us A" "api_ready tb s" "memp_tab s MEMP_NETCONN \<noteq> None" "memp_tab s MEMP_UDP_PCB \<noteq> None" "t \<noteq> NETCONN_TCP"
    and f: "fresh s = (b, jb) # (r, jr) # fs" "length jb = 100" "length jr = 100" "b \<noteq> tb" "r \<noteq> tb" "r \<noteq> b"
  shows "\<exists>cn s1 p n s2. netconn_new junk t s = Some (Some cn, s1) \<and>
    netconn_bind (transport_look E) (Some cn) (Some (IP_MEM a)) port s1 = Some (nc_err junk, s2) \<and>
    netconns s2 = (netconns s)(cn \<mapsto> \<lparr>nc_type = t, nc_state = NETCONN_NONE, nc_pcb = Some p, nc_err = nc_err junk, nc_mbox = Some b,
      nc_recvmbox = Some r, nc_acceptmbox = None, nc_sem = None\<rparr>) \<and>
    upcbs s2 = (upcbs s)(p \<mapsto> bound_udp cn t (ld32 a (mem8 s)) port n) \<and> p \<notin> set us \<and>
    udp_ok s2 (p # us) (insert (MEMP_UDP_PCB, p) (insert (MEMP_NETCONN, cn) A)) \<and>
    box s2 b [] \<and> box s2 r [] \<and> box s2 tb [] \<and> api_msgs s2 \<subseteq>\<^sub>m api_msgs s \<and> transport_msgs s2 \<subseteq>\<^sub>m transport_msgs s"
proof -
  obtain cn s0 where cn: "memp_malloc MEMP_NETCONN s = (Some cn, s0)" "udp_ok s0 us (insert (MEMP_NETCONN, cn) A)"
    by (rule udp_ok_malloc [OF ok(1,3)]) simp
  note k = memp_malloc_keeps [OF cn(1)]
  have fr: "fresh s0 = (b, jb) # (r, jr) # fs" using k f(1) by simp
  have unl: "unlocked s" using ok(2) by (simp add: api_ready_def)
  let ?c = "\<lparr>nc_type = t, nc_state = NETCONN_NONE, nc_pcb = None, nc_err = nc_err junk, nc_mbox = Some b, nc_recvmbox = None, nc_acceptmbox = None, nc_sem = None\<rparr>"
  obtain m cts where new: "mbox_rep m []" "netconn_new junk t s = Some (Some cn, s0\<lparr>mboxes := (mboxes s0)(b \<mapsto> m), sys_counts := cts, fresh := (r, jr) # fs,
      netconns := (netconns s0)(cn \<mapsto> ?c)\<rparr>)"
    using netconn_new_eq [OF unl cn(1) fr f(2)] by blast
  let ?s1 = "s0\<lparr>mboxes := (mboxes s0)(b \<mapsto> m), sys_counts := cts, fresh := (r, jr) # fs, netconns := (netconns s0)(cn \<mapsto> ?c)\<rparr>"
  have "udp_ok ?s1 us (insert (MEMP_NETCONN, cn) A)" using cn(2) by simp
  moreover have "api_ready tb ?s1" using ok(2) k f by (simp add: api_ready_def box_def)
  moreover have "memp_tab ?s1 MEMP_UDP_PCB \<noteq> None" using k(12) [of MEMP_UDP_PCB] ok(4) by simp
  moreover have "box ?s1 b []" using new(1) by (simp add: box_def)
  ultimately show ?thesis
    using netconn_bind_served [of ?s1 us "insert (MEMP_NETCONN, cn) A" tb cn ?c b r jr fs E a port] new(2) ok(5) f k by fastforce
qed

lemma memp_init_loop_tab: "t \<notin> set ts \<Longrightarrow> memp_tab (memp_init_loop z ts m s) t = memp_tab s t"
  by (induction z ts m s rule: memp_init_loop.induct) (auto simp: Let_def split: prod.splits)

lemma memp_init_tab: "t \<in> set ts \<Longrightarrow> distinct ts \<Longrightarrow> memp_num t > 0 \<Longrightarrow> memp_tab (memp_init_loop z ts m s) t \<noteq> None"
  by (induction z ts m s rule: memp_init_loop.induct) (auto simp: Let_def memp_init_loop_tab split: prod.splits)

text \<open>The stack after its initialisation: its transport thread waits at the mailbox 64.\<close>

definition api_start :: api_world where
  "api_start = netbuf_world.extend (udp_world.extend udp_start (netbuf_world.fields Map.empty))
     (api_world.fields Map.empty [64 \<mapsto> fst (sys_mbox_new (replicate 100 None) \<lparr>st_mbox_used = 0, st_mbox_max = 0, st_sem_used = 0, st_sem_max = 0\<rparr>)]
       Map.empty Map.empty Map.empty (Some 64) [] 0 \<lparr>st_mbox_used = 1, st_mbox_max = 1, st_sem_used = 0, st_sem_max = 0\<rparr>
       [(128, replicate 100 None), (192, replicate 100 None)])"

lemma api_start_ok: "udp_ok api_start [] {}"
  using udp_start_ok
  by (simp add: udp_ok_def memp_holds_def memp_ok_def pool_ok_def memp_nx_def up_nx_def [abs_def] api_start_def udp_world.defs netbuf_world.defs api_world.defs)

lemma api_start_tab: "memp_num t > 0 \<Longrightarrow> memp_tab api_start t \<noteq> None"
proof -
  assume "memp_num t > 0"
  moreover have "t \<in> set memp_types" "distinct memp_types" by (cases t; simp add: memp_types_def)+
  ultimately show ?thesis
    using memp_init_tab [of t memp_types] by (simp add: api_start_def udp_start_def memp_init_def udp_world.defs netbuf_world.defs api_world.defs)
qed

lemma api_start_ready: "api_ready 64 api_start"
proof -
  have "unlocked api_start"
    by (simp add: api_start_def udp_start_def memp_init_def udp_world.defs netbuf_world.defs api_world.defs sys_sem_new0_def)
  moreover have "transport_mbox api_start = Some 64" "box api_start 64 []"
    using new_mbox_rep [of "replicate 100 (None :: u32 option)"] by (simp_all add: api_start_def box_def udp_world.defs netbuf_world.defs api_world.defs)
  ultimately show ?thesis using api_start_tab by (simp add: api_ready_def)
qed

theorem udp_bind_through_api_witness:
  "\<exists>cn s1 s2 E. netconn_new \<lparr>nc_type = NETCONN_TCP, nc_state = NETCONN_NONE, nc_pcb = None, nc_err = 77, nc_mbox = None, nc_recvmbox = None,
       nc_acceptmbox = None, nc_sem = None\<rparr> NETCONN_UDP api_start = Some (Some cn, s1) \<and>
     netconn_bind (transport_look E) (Some cn) (Some (IP_MEM 8)) 53 s1 = Some (77, s2)"
proof -
  have "fresh api_start = (128, replicate 100 None) # (192, replicate 100 None) # []"
    by (simp add: api_start_def udp_world.defs netbuf_world.defs api_world.defs)
  moreover have "memp_tab api_start MEMP_NETCONN \<noteq> None" "memp_tab api_start MEMP_UDP_PCB \<noteq> None"
    by (simp_all add: api_start_tab)
  ultimately show ?thesis
    using udp_bind_through_api [OF api_start_ok api_start_ready, of NETCONN_UDP 128 "replicate 100 None" 192 "replicate 100 None" "[]"
      "\<lparr>nc_type = NETCONN_TCP, nc_state = NETCONN_NONE, nc_pcb = None, nc_err = 77, nc_mbox = None, nc_recvmbox = None, nc_acceptmbox = None, nc_sem = None\<rparr>" _ 8 53]
    by fastforce
qed

end
