(* ===== verification/Api_Errors.thy ===== *)
theory Api_Errors
  imports Api_Udp
begin

text \<open>
  What goes wrong between the application and the transport thread: a request without memory for its
  message, an answer that nobody waited for, and the end of a listening connection.
\<close>

subsection \<open>A request that is lost\<close>

text \<open>The transport thread waits at an empty mailbox, and nothing is on its way to the mailbox \<open>a\<close>.\<close>

definition stuck :: "u32 \<Rightarrow> u32 \<Rightarrow> 'a api_world_scheme \<Rightarrow> bool" where
  "stuck tb a s \<longleftrightarrow> transport_mbox s = Some tb \<and> tb \<noteq> a \<and> box s tb [] \<and> (\<exists>m. mboxes s a = Some m \<and> sem_c (mbox_mail m) = 0)"

lemma look_stuck:
  assumes "stuck tb a s"
  shows "\<exists>s'. transport_look E s = Some s' \<and> stuck tb a s'"
proof -
  obtain m where m: "mboxes s tb = Some m" "mbox_rep m []" and tb: "transport_mbox s = Some tb" "tb \<noteq> a"
    using assms by (auto simp: stuck_def box_def)
  obtain m' where m': "mbox_fetch_pass m = Some (None, m')" "mbox_rep m' []" using mbox_fetch_pass_rep [OF m(2)] by auto
  have "mbox_rep (m'\<lparr>mbox_mail := (mbox_mail m')\<lparr>sem_c := sem_c (mbox_mail m') - 1\<rparr>\<rparr>) []" if "sem_c (mbox_mail m') \<noteq> 0"
    using m'(2) that by (simp add: mbox_rep_def sem_ok_def word_le_unat unat_minus_one)
  with m m' tb assms show ?thesis by (auto simp: transport_look_def sys_arch_sem_wait_nil stuck_def box_def)
qed

lemma mail_wait_not_stuck: "mail_wait W a s = Some y \<Longrightarrow> W = transport_look E \<longrightarrow> \<not> stuck tb a s"
proof (erule mail_wait.raw_induct [rotated], intro impI notI)
  fix mw W a s y
  assume step: "\<And>W a s y. mw W a s = Some y \<Longrightarrow> W = transport_look E \<longrightarrow> \<not> stuck tb a s" "W = transport_look E" "stuck tb a s"
    "do { m \<leftarrow> mboxes s a; case sys_arch_sem_wait (mbox_mail m) 0 [] of
       Some (t, mail) \<Rightarrow> Some (s\<lparr>mboxes := (mboxes s)(a \<mapsto> m\<lparr>mbox_mail := mail\<rparr>)\<rparr>)
     | None \<Rightarrow> do { s \<leftarrow> W s; mw W a s } } = Some y"
  then obtain m where m: "mboxes s a = Some m" "sem_c (mbox_mail m) = 0" by (auto simp: stuck_def)
  obtain s' where s': "transport_look E s = Some s'" "stuck tb a s'" using look_stuck [OF step(3)] by blast
  with step(4) m step(2) have "mw W a s' = Some y" by (simp add: sys_arch_sem_wait_nil)
  with step(1,2) s'(2) show False by blast
qed

lemma mail_wait_stuck: "stuck tb a s \<Longrightarrow> mail_wait (transport_look E) a s = None"
  using mail_wait_not_stuck by (cases "mail_wait (transport_look E) a s") blast+

lemma fetch_wait_stuck:
  assumes "transport_mbox s = Some tb" "tb \<noteq> a" "box s tb []" "box s a []"
  shows "fetch_wait (transport_look E) (Some a) s = None"
proof -
  obtain m where m: "mbox_rep m []" "sem_c (mbox_mail m) = 0" and eq: "fetch_wait (transport_look E) (Some a) s =
      do { s \<leftarrow> transport_look E (s\<lparr>mboxes := (mboxes s)(a \<mapsto> m)\<rparr>); s \<leftarrow> mail_wait (transport_look E) a s; fetch_wait (transport_look E) (Some a) s }"
    using fetch_wait_empty [OF assms(4)] by blast
  have "stuck tb a (s\<lparr>mboxes := (mboxes s)(a \<mapsto> m)\<rparr>)" using assms m by (simp add: stuck_def box_def)
  from look_stuck [OF this] obtain s' where "transport_look E (s\<lparr>mboxes := (mboxes s)(a \<mapsto> m)\<rparr>) = Some s'" "stuck tb a s'" by blast
  with eq mail_wait_stuck [of tb a s' E] show ?thesis by simp
qed

lemma malloc_none: "memp_tab s t = None \<Longrightarrow> memp_malloc t s = (None, memp_stat_upd t (\<lambda>st. st\<lparr>mp_err := mp_err st + 1\<rparr>) s)"
  by (simp add: memp_malloc_def)

lemma post_and_wait_stuck:
  assumes "unlocked s" "memp_tab s MEMP_TCP_MSG = None" "netconns s cn = Some c" "nc_mbox c = Some b"
    "transport_mbox s = Some tb" "tb \<noteq> b" "box s tb []" "box s b []"
  shows "post_and_wait (transport_look E) cn m s = None"
proof -
  let ?s = "(memp_free MEMP_TCP_MSG (Some m) (memp_stat_upd MEMP_TCP_MSG (\<lambda>st. st\<lparr>mp_err := mp_err st + 1\<rparr>) s))\<lparr>api_msgs := (api_msgs s)(m := None)\<rparr>"
  have "api_msg_post m s = Some ?s"
    using assms(1,2) by (simp add: api_msg_post_def transport_apimsg_def memp_mallocp_eq malloc_none memp_stat_upd_def)
  moreover have "netconns ?s = netconns s" "transport_mbox ?s = transport_mbox s" "mboxes ?s = mboxes s" by (simp_all add: memp_stat_upd_def)
  ultimately show ?thesis
    using assms(3-) fetch_wait_stuck [of ?s tb b E] by (simp add: post_and_wait_def box_def)
qed

text \<open>
  C38: when there is no memory for the message to the transport thread, the application that makes a request waits for ever, whatever the
  request is: \<open>transport_apimsg\<close> cannot report the failure.
\<close>

theorem request_without_memory_hangs:
  assumes "unlocked s" "memp_tab s MEMP_API_MSG \<noteq> None" "memp_tab s MEMP_TCP_MSG = None" "netconns s cn = Some c" "nc_mbox c = Some b"
    "transport_mbox s = Some tb" "tb \<noteq> b" "box s tb []" "box s b []"
  shows "api_request (transport_look E) t cn args s = None \<and> netconn_close (transport_look E) (Some cn) s = None"
proof -
  obtain am s1 where am: "memp_malloc MEMP_API_MSG s = (Some am, s1)" using assms(2) by (auto simp: memp_malloc_def Let_def)
  note k = memp_malloc_keeps [OF am]
  have "memp_tab s1 MEMP_TCP_MSG = None" using k(12) [of MEMP_TCP_MSG] assms(3) by simp
  then have "post_and_wait (transport_look E) cn am (put_api_msg am t cn args s1) = None" for t args
    using assms k(1-11) by (intro post_and_wait_stuck [of _ cn c b tb]) (simp_all add: put_api_msg_def box_def)
  moreover have "post_and_wait (transport_look E) cn am (put_api_msg am t cn args (s1\<lparr>netconns := (netconns s1)(cn \<mapsto> c\<lparr>nc_state := NETCONN_CLOSE\<rparr>)\<rparr>)) = None" for t args
    using assms k(1-11) \<open>memp_tab s1 MEMP_TCP_MSG = None\<close>
    by (intro post_and_wait_stuck [of _ cn "c\<lparr>nc_state := NETCONN_CLOSE\<rparr>" b tb]) (simp_all add: put_api_msg_def box_def)
  ultimately show ?thesis
    using am assms(1,4) k(1,2) by (simp add: api_request_def netconn_close_def memp_mallocp_eq upd_conn_def close_loop.simps)
qed

text \<open>A connection without control block at 8 with the mailbox 128, and no memory for messages to the transport thread.\<close>

definition hang_example :: api_world where
  "hang_example = api_start\<lparr>
     mboxes := (mboxes api_start)(128 \<mapsto> fst (sys_mbox_new (replicate 100 None) (sys_counts api_start))),
     netconns := [8 \<mapsto> \<lparr>nc_type = NETCONN_TCP, nc_state = NETCONN_NONE, nc_pcb = None, nc_err = 0, nc_mbox = Some 128, nc_recvmbox = None, nc_acceptmbox = None, nc_sem = None\<rparr>],
     memp_tab := (memp_tab api_start)(MEMP_TCP_MSG := None)\<rparr>"

theorem request_without_memory_hangs_witness:
  "\<exists>E. netconn_close (transport_look E) (Some 8) hang_example = None"
proof -
  let ?c = "\<lparr>nc_type = NETCONN_TCP, nc_state = NETCONN_NONE, nc_pcb = None, nc_err = 0, nc_mbox = Some 128, nc_recvmbox = None, nc_acceptmbox = None, nc_sem = None\<rparr>"
  have "unlocked hang_example" "memp_tab hang_example MEMP_API_MSG \<noteq> None" "memp_tab hang_example MEMP_TCP_MSG = None"
      "transport_mbox hang_example = Some 64" "netconns hang_example 8 = Some ?c"
    using api_start_ready by (simp_all add: hang_example_def api_ready_def)
  moreover have "box hang_example 64 []" using api_start_ready by (simp add: hang_example_def api_ready_def box_def)
  moreover have "box hang_example 128 []" using new_mbox_rep [of "replicate 100 None"] by (simp add: hang_example_def box_def)
  ultimately show ?thesis
    using request_without_memory_hangs [of hang_example 8 ?c 128 64 _ API_MSG_CLOSE ARG_NONE] by simp
qed

subsection \<open>An answer that nobody waited for\<close>

lemma err_tcp_posts:
  assumes "netconns s cn = Some c" "nc_mbox c = Some b" "box s b []" "nc_recvmbox c = Some r" "box s r xs" "length xs < 99" "r \<noteq> b"
    "nc_acceptmbox c = None" "nc_sem c = None"
  shows "\<exists>mr m. err_tcp cn err s = Some (s\<lparr>netconns := (netconns s)(cn \<mapsto> c\<lparr>nc_pcb := None, nc_err := err\<rparr>), mboxes := (mboxes s)(r \<mapsto> mr, b \<mapsto> m)\<rparr>) \<and>
    mbox_rep m [None]"
proof -
  let ?s = "s\<lparr>netconns := (netconns s)(cn \<mapsto> c\<lparr>nc_pcb := None, nc_err := err\<rparr>)\<rparr>"
  obtain mr where mr: "post_mbox (Some r) None ?s = Some (?s\<lparr>mboxes := (mboxes ?s)(r \<mapsto> mr)\<rparr>)"
    using post_mbox_box [of ?s r xs None] assms(5,6) by (auto simp: box_def)
  let ?t = "?s\<lparr>mboxes := (mboxes ?s)(r \<mapsto> mr)\<rparr>"
  obtain m where "post_mbox (Some b) None ?t = Some (?t\<lparr>mboxes := (mboxes ?t)(b \<mapsto> m)\<rparr>)" "mbox_rep m [None]"
    using post_mbox_box [of ?t b "[]" None] assms(3,7) by (auto simp: box_def)
  with mr assms show ?thesis by (intro exI [of _ mr] exI [of _ m]) (simp add: err_tcp_def upd_conn_def post_if_def)
qed

text \<open>
  C39: the peer resets a connection while the application is not waiting for an answer: \<open>err_tcp\<close> posts to the mailbox of the connection all
  the same. The next request of the application, here \<open>netconn_close\<close>, takes that message for its answer: it returns at once, whatever the
  transport thread does, and releases its request. The transport thread then uses the released request.
\<close>

theorem close_after_reset_uses_freed_request:
  assumes c: "netconns s cn = Some c" "nc_mbox c = Some b" "nc_recvmbox c = Some r" "nc_acceptmbox c = None" "nc_sem c = None"
    and boxes: "box s b []" "box s r xs" "length xs < 99" "transport_mbox s = Some tb" "box s tb []" "r \<noteq> b" "tb \<noteq> b" "tb \<noteq> r"
    and mem: "unlocked s" "memp_tab s MEMP_API_MSG \<noteq> None" "memp_tab s MEMP_TCP_MSG \<noteq> None"
  shows "\<exists>s1 s2. err_tcp cn err s = Some s1 \<and> netconn_close W (Some cn) s1 = Some (err, s2) \<and> transport_look E s2 = None"
proof -
  let ?c = "c\<lparr>nc_pcb := None, nc_err := err\<rparr>"
  obtain mr m where err: "err_tcp cn err s = Some (s\<lparr>netconns := (netconns s)(cn \<mapsto> ?c), mboxes := (mboxes s)(r \<mapsto> mr, b \<mapsto> m)\<rparr>)" "mbox_rep m [None]"
    using err_tcp_posts [OF c(1,2) boxes(1) c(3) boxes(2,3,6) c(4,5)] by blast
  let ?s1 = "s\<lparr>netconns := (netconns s)(cn \<mapsto> ?c), mboxes := (mboxes s)(r \<mapsto> mr, b \<mapsto> m)\<rparr>"
  obtain am s2 where am: "memp_malloc MEMP_API_MSG ?s1 = (Some am, s2)" using mem(2) by (auto simp: memp_malloc_def Let_def)
  note k = memp_malloc_keeps [OF am]
  let ?s3 = "put_api_msg am API_MSG_CLOSE cn ARG_NONE (s2\<lparr>netconns := (netconns s2)(cn \<mapsto> ?c\<lparr>nc_state := NETCONN_CLOSE\<rparr>)\<rparr>)"
  have "memp_tab ?s3 MEMP_TCP_MSG = memp_tab s MEMP_TCP_MSG" using k(12) [of MEMP_TCP_MSG] by (simp add: put_api_msg_def)
  then obtain tm s4 where tm: "memp_malloc MEMP_TCP_MSG ?s3 = (Some tm, s4)" using mem(3) by (auto simp: memp_malloc_def Let_def)
  note l = memp_malloc_keeps [OF tm]
  have keep4: "netconns s4 = (netconns s)(cn \<mapsto> ?c\<lparr>nc_state := NETCONN_CLOSE\<rparr>)" "mboxes s4 = (mboxes s)(r \<mapsto> mr, b \<mapsto> m)" "memp_mutex s4 = memp_mutex s"
      "transport_mbox s4 = transport_mbox s"
    using k l by (simp_all add: put_api_msg_def)
  let ?s5 = "s4\<lparr>transport_msgs := (transport_msgs s4)(tm \<mapsto> TCP_MSG_API am)\<rparr>"
  have "box ?s5 tb []" using boxes keep4 by (simp add: box_def)
  then obtain mt where post: "post_mbox (Some tb) (Some tm) ?s5 = Some (?s5\<lparr>mboxes := (mboxes ?s5)(tb \<mapsto> mt)\<rparr>)" "mbox_rep mt [Some tm]"
    using post_mbox_box [of ?s5 tb "[]" "Some tm"] by auto
  let ?s6 = "?s5\<lparr>mboxes := (mboxes ?s5)(tb \<mapsto> mt)\<rparr>"
  have posted: "api_msg_post am ?s3 = Some ?s6"
    using post(1) mem(1) boxes(4) k(1,6) keep4 tm by (simp add: api_msg_post_def transport_apimsg_def memp_mallocp_eq put_api_msg_def)
  have "box ?s6 b [None]" using err(2) keep4 boxes by (simp add: box_def)
  then obtain mb where fetch: "fetch_wait W (Some b) ?s6 = Some (None, ?s6\<lparr>mboxes := (mboxes ?s6)(b \<mapsto> mb)\<rparr>)"
    using fetch_wait_some [of ?s6 b None "[]" W] by blast
  let ?s7 = "?s6\<lparr>mboxes := (mboxes ?s6)(b \<mapsto> mb)\<rparr>"
  have loop: "close_loop W cn am (s2\<lparr>netconns := (netconns s2)(cn \<mapsto> ?c\<lparr>nc_state := NETCONN_CLOSE\<rparr>)\<rparr>) = Some ?s7"
    using posted fetch keep4 c by (subst close_loop.simps) (simp add: post_and_wait_def)
  let ?s8 = "memp_free MEMP_API_MSG (Some am) (?s7\<lparr>netconns := (netconns ?s7)(cn \<mapsto> ?c\<lparr>nc_state := NETCONN_NONE\<rparr>)\<rparr>)"
  let ?s9 = "?s8\<lparr>api_msgs := (api_msgs ?s8)(am := None)\<rparr>"
  have "netconn_close W (Some cn) ?s1 = Some (err, ?s9)"
    using am loop mem(1) k(1,2) keep4
    by (simp add: netconn_close_def memp_mallocp_eq upd_conn_def free_api_msg_def memp_freep_eq get_err_def)
  moreover have "transport_mbox ?s9 = Some tb" "box ?s9 tb [Some tm]" "transport_msgs ?s9 tm = Some (TCP_MSG_API am)" "api_msgs ?s9 am = None"
    using boxes keep4 post(2) by (simp_all add: box_def)
  then have "transport_look E ?s9 = None"
    using look_serves [of ?s9 tb tm "[]" E] by (auto simp: transport_serve_def api_msg_input_def)
  ultimately show ?thesis using err(1) by blast
qed

definition reset_example :: api_world where
  "reset_example = api_start\<lparr>
     mboxes := (mboxes api_start)(128 \<mapsto> fst (sys_mbox_new (replicate 100 None) (sys_counts api_start)),
       192 \<mapsto> fst (sys_mbox_new (replicate 100 None) (sys_counts api_start))),
     netconns := [8 \<mapsto> \<lparr>nc_type = NETCONN_TCP, nc_state = NETCONN_NONE, nc_pcb = Some 400, nc_err = 0, nc_mbox = Some 128, nc_recvmbox = Some 192,
       nc_acceptmbox = None, nc_sem = None\<rparr>]\<rparr>"

theorem close_after_reset_uses_freed_request_witness:
  "\<exists>s1 s2 E. err_tcp 8 ERR_RST reset_example = Some s1 \<and> netconn_close (\<lambda>s. None) (Some 8) s1 = Some (ERR_RST, s2) \<and> transport_look E s2 = None"
proof -
  let ?c = "\<lparr>nc_type = NETCONN_TCP, nc_state = NETCONN_NONE, nc_pcb = Some 400, nc_err = 0, nc_mbox = Some 128, nc_recvmbox = Some 192, nc_acceptmbox = None, nc_sem = None\<rparr>"
  have "netconns reset_example 8 = Some ?c" "unlocked reset_example" "memp_tab reset_example MEMP_API_MSG \<noteq> None" "memp_tab reset_example MEMP_TCP_MSG \<noteq> None"
      "transport_mbox reset_example = Some 64" "box reset_example 64 []"
    using api_start_ready by (simp_all add: reset_example_def api_ready_def box_def)
  moreover have "box reset_example 128 []" "box reset_example 192 []"
    using new_mbox_rep [of "replicate 100 None"] by (simp_all add: reset_example_def box_def)
  ultimately show ?thesis
    using close_after_reset_uses_freed_request [of reset_example 8 ?c 128 192 "[]" 64 ERR_RST "\<lambda>s. None"] by fastforce
qed

subsection \<open>The end of a listening connection\<close>

lemma memp_realloc_keeps:
  "netconns (snd (memp_realloc t t' p s)) = netconns s" "lpcbs (snd (memp_realloc t t' p s)) = lpcbs s" "pcbs (snd (memp_realloc t t' p s)) = pcbs s"
  by (auto simp: memp_realloc_def memp_malloc_def memp_free_def memp_stat_upd_def Let_def split: prod.splits option.splits)

lemma memp_malloc_lpcbs: "memp_malloc t s = (r, s') \<Longrightarrow> lpcbs s' = lpcbs s"
  and memp_malloc_pcbs: "memp_malloc t s = (r, s') \<Longrightarrow> pcbs s' = pcbs s"
  for s s' :: "'a tcp_world_scheme"
  by (auto simp: memp_malloc_def memp_stat_upd_def Let_def split: option.splits)

lemma TCP_REG_keeps:
  assumes "TCP_REG l q s = Some s'"
  shows "netconns s' = netconns s" "lpcbs s q \<noteq> None \<Longrightarrow> lpcbs s' q \<noteq> None"
  using assms by (cases l; auto simp: TCP_REG_def set_pcb_next_def split: option.splits bind_splits)+

lemma tcp_listen_keeps:
  assumes "tcp_listen p s = Some (r, s')"
  shows "netconns s' = netconns s" "r = Some q \<Longrightarrow> lpcbs s' q \<noteq> None"
proof -
  from assms obtain c where c: "pcbs s p = Some c" by (auto simp: tcp_listen_def upd_pcb_def split: option.splits)
  let ?s = "s\<lparr>pcbs := (pcbs s)(p \<mapsto> c\<lparr>pcb_state := LISTEN\<rparr>)\<rparr>"
  obtain r' s1 where m: "memp_realloc MEMP_TCP_PCB MEMP_TCP_PCB_LISTEN (Some p) ?s = (r', s1)" by fastforce
  then have "netconns s1 = netconns s" using memp_realloc_keeps(1) [of MEMP_TCP_PCB MEMP_TCP_PCB_LISTEN "Some p" ?s] by simp
  with assms c m show "netconns s' = netconns s" "r = Some q \<Longrightarrow> lpcbs s' q \<noteq> None"
    by (auto simp: tcp_listen_def upd_pcb_def Let_def split: option.splits bind_splits dest: TCP_REG_keeps)
qed

lemma set_pcb_prefix_keeps:
  assumes "set_pcb_prefix p fl fp s = Some s'"
  shows "netconns s' = netconns s" "lpcbs s q \<noteq> None \<Longrightarrow> lpcbs s' q \<noteq> None"
  using assms by (auto simp: set_pcb_prefix_def split: option.splits)

lemma new_mbox_keeps: "new_mbox s = Some (r, s') \<Longrightarrow> netconns s' = netconns s \<and> lpcbs s' = lpcbs s"
  by (auto simp: new_mbox_def Let_def split: list.splits prod.splits)

lemma listen_tcp_keeps:
  assumes "listen_tcp cn pcb s = Some s'" "netconns s cn = Some c"
  shows "\<exists>c'. netconns s' cn = Some c' \<and> nc_type c' = nc_type c \<and> (\<forall>q. nc_pcb c' = Some q \<longrightarrow> lpcbs s' q \<noteq> None)"
proof -
  obtain r s1 where l: "tcp_listen pcb s = Some (r, s1)" using assms(1) by (auto simp: listen_tcp_def split: bind_splits)
  note k = tcp_listen_keeps [OF l]
  show ?thesis
  proof (cases r)
    case None
    with assms l k(1) show ?thesis by (auto simp: listen_tcp_def upd_conn_def)
  next
    case (Some q)
    let ?s = "s1\<lparr>netconns := (netconns s)(cn \<mapsto> c\<lparr>nc_pcb := Some q\<rparr>)\<rparr>"
    obtain s3 c3 where s3: "netconns s3 cn = Some c3" "nc_type c3 = nc_type c" "nc_pcb c3 = Some q" "lpcbs s3 = lpcbs s1"
        and rest: "(if nc_acceptmbox c3 = None then upd_conn cn (\<lambda>c. c\<lparr>nc_err := ERR_MEM\<rparr>) s3
          else do { s \<leftarrow> tcp_arg q (cn + ACCEPTMBOX) s3; tcp_accept q (Some FN_ACCEPT) s }) = Some s'"
    proof (cases "nc_acceptmbox c = None")
      case True
      with assms l k(1) Some obtain b s2 where b: "new_mbox ?s = Some (b, s2)" by (cases "new_mbox ?s") (auto simp: listen_tcp_def upd_conn_def)
      then have "netconns s2 = netconns ?s" "lpcbs s2 = lpcbs s1" using new_mbox_keeps [OF b] by simp_all
      with assms l k(1) Some True b show ?thesis
        by (intro that [of "s2\<lparr>netconns := (netconns s2)(cn \<mapsto> c\<lparr>nc_pcb := Some q, nc_acceptmbox := b\<rparr>)\<rparr>" "c\<lparr>nc_pcb := Some q, nc_acceptmbox := b\<rparr>"])
          (auto simp: listen_tcp_def upd_conn_def split: if_splits)
    next
      case False
      with assms l k(1) Some show ?thesis by (intro that [of ?s "c\<lparr>nc_pcb := Some q\<rparr>"]) (auto simp: listen_tcp_def upd_conn_def)
    qed
    have q: "lpcbs s3 q \<noteq> None" using k(2) [OF Some] s3(4) by simp
    show ?thesis
    proof (cases "nc_acceptmbox c3 = None")
      case True
      with rest s3 q show ?thesis by (auto simp: upd_conn_def)
    next
      case False
      with rest obtain s4 where s4: "tcp_arg q (cn + ACCEPTMBOX) s3 = Some s4" "tcp_accept q (Some FN_ACCEPT) s4 = Some s'"
        by (auto split: bind_splits)
      note n = set_pcb_prefix_keeps [OF s4(1) [unfolded tcp_arg_def]] set_pcb_prefix_keeps [OF s4(2) [unfolded tcp_accept_def]]
      show ?thesis using s3 n(1,3) n(4) [OF n(2) [OF q]] by auto
    qed
  qed
qed

lemma post_mbox_keeps: "post_mbox b x s = Some s' \<Longrightarrow> netconns s' = netconns s \<and> lpcbs s' = lpcbs s"
  by (auto simp: post_mbox_def split: bind_splits)
text \<open>
  after \<open>listen_tcp\<close> has made the control block of a connection a listening one, which lacks the later members of a control block, the
  request to delete the connection writes to these members: \<open>do_delconn\<close> stores to memory that does not belong to the control block.
\<close>

theorem delete_listening_writes_outside:
  assumes "netconns s cn = Some c" "nc_type c = NETCONN_TCP" "nc_pcb c = Some pcb" "do_listen \<lparr>am_conn = cn, am_msg = args\<rparr> s = Some s'"
    "netconns s' cn = Some c'" "nc_pcb c' = Some q" "pcbs s' q = None"
  shows "nc_type c' = NETCONN_TCP \<and> lpcbs s' q \<noteq> None \<and> do_delconn E \<lparr>am_conn = cn, am_msg = args'\<rparr> s' = None"
proof -
  obtain s1 where s1: "listen_tcp cn pcb s = Some s1" "\<exists>b. post_mbox b None s1 = Some s'"
    using assms(1-4) by (auto simp: do_listen_def split: bind_splits)
  have "tcp_sent q None s'' = None" if "tcp_arg q 0 s' = Some s''" for s''
    using that assms(7) by (auto simp: tcp_arg_def set_pcb_prefix_def tcp_sent_def upd_pcb_def split: option.splits)
  then have "nc_type c' = NETCONN_TCP \<Longrightarrow> do_delconn E \<lparr>am_conn = cn, am_msg = args'\<rparr> s' = None"
    using assms(5,6) by (auto simp: do_delconn_def delete_tcp_def split: bind_split)
  with listen_tcp_keeps [OF s1(1) assms(1)] s1(2) assms(2,5,6) show ?thesis by (auto dest!: post_mbox_keeps)
qed

text \<open>A connection at 8 whose control block, at the first place of its pool, is made a listening one.\<close>

definition listen_example :: api_world where
  "listen_example = api_start\<lparr>
     mboxes := (mboxes api_start)(128 \<mapsto> fst (sys_mbox_new (replicate 100 None) (sys_counts api_start)),
       192 \<mapsto> fst (sys_mbox_new (replicate 100 None) (sys_counts api_start))),
     netconns := [8 \<mapsto> \<lparr>nc_type = NETCONN_TCP, nc_state = NETCONN_NONE, nc_pcb = Some 400, nc_err = 0, nc_mbox = Some 128, nc_recvmbox = None,
       nc_acceptmbox = Some 192, nc_sem = None\<rparr>],
     pcbs := [400 \<mapsto> zero_pcb]\<rparr>"

theorem delete_listening_writes_outside_witness:
  "\<exists>s' E. do_listen \<lparr>am_conn = 8, am_msg = ARG_NONE\<rparr> listen_example = Some s' \<and> do_delconn E \<lparr>am_conn = 8, am_msg = ARG_NONE\<rparr> s' = None"
proof -
  let ?l = "zero_pcb\<lparr>pcb_state := LISTEN\<rparr>"
  let ?s = "listen_example\<lparr>pcbs := [400 \<mapsto> ?l]\<rparr>"
  let ?c = "\<lparr>nc_type = NETCONN_TCP, nc_state = NETCONN_NONE, nc_pcb = Some 400, nc_err = 0, nc_mbox = Some 128, nc_recvmbox = None, nc_acceptmbox = Some 192, nc_sem = None\<rparr>"
  have "memp_tab ?s MEMP_TCP_PCB_LISTEN \<noteq> None" using api_start_tab [of MEMP_TCP_PCB_LISTEN] by (simp add: listen_example_def)
  then obtain q s1 where q: "memp_malloc MEMP_TCP_PCB_LISTEN ?s = (Some q, s1)" by (auto simp: memp_malloc_def Let_def)
  then have keep: "netconns s1 = [8 \<mapsto> ?c]" "mboxes s1 = mboxes listen_example" "lpcbs s1 = lpcbs ?s"
    using memp_malloc_keeps [OF q] memp_malloc_lpcbs [OF q] by (simp_all add: listen_example_def)
  have z: "pcbs listen_example 400 = Some zero_pcb" "pcbs listen_example = [400 \<mapsto> zero_pcb]" "netconns listen_example = [8 \<mapsto> ?c]" by (simp_all add: listen_example_def)
  have pc: "pcbs s1 = [400 \<mapsto> ?l]" using memp_malloc_pcbs [OF q] by simp
  have "\<exists>s3 l. tcp_listen 400 listen_example = Some (Some q, s3) \<and> netconns s3 = [8 \<mapsto> ?c] \<and> pcbs s3 = Map.empty \<and> lpcbs s3 q = Some l \<and>
      mboxes s3 = mboxes listen_example"
    using z q keep pc by (simp add: tcp_listen_def upd_pcb_def memp_realloc_def TCP_REG_def set_pcb_next_def memp_free_def memp_stat_upd_def Let_def)
  then obtain s3 l where s3: "tcp_listen 400 listen_example = Some (Some q, s3)" "netconns s3 = [8 \<mapsto> ?c]" "pcbs s3 = Map.empty" "lpcbs s3 q = Some l"
      "mboxes s3 = mboxes listen_example" by blast
  let ?s4 = "s3\<lparr>netconns := [8 \<mapsto> ?c\<lparr>nc_pcb := Some q\<rparr>], lpcbs := (lpcbs s3)(q \<mapsto> l\<lparr>pcb_callback_arg := 32, pcb_accept := Some FN_ACCEPT\<rparr>)\<rparr>"
  have listen: "listen_tcp 8 400 listen_example = Some ?s4"
    using s3 by (simp add: listen_tcp_def upd_conn_def tcp_arg_def tcp_accept_def set_pcb_prefix_def)
  have "box ?s4 128 []" using new_mbox_rep [of "replicate 100 None"] s3(5) by (simp add: listen_example_def box_def)
  then obtain m where m: "post_mbox (Some 128) None ?s4 = Some (?s4\<lparr>mboxes := (mboxes ?s4)(128 \<mapsto> m)\<rparr>)"
    using post_mbox_box [of ?s4 128 "[]" None] by auto
  let ?s' = "?s4\<lparr>mboxes := (mboxes ?s4)(128 \<mapsto> m)\<rparr>"
  have s': "do_listen \<lparr>am_conn = 8, am_msg = ARG_NONE\<rparr> listen_example = Some ?s'" using z listen m by (simp add: do_listen_def)
  have k': "netconns ?s' 8 = Some (?c\<lparr>nc_pcb := Some q\<rparr>)" "pcbs ?s' q = None" using s3(3) by simp_all
  have "netconns listen_example 8 = Some ?c" by (simp add: listen_example_def)
  then show ?thesis
    using s' k' delete_listening_writes_outside [of listen_example 8 ?c 400 ARG_NONE ?s' "?c\<lparr>nc_pcb := Some q\<rparr>" q] by auto
qed

end
