(* ===== verification/Socket_Stream.thy ===== *)
theory Socket_Stream
  imports Sockets
begin

text \<open>Reading a TCP socket piece by piece: what the application gets of the data in the netbuf that the last read left over.\<close>

text \<open>Socket \<open>i\<close> of a TCP connection has a netbuf left over, on the pbufs \<open>ps\<close>.\<close>

definition left_over :: "int \<Rightarrow> lwip_socket_t \<Rightarrow> u32 list \<Rightarrow> 'a sock_world_scheme \<Rightarrow> bool" where
  "left_over i k ps s \<longleftrightarrow> 0 \<le> i \<and> i < 10 \<and> sock_at i s = Some k \<and>
     (\<exists>cn c. sk_conn k = Some cn \<and> netconns s cn = Some c \<and> nc_type c = NETCONN_TCP) \<and>
     (\<exists>b nb p pb. sk_lastdata k = Some b \<and> netbufs s b = Some nb \<and> nb_p nb = Some p \<and> pbufs s p = Some pb \<and>
        chain (pb_nx (pbufs s)) (Some p) ps \<and> unat (pb_tot_len pb) = length (concat (map (pbuf_bytes (pbufs s) (mem8 s)) ps)))"

lemma word_int: "0 \<le> l \<Longrightarrow> l < 65536 \<Longrightarrow> uint (word_of_int l :: u16) = l" "0 \<le> l \<Longrightarrow> l < 65536 \<Longrightarrow> unat (word_of_int l :: u16) = nat l"
  by (simp_all add: uint_word_of_int unsigned_of_int take_bit_eq_mod unat_eq_nat_uint)

lemma read_continues:
  assumes lo: "left_over i k ps s" and len: "0 < len" "unat (sk_lastoffset k) + nat len < length (concat (map (pbuf_bytes (pbufs s) (mem8 s)) ps))"
    and ap: "\<forall>q\<in>set ps. pbuf_apart mem (nat len) (pbufs s) q"
  shows "lwip_read W ram_addr junk i mem len s = Some (len,
    s\<lparr>mem8 := st_bytes mem (take (nat len) (skipped (unat (sk_lastoffset k)) (map (pbuf_bytes (pbufs s) (mem8 s)) ps))) (mem8 s),
      sockets := (sockets s)[nat i := k\<lparr>sk_lastoffset := sk_lastoffset k + word_of_int len\<rparr>]\<rparr>)"
proof -
  obtain cn c b nb p pb where o: "sk_conn k = Some cn" "netconns s cn = Some c" "nc_type c = NETCONN_TCP" "sk_lastdata k = Some b" "netbufs s b = Some nb"
      "nb_p nb = Some p" "pbufs s p = Some pb" "chain (pb_nx (pbufs s)) (Some p) ps" "unat (pb_tot_len pb) = length (concat (map (pbuf_bytes (pbufs s) (mem8 s)) ps))"
    and i: "0 \<le> i" "i < 10" "sock_at i s = Some k"
    using lo by (auto simp: left_over_def)
  let ?off = "sk_lastoffset k"
  let ?n = "pb_tot_len pb - ?off"
  have n: "unat ?n = unat (pb_tot_len pb) - unat ?off" using len o(9) by (intro unat_sub) (simp add: word_le_unat)
  have l: "0 \<le> len" "len < 65536" using len o(9) unat_u16_less [of "pb_tot_len pb"] by simp_all
  have u: "unat (word_of_int len :: u16) = nat len" "uint (word_of_int len :: u16) = len" using word_int [OF l] by simp_all
  have un: "uint ?n = int (unat ?n)" by simp
  have small: "\<not> uint ?n < len" "uint ?n - len > 0" using n len o(9) unfolding un by linarith+
  let ?m = "st_bytes mem (take (nat len) (skipped (unat ?off) (map (pbuf_bytes (pbufs s) (mem8 s)) ps))) (mem8 s)"
  have copy: "netbuf_copy_partial (Some b) mem (word_of_int len) ?off s = Some (s\<lparr>mem8 := ?m\<rparr>)"
    using copy_outer_eq [of "pbufs s" "Some p" ps mem "word_of_int len" ?off 0 "mem8 s"] o ap u by (simp add: netbuf_copy_partial_def)
  have "recv_copy ram_addr i b mem len s = Some (word_of_int len,
      upd_sock i (\<lambda>k. k\<lparr>sk_lastdata := Some b, sk_lastoffset := sk_lastoffset k + word_of_int len\<rparr>) (s\<lparr>mem8 := ?m\<rparr>))"
    using i o copy small u by (simp add: recv_copy_def netbuf_len_def netconn_type_of_def Let_def)
  moreover have "sockets s ! nat i = k" using i(3) by (simp add: sock_at_def split: if_splits)
  moreover have "k\<lparr>sk_lastdata := Some b, sk_lastoffset := n\<rparr> = k\<lparr>sk_lastoffset := n\<rparr>" for n using o(4) by (cases k) simp
  ultimately show ?thesis
    using i o u by (simp add: lwip_read_def lwip_recv_def lwip_recvfrom_def get_socket_def recv_from_def upd_sock_def)
qed

text \<open>
  C26: two reads of a TCP socket that leave some data over. The first gives the first bytes of the data, over the pbufs. The second begins
  where the first ended when the data is in one pbuf; with several pbufs it gives \<open>skipped l1\<close> of them, which lacks bytes.
\<close>

theorem socket_reads_skip:
  assumes lo: "left_over i k ps s" "sk_lastoffset k = 0" and len: "0 < l1" "0 < l2" "nat l1 + nat l2 < length (concat (map (pbuf_bytes (pbufs s) (mem8 s)) ps))"
    and ap: "\<forall>q\<in>set ps. pbuf_apart m1 (nat l1) (pbufs s) q \<and> pbuf_apart m2 (nat l2) (pbufs s) q"
  defines "data \<equiv> map (pbuf_bytes (pbufs s) (mem8 s)) ps"
  shows "\<exists>s1 s2. lwip_read W ram_addr junk i m1 l1 s = Some (l1, s1) \<and> lwip_read W ram_addr junk i m2 l2 s1 = Some (l2, s2) \<and>
    mem8 s1 = st_bytes m1 (take (nat l1) (concat data)) (mem8 s) \<and>
    mem8 s2 = st_bytes m2 (take (nat l2) (skipped (nat l1) data)) (mem8 s1) \<and>
    (ps = [q] \<longrightarrow> skipped (nat l1) data = drop (nat l1) (concat data))"
proof -
  let ?k = "k\<lparr>sk_lastoffset := word_of_int l1\<rparr>"
  let ?s1 = "s\<lparr>mem8 := st_bytes m1 (take (nat l1) (concat data)) (mem8 s), sockets := (sockets s)[nat i := ?k]\<rparr>"
  have r1: "lwip_read W ram_addr junk i m1 l1 s = Some (l1, ?s1)"
    using read_continues [OF lo(1) len(1), of m1 W ram_addr junk] len ap lo(2) by (simp add: data_def skipped_0)
  have same: "map (pbuf_bytes (pbufs s) (st_bytes m1 (take (nat l1) (concat data)) (mem8 s))) ps = data"
    unfolding data_def using ap pbuf_bytes_st_apart [of m1 "nat l1" "pbufs s" _ 0] by simp
  have "length (concat data) < 65536"
    using lo(1) unat_u16_less unfolding left_over_def data_def by metis
  then have "l1 < 65536" using len by (simp add: data_def)
  then have off: "unat (sk_lastoffset ?k) = nat l1" using word_int(2) [of l1] len(1) by simp
  have lo': "left_over i ?k ps ?s1"
    using lo(1) unfolding left_over_def sock_at_def data_def [symmetric] by (auto simp: same split: if_splits)
  let ?s2 = "?s1\<lparr>mem8 := st_bytes m2 (take (nat l2) (skipped (nat l1) data)) (mem8 ?s1),
      sockets := (sockets ?s1)[nat i := ?k\<lparr>sk_lastoffset := sk_lastoffset ?k + word_of_int l2\<rparr>]\<rparr>"
  have "lwip_read W ram_addr junk i m2 l2 ?s1 = Some (l2, ?s2)"
    using read_continues [OF lo' len(2), of m2 W ram_addr junk] off len(3) [folded data_def] ap by (simp add: same)
  moreover have "ps = [q] \<longrightarrow> skipped (nat l1) data = drop (nat l1) (concat data)" by (auto simp: data_def)
  ultimately show ?thesis using r1 by (intro exI [of _ ?s1] exI [of _ ?s2]) simp
qed

text \<open>Socket 3 with a netbuf on two pbufs of two bytes each.\<close>

definition read_example :: sock_world where
  "read_example = api_world.extend (netbuf_world.extend netbuf_example
     (api_world.fields [16 \<mapsto> \<lparr>nc_type = NETCONN_TCP, nc_state = NETCONN_NONE, nc_pcb = None, nc_err = 0, nc_mbox = None, nc_recvmbox = None, nc_acceptmbox = None, nc_sem = None\<rparr>]
       Map.empty Map.empty Map.empty Map.empty None [] 0 \<lparr>st_mbox_used = 0, st_mbox_max = 0, st_sem_used = 0, st_sem_max = 0\<rparr> []))
     (sock_world.fields ((replicate 10 \<lparr>sk_conn = None, sk_lastdata = None, sk_lastoffset = 0\<rparr>)[3 := \<lparr>sk_conn = Some 16, sk_lastdata = Some 8, sk_lastoffset = 0\<rparr>]))"

theorem socket_reads_skip_witness:
  "\<exists>s1 s2. lwip_read (\<lambda>s. None) 0 \<lparr>nb_p = None, nb_ptr = None, nb_fromaddr = None, nb_fromport = 0, nb_err = 0\<rparr> 3 4000 1 read_example = Some (1, s1) \<and> lwip_read (\<lambda>s. None) 0 \<lparr>nb_p = None, nb_ptr = None, nb_fromaddr = None, nb_fromport = 0, nb_err = 0\<rparr> 3 5000 2 s1 = Some (2, s2) \<and>
     mem8 s2 4000 = 1 \<and> mem8 s2 5000 = 2 \<and> mem8 s2 5001 = 4"
proof -
  let ?k = "\<lparr>sk_conn = Some 16, sk_lastdata = Some 8, sk_lastoffset = 0\<rparr>"
  have f: "pbufs read_example = pbufs netbuf_example" "mem8 read_example = mem8 netbuf_example" "netbufs read_example = netbufs netbuf_example"
      "sock_at 3 read_example = Some ?k" "\<exists>c. netconns read_example 16 = Some c \<and> nc_type c = NETCONN_TCP"
    by (simp_all add: read_example_def sock_at_def api_world.defs netbuf_world.defs sock_world.defs)
  have data: "map (pbuf_bytes (pbufs read_example) (mem8 read_example)) [100, 200] = [[1, 2], [3, 4]]"
    by (simp add: f pbuf_bytes_def ld_bytes_def netbuf_example_def udp_world.defs netbuf_world.defs upt_rec)
  have ch: "chain (pb_nx (pbufs read_example)) (Some 100) [100, 200]"
    by (simp add: f pb_nx_def netbuf_example_def udp_world.defs netbuf_world.defs)
  have "\<exists>nb. netbufs read_example 8 = Some nb \<and> nb_p nb = Some 100" "\<exists>pb. pbufs read_example 100 = Some pb \<and> unat (pb_tot_len pb) = 4"
    by (simp_all add: f netbuf_example_def udp_world.defs netbuf_world.defs)
  then have "left_over 3 ?k [100, 200] read_example" unfolding left_over_def data using f(4,5) ch by auto
  moreover have "\<forall>q\<in>set [100, 200]. pbuf_apart 4000 (nat 1) (pbufs read_example) q \<and> pbuf_apart 5000 (nat 2) (pbufs read_example) q"
    by (simp add: f pbuf_apart_def apart_def netbuf_example_def udp_world.defs netbuf_world.defs)
  ultimately show ?thesis
    using socket_reads_skip [of 3 ?k "[100, 200]" read_example 1 2 4000 5000 "\<lambda>s. None" 0 "\<lparr>nb_p = None, nb_ptr = None, nb_fromaddr = None, nb_fromport = 0, nb_err = 0\<rparr>" 0] data
    by (fastforce simp: st_bytes_def)
qed

end
