(* ===== verification/Cli_Search.thy ===== *)
theory Cli_Search
  imports Net_Prelude "HOL-Library.Sublist"
begin

text \<open>
  The command line interface reads commands from a stream (\<^verbatim>\<open>cli/search_state.c\<close>, \<^verbatim>\<open>cli/socket_helper.c\<close>,
  \<^verbatim>\<open>real_socket_helper.c\<close>, \<^verbatim>\<open>cli_client_handle_request\<close> of \<^verbatim>\<open>cli/cli_main.c\<close>): the search for a needle in a
  stream of bytes with a buffer that grows. The results of the successive calls of \<^verbatim>\<open>read\<close> and
  \<^verbatim>\<open>write\<close> are an argument; the program ends (\<^verbatim>\<open>die\<close>), faults or is still blocked when the result is \<open>None\<close>.
  Sizes are unsigned 32 bit numbers: sums that may wrap are taken modulo 2 to the power 32.
\<close>

subsection \<open>Reading and writing\<close>

text \<open>
  What arrives on a descriptor: chunks of bytes (an empty one is the end of the stream), interrupts and errors. \<^verbatim>\<open>read\<close> gives at most the
  number of bytes it is asked for and leaves the rest of a chunk for later; when nothing has arrived it blocks.
\<close>

datatype read_result = Data "u8 list" | Interrupted | Failed

fun sys_read :: "nat \<Rightarrow> read_result list \<Rightarrow> (read_result \<times> read_result list) option" where
  "sys_read n [] = None"
| "sys_read n (Data bs # rs) = Some (Data (take n bs), if n < length bs then Data (drop n bs) # rs else rs)"
| "sys_read n (r # rs) = Some (r, rs)"

fun weight :: "read_result \<Rightarrow> nat" where
  "weight (Data bs) = Suc (length bs)"
| "weight r = 1"

lemma sys_read_weight: "sys_read n rs = Some (r, rs') \<Longrightarrow> r \<noteq> Data [] \<Longrightarrow> sum_list (map weight rs') < sum_list (map weight rs)"
  by (cases "(n, rs)" rule: sys_read.cases) (auto split: if_splits)

function read_once_loop :: "nat \<Rightarrow> read_result list \<Rightarrow> ((int \<times> u8 list) \<times> read_result list) option" where
  "read_once_loop n rs =
     (case sys_read n rs of
        None \<Rightarrow> None
      | Some (Interrupted, rs) \<Rightarrow> read_once_loop n rs
      | Some (Failed, rs) \<Rightarrow> Some ((- 1, []), rs)
      | Some (Data bs, rs) \<Rightarrow> Some ((int (length bs), bs), rs))"
  by pat_completeness auto
termination by (relation "measure (\<lambda>(n, rs). sum_list (map weight rs))") (auto dest: sys_read_weight)

declare read_once_loop.simps [simp del]

definition read_once :: "int \<Rightarrow> nat \<Rightarrow> read_result list \<Rightarrow> ((int \<times> u8 list) \<times> read_result list) option" where
  "read_once fd n rs = (if fd \<ge> 0 then read_once_loop n rs else None)"

definition real_read_once :: "int \<Rightarrow> nat \<Rightarrow> read_result list \<Rightarrow> ((int \<times> u8 list) \<times> read_result list) option" where
  "real_read_once fd n rs = (if fd \<ge> 0 then read_once_loop n rs else None)"

text \<open>\<open>readn\<close>: the bytes read so far are \<open>acc\<close>.\<close>

function readn_loop :: "nat \<Rightarrow> u8 list \<Rightarrow> read_result list \<Rightarrow> ((int \<times> u8 list) \<times> read_result list) option" where
  "readn_loop nleft acc rs =
     (if nleft > 0 then
        (case sys_read nleft rs of
           None \<Rightarrow> None
         | Some (Interrupted, rs) \<Rightarrow> readn_loop nleft acc rs
         | Some (Failed, rs) \<Rightarrow> Some ((- 1, acc), rs)
         | Some (Data bs, rs) \<Rightarrow>
             if bs = [] then Some ((int (length acc), acc), rs)
             else readn_loop (nleft - length bs) (acc @ bs) rs)
      else Some ((int (length acc), acc), rs))"
  by pat_completeness auto
termination by (relation "measure (\<lambda>(n, acc, rs). sum_list (map weight rs))") (auto dest: sys_read_weight)

declare readn_loop.simps [simp del]

definition readn :: "int \<Rightarrow> nat \<Rightarrow> read_result list \<Rightarrow> ((int \<times> u8 list) \<times> read_result list) option" where
  "readn fd n rs = (if fd \<ge> 0 then readn_loop n [] rs else None)"

definition real_readn :: "int \<Rightarrow> nat \<Rightarrow> read_result list \<Rightarrow> ((int \<times> u8 list) \<times> read_result list) option" where
  "real_readn fd n rs = (if fd \<ge> 0 then readn_loop n [] rs else None)"

text \<open>\<open>writen\<close>: the results of \<^verbatim>\<open>write\<close> are the number of bytes taken, an interrupt, or an error.\<close>

datatype write_result = Taken nat | WInterrupted | WFailed

fun writen_loop :: "u8 list \<Rightarrow> u8 list \<Rightarrow> write_result list \<Rightarrow> ((int \<times> u8 list) \<times> write_result list) option" where
  "writen_loop buf out ws =
     (if length buf > 0 then
        (case ws of
           [] \<Rightarrow> None
         | WInterrupted # ws \<Rightarrow> writen_loop buf out ws
         | WFailed # ws \<Rightarrow> Some ((- 1, out), ws)
         | Taken k # ws \<Rightarrow>
             if k > length buf then None
             else if k = 0 then Some ((- 1, out), ws)
             else writen_loop (drop k buf) (out @ take k buf) ws)
      else Some ((0, out), ws))"

definition real_writen :: "int \<Rightarrow> u8 list \<Rightarrow> write_result list \<Rightarrow> ((int \<times> u8 list) \<times> write_result list) option" where
  "real_writen fd buf ws = (if fd \<ge> 0 then writen_loop buf [] ws else None)"

definition writen :: "int \<Rightarrow> u8 list \<Rightarrow> write_result list \<Rightarrow> ((int \<times> u8 list) \<times> write_result list) option" where
  "writen fd buf ws = (if fd < 0 then real_writen (- fd) buf ws else writen_loop buf [] ws)"

text \<open>\<open>writenf\<close> with the formatted text \<open>str\<close>, and \<open>writenstr\<close>, \<open>writenstrs\<close>.\<close>

abbreviation WRITEN_MAX_LEN :: nat where "WRITEN_MAX_LEN \<equiv> 4096"

definition writenf :: "int \<Rightarrow> u8 list \<Rightarrow> write_result list \<Rightarrow> ((int \<times> u8 list) \<times> write_result list) option" where
  "writenf fd str ws = (if length str < WRITEN_MAX_LEN then writen fd str ws else Some ((- 1, []), ws))"

definition writenstr :: "int \<Rightarrow> u8 list \<Rightarrow> write_result list \<Rightarrow> ((int \<times> u8 list) \<times> write_result list) option" where
  "writenstr fd str ws = writen fd str ws"

fun writenstrs :: "int \<Rightarrow> u8 list list \<Rightarrow> u8 list \<Rightarrow> write_result list \<Rightarrow> ((int \<times> u8 list) \<times> write_result list) option" where
  "writenstrs fd [] out ws = Some ((0, out), ws)"
| "writenstrs fd (str # strs) out ws =
     (case writenstr fd str ws of
        None \<Rightarrow> None
      | Some ((ret, o1), ws) \<Rightarrow> if ret = 0 then writenstrs fd strs (out @ o1) ws else Some ((ret, out @ o1), ws))"

definition real_writenf :: "int \<Rightarrow> u8 list \<Rightarrow> write_result list \<Rightarrow> ((int \<times> u8 list) \<times> write_result list) option" where
  "real_writenf fd str ws = (if length str < WRITEN_MAX_LEN then real_writen fd str ws else Some ((- 1, []), ws))"

definition real_writenstr :: "int \<Rightarrow> u8 list \<Rightarrow> write_result list \<Rightarrow> ((int \<times> u8 list) \<times> write_result list) option" where
  "real_writenstr fd str ws = real_writen fd str ws"

fun real_writenstrs :: "int \<Rightarrow> u8 list list \<Rightarrow> u8 list \<Rightarrow> write_result list \<Rightarrow> ((int \<times> u8 list) \<times> write_result list) option" where
  "real_writenstrs fd [] out ws = Some ((0, out), ws)"
| "real_writenstrs fd (str # strs) out ws =
     (case real_writenstr fd str ws of
        None \<Rightarrow> None
      | Some ((ret, o1), ws) \<Rightarrow> if ret = 0 then real_writenstrs fd strs (out @ o1) ws else Some ((ret, out @ o1), ws))"

subsection \<open>The buffer\<close>

record search_state_t =
  chbuf :: "u8 list"
  capacity :: nat
  max_capacity :: nat
  used :: nat
  search_offset :: nat
  needle_offset :: nat

definition search_state_init :: "nat \<Rightarrow> nat \<Rightarrow> search_state_t option" where
  "search_state_init init_size max_size =
     (if init_size = 0 \<or> max_size < init_size then None
      else Some \<lparr>chbuf = replicate init_size 0, capacity = init_size, max_capacity = max_size, used = 0,
                 search_offset = 0, needle_offset = 0\<rparr>)"

text \<open>\<^verbatim>\<open>realloc\<close> fails, or gives memory whose new part holds the first bytes of \<open>junk\<close>.\<close>

definition search_state_grow_if_full :: "(nat \<Rightarrow> u8 list) option \<Rightarrow> search_state_t \<Rightarrow> (int \<times> search_state_t) option" where
  "search_state_grow_if_full junk st =
     (if used st = capacity st then
        let newsize = 2 * capacity st mod 2 ^ 32
        in if newsize > max_capacity st \<and> used st = max_capacity st then Some (2, st)
           else
             let newsize = (if newsize > max_capacity st then max_capacity st else newsize)
             in case junk of
                  None \<Rightarrow> None
                | Some f \<Rightarrow>
                    let new = take newsize (chbuf st @ f (newsize - length (chbuf st)))
                    in Some (1, st\<lparr>capacity := newsize, chbuf := new\<rparr>)
      else Some (0, st))"

fun match_here :: "u8 list \<Rightarrow> nat \<Rightarrow> u8 list \<Rightarrow> bool option" where
  "match_here buf off [] = Some True"
| "match_here buf off (c # cs) =
     (if off < length buf then if buf ! off \<noteq> c then Some False else match_here buf (Suc off) cs else None)"

partial_function (option) scan_loop :: "u8 list \<Rightarrow> nat \<Rightarrow> search_state_t \<Rightarrow> (bool \<times> search_state_t) option" where
  "scan_loop needle nread st =
     (if (search_offset st + length needle) mod 2 ^ 32 \<le> (used st + nread) mod 2 ^ 32 then
        (case match_here (chbuf st) (search_offset st) needle of
           None \<Rightarrow> None
         | Some same \<Rightarrow>
             if same then Some (True, st\<lparr>needle_offset := search_offset st, search_offset := search_offset st + 1\<rparr>)
             else scan_loop needle nread (st\<lparr>search_offset := search_offset st + 1\<rparr>))
      else Some (False, st))"

definition store :: "u8 list \<Rightarrow> search_state_t \<Rightarrow> search_state_t" where
  "store bs st = st\<lparr>chbuf := take (used st) (chbuf st) @ bs @ drop (used st + length bs) (chbuf st)\<rparr>"

text \<open>The end of a turn of the loop; the result is the value that the function returns, if it does.\<close>

definition search_turn :: "u8 list \<Rightarrow> u8 list \<Rightarrow> int \<Rightarrow> search_state_t \<Rightarrow> (int option \<times> int \<times> search_state_t) option" where
  "search_turn needle bs max_reads st =
     (case scan_loop needle (length bs) (store bs st) of
        None \<Rightarrow> None
      | Some (found, st) \<Rightarrow>
          let st = st\<lparr>used := used st + length bs\<rparr>
          in if found then Some (Some 0, max_reads, st)
             else if max_reads \<noteq> 0 then
               let max_reads = (if bs \<noteq> [] then max_reads - 1 else max_reads)
               in if max_reads = 0 then Some (Some (- 3), max_reads, st) else Some (None, max_reads, st)
             else Some (None, max_reads, st))"

function search_loop :: "(nat \<Rightarrow> u8 list) option \<Rightarrow> u8 list \<Rightarrow> int \<Rightarrow> read_result list \<Rightarrow> search_state_t \<Rightarrow> (int \<times> search_state_t \<times> read_result list) option" where
  "search_loop junk needle max_reads rs st =
     (case search_state_grow_if_full junk st of
        None \<Rightarrow> None
      | Some (g, st) \<Rightarrow>
          if g = 2 then Some (- 2, st, rs)
          else
            case sys_read (capacity st - used st) rs of
              None \<Rightarrow> None
            | Some (Interrupted, rs) \<Rightarrow> search_loop junk needle max_reads rs st
            | Some (Failed, rs) \<Rightarrow> Some (- 1, st, rs)
            | Some (Data bs, rs) \<Rightarrow>
                if bs = [] then Some (1, st, rs)
                else
                  case search_turn needle bs max_reads st of
                    None \<Rightarrow> None
                  | Some (Some ret, max_reads, st) \<Rightarrow> Some (ret, st, rs)
                  | Some (None, max_reads, st) \<Rightarrow> search_loop junk needle max_reads rs st)"
  by pat_completeness auto
termination by (relation "measure (\<lambda>(junk, needle, max_reads, rs, st). sum_list (map weight rs))") (auto dest: sys_read_weight)

declare search_loop.simps [simp del]

text \<open>In the first turn nothing is read: the needle may be in the buffer already.\<close>

definition search_all :: "(nat \<Rightarrow> u8 list) option \<Rightarrow> u8 list \<Rightarrow> int \<Rightarrow> read_result list \<Rightarrow> search_state_t \<Rightarrow> (int \<times> search_state_t \<times> read_result list) option" where
  "search_all junk needle max_reads rs st =
     (if needle = [] then None
      else
        case search_turn needle [] max_reads st of
          None \<Rightarrow> None
        | Some (Some ret, max_reads, st) \<Rightarrow> Some (ret, st, rs)
        | Some (None, max_reads, st) \<Rightarrow> search_loop junk needle max_reads rs st)"

definition real_read_search where
  "real_read_search junk fd needle st max_reads rs = (if fd \<ge> (0 :: int) then search_all junk needle max_reads rs st else None)"

definition read_search where
  "read_search junk fd needle st max_reads rs =
     (if fd < (0 :: int) then real_read_search junk (- fd) needle st max_reads rs else search_all junk needle max_reads rs st)"

subsection \<open>The search is exact\<close>

definition occurs :: "u8 list \<Rightarrow> nat \<Rightarrow> u8 list \<Rightarrow> bool" where
  "occurs needle i d \<longleftrightarrow> i + length needle \<le> length d \<and> take (length needle) (drop i d) = needle"

text \<open>The reference: the first place from \<open>b\<close> on at which the needle occurs.\<close>

definition find_needle :: "u8 list \<Rightarrow> nat \<Rightarrow> u8 list \<Rightarrow> nat option" where
  "find_needle needle b d = find (\<lambda>i. occurs needle i d) [b..<Suc (length d) - length needle]"

lemma find_needle_None: "needle \<noteq> [] \<Longrightarrow> find_needle needle b d = None \<longleftrightarrow> (\<forall>i \<ge> b. \<not> occurs needle i d)"
  by (auto simp: find_needle_def find_None_iff occurs_def)

lemma find_needle_Some:
  "needle \<noteq> [] \<Longrightarrow> find_needle needle b d = Some i \<longleftrightarrow> b \<le> i \<and> occurs needle i d \<and> (\<forall>j. b \<le> j \<and> j < i \<longrightarrow> \<not> occurs needle j d)"
proof -
  assume n: "needle \<noteq> []"
  have in_range: "occurs needle j d \<Longrightarrow> j < Suc (length d) - length needle" for j by (auto simp: occurs_def)
  show ?thesis
  proof
    assume "find_needle needle b d = Some i"
    then obtain k where "k < Suc (length d) - length needle - b" "i = b + k" "occurs needle i d" "\<forall>j<k. \<not> occurs needle (b + j) d"
      by (auto simp: find_needle_def find_Some_iff)
    then show "b \<le> i \<and> occurs needle i d \<and> (\<forall>j. b \<le> j \<and> j < i \<longrightarrow> \<not> occurs needle j d)" by (metis add_less_cancel_left le_add1 le_iff_add)
  next
    assume i: "b \<le> i \<and> occurs needle i d \<and> (\<forall>j. b \<le> j \<and> j < i \<longrightarrow> \<not> occurs needle j d)"
    then show "find_needle needle b d = Some i"
      using in_range [of i] by (auto simp: find_needle_def find_Some_iff intro!: exI [of _ "i - b"])
  qed
qed

lemma match_here_eq: "off + length cs \<le> length buf \<Longrightarrow> match_here buf off cs = Some (take (length cs) (drop off buf) = cs)"
  by (induction buf off cs rule: match_here.induct) (auto simp: Cons_nth_drop_Suc [symmetric])

definition st_ok :: "search_state_t \<Rightarrow> bool" where
  "st_ok st \<longleftrightarrow> length (chbuf st) = capacity st \<and> used st \<le> capacity st \<and> 0 < capacity st \<and> capacity st \<le> max_capacity st \<and> max_capacity st < 2 ^ 30"

definition contents :: "search_state_t \<Rightarrow> u8 list" where
  "contents st = take (used st) (chbuf st)"

lemma scan_loop_eq:
  assumes "n = used st + nread" "n \<le> length (chbuf st)" "length (chbuf st) < 2 ^ 30" "needle \<noteq> []" "length needle < 2 ^ 30" "search_offset st < 2 ^ 30"
  defines "d \<equiv> take n (chbuf st)"
  shows "scan_loop needle nread st =
    (case find_needle needle (search_offset st) d of
       Some i \<Rightarrow> Some (True, st\<lparr>needle_offset := i, search_offset := Suc i\<rparr>)
     | None \<Rightarrow> Some (False, st\<lparr>search_offset := max (search_offset st) (Suc n - length needle)\<rparr>))"
  using assms(1-6) unfolding d_def
proof (induction "Suc n - search_offset st" arbitrary: st rule: less_induct)
  case less
  let ?d = "take n (chbuf st)"
  have fn: "find_needle needle b ?d = find (\<lambda>i. occurs needle i ?d) [b..<Suc n - length needle]" for b
    using less.prems(2) by (simp add: find_needle_def)
  show ?case
  proof (cases "search_offset st + length needle \<le> n")
    case False
    then have "find_needle needle (search_offset st) ?d = None" by (simp add: fn)
    moreover have "scan_loop needle nread st = Some (False, st)" using False less.prems by (subst scan_loop.simps) simp
    moreover have "max (search_offset st) (Suc n - length needle) = search_offset st" using False by simp
    ultimately show ?thesis by simp
  next
    case True
    have occ: "occurs needle (search_offset st) ?d \<longleftrightarrow> take (length needle) (drop (search_offset st) (chbuf st)) = needle"
      using True less.prems by (simp add: occurs_def drop_take min_def)
    have m: "match_here (chbuf st) (search_offset st) needle = Some (occurs needle (search_offset st) ?d)"
      using match_here_eq [of "search_offset st" needle "chbuf st"] True less.prems occ by simp
    have upt: "[search_offset st..<Suc n - length needle] = search_offset st # [Suc (search_offset st)..<Suc n - length needle]"
      using True by (simp add: upt_rec)
    show ?thesis
    proof (cases "occurs needle (search_offset st) ?d")
      case occurs: True
      then have "find_needle needle (search_offset st) ?d = Some (search_offset st)" by (simp add: fn upt)
      with m occurs True less.prems show ?thesis by (subst scan_loop.simps) simp
    next
      case False
      let ?st = "st\<lparr>search_offset := Suc (search_offset st)\<rparr>"
      have "find_needle needle (search_offset st) ?d = find_needle needle (Suc (search_offset st)) ?d"
        using False by (simp add: fn upt)
      moreover have "scan_loop needle nread st = scan_loop needle nread ?st" using m False True less.prems by (subst scan_loop.simps) simp
      moreover have "max (search_offset st) (Suc n - length needle) = max (search_offset ?st) (Suc n - length needle)" using True by simp
      moreover have "scan_loop needle nread ?st = (case find_needle needle (search_offset ?st) (take n (chbuf ?st)) of
          Some i \<Rightarrow> Some (True, ?st\<lparr>needle_offset := i, search_offset := Suc i\<rparr>)
        | None \<Rightarrow> Some (False, ?st\<lparr>search_offset := max (search_offset ?st) (Suc n - length needle)\<rparr>))"
      proof (rule less.hyps)
        have "0 < length needle" using less.prems(4) by simp
        then have "Suc (search_offset st) \<le> n" using True by linarith
        then show "search_offset ?st < 2 ^ 30" using less.prems(2,3) by simp
      qed (use True less.prems in simp_all)
      ultimately show ?thesis by (cases "find_needle needle (Suc (search_offset st)) ?d") simp_all
    qed
  qed
qed

text \<open>
  What a search that began at \<open>b\<close> knows: the needle does not occur before the place at which it goes on,
  and it has only looked at places at which the needle would fit.
\<close>

definition searched :: "u8 list \<Rightarrow> nat \<Rightarrow> search_state_t \<Rightarrow> bool" where
  "searched needle b st \<longleftrightarrow> b \<le> search_offset st \<and> (search_offset st = b \<or> search_offset st + length needle \<le> Suc (used st)) \<and>
     (\<forall>i. b \<le> i \<and> i < search_offset st \<longrightarrow> \<not> occurs needle i (contents st))"

lemma occurs_append: "i + length needle \<le> length d \<Longrightarrow> occurs needle i (d @ bs) = occurs needle i d"
  by (auto simp: occurs_def)

lemma store_props:
  assumes "st_ok st" "used st + length bs \<le> capacity st"
  shows "take (used st + length bs) (chbuf (store bs st)) = contents st @ bs" "length (chbuf (store bs st)) = capacity st"
  using assms by (cases bs; auto simp: store_def contents_def st_ok_def min_def)+

lemma find_needle_from:
  assumes "needle \<noteq> []" "b \<le> k" "\<And>i. b \<le> i \<Longrightarrow> i < k \<Longrightarrow> \<not> occurs needle i d"
  shows "find_needle needle k d = find_needle needle b d"
proof (cases "find_needle needle k d")
  case None
  then have "\<not> occurs needle i d" if "b \<le> i" for i
    using that find_needle_None [OF assms(1), of k d] assms(3) by (cases "i < k") auto
  then have "find_needle needle b d = None" using find_needle_None [OF assms(1), of b d] by simp
  with None show ?thesis by simp
next
  case (Some i)
  then have i: "k \<le> i" "occurs needle i d" "\<And>j. k \<le> j \<Longrightarrow> j < i \<Longrightarrow> \<not> occurs needle j d"
    using find_needle_Some [OF assms(1), of k d i] by auto
  have "\<not> occurs needle j d" if "b \<le> j" "j < i" for j
    using that i(3) assms(3) by (cases "j < k") auto
  then have "find_needle needle b d = Some i" using find_needle_Some [OF assms(1), of b d i] i assms(2) by simp
  with Some show ?thesis by simp
qed

lemma search_turn_exact:
  assumes ok: "st_ok st" "used st + length bs \<le> capacity st" "needle \<noteq> []" "length needle < 2 ^ 30" "search_offset st < 2 ^ 30"
    and s: "searched needle b st"
  shows "\<exists>r mr st'. search_turn needle bs max_reads st = Some (r, mr, st') \<and> st_ok st' \<and> contents st' = contents st @ bs \<and> search_offset st' < 2 ^ 30 \<and>
    capacity st' = capacity st \<and> max_capacity st' = max_capacity st \<and> used st' = used st + length bs \<and>
    (case find_needle needle b (contents st @ bs) of
       Some i \<Rightarrow> r = Some 0 \<and> needle_offset st' = i \<and> search_offset st' = Suc i
     | None \<Rightarrow> mr = (if max_reads \<noteq> 0 \<and> bs \<noteq> [] then max_reads - 1 else max_reads) \<and> r = (if max_reads \<noteq> 0 \<and> mr = 0 then Some (- 3) else None) \<and>
         searched needle b st')"
proof -
  let ?n = "used st + length bs"
  let ?st = "store bs st"
  let ?d = "contents st @ bs"
  note p = store_props [OF ok(1,2)]
  have f: "used ?st = used st" "search_offset ?st = search_offset st" "capacity ?st = capacity st" "max_capacity ?st = max_capacity st" by (simp_all add: store_def)
  have n: "?n < 2 ^ 30" "length (contents st) = used st" "0 < length needle" using ok by (auto simp: st_ok_def contents_def)
  have same: "find_needle needle (search_offset st) ?d = find_needle needle b ?d"
    using s n(2) by (intro find_needle_from [OF ok(3)]) (auto simp: searched_def occurs_append)
  have scan: "scan_loop needle (length bs) ?st = (case find_needle needle b ?d of
       Some i \<Rightarrow> Some (True, ?st\<lparr>needle_offset := i, search_offset := Suc i\<rparr>)
     | None \<Rightarrow> Some (False, ?st\<lparr>search_offset := max (search_offset st) (Suc ?n - length needle)\<rparr>))"
  proof -
    have l: "?n = used ?st + length bs" "?n \<le> length (chbuf ?st)" "length (chbuf ?st) < 2 ^ 30" "search_offset ?st < 2 ^ 30"
      using ok p f by (simp_all add: st_ok_def)
    from scan_loop_eq [OF l(1-3) ok(3,4) l(4)] show ?thesis unfolding p(1) f(2) same .
  qed
  have okn: "st_ok (?st\<lparr>needle_offset := i, search_offset := j, used := ?n\<rparr>)" "st_ok (?st\<lparr>search_offset := j, used := ?n\<rparr>)" for i j
    using ok p f by (simp_all add: st_ok_def)
  show ?thesis
  proof (cases "find_needle needle b ?d")
    case (Some i)
    then have "occurs needle i ?d" using find_needle_Some [OF ok(3)] by simp
    then have "i + length needle \<le> ?n" using n(2) by (simp add: occurs_def)
    then have "Suc i \<le> ?n" using n(3) by linarith
    with Some scan okn f p n show ?thesis by (simp add: search_turn_def contents_def)
  next
    case None
    let ?k = "max (search_offset st) (Suc ?n - length needle)"
    have k: "?k < 2 ^ 30" using n ok(5) by linarith
    have "searched needle b (?st\<lparr>search_offset := ?k, used := ?n\<rparr>)"
      using s None find_needle_None [OF ok(3), of b ?d] p n by (auto simp: searched_def contents_def max_def)
    with None scan okn f p k show ?thesis by (simp add: search_turn_def contents_def Let_def)
  qed
qed


text \<open>The bytes of a stream, up to its end.\<close>

fun stream :: "read_result list \<Rightarrow> u8 list" where
  "stream [] = []"
| "stream (Data bs # rs) = bs @ stream rs"
| "stream (r # rs) = stream rs"

lemma sys_read_stream:
  "sys_read n rs = Some (Data bs, rs') \<Longrightarrow> stream rs = bs @ stream rs' \<and> length bs \<le> n"
  "sys_read n rs = Some (Interrupted, rs') \<Longrightarrow> stream rs = stream rs'"
  "sys_read n rs = Some (Failed, rs') \<Longrightarrow> stream rs = stream rs'"
  by (cases "(n, rs)" rule: sys_read.cases; auto split: if_splits)+

lemma grow_exact:
  assumes "st_ok st" "\<And>n. length (f n) = n"
  obtains st' where "search_state_grow_if_full (Some f) st = Some (if used st = max_capacity st then 2 else if used st = capacity st then 1 else 0, st')"
    "st_ok st'" "contents st' = contents st" "used st' = used st" "search_offset st' = search_offset st" "needle_offset st' = needle_offset st"
    "max_capacity st' = max_capacity st" "used st = max_capacity st \<or> used st' < capacity st'" "capacity st \<le> capacity st'"
proof -
  have c: "2 * capacity st mod 2 ^ 32 = 2 * capacity st" using assms(1) by (simp add: st_ok_def)
  let ?n = "min (2 * capacity st) (max_capacity st)"
  let ?st = "st\<lparr>capacity := ?n, chbuf := take ?n (chbuf st @ f (?n - length (chbuf st)))\<rparr>"
  show thesis
  proof (cases "used st = capacity st \<and> used st \<noteq> max_capacity st")
    case True
    have "search_state_grow_if_full (Some f) st = Some (1, ?st)"
      using True c by (simp add: search_state_grow_if_full_def Let_def min_def)
    then have g: "search_state_grow_if_full (Some f) st = Some (if used st = max_capacity st then 2 else if used st = capacity st then 1 else 0, ?st)"
      using True by simp
    have ok: "st_ok ?st" "contents ?st = contents st" "used st = max_capacity st \<or> used ?st < capacity ?st" "capacity st \<le> capacity ?st"
      using True assms by (auto simp: st_ok_def contents_def)
    show thesis by (rule that [OF g ok(1,2) _ _ _ _ ok(3,4)]) simp_all
  next
    case False
    then show thesis using assms(1) c by (intro that [of st]) (auto simp: search_state_grow_if_full_def Let_def st_ok_def)
  qed
qed

text \<open>What a call of the search promises when it started at \<open>b\<close>.\<close>

definition search_post :: "u8 list \<Rightarrow> nat \<Rightarrow> search_state_t \<Rightarrow> read_result list \<Rightarrow> int \<Rightarrow> search_state_t \<Rightarrow> read_result list \<Rightarrow> bool" where
  "search_post needle b st rs ret st' rs' \<longleftrightarrow>
     st_ok st' \<and> max_capacity st' = max_capacity st \<and>
     (\<exists>bs. contents st' = contents st @ bs \<and> stream rs = bs @ stream rs') \<and>
     (case find_needle needle b (contents st') of
        Some i \<Rightarrow> ret = 0 \<and> needle_offset st' = i \<and> search_offset st' = Suc i
      | None \<Rightarrow> ret \<in> {1, - 1, - 2, - 3} \<and> searched needle b st' \<and> (ret = - 2 \<longrightarrow> used st' = max_capacity st'))"


text \<open>Where the search may block: there is no end of the stream and no error, and less input than the number of reads it may do.\<close>

definition blocked :: "int \<Rightarrow> read_result list \<Rightarrow> bool" where
  "blocked max_reads rs \<longleftrightarrow> Failed \<notin> set rs \<and> Data [] \<notin> set rs \<and> (max_reads > 0 \<longrightarrow> int (length (filter (\<lambda>r. r \<noteq> Interrupted) rs)) < max_reads)"

lemma blocked_step:
  assumes "sys_read n rs = Some (r, rs')" "blocked mr' rs'" "r \<noteq> Failed" "r \<noteq> Data []"
    "r = Interrupted \<Longrightarrow> mr' = mr" "r \<noteq> Interrupted \<Longrightarrow> mr' = (if mr \<noteq> 0 then mr - 1 else mr)" "r \<noteq> Interrupted \<Longrightarrow> mr \<noteq> 1"
  shows "blocked mr rs"
  using assms by (cases "(n, rs)" rule: sys_read.cases) (auto simp: blocked_def split: if_splits)

definition search_correct :: "u8 list \<Rightarrow> nat \<Rightarrow> int \<Rightarrow> search_state_t \<Rightarrow> read_result list \<Rightarrow> (int \<times> search_state_t \<times> read_result list) option \<Rightarrow> bool" where
  "search_correct needle b max_reads st rs r \<longleftrightarrow>
     (case r of None \<Rightarrow> blocked max_reads rs | Some (ret, st', rs') \<Rightarrow> search_post needle b st rs ret st' rs')"

lemma search_loop_exact:
  assumes f: "\<And>n. length (f n) = n"
  shows "needle \<noteq> [] \<Longrightarrow> length needle < 2 ^ 30 \<Longrightarrow> st_ok st \<Longrightarrow> search_offset st < 2 ^ 30 \<Longrightarrow> searched needle b st \<Longrightarrow> find_needle needle b (contents st) = None \<Longrightarrow>
    search_correct needle b max_reads st rs (search_loop (Some f) needle max_reads rs st)"
proof (induction "Some f" needle max_reads rs st rule: search_loop.induct)
  case (1 needle max_reads rs st)
  note ih = 1(1) and needle = 1(3,4) and none = 1(8)
  obtain st1 where g: "search_state_grow_if_full (Some f) st = Some (if used st = max_capacity st then 2 else if used st = capacity st then 1 else 0, st1)"
    and st1: "st_ok st1" "contents st1 = contents st" "used st1 = used st" "search_offset st1 = search_offset st" "needle_offset st1 = needle_offset st" "max_capacity st1 = max_capacity st"
    and room: "used st = max_capacity st \<or> used st1 < capacity st1" "capacity st \<le> capacity st1"
    using f by (rule grow_exact [OF 1(5)])
  have s1: "searched needle b st1" using 1(7) st1 by (simp add: searched_def)
  show ?case
  proof (cases "used st = max_capacity st")
    case True
    with g st1 s1 1(8) show ?thesis by (simp add: search_loop.simps search_correct_def search_post_def)
  next
    case False
    define g1 :: int where "g1 = (if used st = capacity st then 1 else 0)"
    have g1: "search_state_grow_if_full (Some f) st = Some (g1, st1)" "g1 \<noteq> 2" using g False by (simp_all add: g1_def)
    show ?thesis
    proof (cases "sys_read (capacity st1 - used st1) rs")
      case None
      then have "rs = []" by (cases "(capacity st1 - used st1, rs)" rule: sys_read.cases) auto
      with None g1 show ?thesis by (subst search_loop.simps) (simp add: search_correct_def blocked_def)
    next
      case (Some p)
      obtain r rs1 where p: "p = (r, rs1)" by (cases p)
      note step = Some [unfolded p]
      have start: "search_post needle b st rs ret st' rs'"
        if "search_post needle b st2 rs1 ret st' rs'" "contents st2 = contents st @ bs" "stream rs = bs @ stream rs1" "max_capacity st2 = max_capacity st" for st2 bs ret st' rs'
        using that by (auto simp: search_post_def)
      show ?thesis
      proof (cases r)
        case Interrupted
        have "search_loop (Some f) needle max_reads rs st = search_loop (Some f) needle max_reads rs1 st1"
          using step g1 Interrupted by (subst search_loop.simps) simp
        moreover have "search_correct needle b max_reads st1 rs1 (search_loop (Some f) needle max_reads rs1 st1)"
          using 1(2) [OF g1(1) refl g1(2) step refl Interrupted] 1(3,4,6,8) st1 s1 by simp
        ultimately show ?thesis
          using blocked_step [OF step] Interrupted start [of st1 _ _ _ "[]"] sys_read_stream(2) step st1
          by (auto simp: search_correct_def split: option.splits)
      next
        case Failed
        have "search_loop (Some f) needle max_reads rs st = Some (- 1, st1, rs1)"
          using step g1 Failed by (subst search_loop.simps) simp
        then show ?thesis using sys_read_stream(3) step Failed st1 s1 1(8) by (simp add: search_correct_def search_post_def)
      next
        case (Data bs)
        have bs: "stream rs = bs @ stream rs1" "used st1 + length bs \<le> capacity st1"
          using sys_read_stream(1) [OF step [unfolded Data]] room False by auto
        obtain q mr st2 where turn: "search_turn needle bs max_reads st1 = Some (q, mr, st2)" and st2: "st_ok st2" "contents st2 = contents st @ bs"
            "search_offset st2 < 2 ^ 30" "max_capacity st2 = max_capacity st"
          and found: "case find_needle needle b (contents st @ bs) of
              Some i \<Rightarrow> q = Some 0 \<and> needle_offset st2 = i \<and> search_offset st2 = Suc i
            | None \<Rightarrow> mr = (if max_reads \<noteq> 0 \<and> bs \<noteq> [] then max_reads - 1 else max_reads) \<and> q = (if max_reads \<noteq> 0 \<and> mr = 0 then Some (- 3) else None) \<and> searched needle b st2"
          using search_turn_exact [OF st1(1) bs(2) 1(3,4) _ s1, of max_reads] st1 1(6) by auto
        have loop: "search_loop (Some f) needle max_reads rs st =
           (if bs = [] then Some (1, st1, rs1) else case q of Some ret \<Rightarrow> Some (ret, st2, rs1) | None \<Rightarrow> search_loop (Some f) needle mr rs1 st2)"
          using step g1 Data turn by (subst search_loop.simps) (simp split: option.splits)
        consider "bs = []" | ret where "bs \<noteq> []" "q = Some ret" | "bs \<noteq> []" "q = None" by (cases q) auto
        then show ?thesis
        proof cases
          case 1
          then show ?thesis using loop bs st1 s1 none by (simp add: search_correct_def search_post_def)
        next
          case 2
          with found have "search_post needle b st rs ret st2 rs1"
            using bs st2 by (auto simp: search_post_def split: option.splits if_splits)
          with 2 loop show ?thesis by (simp add: search_correct_def)
        next
          case 3
          with found have n: "find_needle needle b (contents st2) = None" "searched needle b st2" "mr = (if max_reads \<noteq> 0 then max_reads - 1 else max_reads)" "max_reads \<noteq> 1"
            using st2 by (auto split: option.splits if_splits)
          have "search_correct needle b mr st2 rs1 (search_loop (Some f) needle mr rs1 st2)"
            using ih [OF g1(1) refl g1(2) step refl Data 3(1) turn refl 3(2) refl] needle st2 n by simp
          then show ?thesis
            using 3 loop blocked_step [OF step, of mr max_reads] Data start [of st2 _ _ _ bs] bs(1) st2 n
            by (auto simp: search_correct_def split: option.splits)
        qed
      qed
    qed
  qed
qed


text \<open>
  C23: the search for a needle in the bytes that arrive on a descriptor. For a buffer in which the search that began at \<open>b\<close> has got to its
  search offset, a call reads on and does not fault. It returns 0 exactly when the needle occurs from \<open>b\<close> on in the buffer and the bytes it
  read, also across the borders of the chunks, and the needle offset is then the first such place. Otherwise the result is 1 (end of the
  stream), -1 (error), -2 (the buffer is full and has its greatest size) or -3 (\<open>max_reads\<close> reads were made), and the next call continues the search. No byte
  that was read is lost. The call blocks only when the stream has no end and no error and gives fewer than \<open>max_reads\<close> chunks.
\<close>

theorem read_search_finds_first:
  assumes "\<And>n. length (f n) = n" "needle \<noteq> []" "length needle < 2 ^ 30" "st_ok st" "search_offset st < 2 ^ 30" "searched needle b st"
  shows "search_correct needle b max_reads st rs (read_search (Some f) fd needle st max_reads rs)"
proof -
  have u: "used st + length [] \<le> capacity st" using assms(4) by (simp add: st_ok_def)
  obtain q mr st2 where turn: "search_turn needle [] max_reads st = Some (q, mr, st2)" and st2: "st_ok st2" "contents st2 = contents st"
      "search_offset st2 < 2 ^ 30" "max_capacity st2 = max_capacity st"
    and found: "case find_needle needle b (contents st) of
        Some i \<Rightarrow> q = Some 0 \<and> needle_offset st2 = i \<and> search_offset st2 = Suc i
      | None \<Rightarrow> mr = max_reads \<and> q = None \<and> searched needle b st2"
    using search_turn_exact [OF assms(4) u assms(2,3,5,6), of max_reads] by (auto split: option.splits)
  have "search_correct needle b max_reads st rs (search_all (Some f) needle max_reads rs st)"
  proof (cases "find_needle needle b (contents st)")
    case None
    then have "search_correct needle b max_reads st2 rs (search_loop (Some f) needle max_reads rs st2)"
      using search_loop_exact [OF assms(1), of needle st2 b max_reads rs] assms(2,3) st2 found by simp
    with None found turn assms(2) st2 show ?thesis
      by (auto simp: search_all_def search_correct_def search_post_def split: option.splits)
  next
    case (Some i)
    with found turn assms(2) st2 show ?thesis by (simp add: search_all_def search_correct_def search_post_def)
  qed
  then show ?thesis by (simp add: read_search_def real_read_search_def)
qed

lemma search_state_init_ok:
  assumes "0 < n" "n \<le> mx" "mx < 2 ^ 30"
  obtains st where "search_state_init n mx = Some st" "st_ok st" "searched needle 0 st" "contents st = []" "search_offset st = 0" "capacity st = n" "max_capacity st = mx"
  using assms by (simp add: search_state_init_def st_ok_def searched_def contents_def)

text \<open>A needle of two bytes that arrives in two chunks, after the buffer of three bytes has grown.\<close>

definition search_example :: search_state_t where
  "search_example = \<lparr>chbuf = [0, 0, 0], capacity = 3, max_capacity = 8, used = 0, search_offset = 0, needle_offset = 0\<rparr>"

theorem read_search_finds_first_witness:
  "search_correct [13, 10] 0 0 search_example [Data [1, 13, 2], Interrupted, Data [13], Data [10, 3]]
     (read_search (Some (\<lambda>n. replicate n 0)) 5 [13, 10] search_example 0 [Data [1, 13, 2], Interrupted, Data [13], Data [10, 3]]) \<and>
   find_needle [13, 10] 0 [1, 13, 2, 13, 10, 3] = Some 3"
  using read_search_finds_first [of "\<lambda>n. replicate n 0" "[13, 10]" search_example 0]
  by (simp add: search_example_def st_ok_def searched_def find_needle_def occurs_def)

subsection \<open>Whole buffers\<close>

text \<open>\<open>readn\<close> gives the next bytes of the stream, all that was asked for unless the stream ended or failed; \<open>writen\<close> writes all or fails.\<close>

lemma readn_loop_exact:
  "readn_loop n acc rs = Some ((ret, out), rs') \<Longrightarrow>
    \<exists>bs. out = acc @ bs \<and> stream rs = bs @ stream rs' \<and> length bs \<le> n \<and> (ret = - 1 \<or> ret = int (length out))"
proof (induction n acc rs rule: readn_loop.induct)
  case (1 n acc rs)
  show ?case
  proof (cases "n > 0")
    case True
    with 1(3) obtain r rs1 where step: "sys_read n rs = Some (r, rs1)" by (subst (asm) readn_loop.simps) (auto split: option.splits)
    show ?thesis
    proof (cases r)
      case (Data bs)
      note s = sys_read_stream(1) [OF step [unfolded Data]]
      show ?thesis
      proof (cases "bs = []")
        case False
        with 1(3) step Data True have "readn_loop (n - length bs) (acc @ bs) rs1 = Some ((ret, out), rs')" by (subst (asm) readn_loop.simps) simp
        from 1(1) [OF True step refl Data False this] s show ?thesis by auto
      qed (use 1(3) step Data True s in \<open>subst (asm) readn_loop.simps, auto\<close>)
    next
      case Interrupted
      with 1(3) step True have "readn_loop n acc rs1 = Some ((ret, out), rs')" by (subst (asm) readn_loop.simps) simp
      from 1(2) [OF True step refl Interrupted this] sys_read_stream(2) step Interrupted show ?thesis by auto
    next
      case Failed
      with 1(3) step True sys_read_stream(3) step show ?thesis by (subst (asm) readn_loop.simps) auto
    qed
  qed (use 1(3) in \<open>subst (asm) readn_loop.simps, auto\<close>)
qed

lemma writen_loop_exact:
  "writen_loop buf out ws = Some ((ret, out'), ws') \<Longrightarrow> \<exists>k \<le> length buf. out' = out @ take k buf \<and> (ret = 0 \<and> k = length buf \<or> ret = - 1)"
proof (induction buf out ws rule: writen_loop.induct)
  case (1 buf out ws)
  show ?case
  proof (cases "buf = [] \<or> ws = []")
    case True
    with 1(3) show ?thesis by (cases "buf = []") (simp_all add: writen_loop.simps)
  next
    case False
    then obtain w vs where ws: "ws = w # vs" and l: "length buf > 0" by (cases ws) auto
    show ?thesis
    proof (cases w)
      case (Taken k)
      show ?thesis
      proof (cases "k > length buf \<or> k = 0")
        case bad: True
        with 1(3) ws Taken l show ?thesis by (subst (asm) writen_loop.simps) (auto split: if_splits)
      next
        case ok: False
        then have "writen_loop (drop k buf) (out @ take k buf) vs = Some ((ret, out'), ws')"
          using 1(3) ws Taken l by (subst (asm) writen_loop.simps) simp
        with 1(1) [OF l ws Taken] ok obtain j where "j \<le> length (drop k buf)" "out' = (out @ take k buf) @ take j (drop k buf)"
          "ret = 0 \<and> j = length (drop k buf) \<or> ret = - 1" by auto
        then show ?thesis using ok by (intro exI [of _ "k + j"]) (auto simp: take_add)
      qed
    next
      case WInterrupted
      with 1(3) ws l have "writen_loop buf out vs = Some ((ret, out'), ws')" by (subst (asm) writen_loop.simps) simp
      from 1(2) [OF l ws WInterrupted this] show ?thesis .
    next
      case WFailed
      with 1(3) ws l show ?thesis by (subst (asm) writen_loop.simps) auto
    qed
  qed
qed


lemma writenstrs_exact:
  assumes "fd \<noteq> 0" "writenstrs fd strs out ws = Some ((ret, out'), ws')"
  shows "\<exists>k \<le> length (concat strs). out' = out @ take k (concat strs) \<and> (ret = 0 \<and> k = length (concat strs) \<or> ret = - 1)"
  using assms(2)
proof (induction strs arbitrary: out ws)
  case Nil
  then show ?case by simp
next
  case (Cons str strs)
  then obtain r o1 ws1 where w: "writen_loop str [] ws = Some ((r, o1), ws1)"
      "(if r = 0 then writenstrs fd strs (out @ o1) ws1 else Some ((r, out @ o1), ws1)) = Some ((ret, out'), ws')"
    by (auto simp: writenstr_def writen_def real_writen_def split: option.splits if_splits)
  from writen_loop_exact [OF w(1)] obtain k where k: "k \<le> length str" "o1 = take k str" "r = 0 \<and> k = length str \<or> r = - 1" by auto
  show ?case
  proof (cases "r = 0")
    case True
    with Cons.IH [of "out @ o1" ws1] w(2) k obtain j where "j \<le> length (concat strs)" "out' = out @ str @ take j (concat strs)"
      "ret = 0 \<and> j = length (concat strs) \<or> ret = - 1" by auto
    then show ?thesis by (intro exI [of _ "length str + j"]) auto
  next
    case False
    with w(2) k show ?thesis by (intro exI [of _ k]) auto
  qed
qed

end
