(* ===== verification/Cli_Client.thy ===== *)
theory Cli_Client
  imports Cli_Search
begin

text \<open>
  A client of the command line interface (\<^verbatim>\<open>cli_client_handle_request\<close> and \<^verbatim>\<open>cli_client_handler_main\<close> of \<^verbatim>\<open>cli/cli_main.c\<close>,
  \<^verbatim>\<open>cli_parser_handle_client\<close> of \<^verbatim>\<open>cli/cli_parser.y\<close>): the bytes that arrive are collected up to a newline and given to the
  parser. The parser and scanner that are generated from the grammar, and what the commands do, are parameters: \<open>ce_parse cmd\<close>
  is what \<^verbatim>\<open>yyparse\<close> does with the command \<open>cmd\<close> to the rest of the program.
\<close>

record 'w cli_env =
  ce_parse :: "u8 list \<Rightarrow> 'w \<Rightarrow> 'w"
  ce_alive :: "'w \<Rightarrow> bool"
  ce_shutdown :: "'w \<Rightarrow> bool"
  ce_prompt :: "'w \<Rightarrow> 'w"
  ce_welcome :: "'w \<Rightarrow> 'w"
  ce_realloc :: "nat \<Rightarrow> u8 list"

abbreviation CLI_INIT_BUF :: nat where "CLI_INIT_BUF \<equiv> 256"
abbreviation CLI_MAX_BUF :: nat where "CLI_MAX_BUF \<equiv> 2048"
abbreviation NL :: u8 where "NL \<equiv> 10"

text \<open>\<^verbatim>\<open>strchr\<close> on the bytes of an array from a place on: it stops at a NUL, and must not run over the end of the array.\<close>

fun strchr :: "u8 list \<Rightarrow> u8 \<Rightarrow> nat option option" where
  "strchr [] c = None"
| "strchr (b # bs) c = (if b = c then Some (Some 0) else if b = 0 then Some None else map_option (map_option Suc) (strchr bs c))"

lemma strchr_Some: "strchr bs c = Some (Some i) \<Longrightarrow> i < length bs"
  by (induction bs arbitrary: i) (auto split: if_splits)

text \<open>The loop over the newlines of the buffer; \<open>pch\<close> is the place of one.\<close>

function parse_loop :: "'w cli_env \<Rightarrow> u8 list \<Rightarrow> nat \<Rightarrow> 'w \<Rightarrow> (bool \<times> 'w) option" where
  "parse_loop E sbuf pch w =
     (let cmd_blen = pch + 1
      in if cmd_blen + 2 > CLI_MAX_BUF + 2 then None
         else
           let w = ce_parse E (take cmd_blen sbuf) w
           in if \<not> ce_alive E w \<or> ce_shutdown E w then Some (False, w)
              else
                case strchr (drop (pch + 1) sbuf) NL of
                  None \<Rightarrow> None
                | Some None \<Rightarrow> Some (True, w)
                | Some (Some k) \<Rightarrow> parse_loop E sbuf (pch + 1 + k) w)"
  by pat_completeness auto
termination by (relation "measure (\<lambda>(E, sbuf, pch, w). length sbuf - pch)") (auto dest!: strchr_Some)

declare parse_loop.simps [simp del]

text \<open>What is left in the buffer after the commands: \<open>num\<close> is a signed number.\<close>

definition shift_left_over :: "search_state_t \<Rightarrow> search_state_t" where
  "shift_left_over st =
     (let num = int (used st) - int (needle_offset st) - 1;
          st = (if num > 0
                then st\<lparr>chbuf := take (nat num) (drop (needle_offset st) (chbuf st)) @ drop (nat num) (chbuf st), used := nat num\<rparr>
                else st\<lparr>used := 0\<rparr>)
      in st\<lparr>search_offset := 0, needle_offset := capacity st + 1\<rparr>)"

definition cli_parser_handle_client :: "'w cli_env \<Rightarrow> search_state_t \<Rightarrow> 'w \<Rightarrow> (bool \<times> search_state_t \<times> 'w) option" where
  "cli_parser_handle_client E st w =
     (case strchr (chbuf st) NL of
        Some (Some pch) \<Rightarrow>
          (case parse_loop E (chbuf st) pch w of
             None \<Rightarrow> None
           | Some (False, w) \<Rightarrow> Some (False, st, w)
           | Some (True, w) \<Rightarrow> let w = ce_prompt E w in Some (ce_alive E w, shift_left_over st, w))
      | _ \<Rightarrow> None)"

text \<open>
  One request: a read, the NUL after the bytes of the buffer, and the commands. The result \<open>None\<close> means that the thread blocks, or that the
  whole program ends in \<^verbatim>\<open>die\<close>.
\<close>

definition nul_end :: "search_state_t \<Rightarrow> search_state_t" where
  "nul_end st = st\<lparr>chbuf := (chbuf st)[used st := 0]\<rparr>"

definition cli_client_handle_request ::
  "'w cli_env \<Rightarrow> int \<Rightarrow> search_state_t \<Rightarrow> read_result list \<Rightarrow> 'w \<Rightarrow> (bool \<times> search_state_t \<times> read_result list \<times> 'w) option" where
  "cli_client_handle_request E fd st rs w =
     (case read_search (Some (ce_realloc E)) fd [NL] st 1 rs of
        None \<Rightarrow> None
      | Some (ret, st, rs) \<Rightarrow>
          case search_state_grow_if_full (Some (ce_realloc E)) st of
            None \<Rightarrow> None
          | Some (g, st) \<Rightarrow>
              let ret = (if g = 2 \<or> g = - 1 then - 2 else ret);
                  st = (if g = 2 \<or> g = - 1 then st else nul_end st)
              in if ret = - 3 then Some (True, st, rs, w)
                 else if ret = - 2 \<or> ret = - 1 then Some (False, st, rs, w)
                 else if ret = 1 then
                   (if strchr (chbuf st) NL = Some None then Some (False, st, rs, w) else None)
                 else if ret = 0 then
                   map_option (\<lambda>(b, st, w). (b, st, rs, w)) (cli_parser_handle_client E st w)
                 else None)"

text \<open>
  The thread of a client. Before the welcome the first data is read and thrown away. The loop ends when the client is gone
  (the result \<open>False\<close>) or the router is shut down (\<open>True\<close>).
\<close>

partial_function (option) client_loop ::
  "'w cli_env \<Rightarrow> int \<Rightarrow> search_state_t \<Rightarrow> read_result list \<Rightarrow> 'w \<Rightarrow> (bool \<times> 'w) option" where
  "client_loop E fd st rs w =
     (case cli_client_handle_request E fd st rs w of
        None \<Rightarrow> None
      | Some (res, st, rs, w) \<Rightarrow>
          if ce_shutdown E w then Some (True, w) else if \<not> res then Some (False, w) else client_loop E fd st rs w)"

definition cli_client_handler_main :: "'w cli_env \<Rightarrow> int \<Rightarrow> search_state_t \<Rightarrow> read_result list \<Rightarrow> 'w \<Rightarrow> (bool \<times> 'w) option" where
  "cli_client_handler_main E fd st rs w =
     (case cli_client_handle_request E fd st rs w of
        None \<Rightarrow> None
      | Some (res, st, rs, w) \<Rightarrow>
          client_loop E fd (st\<lparr>used := 0, search_offset := 0, needle_offset := 0\<rparr>) rs (ce_prompt E (ce_welcome E w)))"


subsection \<open>One read\<close>

lemma occurs_byte: "occurs [b] i d \<longleftrightarrow> i < length d \<and> d ! i = b"
proof (cases "i < length d")
  case True
  then have "drop i d = d ! i # drop (Suc i) d" by (simp add: Cons_nth_drop_Suc)
  with True show ?thesis by (simp add: occurs_def)
qed (simp add: occurs_def)

lemma find_byte_None: "find_needle [b] 0 d = None \<longleftrightarrow> b \<notin> set d"
  by (auto simp: find_needle_None occurs_byte in_set_conv_nth)

lemma find_byte_first: "b \<notin> set d \<Longrightarrow> find_needle [b] 0 (d @ b # e) = Some (length d)"
  by (auto simp: find_needle_Some occurs_byte nth_append)

lemma read_one:
  assumes f: "\<And>n. length (f n) = n" and st: "st_ok st" "search_offset st < 2 ^ 30" "searched [NL] 0 st" "NL \<notin> set (contents st)"
    and room: "used st < max_capacity st" and bs: "bs \<noteq> []"
  obtains n st2 where "0 < n" "capacity st - used st \<le> n" "st_ok st2" "contents st2 = contents st @ take n bs" "search_offset st2 < 2 ^ 30" "max_capacity st2 = max_capacity st"
    "read_search (Some f) fd [NL] st 1 (Data bs # rs) =
      Some (if NL \<in> set (take n bs) then 0 else - 3, st2, if n < length bs then Data (drop n bs) # rs else rs)"
    "case find_needle [NL] 0 (contents st2) of Some i \<Rightarrow> needle_offset st2 = i | None \<Rightarrow> searched [NL] 0 st2"
proof -
  have u: "used st + length [] \<le> capacity st" using st(1) by (simp add: st_ok_def)
  have none: "find_needle [NL] 0 (contents st) = None" using st(4) by (simp add: find_byte_None)
  obtain st1 where t0: "search_turn [NL] [] 1 st = Some (None, 1, st1)" and st1: "st_ok st1" "contents st1 = contents st" "used st1 = used st" "capacity st1 = capacity st"
      "search_offset st1 < 2 ^ 30" "max_capacity st1 = max_capacity st" "searched [NL] 0 st1"
    using search_turn_exact [OF st(1) u _ _ st(2,3), of 1] none by auto
  obtain g st' where g: "search_state_grow_if_full (Some f) st1 = Some (g, st')" "g = (if used st1 = max_capacity st1 then 2 else if used st1 = capacity st1 then 1 else 0)"
    and st': "st_ok st'" "contents st' = contents st1" "used st' = used st1" "search_offset st' = search_offset st1" "max_capacity st' = max_capacity st1"
      "used st1 = max_capacity st1 \<or> used st' < capacity st'" "capacity st1 \<le> capacity st'"
    by (rule grow_exact [OF st1(1) f]) blast
  let ?n = "capacity st' - used st'"
  have n: "0 < ?n" "g \<noteq> 2" using st' room st1 g by auto
  have s': "searched [NL] 0 st'" using st1 st' by (simp add: searched_def)
  have "used st' + length (take ?n bs) \<le> capacity st'" using n by simp
  from search_turn_exact [OF st'(1) this _ _ _ s', of 1] st' st1
  obtain q mr st2 where turn: "search_turn [NL] (take ?n bs) 1 st' = Some (q, mr, st2)" and st2: "st_ok st2" "contents st2 = contents st @ take ?n bs"
      "search_offset st2 < 2 ^ 30" "max_capacity st2 = max_capacity st"
    and found: "case find_needle [NL] 0 (contents st2) of
        Some i \<Rightarrow> q = Some 0 \<and> needle_offset st2 = i
      | None \<Rightarrow> q = Some (- 3) \<and> searched [NL] 0 st2"
    using bs n by (auto split: option.splits)
  have q: "q = Some (if NL \<in> set (take ?n bs) then 0 else - 3)"
    using found find_byte_None [of NL "contents st2"] st2(2) st(4) by (auto split: option.splits)
  have "search_loop (Some f) [NL] 1 (Data bs # rs) st1 =
      Some (if NL \<in> set (take ?n bs) then 0 else - 3, st2, if ?n < length bs then Data (drop ?n bs) # rs else rs)"
    using g(1) n turn q bs by (subst search_loop.simps) simp
  then have "read_search (Some f) fd [NL] st 1 (Data bs # rs) =
      Some (if NL \<in> set (take ?n bs) then 0 else - 3, st2, if ?n < length bs then Data (drop ?n bs) # rs else rs)"
    using t0 by (simp add: read_search_def real_read_search_def search_all_def)
  moreover have "capacity st - used st \<le> ?n" using st' st1 by simp
  ultimately show thesis using n(1) st2 found by (intro that [of ?n st2]) (auto split: option.splits)
qed


lemma terminated:
  assumes f: "\<And>n. length (f n) = n" and st: "st_ok st" "used st < max_capacity st"
  obtains g st3 e where "search_state_grow_if_full (Some f) st = Some (g, st3)" "g \<noteq> 2" "g \<noteq> - 1"
    "chbuf (nul_end st3) = contents st @ 0 # e" "st_ok (nul_end st3)" "contents (nul_end st3) = contents st" "used (nul_end st3) = used st"
    "search_offset (nul_end st3) = search_offset st" "needle_offset (nul_end st3) = needle_offset st" "max_capacity (nul_end st3) = max_capacity st"
proof -
  obtain st3 where g: "search_state_grow_if_full (Some f) st = Some (if used st = max_capacity st then 2 else if used st = capacity st then 1 else 0, st3)"
    and st3: "st_ok st3" "contents st3 = contents st" "used st3 = used st" "search_offset st3 = search_offset st" "needle_offset st3 = needle_offset st"
      "max_capacity st3 = max_capacity st" "used st = max_capacity st \<or> used st3 < capacity st3" "capacity st \<le> capacity st3"
    by (rule grow_exact [OF st(1) f])
  then have "used st3 < length (chbuf st3)" using st by (auto simp: st_ok_def)
  then have "chbuf (nul_end st3) = contents st @ 0 # drop (Suc (used st3)) (chbuf st3)"
    using st3(2) by (simp add: nul_end_def upd_conv_take_nth_drop contents_def)
  moreover have "st_ok (nul_end st3)" "contents (nul_end st3) = contents st"
    using st3(1,2) by (simp_all add: st_ok_def contents_def nul_end_def)
  moreover have "used (nul_end st3) = used st" "search_offset (nul_end st3) = search_offset st" "needle_offset (nul_end st3) = needle_offset st"
    "max_capacity (nul_end st3) = max_capacity st" using st3 by (simp_all add: nul_end_def)
  ultimately show thesis
    using that [of "if used st = max_capacity st then 2 else if used st = capacity st then 1 else 0" st3 "drop (Suc (used st3)) (chbuf st3)"] g st(2)
    by (simp split: if_splits)
qed

lemma strchr_ends: "c \<notin> set d \<Longrightarrow> c \<noteq> 0 \<Longrightarrow> strchr (d @ 0 # e) c = Some None"
  by (induction d) auto

lemma strchr_finds: "c \<notin> set d \<Longrightarrow> 0 \<notin> set d \<Longrightarrow> strchr (d @ c # e) c = Some (Some (length d))"
  by (induction d) auto

text \<open>A state between two requests: the bytes of a line that has not ended yet.\<close>

definition collecting :: "u8 list \<Rightarrow> search_state_t \<Rightarrow> bool" where
  "collecting c st \<longleftrightarrow> st_ok st \<and> max_capacity st = CLI_MAX_BUF \<and> search_offset st < 2 ^ 30 \<and> searched [NL] 0 st \<and> contents st = c \<and> NL \<notin> set c \<and> 0 \<notin> set c"

lemma length_contents: "st_ok st \<Longrightarrow> length (contents st) = used st"
  by (auto simp: st_ok_def contents_def)

lemma parse_one_line:
  assumes "chbuf st = l @ NL # 0 # e" "used st = Suc (length l)" "needle_offset st = length l" "NL \<notin> set l" "0 \<notin> set l" "length l < CLI_MAX_BUF"
    and w1: "w1 = ce_parse E (l @ [NL]) w" "ce_alive E w1" "\<not> ce_shutdown E w1"
  shows "cli_parser_handle_client E st w = Some (ce_alive E (ce_prompt E w1), st\<lparr>used := 0, search_offset := 0, needle_offset := capacity st + 1\<rparr>, ce_prompt E w1)"
proof -
  have "parse_loop E (chbuf st) (length l) w = Some (True, w1)"
    using assms by (subst parse_loop.simps) (simp add: Let_def)
  moreover have "strchr (chbuf st) NL = Some (Some (length l))" using assms by (simp add: strchr_finds)
  ultimately show ?thesis using assms(2,3) by (simp add: cli_parser_handle_client_def shift_left_over_def Let_def)
qed

lemma piece_without_newline:
  assumes "n < length bs \<or> last bs \<noteq> c" "c \<notin> set (butlast bs)"
  shows "c \<notin> set (take n bs)"
proof (cases "n < length bs")
  case True
  then have "take n bs = take n (butlast bs)" by (simp add: butlast_conv_take)
  then show ?thesis using assms(2) by (auto dest: in_set_takeD)
next
  case False
  with assms(1) have "last bs \<noteq> c" "take n bs = bs" by auto
  with assms(2) show ?thesis by (cases bs rule: rev_cases) auto
qed

lemma request_piece:
  assumes f: "\<And>n. length (ce_realloc E n) = n" and st: "collecting c st"
    and bs: "bs \<noteq> []" "NL \<notin> set (butlast bs)" "0 \<notin> set bs" "length c + length bs < CLI_MAX_BUF"
    and alive: "last bs = NL \<Longrightarrow> ce_alive E (ce_parse E (c @ bs) w) \<and> \<not> ce_shutdown E (ce_parse E (c @ bs) w)"
  obtains n st' where "0 < n"
    "if n < length bs \<or> last bs \<noteq> NL
     then cli_client_handle_request E fd st (Data bs # rs) w = Some (True, st', if n < length bs then Data (drop n bs) # rs else rs, w) \<and> collecting (c @ take n bs) st'
     else cli_client_handle_request E fd st (Data bs # rs) w =
       Some (ce_alive E (ce_prompt E (ce_parse E (c @ bs) w)), st', rs, ce_prompt E (ce_parse E (c @ bs) w)) \<and> collecting [] st'"
proof -
  have s: "st_ok st" "search_offset st < 2 ^ 30" "searched [NL] 0 st" "contents st = c" "NL \<notin> set c" "0 \<notin> set c" "max_capacity st = CLI_MAX_BUF"
    using st by (auto simp: collecting_def)
  have u: "used st = length c" using length_contents [OF s(1)] s(4) by simp
  then have "used st < max_capacity st" using bs(4) s(7) by simp
  then obtain n st2 where n: "0 < n" and st2: "st_ok st2" "contents st2 = c @ take n bs" "search_offset st2 < 2 ^ 30" "max_capacity st2 = CLI_MAX_BUF"
    and rd: "read_search (Some (ce_realloc E)) fd [NL] st 1 (Data bs # rs) =
      Some (if NL \<in> set (take n bs) then 0 else - 3, st2, if n < length bs then Data (drop n bs) # rs else rs)"
    and found: "case find_needle [NL] 0 (contents st2) of Some i \<Rightarrow> needle_offset st2 = i | None \<Rightarrow> searched [NL] 0 st2"
    using read_one [OF f s(1-3) _ _ bs(1), of fd rs] s(4,5,7) by metis
  have u2: "used st2 = length c + length (take n bs)" using length_contents [OF st2(1)] st2(2) by simp
  then have "used st2 < max_capacity st2" using bs(4) st2(4) by simp
  then obtain g st3 e where t: "search_state_grow_if_full (Some (ce_realloc E)) st2 = Some (g, st3)" "g \<noteq> 2" "g \<noteq> - 1"
    "chbuf (nul_end st3) = contents st2 @ 0 # e" "st_ok (nul_end st3)" "contents (nul_end st3) = contents st2" "used (nul_end st3) = used st2"
    "search_offset (nul_end st3) = search_offset st2" "needle_offset (nul_end st3) = needle_offset st2" "max_capacity (nul_end st3) = max_capacity st2"
    by (rule terminated [OF f st2(1)])
  let ?st = "nul_end st3"
  show thesis
  proof (cases "n < length bs \<or> last bs \<noteq> NL")
    case True
    then have nl: "NL \<notin> set (take n bs)" using bs(2) by (rule piece_without_newline)
    then have "find_needle [NL] 0 (contents st2) = None" using st2(2) s(5) by (simp add: find_byte_None)
    with found have "searched [NL] 0 ?st" using t(6-8) by (simp add: searched_def)
    then have "collecting (c @ take n bs) ?st"
      using t(5,6,8,10) st2 nl s(5,6) bs(3) by (auto simp: collecting_def dest: in_set_takeD)
    moreover have "cli_client_handle_request E fd st (Data bs # rs) w = Some (True, ?st, if n < length bs then Data (drop n bs) # rs else rs, w)"
      using rd t(1-3) nl by (simp add: cli_client_handle_request_def Let_def)
    ultimately show thesis using that [OF n, of ?st] True by simp
  next
    case False
    then have b: "take n bs = bs" "bs = butlast bs @ [NL]" "last bs = NL" "\<not> n < length bs"
      using append_butlast_last_id [OF bs(1)] by auto
    let ?l = "c @ butlast bs" and ?w = "ce_parse E (c @ bs) w"
    have l: "NL \<notin> set ?l" "0 \<notin> set ?l" "?l @ [NL] = c @ bs" "contents st2 = ?l @ [NL]"
      using s(5,6) bs(2,3) b st2(2) by (auto dest: in_set_butlastD)
    have "length c + length bs = Suc (length ?l)" using arg_cong [OF l(3), of length] by simp
    then have len: "length ?l < CLI_MAX_BUF" "used st2 = Suc (length ?l)" using bs(4) u2 b(1) by simp_all
    have "needle_offset st2 = length ?l" using found find_byte_first [OF l(1), of "[]"] l(4) by simp
    then have "cli_parser_handle_client E ?st w =
        Some (ce_alive E (ce_prompt E ?w), ?st\<lparr>used := 0, search_offset := 0, needle_offset := capacity ?st + 1\<rparr>, ce_prompt E ?w)"
      using t(4,7,9) len l alive [OF b(3)] by (intro parse_one_line [of _ ?l e]) simp_all
    then have "cli_client_handle_request E fd st (Data bs # rs) w =
        Some (ce_alive E (ce_prompt E ?w), ?st\<lparr>used := 0, search_offset := 0, needle_offset := capacity ?st + 1\<rparr>, rs, ce_prompt E ?w)"
      using rd t(1-3) b last_in_set [OF bs(1)] by (simp add: cli_client_handle_request_def Let_def)
    moreover have "collecting [] (?st\<lparr>used := 0, search_offset := 0, needle_offset := capacity ?st + 1\<rparr>)"
      using t(5,10) st2(4) by (simp add: collecting_def st_ok_def searched_def contents_def)
    ultimately show thesis using that [OF n] b(3,4) by simp
  qed
qed


lemma request_eof:
  assumes f: "\<And>n. length (ce_realloc E n) = n" and st: "collecting c st" "length c < CLI_MAX_BUF"
  obtains st' where "cli_client_handle_request E fd st (Data [] # rs) w = Some (False, st', rs, w)"
proof -
  have s: "st_ok st" "search_offset st < 2 ^ 30" "searched [NL] 0 st" "contents st = c" "NL \<notin> set c" "max_capacity st = CLI_MAX_BUF"
    using st by (auto simp: collecting_def)
  have u: "used st + length [] \<le> capacity st" "used st = length c" using s(1) length_contents [OF s(1)] s(4) by (simp_all add: st_ok_def)
  obtain st1 where t0: "search_turn [NL] [] 1 st = Some (None, 1, st1)" and st1: "st_ok st1" "contents st1 = c" "used st1 = length c" "max_capacity st1 = CLI_MAX_BUF"
    using search_turn_exact [OF s(1) u(1) _ _ s(2,3), of 1] u(2) s(4-6) find_byte_None [of NL c] by auto
  obtain st2 where g: "search_state_grow_if_full (Some (ce_realloc E)) st1 = Some (if used st1 = max_capacity st1 then 2 else if used st1 = capacity st1 then 1 else 0, st2)"
    and st2: "st_ok st2" "contents st2 = contents st1" "used st2 = used st1" "search_offset st2 = search_offset st1" "needle_offset st2 = needle_offset st1"
      "max_capacity st2 = max_capacity st1" "used st1 = max_capacity st1 \<or> used st2 < capacity st2" "capacity st1 \<le> capacity st2"
    by (rule grow_exact [OF st1(1) f])
  have "search_loop (Some (ce_realloc E)) [NL] 1 (Data [] # rs) st1 = Some (1, st2, rs)"
    using g st1 st(2) by (subst search_loop.simps) auto
  then have rd: "read_search (Some (ce_realloc E)) fd [NL] st 1 (Data [] # rs) = Some (1, st2, rs)"
    using t0 by (simp add: read_search_def real_read_search_def search_all_def)
  have "used st2 < max_capacity st2" using st1 st2 st(2) by simp
  then obtain g st3 e where t: "search_state_grow_if_full (Some (ce_realloc E)) st2 = Some (g, st3)" "g \<noteq> 2" "g \<noteq> - 1"
    "chbuf (nul_end st3) = contents st2 @ 0 # e" "st_ok (nul_end st3)" "contents (nul_end st3) = contents st2" "used (nul_end st3) = used st2"
    "search_offset (nul_end st3) = search_offset st2" "needle_offset (nul_end st3) = needle_offset st2" "max_capacity (nul_end st3) = max_capacity st2"
    by (rule terminated [OF f st2(1)])
  then have "strchr (chbuf (nul_end st3)) NL = Some None" using strchr_ends [OF s(5)] st1 st2 by simp
  with rd t(1-3) that show thesis by (simp add: cli_client_handle_request_def Let_def)
qed

subsection \<open>A whole session\<close>

text \<open>The reference: the lines of a stream, and what is left after the last newline.\<close>

fun lines_of :: "u8 list \<Rightarrow> u8 list \<Rightarrow> u8 list list \<times> u8 list" where
  "lines_of c [] = ([], c)"
| "lines_of c (b # bs) = (if b = NL then let (ls, r) = lines_of [] bs in ((c @ [NL]) # ls, r) else lines_of (c @ [b]) bs)"

fun served :: "'w cli_env \<Rightarrow> u8 list list \<Rightarrow> 'w \<Rightarrow> 'w" where
  "served E [] w = w"
| "served E (l # ls) w = served E ls (ce_prompt E (ce_parse E l w))"

text \<open>No command ends the session.\<close>

fun stays :: "'w cli_env \<Rightarrow> u8 list list \<Rightarrow> 'w \<Rightarrow> bool" where
  "stays E [] w = (\<not> ce_shutdown E w)"
| "stays E (l # ls) w =
     (let w1 = ce_parse E l w; w2 = ce_prompt E w1
      in \<not> ce_shutdown E w \<and> ce_alive E w1 \<and> \<not> ce_shutdown E w1 \<and> ce_alive E w2 \<and> stays E ls w2)"

lemma stays_now: "stays E ls w \<Longrightarrow> \<not> ce_shutdown E w"
  by (cases ls) (auto simp: Let_def)

definition short :: "u8 list list \<times> u8 list \<Rightarrow> bool" where
  "short p \<longleftrightarrow> (\<forall>l \<in> set (fst p). length l < CLI_MAX_BUF) \<and> length (snd p) < CLI_MAX_BUF"

lemma short_start: "short (lines_of c s) \<Longrightarrow> length c < CLI_MAX_BUF"
proof (induction c s rule: lines_of.induct)
  case (2 c b bs)
  then show ?case by (cases "b = NL") (auto simp: short_def split: prod.splits)
qed (simp add: short_def)

lemma lines_of_append: "NL \<notin> set d \<Longrightarrow> lines_of c (d @ s) = lines_of (c @ d) s"
  by (induction d arbitrary: c) auto

lemma lines_of_line: "NL \<notin> set d \<Longrightarrow> lines_of c (d @ NL # s) = ((c @ d @ [NL]) # fst (lines_of [] s), snd (lines_of [] s))"
  by (simp add: lines_of_append split: prod.splits)

lemma lines_of_piece:
  "bs \<noteq> [] \<Longrightarrow> NL \<notin> set (butlast bs) \<Longrightarrow> last bs = NL \<Longrightarrow> lines_of c (bs @ s) = ((c @ bs) # fst (lines_of [] s), snd (lines_of [] s))"
  by (cases bs rule: rev_cases) (simp_all add: lines_of_line)

definition piece :: "u8 list \<Rightarrow> bool" where
  "piece bs \<longleftrightarrow> bs \<noteq> [] \<and> NL \<notin> set (butlast bs) \<and> 0 \<notin> set bs"

lemma piece_drop: "piece bs \<Longrightarrow> n < length bs \<Longrightarrow> piece (drop n bs)"
  by (auto simp: piece_def butlast_drop dest: in_set_dropD)

lemma session:
  assumes f: "\<And>n. length (ce_realloc E n) = n"
  shows "\<forall>bs \<in> set ps. piece bs \<Longrightarrow> collecting c st \<Longrightarrow> short (lines_of c (concat ps)) \<Longrightarrow> stays E (fst (lines_of c (concat ps))) w \<Longrightarrow>
    client_loop E fd st (map Data ps @ [Data []]) w = Some (False, served E (fst (lines_of c (concat ps))) w)"
proof (induction "length (concat ps)" arbitrary: ps c st w rule: less_induct)
  case less
  show ?case
  proof (cases ps)
    case Nil
    from request_eof [OF f less.prems(2) short_start [OF less.prems(3)]] obtain st' where
      "cli_client_handle_request E fd st [Data []] w = Some (False, st', [], w)" by blast
    with Nil less.prems(4) show ?thesis by (subst client_loop.simps) simp
  next
    case (Cons bs qs)
    have p: "bs \<noteq> []" "NL \<notin> set (butlast bs)" "0 \<notin> set bs" "piece bs" "\<forall>q \<in> set qs. piece q" using less.prems(1) Cons by (auto simp: piece_def)
    have line: "lines_of c (concat ps) = ((c @ bs) # fst (lines_of [] (concat qs)), snd (lines_of [] (concat qs)))" if "last bs = NL"
      using lines_of_piece [OF p(1,2) that, of c "concat qs"] Cons by simp
    have more: "lines_of c (concat ps) = lines_of (c @ take n bs) (drop n bs @ concat qs)" if "n < length bs \<or> last bs \<noteq> NL" for n
      using lines_of_append [OF piece_without_newline [OF that p(2)], of c "drop n bs @ concat qs"] Cons by (simp flip: append_assoc)
    have len: "length c + length bs < CLI_MAX_BUF"
      using line more [of "length bs"] less.prems(3) short_start [of "c @ bs" "concat qs"] by (cases "last bs = NL") (auto simp: short_def)
    have alive: "ce_alive E (ce_parse E (c @ bs) w) \<and> \<not> ce_shutdown E (ce_parse E (c @ bs) w)" if "last bs = NL"
      using less.prems(4) line [OF that] by (simp add: Let_def)
    obtain n st' where n: "0 < n" and req: "if n < length bs \<or> last bs \<noteq> NL
        then cli_client_handle_request E fd st (Data bs # map Data qs @ [Data []]) w =
          Some (True, st', if n < length bs then Data (drop n bs) # map Data qs @ [Data []] else map Data qs @ [Data []], w) \<and> collecting (c @ take n bs) st'
        else cli_client_handle_request E fd st (Data bs # map Data qs @ [Data []]) w =
          Some (ce_alive E (ce_prompt E (ce_parse E (c @ bs) w)), st', map Data qs @ [Data []], ce_prompt E (ce_parse E (c @ bs) w)) \<and> collecting [] st'"
      by (rule request_piece [OF f less.prems(2) p(1-3) len alive])
    show ?thesis
    proof (cases "n < length bs \<or> last bs \<noteq> NL")
      case True
      let ?qs = "if n < length bs then drop n bs # qs else qs"
      have l: "lines_of c (concat ps) = lines_of (c @ take n bs) (concat ?qs)" using more [OF True] by simp
      have "client_loop E fd st (map Data ps @ [Data []]) w = client_loop E fd st' (map Data ?qs @ [Data []]) w"
        using req True Cons stays_now [OF less.prems(4)] by (subst client_loop.simps) simp
      also have "\<dots> = Some (False, served E (fst (lines_of (c @ take n bs) (concat ?qs))) w)"
      proof (rule less.hyps)
        show "length (concat ?qs) < length (concat ps)" using n p(1) Cons by simp
        show "\<forall>q \<in> set ?qs. piece q" using p piece_drop by simp
        show "collecting (c @ take n bs) st'" using req True by simp
      qed (use less.prems(3,4) in \<open>simp_all add: l\<close>)
      finally show ?thesis by (simp add: l)
    next
      case False
      then have l: "lines_of c (concat ps) = ((c @ bs) # fst (lines_of [] (concat qs)), snd (lines_of [] (concat qs)))" using line by simp
      let ?w = "ce_prompt E (ce_parse E (c @ bs) w)"
      have w: "ce_alive E ?w" "stays E (fst (lines_of [] (concat qs))) ?w" using less.prems(4) by (simp_all add: l Let_def)
      have "client_loop E fd st (map Data ps @ [Data []]) w = client_loop E fd st' (map Data qs @ [Data []]) ?w"
        using req False Cons w(1) stays_now [OF w(2)] by (subst client_loop.simps) simp
      also have "\<dots> = Some (False, served E (fst (lines_of [] (concat qs))) ?w)"
      proof (rule less.hyps)
        show "length (concat qs) < length (concat ps)" using p(1) Cons by simp
        show "collecting [] st'" using req False by simp
      qed (use less.prems(3) p(5) w(2) in \<open>simp_all add: l short_def\<close>)
      finally show ?thesis by (simp add: l)
    qed
  qed
qed



text \<open>The session \<open>a\<close>, newline, \<open>bc\<close>, newline, in three chunks; the state records the commands.\<close>

definition cli_example :: "(u8 list list) cli_env" where
  "cli_example = \<lparr>ce_parse = (\<lambda>c w. w @ [c]), ce_alive = (\<lambda>w. True), ce_shutdown = (\<lambda>w. False), ce_prompt = (\<lambda>w. w), ce_welcome = (\<lambda>w. w),
     ce_realloc = (\<lambda>n. replicate n 0)\<rparr>"


subsection \<open>Several commands at once\<close>

lemma request_chunk:
  assumes f: "\<And>n. length (ce_realloc E n) = n" and st: "collecting [] st" and bs: "length bs \<le> capacity st" "bs = c1 @ NL # c" "NL \<notin> set c1" "length bs < CLI_MAX_BUF"
  obtains st' e where "chbuf st' = bs @ 0 # e" "used st' = length bs" "needle_offset st' = length c1" "st_ok st'"
    "cli_client_handle_request E fd st (Data bs # rs) w = map_option (\<lambda>(b, st, w). (b, st, rs, w)) (cli_parser_handle_client E st' w)"
proof -
  have s: "st_ok st" "search_offset st < 2 ^ 30" "searched [NL] 0 st" "contents st = []" "max_capacity st = CLI_MAX_BUF"
    using st by (auto simp: collecting_def)
  have u: "used st = 0" using length_contents [OF s(1)] s(4) by simp
  have "bs \<noteq> []" "NL \<notin> set (contents st)" "used st < max_capacity st" using bs s(4,5) u by auto
  then obtain n st2 where n: "0 < n" "capacity st - used st \<le> n" and st2: "st_ok st2" "contents st2 = contents st @ take n bs" "search_offset st2 < 2 ^ 30"
      "max_capacity st2 = max_capacity st"
    and rd: "read_search (Some (ce_realloc E)) fd [NL] st 1 (Data bs # rs) =
      Some (if NL \<in> set (take n bs) then 0 else - 3, st2, if n < length bs then Data (drop n bs) # rs else rs)"
    and found: "case find_needle [NL] 0 (contents st2) of Some i \<Rightarrow> needle_offset st2 = i | None \<Rightarrow> searched [NL] 0 st2"
    by (metis read_one [OF f s(1-3)])
  have "take n bs = bs" "\<not> n < length bs" "NL \<in> set bs" using n(2) u bs(1,2) by auto
  then have rd: "read_search (Some (ce_realloc E)) fd [NL] st 1 (Data bs # rs) = Some (0, st2, rs)" and st2: "st_ok st2" "contents st2 = bs" "max_capacity st2 = CLI_MAX_BUF"
    using rd st2 s(4,5) by simp_all
  have no: "needle_offset st2 = length c1" using found find_byte_first [OF bs(3)] st2(2) bs(2) by simp
  have u2: "used st2 = length bs" using length_contents [OF st2(1)] st2(2) by simp
  then have "used st2 < max_capacity st2" using bs(4) st2(3) by simp
  then obtain g st3 e where t: "search_state_grow_if_full (Some (ce_realloc E)) st2 = Some (g, st3)" "g \<noteq> 2" "g \<noteq> - 1"
    "chbuf (nul_end st3) = contents st2 @ 0 # e" "st_ok (nul_end st3)" "contents (nul_end st3) = contents st2" "used (nul_end st3) = used st2"
    "search_offset (nul_end st3) = search_offset st2" "needle_offset (nul_end st3) = needle_offset st2" "max_capacity (nul_end st3) = max_capacity st2"
    by (rule terminated [OF f st2(1)])
  have "cli_client_handle_request E fd st (Data bs # rs) w = map_option (\<lambda>(b, st, w). (b, st, rs, w)) (cli_parser_handle_client E (nul_end st3) w)"
    using rd t(1-3) by (simp add: cli_client_handle_request_def Let_def)
  then show thesis using that [of "nul_end st3" e] t st2(2) u2 no by simp
qed

text \<open>
  C40: a client that sends two commands in one chunk. The parser gets the first command, and then both of them again, because the start of the
  text is not moved; after that the buffer does not hold what follows the second newline (nothing) but the first newline and the second command
  without its newline, so that the next request runs without data from the client. With a NUL before the newline the program ends instead.
\<close>

theorem cli_two_commands:
  assumes f: "\<And>n. length (ce_realloc E n) = n" and st: "collecting [] st"
    and bs: "bs = c1 @ NL # c2 @ [NL]" "length bs \<le> capacity st" "NL \<notin> set c1" "NL \<notin> set c2" "length bs < CLI_MAX_BUF"
    and w1: "w1 = ce_parse E (c1 @ [NL]) w" "ce_alive E w1" "\<not> ce_shutdown E w1"
    and w2: "w2 = ce_parse E bs w1" "ce_alive E w2" "\<not> ce_shutdown E w2"
  shows "(0 \<notin> set bs \<longrightarrow>
      (\<exists>st'. cli_client_handle_request E fd st (Data bs # rs) w = Some (ce_alive E (ce_prompt E w2), st', rs, ce_prompt E w2) \<and> contents st' = NL # c2)) \<and>
    (0 \<in> set c1 \<longrightarrow> cli_client_handle_request E fd st (Data bs # rs) w = None)"
proof -
  from bs(1) have bs1: "bs = c1 @ NL # (c2 @ [NL])" by simp
  obtain s e where s: "chbuf s = bs @ 0 # e" "used s = length bs" "needle_offset s = length c1" "st_ok s"
    "cli_client_handle_request E fd st (Data bs # rs) w = map_option (\<lambda>(b, st, w). (b, st, rs, w)) (cli_parser_handle_client E s w)"
    by (rule request_chunk [OF f st bs(2) bs1 bs(3,5)])
  have "cli_client_handle_request E fd st (Data bs # rs) w = None" if z: "0 \<in> set c1"
  proof -
    obtain d1 d2 where "c1 = d1 @ 0 # d2" using split_list [OF z] by blast
    then have "strchr (chbuf s) NL = Some None" using s(1) bs(1,3) strchr_ends [of NL d1] by simp
    then show ?thesis using s(5) by (simp add: cli_parser_handle_client_def)
  qed
  moreover have "\<exists>st'. cli_client_handle_request E fd st (Data bs # rs) w = Some (ce_alive E (ce_prompt E w2), st', rs, ce_prompt E w2) \<and> contents st' = NL # c2"
    if no: "0 \<notin> set bs"
  proof -
    have c1: "strchr (chbuf s) NL = Some (Some (length c1))" and c2: "strchr (drop (length c1 + 1) (chbuf s)) NL = Some (Some (length c2))"
      using s(1) bs no by (simp_all add: strchr_finds)
    have "parse_loop E (chbuf s) (length c1 + 1 + length c2) w1 = Some (True, w2)"
      using s(1) bs w2 by (subst parse_loop.simps) (simp add: Let_def)
    then have "parse_loop E (chbuf s) (length c1) w = Some (True, w2)"
      using s(1) bs w1 c2 by (subst parse_loop.simps) (simp add: Let_def)
    moreover have "contents (shift_left_over s) = NL # c2"
      using s(1-3) bs(1) by (simp add: shift_left_over_def contents_def Let_def nat_add_distrib)
    ultimately show ?thesis using s(5) c1 by (simp add: cli_parser_handle_client_def Let_def)
  qed
  ultimately show ?thesis by blast
qed

theorem cli_two_commands_witness:
  "\<exists>st st'. search_state_init CLI_INIT_BUF CLI_MAX_BUF = Some st \<and>
     cli_client_handle_request cli_example 4 st [Data [97, NL, 98, NL]] [] = Some (True, st', [], [[97, NL], [97, NL, 98, NL]]) \<and> contents st' = [NL, 98]"
proof -
  obtain st where st: "search_state_init CLI_INIT_BUF CLI_MAX_BUF = Some st" by (simp add: search_state_init_def)
  then have "collecting [] st" "capacity st = CLI_INIT_BUF" by (auto simp: search_state_init_def collecting_def st_ok_def searched_def contents_def)
  with cli_two_commands [of cli_example st "[97, NL, 98, NL]" "[97]" "[98]" "[[97, NL]]" "[]" "[[97, NL], [97, NL, 98, NL]]" 4 "[]"] st
  show ?thesis by (simp add: cli_example_def)
qed

end
