(* ===== verification/Sr_Common.thy ===== *)
theory Sr_Common
  imports Net_Prelude
begin

text \<open>
  The shared helpers of the router stub (\<^verbatim>\<open>sr_common.c\<close>): times, addresses and their text, and the number of ones in a word.
  A \<^verbatim>\<open>long\<close> has 32 bits; a signed overflow, whose result is undefined, is the result \<open>None\<close>. A buffer that \<^verbatim>\<open>snprintf\<close> fills is
  the text up to its NUL. A failed \<^verbatim>\<open>malloc\<close> ends the program, so that \<^verbatim>\<open>malloc_or_die\<close> always succeeds in the models that use it.
\<close>

unbundle bit_operations_syntax

subsection \<open>Times\<close>

record timeval =
  tv_sec :: u32
  tv_usec :: u32

definition time_add_usec :: "timeval \<Rightarrow> u32 \<Rightarrow> timeval" where
  "time_add_usec start usec =
     (let tot_usec = usec + tv_usec start;
          carry_sec = tot_usec div 1000000
      in \<lparr>tv_sec = tv_sec start + carry_sec, tv_usec = tot_usec - 1000000 * carry_sec\<rparr>)"

definition is_later :: "timeval \<Rightarrow> timeval \<Rightarrow> bool" where
  "is_later t1 t2 \<longleftrightarrow> sint (tv_sec t1) > sint (tv_sec t2) \<or> tv_sec t1 = tv_sec t2 \<and> sint (tv_usec t1) > sint (tv_usec t2)"

definition in_long :: "int \<Rightarrow> bool" where
  "in_long i \<longleftrightarrow> - (2 ^ 31) \<le> i \<and> i < 2 ^ 31"

definition usec_of :: "timeval \<Rightarrow> u64 option" where
  "usec_of t =
     (let p = sint (tv_sec t) * 1000000; q = p + sint (tv_usec t)
      in if in_long p \<and> in_long q then Some (word_of_int q) else None)"

text \<open>The argument \<open>end\<close> is \<open>None\<close> for NULL; then the time is \<open>now\<close>.\<close>

definition time_passed :: "timeval \<Rightarrow> timeval \<Rightarrow> timeval option \<Rightarrow> u64 option" where
  "time_passed now start end =
     (case usec_of start of
        None \<Rightarrow> None
      | Some start_usec \<Rightarrow> map_option (\<lambda>end_usec. end_usec - start_usec) (usec_of (case end of None \<Rightarrow> now | Some e \<Rightarrow> e)))"

definition has_time_passed :: "timeval \<Rightarrow> timeval \<Rightarrow> timeval option \<Rightarrow> u64 \<Rightarrow> bool option" where
  "has_time_passed now start end microsec_threshold = map_option (\<lambda>d. d > microsec_threshold) (time_passed now start end)"

text \<open>A time as the operating system gives it, and its value in microseconds.\<close>

definition normal :: "timeval \<Rightarrow> bool" where
  "normal t \<longleftrightarrow> unat (tv_sec t) < 2 ^ 31 \<and> unat (tv_usec t) < 1000000"

definition usecs :: "timeval \<Rightarrow> nat" where
  "usecs t = unat (tv_sec t) * 1000000 + unat (tv_usec t)"

lemma sint_small: "unat (x :: u32) < 2 ^ 31 \<Longrightarrow> sint x = int (unat x)"
proof -
  assume "unat x < 2 ^ 31"
  then have "int (unat x) < int (2 ^ 31)" unfolding of_nat_less_iff .
  then have "signed_take_bit 31 (uint x) = uint x"
    using signed_take_bit_int_eq_self [of 31 "uint x"] uint_ge_0 [of x] by (simp del: uint_ge_0)
  then show ?thesis by (simp add: sint_uint)
qed

lemma sint_diff_small:
  assumes "unat (a :: u32) < 2 ^ 31" "unat (b :: u32) < 2 ^ 31"
  shows "sint (a - b) = int (unat a) - int (unat b)"
proof -
  have "sint (a - b) = signed_take_bit 31 (int (unat a) - int (unat b))"
    using sint_small [OF assms(1)] sint_small [OF assms(2)] by (simp add: sint_word_ariths)
  moreover have "int (unat a) < int (2 ^ 31)" "int (unat b) < int (2 ^ 31)" using assms unfolding of_nat_less_iff .
  then have "- (2 ^ 31) \<le> int (unat a) - int (unat b)" "int (unat a) - int (unat b) < 2 ^ 31"
    by (simp_all, (use uint_ge_0 [of a] uint_ge_0 [of b] in linarith)+)
  ultimately show ?thesis using signed_take_bit_int_eq_self by metis
qed

lemma is_later_usecs:
  assumes "normal a" "normal b"
  shows "is_later a b \<longleftrightarrow> usecs a > usecs b"
proof -
  have s: "sint (tv_sec a) = int (unat (tv_sec a))" "sint (tv_sec b) = int (unat (tv_sec b))"
    "sint (tv_usec a) = int (unat (tv_usec a))" "sint (tv_usec b) = int (unat (tv_usec b))"
    using assms by (simp_all add: normal_def sint_small)
  have "unat (tv_usec a) < 1000000" "unat (tv_usec b) < 1000000" using assms by (simp_all add: normal_def)
  then have "(B < A \<or> A = B \<and> unat (tv_usec b) < unat (tv_usec a)) = (B * 1000000 + unat (tv_usec b) < A * 1000000 + unat (tv_usec a))" for A B :: nat
    by (cases A B rule: linorder_cases) auto
  then show ?thesis unfolding is_later_def usecs_def s word_unat_eq_iff of_nat_less_iff .
qed

lemma time_add_usec_exact:
  assumes "normal t" "unat d < 2 ^ 31" "unat (tv_sec t) + 2148 < 2 ^ 31"
  shows "normal (time_add_usec t d)" "usecs (time_add_usec t d) = usecs t + unat d"
proof -
  let ?n = "unat d + unat (tv_usec t)"
  have tot: "unat (d + tv_usec t) = ?n" using assms by (simp add: normal_def unat_add_less)
  have c: "unat ((d + tv_usec t) div 1000000) = ?n div 1000000" by (simp add: unat_div tot)
  have n: "?n < 2 ^ 31 + 1000000" "unat (tv_usec t) < 1000000" using assms by (simp_all add: normal_def)
  then have q: "?n div 1000000 \<le> 2148" by simp
  have m: "unat (1000000 * ((d + tv_usec t) div 1000000)) = 1000000 * (?n div 1000000)"
    using q by (simp add: unat_word_ariths c)
  have u: "unat (d + tv_usec t - 1000000 * ((d + tv_usec t) div 1000000)) = ?n mod 1000000"
    using tot by (simp add: minus_mult_div_eq_mod unat_mod)
  have s: "unat (tv_sec t + (d + tv_usec t) div 1000000) = unat (tv_sec t) + ?n div 1000000"
    using c q assms(3) by (simp add: unat_add_less)
  show "normal (time_add_usec t d)" using u s q assms(3) by (simp add: time_add_usec_def normal_def Let_def)
  show "usecs (time_add_usec t d) = usecs t + unat d"
    using u s by (simp add: time_add_usec_def usecs_def Let_def algebra_simps)
qed

text \<open>Half an hour after the beginning of 1970 the product of \<open>time_passed\<close> no longer fits.\<close>

lemma time_passed_undefined:
  assumes "normal start" "unat (tv_sec start) \<ge> 2148"
  shows "time_passed now start end = None"
proof -
  have "sint (tv_sec start) = int (unat (tv_sec start))" using assms by (simp add: normal_def sint_small)
  moreover have "2148 \<le> int (unat (tv_sec start))" using assms(2) by linarith
  ultimately have "\<not> in_long (sint (tv_sec start) * 1000000)" by (simp add: in_long_def)
  then show ?thesis by (simp add: time_passed_def usec_of_def Let_def)
qed

subsection \<open>The number of ones\<close>

definition ones :: "u32 \<Rightarrow> u32" where
  "ones x =
     (let x = x - (drop_bit 1 x AND 0x55555555);
          x = (drop_bit 2 x AND 0x33333333) + (x AND 0x33333333);
          x = (drop_bit 4 x + x) AND 0x0f0f0f0f;
          x = x + drop_bit 8 x;
          x = x + drop_bit 16 x
      in x AND 0x3f)"


text \<open>
  The steps of \<open>ones\<close> on natural numbers. A number and a mask are put together from their lowest byte and the rest, and each step
  works on the bytes alone.
\<close>

definition n1 :: "nat \<Rightarrow> nat \<Rightarrow> nat" where "n1 m x = x - (x div 2 AND m)"
definition n2 :: "nat \<Rightarrow> nat \<Rightarrow> nat" where "n2 m x = (x div 4 AND m) + (x AND m)"
definition n3 :: "nat \<Rightarrow> nat \<Rightarrow> nat" where "n3 m x = (x div 16 + x) AND m"

lemma bit_join:
  fixes a y :: nat
  assumes "a < 2 ^ k"
  shows "bit (a + 2 ^ k * y) i \<longleftrightarrow> (if i < k then bit a i else bit y (i - k))"
proof (cases "i < k")
  case True
  then obtain j where k: "k = i + Suc j" using less_iff_Suc_add by auto
  have "2 ^ k * y = 2 * (2 ^ j * y) * 2 ^ i" by (simp add: k power_add)
  then have "(a + 2 ^ k * y) div 2 ^ i = a div 2 ^ i + 2 * (2 ^ j * y)" by (simp only: div_mult_self1 power_not_zero) simp
  then show ?thesis using True by (simp add: bit_iff_odd)
next
  case False
  then obtain j where i: "i = k + j" using le_Suc_ex leI by blast
  have "(a + 2 ^ k * y) div 2 ^ i = y div 2 ^ j" using assms by (simp add: i power_add div_mult2_eq)
  then show ?thesis using False by (simp add: bit_iff_odd i)
qed

lemma and_le: "(a :: nat) AND m \<le> a" "(a :: nat) AND m \<le> m"
  by (simp_all add: and_nat_def nat_le_iff)

lemma and_join:
  fixes a y m n :: nat
  assumes "a < 2 ^ k" "m < 2 ^ k"
  shows "(a + 2 ^ k * y) AND (m + 2 ^ k * n) = (a AND m) + 2 ^ k * (y AND n)"
proof -
  have "a AND m < 2 ^ k" using assms(1) and_le(1) [of a m] by linarith
  then show ?thesis using assms by (intro bit_eqI) (simp add: bit_and_iff bit_join)
qed

lemma bit_below: "(m :: nat) < 2 ^ k \<Longrightarrow> k \<le> i \<Longrightarrow> \<not> bit m i"
  using bit_join [of m k 0 i] by simp

lemma shift_and_join:
  fixes a y m n :: nat
  assumes "a < 2 ^ k" "m < 2 ^ (k - s)" "s \<le> k"
  shows "((a + 2 ^ k * y) div 2 ^ s) AND (m + 2 ^ k * n) = (a div 2 ^ s AND m) + 2 ^ k * (y div 2 ^ s AND n)"
proof -
  have m: "m < 2 ^ k" using less_le_trans [OF assms(2) power_increasing [of "k - s" k "2 :: nat"]] by simp
  then have "a div 2 ^ s AND m < 2 ^ k" using and_le(2) [of "a div 2 ^ s" m] by linarith
  moreover have sh: "bit (z div 2 ^ s) i \<longleftrightarrow> bit z (i + s)" for z i :: nat by (simp add: bit_iff_odd power_add mult.commute flip: div_mult2_eq)
  ultimately show ?thesis
    using assms m bit_below [OF assms(2)] by (intro bit_eqI) (auto simp: bit_and_iff bit_join sh)
qed

lemma n1_join:
  assumes "a < 2 ^ k" "m < 2 ^ (k - 1)" "1 \<le> k"
  shows "n1 (m + 2 ^ k * n) (a + 2 ^ k * y) = n1 m a + 2 ^ k * n1 n y"
proof -
  have "(a + 2 ^ k * y) div 2 AND (m + 2 ^ k * n) = (a div 2 AND m) + 2 ^ k * (y div 2 AND n)"
    using shift_and_join [OF assms] by simp
  moreover have "a div 2 AND m \<le> a" "y div 2 AND n \<le> y"
    using and_le(1) [of "a div 2" m] and_le(1) [of "y div 2" n] by linarith+
  ultimately show ?thesis by (simp add: n1_def diff_mult_distrib2)
qed

lemma n2_join:
  assumes "a < 2 ^ k" "m < 2 ^ (k - 2)" "2 \<le> k"
  shows "n2 (m + 2 ^ k * n) (a + 2 ^ k * y) = n2 m a + 2 ^ k * n2 n y"
proof -
  have "m < 2 ^ k" using less_le_trans [OF assms(2) power_increasing [of "k - 2" k "2 :: nat"]] by simp
  then show ?thesis using shift_and_join [OF assms, of y n] and_join [OF assms(1), of m y n] by (simp add: n2_def algebra_simps)
qed

lemma and_15: "(z :: nat) AND 15 = z mod 16"
  using take_bit_eq_mask [of 4 z] by (simp add: take_bit_eq_mod mask_eq_exp_minus_1)

lemma n3_join:
  assumes "a \<le> 68" "y mod 16 \<le> 4"
  shows "n3 (15 + 256 * m) (a + 256 * y) = n3 15 a + 256 * n3 m y"
proof -
  have "y = 16 * (y div 16) + y mod 16" by simp
  then have "16 * y = 256 * (y div 16) + 16 * (y mod 16)" by linarith
  moreover have "(a + 256 * y) div 16 = a div 16 + 16 * y" by simp
  ultimately have e: "(a + 256 * y) div 16 + (a + 256 * y) = (a div 16 + a + 16 * (y mod 16)) + 256 * (y div 16 + y)" by simp
  have "a div 16 + a + 16 * (y mod 16) < 256" using assms by linarith
  then have "n3 (15 + 256 * m) (a + 256 * y) = (a div 16 + a + 16 * (y mod 16) AND 15) + 256 * n3 m y"
    unfolding n3_def e using and_join [of "a div 16 + a + 16 * (y mod 16)" 8 15 "y div 16 + y" m] by simp
  then show ?thesis by (simp add: n3_def and_15)
qed

text \<open>The reference for numbers, and the steps on four bits and on a byte.\<close>

fun popc :: "nat \<Rightarrow> nat" where
  "popc n = (if n = 0 then 0 else n mod 2 + popc (n div 2))"

declare popc.simps [simp del]

lemma popc_join: "a < 2 ^ k \<Longrightarrow> popc (a + 2 ^ k * y) = popc a + popc y"
proof (induction k arbitrary: a)
  case 0
  then show ?case by (simp add: popc.simps [of 0])
next
  case (Suc k)
  have "a div 2 < 2 ^ k" using Suc.prems by simp
  moreover have "(a + 2 ^ Suc k * y) div 2 = a div 2 + 2 ^ k * y" "(a + 2 ^ Suc k * y) mod 2 = a mod 2" by (simp_all add: mult.assoc)
  moreover have "popc a = a mod 2 + popc (a div 2)" by (cases "a = 0") (simp_all add: popc.simps [of 0] popc.simps [of a])
  ultimately show ?case using Suc.IH [of "a div 2"] by (subst popc.simps) (auto simp: popc.simps [of 0])
qed

lemma nibble_ones: "list_all (\<lambda>a. n2 3 (n1 5 a) = popc a \<and> popc a \<le> 4) [0..<16]"
  by code_simp


lemma nibble: "a < 16 \<Longrightarrow> n2 3 (n1 5 a) = popc a" "a < 16 \<Longrightarrow> popc a \<le> 4" "n1 5 a \<le> a"
  using nibble_ones by (auto simp: list_all_iff n1_def)

lemma byte_ones:
  assumes "a < 256"
  shows "n1 0x55 a < 256" "n2 0x33 (n1 0x55 a) \<le> 68" "n2 0x33 (n1 0x55 a) mod 16 \<le> 4" "n3 15 (n2 0x33 (n1 0x55 a)) = popc a" "popc a \<le> 8"
proof -
  let ?l = "a mod 16" and ?h = "a div 16"
  have lh: "?l < 16" "?h < 16" "a = ?l + 16 * ?h" using assms by auto
  have "n1 0x55 a = n1 5 ?l + 16 * n1 5 ?h" using n1_join [of ?l 4 5 5 ?h] lh by simp
  moreover have "n1 5 ?l < 16" "n1 5 ?h < 16" using nibble(3) lh(1,2) le_less_trans by blast+
  ultimately have x: "n2 0x33 (n1 0x55 a) = popc ?l + 16 * popc ?h" "n1 0x55 a < 256"
    using n2_join [of "n1 5 ?l" 4 3 3 "n1 5 ?h"] nibble(1) lh by simp_all
  have p: "popc a = popc ?l + popc ?h" using popc_join [of ?l 4 ?h] lh by simp
  have b: "popc ?l \<le> 4" "popc ?h \<le> 4" using nibble(2) lh by simp_all
  show "n1 0x55 a < 256" by (rule x)
  show "n2 0x33 (n1 0x55 a) \<le> 68" "n2 0x33 (n1 0x55 a) mod 16 \<le> 4" "popc a \<le> 8" using x b p by simp_all
  have "(17 * h + l) mod 16 = l + h" if "l \<le> 4" "h \<le> 4" for l h :: nat
    using mod_mult_self1 [of "l + h" h 16] that by (simp add: algebra_simps)
  then show "n3 15 (n2 0x33 (n1 0x55 a)) = popc a" using x b p by (simp add: n3_def and_15)
qed

lemma more_bytes:
  assumes "a < 256"
  shows "n2 (0x33 + 256 * m2) (n1 (0x55 + 256 * m1) (a + 256 * y)) = n2 0x33 (n1 0x55 a) + 256 * n2 m2 (n1 m1 y)"
    "n2 (0x33 + 256 * m2) (n1 (0x55 + 256 * m1) (a + 256 * y)) mod 16 \<le> 4"
    "n2 m2 (n1 m1 y) mod 16 \<le> 4 \<Longrightarrow>
      n3 (15 + 256 * m3) (n2 (0x33 + 256 * m2) (n1 (0x55 + 256 * m1) (a + 256 * y))) = popc a + 256 * n3 m3 (n2 m2 (n1 m1 y))"
proof -
  have "n1 (0x55 + 256 * m1) (a + 256 * y) = n1 0x55 a + 256 * n1 m1 y" using n1_join [of a 8 "0x55" m1 y] assms by simp
  then show e: "n2 (0x33 + 256 * m2) (n1 (0x55 + 256 * m1) (a + 256 * y)) = n2 0x33 (n1 0x55 a) + 256 * n2 m2 (n1 m1 y)"
    using n2_join [of "n1 0x55 a" 8 "0x33" m2 "n1 m1 y"] byte_ones(1) [OF assms] by simp
  have "(z + 256 * w) mod 16 = z mod 16" for z w :: nat using mod_mult_self2 [of z 16 "16 * w"] by simp
  then show "n2 (0x33 + 256 * m2) (n1 (0x55 + 256 * m1) (a + 256 * y)) mod 16 \<le> 4" using e byte_ones(3) [OF assms] by simp
  assume "n2 m2 (n1 m1 y) mod 16 \<le> 4"
  then show "n3 (15 + 256 * m3) (n2 (0x33 + 256 * m2) (n1 (0x55 + 256 * m1) (a + 256 * y))) = popc a + 256 * n3 m3 (n2 m2 (n1 m1 y))"
    using n3_join [OF byte_ones(2) [OF assms]] byte_ones(4) [OF assms] e by simp
qed

lemma four_bytes:
  assumes "a < 256" "b < 256" "c < 256" "d < 256"
  shows "n3 0x0f0f0f0f (n2 0x33333333 (n1 0x55555555 (a + 256 * (b + 256 * (c + 256 * d))))) = popc a + 256 * (popc b + 256 * (popc c + 256 * popc d))"
proof -
  note d = byte_ones [OF assms(4)]
  note c = more_bytes [OF assms(3), of "0x33" "0x55" d]
  note b = more_bytes [OF assms(2), of "0x33 + 256 * 0x33" "0x55 + 256 * 0x55" "c + 256 * d"]
  note a = more_bytes [OF assms(1), of "0x33 + 256 * (0x33 + 256 * 0x33)" "0x55 + 256 * (0x55 + 256 * 0x55)" "b + 256 * (c + 256 * d)"]
  have "n3 (15 + 256 * (15 + 256 * (15 + 256 * 15))) (n2 (0x33 + 256 * (0x33 + 256 * (0x33 + 256 * 0x33))) (n1 (0x55 + 256 * (0x55 + 256 * (0x55 + 256 * 0x55)))
      (a + 256 * (b + 256 * (c + 256 * d))))) = popc a + 256 * (popc b + 256 * (popc c + 256 * popc d))"
    unfolding a(3) [OF b(2)] b(3) [OF c(2)] c(3) [OF d(3)] d(4) ..
  then show ?thesis by simp
qed

lemma popc_card: "popc n = card {i. bit n i}"
proof (induction n rule: popc.induct)
  case (1 n)
  show ?case
  proof (cases "n = 0")
    case False
    have s: "{i. bit n i} = (if odd n then {0} else {}) \<union> Suc ` {i. bit (n div 2) i}" (is "_ = ?S")
    proof (rule set_eqI)
      fix i
      show "i \<in> {i. bit n i} \<longleftrightarrow> i \<in> ?S" by (cases i) (auto simp: bit_0 bit_Suc)
    qed
    have "\<not> bit (n div 2) i" if "n div 2 \<le> i" for i using bit_below [OF less_exp that] .
    then have "{i. bit (n div 2) i} \<subseteq> {..<n div 2}" using not_le by blast
    then have "finite {i. bit (n div 2) i}" by (rule finite_subset) simp
    then have "card {i. bit n i} = (if odd n then 1 else 0) + card {i. bit (n div 2) i}"
      unfolding s by (subst card_Un_disjoint) (auto simp: card_image)
    with 1 False show ?thesis by (simp add: popc.simps [of n] mod_2_eq_odd)
  qed (simp add: popc.simps)
qed

lemma popc_bytes:
  "a < 256 \<Longrightarrow> b < 256 \<Longrightarrow> c < 256 \<Longrightarrow> popc (a + 256 * (b + 256 * (c + 256 * d))) = popc a + popc b + popc c + popc d"
proof -
  have j: "z < 256 \<Longrightarrow> popc (z + 256 * y) = popc z + popc y" for z y using popc_join [of z 8 y] by simp
  assume "a < 256" "b < 256" "c < 256"
  then show ?thesis by (simp only: j add.assoc)
qed

lemma unat_shift: "unat (drop_bit n (x :: u32)) = unat x div 2 ^ n"
  unfolding unat_drop_bit_eq by (simp add: drop_bit_eq_div)

lemma unat_masked: "unat (x AND m :: u32) = (unat x AND unat m)"
  by (simp add: unsigned_and_eq)

lemma ones_steps:
  fixes x :: u32
  shows "unat (x - (drop_bit 1 x AND 0x55555555)) = n1 0x55555555 (unat x)"
    "unat ((drop_bit 2 x AND 0x33333333) + (x AND 0x33333333)) = n2 0x33333333 (unat x)" "n2 0x33333333 (unat x) \<le> 0x66666666"
    "unat x \<le> 0x66666666 \<Longrightarrow> unat ((drop_bit 4 x + x) AND 0x0f0f0f0f) = n3 0x0f0f0f0f (unat x)"
proof -
  have "unat (drop_bit 1 x AND 0x55555555) \<le> unat x" using and_le(1) [of "unat x div 2" "0x55555555"] by (simp add: unat_masked unat_shift)
  then show "unat (x - (drop_bit 1 x AND 0x55555555)) = n1 0x55555555 (unat x)"
    by (simp add: unat_sub_le word_le_unat n1_def) (simp add: unat_masked unat_shift)
  have u: "unat (drop_bit 2 x AND 0x33333333) \<le> 0x33333333" "unat (x AND 0x33333333) \<le> 0x33333333"
    using and_le(2) [of "unat x div 4" "0x33333333"] and_le(2) [of "unat x" "0x33333333"] by (simp_all add: unat_masked unat_shift)
  then show s: "unat ((drop_bit 2 x AND 0x33333333) + (x AND 0x33333333)) = n2 0x33333333 (unat x)"
    by (simp add: unat_add_less n2_def) (simp add: unat_masked unat_shift)
  with u show "n2 0x33333333 (unat x) \<le> 0x66666666" by (simp add: unat_add_less)
  assume "unat x \<le> 0x66666666"
  then have "unat (drop_bit 4 x + x) = unat x div 16 + unat x" by (simp add: unat_add_less unat_shift)
  then show "unat ((drop_bit 4 x + x) AND 0x0f0f0f0f) = n3 0x0f0f0f0f (unat x)" by (simp add: unat_masked n3_def)
qed

lemma sum_bytes:
  fixes x :: u32
  assumes "unat x = a + 256 * (b + 256 * (c + 256 * d))" "a \<le> 8" "b \<le> 8" "c \<le> 8" "d \<le> 8" "y = x + drop_bit 8 x"
  shows "unat ((y + drop_bit 16 y) AND 0x3f) = a + b + c + d"
proof -
  have "unat (drop_bit 8 x) = b + 256 * (c + 256 * d)" using assms(1-5) by (simp add: unat_shift)
  then have y: "unat y = (a + b) + 256 * ((b + c) + 256 * ((c + d) + 256 * d))" using assms by (simp add: unat_add_less)
  then have "unat (drop_bit 16 y) = (c + d) + 256 * d" using assms(2-5) by (simp add: unat_shift)
  then have "unat (y + drop_bit 16 y) = (a + b + c + d) + 64 * (4 * ((b + c + d) + 256 * ((c + d) + 256 * d)))" using y assms(2-5) by (simp add: unat_add_less)
  moreover have "unat (z AND 0x3f) = unat z mod 64" for z :: u32
    using take_bit_eq_mask [of 6 "unat z"] by (simp add: unat_masked take_bit_eq_mod mask_eq_exp_minus_1)
  ultimately have "unat ((y + drop_bit 16 y) AND 0x3f) = (a + b + c + d + 64 * (4 * ((b + c + d) + 256 * ((c + d) + 256 * d)))) mod 64" by simp
  also have "\<dots> = (a + b + c + d) mod 64" by (rule mod_mult_self2)
  finally show ?thesis using assms(2-5) by simp
qed

lemma ones_card: "unat (ones x) = card {i. bit x i}"
proof -
  let ?n = "unat x"
  let ?m = "?n div 256" and ?k = "?n div 256 div 256"
  let ?a = "?n mod 256" and ?b = "?m mod 256" and ?c = "?k mod 256" and ?d = "?k div 256"
  have n: "?n = ?a + 256 * (?b + 256 * (?c + 256 * ?d))" by (simp only: mod_mult_div_eq)
  have lt: "?a < 256" "?b < 256" "?c < 256" "?d < 256" using unat_u32_less [of x] by (simp_all add: div_less_iff_less_mult)
  let ?x1 = "x - (drop_bit 1 x AND 0x55555555)"
  let ?x2 = "(drop_bit 2 ?x1 AND 0x33333333) + (?x1 AND 0x33333333)"
  let ?x3 = "(drop_bit 4 ?x2 + ?x2) AND 0x0f0f0f0f"
  have "unat ?x3 = n3 0x0f0f0f0f (n2 0x33333333 (n1 0x55555555 ?n))"
    using ones_steps(1) [of x] ones_steps(2,3) [of ?x1] ones_steps(4) [of ?x2] by simp
  also have "\<dots> = popc ?a + 256 * (popc ?b + 256 * (popc ?c + 256 * popc ?d))"
    by (subst n) (rule four_bytes [OF lt])
  finally have e: "unat ?x3 = popc ?a + 256 * (popc ?b + 256 * (popc ?c + 256 * popc ?d))" .
  have "unat (ones x) = popc ?a + popc ?b + popc ?c + popc ?d"
    unfolding ones_def Let_def
    by (rule sum_bytes [OF e byte_ones(5) [OF lt(1)] byte_ones(5) [OF lt(2)] byte_ones(5) [OF lt(3)] byte_ones(5) [OF lt(4)] refl])
  also have "\<dots> = popc (?a + 256 * (?b + 256 * (?c + 256 * ?d)))"
    by (rule popc_bytes [OF lt(1-3), symmetric])
  also have "\<dots> = popc ?n" by (simp only: mod_mult_div_eq)
  finally show ?thesis by (simp add: popc_card bit_unsigned_iff)
qed

text \<open>C10: the bit tricks of \<open>ones\<close> count the ones of a 32 bit word.\<close>

theorem ones_counts_ones: "unat (ones x) = card {i. bit x i}"
  by (rule ones_card)

subsection \<open>Addresses\<close>

type_synonym addr_mac_t = "u8 list"

abbreviation ETH_ADDR_LEN :: nat where "ETH_ADDR_LEN \<equiv> 6"
abbreviation STRLEN_IP :: nat where "STRLEN_IP \<equiv> 16"
abbreviation STRLEN_MAC :: nat where "STRLEN_MAC \<equiv> 18"
abbreviation STRLEN_SUBNET :: nat where "STRLEN_SUBNET \<equiv> STRLEN_IP + 3"

definition is_valid_mac :: "addr_mac_t \<Rightarrow> bool" where
  "is_valid_mac mac \<longleftrightarrow> list_ex (\<lambda>i. mac ! i \<noteq> 0) [0..<ETH_ADDR_LEN]"

definition make_mac_addr :: "u8 \<Rightarrow> u8 \<Rightarrow> u8 \<Rightarrow> u8 \<Rightarrow> u8 \<Rightarrow> u8 \<Rightarrow> addr_mac_t" where
  "make_mac_addr byte5 byte4 byte3 byte2 byte1 byte0 = [byte0, byte1, byte2, byte3, byte4, byte5]"

text \<open>\<^verbatim>\<open>inet_aton\<close> is a function of the operating system: it gives an address or fails.\<close>

definition make_ip_addr :: "(string \<Rightarrow> u32 option) \<Rightarrow> string \<Rightarrow> u32 option" where
  "make_ip_addr inet_aton str = inet_aton str"

fun dec :: "nat \<Rightarrow> string" where
  "dec n = (if n < 10 then [char_of (48 + n)] else dec (n div 10) @ [char_of (48 + n mod 10)])"

declare dec.simps [simp del]

definition hex :: "nat \<Rightarrow> char" where
  "hex n = char_of (if n < 10 then 48 + n else 55 + n)"

definition snprintf :: "nat \<Rightarrow> string \<Rightarrow> string" where
  "snprintf sz text = take (sz - 1) text"

definition ip_byte :: "u32 \<Rightarrow> nat \<Rightarrow> nat" where
  "ip_byte ip i = unat (ucast (drop_bit (8 * i) ip) :: u8)"

definition ip_to_string :: "u32 \<Rightarrow> string" where
  "ip_to_string ip = snprintf STRLEN_IP (dec (ip_byte ip 0) @ ''.'' @ dec (ip_byte ip 1) @ ''.'' @ dec (ip_byte ip 2) @ ''.'' @ dec (ip_byte ip 3))"

definition hex_octet :: "u8 \<Rightarrow> string" where
  "hex_octet b = [hex (unat (drop_bit 4 b)), hex (unat (0x0f AND b))]"

definition mac_to_string :: "addr_mac_t \<Rightarrow> string" where
  "mac_to_string mac =
     snprintf STRLEN_MAC (hex_octet (mac ! 0) @ '':'' @ hex_octet (mac ! 1) @ '':'' @ hex_octet (mac ! 2) @ '':'' @
       hex_octet (mac ! 3) @ '':'' @ hex_octet (mac ! 4) @ '':'' @ hex_octet (mac ! 5))"

definition subnet_to_string :: "u32 \<Rightarrow> u32 \<Rightarrow> string" where
  "subnet_to_string subnet msk =
     (let num_ones = unat (ones msk); b = ip_byte subnet
      in if num_ones = 0 \<and> subnet = 0 then snprintf STRLEN_SUBNET ''<catch-all>''
         else if num_ones \<le> 8 then snprintf STRLEN_SUBNET (dec (b 0) @ ''/'' @ dec num_ones)
         else if num_ones \<le> 16 then snprintf STRLEN_SUBNET (dec (b 0) @ ''.'' @ dec (b 1) @ ''/'' @ dec num_ones)
         else if num_ones \<le> 24 then snprintf STRLEN_SUBNET (dec (b 0) @ ''.'' @ dec (b 1) @ ''.'' @ dec (b 2) @ ''/'' @ dec num_ones)
         else snprintf STRLEN_SUBNET (dec (b 0) @ ''.'' @ dec (b 1) @ ''.'' @ dec (b 2) @ ''.'' @ dec (b 3) @ ''/'' @ dec num_ones))"

text \<open>\<open>my_snprintf\<close> with the text that the format gives: the number of bytes written, or 0 if the text does not fit.\<close>

definition my_snprintf :: "nat \<Rightarrow> string \<Rightarrow> nat \<times> string" where
  "my_snprintf sz text = (if length text \<ge> sz then 0 else length text, snprintf sz text)"


subsection \<open>The text of addresses\<close>

definition val :: "string \<Rightarrow> nat" where
  "val s = foldl (\<lambda>n c. 10 * n + (of_char c - 48)) 0 s"

lemma val_dec: "val (dec n) = n"
proof (induction n rule: dec.induct)
  case (1 n)
  show ?case
  proof (cases "n < 10")
    case True
    then show ?thesis by (simp add: dec.simps [of n] val_def)
  next
    case False
    then have "val (dec n) = 10 * val (dec (n div 10)) + n mod 10" by (simp add: dec.simps [of n] val_def)
    with 1 False show ?thesis by simp
  qed
qed

lemma dec_inject [simp]: "dec m = dec n \<longleftrightarrow> m = n"
  using val_dec by metis

lemma dec_digits: "c \<in> set (dec n) \<Longrightarrow> 48 \<le> (of_char c :: nat) \<and> (of_char c :: nat) \<le> 57"
proof (induction n rule: dec.induct)
  case (1 n)
  have "n mod 10 \<le> 9" by simp
  then have "48 + n mod 10 < 256" "48 + n mod 10 \<le> 57" by linarith+
  with 1 show ?case by (cases "n < 10") (auto simp: dec.simps [of n])
qed

lemma dec_no_sep [simp]: "CHR ''.'' \<notin> set (dec n)" "CHR ''/'' \<notin> set (dec n)"
  using dec_digits [of "CHR ''.''" n] dec_digits [of "CHR ''/''" n] by auto

lemma dec_length: "n < 10 ^ k \<Longrightarrow> 0 < k \<Longrightarrow> length (dec n) \<le> k"
proof (induction n arbitrary: k rule: dec.induct)
  case (1 n)
  show ?case
  proof (cases "n < 10")
    case False
    with 1(2) have "k \<noteq> 1" by auto
    with 1(3) obtain j where k: "k = Suc j" "0 < j" by (cases k) auto
    then have "n div 10 < 10 ^ j" using 1(2) by simp
    with 1(1) False k show ?thesis by (simp add: dec.simps [of n])
  qed (use 1(3) in \<open>simp add: dec.simps [of n]\<close>)
qed

lemma ip_byte_less: "ip_byte ip i < 256"
  by (simp add: ip_byte_def unat_u8_less)

lemma length_dec_byte: "length (dec (ip_byte ip i)) \<le> 3"
  using ip_byte_less [of ip i] by (intro dec_length) simp_all

lemma split_sep:
  assumes "c \<notin> set x" "c \<notin> set x'"
  shows "x @ c # y = x' @ c # y' \<longleftrightarrow> x = x' \<and> y = y'"
  using assms
proof (induction x arbitrary: x')
  case Nil
  then show ?case by (cases x') auto
next
  case (Cons a x)
  then show ?case by (cases x') auto
qed

lemma ip_bytes_determine:
  assumes "\<And>i. i < 4 \<Longrightarrow> ip_byte a i = ip_byte b i"
  shows "a = b"
proof (rule bit_word_eqI)
  fix n
  assume "n < LENGTH(32)"
  then have i: "n div 8 < 4" "n mod 8 < 8" "8 * (n div 8) + n mod 8 = n" by auto
  have "(ucast (drop_bit (8 * (n div 8)) a) :: u8) = ucast (drop_bit (8 * (n div 8)) b)"
    using assms [OF i(1)] by (simp add: ip_byte_def word_unat_eq_iff)
  then have "bit (ucast (drop_bit (8 * (n div 8)) a) :: u8) (n mod 8) = bit (ucast (drop_bit (8 * (n div 8)) b) :: u8) (n mod 8)" by simp
  then show "bit a n = bit b n" using i(2,3) by (simp add: bit_ucast_iff bit_drop_bit_eq)
qed

text \<open>
  the buffers for the text of addresses are long enough: no text is cut off. Different IP addresses have different texts.
\<close>

theorem ip_to_string_faithful:
  "ip_to_string ip = dec (ip_byte ip 0) @ ''.'' @ dec (ip_byte ip 1) @ ''.'' @ dec (ip_byte ip 2) @ ''.'' @ dec (ip_byte ip 3) \<and>
   (ip_to_string ip = ip_to_string ip' \<longleftrightarrow> ip = ip')"
proof -
  have full: "ip_to_string ip = dec (ip_byte ip 0) @ CHR ''.'' # dec (ip_byte ip 1) @ CHR ''.'' # dec (ip_byte ip 2) @ CHR ''.'' # dec (ip_byte ip 3)" for ip
    using length_dec_byte [of ip 0] length_dec_byte [of ip 1] length_dec_byte [of ip 2] length_dec_byte [of ip 3]
    by (simp add: ip_to_string_def snprintf_def)
  have "ip = ip'" if "ip_to_string ip = ip_to_string ip'"
  proof (rule ip_bytes_determine)
    fix i :: nat
    assume "i < 4"
    moreover have "ip_byte ip 0 = ip_byte ip' 0 \<and> ip_byte ip 1 = ip_byte ip' 1 \<and> ip_byte ip 2 = ip_byte ip' 2 \<and> ip_byte ip 3 = ip_byte ip' 3"
      using that unfolding full by (simp add: split_sep)
    ultimately show "ip_byte ip i = ip_byte ip' i" by (auto simp: less_Suc_eq numeral_eq_Suc)
  qed
  then show ?thesis using full [of ip] by auto
qed

lemma mac_to_string_fits: "length (mac_to_string mac) = 17"
  by (simp add: mac_to_string_def snprintf_def hex_octet_def)

lemma ones_le: "unat (ones x) \<le> 32"
proof -
  have "{i. bit x i} \<subseteq> {..<32}" using bit_imp_le_length [of x] by auto
  from card_mono [OF _ this] show ?thesis by (simp add: ones_card)
qed

lemma subnet_to_string_fits:
  "snprintf STRLEN_SUBNET (dec (ip_byte s 0) @ ''.'' @ dec (ip_byte s 1) @ ''.'' @ dec (ip_byte s 2) @ ''.'' @ dec (ip_byte s 3) @ ''/'' @ dec (unat (ones m))) =
   dec (ip_byte s 0) @ ''.'' @ dec (ip_byte s 1) @ ''.'' @ dec (ip_byte s 2) @ ''.'' @ dec (ip_byte s 3) @ ''/'' @ dec (unat (ones m))"
proof -
  have "length (dec (unat (ones m))) \<le> 2" using ones_le [of m] by (intro dec_length) simp_all
  then show ?thesis
    using length_dec_byte [of s 0] length_dec_byte [of s 1] length_dec_byte [of s 2] length_dec_byte [of s 3] by (simp add: snprintf_def)
qed

end
