(* ===== verification/Cli_Ping.thy ===== *)
theory Cli_Ping
  imports Sr_Common "HOL-Library.Monad_Syntax" "HOL-Library.Multiset"
begin

text \<open>
  The pings of the command line interface that wait for a reply (\<^verbatim>\<open>cli/cli_ping.c\<close>): a doubly linked list in the order of the times
  at which they expire. Every operation runs under the lock of the list. The address that \<^verbatim>\<open>malloc\<close> gives, what its memory holds and the
  time of day are arguments; reading or writing a node that is not allocated is the result \<open>None\<close>. What a client is told is recorded as an
  event; the text of the message, with the time passed (\<^verbatim>\<open>time_passed\<close>), is left out.
\<close>

record ping_t =
  pg_fd :: int
  pg_dst_ip :: u32
  pg_seq :: u16
  pg_send_time :: timeval
  pg_expire_time :: timeval
  pg_prev :: "u32 option"
  pg_next :: "u32 option"

record ping_state =
  ping_heap :: "u32 \<rightharpoonup> ping_t"
  ping_list :: "u32 option"
  ping_count :: u16
  ping_out :: "((int \<times> u32 \<times> u16) \<times> bool) list"

abbreviation PING_MAX_WAIT_FOR_REPLY_USEC :: u32 where "PING_MAX_WAIT_FOR_REPLY_USEC \<equiv> 1000000"
abbreviation PING_HANDLER_MIN_RESPONSE_TIME_USEC :: int where "PING_HANDLER_MIN_RESPONSE_TIME_USEC \<equiv> 100000"

definition upd_ping :: "u32 \<Rightarrow> (ping_t \<Rightarrow> ping_t) \<Rightarrow> ping_state \<Rightarrow> ping_state option" where
  "upd_ping a f s = do {
     n \<leftarrow> ping_heap s a;
     Some (s\<lparr>ping_heap := (ping_heap s)(a \<mapsto> f n)\<rparr>)
   }"

definition cli_ping_init :: "ping_state \<Rightarrow> ping_state" where
  "cli_ping_init s = s\<lparr>ping_list := None\<rparr>"

subsection \<open>Requests\<close>

text \<open>Inserting \<open>a\<close> before \<open>p\<close>.\<close>

definition insert_before :: "u32 \<Rightarrow> u32 \<Rightarrow> ping_state \<Rightarrow> ping_state option" where
  "insert_before a p s = do {
     n \<leftarrow> ping_heap s p;
     s \<leftarrow> (if ping_list s = Some p then Some (s\<lparr>ping_list := Some a\<rparr>)
           else do {
             q \<leftarrow> pg_prev n;
             upd_ping q (\<lambda>m. m\<lparr>pg_next := Some a\<rparr>) s
           });
     s \<leftarrow> upd_ping a (\<lambda>m. m\<lparr>pg_prev := pg_prev n, pg_next := Some p\<rparr>) s;
     upd_ping p (\<lambda>m. m\<lparr>pg_prev := Some a\<rparr>) s
   }"

partial_function (option) insert_loop :: "u32 \<Rightarrow> u32 \<Rightarrow> ping_state \<Rightarrow> ping_state option" where
  "insert_loop a p s = do {
     n \<leftarrow> ping_heap s p;
     new \<leftarrow> ping_heap s a;
     if is_later (pg_expire_time n) (pg_expire_time new) then insert_before a p s
     else
       case pg_next n of
         Some q \<Rightarrow> insert_loop a q s
       | None \<Rightarrow> do {
           s \<leftarrow> upd_ping p (\<lambda>m. m\<lparr>pg_next := Some a\<rparr>) s;
           upd_ping a (\<lambda>m. m\<lparr>pg_prev := Some p, pg_next := None\<rparr>) s
         }
   }"

definition insert_ping :: "u32 \<Rightarrow> ping_state \<Rightarrow> ping_state option" where
  "insert_ping a s = do {
     s \<leftarrow> (case ping_list s of None \<Rightarrow> Some s | Some p \<Rightarrow> insert_loop a p s);
     if ping_list s = None then upd_ping a (\<lambda>m. m\<lparr>pg_next := None, pg_prev := None\<rparr>) (s\<lparr>ping_list := Some a\<rparr>)
     else Some s
   }"

definition cli_ping_request :: "u32 \<Rightarrow> ping_t \<Rightarrow> timeval \<Rightarrow> timeval \<Rightarrow> int \<Rightarrow> u32 \<Rightarrow> ping_state \<Rightarrow> ping_state option" where
  "cli_ping_request a junk now1 now2 fd ip s =
     (let new = junk\<lparr>pg_fd := fd, pg_dst_ip := ip, pg_seq := htons (ping_count s), pg_send_time := now1,
                     pg_expire_time := time_add_usec now2 PING_MAX_WAIT_FOR_REPLY_USEC\<rparr>
      in insert_ping a (s\<lparr>ping_heap := (ping_heap s)(a \<mapsto> new), ping_count := ping_count s + 1\<rparr>))"

subsection \<open>Replies and time-outs\<close>

definition cli_ping_feedback :: "u32 \<Rightarrow> bool \<Rightarrow> ping_state \<Rightarrow> ping_state option" where
  "cli_ping_feedback p worked s = do {
     n \<leftarrow> ping_heap s p;
     Some (s\<lparr>ping_out := ping_out s @ [((pg_fd n, pg_dst_ip n, ntohs (pg_seq n)), worked)]\<rparr>)
   }"

definition free_ping :: "u32 \<Rightarrow> ping_state \<Rightarrow> ping_state option" where
  "free_ping p s = (if ping_heap s p = None then None else Some (s\<lparr>ping_heap := (ping_heap s)(p := None)\<rparr>))"

definition remove_ping :: "u32 \<Rightarrow> ping_state \<Rightarrow> ping_state option" where
  "remove_ping p s = do {
     n \<leftarrow> ping_heap s p;
     s \<leftarrow> (if ping_list s = Some p then Some (s\<lparr>ping_list := pg_next n\<rparr>)
           else do {
             q \<leftarrow> pg_prev n;
             upd_ping q (\<lambda>m. m\<lparr>pg_next := pg_next n\<rparr>) s
           });
     case pg_next n of
       None \<Rightarrow> Some s
     | Some q \<Rightarrow> upd_ping q (\<lambda>m. m\<lparr>pg_prev := pg_prev n\<rparr>) s
   }"

partial_function (option) reply_loop :: "u32 \<Rightarrow> u16 \<Rightarrow> u32 option \<Rightarrow> ping_state \<Rightarrow> ping_state option" where
  "reply_loop ip sq ptr s =
     (case ptr of
        None \<Rightarrow> Some s
      | Some p \<Rightarrow> do {
          n \<leftarrow> ping_heap s p;
          if pg_dst_ip n = ip \<and> pg_seq n = sq then do {
            s \<leftarrow> remove_ping p s;
            s \<leftarrow> cli_ping_feedback p True s;
            free_ping p s
          }
          else reply_loop ip sq (pg_next n) s
        })"

definition cli_ping_handle_reply :: "bool \<Rightarrow> u32 \<Rightarrow> u16 \<Rightarrow> ping_state \<Rightarrow> ping_state option" where
  "cli_ping_handle_reply shutdown ip sq s = (if shutdown then Some s else reply_loop ip sq (ping_list s) s)"

text \<open>The scrubber: one pass over the list at the time \<open>now\<close>, and the time-out that it then computes for \<^verbatim>\<open>select\<close>.\<close>

partial_function (option) expire_loop :: "timeval \<Rightarrow> ping_state \<Rightarrow> ping_state option" where
  "expire_loop now s =
     (case ping_list s of
        None \<Rightarrow> None
      | Some p \<Rightarrow> do {
          n \<leftarrow> ping_heap s p;
          if is_later now (pg_expire_time n) then do {
            s \<leftarrow> cli_ping_feedback p False s;
            n \<leftarrow> ping_heap s p;
            s \<leftarrow> free_ping p (s\<lparr>ping_list := pg_next n\<rparr>);
            if ping_list s = None then Some s else expire_loop now s
          }
          else Some s
        })"

definition scrub_timeout :: "timeval \<Rightarrow> ping_t \<Rightarrow> int \<times> int" where
  "scrub_timeout now n =
     (let sec = sint (tv_sec now - tv_sec (pg_expire_time n)); usec = sint (tv_usec now - tv_usec (pg_expire_time n))
      in if sec > 0 \<or> usec > PING_HANDLER_MIN_RESPONSE_TIME_USEC then (0, PING_HANDLER_MIN_RESPONSE_TIME_USEC) else (sec, usec))"

text \<open>The result says how long the thread then waits, if a ping is left.\<close>

definition scrub_pass :: "timeval \<Rightarrow> ping_state \<Rightarrow> ((int \<times> int) option \<times> ping_state) option" where
  "scrub_pass now s =
     (if ping_list s = None then Some (None, s)
      else do {
        s \<leftarrow> expire_loop now s;
        case ping_list s of
          None \<Rightarrow> Some (None, s)
        | Some p \<Rightarrow> do {
            n \<leftarrow> ping_heap s p;
            Some (Some (scrub_timeout now n), s)
          }
      })"

partial_function (option) destroy_loop :: "ping_state \<Rightarrow> ping_state option" where
  "destroy_loop s =
     (case ping_list s of
        None \<Rightarrow> Some s
      | Some p \<Rightarrow> do {
          n \<leftarrow> ping_heap s p;
          s \<leftarrow> free_ping p (s\<lparr>ping_list := pg_next n\<rparr>);
          destroy_loop s
        })"

definition cli_ping_destroy :: "ping_state \<Rightarrow> ping_state option" where
  "cli_ping_destroy s = destroy_loop s"


subsection \<open>The list\<close>

text \<open>
  What a node says apart from its links. \<open>seg h pr p xs r\<close>: from the pointer \<open>p\<close> the nodes \<open>xs\<close> follow one another up to the pointer \<open>r\<close>;
  the back links are right, but that of the first node only if \<open>pr\<close>, the node before it, is given: the first node of the whole list may
  point back to a node that has been freed.
\<close>

type_synonym ping_info = "int \<times> u32 \<times> u16 \<times> timeval \<times> timeval"

definition info :: "ping_t \<Rightarrow> ping_info" where
  "info n = (pg_fd n, pg_dst_ip n, pg_seq n, pg_send_time n, pg_expire_time n)"

lemma info_links [simp]: "info (n\<lparr>pg_prev := x\<rparr>) = info n" "info (n\<lparr>pg_next := x\<rparr>) = info n"
  by (simp_all add: info_def)

abbreviation expiry :: "ping_info \<Rightarrow> timeval" where
  "expiry i \<equiv> snd (snd (snd (snd i)))"

fun seg :: "(u32 \<rightharpoonup> ping_t) \<Rightarrow> u32 option \<Rightarrow> u32 option \<Rightarrow> (u32 \<times> ping_info) list \<Rightarrow> u32 option \<Rightarrow> bool" where
  "seg h pr p [] r \<longleftrightarrow> p = r"
| "seg h pr p ((a, i) # xs) r \<longleftrightarrow>
     p = Some a \<and> (case h a of None \<Rightarrow> False | Some n \<Rightarrow> info n = i \<and> (pr = None \<or> pg_prev n = pr) \<and> seg h (Some a) (pg_next n) xs r)"

lemma seg_upd [simp]: "b \<notin> fst ` set xs \<Longrightarrow> seg (h(b := v)) pr p xs r = seg h pr p xs r"
  by (induction h pr p xs r rule: seg.induct) (auto split: option.splits)

lemma seg_append:
  "seg h pr p (xs @ ys) r \<longleftrightarrow> (\<exists>q. seg h pr p xs q \<and> seg h (if xs = [] then pr else Some (fst (last xs))) q ys r)"
proof (induction xs arbitrary: pr p)
  case (Cons x xs)
  then show ?case by (cases x) (auto split: option.splits)
qed simp

lemma seg_head: "seg h pr p xs r \<Longrightarrow> seg h None p xs r"
  by (cases xs) (auto split: option.splits)

lemma seg_alloc: "seg h pr p xs r \<Longrightarrow> a \<in> fst ` set xs \<Longrightarrow> h a \<noteq> None"
  by (induction h pr p xs r rule: seg.induct) (auto split: option.splits)

definition ping_rep :: "ping_state \<Rightarrow> (u32 \<times> ping_info) list \<Rightarrow> bool" where
  "ping_rep s xs \<longleftrightarrow> seg (ping_heap s) None (ping_list s) xs None \<and> distinct (map fst xs) \<and> dom (ping_heap s) = fst ` set xs"

text \<open>The two ways in which a node is put into the list.\<close>

lemma insert_before_rep:
  assumes seg: "seg (ping_heap s) None (ping_list s) (us @ (p, i) # vs) None" and dist: "distinct (map fst (us @ (p, i) # vs))"
    and a: "ping_heap s a = Some new" "a \<notin> fst ` set (us @ (p, i) # vs)"
  obtains h' l' where "insert_before a p s = Some (s\<lparr>ping_heap := h', ping_list := l'\<rparr>)" "l' \<noteq> None"
    "seg h' None l' (us @ (a, info new) # (p, i) # vs) None" "dom h' = dom (ping_heap s)"
proof (cases us rule: rev_cases)
  case Nil
  let ?h = "ping_heap s"
  obtain n where n: "?h p = Some n" "info n = i" "seg ?h (Some p) (pg_next n) vs None" "ping_list s = Some p"
    using seg Nil by (auto split: option.splits)
  have d: "p \<notin> fst ` set vs" "p \<noteq> a" "a \<notin> fst ` set vs" using dist a Nil by auto
  let ?h' = "?h(a \<mapsto> new\<lparr>pg_prev := pg_prev n, pg_next := Some p\<rparr>, p \<mapsto> n\<lparr>pg_prev := Some a\<rparr>)"
  have "insert_before a p s = Some (s\<lparr>ping_heap := ?h', ping_list := Some a\<rparr>)"
    using n a d by (simp add: insert_before_def upd_ping_def)
  moreover have "seg ?h' None (Some a) ((a, info new) # (p, i) # vs) None" using n d by simp
  moreover have "dom ?h' = dom ?h" using a n by auto
  ultimately show thesis using that Nil by simp
next
  case (snoc us' u)
  let ?h = "ping_heap s"
  obtain q j where u: "u = (q, j)" by (cases u)
  obtain m where l: "seg ?h None (ping_list s) us' (Some q)" and m: "?h q = Some m" "info m = j" "us' = [] \<or> pg_prev m = Some (fst (last us'))" "pg_next m = Some p"
    and n: "seg ?h (Some q) (Some p) ((p, i) # vs) None"
    using seg snoc u by (auto simp: seg_append split: option.splits if_splits)
  obtain n where n: "?h p = Some n" "info n = i" "pg_prev n = Some q" "seg ?h (Some p) (pg_next n) vs None"
    using n by (auto split: option.splits)
  have d: "p \<notin> fst ` set vs" "q \<notin> fst ` set vs" "q \<noteq> p" "p \<noteq> a" "q \<noteq> a" "a \<notin> fst ` set vs" "q \<notin> fst ` set us'" "p \<notin> fst ` set us'" "a \<notin> fst ` set us'"
    using dist a snoc u by auto
  have "ping_list s \<noteq> Some p" using l d by (cases us') auto
  let ?h' = "?h(q \<mapsto> m\<lparr>pg_next := Some a\<rparr>, a \<mapsto> new\<lparr>pg_prev := Some q, pg_next := Some p\<rparr>, p \<mapsto> n\<lparr>pg_prev := Some a\<rparr>)"
  have "insert_before a p s = Some (s\<lparr>ping_heap := ?h', ping_list := ping_list s\<rparr>)"
    using m n a d \<open>ping_list s \<noteq> Some p\<close> by (simp add: insert_before_def upd_ping_def)
  moreover have "seg ?h' None (ping_list s) (us @ (a, info new) # (p, i) # vs) None"
    using l m n d snoc u by (auto simp: seg_append)
  moreover have "dom ?h' = dom ?h" using a n m by auto
  moreover have "ping_list s \<noteq> None" using l by (cases us') auto
  ultimately show thesis using that by blast
qed


lemma append_last_rep:
  assumes seg: "seg (ping_heap s) None (ping_list s) (us @ [(p, i)]) None" and dist: "distinct (map fst (us @ [(p, i)]))"
    and a: "ping_heap s a = Some new" "a \<notin> fst ` set (us @ [(p, i)])" and n: "ping_heap s p = Some n"
  shows "seg ((ping_heap s)(p \<mapsto> n\<lparr>pg_next := Some a\<rparr>, a \<mapsto> new\<lparr>pg_prev := Some p, pg_next := None\<rparr>)) None (ping_list s) (us @ [(p, i), (a, info new)]) None"
  using assms by (auto simp: seg_append split: option.splits)

text \<open>The reference: where a ping goes that expires at the given time.\<close>

definition ins_ping :: "u32 \<times> ping_info \<Rightarrow> (u32 \<times> ping_info) list \<Rightarrow> (u32 \<times> ping_info) list" where
  "ins_ping x xs =
     takeWhile (\<lambda>y. \<not> is_later (expiry (snd y)) (expiry (snd x))) xs @ x # dropWhile (\<lambda>y. \<not> is_later (expiry (snd y)) (expiry (snd x))) xs"

lemma insert_loop_rep:
  assumes a: "ping_heap s a = Some new"
  shows "seg (ping_heap s) None (ping_list s) (us @ (p, i) # vs) None \<Longrightarrow> distinct (map fst (us @ (p, i) # vs)) \<Longrightarrow> a \<notin> fst ` set (us @ (p, i) # vs) \<Longrightarrow>
    \<exists>h' l'. insert_loop a p s = Some (s\<lparr>ping_heap := h', ping_list := l'\<rparr>) \<and> l' \<noteq> None \<and> seg h' None l' (us @ ins_ping (a, info new) ((p, i) # vs)) None \<and>
      dom h' = dom (ping_heap s)"
proof (induction vs arbitrary: us p i)
  case (Nil us p i)
  obtain n where n: "ping_heap s p = Some n" "info n = i" "pg_next n = None" using Nil(1) by (auto simp: seg_append split: option.splits)
  have e: "is_later (pg_expire_time n) (pg_expire_time new) \<longleftrightarrow> is_later (expiry i) (expiry (info new))" using n(2) by (auto simp: info_def)
  show ?case
  proof (cases "is_later (expiry i) (expiry (info new))")
    case True
    obtain h' l' where "insert_before a p s = Some (s\<lparr>ping_heap := h', ping_list := l'\<rparr>)" "l' \<noteq> None"
      "seg h' None l' (us @ (a, info new) # [(p, i)]) None" "dom h' = dom (ping_heap s)"
      by (rule insert_before_rep [OF Nil(1,2) a Nil(3)])
    with True n a e show ?thesis by (subst insert_loop.simps) (auto simp: ins_ping_def)
  next
    case False
    have "p \<noteq> a" "ping_list s \<noteq> None" using Nil by (cases us; auto)+
    with False n a e append_last_rep [OF Nil(1,2) a Nil(3) n(1)] show ?thesis
      by (subst insert_loop.simps) (auto simp: upd_ping_def ins_ping_def intro!: exI [of _ "(ping_heap s)(p \<mapsto> n\<lparr>pg_next := Some a\<rparr>, a \<mapsto> new\<lparr>pg_prev := Some p, pg_next := None\<rparr>)"] exI [of _ "ping_list s"] split: if_splits)
  qed
next
  case (Cons v vs us p i)
  obtain q j where v: "v = (q, j)" by (cases v)
  obtain n where n: "ping_heap s p = Some n" "info n = i" "pg_next n = Some q" using Cons(2) v by (auto simp: seg_append split: option.splits)
  have e: "is_later (pg_expire_time n) (pg_expire_time new) \<longleftrightarrow> is_later (expiry i) (expiry (info new))" using n(2) by (auto simp: info_def)
  show ?case
  proof (cases "is_later (expiry i) (expiry (info new))")
    case True
    obtain h' l' where "insert_before a p s = Some (s\<lparr>ping_heap := h', ping_list := l'\<rparr>)" "l' \<noteq> None"
      "seg h' None l' (us @ (a, info new) # (p, i) # v # vs) None" "dom h' = dom (ping_heap s)"
      by (rule insert_before_rep [OF Cons(2,3) a Cons(4)])
    with True n a e show ?thesis by (subst insert_loop.simps) (auto simp: ins_ping_def)
  next
    case False
    then have "us @ ins_ping (a, info new) ((p, i) # v # vs) = (us @ [(p, i)]) @ ins_ping (a, info new) (v # vs)" by (simp add: ins_ping_def)
    moreover have "insert_loop a p s = insert_loop a q s" using n a e False by (subst insert_loop.simps) simp
    ultimately show ?thesis using Cons.IH [of "us @ [(p, i)]" q j] Cons(2-4) v by simp
  qed
qed

lemma insert_ping_rep:
  assumes "seg (ping_heap s) None (ping_list s) xs None" "distinct (map fst xs)" "ping_heap s a = Some new" "a \<notin> fst ` set xs"
  shows "\<exists>h' l'. insert_ping a s = Some (s\<lparr>ping_heap := h', ping_list := l'\<rparr>) \<and> seg h' None l' (ins_ping (a, info new) xs) None \<and> dom h' = dom (ping_heap s)"
proof (cases xs)
  case Nil
  with assms show ?thesis by (auto simp: insert_ping_def upd_ping_def ins_ping_def
    intro!: exI [of _ "(ping_heap s)(a \<mapsto> new\<lparr>pg_next := None, pg_prev := None\<rparr>)"] exI [of _ "Some a"] split: if_splits)
next
  case (Cons x vs)
  obtain p i where x: "x = (p, i)" by (cases x)
  have "ping_list s = Some p" using assms(1) Cons x by simp
  with insert_loop_rep [OF assms(3), of "[]" p i vs] assms Cons x show ?thesis by (auto simp: insert_ping_def)
qed


subsection \<open>Taking a ping off the list\<close>

lemma remove_ping_rep:
  assumes seg: "seg (ping_heap s) None (ping_list s) (us @ (p, i) # vs) None" and dist: "distinct (map fst (us @ (p, i) # vs))"
  obtains h' l' where "remove_ping p s = Some (s\<lparr>ping_heap := h', ping_list := l'\<rparr>)" "seg (h'(p := None)) None l' (us @ vs) None"
    "dom h' = dom (ping_heap s)" "map_option info (h' p) = Some i"
proof -
  let ?h = "ping_heap s"
  obtain n where n: "?h p = Some n" "info n = i" "us = [] \<or> pg_prev n = Some (fst (last us))" "seg ?h (Some p) (pg_next n) vs None"
    and us: "seg ?h None (ping_list s) us (Some p)"
    using seg by (auto simp: seg_append split: option.splits if_splits)
  have d: "p \<notin> fst ` set vs" "p \<notin> fst ` set us" "fst ` set us \<inter> fst ` set vs = {}" using dist by auto
  \<comment> \<open>the first write: the predecessor, or the head of the list, takes over the next pointer\<close>
  obtain h1 l1 where 1: "(if ping_list s = Some p then Some (s\<lparr>ping_list := pg_next n\<rparr>)
       else do { q \<leftarrow> pg_prev n; upd_ping q (\<lambda>m. m\<lparr>pg_next := pg_next n\<rparr>) s }) = Some (s\<lparr>ping_heap := h1, ping_list := l1\<rparr>)"
    "seg h1 None l1 us (pg_next n)" "seg h1 (Some p) (pg_next n) vs None" "h1 p = Some n" "dom h1 = dom ?h"
  proof (cases us rule: rev_cases)
    case Nil
    with us n show thesis by (intro that [of "pg_next n" ?h]) simp_all
  next
    case (snoc us' u)
    obtain q j where u: "u = (q, j)" by (cases u)
    obtain m where m: "?h q = Some m" "info m = j" "us' = [] \<or> pg_prev m = Some (fst (last us'))" "seg ?h None (ping_list s) us' (Some q)"
      using us snoc u by (auto simp: seg_append split: option.splits if_splits)
    have q: "q \<noteq> p" "q \<notin> fst ` set vs" "q \<notin> fst ` set us'" using d dist snoc u by auto
    have "ping_list s \<noteq> Some p" using m(4) q(1) d snoc by (cases us') auto
    let ?h1 = "?h(q \<mapsto> m\<lparr>pg_next := pg_next n\<rparr>)"
    show thesis
    proof (rule that [of "ping_list s" ?h1])
      show "seg ?h1 None (ping_list s) us (pg_next n)" using m q snoc u by (auto simp: seg_append)
      show "dom ?h1 = dom ?h" using m by auto
    qed (use n m q snoc u \<open>ping_list s \<noteq> Some p\<close> in \<open>simp_all add: upd_ping_def\<close>)
  qed
  show thesis
  proof (cases vs)
    case Nil
    then have "remove_ping p s = Some (s\<lparr>ping_heap := h1, ping_list := l1\<rparr>)" using 1(1,3) n by (simp add: remove_ping_def)
    then show thesis using that [of l1 h1] 1 n Nil d by simp
  next
    case (Cons v vs')
    obtain q j where v: "v = (q, j)" by (cases v)
    obtain m where m: "h1 q = Some m" "info m = j" "pg_next n = Some q" "seg h1 (Some q) (pg_next m) vs' None" using 1(3) Cons v by (auto split: option.splits)
    have q: "q \<noteq> p" "q \<notin> fst ` set us" "q \<notin> fst ` set vs'" using dist Cons v by auto
    let ?h2 = "h1(q \<mapsto> m\<lparr>pg_prev := pg_prev n\<rparr>)"
    have "remove_ping p s = Some (s\<lparr>ping_heap := ?h2, ping_list := l1\<rparr>)" using 1(1) n m by (simp add: remove_ping_def upd_ping_def)
    moreover have "seg (?h2(p := None)) None l1 (us @ vs) None"
      using 1(2) m q d n(3) Cons v by (auto simp: seg_append)
    moreover have "dom ?h2 = dom ?h" using 1(5) m by auto
    ultimately show thesis using that [of l1 ?h2] 1(4) n(2) q by simp
  qed
qed


definition key :: "u32 \<times> ping_info \<Rightarrow> int \<times> u32 \<times> u16" where
  "key x = (case snd x of (fd, ip, sq, _) \<Rightarrow> (fd, ip, ntohs sq))"

abbreviation matches :: "u32 \<Rightarrow> u16 \<Rightarrow> u32 \<times> ping_info \<Rightarrow> bool" where
  "matches ip sq x \<equiv> fst (snd (snd x)) = ip \<and> fst (snd (snd (snd x))) = sq"

text \<open>A reply takes one matching ping off the list \<open>vs\<close>, which follows \<open>us\<close>, and its client is told.\<close>

definition answered_one :: "u32 \<Rightarrow> u16 \<Rightarrow> (u32 \<times> ping_info) list \<Rightarrow> (u32 \<times> ping_info) list \<Rightarrow> ping_state \<Rightarrow> ping_state \<Rightarrow> bool" where
  "answered_one ip sq us vs s s' \<longleftrightarrow>
     (\<exists>ws x zs. vs = ws @ x # zs \<and> matches ip sq x \<and> ping_rep s' (us @ ws @ zs) \<and> ping_out s' = ping_out s @ [(key x, True)])"

lemma answered_oneI: "matches ip sq x \<Longrightarrow> ping_rep s' (us @ ws @ zs) \<Longrightarrow> ping_out s' = ping_out s @ [(key x, True)] \<Longrightarrow> answered_one ip sq us (ws @ x # zs) s s'"
  unfolding answered_one_def by blast

lemma answered_one_later: "answered_one ip sq (us @ [v]) vs s s' \<Longrightarrow> answered_one ip sq us (v # vs) s s'"
  unfolding answered_one_def by (metis append.assoc append_Cons append_Nil)

lemma reply_loop_rep:
  "ping_rep s (us @ vs) \<Longrightarrow> seg (ping_heap s) (if us = [] then None else Some (fst (last us))) ptr vs None \<Longrightarrow>
   \<exists>s'. reply_loop ip sq ptr s = Some s' \<and> ping_count s' = ping_count s \<and>
     (if list_ex (matches ip sq) vs then answered_one ip sq us vs s s' else s' = s)"
proof (induction vs arbitrary: us ptr)
  case (Cons v vs)
  obtain p i where v: "v = (p, i)" by (cases v)
  obtain n where n: "ping_heap s p = Some n" "info n = i" "ptr = Some p" "seg (ping_heap s) (Some p) (pg_next n) vs None" using Cons.prems(2) v by (auto split: option.splits)
  have e: "pg_dst_ip n = ip \<and> pg_seq n = sq \<longleftrightarrow> matches ip sq v" using n(2) v by (auto simp: info_def)
  show ?case
  proof (cases "matches ip sq v")
    case True
    have r: "seg (ping_heap s) None (ping_list s) (us @ (p, i) # vs) None" "distinct (map fst (us @ (p, i) # vs))" "dom (ping_heap s) = fst ` set (us @ v # vs)"
      using Cons.prems(1) v by (simp_all add: ping_rep_def)
    obtain h' l' where h: "remove_ping p s = Some (s\<lparr>ping_heap := h', ping_list := l'\<rparr>)" "seg (h'(p := None)) None l' (us @ vs) None"
      "dom h' = dom (ping_heap s)" "map_option info (h' p) = Some i"
      by (rule remove_ping_rep [OF r(1,2)])
    then obtain n' where n': "h' p = Some n'" "info n' = i" by auto
    let ?s = "s\<lparr>ping_heap := h'(p := None), ping_list := l', ping_out := ping_out s @ [(key v, True)]\<rparr>"
    have "reply_loop ip sq ptr s = Some ?s"
      using n e True h n' v by (subst reply_loop.simps) (auto simp: cli_ping_feedback_def free_ping_def key_def info_def)
    moreover have "ping_rep ?s (us @ vs)" using h(2,3) r(2,3) v by (auto simp: ping_rep_def)
    then have "answered_one ip sq us (v # vs) s ?s" using answered_oneI [where x = v and ws = "[]" and s' = ?s] True by simp
    ultimately show ?thesis using True by (intro exI [of _ ?s]) simp
  next
    case False
    have "reply_loop ip sq ptr s = reply_loop ip sq (pg_next n) s" using n e False by (subst reply_loop.simps) auto
    moreover have "\<exists>s'. reply_loop ip sq (pg_next n) s = Some s' \<and> ping_count s' = ping_count s \<and>
      (if list_ex (matches ip sq) vs then answered_one ip sq (us @ [v]) vs s s' else s' = s)"
      by (rule Cons.IH) (use Cons.prems(1) n v in simp_all)
    ultimately show ?thesis using False answered_one_later [of ip sq us v vs s] by (cases "list_ex (matches ip sq) vs") auto
  qed
qed (simp add: reply_loop.simps)

lemma pop_rep:
  assumes "ping_rep s ((p, i) # xs)"
  obtains n where "ping_list s = Some p" "ping_heap s p = Some n" "info n = i"
    "ping_rep (s\<lparr>ping_list := pg_next n, ping_heap := (ping_heap s)(p := None)\<rparr>) xs"
  using assms by (auto simp: ping_rep_def split: option.splits intro!: seg_head)

lemma expire_loop_rep:
  "ping_rep s xs \<Longrightarrow> xs \<noteq> [] \<Longrightarrow>
   \<exists>s'. expire_loop now s = Some s' \<and> ping_count s' = ping_count s \<and> ping_rep s' (dropWhile (\<lambda>x. is_later now (expiry (snd x))) xs) \<and>
     ping_out s' = ping_out s @ map (\<lambda>x. (key x, False)) (takeWhile (\<lambda>x. is_later now (expiry (snd x))) xs)"
proof (induction xs arbitrary: s)
  case (Cons x xs)
  obtain p i where x: "x = (p, i)" by (cases x)
  obtain n where n: "ping_list s = Some p" "ping_heap s p = Some n" "info n = i"
    "ping_rep (s\<lparr>ping_list := pg_next n, ping_heap := (ping_heap s)(p := None)\<rparr>) xs"
    by (rule pop_rep [OF Cons.prems(1) [unfolded x]])
  have e: "is_later now (pg_expire_time n) \<longleftrightarrow> is_later now (expiry (snd x))" using n(3) x by (auto simp: info_def)
  show ?case
  proof (cases "is_later now (expiry (snd x))")
    case True
    let ?s = "s\<lparr>ping_out := ping_out s @ [(key x, False)], ping_list := pg_next n, ping_heap := (ping_heap s)(p := None)\<rparr>"
    have rep: "ping_rep ?s xs" using n(4) by (simp add: ping_rep_def)
    have "expire_loop now s = (if pg_next n = None then Some ?s else expire_loop now ?s)"
      using n True e x by (subst expire_loop.simps) (auto simp: cli_ping_feedback_def free_ping_def key_def info_def)
    moreover have "pg_next n = None \<longleftrightarrow> xs = []" using rep by (cases xs) (auto simp: ping_rep_def)
    ultimately show ?thesis using Cons.IH [OF rep] True rep by (cases "xs = []") auto
  next
    case False
    with n e Cons.prems(1) show ?thesis by (subst expire_loop.simps) simp
  qed
qed simp

lemma destroy_loop_rep: "ping_rep s xs \<Longrightarrow> \<exists>s'. destroy_loop s = Some s' \<and> ping_list s' = None \<and> ping_heap s' = Map.empty"
proof (induction xs arbitrary: s)
  case Nil
  then show ?case by (subst destroy_loop.simps) (simp add: ping_rep_def)
next
  case (Cons x xs)
  obtain p i where x: "x = (p, i)" by (cases x)
  obtain n where n: "ping_list s = Some p" "ping_heap s p = Some n" "info n = i"
    "ping_rep (s\<lparr>ping_list := pg_next n, ping_heap := (ping_heap s)(p := None)\<rparr>) xs"
    by (rule pop_rep [OF Cons.prems [unfolded x]])
  have "destroy_loop s = destroy_loop (s\<lparr>ping_list := pg_next n, ping_heap := (ping_heap s)(p := None)\<rparr>)"
    using n(1,2) by (subst destroy_loop.simps) (simp add: free_ping_def)
  with Cons.IH [OF n(4)] show ?case by simp
qed


subsection \<open>All runs\<close>

text \<open>A time of day, at least half an hour before the end of the 32 bit clock.\<close>

definition clock :: "timeval \<Rightarrow> bool" where
  "clock t \<longleftrightarrow> normal t \<and> unat (tv_sec t) + 2148 < 2 ^ 31"

text \<open>The states that requests, replies and passes of the scrubber reach in any order, with the requests made.\<close>

inductive ping_run :: "(int \<times> u32 \<times> u16) list \<Rightarrow> ping_state \<Rightarrow> bool" where
  start: "ping_heap s = Map.empty \<Longrightarrow> ping_out s = [] \<Longrightarrow> ping_run [] (cli_ping_init s)"
| request: "ping_run rq s \<Longrightarrow> ping_heap s a = None \<Longrightarrow> clock now2 \<Longrightarrow> cli_ping_request a junk now1 now2 fd ip s = Some s' \<Longrightarrow> ping_run (rq @ [(fd, ip, ping_count s)]) s'"
| reply: "ping_run rq s \<Longrightarrow> cli_ping_handle_reply False ip sq s = Some s' \<Longrightarrow> ping_run rq s'"
| scrub: "ping_run rq s \<Longrightarrow> clock now \<Longrightarrow> scrub_pass now s = Some (t, s') \<Longrightarrow> ping_run rq s'"

definition in_order :: "(u32 \<times> ping_info) list \<Rightarrow> bool" where
  "in_order xs \<longleftrightarrow> sorted (map (\<lambda>x. usecs (expiry (snd x))) xs) \<and> (\<forall>x \<in> set xs. normal (expiry (snd x)))"

lemma mset_ins_ping: "mset (ins_ping x xs) = mset (x # xs)"
proof -
  let ?P = "\<lambda>y. \<not> is_later (expiry (snd y)) (expiry (snd x))"
  have "mset (takeWhile ?P xs) + mset (dropWhile ?P xs) = mset xs" by (metis mset_append takeWhile_dropWhile_id)
  then show ?thesis unfolding ins_ping_def by simp
qed

lemma split_hd: "y \<in> set l \<Longrightarrow> \<exists>z zs. l = z # zs"
  by (cases l) auto

lemma sorted_put:
  "sorted (map f (us @ vs)) \<Longrightarrow> (\<And>y. y \<in> set us \<Longrightarrow> f y \<le> f x) \<Longrightarrow> (\<And>y. y \<in> set vs \<Longrightarrow> f x \<le> f y) \<Longrightarrow> sorted (map f (us @ x # vs))"
  by (auto simp: sorted_append)

lemma in_order_ins:
  assumes "in_order xs" "normal (expiry (snd x))"
  shows "in_order (ins_ping x xs)"
proof -
  let ?f = "\<lambda>x. usecs (expiry (snd x))" and ?P = "\<lambda>y. \<not> is_later (expiry (snd y)) (expiry (snd x))"
  have p: "?P y \<longleftrightarrow> ?f y \<le> ?f x" if "y \<in> set xs" for y using is_later_usecs assms that by (auto simp: in_order_def not_less)
  have xs: "sorted (map ?f (takeWhile ?P xs @ dropWhile ?P xs))" using assms(1) by (simp add: in_order_def)
  have before: "?f y \<le> ?f x" if "y \<in> set (takeWhile ?P xs)" for y using set_takeWhileD [OF that] p by blast
  have after: "?f x \<le> ?f y" if y: "y \<in> set (dropWhile ?P xs)" for y
  proof -
    obtain z zs where z: "dropWhile ?P xs = z # zs" using split_hd [OF y] by blast
    then have "\<not> ?P z" "z \<in> set xs" using hd_dropWhile [of ?P xs] set_dropWhileD [of z ?P xs] by auto
    then have "?f x < ?f z" using p by auto
    moreover have "?f z \<le> ?f y" using xs z y by (auto simp: sorted_append)
    ultimately show ?thesis by simp
  qed
  have "sorted (map ?f (ins_ping x xs))"
    unfolding ins_ping_def using xs before after by (intro sorted_put) blast+
  moreover have "normal (expiry (snd y))" if "y \<in> set (ins_ping x xs)" for y
    using that assms by (auto simp: ins_ping_def in_order_def dest: set_takeWhileD set_dropWhileD)
  ultimately show ?thesis by (simp add: in_order_def)
qed

lemma in_order_sub: "in_order (ws @ x # zs) \<Longrightarrow> in_order (ws @ zs)"
  by (auto simp: in_order_def sorted_append)

lemma in_order_suffix: "in_order (us @ vs) \<Longrightarrow> in_order vs"
  by (auto simp: in_order_def sorted_append)

lemma in_order_drop: "in_order xs \<Longrightarrow> in_order (dropWhile P xs)"
  using in_order_suffix [of "takeWhile P xs" "dropWhile P xs"] by simp

definition ping_inv :: "(int \<times> u32 \<times> u16) list \<Rightarrow> ping_state \<Rightarrow> bool" where
  "ping_inv rq s \<longleftrightarrow> (\<exists>xs. ping_rep s xs \<and> in_order xs \<and> mset rq = mset (map fst (ping_out s)) + mset (map key xs))"

lemma request_keeps:
  assumes "ping_rep s xs" "in_order xs" "ping_heap s a = None" "clock now2"
  shows "\<exists>s' x. cli_ping_request a junk now1 now2 fd ip s = Some s' \<and> ping_rep s' (ins_ping x xs) \<and> in_order (ins_ping x xs) \<and> key x = (fd, ip, ping_count s) \<and> ping_out s' = ping_out s"
proof -
  let ?new = "junk\<lparr>pg_fd := fd, pg_dst_ip := ip, pg_seq := htons (ping_count s), pg_send_time := now1, pg_expire_time := time_add_usec now2 PING_MAX_WAIT_FOR_REPLY_USEC\<rparr>"
  let ?s = "s\<lparr>ping_heap := (ping_heap s)(a \<mapsto> ?new), ping_count := ping_count s + 1\<rparr>"
  have a: "a \<notin> fst ` set xs" using assms(1,3) unfolding ping_rep_def by (metis domIff)
  obtain h' l' where h: "insert_ping a ?s = Some (?s\<lparr>ping_heap := h', ping_list := l'\<rparr>)" "seg h' None l' (ins_ping (a, info ?new) xs) None" "dom h' = dom (ping_heap ?s)"
    using insert_ping_rep [of ?s xs a ?new] assms(1) a by (auto simp: ping_rep_def)
  have "set (ins_ping x xs) = insert x (set xs)" "distinct (map fst (ins_ping x xs)) \<longleftrightarrow> distinct (fst x # map fst xs)" for x
  proof -
    note m = mset_ins_ping [of x xs]
    from mset_eq_setD [OF m] show "set (ins_ping x xs) = insert x (set xs)" by simp
    from m have "mset (map fst (ins_ping x xs)) = mset (fst x # map fst xs)" by (metis list.map(2) mset_map)
    then show "distinct (map fst (ins_ping x xs)) \<longleftrightarrow> distinct (fst x # map fst xs)" by (rule mset_eq_imp_distinct_iff)
  qed
  then have "ping_rep (?s\<lparr>ping_heap := h', ping_list := l'\<rparr>) (ins_ping (a, info ?new) xs)"
    using h(2,3) a assms(1) by (auto simp: ping_rep_def)
  moreover have "in_order (ins_ping (a, info ?new) xs)"
    using in_order_ins [OF assms(2)] time_add_usec_exact(1) [of now2 PING_MAX_WAIT_FOR_REPLY_USEC] assms(4) by (simp add: info_def clock_def)
  ultimately show ?thesis
    using h(1) by (intro exI [of _ "?s\<lparr>ping_heap := h', ping_list := l'\<rparr>"] exI [of _ "(a, info ?new)"]) (simp add: cli_ping_request_def Let_def key_def info_def)
qed


lemma reply_keeps:
  assumes "ping_inv rq s"
  shows "\<exists>s'. cli_ping_handle_reply False ip sq s = Some s' \<and> ping_inv rq s'"
proof -
  obtain xs where xs: "ping_rep s xs" "in_order xs" "mset rq = mset (map fst (ping_out s)) + mset (map key xs)" using assms by (auto simp: ping_inv_def)
  then have "seg (ping_heap s) None (ping_list s) xs None" by (simp add: ping_rep_def)
  then obtain s' where s': "reply_loop ip sq (ping_list s) s = Some s'" "if list_ex (matches ip sq) xs then answered_one ip sq [] xs s s' else s' = s"
    using reply_loop_rep [of s "[]" xs "ping_list s" ip sq] xs(1) by auto
  have "ping_inv rq s'"
  proof (cases "list_ex (matches ip sq) xs")
    case True
    then obtain ws x zs where x: "xs = ws @ x # zs" "ping_rep s' (ws @ zs)" "ping_out s' = ping_out s @ [(key x, True)]" using s'(2) by (auto simp: answered_one_def)
    then show ?thesis using xs in_order_sub [of ws x zs] unfolding ping_inv_def by (intro exI [of _ "ws @ zs"]) simp
  next
    case False
    with s'(2) assms show ?thesis by simp
  qed
  with s'(1) show ?thesis by (simp add: cli_ping_handle_reply_def)
qed

lemma dropWhile_sorted:
  assumes "in_order xs" "normal now" "x \<in> set (dropWhile (\<lambda>x. is_later now (expiry (snd x))) xs)"
  shows "\<not> is_later now (expiry (snd x))"
proof -
  let ?P = "\<lambda>x. is_later now (expiry (snd x))"
  obtain z zs where z: "dropWhile ?P xs = z # zs" using split_hd [OF assms(3)] by blast
  have "in_order (z # zs)" using in_order_drop [OF assms(1), of ?P] z by simp
  moreover have "\<not> ?P z" using hd_dropWhile [of ?P xs] z by auto
  ultimately show ?thesis using assms(2,3) z is_later_usecs by (auto simp: in_order_def)
qed

lemma seg_info: "seg h pr p xs r \<Longrightarrow> (a, i) \<in> set xs \<Longrightarrow> map_option info (h a) = Some i"
  by (induction h pr p xs r rule: seg.induct) (auto split: option.splits)

lemma rep_nodes:
  assumes "ping_rep s xs" "n \<in> ran (ping_heap s)"
  obtains x where "x \<in> set xs" "expiry (snd x) = pg_expire_time n"
proof -
  obtain a where a: "ping_heap s a = Some n" using assms(2) by (auto simp: ran_def)
  then have "a \<in> fst ` set xs" using assms(1) unfolding ping_rep_def by (metis domI)
  then obtain i where i: "(a, i) \<in> set xs" by auto
  with seg_info [OF _ i] assms(1) a have "info n = i" unfolding ping_rep_def by fastforce
  with i show thesis by (intro that [of "(a, i)"]) (auto simp: info_def)
qed

lemma scrub_pass_rep:
  assumes "ping_rep s xs"
  shows "\<exists>t s'. scrub_pass now s = Some (t, s') \<and> ping_rep s' (dropWhile (\<lambda>x. is_later now (expiry (snd x))) xs) \<and>
    ping_out s' = ping_out s @ map (\<lambda>x. (key x, False)) (takeWhile (\<lambda>x. is_later now (expiry (snd x))) xs)"
proof (cases "xs = []")
  case True
  with assms show ?thesis by (simp add: scrub_pass_def ping_rep_def)
next
  case False
  then have "ping_list s \<noteq> None" using assms by (cases xs) (auto simp: ping_rep_def)
  obtain s' where s': "expire_loop now s = Some s'" "ping_rep s' (dropWhile (\<lambda>x. is_later now (expiry (snd x))) xs)"
    "ping_out s' = ping_out s @ map (\<lambda>x. (key x, False)) (takeWhile (\<lambda>x. is_later now (expiry (snd x))) xs)"
    using expire_loop_rep [OF assms False] by blast
  have "\<exists>n. ping_heap s' p = Some n" if "ping_list s' = Some p" for p
    using s'(2) that by (cases "dropWhile (\<lambda>x. is_later now (expiry (snd x))) xs") (auto simp: ping_rep_def split: option.splits)
  then have "\<exists>t. scrub_pass now s = Some (t, s')"
    using s'(1) \<open>ping_list s \<noteq> None\<close> by (cases "ping_list s'") (fastforce simp: scrub_pass_def)+
  with s'(2,3) show ?thesis by blast
qed

lemma scrub_keeps:
  assumes "ping_inv rq s"
  shows "\<exists>t s'. scrub_pass now s = Some (t, s') \<and> ping_inv rq s' \<and> (normal now \<longrightarrow> (\<forall>n \<in> ran (ping_heap s'). \<not> is_later now (pg_expire_time n)))"
proof -
  let ?P = "\<lambda>x. is_later now (expiry (snd x))"
  obtain xs where xs: "ping_rep s xs" "in_order xs" "mset rq = mset (map fst (ping_out s)) + mset (map key xs)" using assms by (auto simp: ping_inv_def)
  obtain t s' where s': "scrub_pass now s = Some (t, s')" "ping_rep s' (dropWhile ?P xs)" "ping_out s' = ping_out s @ map (\<lambda>x. (key x, False)) (takeWhile ?P xs)"
    using scrub_pass_rep [OF xs(1)] by blast
  have "mset (map key (takeWhile ?P xs @ dropWhile ?P xs)) = mset (map key xs)" by simp
  then have "mset (map key (takeWhile ?P xs)) + mset (map key (dropWhile ?P xs)) = mset (map key xs)" by (simp only: map_append mset_append)
  then have "ping_inv rq s'"
    using s' xs in_order_drop [OF xs(2), of ?P] unfolding ping_inv_def by (intro exI [of _ "dropWhile ?P xs"]) (simp add: comp_def)
  moreover have "\<not> is_later now (pg_expire_time n)" if "normal now" and n: "n \<in> ran (ping_heap s')" for n
    using rep_nodes [OF s'(2) n] dropWhile_sorted [OF xs(2) that(1)] by metis
  ultimately show ?thesis using s'(1) by blast
qed

lemma ping_run_inv: "ping_run rq s \<Longrightarrow> ping_inv rq s"
proof (induction rule: ping_run.induct)
  case (start s)
  then show ?case by (auto simp: ping_inv_def ping_rep_def in_order_def cli_ping_init_def intro!: exI [of _ "[]"])
next
  case (request rq s a now2 junk now1 fd ip s')
  then obtain xs where xs: "ping_rep s xs" "in_order xs" "mset rq = mset (map fst (ping_out s)) + mset (map key xs)" by (auto simp: ping_inv_def)
  obtain x where x: "ping_rep s' (ins_ping x xs)" "in_order (ins_ping x xs)" "key x = (fd, ip, ping_count s)" "ping_out s' = ping_out s"
    using request_keeps [OF xs(1,2) request.hyps(2,3), of junk now1 fd ip] request.hyps(4) by auto
  have "mset (map key (ins_ping x xs)) = add_mset (fd, ip, ping_count s) (mset (map key xs))" using x(3) mset_ins_ping [of x xs] by (simp add: mset_map)
  with x xs(3) show ?case unfolding ping_inv_def by (intro exI [of _ "ins_ping x xs"]) simp
next
  case (reply rq s ip sq s')
  then show ?case using reply_keeps [of rq s ip sq] by simp
next
  case (scrub rq s now t s')
  then show ?case using scrub_keeps [of rq s now] by auto
qed

text \<open>
  C9: the list of pings under any sequence of requests, replies and passes of the scrubber. No operation uses a node that has been freed,
  although the first node of the list may point back to one. Every request is either still on the list, which is in the order of
  expiry, or has been answered exactly once, by a reply or a time-out; no memory is lost. A pass of the scrubber leaves no ping that has
  expired, and \<open>cli_ping_destroy\<close> frees the rest.
\<close>

theorem ping_answered_once:
  assumes "ping_run rq s"
  shows "(\<exists>xs. ping_rep s xs \<and> in_order xs \<and> mset rq = mset (map fst (ping_out s)) + mset (map key xs)) \<and>
    (ping_heap s a = None \<and> clock now2 \<longrightarrow> cli_ping_request a junk now1 now2 fd ip s \<noteq> None) \<and>
    cli_ping_handle_reply False ip sq s \<noteq> None \<and>
    (\<exists>t s'. scrub_pass now s = Some (t, s') \<and> (normal now \<longrightarrow> (\<forall>n \<in> ran (ping_heap s'). \<not> is_later now (pg_expire_time n)))) \<and>
    (\<exists>s'. cli_ping_destroy s = Some s' \<and> ping_heap s' = Map.empty)"
proof -
  have inv: "ping_inv rq s" by (rule ping_run_inv [OF assms])
  then obtain xs where xs: "ping_rep s xs" "in_order xs" "mset rq = mset (map fst (ping_out s)) + mset (map key xs)" by (auto simp: ping_inv_def)
  show ?thesis
    using xs request_keeps [OF xs(1,2), of a now2 junk now1 fd ip] reply_keeps [OF inv, of ip sq] scrub_keeps [OF inv, of now] destroy_loop_rep [OF xs(1)]
    unfolding cli_ping_destroy_def by blast
qed


definition ping_example :: ping_state where
  "ping_example = \<lparr>ping_heap = Map.empty, ping_list = None, ping_count = 0, ping_out = []\<rparr>"

theorem ping_answered_once_witness:
  "\<exists>s xs. ping_run [(3, 5, 0)] s \<and> ping_rep s xs \<and> in_order xs \<and> {#(3, 5, 0)#} = mset (map fst (ping_out s)) + mset (map key xs)"
proof -
  let ?t = "\<lparr>tv_sec = 1000, tv_usec = 0\<rparr>" and ?junk = "\<lparr>pg_fd = 0, pg_dst_ip = 0, pg_seq = 0, pg_send_time = \<lparr>tv_sec = 0, tv_usec = 0\<rparr>, pg_expire_time = \<lparr>tv_sec = 0, tv_usec = 0\<rparr>, pg_prev = None, pg_next = None\<rparr>"
  have r: "ping_run [] ping_example" using ping_run.start [of ping_example] by (simp add: ping_example_def cli_ping_init_def)
  have c: "clock ?t" by (simp add: clock_def normal_def)
  obtain s where "cli_ping_request 8 ?junk ?t ?t 3 5 ping_example = Some s"
    using ping_answered_once [OF r, of 8 ?t ?junk ?t 3 5 0 ?t] c by (auto simp: ping_example_def)
  from ping_run.request [OF r _ c this] have run: "ping_run [(3, 5, 0)] s" by (simp add: ping_example_def)
  then show ?thesis using ping_answered_once [OF run, of 8 ?t ?junk ?t 3 5 0 ?t] by auto
qed

text \<open>
  The scrubber means to wait until the next ping expires. What it computes is the negative of that: it waits a tenth of a second, or
  gives \<^verbatim>\<open>select\<close> a negative time, which is refused at once.
\<close>

lemma scrub_timeout_never_positive:
  assumes "clock now" "normal (pg_expire_time n)" "\<not> is_later now (pg_expire_time n)" "scrub_timeout now n = (sec, usec)"
  shows "sec < 0 \<or> (sec, usec) = (0, PING_HANDLER_MIN_RESPONSE_TIME_USEC) \<or> sec = 0 \<and> usec \<le> 0"
proof -
  let ?e = "pg_expire_time n"
  have n: "normal now" "normal ?e" using assms(1,2) by (simp_all add: clock_def)
  then have u: "unat (tv_usec now) < 1000000" "unat (tv_usec ?e) < 1000000" "unat (tv_sec now) < 2 ^ 31" "unat (tv_sec ?e) < 2 ^ 31" by (simp_all add: normal_def)
  then have d: "sint (tv_sec now - tv_sec ?e) = int (unat (tv_sec now)) - int (unat (tv_sec ?e))" "sint (tv_usec now - tv_usec ?e) = int (unat (tv_usec now)) - int (unat (tv_usec ?e))"
    by (simp_all add: sint_diff_small)
  have "usecs now \<le> usecs ?e" using is_later_usecs [OF n] assms(3) by simp
  then have "int (unat (tv_sec now)) - int (unat (tv_sec ?e)) < 0 \<or>
      int (unat (tv_sec now)) - int (unat (tv_sec ?e)) = 0 \<and> int (unat (tv_usec now)) - int (unat (tv_usec ?e)) \<le> 0"
    using u(1,2) unfolding usecs_def by linarith
  then show ?thesis using assms(4) unfolding scrub_timeout_def d Let_def by (auto split: if_splits)
qed

end
