(* ===== verification/Cli_Shutdown.thy ===== *)
theory Cli_Shutdown
  imports Cli_Ping
begin

text \<open>
  The end of the command line interface: \<^verbatim>\<open>cli_shutdown\<close> (\<^verbatim>\<open>cli/cli.c\<close>) and \<^verbatim>\<open>cli_ping_destroy\<close> beside the thread of the scrubber
  (\<^verbatim>\<open>cli_ping_scrubber_main\<close>, \<^verbatim>\<open>cli/cli_ping.c\<close>), step by step. A step is what a thread does between two points at which another thread
  can interfere: it takes the lock of the list, waits on a condition, or reads or writes the flag \<^verbatim>\<open>router_shutdown\<close>, which no lock
  protects. A signal wakes the thread that waits on the condition and is lost if there is none; there are no spurious wake-ups. A pass
  over the list is \<open>scrub_pass\<close>.
\<close>

subsection \<open>Threads\<close>

text \<open>
  The scrubber: it wants the lock (at the start or after a signal), tests the outer loop or the inner loop with the lock held,
  sleeps in \<^verbatim>\<open>select\<close>, waits on \<^verbatim>\<open>ping_list_cond\<close>, or has ended.
\<close>

datatype scrubber = Scrub_Lock | Scrub_Outer | Scrub_Inner | Scrub_Select | Scrub_Wait | Scrub_Done

text \<open>
  The thread of the client that shuts the router down: serving commands, after the flag is set, waiting on \<^verbatim>\<open>ping_scrubber_off_cond\<close>,
  woken, and after the list has been freed.
\<close>

datatype closer = Close_Not | Close_Flag | Close_Wait | Close_Woken | Close_Done

record shut_state =
  sh_flag :: bool
  sh_scrub :: scrubber
  sh_close :: closer
  sh_ping :: ping_state
  sh_asked :: "(int \<times> u32 \<times> u16) list"

definition lock_free :: "shut_state \<Rightarrow> bool" where
  "lock_free s \<longleftrightarrow> sh_scrub s \<noteq> Scrub_Outer \<and> sh_scrub s \<noteq> Scrub_Inner"

definition signal_list :: "shut_state \<Rightarrow> shut_state" where
  "signal_list s = (if sh_scrub s = Scrub_Wait then s\<lparr>sh_scrub := Scrub_Lock\<rparr> else s)"

definition signal_off :: "shut_state \<Rightarrow> shut_state" where
  "signal_off s = (if sh_close s = Close_Wait then s\<lparr>sh_close := Close_Woken\<rparr> else s)"

text \<open>The tests of the two loops of the scrubber, with what follows up to the next point of interference.\<close>

definition scrub_outer :: "shut_state \<Rightarrow> shut_state" where
  "scrub_outer s = (if sh_flag s then signal_off (s\<lparr>sh_scrub := Scrub_Done\<rparr>) else s\<lparr>sh_scrub := Scrub_Inner\<rparr>)"

definition scrub_inner :: "timeval \<Rightarrow> shut_state \<Rightarrow> shut_state option" where
  "scrub_inner now s =
     (if ping_list (sh_ping s) = None \<or> sh_flag s then Some (s\<lparr>sh_scrub := Scrub_Wait\<rparr>)
      else do {
        (timeout, p) \<leftarrow> scrub_pass now (sh_ping s);
        Some (s\<lparr>sh_ping := p, sh_scrub := (if timeout = None then Scrub_Wait else Scrub_Select)\<rparr>)
      })"

inductive shut_step :: "shut_state \<Rightarrow> shut_state \<Rightarrow> bool" where
  request: "sh_close s = Close_Not \<Longrightarrow> lock_free s \<Longrightarrow> ping_heap (sh_ping s) a = None \<Longrightarrow> clock now2 \<Longrightarrow>
    cli_ping_request a junk now1 now2 fd ip (sh_ping s) = Some p \<Longrightarrow>
    shut_step s (signal_list (s\<lparr>sh_ping := p, sh_asked := sh_asked s @ [(fd, ip, ping_count (sh_ping s))]\<rparr>))"
| reply: "\<not> sh_flag s \<Longrightarrow> lock_free s \<Longrightarrow> cli_ping_handle_reply (sh_flag s) ip sq (sh_ping s) = Some p \<Longrightarrow> shut_step s (s\<lparr>sh_ping := p\<rparr>)"
| lock: "sh_scrub s = Scrub_Lock \<Longrightarrow> shut_step s (s\<lparr>sh_scrub := Scrub_Outer\<rparr>)"
| outer: "sh_scrub s = Scrub_Outer \<Longrightarrow> shut_step s (scrub_outer s)"
| inner: "sh_scrub s = Scrub_Inner \<Longrightarrow> clock now \<Longrightarrow> scrub_inner now s = Some t \<Longrightarrow> shut_step s t"
| select: "sh_scrub s = Scrub_Select \<Longrightarrow> shut_step s (s\<lparr>sh_scrub := Scrub_Inner\<rparr>)"
| begin_close: "sh_close s = Close_Not \<Longrightarrow> shut_step s (s\<lparr>sh_flag := True, sh_close := Close_Flag\<rparr>)"
| wait_off: "sh_close s = Close_Flag \<Longrightarrow> lock_free s \<Longrightarrow> shut_step s (signal_list s\<lparr>sh_close := Close_Wait\<rparr>)"
| finish: "sh_close s = Close_Woken \<Longrightarrow> lock_free s \<Longrightarrow> destroy_loop (sh_ping s) = Some p \<Longrightarrow> shut_step s (s\<lparr>sh_ping := p, sh_close := Close_Done\<rparr>)"

inductive_cases shut_stepE: "shut_step s t"

inductive shut_reach :: "shut_state \<Rightarrow> bool" where
  start: "ping_heap p = Map.empty \<Longrightarrow> ping_out p = [] \<Longrightarrow>
    shut_reach \<lparr>sh_flag = False, sh_scrub = Scrub_Lock, sh_close = Close_Not, sh_ping = cli_ping_init p, sh_asked = []\<rparr>"
| step: "shut_reach s \<Longrightarrow> shut_step s t \<Longrightarrow> shut_reach t"

subsection \<open>Invariant\<close>

definition shut_inv :: "shut_state \<Rightarrow> bool" where
  "shut_inv s \<longleftrightarrow> (sh_flag s \<longleftrightarrow> sh_close s \<noteq> Close_Not) \<and> (sh_close s \<noteq> Close_Done \<longrightarrow> ping_run (sh_asked s) (sh_ping s)) \<and>
     (sh_close s \<in> {Close_Woken, Close_Done} \<longrightarrow> sh_scrub s = Scrub_Done) \<and> (sh_scrub s = Scrub_Done \<longrightarrow> sh_flag s)"

lemmas shut_defs = lock_free_def signal_list_def signal_off_def scrub_outer_def

lemma scrub_inner_cases:
  assumes "scrub_inner now s = Some t"
  obtains "t = s\<lparr>sh_scrub := Scrub_Wait\<rparr>"
  | timeout p where "scrub_pass now (sh_ping s) = Some (timeout, p)" "\<not> sh_flag s" "t = s\<lparr>sh_ping := p, sh_scrub := (if timeout = None then Scrub_Wait else Scrub_Select)\<rparr>"
  using assms by (auto simp: scrub_inner_def split: if_splits Option.bind_splits)

lemma shut_inv_step:
  assumes "shut_inv s" "shut_step s t"
  shows "shut_inv t"
  using assms(2)
proof cases
  case (request a now2 junk now1 fd ip p)
  have "ping_run (sh_asked s) (sh_ping s)" using assms(1) request(2) by (simp add: shut_inv_def)
  from ping_run.request [OF this request(4-6)] show ?thesis using assms(1) request(1,2) by (auto simp: shut_inv_def shut_defs)
next
  case (reply ip sq p)
  have "ping_run (sh_asked s) (sh_ping s)" using assms(1) reply(2) by (simp add: shut_inv_def)
  from ping_run.reply [OF this] reply have "ping_run (sh_asked s) p" by simp
  then show ?thesis using assms(1) reply(1,2) by (auto simp: shut_inv_def)
next
  case (inner now)
  from inner(3) show ?thesis
  proof (cases rule: scrub_inner_cases)
    case 1
    then show ?thesis using assms(1) inner(1) by (auto simp: shut_inv_def)
  next
    case (2 timeout p)
    have "ping_run (sh_asked s) (sh_ping s)" using assms(1) 2(2) by (simp add: shut_inv_def)
    from ping_run.scrub [OF this inner(2) 2(1)] show ?thesis using assms(1) 2(2,3) inner(1) by (auto simp: shut_inv_def)
  qed
qed (use assms(1) in \<open>auto simp: shut_inv_def shut_defs\<close>)

lemma shut_reach_inv: "shut_reach s \<Longrightarrow> shut_inv s"
proof (induction rule: shut_reach.induct)
  case (start p)
  then show ?case by (simp add: shut_inv_def ping_run.start)
qed (rule shut_inv_step)

subsection \<open>Progress\<close>

text \<open>A thread is stuck for good exactly when the closing thread waits and the scrubber waits or has ended.\<close>

definition hung :: "shut_state \<Rightarrow> bool" where
  "hung s \<longleftrightarrow> sh_close s = Close_Wait \<and> sh_scrub s \<in> {Scrub_Wait, Scrub_Done}"

lemma inner_runs:
  assumes "shut_inv s" "sh_scrub s = Scrub_Inner"
  shows "\<exists>t. shut_step s t"
proof -
  let ?now = "\<lparr>tv_sec = 0, tv_usec = 0\<rparr>"
  have "clock ?now" by (simp add: clock_def normal_def)
  moreover have "\<exists>t. scrub_inner ?now s = Some t"
  proof (cases "sh_flag s")
    case False
    then have "ping_run (sh_asked s) (sh_ping s)" using assms(1) by (simp add: shut_inv_def)
    then show ?thesis using scrub_keeps [OF ping_run_inv, of _ "sh_ping s" ?now] by (fastforce simp: scrub_inner_def)
  qed (simp add: scrub_inner_def)
  ultimately show ?thesis using shut_step.inner [OF assms(2)] by blast
qed

lemma destroy_runs:
  assumes "shut_inv s" "sh_close s \<noteq> Close_Done"
  shows "\<exists>p. destroy_loop (sh_ping s) = Some p \<and> ping_heap p = Map.empty"
  using assms ping_run_inv [of "sh_asked s" "sh_ping s"] destroy_loop_rep [of "sh_ping s"] by (fastforce simp: shut_inv_def ping_inv_def)

lemma stuck_iff:
  assumes "shut_inv s"
  shows "(\<nexists>t. shut_step s t) \<longleftrightarrow> hung s \<or> sh_close s = Close_Done"
proof -
  have "\<exists>t. shut_step s t" if "\<not> hung s" "sh_close s \<noteq> Close_Done"
  proof (cases "sh_scrub s")
    case Scrub_Inner
    then show ?thesis by (rule inner_runs [OF assms])
  next
    case Scrub_Wait
    then have "sh_close s \<in> {Close_Not, Close_Flag}" using that assms by (cases "sh_close s") (auto simp: hung_def shut_inv_def)
    moreover have "lock_free s" using Scrub_Wait by (simp add: lock_free_def)
    ultimately show ?thesis using shut_step.begin_close [of s] shut_step.wait_off [of s] by blast
  next
    case Scrub_Done
    then have "sh_close s \<in> {Close_Not, Close_Flag, Close_Woken}" using that by (cases "sh_close s") (auto simp: hung_def)
    moreover have "lock_free s" using Scrub_Done by (simp add: lock_free_def)
    ultimately show ?thesis using destroy_runs [OF assms that(2)] shut_step.begin_close [of s] shut_step.wait_off [of s] shut_step.finish [of s] by blast
  qed (auto intro: shut_step.lock shut_step.outer shut_step.select)
  moreover have "\<not> shut_step s t" if "hung s \<or> sh_close s = Close_Done" for t
    using that assms by (auto simp: hung_def shut_inv_def elim!: shut_stepE)
  ultimately show ?thesis by blast
qed


subsection \<open>The end of the shutdown\<close>

text \<open>Runs in which every step keeps \<open>P\<close> and lowers the number \<open>m\<close>.\<close>

lemma runs_bounded:
  assumes "\<And>x y. P x \<Longrightarrow> R x y \<Longrightarrow> P y \<and> m y < (m x :: nat)" "P s" "(R ^^ n) s t"
  shows "P t \<and> n + m t \<le> m s"
  using assms(3)
proof (induction n arbitrary: t)
  case 0
  then show ?case using assms(2) by simp
next
  case (Suc n)
  then obtain u where u: "(R ^^ n) s u" "R u t" by (auto elim: relpowp_Suc_E)
  with Suc.IH [OF u(1)] assms(1) [of u t] show ?case by auto
qed

definition closing :: "shut_state \<Rightarrow> bool" where
  "closing s \<longleftrightarrow> shut_inv s \<and> sh_flag s \<and>
     (sh_close s = Close_Wait \<and> sh_scrub s \<in> {Scrub_Lock, Scrub_Outer} \<or> sh_close s = Close_Woken \<or> sh_close s = Close_Done \<and> ping_heap (sh_ping s) = Map.empty)"

definition closing_left :: "shut_state \<Rightarrow> nat" where
  "closing_left s =
     (if sh_close s = Close_Done then 0 else if sh_close s = Close_Woken then 1 else if sh_scrub s = Scrub_Outer then 2 else 3)"

lemma closing_step: "closing s \<Longrightarrow> shut_step s t \<Longrightarrow> closing t \<and> closing_left t < closing_left s"
proof -
  assume c: "closing s" and st: "shut_step s t"
  have "shut_inv s" "shut_inv t" using c shut_inv_step [OF _ st] by (simp_all add: closing_def)
  with st show "closing t \<and> closing_left t < closing_left s"
  proof cases
    case (finish p)
    then show ?thesis using \<open>shut_inv t\<close> c destroy_runs [OF \<open>shut_inv s\<close>] by (auto simp: closing_def closing_left_def shut_inv_def)
  qed (use c \<open>shut_inv t\<close> in \<open>auto simp: closing_def closing_left_def shut_inv_def shut_defs split: if_splits\<close>)
qed

definition hanging :: "shut_state \<Rightarrow> bool" where
  "hanging s \<longleftrightarrow> shut_inv s \<and> sh_flag s \<and> sh_close s = Close_Wait \<and> sh_scrub s \<in> {Scrub_Select, Scrub_Inner, Scrub_Wait, Scrub_Done}"

definition hanging_left :: "shut_state \<Rightarrow> nat" where
  "hanging_left s = (if sh_scrub s = Scrub_Select then 2 else if sh_scrub s = Scrub_Inner then 1 else 0)"

lemma hanging_step: "hanging s \<Longrightarrow> shut_step s t \<Longrightarrow> hanging t \<and> hanging_left t < hanging_left s"
proof -
  assume c: "hanging s" and st: "shut_step s t"
  have "shut_inv s" "shut_inv t" using c shut_inv_step [OF _ st] by (simp_all add: hanging_def)
  with st show "hanging t \<and> hanging_left t < hanging_left s"
    by cases (use c in \<open>auto simp: hanging_def hanging_left_def shut_inv_def scrub_inner_def shut_defs split: if_splits\<close>)
qed



subsection \<open>Both ends can be reached\<close>

definition shut_start :: shut_state where
  "shut_start = \<lparr>sh_flag = False, sh_scrub = Scrub_Lock, sh_close = Close_Not, sh_ping = ping_example, sh_asked = []\<rparr>"

definition ping_time :: timeval where
  "ping_time = \<lparr>tv_sec = 1000, tv_usec = 0\<rparr>"

definition one_ping :: ping_t where
  "one_ping = \<lparr>pg_fd = 3, pg_dst_ip = 5, pg_seq = 0, pg_send_time = ping_time, pg_expire_time = \<lparr>tv_sec = 1001, tv_usec = 0\<rparr>, pg_prev = None, pg_next = None\<rparr>"

definition pinged :: ping_state where
  "pinged = \<lparr>ping_heap = [8 \<mapsto> one_ping], ping_list = Some 8, ping_count = 1, ping_out = []\<rparr>"

lemma start_reach: "shut_reach shut_start"
  using shut_reach.start [of ping_example] by (simp add: shut_start_def ping_example_def cli_ping_init_def)

lemma request_example: "cli_ping_request 8 one_ping ping_time ping_time 3 5 ping_example = Some pinged"
  by (simp add: cli_ping_request_def insert_ping_def upd_ping_def ping_example_def pinged_def one_ping_def ping_time_def time_add_usec_def Let_def htons_def)

lemma pass_example: "scrub_inner ping_time (shut_start\<lparr>sh_ping := pinged, sh_asked := q, sh_scrub := Scrub_Inner\<rparr>) =
    Some (shut_start\<lparr>sh_ping := pinged, sh_asked := q, sh_scrub := Scrub_Select\<rparr>)"
  by (simp add: scrub_inner_def scrub_pass_def expire_loop.simps pinged_def one_ping_def ping_time_def shut_start_def is_later_def)

lemma ping_time_clock: "clock ping_time"
  by (simp add: ping_time_def clock_def normal_def)

lemma idle_reach: "shut_reach (shut_start\<lparr>sh_scrub := Scrub_Wait, sh_flag := True, sh_close := Close_Flag\<rparr>)"
proof -
  have "shut_reach (shut_start\<lparr>sh_scrub := Scrub_Outer\<rparr>)" using shut_reach.step [OF start_reach shut_step.lock] by (simp add: shut_start_def)
  then have "shut_reach (shut_start\<lparr>sh_scrub := Scrub_Inner\<rparr>)" using shut_reach.step [OF _ shut_step.outer] by (fastforce simp: shut_start_def scrub_outer_def)
  then have "shut_reach (shut_start\<lparr>sh_scrub := Scrub_Wait\<rparr>)"
    by (rule shut_reach.step [OF _ shut_step.inner [OF _ ping_time_clock]]) (simp_all add: shut_start_def scrub_inner_def ping_example_def)
  from shut_reach.step [OF this shut_step.begin_close] show ?thesis by (simp add: shut_start_def)
qed

lemma busy_reach: "\<exists>q. shut_reach (shut_start\<lparr>sh_ping := pinged, sh_asked := q, sh_scrub := Scrub_Select, sh_flag := True, sh_close := Close_Flag\<rparr>)"
proof -
  let ?q = "[(3, 5, 0)]"
  have "shut_reach (shut_start\<lparr>sh_ping := pinged, sh_asked := ?q\<rparr>)"
    using shut_reach.step [OF start_reach shut_step.request [OF _ _ _ ping_time_clock], of 8 one_ping ping_time 3 5 pinged] request_example
    by (simp add: shut_start_def lock_free_def signal_list_def) (simp add: ping_example_def)
  then have "shut_reach (shut_start\<lparr>sh_ping := pinged, sh_asked := ?q, sh_scrub := Scrub_Outer\<rparr>)" using shut_reach.step [OF _ shut_step.lock] by (fastforce simp: shut_start_def)
  then have "shut_reach (shut_start\<lparr>sh_ping := pinged, sh_asked := ?q, sh_scrub := Scrub_Inner\<rparr>)"
    using shut_reach.step [OF _ shut_step.outer] by (fastforce simp: shut_start_def scrub_outer_def)
  then have "shut_reach (shut_start\<lparr>sh_ping := pinged, sh_asked := ?q, sh_scrub := Scrub_Select\<rparr>)"
    by (rule shut_reach.step [OF _ shut_step.inner [OF _ ping_time_clock pass_example]]) simp
  from shut_reach.step [OF this shut_step.begin_close] show ?thesis by (auto simp: shut_start_def)
qed


end
