(* ===== verification/Sr_Router.thy ===== *)
theory Sr_Router
  imports Sr_Common Work_Queue Cli_Search "HOL-Library.Monad_Syntax"
begin

text \<open>
  The router of the stub: its interfaces (\<^verbatim>\<open>sr_router.c\<close>, \<^verbatim>\<open>sr_interface.c\<close>) and the way of a frame from an interface to the work
  queue (\<^verbatim>\<open>sr_mininet_extension.c\<close>, \<^verbatim>\<open>sr_integration.c\<close>), in the configuration for Mininet. The file of interfaces is given by what
  \<^verbatim>\<open>sscanf\<close> finds in its lines; \<^verbatim>\<open>inet_aton\<close>, the descriptors of the sockets, what arrives on them and the addresses from \<^verbatim>\<open>malloc\<close> are arguments.
  The log of packets (\<^verbatim>\<open>sr_log_packet\<close>) is never opened and does nothing. Writing outside the router structure or outside a buffer, and the end of the program in \<^verbatim>\<open>die\<close>, are the result \<open>None\<close>.
\<close>

subsection \<open>Interfaces\<close>

record interface_t =
  if_name :: string
  if_mac :: addr_mac_t
  if_ip :: u32
  if_enabled :: bool
  if_subnet_mask :: u32
  if_hw_id :: u8
  if_hw_fd :: int

record packet_info_t =
  pi_packet :: "u8 list"
  pi_len :: nat
  pi_interface :: nat

abbreviation ROUTER_MAX_INTERFACES :: nat where "ROUTER_MAX_INTERFACES \<equiv> 4"
abbreviation SR_NAMELEN :: nat where "SR_NAMELEN \<equiv> 32"
abbreviation PREFIX_LENGTH :: nat where "PREFIX_LENGTH \<equiv> 3"
abbreviation NUM_WORKER_THREADS :: u32 where "NUM_WORKER_THREADS \<equiv> 1"

text \<open>
  The router structure, with the packets that have been allocated and the addresses of the packets that the handler has been called for: the
  handler of the stub only prints that a frame has come.
\<close>

record router_t =
  rt_interface :: "interface_t list"
  rt_num_interfaces :: nat
  rt_use_ospf :: bool
  rt_work_queue :: work_queue_t
  rt_packets :: "u32 \<rightharpoonup> packet_info_t"
  rt_handled :: "u32 list"

definition router_init :: "router_t \<Rightarrow> router_t option" where
  "router_init r = do {
     wq \<leftarrow> wq_init NUM_WORKER_THREADS (wq_heap (rt_work_queue r));
     Some (r\<lparr>rt_num_interfaces := 0, rt_use_ospf := True, rt_work_queue := wq\<rparr>)
   }"

definition router_destroy :: "router_t \<Rightarrow> router_t option" where
  "router_destroy r = do {
     wq \<leftarrow> wq_destroy (rt_work_queue r);
     Some (r\<lparr>rt_work_queue := wq\<rparr>)
   }"

definition router_lookup_interface_via_ip :: "router_t \<Rightarrow> u32 \<Rightarrow> nat option" where
  "router_lookup_interface_via_ip r ip = None"

definition router_lookup_interface_via_name :: "router_t \<Rightarrow> string \<Rightarrow> nat option" where
  "router_lookup_interface_via_name r name = None"

definition hw_id_of :: "string \<Rightarrow> nat \<Rightarrow> u8" where
  "hw_id_of name num =
     (if drop PREFIX_LENGTH name = ''eth0'' then 0 else if drop PREFIX_LENGTH name = ''eth1'' then 1
      else if drop PREFIX_LENGTH name = ''eth2'' then 2 else if drop PREFIX_LENGTH name = ''eth3'' then 3 else of_nat num)"

definition router_add_interface :: "(string \<Rightarrow> int) \<Rightarrow> string \<Rightarrow> u32 \<Rightarrow> u32 \<Rightarrow> addr_mac_t \<Rightarrow> router_t \<Rightarrow> router_t option" where
  "router_add_interface sock name ip msk mac r =
     (if rt_num_interfaces r \<ge> ROUTER_MAX_INTERFACES \<or> length name \<ge> SR_NAMELEN \<or> length name < PREFIX_LENGTH then None
      else
        let intf = \<lparr>if_name = name, if_mac = mac, if_ip = ip, if_enabled = True, if_subnet_mask = msk,
                    if_hw_id = hw_id_of name (rt_num_interfaces r), if_hw_fd = sock name\<rparr>
        in Some (r\<lparr>rt_interface := (rt_interface r)[rt_num_interfaces r := intf], rt_num_interfaces := rt_num_interfaces r + 1\<rparr>))"

text \<open>
  What \<^verbatim>\<open>sscanf\<close> assigns for a line; the fields that it does not assign keep the values of the line before. The conversion \<^verbatim>\<open>%s\<close> into
  an array of 32 bytes has no bound.
\<close>

record intf_line =
  ln_name :: "string option"
  ln_ip :: "string option"
  ln_mask :: "string option"
  ln_mac :: "u32 option list"

record intf_vars =
  v_name :: string
  v_ip :: string
  v_mask :: string
  v_mac :: "u32 list"

definition fits :: "string option \<Rightarrow> bool" where
  "fits x = (case x of None \<Rightarrow> True | Some y \<Rightarrow> length y < 32)"

definition assign :: "'a option \<Rightarrow> 'a \<Rightarrow> 'a" where
  "assign x old = (case x of None \<Rightarrow> old | Some y \<Rightarrow> y)"

definition scan_line :: "intf_line \<Rightarrow> intf_vars \<Rightarrow> intf_vars option" where
  "scan_line l v =
     (if fits (ln_name l) \<and> fits (ln_ip l) \<and> fits (ln_mask l)
      then Some \<lparr>v_name = assign (ln_name l) (v_name v), v_ip = assign (ln_ip l) (v_ip v), v_mask = assign (ln_mask l) (v_mask v),
                 v_mac = map2 assign (ln_mac l) (v_mac v)\<rparr>
      else None)"

fun sr_read_intf_from_file :: "(string \<Rightarrow> u32 option) \<Rightarrow> (string \<Rightarrow> int) \<Rightarrow> intf_vars \<Rightarrow> intf_line list \<Rightarrow> router_t \<Rightarrow> router_t option" where
  "sr_read_intf_from_file inet_aton sock v [] r = Some r"
| "sr_read_intf_from_file inet_aton sock v (l # ls) r = do {
     v \<leftarrow> scan_line l v;
     ip \<leftarrow> inet_aton (v_ip v);
     msk \<leftarrow> inet_aton (v_mask v);
     r \<leftarrow> router_add_interface sock (v_name v) ip msk (map ucast (v_mac v)) r;
     sr_read_intf_from_file inet_aton sock v ls r
   }"

subsection \<open>Frames\<close>

abbreviation WORK_NEW_PACKET :: int where "WORK_NEW_PACKET \<equiv> 0"

definition router_handle_packet :: "u32 \<Rightarrow> router_t \<Rightarrow> router_t option" where
  "router_handle_packet pi r = Some (r\<lparr>rt_handled := rt_handled r @ [pi]\<rparr>)"

definition router_handle_work :: "work_t \<Rightarrow> router_t \<Rightarrow> router_t option" where
  "router_handle_work work r = (if wt_type work = WORK_NEW_PACKET then router_handle_packet (wt_work work) r else None)"

text \<open>
  \<open>sr_integ_input\<close> with the addresses of the packet and of the node of the work queue. The length is an unsigned number: the buffer \<open>buf\<close>
  must be that long.
\<close>

definition sr_integ_input :: "u32 \<Rightarrow> u32 \<Rightarrow> u8 list \<Rightarrow> u32 \<Rightarrow> nat \<Rightarrow> router_t \<Rightarrow> router_t option" where
  "sr_integ_input a w buf len intf r =
     (if unat len > length buf then None
      else do {
        let pi = \<lparr>pi_packet = take (unat len) buf, pi_len = unat len, pi_interface = intf\<rparr>;
        wq \<leftarrow> wq_enqueue w WORK_NEW_PACKET a (rt_work_queue r);
        Some (r\<lparr>rt_packets := (rt_packets r)(a \<mapsto> pi), rt_work_queue := wq\<rparr>)
      })"

text \<open>
  A read of a packet socket gives one frame; what does not fit into the buffer is lost. \<open>frame_loop\<close> is the loop of \<^verbatim>\<open>real_read_once\<close> on such a
  socket; \<open>junk\<close> is what the buffer of 2000 bytes held.
\<close>

fun frame_loop :: "nat \<Rightarrow> read_result list \<Rightarrow> ((int \<times> u8 list) \<times> read_result list) option" where
  "frame_loop n [] = None"
| "frame_loop n (Interrupted # rs) = frame_loop n rs"
| "frame_loop n (Failed # rs) = Some ((- 1, []), rs)"
| "frame_loop n (Data bs # rs) = Some ((int (length (take n bs)), take n bs), rs)"

text \<open>\<open>ready\<close>: which of the descriptors in its set \<^verbatim>\<open>select\<close> reports, for each time it is called.\<close>

definition readable :: "(int \<Rightarrow> bool) \<Rightarrow> router_t \<Rightarrow> nat \<Rightarrow> bool" where
  "readable ready r i \<longleftrightarrow>
     list_ex (\<lambda>j. if_enabled (rt_interface r ! j) \<and> if_hw_fd (rt_interface r ! j) = if_hw_fd (rt_interface r ! i)) [0..<rt_num_interfaces r] \<and>
     ready (if_hw_fd (rt_interface r ! i))"

fun sr_mininet_read_packet ::
  "u32 \<Rightarrow> u32 \<Rightarrow> u8 list \<Rightarrow> (int \<Rightarrow> bool) list \<Rightarrow> (int \<Rightarrow> read_result list) \<Rightarrow> router_t \<Rightarrow> (int \<times> (int \<Rightarrow> read_result list) \<times> router_t) option" where
  "sr_mininet_read_packet a w junk [] reads r = None"
| "sr_mininet_read_packet a w junk (ready # rest) reads r =
     (case find (readable ready r) [0..<rt_num_interfaces r] of
        None \<Rightarrow> sr_mininet_read_packet a w junk rest reads r
      | Some i \<Rightarrow> do {
          let fd = if_hw_fd (rt_interface r ! i);
          ((len, bs), rs) \<leftarrow> (if fd \<ge> 0 then frame_loop 1500 (reads fd) else None);
          let buf = bs @ drop (length bs) junk;
          r \<leftarrow> sr_integ_input a w buf (word_of_int len) i r;
          Some (1, reads(fd := rs), r)
        })"


subsection \<open>Loading the interfaces\<close>

text \<open>A line with all fields, and the interface it describes as number \<open>i\<close>.\<close>

definition line_ok :: "(string \<Rightarrow> u32 option) \<Rightarrow> intf_line \<Rightarrow> bool" where
  "line_ok inet_aton l \<longleftrightarrow>
     (case (ln_name l, ln_ip l, ln_mask l) of
        (Some nm, Some ip, Some msk) \<Rightarrow> PREFIX_LENGTH \<le> length nm \<and> length nm < 32 \<and> length ip < 32 \<and> length msk < 32 \<and> inet_aton ip \<noteq> None \<and> inet_aton msk \<noteq> None
      | _ \<Rightarrow> False) \<and> length (ln_mac l) = ETH_ADDR_LEN \<and> None \<notin> set (ln_mac l)"

definition line_intf :: "(string \<Rightarrow> u32 option) \<Rightarrow> (string \<Rightarrow> int) \<Rightarrow> intf_line \<Rightarrow> nat \<Rightarrow> interface_t" where
  "line_intf inet_aton sock l i =
     \<lparr>if_name = the (ln_name l), if_mac = map (\<lambda>x. ucast (the x)) (ln_mac l), if_ip = the (inet_aton (the (ln_ip l))), if_enabled = True,
      if_subnet_mask = the (inet_aton (the (ln_mask l))), if_hw_id = hw_id_of (the (ln_name l)) i, if_hw_fd = sock (the (ln_name l))\<rparr>"

lemma map2_assign: "length xs = length ys \<Longrightarrow> None \<notin> set xs \<Longrightarrow> map2 assign xs ys = map the xs"
  by (induction xs ys rule: list_induct2) (auto simp: assign_def split: option.splits)

lemma load_line:
  assumes "line_ok inet_aton l" "length (v_mac v) = ETH_ADDR_LEN"
  obtains v' where "length (v_mac v') = ETH_ADDR_LEN"
    "sr_read_intf_from_file inet_aton sock v (l # ls) r =
       (if rt_num_interfaces r \<ge> ROUTER_MAX_INTERFACES then None
        else sr_read_intf_from_file inet_aton sock v' ls
          (r\<lparr>rt_interface := (rt_interface r)[rt_num_interfaces r := line_intf inet_aton sock l (rt_num_interfaces r)], rt_num_interfaces := rt_num_interfaces r + 1\<rparr>))"
proof -
  obtain nm ip msk where l: "ln_name l = Some nm" "ln_ip l = Some ip" "ln_mask l = Some msk" "PREFIX_LENGTH \<le> length nm" "length nm < 32" "length ip < 32" "length msk < 32"
    "inet_aton ip \<noteq> None" "inet_aton msk \<noteq> None" "length (ln_mac l) = ETH_ADDR_LEN" "None \<notin> set (ln_mac l)"
    using assms(1) by (auto simp: line_ok_def split: option.splits)
  let ?v = "\<lparr>v_name = nm, v_ip = ip, v_mask = msk, v_mac = map the (ln_mac l)\<rparr>"
  have "scan_line l v = Some ?v"
    using l assms(2) by (simp add: scan_line_def fits_def map2_assign) (simp add: assign_def)
  then show thesis using l by (intro that [of ?v]) (auto simp: router_add_interface_def line_intf_def Let_def comp_def)
qed

lemma load_lines:
  assumes "\<forall>l \<in> set ls. line_ok inet_aton l" "length (v_mac v) = ETH_ADDR_LEN" "length (rt_interface r) = ROUTER_MAX_INTERFACES" "rt_num_interfaces r \<le> ROUTER_MAX_INTERFACES"
  shows "if rt_num_interfaces r + length ls \<le> ROUTER_MAX_INTERFACES
    then \<exists>r'. sr_read_intf_from_file inet_aton sock v ls r = Some r' \<and> rt_num_interfaces r' = rt_num_interfaces r + length ls \<and>
      (\<forall>i < length ls. rt_interface r' ! (rt_num_interfaces r + i) = line_intf inet_aton sock (ls ! i) (rt_num_interfaces r + i)) \<and>
      (\<forall>i < rt_num_interfaces r. rt_interface r' ! i = rt_interface r ! i)
    else sr_read_intf_from_file inet_aton sock v ls r = None"
  using assms
proof (induction ls arbitrary: v r)
  case (Cons l ls)
  let ?r = "r\<lparr>rt_interface := (rt_interface r)[rt_num_interfaces r := line_intf inet_aton sock l (rt_num_interfaces r)], rt_num_interfaces := rt_num_interfaces r + 1\<rparr>"
  have "line_ok inet_aton l" using Cons.prems(1) by simp
  then obtain v' where v': "length (v_mac v') = ETH_ADDR_LEN"
    "sr_read_intf_from_file inet_aton sock v (l # ls) r =
       (if rt_num_interfaces r \<ge> ROUTER_MAX_INTERFACES then None else sr_read_intf_from_file inet_aton sock v' ls ?r)"
    using Cons.prems(2) by (rule load_line)
  show ?case
  proof (cases "rt_num_interfaces r \<ge> ROUTER_MAX_INTERFACES")
    case True
    then show ?thesis using v'(2) by simp
  next
    case False
    then have ih: "if rt_num_interfaces ?r + length ls \<le> ROUTER_MAX_INTERFACES
      then \<exists>r'. sr_read_intf_from_file inet_aton sock v' ls ?r = Some r' \<and> rt_num_interfaces r' = rt_num_interfaces ?r + length ls \<and>
        (\<forall>i < length ls. rt_interface r' ! (rt_num_interfaces ?r + i) = line_intf inet_aton sock (ls ! i) (rt_num_interfaces ?r + i)) \<and>
        (\<forall>i < rt_num_interfaces ?r. rt_interface r' ! i = rt_interface ?r ! i)
      else sr_read_intf_from_file inet_aton sock v' ls ?r = None"
      using Cons.prems v'(1) by (intro Cons.IH) simp_all
    show ?thesis
    proof (cases "rt_num_interfaces r + length (l # ls) \<le> ROUTER_MAX_INTERFACES")
      case True
      with ih obtain r' where r': "sr_read_intf_from_file inet_aton sock v' ls ?r = Some r'" "rt_num_interfaces r' = rt_num_interfaces r + length (l # ls)"
        "\<And>i. i < length ls \<Longrightarrow> rt_interface r' ! (Suc (rt_num_interfaces r) + i) = line_intf inet_aton sock (ls ! i) (Suc (rt_num_interfaces r) + i)"
        "\<And>i. i < Suc (rt_num_interfaces r) \<Longrightarrow> rt_interface r' ! i = rt_interface ?r ! i" by auto
      have "rt_interface r' ! (rt_num_interfaces r + i) = line_intf inet_aton sock ((l # ls) ! i) (rt_num_interfaces r + i)" if "i < length (l # ls)" for i
        using that r'(3) r'(4) [of "rt_num_interfaces r"] Cons.prems(3) False by (cases i) auto
      moreover have "rt_interface r' ! i = rt_interface r ! i" if "i < rt_num_interfaces r" for i using that r'(4) [of i] by simp
      ultimately show ?thesis using r'(1,2) v'(2) True by auto
    next
      case F: False
      then show ?thesis using ih v'(2) by auto
    qed
  qed
qed simp

text \<open>
  C25: a file of complete lines. Up to four lines are loaded as the interfaces of the router, in order, with the names, addresses and numbers of
  the lines. The fifth line is written past the end of the array of interfaces: there is no check of their number.
\<close>

theorem interfaces_loaded_or_overflow:
  assumes "\<forall>l \<in> set ls. line_ok inet_aton l" "length (v_mac v) = ETH_ADDR_LEN" "length (rt_interface r0) = ROUTER_MAX_INTERFACES" "router_init r0 = Some r"
  shows "if length ls \<le> ROUTER_MAX_INTERFACES
    then \<exists>r'. sr_read_intf_from_file inet_aton sock v ls r = Some r' \<and> rt_num_interfaces r' = length ls \<and>
      (\<forall>i < length ls. rt_interface r' ! i = line_intf inet_aton sock (ls ! i) i)
    else sr_read_intf_from_file inet_aton sock v ls r = None"
proof -
  have "rt_num_interfaces r = 0" "length (rt_interface r) = ROUTER_MAX_INTERFACES" using assms(3,4) by (auto simp: router_init_def wq_init_def)
  with load_lines [OF assms(1,2), of r sock] show ?thesis by (auto split: if_splits)
qed


definition example_line :: intf_line where
  "example_line = \<lparr>ln_name = Some ''r0-eth1'', ln_ip = Some ''10.0.0.1'', ln_mask = Some ''255.255.255.0'', ln_mac = map Some [0, 1, 2, 3, 4, 5]\<rparr>"

definition example_intf :: interface_t where
  "example_intf = \<lparr>if_name = [], if_mac = [], if_ip = 0, if_enabled = False, if_subnet_mask = 0, if_hw_id = 0, if_hw_fd = 0\<rparr>"

definition example_router :: router_t where
  "example_router = \<lparr>rt_interface = replicate 4 example_intf, rt_num_interfaces = 0, rt_use_ospf = True,
     rt_work_queue = \<lparr>wq_head = None, wq_tail = None, wq_done = False, wq_workers = 1, wq_heap = Map.empty\<rparr>, rt_packets = Map.empty, rt_handled = []\<rparr>"

definition example_vars :: intf_vars where
  "example_vars = \<lparr>v_name = [], v_ip = [], v_mask = [], v_mac = replicate 6 0\<rparr>"

theorem interfaces_loaded_or_overflow_witness:
  "(\<exists>r'. sr_read_intf_from_file (\<lambda>x. Some 7) (\<lambda>x. 5) example_vars [example_line] example_router = Some r' \<and> rt_num_interfaces r' = 1 \<and> if_hw_id (rt_interface r' ! 0) = 1) \<and>
   sr_read_intf_from_file (\<lambda>x. Some 7) (\<lambda>x. 5) example_vars (replicate 5 example_line) example_router = None"
proof -
  have h: "line_ok (\<lambda>x. Some 7) example_line" "length (v_mac example_vars) = ETH_ADDR_LEN" "length (rt_interface example_router) = ROUTER_MAX_INTERFACES"
    "router_init example_router = Some example_router"
    by (simp_all add: line_ok_def example_line_def example_vars_def example_router_def router_init_def wq_init_def)
  have "\<exists>r'. sr_read_intf_from_file (\<lambda>x. Some 7) (\<lambda>x. 5) example_vars [example_line] example_router = Some r' \<and> rt_num_interfaces r' = 1 \<and>
      rt_interface r' ! 0 = line_intf (\<lambda>x. Some 7) (\<lambda>x. 5) example_line 0"
    using interfaces_loaded_or_overflow [of "[example_line]" "\<lambda>x. Some 7", OF _ h(2-4), of "\<lambda>x. 5"] h(1) by simp
  moreover have "if_hw_id (line_intf (\<lambda>x. Some 7) (\<lambda>x. 5) example_line 0) = 1" by (simp add: line_intf_def example_line_def hw_id_of_def)
  ultimately show ?thesis
    using interfaces_loaded_or_overflow [of "replicate 5 example_line" "\<lambda>x. Some 7", OF _ h(2-4), of "\<lambda>x. 5"] h(1) by auto
qed

subsection \<open>The way of a frame\<close>

lemma first_readable:
  "find P [0..<n] = Some i \<longleftrightarrow> i < n \<and> P i \<and> (\<forall>j < i. \<not> P j)" for n :: nat
  by (auto simp: find_Some_iff)



definition one_intf_router :: router_t where
  "one_intf_router = example_router\<lparr>rt_interface := (rt_interface example_router)[0 := example_intf\<lparr>if_enabled := True, if_hw_fd := 5\<rparr>], rt_num_interfaces := 1\<rparr>"

definition frame_buffer :: "u8 list" where
  "frame_buffer = replicate 2000 0"



subsection \<open>The text of an interface\<close>

text \<open>The conversion \<^verbatim>\<open>%-ns\<close> pads a string with blanks.\<close>

definition pad :: "nat \<Rightarrow> string \<Rightarrow> string" where
  "pad n str = str @ replicate (n - length str) CHR '' ''"

definition intf_format :: "string \<Rightarrow> string \<Rightarrow> string \<Rightarrow> string \<Rightarrow> string" where
  "intf_format a b c d = pad 9 a @ ''  '' @ pad 17 b @ ''  '' @ pad 15 c @ ''  '' @ pad 6 d @ [CHR 0x0A]"

definition intf_header_to_string :: "nat \<Rightarrow> nat \<times> string" where
  "intf_header_to_string len = my_snprintf len (intf_format ''Interface'' ''MAC'' ''IP'' ''Status'')"

definition intf_to_string :: "interface_t \<Rightarrow> nat \<Rightarrow> nat \<times> string" where
  "intf_to_string intf len =
     (let mac = mac_to_string (if_mac intf); ip = ip_to_string (if_ip intf); status = (if if_enabled intf then ''Up'' else ''Down'')
      in my_snprintf len (intf_format (if_name intf) mac ip status))"

definition intf_neighbor_header_to_string :: "nat \<Rightarrow> nat \<times> string" where
  "intf_neighbor_header_to_string len =
     my_snprintf len (''  '' @ pad 15 ''Neighbor IP'' @ ''  '' @ pad 15 ''Neighbor Rtr ID'' @ ''  '' @ pad 18 ''Subnet'' @ ''  '' @ pad 24 ''Last Hello Time'' @ [CHR 0x0A])"

definition intf_neighbor_to_string :: "interface_t \<Rightarrow> nat \<Rightarrow> nat" where
  "intf_neighbor_to_string intf len = 0"

text \<open>The lengths that the header file gives for the buffers are enough, for every interface whose name fits its array.\<close>

abbreviation STR_INTF_HDR_MAX_LEN :: nat where "STR_INTF_HDR_MAX_LEN \<equiv> 55"
abbreviation STR_INTF_MAX_LEN :: nat where "STR_INTF_MAX_LEN \<equiv> 46 + SR_NAMELEN"

lemma length_pad: "length (pad n str) = max n (length str)"
  by (simp add: pad_def)

lemma my_snprintf_fits: "length text < sz \<Longrightarrow> my_snprintf sz text = (length text, text)"
  by (simp add: my_snprintf_def snprintf_def)

lemma ip_to_string_length: "length (ip_to_string ip) \<le> 15"
  by (simp add: ip_to_string_def snprintf_def)

lemma intf_header_fits: "fst (intf_header_to_string STR_INTF_HDR_MAX_LEN) = 54"
  unfolding intf_header_to_string_def by (subst my_snprintf_fits) (simp_all add: intf_format_def length_pad)

lemma intf_to_string_fits:
  assumes "length (if_name intf) < SR_NAMELEN"
  shows "fst (intf_to_string intf STR_INTF_MAX_LEN) > 0" "last (snd (intf_to_string intf STR_INTF_MAX_LEN)) = CHR 0x0A"
proof -
  let ?t = "intf_format (if_name intf) (mac_to_string (if_mac intf)) (ip_to_string (if_ip intf)) (if if_enabled intf then ''Up'' else ''Down'')"
  have "length ?t < STR_INTF_MAX_LEN" using assms ip_to_string_length [of "if_ip intf"] mac_to_string_fits [of "if_mac intf"] by (simp add: intf_format_def length_pad)
  then have "intf_to_string intf STR_INTF_MAX_LEN = (length ?t, ?t)" unfolding intf_to_string_def Let_def by (rule my_snprintf_fits)
  then show "fst (intf_to_string intf STR_INTF_MAX_LEN) > 0" "last (snd (intf_to_string intf STR_INTF_MAX_LEN)) = CHR 0x0A" by (simp_all add: intf_format_def)
qed

end
