(* ===== verification/Cli_Commands.thy ===== *)
theory Cli_Commands
  imports Cli_Ping Sr_Router
begin

text \<open>
  The commands of the command line interface (\<^verbatim>\<open>cli/cli.c\<close>), in the configuration for Mininet, and their dispatch by \<^verbatim>\<open>run_command\<close>
  (\<^verbatim>\<open>cli/cli_parser.y\<close>). All clients share one focus: the descriptor to which answers go. Whether a write to a descriptor succeeds is given
  by \<open>cl_open\<close>; a write that fails sends nothing. The memory and the time that a ping needs come from \<open>cli_os\<close>, and the end of the program for want of
  memory is the result \<open>None\<close>.
\<close>

subsection \<open>State\<close>

record cli_state =
  cl_shutdown :: bool
  cl_fd :: int
  cl_alive :: bool
  cl_pverbose :: int
  cl_verbose :: "int \<Rightarrow> bool"
  cl_skip_next_prompt :: bool
  cl_open :: "int \<Rightarrow> bool"
  cl_sent :: "(int \<times> string) list"
  cl_ping :: ping_state
  cl_router :: router_t

record cli_os =
  os_malloc :: "ping_state \<Rightarrow> u32 option"
  os_junk :: "ping_state \<Rightarrow> ping_t"
  os_now :: timeval
  os_host :: "u32 \<Rightarrow> string option"
  os_date :: string

definition line :: "string \<Rightarrow> string" where
  "line s = s @ [CHR 0x0A]"

text \<open>\<open>write_to\<close> is \<^verbatim>\<open>writenstr\<close> or \<^verbatim>\<open>writenf\<close>: the result says whether it was 0.\<close>

definition write_to :: "int \<Rightarrow> string \<Rightarrow> cli_state \<Rightarrow> bool \<times> cli_state" where
  "write_to fd str s = (if cl_open s fd then (True, s\<lparr>cl_sent := cl_sent s @ [(fd, str)]\<rparr>) else (False, s))"

subsection \<open>Sending\<close>

definition cli_send_str :: "string \<Rightarrow> cli_state \<Rightarrow> cli_state" where
  "cli_send_str str s =
     (if cl_alive s then let (ok, s) = write_to (cl_fd s) str s in if \<not> ok then s\<lparr>cl_alive := False\<rparr> else s
      else s)"

fun send_loop :: "string list \<Rightarrow> cli_state \<Rightarrow> bool \<times> cli_state" where
  "send_loop [] s = (True, s)"
| "send_loop (str # strs) s = (let (ok, s) = write_to (cl_fd s) str s in if ok then send_loop strs s else (False, s))"

definition cli_send_strs :: "string list \<Rightarrow> cli_state \<Rightarrow> cli_state" where
  "cli_send_strs strs s =
     (if \<not> cl_alive s then s
      else let (ok, s) = send_loop strs s in if \<not> ok then s\<lparr>cl_alive := False\<rparr> else s)"

definition cli_send_parse_error :: "string list \<Rightarrow> cli_state \<Rightarrow> cli_state" where
  "cli_send_parse_error strs s =
     (if cl_alive s then let (ok, s) = send_loop strs s in if \<not> ok then s\<lparr>cl_alive := False\<rparr> else s
      else s)"

definition cli_init :: "cli_state \<Rightarrow> cli_state" where
  "cli_init s = s\<lparr>cl_shutdown := False, cl_skip_next_prompt := False, cl_ping := cli_ping_init (cl_ping s)\<rparr>"

definition cli_focus_set :: "int \<Rightarrow> cli_state \<Rightarrow> cli_state" where
  "cli_focus_set sfd s = s\<lparr>cl_alive := True, cl_fd := sfd, cl_pverbose := sfd\<rparr>"

definition cli_send_welcome :: "cli_state \<Rightarrow> cli_state" where
  "cli_send_welcome s = cli_send_str (line ''You are now logged into the router CLI.'') s"

definition cli_send_prompt :: "cli_state \<Rightarrow> cli_state" where
  "cli_send_prompt s = (let s = (if \<not> cl_skip_next_prompt s then cli_send_str ''~> '' s else s) in s\<lparr>cl_skip_next_prompt := False\<rparr>)"

subsection \<open>Commands\<close>

definition cli_send_no_hw_str :: "cli_state \<Rightarrow> cli_state" where
  "cli_send_no_hw_str s = cli_send_str (line ''HW information is not available when not in CPU mode'') s"

definition cli_send_no_vns_str :: "cli_state \<Rightarrow> cli_state" where
  "cli_send_no_vns_str s = cli_send_str (line ''VNS information is not available when in Manual mode'') s"

definition cli_show_ip :: "cli_state \<Rightarrow> cli_state" where
  "cli_show_ip s = cli_send_str (line ''IP State:'') s"

definition cli_show_all :: "cli_state \<Rightarrow> cli_state" where
  "cli_show_all s = cli_show_ip s"

definition cli_show_opt_verbose :: "cli_state \<Rightarrow> cli_state" where
  "cli_show_opt_verbose s =
     (if cl_verbose s (cl_pverbose s) then cli_send_str (line ''Verbose: Enabled'') s else cli_send_str (line ''Verbose: Disabled'') s)"

definition cli_show_opt :: "cli_state \<Rightarrow> cli_state" where
  "cli_show_opt s = cli_show_opt_verbose s"

definition cli_show_ospf :: "cli_state \<Rightarrow> cli_state" where
  "cli_show_ospf s = cli_send_str (line ''Topology:'') (cli_send_str (line ''Neighbor Information:'') s)"

definition cli_manip_ip_intf_set :: "string \<Rightarrow> u32 \<Rightarrow> u32 \<Rightarrow> cli_state \<Rightarrow> cli_state" where
  "cli_manip_ip_intf_set intf_name ip subnet_mask s =
     (case router_lookup_interface_via_name (cl_router s) intf_name of
        Some i \<Rightarrow> s\<lparr>cl_router := (cl_router s)\<lparr>rt_interface := (rt_interface (cl_router s))[i := (rt_interface (cl_router s) ! i)\<lparr>if_ip := ip, if_subnet_mask := subnet_mask\<rparr>]\<rparr>\<rparr>
      | None \<Rightarrow> cli_send_strs [intf_name, line '' is not a valid interface''] s)"

definition cli_date :: "cli_os \<Rightarrow> cli_state \<Rightarrow> cli_state" where
  "cli_date E s = cli_send_str (os_date E) s"

definition cli_exit :: "cli_state \<Rightarrow> cli_state" where
  "cli_exit s = (cli_send_str (line ''Goodbye!'') s)\<lparr>cl_alive := False\<rparr>"

fun self_loop :: "u32 \<Rightarrow> nat list \<Rightarrow> cli_state \<Rightarrow> bool \<times> cli_state" where
  "self_loop ip [] s = (False, s)"
| "self_loop ip (i # is) s =
     (let intf = rt_interface (cl_router s) ! i
      in if ip = if_ip intf then
           (True, if if_enabled intf then cli_send_str (line ''Your interface is up.'') s else cli_send_str (line ''Your interface is down.'') s)
         else self_loop ip is s)"

definition cli_ping_handle_self :: "u32 \<Rightarrow> cli_state \<Rightarrow> bool \<times> cli_state" where
  "cli_ping_handle_self ip s = self_loop ip [0..<rt_num_interfaces (cl_router s)] s"

text \<open>\<^verbatim>\<open>cli_ping_request\<close> with the memory and the time it gets and the line it sends.\<close>

definition request_ping :: "cli_os \<Rightarrow> u32 \<Rightarrow> cli_state \<Rightarrow> cli_state option" where
  "request_ping E ip s = do {
     a \<leftarrow> os_malloc E (cl_ping s);
     p \<leftarrow> cli_ping_request a (os_junk E (cl_ping s)) (os_now E) (os_now E) (cl_fd s) ip (cl_ping s);
     let s = s\<lparr>cl_ping := p\<rparr>;
     let (ok, s) = write_to (cl_fd s) (case os_host E ip of None \<Rightarrow> line (''PING '' @ ip_to_string ip) | Some h \<Rightarrow> line (''PING '' @ ip_to_string ip @ '' ('' @ h @ '')'')) s;
     Some s
   }"

definition cli_ping :: "cli_os \<Rightarrow> u32 \<Rightarrow> cli_state \<Rightarrow> cli_state option" where
  "cli_ping E ip s =
     (let (self, s) = cli_ping_handle_self ip s
      in if self then Some s
         else do {
           s \<leftarrow> request_ping E ip s;
           Some (s\<lparr>cl_skip_next_prompt := True\<rparr>)
         })"

fun flood_loop :: "cli_os \<Rightarrow> nat \<Rightarrow> u32 \<Rightarrow> cli_state \<Rightarrow> cli_state option" where
  "flood_loop E 0 ip s = Some s"
| "flood_loop E (Suc n) ip s = do {
     s \<leftarrow> request_ping E ip s;
     flood_loop E n ip s
   }"

definition cli_ping_flood :: "cli_os \<Rightarrow> u32 \<Rightarrow> u32 \<Rightarrow> cli_state \<Rightarrow> cli_state option" where
  "cli_ping_flood E ip cnt s =
     (let (self, s) = cli_ping_handle_self ip s
      in if self then Some s
         else do {
           let (ok, s) = write_to (cl_fd s) (line (''Will ping '' @ ip_to_string ip @ '' '' @ dec (unat cnt) @ '' times ...'')) s;
           let s = (if \<not> ok then s\<lparr>cl_alive := False\<rparr> else s);
           s \<leftarrow> flood_loop E (unat cnt) ip s;
           Some (s\<lparr>cl_skip_next_prompt := True\<rparr>)
         })"

text \<open>When \<^verbatim>\<open>cli_ping_destroy\<close> returns at all is the subject of \<open>Cli_Shutdown\<close>; this is the case that it does.\<close>

definition cli_shutdown :: "cli_state \<Rightarrow> cli_state option" where
  "cli_shutdown s = do {
     let s = (cli_send_str (line ''Shutting down the router ...'') s)\<lparr>cl_shutdown := True\<rparr>;
     p \<leftarrow> cli_ping_destroy (cl_ping s);
     Some (s\<lparr>cl_ping := p\<rparr>)
   }"

definition cli_traceroute :: "u32 \<Rightarrow> cli_state \<Rightarrow> cli_state" where
  "cli_traceroute ip s = cli_send_str (line ''traceroute is not yet operational.'') s"

definition cli_opt_verbose :: "bool \<Rightarrow> cli_state \<Rightarrow> cli_state" where
  "cli_opt_verbose on s =
     (if on then
        if cl_verbose s (cl_pverbose s) then cli_send_str (line ''Verbose mode is already enabled.'') s
        else cli_send_str (line ''Verbose mode is now enabled.'') (s\<lparr>cl_verbose := (cl_verbose s)(cl_pverbose s := True)\<rparr>)
      else
        if cl_verbose s (cl_pverbose s) then cli_send_str (line ''Verbose mode is now disabled.'') (s\<lparr>cl_verbose := (cl_verbose s)(cl_pverbose s := False)\<rparr>)
        else cli_send_str (line ''Verbose mode is already disabled.'') s)"

text \<open>
  The command that the parser has found, or a token error. \<open>Stub\<close> stands for no command and for the commands whose function is empty in
  the stub (the ARP cache, routes, OSPF, and switching an interface on or off).
\<close>

datatype command =
    Show_All | Show_Hw | Show_Ip | Show_Opt | Show_Ospf | Show_Vns | Stub | Intf_Set string u32 u32 | Date | Exit
  | Ping u32 | Ping_Flood u32 u32 | Shutdown | Traceroute u32 | Opt_Verbose bool | Token_Error string

fun run_command :: "cli_os \<Rightarrow> command \<Rightarrow> cli_state \<Rightarrow> cli_state option" where
  "run_command E Show_All s = Some (cli_show_all s)"
| "run_command E Show_Hw s = Some (cli_send_no_hw_str s)"
| "run_command E Show_Ip s = Some (cli_show_ip s)"
| "run_command E Show_Opt s = Some (cli_show_opt s)"
| "run_command E Show_Ospf s = Some (cli_show_ospf s)"
| "run_command E Show_Vns s = Some (cli_send_no_vns_str s)"
| "run_command E Stub s = Some s"
| "run_command E (Intf_Set name ip msk) s = Some (cli_manip_ip_intf_set name ip msk s)"
| "run_command E Date s = Some (cli_date E s)"
| "run_command E Exit s = Some (cli_exit s)"
| "run_command E (Ping ip) s = cli_ping E ip s"
| "run_command E (Ping_Flood ip cnt) s = cli_ping_flood E ip cnt s"
| "run_command E Shutdown s = cli_shutdown s"
| "run_command E (Traceroute ip) s = Some (cli_traceroute ip s)"
| "run_command E (Opt_Verbose on) s = Some (cli_opt_verbose on s)"
| "run_command E (Token_Error tok) s = Some (if tok = [] then s else cli_send_parse_error [''Unexecpted Token Error: '', tok] s)"

subsection \<open>Commands stay with their client\<close>

text \<open>Between two states only the focused client has been sent something, only its verbose flag may have changed, and no client is revived.\<close>

definition focus_only :: "cli_state \<Rightarrow> cli_state \<Rightarrow> bool" where
  "focus_only s s' \<longleftrightarrow> cl_fd s' = cl_fd s \<and> cl_pverbose s' = cl_pverbose s \<and> cl_open s' = cl_open s \<and> (\<forall>k. k \<noteq> cl_pverbose s \<longrightarrow> cl_verbose s' k = cl_verbose s k) \<and>
     (\<exists>ts. cl_sent s' = cl_sent s @ map (Pair (cl_fd s)) ts) \<and> (cl_alive s' \<longrightarrow> cl_alive s)"

text \<open>Only something has been sent, and nothing if the client was dead.\<close>

definition said :: "cli_state \<Rightarrow> cli_state \<Rightarrow> bool" where
  "said s s' \<longleftrightarrow> (\<exists>ts alive. s' = s\<lparr>cl_sent := cl_sent s @ map (Pair (cl_fd s)) ts, cl_alive := alive\<rparr> \<and> (alive \<longrightarrow> cl_alive s) \<and> (\<not> cl_alive s \<longrightarrow> ts = []))"

lemma saidI: "s' = s\<lparr>cl_sent := cl_sent s @ map (Pair (cl_fd s)) ts, cl_alive := alive\<rparr> \<Longrightarrow> (alive \<longrightarrow> cl_alive s) \<Longrightarrow> (\<not> cl_alive s \<longrightarrow> ts = []) \<Longrightarrow> said s s'"
  unfolding said_def by blast

lemma said_refl [simp]: "said s s"
  by (rule saidI [where ts = "[]" and alive = "cl_alive s"]) simp_all

lemma said_trans: "said a b \<Longrightarrow> said b c \<Longrightarrow> said a c"
proof -
  assume "said a b" "said b c"
  then obtain ts alive us alive' where "b = a\<lparr>cl_sent := cl_sent a @ map (Pair (cl_fd a)) ts, cl_alive := alive\<rparr>" "alive \<longrightarrow> cl_alive a" "\<not> cl_alive a \<longrightarrow> ts = []"
    "c = b\<lparr>cl_sent := cl_sent b @ map (Pair (cl_fd b)) us, cl_alive := alive'\<rparr>" "alive' \<longrightarrow> cl_alive b" "\<not> cl_alive b \<longrightarrow> us = []" unfolding said_def by blast
  then show "said a c" by (intro saidI [where ts = "ts @ us" and alive = alive']) auto
qed

lemma said_keeps:
  assumes "said s s'"
  shows "cl_fd s' = cl_fd s" "cl_ping s' = cl_ping s" "cl_router s' = cl_router s" "cl_shutdown s' = cl_shutdown s" "cl_skip_next_prompt s' = cl_skip_next_prompt s"
    "focus_only s s'" "\<not> cl_alive s \<Longrightarrow> cl_sent s' = cl_sent s"
  using assms by (auto simp: said_def focus_only_def)

lemma said_send_str [simp]: "said s (cli_send_str str s)"
proof (cases "cl_alive s \<and> cl_open s (cl_fd s)")
  case True
  then show ?thesis by (intro saidI [where ts = "[str]" and alive = True]) (auto simp: cli_send_str_def write_to_def)
next
  case False
  then show ?thesis by (intro saidI [where ts = "[]" and alive = False]) (auto simp: cli_send_str_def write_to_def)
qed

lemma send_loop_sends: "\<exists>ts. snd (send_loop strs s) = s\<lparr>cl_sent := cl_sent s @ map (Pair (cl_fd s)) ts\<rparr>"
proof (induction strs arbitrary: s)
  case Nil
  show ?case by (intro exI [of _ "[]"]) simp
next
  case (Cons x xs)
  obtain ts where "snd (send_loop xs (s\<lparr>cl_sent := cl_sent s @ [(cl_fd s, x)]\<rparr>)) = s\<lparr>cl_sent := cl_sent s @ map (Pair (cl_fd s)) (x # ts)\<rparr>" using Cons.IH [of "s\<lparr>cl_sent := cl_sent s @ [(cl_fd s, x)]\<rparr>"] by auto
  then show ?case by (cases "cl_open s (cl_fd s)") (auto simp: write_to_def intro: exI [of _ "x # ts"] exI [of _ "[]"])
qed

lemma said_send_strs [simp]: "said s (cli_send_strs strs s)" "said s (cli_send_parse_error strs s)"
proof -
  obtain ts where ts: "snd (send_loop strs s) = s\<lparr>cl_sent := cl_sent s @ map (Pair (cl_fd s)) ts\<rparr>" using send_loop_sends by blast
  have "said s (let (ok, t) = send_loop strs s in if \<not> ok then t\<lparr>cl_alive := False\<rparr> else t)" if "cl_alive s"
    using ts that by (intro saidI [where ts = ts and alive = "fst (send_loop strs s)"]) (auto simp: Let_def split: prod.splits)
  then show "said s (cli_send_strs strs s)" "said s (cli_send_parse_error strs s)" by (auto simp: cli_send_strs_def cli_send_parse_error_def)
qed

lemma focus_only_refl [simp]: "focus_only s s"
  by (simp add: focus_only_def)

lemma focus_only_trans: "focus_only a b \<Longrightarrow> focus_only b c \<Longrightarrow> focus_only a c"
proof -
  assume "focus_only a b" "focus_only b c"
  then obtain ts us where "cl_sent b = cl_sent a @ map (Pair (cl_fd a)) ts" "cl_sent c = cl_sent b @ map (Pair (cl_fd b)) us" by (auto simp: focus_only_def)
  then have "cl_sent c = cl_sent a @ map (Pair (cl_fd a)) (ts @ us)" using \<open>focus_only a b\<close> by (simp add: focus_only_def)
  with \<open>focus_only a b\<close> \<open>focus_only b c\<close> show "focus_only a c" unfolding focus_only_def by metis
qed

lemma focus_only_write: "write_to (cl_fd s) str s = (ok, s') \<Longrightarrow> focus_only s s' \<and> cl_ping s' = cl_ping s \<and> cl_shutdown s' = cl_shutdown s \<and> cl_fd s' = cl_fd s \<and> cl_router s' = cl_router s"
  by (auto simp: write_to_def focus_only_def split: if_splits intro: exI [of _ "[str]"])


subsection \<open>Pings of a command\<close>

lemma self_loop_said: "self_loop ip is s = (b, s') \<Longrightarrow> said s s' \<and> (b \<longleftrightarrow> (\<exists>i \<in> set is. if_ip (rt_interface (cl_router s) ! i) = ip)) \<and> (\<not> b \<longrightarrow> s' = s)"
  by (induction ip "is" s rule: self_loop.induct) (auto simp: Let_def split: if_splits)

definition own_ip :: "cli_state \<Rightarrow> u32 \<Rightarrow> bool" where
  "own_ip s ip \<longleftrightarrow> (\<exists>i < rt_num_interfaces (cl_router s). if_ip (rt_interface (cl_router s) ! i) = ip)"

lemma handle_self: "cli_ping_handle_self ip s = (b, s') \<Longrightarrow> said s s' \<and> (b \<longleftrightarrow> own_ip s ip) \<and> (\<not> b \<longrightarrow> s' = s)"
  unfolding cli_ping_handle_self_def own_ip_def by (drule self_loop_said) auto

text \<open>There is memory for \<open>limit\<close> pings.\<close>

definition os_ok :: "nat \<Rightarrow> cli_os \<Rightarrow> bool" where
  "os_ok limit E \<longleftrightarrow> clock (os_now E) \<and> (\<forall>p. card (dom (ping_heap p)) < limit \<longrightarrow> (\<exists>a. os_malloc E p = Some a \<and> ping_heap p a = None))"

abbreviation pending :: "cli_state \<Rightarrow> nat" where
  "pending s \<equiv> card (dom (ping_heap (cl_ping s)))"

lemma ping_rep_card: "ping_rep p xs \<Longrightarrow> card (dom (ping_heap p)) = length xs"
  unfolding ping_rep_def by (metis distinct_card length_map set_map)

text \<open>The requests \<open>q\<close> of the focused client have been added to the list of pings.\<close>

definition asked :: "(int \<times> u32 \<times> u16) list \<Rightarrow> cli_state \<Rightarrow> nat \<Rightarrow> cli_state \<Rightarrow> bool" where
  "asked rq s n s' \<longleftrightarrow> (\<exists>q. ping_inv (rq @ q) (cl_ping s') \<and> length q = n \<and> (\<forall>x \<in> set q. fst x = cl_fd s)) \<and> focus_only s s' \<and> cl_shutdown s' = cl_shutdown s \<and>
     pending s' = pending s + n"

lemma asked_none: "ping_inv rq (cl_ping s) \<Longrightarrow> said s s' \<Longrightarrow> asked rq s 0 s'"
  using said_keeps [of s s'] by (auto simp: asked_def)

lemma request_ping_asked:
  assumes "os_ok limit E" "ping_inv rq (cl_ping s)" "pending s < limit"
  shows "\<exists>s' k. request_ping E ip s = Some s' \<and> ping_inv (rq @ [(cl_fd s, ip, k)]) (cl_ping s') \<and> focus_only s s' \<and> cl_shutdown s' = cl_shutdown s \<and> cl_fd s' = cl_fd s \<and>
    pending s' = pending s + 1"
proof -
  obtain a where a: "os_malloc E (cl_ping s) = Some a" "ping_heap (cl_ping s) a = None" "clock (os_now E)" using assms(1,3) by (auto simp: os_ok_def)
  obtain xs where xs: "ping_rep (cl_ping s) xs" "in_order xs" "mset rq = mset (map fst (ping_out (cl_ping s))) + mset (map key xs)" using assms(2) by (auto simp: ping_inv_def)
  obtain p x where p: "cli_ping_request a (os_junk E (cl_ping s)) (os_now E) (os_now E) (cl_fd s) ip (cl_ping s) = Some p" "ping_rep p (ins_ping x xs)" "in_order (ins_ping x xs)"
    "key x = (cl_fd s, ip, ping_count (cl_ping s))" "ping_out p = ping_out (cl_ping s)" using request_keeps [OF xs(1,2) a(2,3)] by blast
  note m = mset_ins_ping [of x xs]
  then have "mset (map key (ins_ping x xs)) = add_mset (key x) (mset (map key xs))" by (simp add: mset_map)
  then have inv: "ping_inv (rq @ [(cl_fd s, ip, ping_count (cl_ping s))]) p" using p xs(3) unfolding ping_inv_def by (intro exI [of _ "ins_ping x xs"]) simp
  have c: "card (dom (ping_heap p)) = pending s + 1" using ping_rep_card [OF p(2)] ping_rep_card [OF xs(1)] mset_eq_length [OF m] by simp
  let ?t = "case os_host E ip of None \<Rightarrow> line (''PING '' @ ip_to_string ip) | Some h \<Rightarrow> line (''PING '' @ ip_to_string ip @ '' ('' @ h @ '')'')"
  obtain ok s' where w: "write_to (cl_fd (s\<lparr>cl_ping := p\<rparr>)) ?t (s\<lparr>cl_ping := p\<rparr>) = (ok, s')" by fastforce
  have "request_ping E ip s = Some s'" using a(1) p(1) w by (simp add: request_ping_def Let_def)
  moreover have "focus_only s (s\<lparr>cl_ping := p\<rparr>)" by (simp add: focus_only_def)
  ultimately show ?thesis using inv c focus_only_write [OF w] focus_only_trans [of s "s\<lparr>cl_ping := p\<rparr>" s'] by auto
qed

lemma flood_loop_asked:
  assumes "os_ok limit E"
  shows "ping_inv rq (cl_ping s) \<Longrightarrow> pending s + n \<le> limit \<Longrightarrow> \<exists>s'. flood_loop E n ip s = Some s' \<and> asked rq s n s'"
proof (induction n arbitrary: rq s)
  case 0
  then show ?case using asked_none [of rq s s] by simp
next
  case (Suc n)
  then have "pending s < limit" by simp
  then obtain s1 k where s1: "request_ping E ip s = Some s1" "ping_inv (rq @ [(cl_fd s, ip, k)]) (cl_ping s1)" "focus_only s s1" "cl_shutdown s1 = cl_shutdown s" "cl_fd s1 = cl_fd s" "pending s1 = pending s + 1"
    using request_ping_asked [OF assms Suc.prems(1), of ip] by blast
  obtain s2 where s2: "flood_loop E n ip s1 = Some s2" "asked (rq @ [(cl_fd s, ip, k)]) s1 n s2" using Suc.IH [OF s1(2)] Suc.prems(2) s1(6) by auto
  then obtain q where q: "ping_inv ((rq @ [(cl_fd s, ip, k)]) @ q) (cl_ping s2)" "length q = n" "\<forall>x \<in> set q. fst x = cl_fd s" by (auto simp: asked_def s1(5))
  have "asked rq s (Suc n) s2" unfolding asked_def
    using q s2(2) s1(3,4,6) focus_only_trans [of s s1 s2] by (intro conjI exI [of _ "(cl_fd s, ip, k) # q"]) (auto simp: asked_def)
  then show ?case using s1(1) s2(1) by simp
qed

fun wanted :: "command \<Rightarrow> cli_state \<Rightarrow> nat" where
  "wanted (Ping ip) s = (if own_ip s ip then 0 else 1)"
| "wanted (Ping_Flood ip cnt) s = (if own_ip s ip then 0 else unat cnt)"
| "wanted _ s = 0"

lemma cli_ping_asked:
  assumes "os_ok limit E" "ping_inv rq (cl_ping s)" "pending s + wanted (Ping ip) s \<le> limit"
  shows "\<exists>s'. cli_ping E ip s = Some s' \<and> asked rq s (wanted (Ping ip) s) s'"
proof -
  obtain b s1 where b: "cli_ping_handle_self ip s = (b, s1)" by fastforce
  note h = handle_self [OF b]
  show ?thesis
  proof (cases b)
    case True
    then show ?thesis using b h asked_none [OF assms(2)] by (simp add: cli_ping_def)
  next
    case False
    have "asked rq s 1 (s'\<lparr>cl_skip_next_prompt := True\<rparr>)" if "ping_inv (rq @ [(cl_fd s, ip, k)]) (cl_ping s')" "focus_only s s'" "cl_shutdown s' = cl_shutdown s" "pending s' = pending s + 1" for s' k
      using that unfolding asked_def focus_only_def by (intro conjI exI [of _ "[(cl_fd s, ip, k)]"]) auto
    moreover have "pending s < limit" using assms(3) h False by simp
    ultimately show ?thesis using request_ping_asked [OF assms(1,2), of ip] b h False by (fastforce simp: cli_ping_def)
  qed
qed

lemma cli_ping_flood_asked:
  assumes "os_ok limit E" "ping_inv rq (cl_ping s)" "pending s + wanted (Ping_Flood ip cnt) s \<le> limit"
  shows "\<exists>s'. cli_ping_flood E ip cnt s = Some s' \<and> asked rq s (wanted (Ping_Flood ip cnt) s) s'"
proof -
  obtain b s1 where b: "cli_ping_handle_self ip s = (b, s1)" by fastforce
  note h = handle_self [OF b]
  show ?thesis
  proof (cases b)
    case True
    then show ?thesis using b h asked_none [OF assms(2)] by (simp add: cli_ping_flood_def)
  next
    case False
    let ?t = "line (''Will ping '' @ ip_to_string ip @ '' '' @ dec (unat cnt) @ '' times ...'')"
    obtain ok s2 where w: "write_to (cl_fd s) ?t s = (ok, s2)" by fastforce
    let ?s3 = "if \<not> ok then s2\<lparr>cl_alive := False\<rparr> else s2"
    have s3: "focus_only s ?s3" "cl_ping ?s3 = cl_ping s" "cl_shutdown ?s3 = cl_shutdown s" "cl_fd ?s3 = cl_fd s" using focus_only_write [OF w] by (auto simp: focus_only_def)
    have "asked rq s n (s'\<lparr>cl_skip_next_prompt := True\<rparr>)" if a: "asked rq ?s3 n s'" for s' n
    proof -
      have "focus_only s s'" using a focus_only_trans [OF s3(1)] by (simp only: asked_def)
      then show ?thesis using a s3 by (auto simp: asked_def focus_only_def)
    qed
    then show ?thesis using flood_loop_asked [OF assms(1), of rq ?s3 "unat cnt" ip] s3(2) assms(2,3) b h w False by (auto simp: cli_ping_flood_def Let_def)
  qed
qed

fun is_ping :: "command \<Rightarrow> bool" where
  "is_ping (Ping ip) = True"
| "is_ping (Ping_Flood ip cnt) = True"
| "is_ping _ = False"

lemma shutdown_returns:
  assumes "ping_inv rq (cl_ping s)"
  shows "\<exists>s'. cli_shutdown s = Some s' \<and> focus_only s s' \<and> cl_shutdown s' \<and> (\<not> cl_alive s \<longrightarrow> cl_sent s' = cl_sent s)"
proof -
  let ?s = "cli_send_str (line ''Shutting down the router ...'') s"
  note k = said_keeps [OF said_send_str [of s "line ''Shutting down the router ...''"]]
  obtain p where "cli_ping_destroy (cl_ping s) = Some p" using assms destroy_loop_rep unfolding ping_inv_def cli_ping_destroy_def by blast
  then have "cli_shutdown s = Some (?s\<lparr>cl_shutdown := True, cl_ping := p\<rparr>)" using k(2) by (simp add: cli_shutdown_def Let_def)
  moreover have "focus_only ?s (?s\<lparr>cl_shutdown := True, cl_ping := p\<rparr>)" by (simp add: focus_only_def)
  ultimately show ?thesis using k(7) focus_only_trans [OF k(6)] by auto
qed

text \<open>Every other command only sends, after it may have changed the verbose flag of the focus.\<close>

lemma other_command_said:
  assumes "\<not> (is_ping c \<or> c = Shutdown)"
  obtains s1 s2 where "run_command E c s = Some s2" "focus_only s s1" "cl_ping s1 = cl_ping s" "cl_shutdown s1 = cl_shutdown s" "cl_alive s1 = cl_alive s" "cl_sent s1 = cl_sent s" "said s1 s2"
proof (cases c)
  case (Opt_Verbose on)
  let ?s1 = "s\<lparr>cl_verbose := (cl_verbose s)(cl_pverbose s := on)\<rparr>"
  show ?thesis
  proof (cases "cl_verbose s (cl_pverbose s) = on")
    case True
    then show ?thesis using Opt_Verbose by (intro that [of _ s]) (auto simp: cli_opt_verbose_def)
  next
    case False
    then show ?thesis using Opt_Verbose by (intro that [of _ ?s1]) (auto simp: cli_opt_verbose_def focus_only_def)
  qed
next
  case Exit
  have "said s (cli_exit s)" unfolding cli_exit_def by (rule said_trans [OF said_send_str], rule saidI [where ts = "[]" and alive = False]) simp_all
  with Exit show ?thesis by (intro that [of _ s]) simp_all
next
  case Show_Ospf
  have "said s (cli_show_ospf s)" unfolding cli_show_ospf_def by (rule said_trans [OF said_send_str said_send_str])
  with Show_Ospf show ?thesis by (intro that [of _ s]) simp_all
qed (use assms in \<open>auto simp: cli_show_all_def cli_show_ip_def cli_send_no_hw_str_def cli_send_no_vns_str_def cli_show_opt_def cli_show_opt_verbose_def cli_manip_ip_intf_set_def
  router_lookup_interface_via_name_def cli_date_def cli_traceroute_def intro!: that [of _ s]\<close>)



definition small_os :: cli_os where
  "small_os = \<lparr>os_malloc = (\<lambda>p. if ping_heap p 8 = None then Some 8 else None),
     os_junk = (\<lambda>p. \<lparr>pg_fd = 0, pg_dst_ip = 0, pg_seq = 0, pg_send_time = \<lparr>tv_sec = 0, tv_usec = 0\<rparr>, pg_expire_time = \<lparr>tv_sec = 0, tv_usec = 0\<rparr>, pg_prev = None, pg_next = None\<rparr>),
     os_now = \<lparr>tv_sec = 1000, tv_usec = 0\<rparr>, os_host = (\<lambda>ip. None), os_date = []\<rparr>"

definition one_client :: cli_state where
  "one_client = \<lparr>cl_shutdown = False, cl_fd = 3, cl_alive = True, cl_pverbose = 3, cl_verbose = (\<lambda>k. False), cl_skip_next_prompt = False, cl_open = (\<lambda>k. True),
     cl_sent = [], cl_ping = ping_example, cl_router = example_router\<rparr>"

lemma small_os_ok: "os_ok 1 small_os"
proof -
  have "ping_heap p 8 = None" if "card (dom (ping_heap p)) < 1" for p
    using that by (simp add: card_eq_0_iff)
  then show ?thesis by (simp add: os_ok_def small_os_def clock_def normal_def)
qed


subsection \<open>Replies\<close>

text \<open>What \<^verbatim>\<open>cli_ping_feedback\<close> sends for a ping that has been answered or has expired; \<open>ms\<close> is the text of the time that has passed.\<close>

definition feedback_sends :: "string \<Rightarrow> ping_t \<Rightarrow> bool \<Rightarrow> cli_state \<Rightarrow> cli_state" where
  "feedback_sends ms p worked s =
     (let ip = ip_to_string (pg_dst_ip p); sq = dec (unat (ntohs (pg_seq p)));
          (ok, s) = write_to (pg_fd p)
            (if worked then line (''REPLY from '' @ ip @ '': seq='' @ sq @ '', time='' @ ms @ ''ms'')
             else line (''TIMEOUT: Ping to '' @ ip @ '': seq='' @ sq @ '' timed out (time='' @ ms @ ''ms)'')) s
      in cli_send_prompt s)"

text \<open>The message goes to the client of the ping, but the prompt to the client that has the focus, which may be another one.\<close>

lemma feedback_prompts_focus:
  assumes "cl_alive s" "\<not> cl_skip_next_prompt s" "cl_open s (cl_fd s)" "pg_fd p \<noteq> cl_fd s"
  shows "filter (\<lambda>m. snd m = ''~> '') (drop (length (cl_sent s)) (cl_sent (feedback_sends ms p worked s))) = [(cl_fd s, ''~> '')]"
  using assms by (simp add: feedback_sends_def cli_send_prompt_def cli_send_str_def write_to_def line_def Let_def)

end
