(* ===== verification/Sr_Dumper.thy ===== *)
theory Sr_Dumper
  imports Sr_Common "HOL-Library.Monad_Syntax"
begin

text \<open>
  The log of packets in the format of tcpdump (\<^verbatim>\<open>sr_dumper.c\<close>). An open file is the list of the bytes that have been written to it; a
  structure is written as its bytes in memory, little-endian and without padding. Reading past the end of a buffer is the result \<open>None\<close>.
\<close>

subsection \<open>Writing\<close>

unbundle bit_operations_syntax

record pcap_file_header =
  ph_magic :: u32
  ph_version_major :: u16
  ph_version_minor :: u16
  ph_thiszone :: u32
  ph_sigfigs :: u32
  ph_snaplen :: u32
  ph_linktype :: u32

record pcap_sf_pkthdr =
  pk_ts :: timeval
  pk_caplen :: u32
  pk_len :: u32

abbreviation SR_PACKET_DUMP_SIZE :: int where "SR_PACKET_DUMP_SIZE \<equiv> 1514"

definition le16 :: "u16 \<Rightarrow> u8 list" where
  "le16 w = [ucast w, ucast (drop_bit 8 w)]"

definition le32 :: "u32 \<Rightarrow> u8 list" where
  "le32 w = [ucast w, ucast (drop_bit 8 w), ucast (drop_bit 16 w), ucast (drop_bit 24 w)]"

definition file_header_bytes :: "pcap_file_header \<Rightarrow> u8 list" where
  "file_header_bytes h = le32 (ph_magic h) @ le16 (ph_version_major h) @ le16 (ph_version_minor h) @ le32 (ph_thiszone h) @
     le32 (ph_sigfigs h) @ le32 (ph_snaplen h) @ le32 (ph_linktype h)"

definition pkthdr_bytes :: "pcap_sf_pkthdr \<Rightarrow> u8 list" where
  "pkthdr_bytes h = le32 (tv_sec (pk_ts h)) @ le32 (tv_usec (pk_ts h)) @ le32 (pk_caplen h) @ le32 (pk_len h)"

definition file_header :: "u32 \<Rightarrow> u32 \<Rightarrow> u32 \<Rightarrow> pcap_file_header" where
  "file_header linktype thiszone snaplen =
     \<lparr>ph_magic = 0xa1b2c3d4, ph_version_major = 2, ph_version_minor = 4, ph_thiszone = thiszone, ph_sigfigs = 0, ph_snaplen = snaplen, ph_linktype = linktype\<rparr>"

definition sf_write_header :: "u8 list \<Rightarrow> u32 \<Rightarrow> u32 \<Rightarrow> u32 \<Rightarrow> u8 list" where
  "sf_write_header fp linktype thiszone snaplen = fp @ file_header_bytes (file_header linktype thiszone snaplen)"

text \<open>\<open>out\<close>: what the standard output, the file named by a dash, has got so far; \<open>can_open\<close>: whether \<^verbatim>\<open>fopen\<close> succeeds. A NULL result is \<open>None\<close>.\<close>

definition sr_dump_open :: "u8 list \<Rightarrow> (string \<Rightarrow> bool) \<Rightarrow> string \<Rightarrow> u32 \<Rightarrow> u32 \<Rightarrow> u8 list option" where
  "sr_dump_open out can_open fname thiszone snaplen =
     (if fname = ''-'' then Some (sf_write_header out 1 thiszone snaplen)
      else if can_open fname then Some (sf_write_header [] 1 thiszone snaplen) else None)"

definition sr_dump :: "u8 list \<Rightarrow> pcap_sf_pkthdr \<Rightarrow> u8 list \<Rightarrow> u8 list option" where
  "sr_dump fp h sp =
     (if unat (pk_caplen h) > length sp then None
      else Some (fp @ pkthdr_bytes h @ take (unat (pk_caplen h)) sp))"

definition dump_size :: "int \<Rightarrow> int" where
  "dump_size len = (if SR_PACKET_DUMP_SIZE < len then SR_PACKET_DUMP_SIZE else len)"

text \<open>\<open>logfile\<close> is \<open>None\<close> when there is no log.\<close>

definition sr_log_packet :: "timeval \<Rightarrow> u8 list option \<Rightarrow> u8 list \<Rightarrow> int \<Rightarrow> u8 list option option" where
  "sr_log_packet now logfile buf len =
     (case logfile of
        None \<Rightarrow> Some None
      | Some fp \<Rightarrow> do {
          let size = dump_size len;
          let h = \<lparr>pk_ts = now, pk_caplen = word_of_int size, pk_len = (if size < SR_PACKET_DUMP_SIZE then word_of_int size else word_of_int SR_PACKET_DUMP_SIZE)\<rparr>;
          fp \<leftarrow> sr_dump fp h buf;
          Some (Some fp)
        })"

text \<open>A number of packets, each with the time at which it is logged.\<close>

fun log_all :: "u8 list option \<Rightarrow> (timeval \<times> u8 list) list \<Rightarrow> u8 list option option" where
  "log_all logfile [] = Some logfile"
| "log_all logfile ((now, p) # ps) = do {
     logfile \<leftarrow> sr_log_packet now logfile p (int (length p));
     log_all logfile ps
   }"

subsection \<open>Reading\<close>

text \<open>What a reader of the format, written from its description, finds in a file.\<close>

fun rd16 :: "u8 list \<Rightarrow> (u16 \<times> u8 list) option" where
  "rd16 (a # b # xs) = Some (ucast a OR push_bit 8 (ucast b), xs)"
| "rd16 _ = None"

fun rd32 :: "u8 list \<Rightarrow> (u32 \<times> u8 list) option" where
  "rd32 (a # b # c # d # xs) = Some (ucast a OR push_bit 8 (ucast b) OR push_bit 16 (ucast c) OR push_bit 24 (ucast d), xs)"
| "rd32 _ = None"

definition rd_file_header :: "u8 list \<Rightarrow> (pcap_file_header \<times> u8 list) option" where
  "rd_file_header xs = do {
     (m, xs) \<leftarrow> rd32 xs; (v, xs) \<leftarrow> rd16 xs; (w, xs) \<leftarrow> rd16 xs; (z, xs) \<leftarrow> rd32 xs; (s, xs) \<leftarrow> rd32 xs; (n, xs) \<leftarrow> rd32 xs; (l, xs) \<leftarrow> rd32 xs;
     Some (\<lparr>ph_magic = m, ph_version_major = v, ph_version_minor = w, ph_thiszone = z, ph_sigfigs = s, ph_snaplen = n, ph_linktype = l\<rparr>, xs)
   }"

definition rd_record :: "u8 list \<Rightarrow> ((pcap_sf_pkthdr \<times> u8 list) \<times> u8 list) option" where
  "rd_record xs = do {
     (s, xs) \<leftarrow> rd32 xs; (u, xs) \<leftarrow> rd32 xs; (c, xs) \<leftarrow> rd32 xs; (n, xs) \<leftarrow> rd32 xs;
     if unat c \<le> length xs then Some ((\<lparr>pk_ts = \<lparr>tv_sec = s, tv_usec = u\<rparr>, pk_caplen = c, pk_len = n\<rparr>, take (unat c) xs), drop (unat c) xs)
     else None
   }"

lemma rd32_shorter: "rd32 xs = Some (w, ys) \<Longrightarrow> length xs = length ys + 4"
  by (cases xs rule: rd32.cases) auto

lemma rd_record_shorter: "rd_record xs = Some (r, ys) \<Longrightarrow> length ys < length xs"
  by (auto simp: rd_record_def dest!: rd32_shorter split: Option.bind_splits if_splits) linarith

function rd_records :: "u8 list \<Rightarrow> (pcap_sf_pkthdr \<times> u8 list) list option" where
  "rd_records xs =
     (if xs = [] then Some []
      else case rd_record xs of None \<Rightarrow> None | Some (r, ys) \<Rightarrow> map_option (Cons r) (rd_records ys))"
  by auto
termination by (relation "measure length") (auto dest: rd_record_shorter)

declare rd_records.simps [simp del]

definition rd_file :: "u8 list \<Rightarrow> (pcap_file_header \<times> (pcap_sf_pkthdr \<times> u8 list) list) option" where
  "rd_file xs = do {
     (h, xs) \<leftarrow> rd_file_header xs;
     rs \<leftarrow> rd_records xs;
     Some (h, rs)
   }"

subsection \<open>Reading back\<close>

lemma rd16_le16 [simp]: "rd16 (le16 w @ xs) = Some (w, xs)"
proof -
  have "ucast (ucast w :: u8) OR push_bit 8 (ucast (ucast (drop_bit 8 w) :: u8)) = w"
    by (intro bit_word_eqI) (auto simp: bit_simps)
  then show ?thesis by (simp add: le16_def)
qed

lemma rd32_le32 [simp]: "rd32 (le32 w @ xs) = Some (w, xs)"
proof -
  have "ucast (ucast w :: u8) OR push_bit 8 (ucast (ucast (drop_bit 8 w) :: u8)) OR push_bit 16 (ucast (ucast (drop_bit 16 w) :: u8)) OR
      push_bit 24 (ucast (ucast (drop_bit 24 w) :: u8)) = w" (is "?x = w")
  proof (intro bit_word_eqI)
    fix n assume "n < LENGTH(32)"
    then consider "n < 8" | "8 \<le> n" "n < 16" | "16 \<le> n" "n < 24" | "24 \<le> n" "n < 32" by fastforce
    then show "bit ?x n = bit w n" by cases (auto simp: bit_simps)
  qed
  then show ?thesis by (simp add: le32_def)
qed

lemma rd_file_header_bytes [simp]: "rd_file_header (file_header_bytes h @ xs) = Some (h, xs)"
  by (simp add: rd_file_header_def file_header_bytes_def)

lemma rd_record_bytes: "length p = unat (pk_caplen h) \<Longrightarrow> rd_record (pkthdr_bytes h @ p @ xs) = Some ((h, p), xs)"
  by (simp add: rd_record_def pkthdr_bytes_def)

text \<open>The record of a packet: its first 1514 bytes.\<close>

definition logged :: "timeval \<times> u8 list \<Rightarrow> pcap_sf_pkthdr \<times> u8 list" where
  "logged x = (let p = take 1514 (snd x) in (\<lparr>pk_ts = fst x, pk_caplen = of_nat (length p), pk_len = of_nat (length p)\<rparr>, p))"

lemma sr_log_packet_writes:
  "sr_log_packet now (Some fp) p (int (length p)) = Some (Some (fp @ pkthdr_bytes (fst (logged (now, p))) @ snd (logged (now, p))))"
proof -
  have "dump_size (int (length p)) = int (min 1514 (length p))" by (auto simp: dump_size_def)
  then show ?thesis by (auto simp: sr_log_packet_def sr_dump_def logged_def Let_def unat_of_nat min_def)
qed

lemma rd_records_logged:
  "rd_records (pkthdr_bytes (fst (logged x)) @ snd (logged x) @ xs) = map_option (Cons (logged x)) (rd_records xs)"
proof -
  have "length (snd (logged x)) = unat (pk_caplen (fst (logged x)))" by (simp add: logged_def Let_def unat_of_nat min_def)
  from rd_record_bytes [OF this] show ?thesis by (subst rd_records.simps) (simp add: pkthdr_bytes_def le32_def)
qed

lemma log_all_writes:
  "\<exists>fp'. log_all (Some fp) ps = Some (Some (fp @ fp')) \<and> rd_records fp' = Some (map logged ps)"
proof (induction ps arbitrary: fp)
  case Nil
  then show ?case by (simp add: rd_records.simps)
next
  case (Cons x ps)
  obtain now p where x: "x = (now, p)" by (cases x)
  let ?b = "pkthdr_bytes (fst (logged x)) @ snd (logged x)"
  obtain fp' where "log_all (Some (fp @ ?b)) ps = Some (Some ((fp @ ?b) @ fp'))" "rd_records fp' = Some (map logged ps)" using Cons.IH [of "fp @ ?b"] by blast
  then show ?case using rd_records_logged [of x fp'] by (intro exI [of _ "?b @ fp'"]) (simp add: x sr_log_packet_writes)
qed

text \<open>
  C12: a log that has been opened as a file and to which any packets have been written is read back by a reader of the format as the header
  and the records of exactly these packets, in order, with their times. A packet of more than 1514 bytes is cut, and the record
  gives the length of the piece where the format has the length of the packet. Without a log nothing is written.
\<close>

theorem log_reads_back:
  assumes "sr_dump_open [] can_open fname zone snap = Some fp"
  shows "(\<exists>fp'. log_all (Some fp) ps = Some (Some fp') \<and> rd_file fp' = Some (file_header 1 zone snap, map logged ps)) \<and> log_all None ps = Some None"
proof -
  have fp: "fp = sf_write_header [] 1 zone snap" using assms by (simp add: sr_dump_open_def split: if_splits)
  obtain fp' where fp': "log_all (Some fp) ps = Some (Some (fp @ fp'))" "rd_records fp' = Some (map logged ps)" using log_all_writes by blast
  then have "rd_file (fp @ fp') = Some (file_header 1 zone snap, map logged ps)" by (simp add: fp rd_file_def sf_write_header_def)
  moreover have "log_all None ps = Some None" by (induction ps) (auto simp: sr_log_packet_def)
  ultimately show ?thesis using fp'(1) by auto
qed

theorem log_reads_back_witness:
  "\<exists>fp fp'. sr_dump_open [] (\<lambda>_. True) ''trace'' 0 1514 = Some fp \<and> log_all (Some fp) [(\<lparr>tv_sec = 1000, tv_usec = 7\<rparr>, [1, 2, 3])] = Some (Some fp') \<and>
     rd_file fp' = Some (file_header 1 0 1514, [(\<lparr>pk_ts = \<lparr>tv_sec = 1000, tv_usec = 7\<rparr>, pk_caplen = 3, pk_len = 3\<rparr>, [1, 2, 3])])"
proof -
  have "sr_dump_open [] (\<lambda>_. True) ''trace'' 0 1514 = Some (sf_write_header [] 1 0 1514)" by (simp add: sr_dump_open_def)
  from log_reads_back [OF this, of "[(\<lparr>tv_sec = 1000, tv_usec = 7\<rparr>, [1, 2, 3])]"] this show ?thesis by (simp add: logged_def Let_def)
qed

text \<open>A negative length, as the result of a failed read, makes the log read far past the buffer.\<close>

lemma log_negative_length: "length buf \<le> 2000 \<Longrightarrow> sr_log_packet now (Some fp) buf (- 1) = None"
  by (simp add: sr_log_packet_def dump_size_def sr_dump_def Let_def unsigned_minus_1_eq_mask mask_eq_exp_minus_1)

end
