(* ===== verification/Sr_Startup.thy ===== *)
theory Sr_Startup
  imports Api_Udp
begin

text \<open>
  The start of the stack (\<^verbatim>\<open>sr_lwip_transport_startup\<close> of \<^verbatim>\<open>sr_base.c\<close>): the heap, the pools, the packet buffers and the transport thread are set up
  one after the other, in one memory. \<^verbatim>\<open>sys_init\<close> only reads the clock. The sizes of the pool elements and the addresses of the two arrays
  depend on the compiler and are arguments.
\<close>

definition sr_lwip_transport_startup :: "(memp_t \<Rightarrow> u16) \<Rightarrow> u32 \<Rightarrow> u32 \<Rightarrow> 'a api_world_scheme \<Rightarrow> 'a api_world_scheme option" where
  "sr_lwip_transport_startup memp_sizes memp_memory pbuf_pool_memory s = do {
     let s = mem_init s;
     let s = memp_init memp_sizes memp_memory s;
     s \<leftarrow> pbuf_init pbuf_pool_memory s;
     transport_subsys_init s
   }"

subsection \<open>What each step leaves alone\<close>

lemma mem_init_keeps [simp]:
  "pbuf_pool_alloc_cache (mem_init s) = pbuf_pool_alloc_cache s" "pbuf_pool_free_cache (mem_init s) = pbuf_pool_free_cache s"
  "upcbs (mem_init s) = upcbs s" "udp_pcbs (mem_init s) = udp_pcbs s" "fresh (mem_init s) = fresh s" "timeouts (mem_init s) = timeouts s"
  by (simp_all add: mem_init_def)

lemma memp_init_eq:
  "\<exists>tab nx. memp_init sizes base s = s\<lparr>memp_tab := tab, memp_next := nx, memp_mutex := sys_sem_new0 1, memp_reclaim_funcs := \<lambda>i. [],
     memp_stats := \<lambda>i. \<lparr>mp_avail = memp_num i, mp_used = 0, mp_max = 0, mp_err = 0, mp_reclaimed = 0\<rparr>\<rparr>"
proof -
  have "\<exists>tab nx. memp_init_loop z ts m s = s\<lparr>memp_tab := tab, memp_next := nx\<rparr>" for z ts m and s :: "'a memp_state_scheme"
  proof (induction z ts m s rule: memp_init_loop.induct)
    case (1 z m s)
    show ?case by (intro exI [of _ "memp_tab s"] exI [of _ "memp_next s"]) simp
  next
    case (2 z i js m s)
    then show ?case by (fastforce simp: Let_def split: prod.splits)
  qed
  then obtain tab nx where "memp_init_loop sizes memp_types base (s\<lparr>memp_stats := \<lambda>i. \<lparr>mp_avail = memp_num i, mp_used = 0, mp_max = 0, mp_err = 0, mp_reclaimed = 0\<rparr>\<rparr>) =
      s\<lparr>memp_stats := \<lambda>i. \<lparr>mp_avail = memp_num i, mp_used = 0, mp_max = 0, mp_err = 0, mp_reclaimed = 0\<rparr>, memp_tab := tab, memp_next := nx\<rparr>" by blast
  then show ?thesis by (intro exI [of _ tab] exI [of _ nx]) (simp add: memp_init_def Let_def)
qed

lemma pbuf_init_eq:
  assumes "pbuf_init pool s = Some s'"
  shows "\<exists>pbs st. s' = s\<lparr>pbuf_pool := Some pool, pbuf_stats := st, pbufs := pbs, pbuf_pool_alloc_lock := 0, pbuf_pool_free_lock := 0, pbuf_pool_free_sem := sys_sem_new0 1\<rparr>"
  using assms by (auto simp: pbuf_init_def upd_pbuf_def stat_pbuf_def Let_def split: bind_splits prod.splits option.splits)

lemma mem_more_lock [THEN rets_mono, wp]: "rets (\<lambda>s'. mem_state.more s' = mem_state.more s) (mem_lock s)"
  unfolding mem_lock_def by (auto intro!: wp)

lemma mem_more_unlock [simp]: "mem_state.more (mem_unlock s) = mem_state.more s"
  by (simp add: mem_unlock_def)

lemma mem_malloc_more: "rets (\<lambda>(_, s'). mem_state.more s' = mem_state.more s) (mem_malloc n s)"
  unfolding mem_malloc_def by (auto intro!: wp)

lemma mem_malloc_eq:
  assumes "mem_holds s A"
  shows "\<exists>r s' B rm lf sm st ml. mem_malloc n s = Some (r, s') \<and> mem_holds s' B \<and> s' = s\<lparr>ram := rm, lfree := lf, mem_sem := sm, mem_stats := st, mrlist := ml\<rparr>"
proof -
  obtain r s' where r: "mem_malloc n s = Some (r, s')" "case r of None \<Rightarrow> mem_holds s' A | Some b \<Rightarrow> b \<notin> A \<and> mem_holds s' (insert b A)"
    using mem.alloc_ok [OF assms] by blast
  then have "\<exists>B. mem_holds s' B" by (auto split: option.splits)
  moreover have "mem_state.more s' = mem_state.more s" using mem_malloc_more [of s n] r(1) by (auto simp: rets_def)
  then have "s' = s\<lparr>ram := ram s', lfree := lfree s', mem_sem := mem_sem s', mem_stats := mem_stats s', mrlist := mrlist s'\<rparr>" by (cases s; cases s') simp
  ultimately show ?thesis using r(1) by blast
qed

lemma mem_register_reclaim_eq:
  assumes "mem_holds s A"
  shows "\<exists>s' B rm lf sm st ml. mem_register_reclaim f arg s = Some s' \<and> mem_holds s' B \<and> s' = s\<lparr>ram := rm, lfree := lf, mem_sem := sm, mem_stats := st, mrlist := ml\<rparr>"
proof -
  obtain r s' B rm lf sm st ml where m: "mem_malloc 12 s = Some (r, s')" "mem_holds s' B" "s' = s\<lparr>ram := rm, lfree := lf, mem_sem := sm, mem_stats := st, mrlist := ml\<rparr>"
    using mem_malloc_eq [OF assms] by blast
  show ?thesis
  proof (cases r)
    case None
    then have "mem_register_reclaim f arg s = Some s'" using m(1) by (simp add: mem_register_reclaim_def)
    with m(2,3) show ?thesis by blast
  next
    case (Some p)
    have "mem_holds (s'\<lparr>mrlist := (f, arg) # mrlist s'\<rparr>) B" using m(2) by (simp add: mem_holds_def mem_ok_def)
    moreover have "mem_register_reclaim f arg s = Some (s'\<lparr>mrlist := (f, arg) # mrlist s'\<rparr>)" using m(1) Some by (simp add: mem_register_reclaim_def)
    moreover have "s'\<lparr>mrlist := (f, arg) # mrlist s'\<rparr> = s\<lparr>ram := rm, lfree := lf, mem_sem := sm, mem_stats := st, mrlist := (f, arg) # mrlist s'\<rparr>" by (simp add: m(3))
    ultimately show ?thesis by blast
  qed
qed

lemma memp_register_reclaim_eq:
  assumes "mem_holds s A"
  shows "\<exists>s' B rm lf sm st ml rf. memp_register_reclaim t f arg s = Some s' \<and> mem_holds s' B \<and>
    s' = s\<lparr>ram := rm, lfree := lf, mem_sem := sm, mem_stats := st, mrlist := ml, memp_reclaim_funcs := rf\<rparr>"
proof -
  obtain r s' B rm lf sm st ml where m: "mem_malloc 12 s = Some (r, s')" "mem_holds s' B" "s' = s\<lparr>ram := rm, lfree := lf, mem_sem := sm, mem_stats := st, mrlist := ml\<rparr>"
    using mem_malloc_eq [OF assms] by blast
  show ?thesis
  proof (cases r)
    case None
    then have "memp_register_reclaim t f arg s = Some s'" using m(1) by (simp add: memp_register_reclaim_def)
    moreover have "s' = s\<lparr>ram := rm, lfree := lf, mem_sem := sm, mem_stats := st, mrlist := ml, memp_reclaim_funcs := memp_reclaim_funcs s\<rparr>" using m(3) by simp
    ultimately show ?thesis using m(2) by blast
  next
    case (Some p)
    let ?rf = "(memp_reclaim_funcs s')(t := (f, arg) # memp_reclaim_funcs s' t)"
    have "memp_register_reclaim t f arg s = Some (s'\<lparr>memp_reclaim_funcs := ?rf\<rparr>)" using m(1) Some by (simp add: memp_register_reclaim_def)
    moreover have "mem_holds (s'\<lparr>memp_reclaim_funcs := ?rf\<rparr>) B" using m(2) by (simp add: mem_holds_def mem_ok_def)
    moreover have "s'\<lparr>memp_reclaim_funcs := ?rf\<rparr> = s\<lparr>ram := rm, lfree := lf, mem_sem := sm, mem_stats := st, mrlist := ml, memp_reclaim_funcs := ?rf\<rparr>" by (simp add: m(3))
    ultimately show ?thesis by blast
  qed
qed

lemma tcp_init_eq:
  assumes "mem_holds s A"
  shows "\<exists>s' B rm lf sm st ml rf. tcp_init s = Some s' \<and> mem_holds s' B \<and>
    s' = s\<lparr>ram := rm, lfree := lf, mem_sem := sm, mem_stats := st, mrlist := ml, memp_reclaim_funcs := rf, tcp_listen_pcbs := None, tcp_active_pcbs := None, tcp_tw_pcbs := None,
      tcp_ticks := 0, tcp_timer := 0\<rparr>"
proof -
  let ?s0 = "s\<lparr>tcp_listen_pcbs := None, tcp_active_pcbs := None, tcp_tw_pcbs := None\<rparr>"
  have "mem_holds ?s0 A" using assms by (simp add: mem_holds_def mem_ok_def)
  from mem_register_reclaim_eq [OF this, of TCP_MEM_RECLAIM 0]
  obtain s1 B1 rm lf sm st ml where s1: "mem_register_reclaim TCP_MEM_RECLAIM 0 ?s0 = Some s1" "mem_holds s1 B1"
    "s1 = ?s0\<lparr>ram := rm, lfree := lf, mem_sem := sm, mem_stats := st, mrlist := ml\<rparr>" by blast
  from memp_register_reclaim_eq [OF s1(2), of MEMP_PBUF TCP_MEMP_RECLAIM 0]
  obtain s2 B2 rm lf sm st ml rf where s2: "memp_register_reclaim MEMP_PBUF TCP_MEMP_RECLAIM 0 s1 = Some s2" "mem_holds s2 B2"
    "s2 = s1\<lparr>ram := rm, lfree := lf, mem_sem := sm, mem_stats := st, mrlist := ml, memp_reclaim_funcs := rf\<rparr>" by blast
  from memp_register_reclaim_eq [OF s2(2), of MEMP_TCP_SEG TCP_MEMP_RECLAIM 0]
  obtain s3 B3 rm lf sm st ml rf where s3: "memp_register_reclaim MEMP_TCP_SEG TCP_MEMP_RECLAIM 0 s2 = Some s3" "mem_holds s3 B3"
    "s3 = s2\<lparr>ram := rm, lfree := lf, mem_sem := sm, mem_stats := st, mrlist := ml, memp_reclaim_funcs := rf\<rparr>" by blast
  from memp_register_reclaim_eq [OF s3(2), of MEMP_TCP_PCB TCP_MEMP_RECLAIM 0]
  obtain s4 B4 rm lf sm st ml rf where s4: "memp_register_reclaim MEMP_TCP_PCB TCP_MEMP_RECLAIM 0 s3 = Some s4" "mem_holds s4 B4"
    "s4 = s3\<lparr>ram := rm, lfree := lf, mem_sem := sm, mem_stats := st, mrlist := ml, memp_reclaim_funcs := rf\<rparr>" by blast
  have "tcp_init s = Some (s4\<lparr>tcp_ticks := 0, tcp_timer := 0\<rparr>)" using s1(1) s2(1) s3(1) s4(1) by (simp add: tcp_init_def)
  moreover have "mem_holds (s4\<lparr>tcp_ticks := 0, tcp_timer := 0\<rparr>) B4" using s4(2) by (simp add: mem_holds_def mem_ok_def)
  moreover have "s4\<lparr>tcp_ticks := 0, tcp_timer := 0\<rparr> = s\<lparr>ram := rm, lfree := lf, mem_sem := sm, mem_stats := st, mrlist := ml, memp_reclaim_funcs := rf,
      tcp_listen_pcbs := None, tcp_active_pcbs := None, tcp_tw_pcbs := None, tcp_ticks := 0, tcp_timer := 0\<rparr>"
    using s1(3) s2(3) s3(3) s4(3) by simp
  ultimately show ?thesis by blast
qed

lemma arm_timeout_eq:
  assumes "udp_ok s us A" "memp_tab s MEMP_SYS_TIMEOUT \<noteq> None" "timeouts s = []"
  shows "\<exists>t tab nx st. arm_timeout TCP_TMR_INTERVAL FN_TCP_TIMER 0 s =
      s\<lparr>memp_tab := tab, memp_next := nx, memp_stats := st, timeouts := [\<lparr>to_time = TCP_TMR_INTERVAL, to_h = FN_TCP_TIMER, to_arg = 0\<rparr>], timeout_mem := t\<rparr> \<and>
    udp_ok (arm_timeout TCP_TMR_INTERVAL FN_TCP_TIMER 0 s) us (insert (MEMP_SYS_TIMEOUT, t) A) \<and> (\<forall>u. u \<noteq> MEMP_SYS_TIMEOUT \<longrightarrow> tab u = memp_tab s u)"
proof -
  obtain t s' where m: "memp_malloc MEMP_SYS_TIMEOUT s = (Some t, s')" "udp_ok s' us (insert (MEMP_SYS_TIMEOUT, t) A)"
    by (rule udp_ok_malloc [OF assms(1,2)]) simp
  have s': "\<exists>tab nx st. s' = s\<lparr>memp_tab := tab, memp_next := nx, memp_stats := st\<rparr>"
    using m(1) by (auto simp: memp_malloc_def memp_stat_upd_def Let_def split: option.splits)
  then obtain tab nx st where s': "s' = s\<lparr>memp_tab := tab, memp_next := nx, memp_stats := st\<rparr>" by blast
  let ?t = "[\<lparr>to_time = TCP_TMR_INTERVAL, to_h = FN_TCP_TIMER, to_arg = 0\<rparr>]"
  have e: "arm_timeout TCP_TMR_INTERVAL FN_TCP_TIMER 0 s = s'\<lparr>timeouts := ?t, timeout_mem := t\<rparr>"
    using m(1) assms(3) by (simp add: arm_timeout_def sys_timeout_def Let_def s')
  have "udp_ok (s'\<lparr>timeouts := ?t, timeout_mem := t\<rparr>) us (insert (MEMP_SYS_TIMEOUT, t) A)"
    using m(2) by (simp add: udp_ok_def up_nx_def [abs_def] memp_holds_def memp_ok_def pool_ok_def memp_nx_def)
  moreover have "tab u = memp_tab s u" if "u \<noteq> MEMP_SYS_TIMEOUT" for u using memp_malloc_keeps(12) [OF m(1) that] by (simp add: s')
  ultimately show ?thesis using e s' by (intro exI [of _ t] exI [of _ tab] exI [of _ nx] exI [of _ st]) simp
qed

subsection \<open>The stack after its start\<close>

lemma startup_memory:
  assumes "memp_memory mod 4 = 0" "\<forall>t. memp_sizes t \<le> 4096" "unat memp_memory + 4194304 \<le> 2 ^ 32"
    and zero: "pbuf_pool_alloc_cache s = None" "pbuf_pool_free_cache s = None" "upcbs s = Map.empty" "udp_pcbs s = None"
    and b: "fresh s = (b, jb) # fs" "length jb = 100"
  shows "\<exists>s1. sr_lwip_transport_startup memp_sizes memp_memory pool s = Some s1 \<and> mem_holds s1 {} \<and> bufs_ok (set (pool_addrs pool)) s1 {} \<and> udp_ok s1 [] {} \<and>
    unlocked s1 \<and> transport_mbox s1 = Some b \<and> box s1 b [] \<and> (\<forall>t. memp_tab s1 t \<noteq> None) \<and> fresh s1 = fs \<and> timeouts s1 = timeouts s"
proof -
  let ?s0 = "mem_init s"
  let ?s1 = "memp_init memp_sizes memp_memory ?s0"
  obtain tab nx where s1: "?s1 = ?s0\<lparr>memp_tab := tab, memp_next := nx, memp_mutex := sys_sem_new0 1, memp_reclaim_funcs := \<lambda>i. [],
     memp_stats := \<lambda>i. \<lparr>mp_avail = memp_num i, mp_used = 0, mp_max = 0, mp_err = 0, mp_reclaimed = 0\<rparr>\<rparr>" using memp_init_eq by blast
  have c: "pbuf_pool_alloc_cache ?s1 = None" "pbuf_pool_free_cache ?s1 = None" using zero by (simp_all add: s1)
  obtain s2 where s2: "pbuf_init pool ?s1 = Some s2" "bufs_ok (set (pool_addrs pool)) s2 {}" using pbuf_init_ok [OF c] by blast
  obtain pbs st where s2e: "s2 = ?s1\<lparr>pbuf_pool := Some pool, pbuf_stats := st, pbufs := pbs, pbuf_pool_alloc_lock := 0, pbuf_pool_free_lock := 0, pbuf_pool_free_sem := sys_sem_new0 1\<rparr>"
    using pbuf_init_eq [OF s2(1)] by blast
  have f: "fresh s2 = (b, jb) # fs" using b(1) by (simp add: s2e s1)
  obtain m cts where m: "new_mbox s2 = Some (Some b, s2\<lparr>mboxes := (mboxes s2)(b \<mapsto> m), sys_counts := cts, fresh := fs\<rparr>)" "mbox_rep m []" using new_mbox_eq [OF f b(2)] by blast
  let ?s3 = "s2\<lparr>mboxes := (mboxes s2)(b \<mapsto> m), sys_counts := cts, fresh := fs, transport_mbox := Some b\<rparr>"
  have start: "sr_lwip_transport_startup memp_sizes memp_memory pool s = Some ?s3"
    using s2(1) m(1) by (simp add: sr_lwip_transport_startup_def transport_subsys_init_def)
  have mem: "mem_holds ?s3 {}"
    using mem_init_ok(1) [of s] unfolding mem_holds_def by (intro exI [of _ "[(0, False)]"]) (simp add: mem_ok_def mem_live_def s2e s1)
  have bufs: "bufs_ok (set (pool_addrs pool)) ?s3 {}" using s2(2) by (simp add: bufs_ok_def pool_lists_def pool_idle_def)
  have "memp_holds ?s1 {}" unfolding memp_holds_def using assms(1-3) by (intro memp_init_ok) (simp_all add: aligned_def)
  then have "memp_holds ?s3 {}" by (simp add: memp_holds_def memp_ok_def pool_ok_def memp_nx_def s2e)
  then have udp: "udp_ok ?s3 [] {}" using zero(3,4) by (simp add: udp_ok_def s2e s1)
  have "memp_tab ?s1 t \<noteq> None" for t
  proof -
    have "t \<in> set memp_types" "distinct memp_types" "memp_num t > 0" by (cases t; simp add: memp_types_def)+
    from memp_init_tab [OF this] show ?thesis by (simp add: memp_init_def Let_def)
  qed
  then have "memp_tab ?s3 t \<noteq> None" for t by (simp add: s2e)
  moreover have "unlocked ?s3" by (simp add: s2e s1 sys_sem_new0_def)
  moreover have "box ?s3 b []" using m(2) by (simp add: box_def)
  moreover have "timeouts ?s3 = timeouts s" by (simp add: s2e s1)
  ultimately show ?thesis using start mem bufs udp by (intro exI [of _ ?s3]) simp
qed

text \<open>
  C6: the start of the stack. With the arrays where the compiler puts them and static variables that are zero,
  \<open>sr_lwip_transport_startup\<close> and the head of the transport thread return. Then the heap, the pools and the packet buffers are consistent
  at the same time, the list of UDP control blocks and those of TCP are empty, the TCP timer is due in 100 ms, and the transport thread is ready to serve
  the requests of the application.
\<close>

theorem startup_ready:
  assumes "memp_memory mod 4 = 0" "\<forall>t. memp_sizes t \<le> 4096" "unat memp_memory + 4194304 \<le> 2 ^ 32"
    and "pbuf_pool_alloc_cache s = None" "pbuf_pool_free_cache s = None" "upcbs s = Map.empty" "udp_pcbs s = None" "timeouts s = []"
    and "fresh s = (b, jb) # fs" "length jb = 100"
  shows "\<exists>s1 s2 t A. sr_lwip_transport_startup memp_sizes memp_memory pool s = Some s1 \<and> transport_start None s1 = Some s2 \<and>
    mem_holds s2 A \<and> bufs_ok (set (pool_addrs pool)) s2 {} \<and> udp_ok s2 [] {(MEMP_SYS_TIMEOUT, t)} \<and> api_ready b s2 \<and> (\<forall>u. u \<noteq> MEMP_SYS_TIMEOUT \<longrightarrow> memp_tab s2 u \<noteq> None) \<and>
    fresh s2 = fs \<and> tcp_listen_pcbs s2 = None \<and> tcp_active_pcbs s2 = None \<and> tcp_tw_pcbs s2 = None \<and>
    timeouts s2 = [\<lparr>to_time = TCP_TMR_INTERVAL, to_h = FN_TCP_TIMER, to_arg = 0\<rparr>]"
proof -
  obtain s1 where s1: "sr_lwip_transport_startup memp_sizes memp_memory pool s = Some s1" "mem_holds s1 {}" "bufs_ok (set (pool_addrs pool)) s1 {}" "udp_ok s1 [] {}"
    "unlocked s1" "transport_mbox s1 = Some b" "box s1 b []" "\<forall>t. memp_tab s1 t \<noteq> None" "fresh s1 = fs" "timeouts s1 = []"
    using startup_memory [OF assms(1-7,9,10)] assms(8) by metis
  obtain s2 B rm lf sm st ml rf where s2: "tcp_init s1 = Some s2" "mem_holds s2 B"
    "s2 = s1\<lparr>ram := rm, lfree := lf, mem_sem := sm, mem_stats := st, mrlist := ml, memp_reclaim_funcs := rf, tcp_listen_pcbs := None, tcp_active_pcbs := None, tcp_tw_pcbs := None,
      tcp_ticks := 0, tcp_timer := 0\<rparr>" using tcp_init_eq [OF s1(2)] by blast
  have u2: "udp_ok s2 [] {}" using s1(4) by (simp add: s2(3) udp_ok_def memp_holds_def memp_ok_def pool_ok_def memp_nx_def)
  let ?s3 = "arm_timeout TCP_TMR_INTERVAL FN_TCP_TIMER 0 s2"
  have h: "memp_tab s2 MEMP_SYS_TIMEOUT \<noteq> None" "timeouts s2 = []" using s1(8,10) by (simp_all add: s2(3))
  obtain t tab nx st where s3: "?s3 = s2\<lparr>memp_tab := tab, memp_next := nx, memp_stats := st, timeouts := [\<lparr>to_time = TCP_TMR_INTERVAL, to_h = FN_TCP_TIMER, to_arg = 0\<rparr>], timeout_mem := t\<rparr>"
    "udp_ok ?s3 [] {(MEMP_SYS_TIMEOUT, t)}" "\<forall>u. u \<noteq> MEMP_SYS_TIMEOUT \<longrightarrow> tab u = memp_tab s2 u" using arm_timeout_eq [OF u2 h] by blast
  have "transport_start None s1 = Some ?s3" using s2(1) by (simp add: transport_start_def)
  moreover have "mem_holds ?s3 B" unfolding s3(1) using s2(2) by (simp add: mem_holds_def mem_ok_def)
  moreover have "bufs_ok (set (pool_addrs pool)) ?s3 {}" unfolding s3(1) unfolding s2(3) using s1(3) by (simp add: bufs_ok_def pool_lists_def pool_idle_def)
  moreover have tab: "memp_tab ?s3 u \<noteq> None" if "u \<noteq> MEMP_SYS_TIMEOUT" for u unfolding s3(1) using that s1(8) s3(3) by (simp add: s2(3))
  moreover have "api_ready b ?s3" using tab [of MEMP_API_MSG] tab [of MEMP_TCP_MSG] s1(5-7) unfolding api_ready_def unfolding s3(1) by (simp add: box_def s2(3))
  moreover have "fresh ?s3 = fs \<and> tcp_listen_pcbs ?s3 = None \<and> tcp_active_pcbs ?s3 = None \<and> tcp_tw_pcbs ?s3 = None \<and>
      timeouts ?s3 = [\<lparr>to_time = TCP_TMR_INTERVAL, to_h = FN_TCP_TIMER, to_arg = 0\<rparr>]" unfolding s3(1) using s1(9) by (simp add: s2(3))
  ultimately show ?thesis using s1(1) s3(2) by blast
qed

definition static_zero :: api_world where
  "static_zero = api_start\<lparr>pbuf_pool_alloc_cache := None, pbuf_pool_free_cache := None, upcbs := Map.empty, udp_pcbs := None, timeouts := [], fresh := [(64, replicate 100 None)],
     mboxes := Map.empty, transport_mbox := None\<rparr>"

theorem startup_ready_witness:
  "\<exists>s1 s2. sr_lwip_transport_startup (\<lambda>t. 16) 0x8000 0x9000 static_zero = Some s1 \<and> transport_start None s1 = Some s2 \<and> api_ready 64 s2"
proof -
  have "pbuf_pool_alloc_cache static_zero = None" "pbuf_pool_free_cache static_zero = None" "upcbs static_zero = Map.empty" "udp_pcbs static_zero = None" "timeouts static_zero = []"
    "fresh static_zero = (64, replicate 100 None) # []"
    by (simp_all add: static_zero_def)
  from startup_ready [OF _ _ _ this, of "0x8000" "\<lambda>t. 16" "0x9000"] show ?thesis by auto
qed

end
