(* ===== verification/Getarg.thy ===== *)
theory Getarg
  imports Net_Prelude
begin

text \<open>
  Taking an option out of the arguments of the program (\<^verbatim>\<open>getarg.c\<close>). The array of arguments is changed in place; its elements above
  \<^verbatim>\<open>argc\<close> stay as they are. An access outside the array is the result \<open>None\<close>; a NULL value is \<open>None\<close>.
\<close>

text \<open>The two loops that close the gap, for one element or for two.\<close>

function shift_down :: "nat \<Rightarrow> nat \<Rightarrow> nat \<Rightarrow> string list \<Rightarrow> string list option" where
  "shift_down k i argc argv =
     (if i < argc then
        if i + k < length argv then shift_down k (i + 1) argc (argv[i := argv ! (i + k)]) else None
      else Some argv)"
  by auto
termination by (relation "measure (\<lambda>(k, i, argc, argv). argc - i)") auto

declare shift_down.simps [simp del]

definition is_dash :: "string \<Rightarrow> bool" where
  "is_dash s \<longleftrightarrow> s \<noteq> [] \<and> hd s = CHR ''-''"

text \<open>The result: the return value, the new \<^verbatim>\<open>argc\<close> and array, and the value of the option.\<close>

function getarg_loop :: "string \<Rightarrow> nat \<Rightarrow> nat \<Rightarrow> string list \<Rightarrow> string option \<Rightarrow> (int \<times> nat \<times> string list \<times> string option) option" where
  "getarg_loop arg i argc argv val =
     (if i < argc then
        if i \<ge> length argv then None
        else if argv ! i = arg then
          if i = argc - 1 \<or> is_dash (argv ! (i + 1)) then
            map_option (\<lambda>argv. (1, argc - 1, argv, None)) (shift_down 1 i (argc - 1) argv)
          else map_option (\<lambda>argv'. (1, argc - 2, argv', Some (argv ! (i + 1)))) (shift_down 2 i (argc - 2) argv)
        else getarg_loop arg (i + 1) argc argv val
      else Some (0, argc, argv, val))"
  by auto
termination by (relation "measure (\<lambda>(arg, i, argc, argv, val). argc - i)") auto

declare getarg_loop.simps [simp del]

definition getarg :: "nat \<Rightarrow> string list \<Rightarrow> string \<Rightarrow> string option \<Rightarrow> (int \<times> nat \<times> string list \<times> string option) option" where
  "getarg argc argv arg val = getarg_loop arg 0 argc argv val"

subsection \<open>Specification\<close>

text \<open>The first occurrence of the option is removed, with the word after it as its value unless that begins with a dash.\<close>

fun remove_arg :: "string \<Rightarrow> string list \<Rightarrow> (string option \<times> string list) option" where
  "remove_arg arg [] = None"
| "remove_arg arg (x # xs) =
     (if x = arg then
        (case xs of [] \<Rightarrow> Some (None, []) | y # ys \<Rightarrow> if is_dash y then Some (None, xs) else Some (Some y, ys))
      else map_option (\<lambda>(v, r). (v, x # r)) (remove_arg arg xs))"

lemma shift_down_takes:
  "i \<le> argc \<Longrightarrow> argc + k \<le> length argv \<Longrightarrow> 0 < k \<Longrightarrow>
   \<exists>argv'. shift_down k i argc argv = Some argv' \<and> take argc argv' = take i argv @ take (argc - i) (drop (i + k) argv)"
proof (induction "argc - i" arbitrary: i argv)
  case 0
  then show ?case by (subst shift_down.simps) simp
next
  case (Suc n)
  let ?a = "argv[i := argv ! (i + k)]"
  have i: "i < argc" "i + k < length argv" using Suc by simp_all
  have "\<exists>argv'. shift_down k (i + 1) argc ?a = Some argv' \<and> take argc argv' = take (i + 1) ?a @ take (argc - (i + 1)) (drop (i + 1 + k) ?a)"
    using Suc i by (intro Suc.hyps(1)) simp_all
  moreover have "take (i + 1) ?a @ take (argc - (i + 1)) (drop (i + 1 + k) ?a) = take i argv @ take (argc - i) (drop (i + k) argv)"
  proof -
    have "take (i + 1) ?a = take i argv @ [argv ! (i + k)]" using i by (simp add: take_Suc_conv_app_nth)
    moreover have "drop (i + 1 + k) ?a = drop (i + 1 + k) argv" using i by (simp add: drop_update_cancel)
    moreover have "take (argc - i) (drop (i + k) argv) = argv ! (i + k) # take (argc - (i + 1)) (drop (i + 1 + k) argv)"
      using i by (simp add: Cons_nth_drop_Suc [symmetric] take_Cons' Suc_diff_Suc)
    ultimately show ?thesis by simp
  qed
  ultimately show ?case using i by (subst shift_down.simps) simp
qed

lemma getarg_loop_removes:
  "i \<le> length args \<Longrightarrow>
   (case remove_arg arg (drop i args) of
      None \<Rightarrow> getarg_loop arg i (length args) (args @ rest) val = Some (0, length args, args @ rest, val)
    | Some (v, r) \<Rightarrow> \<exists>argv'. getarg_loop arg i (length args) (args @ rest) val = Some (1, i + length r, argv', v) \<and> take (i + length r) argv' = take i args @ r)"
proof (induction "length args - i" arbitrary: i)
  case 0
  then show ?case by (subst getarg_loop.simps) simp
next
  case (Suc n)
  then have i: "i < length args" by simp
  define xs where "xs = drop (i + 1) args"
  have d: "drop i args = args ! i # xs" using i by (simp add: Cons_nth_drop_Suc xs_def)
  have a: "(args @ rest) ! i = args ! i" using i by (simp add: nth_append)
  show ?case
  proof (cases "args ! i = arg")
    case False
    have t: "take (i + 1) args = take i args @ [args ! i]" using i by (simp add: take_Suc_conv_app_nth)
    have "getarg_loop arg i (length args) (args @ rest) val = getarg_loop arg (i + 1) (length args) (args @ rest) val"
      using i a False by (subst getarg_loop.simps) simp
    moreover have "n = length args - (i + 1)" "i + 1 \<le> length args" using Suc.hyps(2) i by simp_all
    note Suc.hyps(1) [OF this]
    ultimately show ?thesis using False t by (auto simp: d xs_def split: option.splits)
  next
    case True
    show ?thesis
    proof (cases "xs = [] \<or> is_dash (hd xs)")
      case one: True
      have l: "i = length args - 1 \<longleftrightarrow> xs = []" using i by (auto simp: xs_def)
      have h: "(args @ rest) ! (i + 1) = hd xs" if "xs \<noteq> []" using that i by (simp add: xs_def hd_drop_conv_nth nth_append)
      have "remove_arg arg (drop i args) = Some (None, xs)" using one True by (cases xs) (simp_all add: d)
      moreover obtain argv' where "shift_down 1 i (length args - 1) (args @ rest) = Some argv'"
        "take (length args - 1) argv' = take i (args @ rest) @ take (length args - 1 - i) (drop (i + 1) (args @ rest))"
      proof -
        have "i \<le> length args - 1" "length args - 1 + 1 \<le> length (args @ rest)" using i by auto
        from shift_down_takes [OF this] show thesis by (auto intro: that)
      qed
      moreover have "take (length args - 1 - i) (drop (i + 1) (args @ rest)) = xs" "length args - 1 = i + length xs" using i by (simp_all add: xs_def)
      moreover have "getarg_loop arg i (length args) (args @ rest) val = map_option (\<lambda>argv. (1, length args - 1, argv, None)) (shift_down 1 i (length args - 1) (args @ rest))"
        using i a True one l h by (subst getarg_loop.simps) (cases "xs = []", simp_all)
      ultimately show ?thesis by simp
    next
      case two: False
      then obtain y ys where y: "xs = y # ys" "\<not> is_dash y" by (cases xs) auto
      have l: "i + 1 < length args" using y(1) i by (auto simp: xs_def) (metis drop_all leI list.discI)
      have h: "(args @ rest) ! (i + 1) = y" using y(1) l by (simp add: xs_def nth_append) (metis hd_drop_conv_nth list.sel(1))
      have ys: "ys = drop (i + 2) args" using y(1) by (simp add: xs_def) (metis drop_Suc list.sel(3) tl_drop)
      have "remove_arg arg (drop i args) = Some (Some y, ys)" using y True by (simp add: d)
      moreover obtain argv' where "shift_down 2 i (length args - 2) (args @ rest) = Some argv'"
        "take (length args - 2) argv' = take i (args @ rest) @ take (length args - 2 - i) (drop (i + 2) (args @ rest))"
      proof -
        have "i \<le> length args - 2" "length args - 2 + 2 \<le> length (args @ rest)" using l by auto
        from shift_down_takes [OF this] show thesis by (auto intro: that)
      qed
      moreover have "take (length args - 2 - i) (drop (i + 2) (args @ rest)) = ys" "length args - 2 = i + length ys" using l by (simp_all add: ys)
      moreover have "getarg_loop arg i (length args) (args @ rest) val = map_option (\<lambda>argv. (1, length args - 2, argv, Some y)) (shift_down 2 i (length args - 2) (args @ rest))"
      proof -
        have "i \<noteq> length args - 1" using l by linarith
        then show ?thesis using l a True y h by (subst getarg_loop.simps) simp
      qed
      ultimately show ?thesis by simp
    qed
  qed
qed

text \<open>
  \<open>getarg\<close> on any arguments. If the option does not occur, the result is 0 and nothing changes. Otherwise the result is 1, its first
  occurrence and its value are taken out of the arguments, the others stay in order, and the value is given back, or NULL when the option is the last word
  or the next word begins with a dash. No access is outside the array.
\<close>

theorem getarg_removes:
  "case remove_arg arg args of
     None \<Rightarrow> getarg (length args) (args @ rest) arg val = Some (0, length args, args @ rest, val)
   | Some (v, r) \<Rightarrow> \<exists>argv'. getarg (length args) (args @ rest) arg val = Some (1, length r, argv', v) \<and> take (length r) argv' = r"
  using getarg_loop_removes [of 0 args arg rest val] by (simp add: getarg_def split: option.splits prod.splits)

end
